(* ===== verification/Prelude.thy ===== *)
theory Prelude
  imports Main "HOL-Library.Word" "HOL-Library.Char_ord" "HOL-Library.List_Lexorder"
    "HOL-Library.Product_Lexorder"
begin

text \<open>
  Vocabulary shared by the whole development: the types that stand for Rust's strings, byte
  vectors and fallible results, 64-bit counter arithmetic with its wrap-around written out, and
  generic lemmas on lists and options. A Rust \<open>String\<close> is modelled by the list of its UTF-8
  bytes (HOL's \<open>string\<close>), whose lexicographic order (List_Lexorder over Char_ord) is the byte
  order of Rust's \<open>Ord for str\<close>. A \<open>Result<T, E>\<close> is a value of \<open>'e + 'a\<close> with \<open>Inl\<close> for the error.
\<close>

named_theorems model_defs \<open>unfolding equations of the straight-line operations of a component\<close>
named_theorems wf_intros \<open>preservation of a component's well-formedness by its operations\<close>
named_theorems frame_simps \<open>fields an operation does not write\<close>

type_synonym bytes = "8 word list"

subsection \<open>Results\<close>

definition result_bind :: "'e + 'a \<Rightarrow> ('a \<Rightarrow> 'e + 'b) \<Rightarrow> 'e + 'b" where
  "result_bind r f = (case r of Inl e \<Rightarrow> Inl e | Inr x \<Rightarrow> f x)"

lemma result_bind_simps [simp]:
  "result_bind (Inl e) f = Inl e"
  "result_bind (Inr x) f = f x"
  by (simp_all add: result_bind_def)

lemma result_bind_Inr_iff:
  "result_bind r f = Inr y \<longleftrightarrow> (\<exists>x. r = Inr x \<and> f x = Inr y)"
  by (cases r) auto

definition is_ok :: "'e + 'a \<Rightarrow> bool" where
  "is_ok r = (case r of Inl _ \<Rightarrow> False | Inr _ \<Rightarrow> True)"

lemma is_ok_simps [simp]: "is_ok (Inl e) = False" "is_ok (Inr x) = True"
  by (simp_all add: is_ok_def)

lemma is_ok_iff: "is_ok r \<longleftrightarrow> (\<exists>x. r = Inr x)"
  by (cases r) auto

text \<open>A \<open>for\<close> loop with \<open>?\<close> in its body: the first error ends it.\<close>

fun fold_result :: "('a \<Rightarrow> 's \<Rightarrow> 'e + 's) \<Rightarrow> 'a list \<Rightarrow> 's \<Rightarrow> 'e + 's" where
  "fold_result f [] s = Inr s"
| "fold_result f (x # xs) s = result_bind (f x s) (fold_result f xs)"

lemma fold_result_append:
  "fold_result f (xs @ ys) s = result_bind (fold_result f xs s) (fold_result f ys)"
proof (induction xs arbitrary: s)
  case (Cons x xs)
  then show ?case by (cases "f x s") simp_all
qed simp

text \<open>\<open>iter().map(f).collect::<Result<Vec<_>, _>>()\<close>\<close>

fun map_result :: "('a \<Rightarrow> 'e + 'b) \<Rightarrow> 'a list \<Rightarrow> 'e + 'b list" where
  "map_result f [] = Inr []"
| "map_result f (x # xs) = result_bind (f x) (\<lambda>y. result_bind (map_result f xs) (\<lambda>ys. Inr (y # ys)))"

lemma map_result_Inr_iff: "map_result f xs = Inr ys \<longleftrightarrow> list_all2 (\<lambda>x y. f x = Inr y) xs ys"
  by (induction xs arbitrary: ys) (auto simp: result_bind_Inr_iff list_all2_Cons1)

text \<open>An invariant of a loop that does not fail.\<close>

lemma fold_result_inv:
  assumes "fold_result f xs s = Inr s'" "P s" "\<And>x s s'. x \<in> set xs \<Longrightarrow> P s \<Longrightarrow> f x s = Inr s' \<Longrightarrow> P s'"
  shows "P s'"
  using assms
proof (induction xs arbitrary: s)
  case (Cons x xs)
  then obtain s1 where s1: "f x s = Inr s1" "fold_result f xs s1 = Inr s'"
    by (auto simp: result_bind_Inr_iff)
  have "P s1" using Cons.prems(3) [of x s s1] Cons.prems(2) s1(1) by simp
  then show ?case
  proof (rule Cons.IH [OF s1(2)])
    show "P t'" if "y \<in> set xs" "P t" "f y t = Inr t'" for y t t'
      using Cons.prems(3) [of y t t'] that by simp
  qed
qed simp

subsection \<open>Unsigned 64-bit counters on nat\<close>

text \<open>
  \<open>wadd64\<close> is the wrapping addition of \<open>AtomicU64::fetch_add\<close>; \<open>sat_add64\<close> is
  \<open>u64::saturating_add\<close>. On nat, \<open>-\<close> is already \<open>saturating_sub\<close>.
\<close>

definition u64_max :: nat where
  "u64_max = 2 ^ 64 - 1"

definition wadd64 :: "nat \<Rightarrow> nat \<Rightarrow> nat" where
  "wadd64 a b = (a + b) mod 2 ^ 64"

definition sat_add64 :: "nat \<Rightarrow> nat \<Rightarrow> nat" where
  "sat_add64 a b = min u64_max (a + b)"

lemma wadd64_exact: "a + b \<le> u64_max \<Longrightarrow> wadd64 a b = a + b"
  by (simp add: wadd64_def u64_max_def)

lemma wadd64_Suc [simp]: "a < u64_max \<Longrightarrow> wadd64 a 1 = Suc a"
  by (simp add: wadd64_def u64_max_def)

lemma wadd64_bound: "wadd64 a b \<le> u64_max"
proof -
  have "wadd64 a b < 2 ^ 64" by (simp add: wadd64_def)
  then show ?thesis by (simp add: u64_max_def)
qed

subsection \<open>Lists and options\<close>

definition last_opt :: "'a list \<Rightarrow> 'a option" where
  "last_opt xs = (if xs = [] then None else Some (last xs))"

definition head_opt :: "'a list \<Rightarrow> 'a option" where
  "head_opt xs = (case xs of [] \<Rightarrow> None | x # _ \<Rightarrow> Some x)"

lemma last_opt_simps [simp]:
  "last_opt [] = None"
  "last_opt [x] = Some x"
  "last_opt (xs @ [x]) = Some x"
  "(last_opt xs = None) = (xs = [])"
  by (simp_all add: last_opt_def)

lemma head_opt_simps [simp]:
  "head_opt [] = None"
  "head_opt (x # xs) = Some x"
  "(head_opt xs = None) = (xs = [])"
  by (auto simp: head_opt_def split: list.splits)

lemma last_opt_mem: "last_opt xs = Some x \<Longrightarrow> x \<in> set xs"
  by (auto simp: last_opt_def split: if_splits)

lemma head_opt_mem: "head_opt xs = Some x \<Longrightarrow> x \<in> set xs"
  by (cases xs) auto

lemma last_opt_append:
  "last_opt (xs @ ys) = (if ys = [] then last_opt xs else last_opt ys)"
  by (simp add: last_opt_def)

lemma last_opt_map: "last_opt (map f xs) = map_option f (last_opt xs)"
  by (simp add: last_opt_def last_map)

lemma last_opt_filter_keep:
  "last_opt xs = Some x \<Longrightarrow> P x \<Longrightarrow> last_opt (filter P xs) = Some x"
  by (cases xs rule: rev_cases) auto

lemma last_opt_sorted_max:
  assumes "sorted_wrt (\<lambda>x y. f x \<le> (f y :: 'b::preorder)) xs" "last_opt (filter P xs) = Some m"
    "x \<in> set xs" "P x"
  shows "f x \<le> f m"
proof -
  let ?ys = "filter P xs"
  have ne: "?ys \<noteq> []" and m: "m = last ?ys"
    using assms(2) by (auto simp: last_opt_def split: if_splits)
  have "sorted_wrt (\<lambda>x y. f x \<le> f y) (butlast ?ys @ [m])"
    using sorted_wrt_filter [OF assms(1)] ne m by simp
  moreover have "x \<in> set (butlast ?ys @ [m])"
    using assms(3,4) ne m by simp
  ultimately show ?thesis by (auto simp: sorted_wrt_append)
qed

lemma sum_list_map_filter_eq:
  "length (filter P xs) + length (filter (\<lambda>x. \<not> P x) xs) = length xs"
  by (induction xs) auto

subsection \<open>Invariants of a transition system\<close>

text \<open>
  The contract every state machine of the development meets: its invariant holds at the start and
  every step keeps it. What follows for whole runs is proved once, here.
\<close>

locale inductive_invariant =
  fixes start :: "'s \<Rightarrow> bool"
    and step :: "'s \<Rightarrow> 's \<Rightarrow> bool"
    and inv :: "'s \<Rightarrow> bool"
  assumes inv_start: "start s \<Longrightarrow> inv s"
    and inv_step: "inv s \<Longrightarrow> step s s' \<Longrightarrow> inv s'"
begin

lemma inv_run: "inv s \<Longrightarrow> step\<^sup>*\<^sup>* s s' \<Longrightarrow> inv s'"
  by (rotate_tac, induction rule: rtranclp_induct) (auto intro: inv_step)

lemma inv_reachable: "start s \<Longrightarrow> step\<^sup>*\<^sup>* s s' \<Longrightarrow> inv s'"
  by (rule inv_run [OF inv_start])

text \<open>A quantity that no step from a state of the invariant decreases.\<close>

lemma monotone_run:
  fixes f :: "'s \<Rightarrow> 'a::preorder"
  assumes "\<And>s s'. inv s \<Longrightarrow> step s s' \<Longrightarrow> f s \<le> f s'" "inv s" "step\<^sup>*\<^sup>* s s'"
  shows "f s \<le> f s'"
  using assms(3)
proof (induction rule: rtranclp_induct)
  case (step y z)
  with assms(1) [OF inv_run [OF assms(2) step.hyps(1)] step.hyps(2)] show ?case
    using order_trans by blast
qed simp

end

end
