(* ===== verification/BTree_Map.thy ===== *)
theory BTree_Map
  imports Prelude
begin

text \<open>
  Ordered and unordered dictionaries. Rust's \<open>BTreeMap\<close> is an association list with strictly
  ascending keys: iteration order, \<open>keys().next()\<close>, \<open>range(..=k)\<close> and \<open>range(k..)\<close> are then
  list operations that evaluate. Rust's \<open>HashMap\<close>/\<open>DashMap\<close> is a HOL map. The locale
  \<open>dictionary\<close> states the laws clients use of either, and both models interpret it.
\<close>

subsection \<open>The contract of a dictionary\<close>

locale dictionary =
  fixes lookup :: "'m \<Rightarrow> 'k \<Rightarrow> 'v option"
    and store :: "'k \<Rightarrow> 'v \<Rightarrow> 'm \<Rightarrow> 'm"
    and discard :: "'k \<Rightarrow> 'm \<Rightarrow> 'm"
    and valid :: "'m \<Rightarrow> bool"
  assumes lookup_store: "lookup (store k v m) j = (if j = k then Some v else lookup m j)"
    and lookup_discard: "lookup (discard k m) j = (if j = k then None else lookup m j)"
    and valid_store: "valid m \<Longrightarrow> valid (store k v m)"
    and valid_discard: "valid m \<Longrightarrow> valid (discard k m)"
begin

lemma lookup_fold_store:
  "lookup (fold (\<lambda>(k, v). store k v) kvs m) j =
     (case map_of (rev kvs) j of Some v \<Rightarrow> Some v | None \<Rightarrow> lookup m j)"
proof (induction kvs arbitrary: m)
  case Nil
  then show ?case by simp
next
  case (Cons e kvs)
  obtain k v where e: "e = (k, v)" by (cases e)
  show ?case
    by (simp add: e Cons.IH lookup_store map_add_def split: option.splits)
qed

lemma valid_fold_store: "valid m \<Longrightarrow> valid (fold (\<lambda>(k, v). store k v) kvs m)"
  by (induction kvs arbitrary: m) (auto simp: valid_store)

lemma lookup_fold_discard:
  "lookup (fold discard ks m) j = (if j \<in> set ks then None else lookup m j)"
  by (induction ks arbitrary: m) (auto simp: lookup_discard)

lemma valid_fold_discard: "valid m \<Longrightarrow> valid (fold discard ks m)"
  by (induction ks arbitrary: m) (auto simp: valid_discard)

lemma store_then_lookup: "lookup (store k v m) k = Some v"
  by (simp add: lookup_store)

lemma discard_then_lookup: "lookup (discard k m) k = None"
  by (simp add: lookup_discard)

end

subsection \<open>BTreeMap\<close>

type_synonym ('k, 'v) btree = "('k \<times> 'v) list"

definition bt_wf :: "('k::linorder, 'v) btree \<Rightarrow> bool" where
  "bt_wf m \<longleftrightarrow> sorted_wrt (<) (map fst m)"

definition bt_get :: "('k::linorder, 'v) btree \<Rightarrow> 'k \<Rightarrow> 'v option" where
  "bt_get m k = map_of m k"

definition bt_insert :: "'k::linorder \<Rightarrow> 'v \<Rightarrow> ('k, 'v) btree \<Rightarrow> ('k, 'v) btree" where
  "bt_insert k v m = filter (\<lambda>e. fst e < k) m @ (k, v) # filter (\<lambda>e. k < fst e) m"

definition bt_remove :: "'k::linorder \<Rightarrow> ('k, 'v) btree \<Rightarrow> ('k, 'v) btree" where
  "bt_remove k m = filter (\<lambda>e. fst e \<noteq> k) m"

definition bt_keys :: "('k::linorder, 'v) btree \<Rightarrow> 'k list" where
  "bt_keys m = map fst m"

definition bt_upto :: "'k::linorder \<Rightarrow> ('k, 'v) btree \<Rightarrow> ('k, 'v) btree" where
  "bt_upto k m = filter (\<lambda>e. fst e \<le> k) m"

definition bt_below :: "'k::linorder \<Rightarrow> ('k, 'v) btree \<Rightarrow> ('k, 'v) btree" where
  "bt_below k m = filter (\<lambda>e. fst e < k) m"

definition bt_from :: "'k::linorder \<Rightarrow> ('k, 'v) btree \<Rightarrow> ('k, 'v) btree" where
  "bt_from k m = filter (\<lambda>e. k \<le> fst e) m"

lemma map_of_filter_key:
  "map_of (filter (\<lambda>e. P (fst e)) m) k = (if P k then map_of m k else None)"
  by (induction m) auto

lemmas map_of_filter_keys =
  map_of_filter_key [where P = "\<lambda>x. x < k" for k]
  map_of_filter_key [where P = "\<lambda>x. k < x" for k]
  map_of_filter_key [where P = "\<lambda>x. x \<le> k" for k]
  map_of_filter_key [where P = "\<lambda>x. k \<le> x" for k]
  map_of_filter_key [where P = "\<lambda>x. x \<noteq> k" for k]

lemma bt_get_empty [simp]: "bt_get [] k = None"
  by (simp add: bt_get_def)

lemma bt_wf_Nil [simp]: "bt_wf []"
  by (simp add: bt_wf_def)

lemma bt_get_insert [simp]: "bt_get (bt_insert k v m) j = (if j = k then Some v else bt_get m j)"
  by (auto simp: bt_get_def bt_insert_def map_add_def map_of_filter_keys split: option.splits)

lemma bt_get_remove [simp]: "bt_get (bt_remove k m) j = (if j = k then None else bt_get m j)"
  by (simp add: bt_get_def bt_remove_def map_of_filter_keys)

lemma bt_wf_filter: "bt_wf m \<Longrightarrow> bt_wf (filter P m)"
  by (induction m) (auto simp: bt_wf_def)

lemma bt_wf_insert [wf_intros]:
  assumes "bt_wf m" shows "bt_wf (bt_insert k v m)"
proof -
  have lo: "bt_wf (filter (\<lambda>e. fst e < k) m)" and hi: "bt_wf (filter (\<lambda>e. k < fst e) m)"
    using assms by (auto intro: bt_wf_filter)
  then show ?thesis
    by (auto simp: bt_wf_def bt_insert_def sorted_wrt_append)
qed

lemma bt_wf_remove [wf_intros]: "bt_wf m \<Longrightarrow> bt_wf (bt_remove k m)"
  by (simp add: bt_remove_def bt_wf_filter)

lemma bt_wf_distinct: "bt_wf m \<Longrightarrow> distinct (map fst m)"
  by (simp add: bt_wf_def strict_sorted_iff)

lemma bt_wf_Cons:
  "bt_wf (e # m) \<longleftrightarrow> (\<forall>x\<in>set m. fst e < fst x) \<and> bt_wf m"
  by (simp add: bt_wf_def)

lemma bt_wf_snoc:
  "bt_wf (m @ [e]) \<longleftrightarrow> bt_wf m \<and> (\<forall>x\<in>set m. fst x < fst e)"
  by (auto simp: bt_wf_def sorted_wrt_append)

lemma bt_get_Some_iff: "bt_wf m \<Longrightarrow> bt_get m k = Some v \<longleftrightarrow> (k, v) \<in> set m"
  by (simp add: bt_get_def bt_wf_distinct)

lemma bt_get_None_iff: "bt_get m k = None \<longleftrightarrow> k \<notin> fst ` set m"
  by (simp add: bt_get_def map_of_eq_None_iff)

lemma bt_keys_insert: "set (bt_keys (bt_insert k v m)) = insert k (set (bt_keys m))"
  by (auto simp: bt_keys_def bt_insert_def image_iff)

lemma set_bt_insert:
  "set (bt_insert k v m) = insert (k, v) {e \<in> set m. fst e \<noteq> k}"
  by (auto simp: bt_insert_def)

lemma bt_insert_top:
  assumes "bt_wf m" and "\<forall>x\<in>set m. fst x < k"
  shows "bt_insert k v m = m @ [(k, v)]"
proof -
  have "filter (\<lambda>e. fst e < k) m = m" using assms(2) by simp
  moreover have "filter (\<lambda>e. k < fst e) m = []"
    using assms(2) by (force simp: filter_empty_conv)
  ultimately show ?thesis by (simp add: bt_insert_def)
qed

text \<open>Two well-formed maps with the same lookups are the same list.\<close>

lemma bt_ext:
  assumes "bt_wf m" "bt_wf n" "\<And>k. bt_get m k = bt_get n k"
  shows "m = n"
proof -
  have sets: "set m = set n"
  proof (rule set_eqI)
    fix e :: "'a \<times> 'b"
    obtain k v where "e = (k, v)" by (cases e)
    then show "e \<in> set m \<longleftrightarrow> e \<in> set n"
      using assms bt_get_Some_iff by metis
  qed
  show ?thesis
  proof (rule map_sorted_distinct_set_unique [where f = fst])
    show "inj_on fst (set m \<union> set n)"
      using bt_wf_distinct [OF assms(1)] sets by (simp add: distinct_map)
    show "sorted (map fst m)" "sorted (map fst n)"
      using assms(1,2) by (simp_all add: bt_wf_def strict_sorted_imp_sorted)
    show "distinct (map fst m)" "distinct (map fst n)"
      using assms(1,2) by (simp_all add: bt_wf_distinct)
  qed (rule sets)
qed

subsection \<open>Iteration over a BTreeMap\<close>

text \<open>\<open>values_mut()\<close>: every value is updated in place.\<close>

definition bt_map_values :: "('k \<Rightarrow> 'v \<Rightarrow> 'w) \<Rightarrow> ('k::linorder, 'v) btree \<Rightarrow> ('k, 'w) btree" where
  "bt_map_values f m = map (\<lambda>(k, v). (k, f k v)) m"

lemma bt_keys_map_values [simp]: "bt_keys (bt_map_values f m) = bt_keys m"
  by (auto simp: bt_keys_def bt_map_values_def)

lemma bt_get_map_values [simp]: "bt_get (bt_map_values f m) k = map_option (f k) (bt_get m k)"
  by (induction m) (auto simp: bt_get_def bt_map_values_def)

lemma bt_wf_map_values [wf_intros]: "bt_wf m \<Longrightarrow> bt_wf (bt_map_values f m)"
proof -
  have "map fst (bt_map_values f m) = map fst m"
    by (auto simp: bt_map_values_def)
  then show "bt_wf m \<Longrightarrow> bt_wf (bt_map_values f m)" by (simp add: bt_wf_def)
qed

text \<open>\<open>extend\<close> with the pairs of another map.\<close>

definition bt_extend :: "('k::linorder, 'v) btree \<Rightarrow> ('k \<times> 'v) list \<Rightarrow> ('k, 'v) btree" where
  "bt_extend m kvs = fold (\<lambda>(k, v). bt_insert k v) kvs m"

interpretation bt: dictionary bt_get bt_insert bt_remove bt_wf
  by unfold_locales (auto intro: wf_intros)

lemma bt_get_extend:
  "bt_get (bt_extend m kvs) k =
     (case map_of (rev kvs) k of Some v \<Rightarrow> Some v | None \<Rightarrow> bt_get m k)"
  by (simp add: bt_extend_def bt.lookup_fold_store)

lemma bt_wf_extend [wf_intros]: "bt_wf m \<Longrightarrow> bt_wf (bt_extend m kvs)"
  by (simp add: bt_extend_def bt.valid_fold_store)

lemma bt_map_of_rev: "bt_wf n \<Longrightarrow> map_of (rev n) = map_of n"
  by (subst map_of_inject_set) (simp_all add: bt_wf_distinct rev_map [symmetric])

lemma bt_get_extend_wf:
  "bt_wf n \<Longrightarrow> bt_get (bt_extend m n) k = (case bt_get n k of Some v \<Rightarrow> Some v | None \<Rightarrow> bt_get m k)"
  by (simp add: bt_get_extend bt_map_of_rev) (simp add: bt_get_def)

lemma bt_get_extend_empty:
  assumes "bt_wf n" shows "bt_extend [] n = n"
proof (rule bt_ext)
  show "bt_wf (bt_extend [] n)" by (auto intro: wf_intros)
qed (use assms in \<open>auto simp: bt_get_extend_wf split: option.splits\<close>)

lemma fold_bt_remove: "fold bt_remove ks m = filter (\<lambda>e. fst e \<notin> set ks) m"
  by (induction ks arbitrary: m) (auto simp: bt_remove_def conj_commute intro: filter_cong)

subsection \<open>HashMap\<close>

definition hm_insert :: "'k \<Rightarrow> 'v \<Rightarrow> ('k \<rightharpoonup> 'v) \<Rightarrow> ('k \<rightharpoonup> 'v)" where
  "hm_insert k v m = m(k \<mapsto> v)"

definition hm_remove :: "'k \<Rightarrow> ('k \<rightharpoonup> 'v) \<Rightarrow> ('k \<rightharpoonup> 'v)" where
  "hm_remove k m = m(k := None)"

interpretation hm: dictionary "\<lambda>m. m" hm_insert hm_remove "\<lambda>m. finite (dom m)"
  by unfold_locales (auto simp: hm_insert_def hm_remove_def)

end
