(* ===== verification/Mvcc_Key.thy ===== *)
theory Mvcc_Key
  imports BTree_Map
begin

text \<open>
  One logical key of the multi-version store: \<open>MvccKeyState\<close> of crates/storage/src/mvcc.rs, with
  its head, its archive of superseded versions and the operations the store calls on it. Versions
  are u64 commit counters, kept as nat (no operation here does arithmetic on them); a value is
  \<open>Option<Vec<u8>>\<close>, where \<open>None\<close> records a deletion. The specification is the plain history of
  the key: a read at a timestamp returns the newest entry not after it.
\<close>

subsection \<open>State\<close>

record logical_state_head =
  lsh_floor :: nat
  lsh_head :: nat
  lsh_tombstoned :: bool
  lsh_current :: "bytes option"

record key_state =
  ks_head :: "logical_state_head option"
  ks_archived :: "(nat, bytes option) btree"

record logical_head =
  lh_floor :: nat
  lh_head :: nat
  lh_tombstoned :: bool

definition ks_default :: key_state where
  "ks_default = \<lparr>ks_head = None, ks_archived = []\<rparr>"

subsection \<open>Operations\<close>

definition append_version :: "nat \<Rightarrow> bytes option \<Rightarrow> key_state \<Rightarrow> key_state" where
  "append_version version value st =
     (case ks_head st of
        Some previous \<Rightarrow>
          st\<lparr>ks_archived := bt_insert (lsh_head previous) (lsh_current previous) (ks_archived st),
             ks_head := Some \<lparr>lsh_floor = lsh_floor previous, lsh_head = version,
                              lsh_tombstoned = (value = None), lsh_current = value\<rparr>\<rparr>
      | None \<Rightarrow>
          st\<lparr>ks_head := Some \<lparr>lsh_floor = version, lsh_head = version,
                              lsh_tombstoned = (value = None), lsh_current = value\<rparr>\<rparr>)"

definition read_at :: "key_state \<Rightarrow> nat \<Rightarrow> bytes option" where
  "read_at st read_ts =
     (case ks_head st of
        None \<Rightarrow> None
      | Some head \<Rightarrow>
          if read_ts < lsh_floor head then None
          else if lsh_head head \<le> read_ts
          then (if lsh_tombstoned head then None else lsh_current head)
          else (case last_opt (bt_upto read_ts (ks_archived st)) of
                  None \<Rightarrow> None | Some (_, value) \<Rightarrow> value))"

definition retained_versions :: "key_state \<Rightarrow> nat" where
  "retained_versions st = length (ks_archived st) + (if ks_head st = None then 0 else 1)"

definition compute_floor_for_request :: "key_state \<Rightarrow> nat \<Rightarrow> nat option" where
  "compute_floor_for_request st requested_floor =
     (case ks_head st of
        None \<Rightarrow> None
      | Some head \<Rightarrow>
          let requested_floor = min requested_floor (lsh_head head)
          in if lsh_head head \<le> requested_floor then Some (lsh_head head)
             else Some (case head_opt (bt_from requested_floor (ks_archived st)) of
                          Some (version, _) \<Rightarrow> version
                        | None \<Rightarrow> lsh_head head))"

definition set_floor :: "nat \<Rightarrow> key_state \<Rightarrow> key_state" where
  "set_floor new_floor st =
     st\<lparr>ks_head := map_option (\<lambda>head. head\<lparr>lsh_floor := new_floor\<rparr>) (ks_head st)\<rparr>"

definition prune_to_floor :: "nat \<Rightarrow> key_state \<Rightarrow> key_state \<times> nat" where
  "prune_to_floor requested_floor st =
     (case compute_floor_for_request st requested_floor of
        None \<Rightarrow> (st, 0)
      | Some new_floor \<Rightarrow>
          let removed_keys = bt_keys (bt_below new_floor (ks_archived st));
              st' = st\<lparr>ks_archived := fold bt_remove removed_keys (ks_archived st)\<rparr>
          in (set_floor new_floor st', length removed_keys))"

definition reader_anchor_version :: "key_state \<Rightarrow> nat option \<Rightarrow> nat option" where
  "reader_anchor_version st oldest_active_reader =
     (case (ks_head st, oldest_active_reader) of
        (Some head, Some read_ts) \<Rightarrow>
          if lsh_head head \<le> read_ts then Some (lsh_head head)
          else (case last_opt (bt_upto read_ts (ks_archived st)) of
                  Some (version, _) \<Rightarrow> Some version
                | None \<Rightarrow> Some (lsh_head head))
      | _ \<Rightarrow> None)"

definition keep_versions :: "nat \<Rightarrow> nat option \<Rightarrow> logical_state_head \<Rightarrow> key_state \<Rightarrow> nat set" where
  "keep_versions max_versions oldest_active_reader head st =
     insert (lsh_head head) (set (take (max_versions - 1) (rev (bt_keys (ks_archived st)))))
       \<union> (case reader_anchor_version st oldest_active_reader of
            Some reader_anchor \<Rightarrow> {reader_anchor} | None \<Rightarrow> {})"

definition prune_to_max_versions :: "nat \<Rightarrow> nat option \<Rightarrow> key_state \<Rightarrow> key_state \<times> nat" where
  "prune_to_max_versions max_versions oldest_active_reader st =
     (case ks_head st of
        None \<Rightarrow> (st, 0)
      | Some head \<Rightarrow>
          let keep = keep_versions max_versions oldest_active_reader head st;
              new_floor = Min keep;
              removed_keys = filter (\<lambda>v. v \<notin> keep) (bt_keys (ks_archived st));
              st' = st\<lparr>ks_archived := fold bt_remove removed_keys (ks_archived st)\<rparr>
          in (set_floor new_floor st', length removed_keys))"

definition prune_debt :: "key_state \<Rightarrow> nat \<Rightarrow> nat" where
  "prune_debt st candidate_floor =
     (case compute_floor_for_request st candidate_floor of
        None \<Rightarrow> 0
      | Some new_floor \<Rightarrow> length (bt_below new_floor (ks_archived st)))"

definition logical_head_of :: "key_state \<Rightarrow> logical_head option" where
  "logical_head_of st =
     map_option (\<lambda>head. \<lparr>lh_floor = lsh_floor head, lh_head = lsh_head head,
                         lh_tombstoned = lsh_tombstoned head\<rparr>) (ks_head st)"

subsection \<open>Specification: the history of a key\<close>

definition visible :: "(nat \<times> bytes option) list \<Rightarrow> nat \<Rightarrow> bytes option" where
  "visible h ts = (case last_opt (filter (\<lambda>e. fst e \<le> ts) h) of None \<Rightarrow> None | Some e \<Rightarrow> snd e)"

definition ks_history :: "key_state \<Rightarrow> (nat \<times> bytes option) list" where
  "ks_history st = ks_archived st @
     (case ks_head st of None \<Rightarrow> [] | Some head \<Rightarrow> [(lsh_head head, lsh_current head)])"

definition head_version :: "key_state \<Rightarrow> nat option" where
  "head_version st = map_option lsh_head (ks_head st)"

definition floor_version :: "key_state \<Rightarrow> nat option" where
  "floor_version st = map_option lsh_floor (ks_head st)"

definition at_most :: "nat option \<Rightarrow> nat \<Rightarrow> bool" where
  "at_most newest v \<longleftrightarrow> (\<forall>h. newest = Some h \<longrightarrow> h \<le> v)"

lemma at_most_simps [simp]: "at_most None v" "at_most (Some h) v \<longleftrightarrow> h \<le> v"
  by (simp_all add: at_most_def)

lemma at_most_mono: "at_most n v \<Longrightarrow> v \<le> w \<Longrightarrow> at_most n w"
  by (auto simp: at_most_def)

definition ks_wf :: "key_state \<Rightarrow> bool" where
  "ks_wf st \<longleftrightarrow> bt_wf (ks_archived st) \<and>
     (case ks_head st of
        None \<Rightarrow> ks_archived st = []
      | Some head \<Rightarrow>
          (\<forall>e\<in>set (ks_archived st). lsh_floor head \<le> fst e \<and> fst e \<le> lsh_head head) \<and>
          (lsh_floor head = lsh_head head \<or> lsh_floor head \<in> fst ` set (ks_archived st)) \<and>
          (lsh_tombstoned head \<longleftrightarrow> lsh_current head = None))"

lemma ks_wf_default [simp]: "ks_wf ks_default"
  by (simp add: ks_wf_def ks_default_def)

lemma ks_wf_floor_le_head:
  "ks_wf st \<Longrightarrow> ks_head st = Some head \<Longrightarrow> lsh_floor head \<le> lsh_head head"
  by (auto simp: ks_wf_def)

lemma visible_snoc:
  "visible (h @ [(v, x)]) ts = (if v \<le> ts then x else visible h ts)"
  by (simp add: visible_def last_opt_append)

lemma visible_Nil [simp]: "visible [] ts = None"
  by (simp add: visible_def)

lemma visible_single [simp]: "visible [(v, x)] ts = (if v \<le> ts then x else None)"
  using visible_snoc [of "[]" v x ts] by simp

lemma visible_none_below:
  "(\<forall>e\<in>set h. ts < fst e) \<Longrightarrow> visible h ts = None"
  by (auto simp: visible_def last_opt_def filter_empty_conv)

lemma last_opt_upto_insert:
  assumes "bt_wf m" and "\<forall>e\<in>set m. fst e \<le> k"
  shows "filter (\<lambda>e. fst e \<le> ts) (bt_insert k x m) =
    filter (\<lambda>e. fst e \<le> ts \<and> fst e < k) m @ (if k \<le> ts then [(k, x)] else [])"
proof -
  have "filter (\<lambda>e. k < fst e) m = []"
    using assms(2) by (force simp: filter_empty_conv)
  then show ?thesis by (auto simp: bt_insert_def conj_commute intro: filter_cong)
qed

lemma visible_append_history:
  assumes "ks_wf st" and "at_most (head_version st) v"
  shows "visible (ks_history (append_version v x st)) ts =
    (if v \<le> ts then x else visible (ks_history st) ts)"
proof (cases "ks_head st")
  case None
  with assms show ?thesis
    by (simp add: append_version_def ks_history_def ks_wf_def visible_snoc)
next
  case (Some h)
  let ?a = "ks_archived st" and ?k = "lsh_head h" and ?c = "lsh_current h"
  have a: "bt_wf ?a" "\<forall>e\<in>set ?a. fst e \<le> ?k"
    using assms(1) Some by (auto simp: ks_wf_def)
  have "visible (bt_insert ?k ?c ?a) ts = visible (ks_history st) ts" if "ts < v"
  proof (cases "?k \<le> ts")
    case True
    then show ?thesis
      by (simp add: visible_def ks_history_def Some last_opt_upto_insert [OF a] last_opt_append)
  next
    case False
    then have "filter (\<lambda>e. fst e \<le> ts \<and> fst e < ?k) ?a = filter (\<lambda>e. fst e \<le> ts) ?a"
      by (auto intro: filter_cong)
    with False show ?thesis
      by (simp add: visible_def ks_history_def Some last_opt_upto_insert [OF a])
  qed
  then show ?thesis
    by (simp add: append_version_def ks_history_def Some visible_snoc)
qed

lemma ks_wf_append [wf_intros]:
  assumes "ks_wf st" and "at_most (head_version st) v"
  shows "ks_wf (append_version v x st)"
proof (cases "ks_head st")
  case None
  with assms show ?thesis by (simp add: append_version_def ks_wf_def)
next
  case (Some h)
  let ?a = "ks_archived st"
  have fl: "lsh_floor h \<le> lsh_head h"
    using assms(1) Some by (rule ks_wf_floor_le_head)
  have hv: "lsh_head h \<le> v" using assms(2) Some by (simp add: head_version_def)
  have a: "bt_wf ?a" "\<forall>e\<in>set ?a. lsh_floor h \<le> fst e \<and> fst e \<le> lsh_head h"
    "lsh_floor h = lsh_head h \<or> lsh_floor h \<in> fst ` set ?a"
    using assms(1) Some by (auto simp: ks_wf_def)
  have "\<forall>e\<in>set (bt_insert (lsh_head h) (lsh_current h) ?a). lsh_floor h \<le> fst e \<and> fst e \<le> v"
    using a(2) fl hv by (auto simp: set_bt_insert)
  moreover have "lsh_floor h \<in> set (bt_keys (bt_insert (lsh_head h) (lsh_current h) ?a))"
    unfolding bt_keys_insert using a(3) by (auto simp: bt_keys_def)
  ultimately show ?thesis
    using a(1) Some by (simp add: append_version_def ks_wf_def bt_wf_insert bt_keys_def)
qed

lemma head_version_append [simp]: "head_version (append_version v x st) = Some v"
  by (simp add: head_version_def append_version_def split: option.splits)

subsection \<open>Reads\<close>

lemma read_at_visible:
  assumes "ks_wf st" shows "read_at st ts = visible (ks_history st) ts"
proof (cases "ks_head st")
  case None
  with assms show ?thesis by (simp add: read_at_def ks_history_def ks_wf_def visible_def)
next
  case (Some h)
  have fl: "lsh_floor h \<le> lsh_head h" using assms Some by (rule ks_wf_floor_le_head)
  have tomb: "lsh_tombstoned h \<longleftrightarrow> lsh_current h = None"
    and arch: "\<forall>e\<in>set (ks_archived st). lsh_floor h \<le> fst e"
    using assms Some by (auto simp: ks_wf_def)
  have hist: "ks_history st = ks_archived st @ [(lsh_head h, lsh_current h)]"
    by (simp add: ks_history_def Some)
  consider (low) "ts < lsh_floor h" | (top) "lsh_head h \<le> ts" "\<not> ts < lsh_floor h"
    | (mid) "\<not> ts < lsh_floor h" "\<not> lsh_head h \<le> ts"
    by linarith
  then show ?thesis
  proof cases
    case low
    then have "visible (ks_history st) ts = None"
      using arch fl by (force simp: hist intro!: visible_none_below)
    with low show ?thesis by (simp add: read_at_def Some)
  next
    case top
    then show ?thesis by (simp add: read_at_def Some hist visible_snoc tomb)
  next
    case mid
    then show ?thesis
      by (auto simp: read_at_def Some hist visible_snoc visible_def bt_upto_def split: option.splits)
  qed
qed

subsection \<open>Pruning\<close>

lemma history_sorted:
  assumes "ks_wf st"
  shows "sorted_wrt (\<lambda>x y. fst x \<le> fst y) (ks_history st)"
proof -
  have "sorted_wrt (\<lambda>x y. fst x < fst y) (ks_archived st)"
    using assms by (simp add: ks_wf_def bt_wf_def sorted_wrt_map)
  then have "sorted_wrt (\<lambda>x y. fst x \<le> fst y) (ks_archived st)"
    by (rule sorted_wrt_mono_rel [rotated]) simp
  then show ?thesis
    using assms by (auto simp: ks_wf_def ks_history_def sorted_wrt_append split: option.splits)
qed

lemma visible_filter:
  assumes "\<And>e. last_opt (filter (\<lambda>e. fst e \<le> ts) h) = Some e \<Longrightarrow> P e"
  shows "visible (filter P h) ts = visible h ts"
proof -
  let ?v = "filter (\<lambda>e. fst e \<le> ts) h"
  have comm: "filter (\<lambda>e. fst e \<le> ts) (filter P h) = filter P ?v"
    by (simp add: conj_commute)
  show ?thesis
  proof (cases "last_opt ?v")
    case None
    then have "?v = []" by simp
    then show ?thesis by (simp add: visible_def comm del: filter_filter)
  next
    case (Some e)
    have "last_opt (filter P ?v) = Some e"
      by (rule last_opt_filter_keep [where P = P, OF Some assms [OF Some]])
    with Some show ?thesis by (simp add: visible_def comm del: filter_filter)
  qed
qed

text \<open>
  A pruned history answers every read at or after a version that pruning kept, as long as the
  newer versions were kept too.
\<close>

lemma visible_filter_from:
  assumes wf: "ks_wf st" and keep: "\<forall>e\<in>set (ks_history st). w \<le> fst e \<longrightarrow> P e"
    and w: "w \<in> fst ` set (ks_history st)" and ts: "w \<le> ts"
  shows "visible (filter P (ks_history st)) ts = visible (ks_history st) ts"
proof (rule visible_filter)
  fix e assume last: "last_opt (filter (\<lambda>e. fst e \<le> ts) (ks_history st)) = Some e"
  obtain x where "x \<in> set (ks_history st)" "fst x = w" using w by auto
  then have "w \<le> fst e"
    using last_opt_sorted_max [OF history_sorted [OF wf] last, of x] ts by simp
  moreover have "e \<in> set (ks_history st)"
    using last by (auto dest: last_opt_mem)
  ultimately show "P e" using keep by blast
qed

lemma ks_archived_set_floor [simp]: "ks_archived (set_floor f st) = ks_archived st"
  by (simp add: set_floor_def)

lemma ks_head_set_floor [simp]:
  "ks_head (set_floor f st) = map_option (\<lambda>head. head\<lparr>lsh_floor := f\<rparr>) (ks_head st)"
  by (simp add: set_floor_def)

lemma head_version_set_floor [simp]: "head_version (set_floor f st) = head_version st"
  by (cases "ks_head st") (simp_all add: head_version_def)

lemma compute_floor_bounds:
  assumes "ks_wf st" "ks_head st = Some head" "compute_floor_for_request st req = Some f"
  shows "f \<le> lsh_head head" and "f \<in> fst ` set (ks_history st)" and "min req (lsh_head head) \<le> f"
proof -
  have "f \<le> lsh_head head \<and> f \<in> fst ` set (ks_history st) \<and> min req (lsh_head head) \<le> f"
  proof (cases "lsh_head head \<le> min req (lsh_head head)")
    case True
    with assms show ?thesis by (auto simp: compute_floor_for_request_def ks_history_def)
  next
    case False
    show ?thesis
    proof (cases "head_opt (bt_from (min req (lsh_head head)) (ks_archived st))")
      case None
      with assms False show ?thesis
        by (auto simp: compute_floor_for_request_def ks_history_def)
    next
      case (Some e)
      have f: "f = fst e"
        using assms False Some by (cases e) (simp add: compute_floor_for_request_def Let_def)
      have e: "e \<in> set (ks_archived st)" "min req (lsh_head head) \<le> fst e"
        using head_opt_mem [OF Some] by (auto simp: bt_from_def)
      with assms show ?thesis by (auto simp: f ks_history_def ks_wf_def)
    qed
  qed
  then show "f \<le> lsh_head head" "f \<in> fst ` set (ks_history st)" "min req (lsh_head head) \<le> f"
    by auto
qed

lemma prune_to_floor_eq:
  assumes "compute_floor_for_request st req = Some f"
  shows "prune_to_floor req st =
    (set_floor f (st\<lparr>ks_archived := filter (\<lambda>e. f \<le> fst e) (ks_archived st)\<rparr>),
     length (bt_below f (ks_archived st)))"
proof -
  have "filter (\<lambda>e. fst e \<notin> set (bt_keys (bt_below f (ks_archived st)))) (ks_archived st) =
      filter (\<lambda>e. f \<le> fst e) (ks_archived st)"
    by (rule filter_cong) (auto simp: bt_keys_def bt_below_def)
  then show ?thesis
    using assms by (simp add: prune_to_floor_def Let_def fold_bt_remove bt_keys_def)
qed

lemma prune_to_floor_no_head:
  "compute_floor_for_request st req = None \<longleftrightarrow> ks_head st = None"
  by (auto simp: compute_floor_for_request_def Let_def split: option.splits)

lemma prune_to_floor_history:
  assumes "ks_wf st" "compute_floor_for_request st req = Some f"
  shows "ks_history (fst (prune_to_floor req st)) = filter (\<lambda>e. f \<le> fst e) (ks_history st)"
proof -
  obtain head where head: "ks_head st = Some head"
    using assms(2) prune_to_floor_no_head [of st req] by fastforce
  then show ?thesis
    using compute_floor_bounds(1) [OF assms(1) head assms(2)] assms(2)
    by (simp add: prune_to_floor_eq ks_history_def)
qed

lemma ks_wf_prune_to_floor [wf_intros]:
  assumes "ks_wf st" shows "ks_wf (fst (prune_to_floor req st))"
proof (cases "compute_floor_for_request st req")
  case None
  with assms show ?thesis by (simp add: prune_to_floor_def)
next
  case (Some f)
  obtain head where head: "ks_head st = Some head"
    using Some prune_to_floor_no_head [of st req] by fastforce
  note b = compute_floor_bounds [OF assms head Some]
  show ?thesis
    using assms head b
    by (auto simp: prune_to_floor_eq [OF Some] ks_wf_def ks_history_def bt_wf_filter)
qed

lemma floor_version_prune_to_floor:
  assumes "ks_wf st"
  shows "floor_version (fst (prune_to_floor req st)) = compute_floor_for_request st req"
proof (cases "compute_floor_for_request st req")
  case None
  then show ?thesis
    using prune_to_floor_no_head [of st req] by (simp add: prune_to_floor_def floor_version_def)
next
  case (Some f)
  then obtain head where "ks_head st = Some head"
    using prune_to_floor_no_head [of st req] by fastforce
  then show ?thesis by (simp add: prune_to_floor_eq [OF Some] floor_version_def Some)
qed

lemma head_version_prune_to_floor [simp]:
  "head_version (fst (prune_to_floor req st)) = head_version st"
  by (simp add: prune_to_floor_def Let_def head_version_def option.map_comp comp_def split: option.splits)

lemma prune_to_floor_reads:
  assumes wf: "ks_wf st" and f: "compute_floor_for_request st req = Some f" and ts: "f \<le> ts"
  shows "read_at (fst (prune_to_floor req st)) ts = read_at st ts"
proof -
  obtain head where head: "ks_head st = Some head"
    using f prune_to_floor_no_head [of st req] by fastforce
  have "visible (filter (\<lambda>e. f \<le> fst e) (ks_history st)) ts = visible (ks_history st) ts"
    using compute_floor_bounds(2) [OF wf head f] by (intro visible_filter_from [OF wf _ _ ts]) auto
  then show ?thesis
    using wf f by (simp add: read_at_visible ks_wf_prune_to_floor prune_to_floor_history)
qed

subsection \<open>Pruning by count\<close>

lemma finite_keep_versions [simp]: "finite (keep_versions m r head st)"
  by (auto simp: keep_versions_def split: option.splits)

lemma head_in_keep_versions [simp]: "lsh_head head \<in> keep_versions m r head st"
  by (simp add: keep_versions_def)

lemma reader_anchor_in_history:
  assumes "ks_head st = Some head" "reader_anchor_version st r = Some a"
  shows "a = lsh_head head \<or> a \<in> fst ` set (ks_archived st)"
proof -
  obtain ts where r: "r = Some ts"
    using assms by (cases r) (auto simp: reader_anchor_version_def)
  show ?thesis
  proof (cases "last_opt (bt_upto ts (ks_archived st))")
    case None
    with assms r show ?thesis by (auto simp: reader_anchor_version_def split: if_splits)
  next
    case (Some e)
    then have "e \<in> set (ks_archived st)"
      by (auto dest: last_opt_mem simp: bt_upto_def)
    with assms r Some show ?thesis
      by (cases e) (auto simp: reader_anchor_version_def rev_image_eqI split: if_splits)
  qed
qed

lemma keep_versions_in_history:
  assumes "ks_head st = Some head" "v \<in> keep_versions m r head st"
  shows "v = lsh_head head \<or> v \<in> fst ` set (ks_archived st)"
  using assms reader_anchor_in_history [of st head r v]
  by (auto simp: keep_versions_def bt_keys_def dest!: in_set_takeD split: option.splits)

lemma prune_to_max_eq:
  assumes "ks_head st = Some head"
  shows "prune_to_max_versions m r st =
    (let keep = keep_versions m r head st
     in (set_floor (Min keep) (st\<lparr>ks_archived := filter (\<lambda>e. fst e \<in> keep) (ks_archived st)\<rparr>),
         length (filter (\<lambda>e. fst e \<notin> keep) (ks_archived st))))"
proof -
  let ?keep = "keep_versions m r head st"
  have "filter (\<lambda>e. fst e \<notin> set (filter (\<lambda>v. v \<notin> ?keep) (bt_keys (ks_archived st)))) (ks_archived st) =
      filter (\<lambda>e. fst e \<in> ?keep) (ks_archived st)"
    by (rule filter_cong) (auto simp: bt_keys_def)
  then show ?thesis
    using assms
    by (simp add: prune_to_max_versions_def Let_def fold_bt_remove bt_keys_def filter_map comp_def)
qed

lemma ks_wf_prune_to_max [wf_intros]:
  assumes "ks_wf st" shows "ks_wf (fst (prune_to_max_versions m r st))"
proof (cases "ks_head st")
  case None
  with assms show ?thesis by (simp add: prune_to_max_versions_def)
next
  case (Some head)
  let ?keep = "keep_versions m r head st"
  have "Min ?keep \<in> ?keep" by (metis Min_in empty_iff finite_keep_versions head_in_keep_versions)
  then have "Min ?keep = lsh_head head \<or> Min ?keep \<in> fst ` {e \<in> set (ks_archived st). fst e \<in> ?keep}"
    using keep_versions_in_history [OF Some] by fastforce
  with assms Some show ?thesis
    by (auto simp: prune_to_max_eq [OF Some] Let_def ks_wf_def bt_wf_filter intro: Min_le)
qed

lemma prune_to_max_history:
  assumes "ks_head st = Some head"
  shows "ks_history (fst (prune_to_max_versions m r st)) =
    filter (\<lambda>e. fst e \<in> keep_versions m r head st) (ks_history st)"
  using assms by (simp add: prune_to_max_eq Let_def ks_history_def)

lemma head_version_prune_to_max [simp]:
  "head_version (fst (prune_to_max_versions m r st)) = head_version st"
  by (simp add: prune_to_max_versions_def Let_def head_version_def option.map_comp comp_def split: option.splits)

text \<open>The oldest registered reader is anchored, so count pruning never changes what it sees.\<close>

lemma prune_to_max_reads_oldest:
  assumes wf: "ks_wf st"
  shows "read_at (fst (prune_to_max_versions m (Some ts) st)) ts = read_at st ts"
proof (cases "ks_head st")
  case None
  then show ?thesis by (simp add: prune_to_max_versions_def)
next
  case (Some head)
  let ?keep = "keep_versions m (Some ts) head st"
  have "visible (filter (\<lambda>e. fst e \<in> ?keep) (ks_history st)) ts = visible (ks_history st) ts"
  proof (rule visible_filter)
    fix e assume last: "last_opt (filter (\<lambda>e. fst e \<le> ts) (ks_history st)) = Some e"
    show "fst e \<in> ?keep"
    proof (cases "lsh_head head \<le> ts")
      case True
      with last have "e = (lsh_head head, lsh_current head)"
        by (simp add: ks_history_def Some last_opt_append)
      then show ?thesis by simp
    next
      case False
      with last have "last_opt (bt_upto ts (ks_archived st)) = Some e"
        by (simp add: ks_history_def Some bt_upto_def)
      with False have "reader_anchor_version st (Some ts) = Some (fst e)"
        by (cases e) (simp add: reader_anchor_version_def Some)
      then show ?thesis by (simp add: keep_versions_def)
    qed
  qed
  then show ?thesis
    using wf by (simp add: read_at_visible ks_wf_prune_to_max prune_to_max_history [OF Some])
qed

lemma take_rev_upward:
  fixes xs :: "'a::linorder list"
  assumes "sorted_wrt (<) xs" "k \<in> set (take n (rev xs))" "x \<in> set xs" "k \<le> x"
  shows "x \<in> set (take n (rev xs))"
proof -
  let ?m = "length xs - n"
  have tr: "set (take n (rev xs)) = set (drop ?m xs)"
    by (simp add: take_rev)
  have "sorted_wrt (<) (take ?m xs @ drop ?m xs)" using assms(1) by simp
  then have "\<forall>y\<in>set (take ?m xs). y < k"
    using assms(2) tr by (auto simp only: sorted_wrt_append)
  moreover have "x \<in> set (take ?m xs) \<union> set (drop ?m xs)"
    using assms(3) by (metis append_take_drop_id set_append)
  ultimately show ?thesis using assms(4) tr by fastforce
qed

text \<open>Reads inside the retained window are unchanged whoever is registered.\<close>

lemma prune_to_max_reads_window:
  assumes wf: "ks_wf st" and head: "ks_head st = Some head"
    and w: "w = lsh_head head \<or> w \<in> set (take (m - 1) (rev (bt_keys (ks_archived st))))"
    and ts: "w \<le> ts"
  shows "read_at (fst (prune_to_max_versions m r st)) ts = read_at st ts"
proof -
  let ?keep = "keep_versions m r head st" and ?ks = "bt_keys (ks_archived st)"
  have strict: "sorted_wrt (<) ?ks" using wf by (simp add: ks_wf_def bt_wf_def bt_keys_def)
  have win: "w \<in> fst ` set (ks_history st)"
    using w head by (auto simp: ks_history_def bt_keys_def dest!: in_set_takeD)
  have "\<forall>e\<in>set (ks_history st). w \<le> fst e \<longrightarrow> fst e \<in> ?keep"
  proof (intro ballI impI)
    fix e assume e: "e \<in> set (ks_history st)" "w \<le> fst e"
    show "fst e \<in> ?keep"
    proof (cases "fst e = lsh_head head")
      case False
      then have arch: "e \<in> set (ks_archived st)" using e(1) head by (auto simp: ks_history_def)
      with wf head False have "fst e < lsh_head head" by (auto simp: ks_wf_def)
      with w e(2) have "w \<in> set (take (m - 1) (rev ?ks))" by auto
      then have "fst e \<in> set (take (m - 1) (rev ?ks))"
        using take_rev_upward [OF strict _ _ e(2)] arch by (simp add: bt_keys_def)
      then show ?thesis by (simp add: keep_versions_def)
    qed simp
  qed
  then have "visible (filter (\<lambda>e. fst e \<in> ?keep) (ks_history st)) ts = visible (ks_history st) ts"
    using win ts by (intro visible_filter_from [OF wf])
  then show ?thesis
    using wf by (simp add: read_at_visible ks_wf_prune_to_max prune_to_max_history [OF head])
qed

lemma card_keep_versions:
  "card (keep_versions m r head st - {lsh_head head}) \<le> (m - 1) + (if r = None then 0 else 1)"
proof -
  let ?t = "set (take (m - 1) (rev (bt_keys (ks_archived st))))"
  let ?a = "case reader_anchor_version st r of Some a \<Rightarrow> {a} | None \<Rightarrow> {}"
  have "card ?t \<le> m - 1"
    by (rule order_trans [OF card_length]) simp
  moreover have "card ?a \<le> (if r = None then 0 else 1)"
    by (auto simp: reader_anchor_version_def split: option.splits)
  moreover have "card (?t \<union> ?a) \<le> card ?t + card ?a" by (rule card_Un_le)
  moreover have "card (keep_versions m r head st - {lsh_head head}) \<le> card (?t \<union> ?a)"
    by (rule card_mono) (auto simp: keep_versions_def split: option.splits)
  ultimately show ?thesis by linarith
qed

lemma prune_to_max_bound:
  assumes wf: "ks_wf st" and head: "ks_head st = Some head"
    and strict: "lsh_head head \<notin> set (bt_keys (ks_archived st))" and m: "0 < m"
  shows "retained_versions (fst (prune_to_max_versions m r st)) \<le> m + (if r = None then 0 else 1)"
proof -
  let ?keep = "keep_versions m r head st"
  let ?arch = "filter (\<lambda>e. fst e \<in> ?keep) (ks_archived st)"
  have "distinct (map fst ?arch)"
    using wf by (intro bt_wf_distinct bt_wf_filter) (simp add: ks_wf_def)
  then have "length ?arch = card (fst ` set ?arch)"
    using distinct_card [of "map fst ?arch"] by simp
  also have "\<dots> \<le> card (?keep - {lsh_head head})"
  proof (rule card_mono)
    have "\<forall>e\<in>set (ks_archived st). fst e \<noteq> lsh_head head"
      using strict by (auto simp: bt_keys_def image_iff)
    then show "fst ` set ?arch \<subseteq> ?keep - {lsh_head head}" by auto
  qed simp
  also have "\<dots> \<le> (m - 1) + (if r = None then 0 else 1)"
    by (rule card_keep_versions)
  finally have "Suc (length ?arch) \<le> m + (if r = None then 0 else 1)"
    using m by simp
  then show ?thesis
    by (simp add: prune_to_max_eq [OF head] Let_def retained_versions_def head)
qed

subsection \<open>The contract of a versioned register\<close>

text \<open>
  What the store relies on, whatever the representation: an append at or above the newest version
  changes exactly the reads at or after it. From this law alone, a reader pinned below every later
  version sees the same value for ever, and the last of a run of writes wins.
\<close>

primrec ascending :: "nat \<Rightarrow> (nat \<times> 'v option) list \<Rightarrow> bool" where
  "ascending lo [] = True"
| "ascending lo (w # ws) = (lo \<le> fst w \<and> ascending (fst w) ws)"

locale version_log =
  fixes append :: "nat \<Rightarrow> 'v option \<Rightarrow> 's \<Rightarrow> 's"
    and read :: "'s \<Rightarrow> nat \<Rightarrow> 'v option"
    and newest :: "'s \<Rightarrow> nat option"
    and ok :: "'s \<Rightarrow> bool"
  assumes read_append: "ok s \<Longrightarrow> at_most (newest s) v \<Longrightarrow>
      read (append v x s) ts = (if v \<le> ts then x else read s ts)"
    and ok_append: "ok s \<Longrightarrow> at_most (newest s) v \<Longrightarrow> ok (append v x s)"
    and newest_append: "newest (append v x s) = Some v"
begin

lemma snapshot_stable:
  "ok s \<Longrightarrow> at_most (newest s) lo \<Longrightarrow> ascending lo ws \<Longrightarrow> \<forall>w\<in>set ws. ts < fst w \<Longrightarrow>
   ok (fold (\<lambda>(v, x). append v x) ws s) \<and> read (fold (\<lambda>(v, x). append v x) ws s) ts = read s ts"
proof (induction ws arbitrary: s lo)
  case Nil
  then show ?case by simp
next
  case (Cons w ws)
  obtain v x where w: "w = (v, x)" by (cases w)
  have v: "at_most (newest s) v" using Cons.prems w by (auto intro: at_most_mono)
  show ?case
    using Cons.IH [of "append v x s" v] Cons.prems v
    by (simp add: w ok_append newest_append read_append)
qed

lemma last_write_wins:
  assumes "ok s" "at_most (newest s) lo" "ascending lo (ws @ [(v, x)])" "v \<le> ts"
  shows "read (fold (\<lambda>(v, x). append v x) (ws @ [(v, x)]) s) ts = x"
  using assms
proof (induction ws arbitrary: s lo)
  case Nil
  then show ?case by (simp add: read_append at_most_mono)
next
  case (Cons w ws)
  obtain u y where w: "w = (u, y)" by (cases w)
  have u: "at_most (newest s) u" using Cons.prems w by (auto intro: at_most_mono)
  have "ok (append u y s)" "ascending u (ws @ [(v, x)])"
    using Cons.prems u by (auto simp: w ok_append)
  then have "read (fold (\<lambda>(v, x). append v x) (ws @ [(v, x)]) (append u y s)) ts = x"
    using Cons.prems(4) by (intro Cons.IH [of _ u]) (auto simp: newest_append)
  then show ?case by (simp add: w)
qed

end

lemma read_at_append:
  assumes "ks_wf st" "at_most (head_version st) v"
  shows "read_at (append_version v x st) ts = (if v \<le> ts then x else read_at st ts)"
  using assms by (simp add: read_at_visible ks_wf_append visible_append_history)

interpretation mvcc_log: version_log append_version read_at head_version ks_wf
  by unfold_locales (auto simp: read_at_append intro: ks_wf_append)

subsection \<open>Properties\<close>

lemmas key_evals = append_version_def read_at_def prune_to_floor_def prune_to_max_versions_def
  keep_versions_def reader_anchor_version_def compute_floor_for_request_def set_floor_def
  bt_insert_def bt_remove_def bt_keys_def bt_upto_def bt_below_def bt_from_def ks_default_def
  last_opt_def head_opt_def Let_def

text \<open>A key written at versions 2, 5, 8 and 9.\<close>

definition sample_key :: key_state where
  "sample_key = fold (\<lambda>(v, x). append_version v x)
     [(2, Some [20]), (5, Some [50]), (8, None), (9, Some [90])] ks_default"

lemma sample_key_eq:
  "sample_key = \<lparr>ks_head = Some \<lparr>lsh_floor = 2, lsh_head = 9, lsh_tombstoned = False, lsh_current = Some [90]\<rparr>,
     ks_archived = [(2, Some [20]), (5, Some [50]), (8, None)]\<rparr>"
  by (simp add: sample_key_def key_evals)

lemma ks_wf_sample_key: "ks_wf sample_key"
  by (simp add: sample_key_eq ks_wf_def bt_wf_def)

text \<open>
  C1: A point read of a well-formed key returns exactly the newest value written at or before the
  timestamp (nothing when that write was a deletion or when no such write exists): the floor test,
  the head shortcut and the archive range scan of \<open>read_at\<close> together implement the history
  specification.
\<close>

theorem read_at_newest_visible:
  assumes "ks_wf st"
  shows "read_at st ts = visible (ks_history st) ts"
  using assms by (rule read_at_visible)

theorem read_at_newest_visible_witness:
  "read_at sample_key 6 = visible (ks_history sample_key) 6 \<and> read_at sample_key 6 = Some [50]
     \<and> read_at sample_key 8 = None"
  using read_at_newest_visible [OF ks_wf_sample_key, of 6]
  by (simp add: sample_key_eq key_evals)

text \<open>
  C2: Pruning a key to a requested floor keeps it well-formed, moves its floor to the first
  retained version, never removes the head, reports exactly the versions it removed, and leaves
  every read at or after the new floor unchanged.
\<close>

theorem prune_to_floor_correct:
  assumes "ks_wf st" and "compute_floor_for_request st req = Some f"
  shows "ks_wf (fst (prune_to_floor req st)) \<and>
    floor_version (fst (prune_to_floor req st)) = Some f \<and>
    head_version (fst (prune_to_floor req st)) = head_version st \<and>
    snd (prune_to_floor req st) + retained_versions (fst (prune_to_floor req st)) = retained_versions st \<and>
    (\<forall>ts. f \<le> ts \<longrightarrow> read_at (fst (prune_to_floor req st)) ts = read_at st ts)"
proof (intro conjI allI impI)
  show "ks_wf (fst (prune_to_floor req st))"
    using assms(1) by (rule ks_wf_prune_to_floor)
  show "floor_version (fst (prune_to_floor req st)) = Some f"
    using assms by (simp add: floor_version_prune_to_floor)
  show "snd (prune_to_floor req st) + retained_versions (fst (prune_to_floor req st)) = retained_versions st"
    using sum_list_map_filter_eq [of "\<lambda>e. fst e < f" "ks_archived st"]
    by (simp add: prune_to_floor_eq [OF assms(2)] retained_versions_def bt_below_def not_less)
qed (use assms prune_to_floor_reads in \<open>simp_all\<close>)

theorem prune_to_floor_correct_witness:
  "ks_wf (fst (prune_to_floor 4 sample_key)) \<and> snd (prune_to_floor 4 sample_key) = 1
     \<and> read_at (fst (prune_to_floor 4 sample_key)) 7 = read_at sample_key 7"
proof -
  have f: "compute_floor_for_request sample_key 4 = Some 5"
    by (simp add: sample_key_eq key_evals)
  show ?thesis
    using prune_to_floor_correct [OF ks_wf_sample_key f]
    by (simp add: sample_key_eq key_evals)
qed

text \<open>
  Pruning a key to at most \<open>m\<close> versions keeps it well-formed, never changes what the oldest
  registered reader sees, never changes a read inside the window of retained newest versions, and
  leaves at most \<open>m\<close> versions, one more when a reader is registered.
\<close>

theorem prune_to_max_versions_correct:
  assumes "ks_wf st" and "ks_head st = Some head" and "0 < m"
    and "lsh_head head \<notin> set (bt_keys (ks_archived st))"
  shows "ks_wf (fst (prune_to_max_versions m r st)) \<and>
    (\<forall>ts. r = Some ts \<longrightarrow> read_at (fst (prune_to_max_versions m r st)) ts = read_at st ts) \<and>
    (\<forall>w ts. (w = lsh_head head \<or> w \<in> set (take (m - 1) (rev (bt_keys (ks_archived st))))) \<and> w \<le> ts \<longrightarrow>
      read_at (fst (prune_to_max_versions m r st)) ts = read_at st ts) \<and>
    retained_versions (fst (prune_to_max_versions m r st)) \<le> m + (if r = None then 0 else 1)"
  using ks_wf_prune_to_max [OF assms(1)] prune_to_max_reads_oldest [OF assms(1)]
    prune_to_max_reads_window [OF assms(1,2)] prune_to_max_bound [OF assms(1,2,4,3)]
  by blast

theorem prune_to_max_versions_correct_witness:
  "read_at (fst (prune_to_max_versions 1 (Some 3) sample_key)) 3 = read_at sample_key 3
     \<and> read_at sample_key 3 = Some [20]
     \<and> retained_versions (fst (prune_to_max_versions 1 (Some 3) sample_key)) \<le> 2"
proof -
  let ?h = "\<lparr>lsh_floor = 2, lsh_head = 9, lsh_tombstoned = False, lsh_current = Some [90]\<rparr>"
  have h: "ks_head sample_key = Some ?h" and s: "lsh_head ?h \<notin> set (bt_keys (ks_archived sample_key))"
    by (simp_all add: sample_key_eq bt_keys_def)
  show ?thesis
    using prune_to_max_versions_correct [OF ks_wf_sample_key h zero_less_one s, of "Some 3"]
    by (simp add: sample_key_eq key_evals)
qed

text \<open>
  The anchor protects the oldest reader only. With readers registered at 3 and at 6, pruning
  the sample key to one version with the oldest reader 3 drops version 5, and the reader at 6 then
  reads the older value of version 2 as if it were current at 6.
\<close>

theorem prune_to_max_versions_stale_second_reader:
  "read_at sample_key 6 = Some [50] \<and>
   read_at (fst (prune_to_max_versions 1 (Some 3) sample_key)) 6 = Some [20]"
  by (simp add: sample_key_eq key_evals)

text \<open>
  Floor pruning requested at the timestamp of an active reader can take the reader's version
  away: the new floor is the first version at or above the request, so when no version was
  committed exactly there the version the reader sees is removed and its read becomes empty.
\<close>

theorem prune_to_floor_loses_reader_version:
  "read_at sample_key 6 = Some [50] \<and> read_at (fst (prune_to_floor 6 sample_key)) 6 = None"
  by (simp add: sample_key_eq key_evals)

end
