(* ===== verification/Mvcc_Index.thy ===== *)
theory Mvcc_Index
  imports Mvcc_Key
begin

text \<open>
  The records the store versions (\<open>NodeRecord\<close>, \<open>EdgeRecord\<close>, \<open>StorageError\<close> of
  crates/storage/src/lib.rs), the secondary indices from a label or edge type to record ids, and
  the contract \<open>record_kind\<close> between a kind of record and its two indices: the current index holds
  exactly the live records, the history index at least the retained ones. Values of
  \<open>serde_json::Value\<close> are the type parameter 'j; the \<open>rmp_serde\<close> encoder and decoder are the fields
  of a \<open>codec\<close>, about which only the documented round trip is ever assumed.
\<close>

subsection \<open>Records and errors\<close>

datatype snapshot_keyspace = KsMeta | KsNodes | KsEdges | KsIndexes

datatype (plugins only: code size) storage_error =
    Io string
  | Fjall string
  | Serialization string
  | Deserialization string
  | UnsupportedLayoutVersion nat nat
  | UnsupportedSnapshotFormatVersion nat nat
  | SnapshotLayoutVersionMismatch nat nat
  | SnapshotEncryptionMismatch
  | SnapshotRestoreTargetNotEmpty string
  | OfflineStagingTargetNotEmpty string
  | SnapshotDuplicateKey snapshot_keyspace
  | NotFound string
  | EmptyPrefix
  | InvalidChunkSize nat
  | IterationStopped
  | RequestCancelled
  | InvalidUtf8
  | InvalidFulltextIndexKey string
  | IndexMemoryBudgetExceeded string int int
  | MvccRebuildBlocked nat
  | MvccHeadTruncated nat
  | MvccHeadMissingFloor nat
  | TransactionConflict string nat nat
  | WalClosed
  | AsyncEngineClosed
  | WalCorruptedEntry
  | WalPartialWriteDetected
  | WalChecksumVerificationFailed
  | WalMissingOrInvalidTrailer
  | WalRepairWouldLoseUnappliedEntries nat
  | ConstraintAlreadyExists string
  | ConstraintNotFound string
  | ConstraintMissingProperty string string
  | UniqueConstraintViolation string string string
  | KnowledgePolicyAlreadyExists string
  | KnowledgePolicyNotFound string
  | KnowledgePolicyInvalid string
  | KnowledgePolicyInUse string
  | TopologyInvalid string
  | Encryption string
  | EncryptionRequired
  | EncryptionMismatch string

record node_embedding_metadata =
  em_embedding_model :: "string option"
  em_embedding_generation :: "string option"
  em_embedding_dimensions :: "nat option"
  em_has_embedding :: "bool option"
  em_embedded_at :: "string option"
  em_has_chunks :: "bool option"
  em_chunk_count :: "nat option"

text \<open>An \<open>f32\<close> is its 32-bit pattern and an \<open>i64\<close> its 64-bit word: neither is computed with here.\<close>

record 'j node_record =
  nr_id :: string
  nr_labels :: "string list"
  nr_properties :: "(string, 'j) btree"
  nr_named_embeddings :: "(string, 32 word list) btree"
  nr_chunk_embeddings :: "32 word list list"
  nr_embed_meta :: node_embedding_metadata
  nr_created_at :: "64 word"
  nr_updated_at :: "64 word"

record 'j edge_record =
  er_id :: string
  er_start_node :: string
  er_end_node :: string
  er_edge_type :: string
  er_properties :: "(string, 'j) btree"
  er_created_at :: "64 word"
  er_updated_at :: "64 word"

record 'j codec =
  enc_node :: "'j node_record \<Rightarrow> storage_error + bytes"
  dec_node :: "bytes \<Rightarrow> storage_error + 'j node_record"
  enc_edge :: "'j edge_record \<Rightarrow> storage_error + bytes"
  dec_edge :: "bytes \<Rightarrow> storage_error + 'j edge_record"

definition codec_ok :: "'j codec \<Rightarrow> bool" where
  "codec_ok c \<longleftrightarrow>
     (\<forall>n raw. enc_node c n = Inr raw \<longrightarrow> dec_node c raw = Inr n) \<and>
     (\<forall>e raw. enc_edge c e = Inr raw \<longrightarrow> dec_edge c raw = Inr e)"

definition node_logical_key :: "string \<Rightarrow> string" where
  "node_logical_key i = ''node:'' @ i"

definition edge_logical_key :: "string \<Rightarrow> string" where
  "edge_logical_key i = ''edge:'' @ i"

lemma logical_key_inj [simp]:
  "node_logical_key i = node_logical_key j \<longleftrightarrow> i = j"
  "edge_logical_key i = edge_logical_key j \<longleftrightarrow> i = j"
  "node_logical_key i \<noteq> edge_logical_key j"
  "edge_logical_key i \<noteq> node_logical_key j"
  by (simp_all add: node_logical_key_def edge_logical_key_def)

subsection \<open>BTreeSet: a BTreeMap with unit values\<close>

type_synonym 'k bset = "('k, unit) btree"

definition bs_insert :: "'k::linorder \<Rightarrow> 'k bset \<Rightarrow> 'k bset" where
  "bs_insert k s = bt_insert k () s"

definition bs_has :: "'k::linorder \<Rightarrow> 'k bset \<Rightarrow> bool" where
  "bs_has k s \<longleftrightarrow> bt_get s k \<noteq> None"

lemma bs_has_simps [simp]:
  "bs_has k (bs_insert j s) \<longleftrightarrow> k = j \<or> bs_has k s"
  "bs_has k (bt_remove j s) \<longleftrightarrow> k \<noteq> j \<and> bs_has k s"
  "\<not> bs_has k []"
  by (auto simp: bs_has_def bs_insert_def)

lemma bs_insert_ne [simp]: "bs_insert k s \<noteq> []"
  by (simp add: bs_insert_def bt_insert_def)

lemma bs_wf_insert [wf_intros]: "bt_wf s \<Longrightarrow> bt_wf (bs_insert k s)"
  by (simp add: bs_insert_def bt_wf_insert)

lemma bs_has_keys: "bs_has k s \<longleftrightarrow> k \<in> set (bt_keys s)"
  using bt_get_None_iff [of s k] by (auto simp: bs_has_def bt_keys_def)

lemma bs_empty_iff: "s = [] \<longleftrightarrow> (\<forall>k. \<not> bs_has k s)"
  by (auto simp: bs_has_keys bt_keys_def)

lemma bs_ext:
  assumes "bt_wf s" "bt_wf t" "\<And>k. bs_has k s \<longleftrightarrow> bs_has k t" shows "s = t"
proof (rule bt_ext [OF assms(1,2)])
  fix k show "bt_get s k = bt_get t k"
    using assms(3) [of k] by (cases "bt_get s k"; cases "bt_get t k") (auto simp: bs_has_def)
qed

subsection \<open>Secondary indices\<close>

type_synonym idx = "(string, string bset) btree"

definition idx_has :: "idx \<Rightarrow> string \<Rightarrow> string \<Rightarrow> bool" where
  "idx_has ix tag i = (case bt_get ix tag of None \<Rightarrow> False | Some ids \<Rightarrow> bs_has i ids)"

definition idx_ids :: "idx \<Rightarrow> string \<Rightarrow> string list" where
  "idx_ids ix tag = (case bt_get ix tag of None \<Rightarrow> [] | Some ids \<Rightarrow> bt_keys ids)"

text \<open>\<open>entry(tag).or_default().insert(id)\<close>\<close>

definition idx_add :: "string \<Rightarrow> string \<Rightarrow> idx \<Rightarrow> idx" where
  "idx_add tag i ix =
     bt_insert tag (bs_insert i (case bt_get ix tag of None \<Rightarrow> [] | Some ids \<Rightarrow> ids)) ix"

definition idx_add_all :: "string list \<Rightarrow> string \<Rightarrow> idx \<Rightarrow> idx" where
  "idx_add_all tags i ix = fold (\<lambda>tag. idx_add tag i) tags ix"

text \<open>Remove an id, and the tag when it was the last one.\<close>

definition idx_drop :: "string \<Rightarrow> string \<Rightarrow> idx \<Rightarrow> idx" where
  "idx_drop tag i ix =
     (case bt_get ix tag of
        None \<Rightarrow> ix
      | Some ids \<Rightarrow> if bt_remove i ids = [] then bt_remove tag ix
                    else bt_insert tag (bt_remove i ids) ix)"

definition remove_node_from_current_labels :: "'j node_record \<Rightarrow> idx \<Rightarrow> idx" where
  "remove_node_from_current_labels node ix =
     fold (\<lambda>label. idx_drop label (nr_id node)) (nr_labels node) ix"

definition remove_edge_from_current_types :: "'j edge_record \<Rightarrow> idx \<Rightarrow> idx" where
  "remove_edge_from_current_types edge ix = idx_drop (er_edge_type edge) (er_id edge) ix"

text \<open>\<open>retain\<close> over a history index.\<close>

definition idx_retain :: "string \<Rightarrow> string list \<Rightarrow> idx \<Rightarrow> idx" where
  "idx_retain i retained ix =
     filter (\<lambda>e. snd e \<noteq> [])
       (map (\<lambda>(tag, ids). (tag, if tag \<in> set retained then ids else bt_remove i ids)) ix)"

definition prune_node_history_candidates :: "string \<Rightarrow> string list \<Rightarrow> idx \<Rightarrow> idx" where
  "prune_node_history_candidates node_id retained_labels ix = idx_retain node_id retained_labels ix"

definition prune_edge_history_candidates :: "string \<Rightarrow> string list \<Rightarrow> idx \<Rightarrow> idx" where
  "prune_edge_history_candidates edge_id retained_types ix = idx_retain edge_id retained_types ix"

definition idx_wf :: "idx \<Rightarrow> bool" where
  "idx_wf ix \<longleftrightarrow> bt_wf ix \<and> (\<forall>e\<in>set ix. bt_wf (snd e) \<and> snd e \<noteq> [])"

lemma idx_wf_Nil [simp]: "idx_wf []"
  by (simp add: idx_wf_def)

lemma idx_wf_get:
  "idx_wf ix \<Longrightarrow> bt_get ix tag = Some ids \<Longrightarrow> bt_wf ids \<and> ids \<noteq> []"
  by (auto simp: idx_wf_def bt_get_Some_iff)

lemma idx_has_Nil [simp]: "\<not> idx_has [] tag i"
  by (simp add: idx_has_def)

lemma idx_has_ids: "idx_has ix tag i \<longleftrightarrow> i \<in> set (idx_ids ix tag)"
  by (simp add: idx_has_def idx_ids_def bs_has_keys split: option.splits)

lemma idx_ids_sorted: "idx_wf ix \<Longrightarrow> sorted_wrt (<) (idx_ids ix tag)"
  by (auto simp: idx_ids_def bt_keys_def bt_wf_def dest: idx_wf_get split: option.splits)

lemma idx_has_add [simp]:
  "idx_has (idx_add tag i ix) tag' i' \<longleftrightarrow> tag' = tag \<and> i' = i \<or> idx_has ix tag' i'"
  by (auto simp: idx_has_def idx_add_def split: option.splits)

lemma idx_wf_add [wf_intros]: "idx_wf ix \<Longrightarrow> idx_wf (idx_add tag i ix)"
  by (auto simp: idx_wf_def idx_add_def set_bt_insert bt_get_Some_iff split: option.splits
      intro!: wf_intros)

lemma idx_has_drop [simp]:
  "idx_has (idx_drop tag i ix) tag' i' \<longleftrightarrow> idx_has ix tag' i' \<and> \<not> (tag' = tag \<and> i' = i)"
proof (cases "bt_get ix tag")
  case None
  then show ?thesis by (auto simp: idx_has_def idx_drop_def)
next
  case (Some ids)
  have "bs_has k ids \<Longrightarrow> k = i" if "bt_remove i ids = []" for k
    using that bs_has_simps(2) [of k i ids] by simp
  with Some show ?thesis by (auto simp: idx_has_def idx_drop_def)
qed

lemma idx_wf_drop [wf_intros]: "idx_wf ix \<Longrightarrow> idx_wf (idx_drop tag i ix)"
  by (auto simp: idx_wf_def idx_drop_def set_bt_insert bt_get_Some_iff bt_remove_def [of tag]
      split: option.splits intro!: wf_intros bt_wf_filter)

lemma idx_has_add_all [simp]:
  "idx_has (idx_add_all tags i ix) tag' i' \<longleftrightarrow> tag' \<in> set tags \<and> i' = i \<or> idx_has ix tag' i'"
  by (induction tags arbitrary: ix) (auto simp: idx_add_all_def)

lemma idx_wf_add_all [wf_intros]: "idx_wf ix \<Longrightarrow> idx_wf (idx_add_all tags i ix)"
  by (induction tags arbitrary: ix) (auto simp: idx_add_all_def intro: wf_intros)

lemma idx_has_drop_all [simp]:
  "idx_has (fold (\<lambda>tag. idx_drop tag i) tags ix) tag' i' \<longleftrightarrow>
     idx_has ix tag' i' \<and> \<not> (tag' \<in> set tags \<and> i' = i)"
  by (induction tags arbitrary: ix) auto

lemma idx_wf_drop_all [wf_intros]: "idx_wf ix \<Longrightarrow> idx_wf (fold (\<lambda>tag. idx_drop tag i) tags ix)"
  by (induction tags arbitrary: ix) (auto intro: wf_intros)

lemma bt_get_filter:
  assumes "bt_wf m"
  shows "bt_get (filter P m) k = (case bt_get m k of None \<Rightarrow> None | Some v \<Rightarrow> if P (k, v) then Some v else None)"
proof -
  have some: "bt_get (filter P m) k = Some v \<longleftrightarrow> bt_get m k = Some v \<and> P (k, v)" for v
    by (simp only: bt_get_Some_iff [OF assms] bt_get_Some_iff [OF bt_wf_filter [OF assms]] set_filter mem_Collect_eq)
  show ?thesis
  proof (cases "bt_get (filter P m) k")
    case None
    then have "\<not> P (k, v)" if "bt_get m k = Some v" for v
      using some [of v] that by simp
    with None show ?thesis by (cases "bt_get m k") auto
  next
    case (Some v)
    then show ?thesis using some [of v] by simp
  qed
qed

lemma idx_retain_alt:
  "idx_retain i retained ix =
     filter (\<lambda>e. snd e \<noteq> []) (bt_map_values (\<lambda>tag ids. if tag \<in> set retained then ids else bt_remove i ids) ix)"
  by (simp add: idx_retain_def bt_map_values_def)

lemma idx_retain_get:
  assumes "bt_wf ix"
  shows "bt_get (idx_retain i retained ix) tag =
    (case bt_get ix tag of
       None \<Rightarrow> None
     | Some ids \<Rightarrow> let ids' = (if tag \<in> set retained then ids else bt_remove i ids)
                   in if ids' = [] then None else Some ids')"
  by (simp add: idx_retain_alt bt_get_filter bt_wf_map_values assms split: option.split)

lemma idx_wf_retain [wf_intros]:
  assumes "idx_wf ix" shows "idx_wf (idx_retain i retained ix)"
proof -
  have "bt_wf (idx_retain i retained ix)"
    using assms by (simp add: idx_retain_alt idx_wf_def bt_wf_filter bt_wf_map_values)
  then show ?thesis
    using assms by (fastforce simp: idx_wf_def idx_retain_def intro: wf_intros)
qed

lemma idx_has_retain [simp]:
  assumes "idx_wf ix"
  shows "idx_has (idx_retain i retained ix) tag i' \<longleftrightarrow>
    idx_has ix tag i' \<and> (tag \<in> set retained \<or> i' \<noteq> i)"
proof (cases "bt_get ix tag")
  case (Some ids)
  have "bs_has k ids \<Longrightarrow> k = i" if "bt_remove i ids = []" for k
    using that bs_has_simps(2) [of k i ids] by simp
  with Some show ?thesis
    using assms by (auto simp: idx_has_def idx_wf_def idx_retain_get Let_def)
qed (use assms in \<open>simp add: idx_has_def idx_wf_def idx_retain_get\<close>)

lemma idx_get_cases:
  assumes "idx_wf ix"
  shows "(bt_get ix tag = None \<and> (\<forall>i. \<not> idx_has ix tag i)) \<or>
    (\<exists>ids. bt_get ix tag = Some ids \<and> bt_wf ids \<and> (\<forall>i. idx_has ix tag i \<longleftrightarrow> bs_has i ids) \<and> (\<exists>i. bs_has i ids))"
proof (cases "bt_get ix tag")
  case (Some ids)
  with assms have "bt_wf ids" "ids \<noteq> []" by (auto dest: idx_wf_get)
  with Some show ?thesis by (simp add: idx_has_def bs_empty_iff)
qed (simp add: idx_has_def)

lemma idx_ext:
  assumes "idx_wf a" "idx_wf b" and has: "\<And>tag i. idx_has a tag i \<longleftrightarrow> idx_has b tag i"
  shows "a = b"
proof (rule bt_ext)
  show "bt_get a tag = bt_get b tag" for tag
    using idx_get_cases [OF assms(1), of tag] idx_get_cases [OF assms(2), of tag]
  proof (elim disjE exE conjE)
    fix s t assume "bt_get a tag = Some s" "bt_get b tag = Some t" "bt_wf s" "bt_wf t"
      "\<forall>i. idx_has a tag i \<longleftrightarrow> bs_has i s" "\<forall>i. idx_has b tag i \<longleftrightarrow> bs_has i t"
    moreover from this have "s = t" using has by (intro bs_ext) simp_all
    ultimately show ?thesis by simp
  qed (simp_all add: has)
qed (use assms in \<open>simp_all add: idx_wf_def\<close>)

subsection \<open>Reading the head of a key\<close>

definition current_live_node_from_state ::
    "'j codec \<Rightarrow> key_state \<Rightarrow> (storage_error + 'j node_record) option" where
  "current_live_node_from_state c st =
     (case ks_head st of
        None \<Rightarrow> None
      | Some head \<Rightarrow>
          if lsh_tombstoned head then None
          else Some (case lsh_current head of
                       None \<Rightarrow> Inl (NotFound ''missing node head payload'')
                     | Some raw \<Rightarrow> dec_node c raw))"

definition current_live_edge_from_state ::
    "'j codec \<Rightarrow> key_state \<Rightarrow> (storage_error + 'j edge_record) option" where
  "current_live_edge_from_state c st =
     (case ks_head st of
        None \<Rightarrow> None
      | Some head \<Rightarrow>
          if lsh_tombstoned head then None
          else Some (case lsh_current head of
                       None \<Rightarrow> Inl (NotFound ''missing edge head payload'')
                     | Some raw \<Rightarrow> dec_edge c raw))"

text \<open>\<open>Option<Result<T, E>>::transpose\<close>\<close>

definition opt_transpose :: "('e + 'a) option \<Rightarrow> 'e + 'a option" where
  "opt_transpose r = (case r of None \<Rightarrow> Inr None | Some (Inl e) \<Rightarrow> Inl e | Some (Inr x) \<Rightarrow> Inr (Some x))"

lemma opt_transpose_simps [simp]:
  "opt_transpose None = Inr None"
  "opt_transpose (Some (Inl e)) = Inl e"
  "opt_transpose (Some (Inr x)) = Inr (Some x)"
  by (simp_all add: opt_transpose_def)

definition live_raw :: "key_state \<Rightarrow> bytes option" where
  "live_raw st = (case ks_head st of None \<Rightarrow> None | Some head \<Rightarrow> lsh_current head)"

lemma live_raw_append [simp]: "live_raw (append_version v x st) = x"
  by (simp add: live_raw_def append_version_def split: option.splits)

lemma live_raw_default [simp]: "live_raw ks_default = None" "ks_history ks_default = []"
  by (simp_all add: live_raw_def ks_default_def ks_history_def)

lemma current_live_raw:
  assumes "ks_wf st"
  shows "current_live_node_from_state c st = map_option (dec_node c) (live_raw st)"
    and "current_live_edge_from_state c st = map_option (dec_edge c) (live_raw st)"
  using assms
  by (auto simp: current_live_node_from_state_def current_live_edge_from_state_def live_raw_def
      ks_wf_def split: option.splits)

lemma live_raw_read_at:
  assumes "ks_wf st" "at_most (head_version st) ts"
  shows "read_at st ts = live_raw st"
  using assms ks_wf_floor_le_head [OF assms(1)]
  by (auto simp: read_at_def live_raw_def head_version_def ks_wf_def split: option.splits)

lemma live_raw_history: "live_raw st = Some raw \<Longrightarrow> \<exists>v. (v, Some raw) \<in> set (ks_history st)"
  by (auto simp: live_raw_def ks_history_def split: option.splits)

lemma visible_history: "visible h ts = Some raw \<Longrightarrow> \<exists>v. (v, Some raw) \<in> set h"
  by (auto simp: visible_def dest!: last_opt_mem split: option.splits)

lemma read_at_history:
  "ks_wf st \<Longrightarrow> read_at st ts = Some raw \<Longrightarrow> \<exists>v. (v, Some raw) \<in> set (ks_history st)"
  by (simp add: read_at_visible visible_history)

lemma history_append_subset:
  "set (ks_history (append_version v x st)) \<subseteq> insert (v, x) (set (ks_history st))"
  by (auto simp: ks_history_def append_version_def set_bt_insert split: option.splits)

subsection \<open>The contract between a kind of record and its indices\<close>

text \<open>
  \<open>kind_inv\<close>: every retained value of a key of this kind decodes to a record with the key's id whose
  tags the history index lists; the current index lists exactly the tags of the live records.
\<close>

definition kind_inv ::
    "(string \<Rightarrow> string) \<Rightarrow> (bytes \<Rightarrow> storage_error + 'r) \<Rightarrow> ('r \<Rightarrow> string) \<Rightarrow> ('r \<Rightarrow> string list) \<Rightarrow>
     (string, key_state) btree \<Rightarrow> idx \<Rightarrow> idx \<Rightarrow> bool" where
  "kind_inv key dec rid tags values cur hist \<longleftrightarrow>
     idx_wf cur \<and> idx_wf hist \<and>
     (\<forall>i st v raw. bt_get values (key i) = Some st \<longrightarrow> (v, Some raw) \<in> set (ks_history st) \<longrightarrow>
        (\<exists>r. dec raw = Inr r \<and> rid r = i \<and> (\<forall>t\<in>set (tags r). idx_has hist t i))) \<and>
     (\<forall>t i. idx_has cur t i \<longleftrightarrow>
        (\<exists>st raw r. bt_get values (key i) = Some st \<and> live_raw st = Some raw \<and>
           dec raw = Inr r \<and> t \<in> set (tags r)))"

definition tags_of :: "('r \<Rightarrow> string list) \<Rightarrow> 'r option \<Rightarrow> string list" where
  "tags_of tags r = (case r of None \<Rightarrow> [] | Some r \<Rightarrow> tags r)"

lemma tags_of_simps [simp]: "tags_of tags None = []" "tags_of tags (Some r) = tags r"
  by (simp_all add: tags_of_def)

definition key_or_default :: "(string, key_state) btree \<Rightarrow> string \<Rightarrow> key_state" where
  "key_or_default values k = (case bt_get values k of None \<Rightarrow> ks_default | Some st \<Rightarrow> st)"

locale record_kind =
  fixes key :: "string \<Rightarrow> string"
    and enc :: "'c \<Rightarrow> 'r \<Rightarrow> storage_error + bytes"
    and dec :: "'c \<Rightarrow> bytes \<Rightarrow> storage_error + 'r"
    and rid :: "'r \<Rightarrow> string"
    and tags :: "'r \<Rightarrow> string list"
    and ok :: "'c \<Rightarrow> bool"
  assumes key_inj: "key i = key j \<longleftrightarrow> i = j"
    and dec_enc: "ok c \<Longrightarrow> enc c r = Inr raw \<Longrightarrow> dec c raw = Inr r"
begin

lemma kind_retained:
  assumes "kind_inv key (dec c) rid tags values cur hist" "bt_get values (key i) = Some st"
    "(v, Some raw) \<in> set (ks_history st)"
  shows "\<exists>r. dec c raw = Inr r \<and> rid r = i \<and> (\<forall>t\<in>set (tags r). idx_has hist t i)"
  using assms unfolding kind_inv_def by blast

lemma kind_live:
  assumes "kind_inv key (dec c) rid tags values cur hist"
  shows "idx_has cur t i \<longleftrightarrow>
    (\<exists>st raw r. bt_get values (key i) = Some st \<and> live_raw st = Some raw \<and>
       dec c raw = Inr r \<and> t \<in> set (tags r))"
  using assms by (simp add: kind_inv_def)

text \<open>A write of this kind: the old record's tags leave the current index, the new one's enter both.\<close>

lemma kind_write:
  assumes inv: "kind_inv key (dec c) rid tags values cur hist"
    and ok: "ok c"
    and old: "map_option (dec c) (live_raw (key_or_default values (key i))) = map_option Inr old"
    and new: "(case new of None \<Rightarrow> x = None | Some r \<Rightarrow> \<exists>raw. x = Some raw \<and> enc c r = Inr raw \<and> rid r = i)"
  shows "kind_inv key (dec c) rid tags
    (bt_insert (key i) (append_version v x (key_or_default values (key i))) values)
    (idx_add_all (tags_of tags new) i (fold (\<lambda>t. idx_drop t i) (tags_of tags old) cur))
    (idx_add_all (tags_of tags new) i hist)"
    (is "kind_inv _ _ _ _ ?values ?cur ?hist")
proof -
  let ?st = "key_or_default values (key i)"
  have newdec: "dec c raw = Inr r" if "new = Some r" "x = Some raw" for r raw
    using new that ok dec_enc by auto
  have retained: "\<exists>r. dec c raw = Inr r \<and> rid r = j \<and> (\<forall>t\<in>set (tags r). idx_has ?hist t j)"
    if "bt_get ?values (key j) = Some st" "(w, Some raw) \<in> set (ks_history st)" for j st w raw
  proof (cases "j = i")
    case False
    then have "bt_get values (key j) = Some st" using that(1) by (simp add: key_inj)
    with kind_retained [OF inv this that(2)] show ?thesis by auto
  next
    case True
    then have st: "st = append_version v x ?st" using that(1) by (simp add: key_inj)
    have mem: "(w, Some raw) \<in> insert (v, x) (set (ks_history ?st))"
      using subsetD [OF history_append_subset that(2) [unfolded st]] .
    consider (new) "x = Some raw" | (old) "(w, Some raw) \<in> set (ks_history ?st)"
      using mem by auto
    then show ?thesis
    proof cases
      case new': new
      then obtain r where "new = Some r" using new by (cases new) auto
      then show ?thesis using new newdec new' True by auto
    next
      case old
      then have "bt_get values (key i) = Some ?st"
        by (cases "bt_get values (key i)") (auto simp: key_or_default_def)
      from kind_retained [OF inv this old] show ?thesis using True by auto
    qed
  qed
  have live: "idx_has ?cur t j \<longleftrightarrow>
     (\<exists>st raw r. bt_get ?values (key j) = Some st \<and> live_raw st = Some raw \<and>
        dec c raw = Inr r \<and> t \<in> set (tags r))" for t j
  proof (cases "j = i")
    case False
    then show ?thesis using kind_live [OF inv, of t j] by (simp add: key_inj)
  next
    case True
    have "idx_has cur t i \<longleftrightarrow> t \<in> set (tags_of tags old)"
      using kind_live [OF inv, of t i] old
      by (cases "bt_get values (key i)"; cases old) (auto simp: key_or_default_def)
    moreover have "(\<exists>raw r. x = Some raw \<and> dec c raw = Inr r \<and> t \<in> set (tags r)) \<longleftrightarrow>
        t \<in> set (tags_of tags new)"
      using new newdec by (cases new) auto
    ultimately show ?thesis using True by (auto simp: key_inj)
  qed
  show ?thesis
    unfolding kind_inv_def
  proof (intro conjI allI impI)
    show "idx_wf ?cur" "idx_wf ?hist"
      using inv by (auto simp: kind_inv_def intro: wf_intros)
  qed (fact retained, fact live)
qed

text \<open>A write to a key of another kind.\<close>

lemma kind_other:
  assumes "kind_inv key (dec c) rid tags values cur hist" "\<And>i. k \<noteq> key i"
  shows "kind_inv key (dec c) rid tags (bt_insert k st values) cur hist"
proof -
  have "bt_get (bt_insert k st values) (key i) = bt_get values (key i)" for i
    using assms(2) [of i] by auto
  with assms(1) show ?thesis by (simp add: kind_inv_def)
qed

text \<open>Pruning: every key keeps its head, loses history, and the history index keeps what is needed.\<close>

lemma kind_shrink:
  assumes inv: "kind_inv key (dec c) rid tags values cur hist"
    and shrink: "\<And>i. rel_option (\<lambda>st st'. live_raw st' = live_raw st \<and>
        set (ks_history st') \<subseteq> set (ks_history st)) (bt_get values (key i)) (bt_get values' (key i))"
    and hist': "idx_wf hist'"
      "\<And>i st' v raw r t. bt_get values' (key i) = Some st' \<Longrightarrow> (v, Some raw) \<in> set (ks_history st') \<Longrightarrow>
         dec c raw = Inr r \<Longrightarrow> t \<in> set (tags r) \<Longrightarrow> idx_has hist t i \<Longrightarrow> idx_has hist' t i"
  shows "kind_inv key (dec c) rid tags values' cur hist'"
  unfolding kind_inv_def
proof (intro conjI allI impI)
  show "idx_wf cur" using inv by (simp add: kind_inv_def)
  show "idx_wf hist'" by (rule hist')
next
  fix i st' v raw
  assume get: "bt_get values' (key i) = Some st'" and mem: "(v, Some raw) \<in> set (ks_history st')"
  from get shrink [of i] obtain st where st: "bt_get values (key i) = Some st"
    "set (ks_history st') \<subseteq> set (ks_history st)"
    by (auto simp: option_rel_Some2)
  with mem have "(v, Some raw) \<in> set (ks_history st)" by blast
  from kind_retained [OF inv st(1) this] obtain r where
    r: "dec c raw = Inr r" "rid r = i" "\<forall>t\<in>set (tags r). idx_has hist t i" by blast
  then show "\<exists>r. dec c raw = Inr r \<and> rid r = i \<and> (\<forall>t\<in>set (tags r). idx_has hist' t i)"
    using hist'(2) [OF get mem] by blast
next
  fix t i
  have "(\<exists>st. bt_get values (key i) = Some st \<and> P (live_raw st)) \<longleftrightarrow>
      (\<exists>st. bt_get values' (key i) = Some st \<and> P (live_raw st))" for P
    using shrink [of i] by (cases "bt_get values (key i)"; cases "bt_get values' (key i)") auto
  from this [of "\<lambda>x. \<exists>raw r. x = Some raw \<and> dec c raw = Inr r \<and> t \<in> set (tags r)"]
  show "idx_has cur t i \<longleftrightarrow>
     (\<exists>st raw r. bt_get values' (key i) = Some st \<and> live_raw st = Some raw \<and>
        dec c raw = Inr r \<and> t \<in> set (tags r))"
    unfolding kind_live [OF inv] by simp
qed

end

interpretation node_kind: record_kind node_logical_key enc_node dec_node nr_id nr_labels codec_ok
  by unfold_locales (auto simp: codec_ok_def)

interpretation edge_kind:
  record_kind edge_logical_key enc_edge dec_edge er_id "\<lambda>e. [er_edge_type e]" codec_ok
  by unfold_locales (auto simp: codec_ok_def)

end
