(* ===== verification/Rust_Strings.thy ===== *)
theory Rust_Strings
  imports Prelude
begin

text \<open>
  The operations on \<open>str\<close> the program uses, on the UTF-8 bytes of a string: prefixes, splitting,
  joining, trimming of Unicode white space, fixed-width hexadecimal and decimal formatting, and
  \<open>from_str_radix\<close>. Each follows the documented behaviour of the standard library.
\<close>

subsection \<open>Prefixes and splitting\<close>

text \<open>\<open>str::strip_prefix\<close>, \<open>str::starts_with\<close>\<close>

fun strip_prefix_opt :: "'a list \<Rightarrow> 'a list \<Rightarrow> 'a list option" where
  "strip_prefix_opt [] xs = Some xs"
| "strip_prefix_opt (p # ps) [] = None"
| "strip_prefix_opt (p # ps) (x # xs) = (if p = x then strip_prefix_opt ps xs else None)"

definition starts_with :: "string \<Rightarrow> string \<Rightarrow> bool" where
  "starts_with xs p \<longleftrightarrow> strip_prefix_opt p xs \<noteq> None"

lemma strip_prefix_opt_Some: "strip_prefix_opt p x = Some y \<longleftrightarrow> x = p @ y"
  by (induction p x rule: strip_prefix_opt.induct) auto

lemma strip_prefix_opt_append [simp]: "strip_prefix_opt p (p @ y) = Some y"
  by (simp add: strip_prefix_opt_Some)

lemma starts_with_iff: "starts_with xs p \<longleftrightarrow> (\<exists>rest. xs = p @ rest)"
  by (auto simp: starts_with_def strip_prefix_opt_Some)

text \<open>\<open>str::split_once\<close> on a one-byte separator\<close>

fun split_once :: "char \<Rightarrow> string \<Rightarrow> (string \<times> string) option" where
  "split_once d [] = None"
| "split_once d (x # xs) =
     (if x = d then Some ([], xs)
      else (case split_once d xs of None \<Rightarrow> None | Some (a, b) \<Rightarrow> Some (x # a, b)))"

lemma split_once_append: "d \<notin> set a \<Longrightarrow> split_once d (a @ d # b) = Some (a, b)"
  by (induction a) auto

lemma split_once_None: "split_once d s = None \<longleftrightarrow> d \<notin> set s"
  by (induction s) (auto split: option.splits)

lemma split_once_Some: "split_once d s = Some (a, b) \<Longrightarrow> s = a @ d # b \<and> d \<notin> set a"
  by (induction s arbitrary: a) (auto split: if_splits option.splits)

text \<open>\<open>str::split\<close>: always at least one piece.\<close>

fun split_char :: "char \<Rightarrow> string \<Rightarrow> string list" where
  "split_char d [] = [[]]"
| "split_char d (x # xs) =
     (if x = d then [] # split_char d xs
      else (case split_char d xs of [] \<Rightarrow> [[x]] | p # ps \<Rightarrow> (x # p) # ps))"

lemma split_char_ne [simp]: "split_char d s \<noteq> []"
  by (induction s) (auto split: list.splits)

lemma split_char_single: "d \<notin> set s \<Longrightarrow> split_char d s = [s]"
  by (induction s) auto

lemma split_char_append: "d \<notin> set a \<Longrightarrow> split_char d (a @ d # b) = a # split_char d b"
  by (induction a) auto

text \<open>\<open>str::splitn(n, d)\<close>: at most n pieces, the last one holding the rest.\<close>

fun splitn :: "nat \<Rightarrow> char \<Rightarrow> string \<Rightarrow> string list" where
  "splitn 0 d s = []"
| "splitn (Suc 0) d s = [s]"
| "splitn (Suc (Suc n)) d s =
     (case split_once d s of None \<Rightarrow> [s] | Some (a, b) \<Rightarrow> a # splitn (Suc n) d b)"

text \<open>\<open>[..].join(sep)\<close>\<close>

fun join :: "string \<Rightarrow> string list \<Rightarrow> string" where
  "join sep [] = []"
| "join sep [s] = s"
| "join sep (s # ss) = s @ sep @ join sep ss"

lemma join_splitn: "0 < n \<Longrightarrow> join [d] (splitn n d s) = s"
proof (induction n d s rule: splitn.induct)
  case (3 n d s)
  show ?case
  proof (cases "split_once d s")
    case (Some e)
    obtain a b where e: "e = (a, b)" by (cases e)
    have s: "s = a @ d # b" using split_once_Some [of d s a b] Some e by simp
    have ne: "splitn (Suc n) d b \<noteq> []"
      by (cases n) (auto split: option.splits)
    then have "join [d] (a # splitn (Suc n) d b) = a @ [d] @ join [d] (splitn (Suc n) d b)"
      by (cases "splitn (Suc n) d b") auto
    with 3 Some e s show ?thesis by simp
  qed simp
qed simp_all

subsection \<open>White space\<close>

text \<open>The UTF-8 encodings of the code points with the Unicode property White_Space.\<close>

definition white_space :: "string list" where
  "white_space =
     [[CHR 0x09], [CHR 0x0A], [CHR 0x0B], [CHR 0x0C], [CHR 0x0D], [CHR 0x20],
      [CHR 0xC2, CHR 0x85], [CHR 0xC2, CHR 0xA0], [CHR 0xE1, CHR 0x9A, CHR 0x80],
      [CHR 0xE2, CHR 0x80, CHR 0x80], [CHR 0xE2, CHR 0x80, CHR 0x81], [CHR 0xE2, CHR 0x80, CHR 0x82],
      [CHR 0xE2, CHR 0x80, CHR 0x83], [CHR 0xE2, CHR 0x80, CHR 0x84], [CHR 0xE2, CHR 0x80, CHR 0x85],
      [CHR 0xE2, CHR 0x80, CHR 0x86], [CHR 0xE2, CHR 0x80, CHR 0x87], [CHR 0xE2, CHR 0x80, CHR 0x88],
      [CHR 0xE2, CHR 0x80, CHR 0x89], [CHR 0xE2, CHR 0x80, CHR 0x8A], [CHR 0xE2, CHR 0x80, CHR 0xA8],
      [CHR 0xE2, CHR 0x80, CHR 0xA9], [CHR 0xE2, CHR 0x80, CHR 0xAF], [CHR 0xE2, CHR 0x81, CHR 0x9F],
      [CHR 0xE3, CHR 0x80, CHR 0x80]]"

fun drop_first_match :: "string list \<Rightarrow> string \<Rightarrow> string option" where
  "drop_first_match [] s = None"
| "drop_first_match (p # ps) s =
     (case strip_prefix_opt p s of Some rest \<Rightarrow> Some rest | None \<Rightarrow> drop_first_match ps s)"

fun trim_with :: "string list \<Rightarrow> string \<Rightarrow> string" where
  "trim_with ps s =
     (case drop_first_match ps s of
        None \<Rightarrow> s
      | Some rest \<Rightarrow> if length rest < length s then trim_with ps rest else s)"

declare trim_with.simps [simp del]

definition trim :: "string \<Rightarrow> string" where
  "trim s = rev (trim_with (map rev white_space) (rev (trim_with white_space s)))"

lemma drop_first_match_other:
  assumes "\<forall>p\<in>set ps. p \<noteq> [] \<and> (s \<noteq> [] \<longrightarrow> hd p \<noteq> hd s)"
  shows "drop_first_match ps s = None"
  using assms
proof (induction ps)
  case (Cons p ps)
  then have "strip_prefix_opt p s = None" by (cases p; cases s) auto
  with Cons show ?case by simp
qed simp

lemma trim_with_other:
  "\<forall>p\<in>set ps. p \<noteq> [] \<and> (s \<noteq> [] \<longrightarrow> hd p \<noteq> hd s) \<Longrightarrow> trim_with ps s = s"
  by (subst trim_with.simps) (simp add: drop_first_match_other)

text \<open>A printable ASCII character neither starts nor ends a white-space sequence.\<close>

definition graph_char :: "char \<Rightarrow> bool" where
  "graph_char ch \<longleftrightarrow> of_char ch \<in> {(0x21::nat)..0x7E}"

lemma trim_graph:
  assumes "s \<noteq> []" "graph_char (hd s)" "graph_char (last s)"
  shows "trim s = s"
proof -
  have ws: "\<forall>p\<in>set white_space. p \<noteq> [] \<and> \<not> graph_char (hd p) \<and> \<not> graph_char (last p)"
    by (simp add: white_space_def graph_char_def)
  have first: "\<forall>p\<in>set white_space. p \<noteq> [] \<and> hd p \<noteq> hd s"
    using ws assms(2) by auto
  have last: "\<forall>p\<in>set (map rev white_space). p \<noteq> [] \<and> hd p \<noteq> last s"
    using ws assms(3) by (auto simp: hd_rev)
  from first last assms(1) show ?thesis
    by (simp add: trim_def trim_with_other hd_rev)
qed

lemma trim_Nil [simp]: "trim [] = []"
  by (simp add: trim_def trim_with_other white_space_def)

subsection \<open>Hexadecimal\<close>

definition hex_digit :: "nat \<Rightarrow> char" where
  "hex_digit d = ''0123456789abcdef'' ! d"

definition hex_value :: "char \<Rightarrow> nat option" where
  "hex_value ch = (let k = of_char ch :: nat in
     if 48 \<le> k \<and> k \<le> 57 then Some (k - 48)
     else if 97 \<le> k \<and> k \<le> 102 then Some (k - 87)
     else if 65 \<le> k \<and> k \<le> 70 then Some (k - 55)
     else None)"

text \<open>\<open>{:0Nx}\<close> of a value below \<open>16 ^ N\<close>\<close>

fun hex_fixed :: "nat \<Rightarrow> nat \<Rightarrow> string" where
  "hex_fixed 0 x = []"
| "hex_fixed (Suc n) x = hex_digit (x div 16 ^ n mod 16) # hex_fixed n x"

fun hex_number :: "nat \<Rightarrow> string \<Rightarrow> nat option" where
  "hex_number acc [] = Some acc"
| "hex_number acc (c # cs) =
     (case hex_value c of None \<Rightarrow> None | Some d \<Rightarrow> hex_number (acc * 16 + d) cs)"

text \<open>
  \<open>uN::from_str_radix(s, 16)\<close>: an optional plus sign, at least one digit of either case, and no value
  above the maximum.
\<close>

definition from_str_radix16 :: "nat \<Rightarrow> string \<Rightarrow> nat option" where
  "from_str_radix16 max_value s =
     (let digits = (case s of c # cs \<Rightarrow> if c = CHR ''+'' then cs else s | [] \<Rightarrow> s)
      in if digits = [] then None
         else (case hex_number 0 digits of
                 Some v \<Rightarrow> if v \<le> max_value then Some v else None | None \<Rightarrow> None))"

lemma below_16:
  assumes "list_all P [0, 1, 2, 3, 4, 5, 6, 7, 8, 9, 10, 11, 12, 13, 14, 15::nat]" "d < 16"
  shows "P d"
proof -
  have "[0..<16] = [0, 1, 2, 3, 4, 5, 6, 7, 8, 9, 10, 11, 12, 13, 14, 15::nat]"
    by code_simp
  with assms(1) have "list_all P [0..<16]" by simp
  with assms(2) show ?thesis by (simp add: list_all_iff)
qed

lemma hex_value_digit [simp]: "d < 16 \<Longrightarrow> hex_value (hex_digit d) = Some d"
  by (rule below_16 [where P = "\<lambda>d. hex_value (hex_digit d) = Some d"])
    (simp_all add: hex_digit_def hex_value_def)

lemma hex_digit_graph: "d < 16 \<Longrightarrow> graph_char (hex_digit d) \<and> hex_digit d \<noteq> CHR ''+'' \<and> hex_digit d \<noteq> CHR '':''"
  by (rule below_16 [where P = "\<lambda>d. graph_char (hex_digit d) \<and> hex_digit d \<noteq> CHR ''+'' \<and> hex_digit d \<noteq> CHR '':''"])
    (simp_all add: hex_digit_def graph_char_def)

lemma length_hex_fixed [simp]: "length (hex_fixed n x) = n"
  by (induction n) auto

lemma hex_fixed_chars: "c \<in> set (hex_fixed n x) \<Longrightarrow> graph_char c \<and> c \<noteq> CHR ''+'' \<and> c \<noteq> CHR '':''"
  by (induction n) (use hex_digit_graph in auto)

lemma hex_number_fixed: "hex_number acc (hex_fixed n x) = Some (acc * 16 ^ n + x mod 16 ^ n)"
proof (induction n arbitrary: acc)
  case (Suc n)
  have "x mod 16 ^ Suc n = (x div 16 ^ n mod 16) * 16 ^ n + x mod 16 ^ n"
    using mod_mult2_eq [of x "16 ^ n" 16] by (simp add: mult.commute)
  with Suc show ?case by (simp add: algebra_simps)
qed simp

lemma from_str_radix16_hex_fixed:
  assumes "x < 16 ^ n" "0 < n" "x \<le> m"
  shows "from_str_radix16 m (hex_fixed n x) = Some x"
proof -
  obtain c cs where h: "hex_fixed n x = c # cs" "c \<noteq> CHR ''+''"
    using assms(2) hex_fixed_chars [of _ n x] by (cases "hex_fixed n x") (auto dest: arg_cong [of _ _ length])
  then show ?thesis
    using hex_number_fixed [of 0 n x] assms by (simp add: from_str_radix16_def Let_def)
qed

text \<open>A value accepted by \<open>from_str_radix\<close> is in range.\<close>

lemma from_str_radix16_bound: "from_str_radix16 m s = Some x \<Longrightarrow> x \<le> m"
  by (auto simp: from_str_radix16_def Let_def split: if_splits option.splits)

subsection \<open>Decimal\<close>

fun dec_string :: "nat \<Rightarrow> string" where
  "dec_string n = (if n < 10 then [char_of (48 + n)] else dec_string (n div 10) @ [char_of (48 + n mod 10)])"

declare dec_string.simps [simp del]

end
