(* ===== verification/Mvcc_Store.thy ===== *)
theory Mvcc_Store
  imports Mvcc_Index Rust_Strings
begin

text \<open>
  \<open>MvccStore\<close> of crates/storage/src/mvcc.rs: a commit counter, the versioned keys, the label and
  edge-type indices and the registered readers. Every method takes \<open>&self\<close> and mutates through
  locks and atomics; here it takes the store and returns the new one, with the method's result
  beside it. A method that fails half-way returns the store it leaves behind. Where the code takes
  a version with \<open>fetch_add\<close> and writes it later under the lock, the two steps are two definitions
  (\<open>fetch_version\<close> and the \<open>_at\<close> operations), so that steps of other threads can be put between them.
\<close>

subsection \<open>State\<close>

record mvcc_store =
  ms_current_version :: nat
  ms_floor :: nat
  ms_values :: "(string, key_state) btree"
  ms_current_node_labels :: idx
  ms_node_label_history :: idx
  ms_current_edge_types :: idx
  ms_edge_type_history :: idx
  ms_active_readers :: "(nat, nat) btree"
  ms_lifecycle_schedule_ms :: nat
  ms_lifecycle_paused :: nat

record mvcc_snapshot =
  sn_id :: nat
  sn_read_ts :: nat

record mvcc_head =
  mh_floor :: nat
  mh_head :: nat

definition mvcc_default :: mvcc_store where
  "mvcc_default =
     \<lparr>ms_current_version = 0, ms_floor = 0, ms_values = [], ms_current_node_labels = [],
      ms_node_label_history = [], ms_current_edge_types = [], ms_edge_type_history = [],
      ms_active_readers = [], ms_lifecycle_schedule_ms = 60000, ms_lifecycle_paused = 0\<rparr>"

subsection \<open>Snapshots and readers\<close>

definition begin_snapshot :: "mvcc_store \<Rightarrow> mvcc_snapshot" where
  "begin_snapshot s = \<lparr>sn_id = ms_current_version s, sn_read_ts = ms_current_version s\<rparr>"

definition begin_registered_snapshot :: "mvcc_store \<Rightarrow> mvcc_store \<times> mvcc_snapshot" where
  "begin_registered_snapshot s =
     (let snapshot = begin_snapshot s;
          count = (case bt_get (ms_active_readers s) (sn_read_ts snapshot) of None \<Rightarrow> 0 | Some n \<Rightarrow> n)
      in (s\<lparr>ms_active_readers := bt_insert (sn_read_ts snapshot) (count + 1) (ms_active_readers s)\<rparr>,
          snapshot))"

definition drop_lease :: "mvcc_snapshot \<Rightarrow> mvcc_store \<Rightarrow> mvcc_store" where
  "drop_lease snapshot s =
     (case bt_get (ms_active_readers s) (sn_read_ts snapshot) of
        None \<Rightarrow> s
      | Some count \<Rightarrow>
          s\<lparr>ms_active_readers :=
              (if count - 1 = 0 then bt_remove (sn_read_ts snapshot) (ms_active_readers s)
               else bt_insert (sn_read_ts snapshot) (count - 1) (ms_active_readers s))\<rparr>)"

definition oldest_active_reader :: "mvcc_store \<Rightarrow> nat option" where
  "oldest_active_reader s = head_opt (bt_keys (ms_active_readers s))"

definition active_reader_count :: "mvcc_store \<Rightarrow> nat" where
  "active_reader_count s = sum_list (map snd (ms_active_readers s))"

subsection \<open>Raw writes and reads\<close>

definition fetch_version :: "mvcc_store \<Rightarrow> mvcc_store \<times> nat" where
  "fetch_version s =
     (let version = wadd64 (ms_current_version s) 1 in (s\<lparr>ms_current_version := version\<rparr>, version))"

definition append_at :: "string \<Rightarrow> nat \<Rightarrow> bytes option \<Rightarrow> mvcc_store \<Rightarrow> mvcc_store" where
  "append_at key version value s =
     s\<lparr>ms_values := bt_insert key (append_version version value (key_or_default (ms_values s) key))
                      (ms_values s)\<rparr>"

definition commit_batch_at :: "(string \<times> bytes option) list \<Rightarrow> nat \<Rightarrow> mvcc_store \<Rightarrow> mvcc_store" where
  "commit_batch_at writes version s = fold (\<lambda>(key, value). append_at key version value) writes s"

definition commit_batch :: "(string \<times> bytes option) list \<Rightarrow> mvcc_store \<Rightarrow> mvcc_store \<times> nat" where
  "commit_batch writes s =
     (let (s, version) = fetch_version s in (commit_batch_at writes version s, version))"

definition read_key :: "mvcc_store \<Rightarrow> nat \<Rightarrow> string \<Rightarrow> bytes option" where
  "read_key s read_ts key =
     (case bt_get (ms_values s) key of None \<Rightarrow> None | Some st \<Rightarrow> read_at st read_ts)"

definition mvcc_read :: "mvcc_store \<Rightarrow> mvcc_snapshot \<Rightarrow> string \<Rightarrow> bytes option" where
  "mvcc_read s snapshot key = read_key s (sn_read_ts snapshot) key"

definition current_head_for_key :: "mvcc_store \<Rightarrow> string \<Rightarrow> logical_head option" where
  "current_head_for_key s key =
     (case bt_get (ms_values s) key of None \<Rightarrow> None | Some st \<Rightarrow> logical_head_of st)"

subsection \<open>Node records\<close>

text \<open>\<open>Option::and_then(current_live_..).transpose()?\<close> on a key of the store.\<close>

definition live_node_at :: "'j codec \<Rightarrow> string \<Rightarrow> mvcc_store \<Rightarrow> storage_error + 'j node_record option" where
  "live_node_at c key s =
     opt_transpose (case bt_get (ms_values s) key of
                      None \<Rightarrow> None | Some st \<Rightarrow> current_live_node_from_state c st)"

definition live_edge_at :: "'j codec \<Rightarrow> string \<Rightarrow> mvcc_store \<Rightarrow> storage_error + 'j edge_record option" where
  "live_edge_at c key s =
     opt_transpose (case bt_get (ms_values s) key of
                      None \<Rightarrow> None | Some st \<Rightarrow> current_live_edge_from_state c st)"

definition put_node_record_at ::
    "'j codec \<Rightarrow> 'j node_record \<Rightarrow> nat \<Rightarrow> mvcc_store \<Rightarrow> mvcc_store \<times> (storage_error + unit)" where
  "put_node_record_at c node version s =
     (let logical_key = node_logical_key (nr_id node) in
      case enc_node c node of
        Inl e \<Rightarrow> (s, Inl e)
      | Inr encoded \<Rightarrow>
          (case live_node_at c logical_key s of
             Inl e \<Rightarrow> (s, Inl e)
           | Inr previous \<Rightarrow>
               let current_labels = (case previous of
                       None \<Rightarrow> ms_current_node_labels s
                     | Some previous \<Rightarrow> remove_node_from_current_labels previous (ms_current_node_labels s));
                   s = s\<lparr>ms_current_node_labels := idx_add_all (nr_labels node) (nr_id node) current_labels,
                         ms_node_label_history :=
                           idx_add_all (nr_labels node) (nr_id node) (ms_node_label_history s)\<rparr>
               in (append_at logical_key version (Some encoded) s, Inr ())))"

definition delete_node_record_at ::
    "'j codec \<Rightarrow> string \<Rightarrow> nat \<Rightarrow> mvcc_store \<Rightarrow> mvcc_store \<times> (storage_error + unit)" where
  "delete_node_record_at c i version s =
     (let logical_key = node_logical_key i in
      case live_node_at c logical_key s of
        Inl e \<Rightarrow> (s, Inl e)
      | Inr previous \<Rightarrow>
          let s = (case previous of
                     None \<Rightarrow> s
                   | Some previous \<Rightarrow>
                       s\<lparr>ms_current_node_labels :=
                           remove_node_from_current_labels previous (ms_current_node_labels s)\<rparr>)
          in (append_at logical_key version None s, Inr ()))"

definition put_node_record ::
    "'j codec \<Rightarrow> 'j node_record \<Rightarrow> mvcc_store \<Rightarrow> mvcc_store \<times> (storage_error + nat)" where
  "put_node_record c node s =
     (let (s, version) = fetch_version s; (s, r) = put_node_record_at c node version s
      in (s, result_bind r (\<lambda>_. Inr version)))"

definition delete_node_record ::
    "'j codec \<Rightarrow> string \<Rightarrow> mvcc_store \<Rightarrow> mvcc_store \<times> (storage_error + nat)" where
  "delete_node_record c i s =
     (let (s, version) = fetch_version s; (s, r) = delete_node_record_at c i version s
      in (s, result_bind r (\<lambda>_. Inr version)))"

definition get_node_record_visible_at ::
    "'j codec \<Rightarrow> mvcc_store \<Rightarrow> mvcc_snapshot \<Rightarrow> string \<Rightarrow> storage_error + 'j node_record option" where
  "get_node_record_visible_at c s snapshot i =
     opt_transpose (map_option (dec_node c) (mvcc_read s snapshot (node_logical_key i)))"

definition get_node_record ::
    "'j codec \<Rightarrow> mvcc_store \<Rightarrow> string \<Rightarrow> storage_error + 'j node_record option" where
  "get_node_record c s i = get_node_record_visible_at c s (begin_snapshot s) i"

text \<open>
  \<open>for id in ids { if let Some(r) = get(id)? { if keep(r) { out.push(r) } } }\<close>
\<close>

fun collect_visible ::
    "(string \<Rightarrow> storage_error + 'r option) \<Rightarrow> ('r \<Rightarrow> bool) \<Rightarrow> string list \<Rightarrow> storage_error + 'r list" where
  "collect_visible get keep [] = Inr []"
| "collect_visible get keep (i # ids) =
     result_bind (get i) (\<lambda>r.
       result_bind (collect_visible get keep ids) (\<lambda>rs.
         Inr (case r of None \<Rightarrow> rs | Some r \<Rightarrow> if keep r then r # rs else rs)))"

text \<open>\<open>dedup_by\<close> on consecutive equal ids keeps the first.\<close>

fun dedup_by :: "('r \<Rightarrow> string) \<Rightarrow> 'r list \<Rightarrow> 'r list" where
  "dedup_by f [] = []"
| "dedup_by f [x] = [x]"
| "dedup_by f (x # y # xs) = (if f y = f x then dedup_by f (x # xs) else x # dedup_by f (y # xs))"

definition get_nodes_by_label ::
    "'j codec \<Rightarrow> mvcc_store \<Rightarrow> string \<Rightarrow> storage_error + 'j node_record list" where
  "get_nodes_by_label c s label =
     result_bind
       (collect_visible (get_node_record c s) (\<lambda>_. True) (idx_ids (ms_current_node_labels s) label))
       (\<lambda>nodes. Inr (sort_key nr_id nodes))"

definition get_nodes_by_label_visible_at ::
    "'j codec \<Rightarrow> mvcc_store \<Rightarrow> mvcc_snapshot \<Rightarrow> string \<Rightarrow> storage_error + 'j node_record list" where
  "get_nodes_by_label_visible_at c s snapshot label =
     result_bind
       (collect_visible (get_node_record_visible_at c s snapshot)
          (\<lambda>node. label \<in> set (nr_labels node)) (idx_ids (ms_node_label_history s) label))
       (\<lambda>nodes. Inr (dedup_by nr_id (sort_key nr_id nodes)))"

definition ids_with_prefix :: "string \<Rightarrow> mvcc_store \<Rightarrow> string list" where
  "ids_with_prefix p s = List.map_filter (strip_prefix_opt p) (bt_keys (ms_values s))"

definition all_node_records_visible_at ::
    "'j codec \<Rightarrow> mvcc_store \<Rightarrow> mvcc_snapshot \<Rightarrow> storage_error + 'j node_record list" where
  "all_node_records_visible_at c s snapshot =
     result_bind
       (collect_visible (get_node_record_visible_at c s snapshot) (\<lambda>_. True)
          (ids_with_prefix ''node:'' s))
       (\<lambda>nodes. Inr (sort_key nr_id nodes))"

subsection \<open>Edge records\<close>

definition put_edge_record_at ::
    "'j codec \<Rightarrow> 'j edge_record \<Rightarrow> nat \<Rightarrow> mvcc_store \<Rightarrow> mvcc_store \<times> (storage_error + unit)" where
  "put_edge_record_at c edge version s =
     (let logical_key = edge_logical_key (er_id edge) in
      case enc_edge c edge of
        Inl e \<Rightarrow> (s, Inl e)
      | Inr encoded \<Rightarrow>
          (case live_edge_at c logical_key s of
             Inl e \<Rightarrow> (s, Inl e)
           | Inr previous \<Rightarrow>
               let current_edge_types = (case previous of
                       None \<Rightarrow> ms_current_edge_types s
                     | Some previous \<Rightarrow> remove_edge_from_current_types previous (ms_current_edge_types s));
                   s = s\<lparr>ms_current_edge_types := idx_add (er_edge_type edge) (er_id edge) current_edge_types,
                         ms_edge_type_history :=
                           idx_add (er_edge_type edge) (er_id edge) (ms_edge_type_history s)\<rparr>
               in (append_at logical_key version (Some encoded) s, Inr ())))"

definition delete_edge_record_at ::
    "'j codec \<Rightarrow> string \<Rightarrow> nat \<Rightarrow> mvcc_store \<Rightarrow> mvcc_store \<times> (storage_error + unit)" where
  "delete_edge_record_at c i version s =
     (let logical_key = edge_logical_key i in
      case live_edge_at c logical_key s of
        Inl e \<Rightarrow> (s, Inl e)
      | Inr previous \<Rightarrow>
          let s = (case previous of
                     None \<Rightarrow> s
                   | Some previous \<Rightarrow>
                       s\<lparr>ms_current_edge_types :=
                           remove_edge_from_current_types previous (ms_current_edge_types s)\<rparr>)
          in (append_at logical_key version None s, Inr ()))"

definition put_edge_record ::
    "'j codec \<Rightarrow> 'j edge_record \<Rightarrow> mvcc_store \<Rightarrow> mvcc_store \<times> (storage_error + nat)" where
  "put_edge_record c edge s =
     (let (s, version) = fetch_version s; (s, r) = put_edge_record_at c edge version s
      in (s, result_bind r (\<lambda>_. Inr version)))"

definition delete_edge_record ::
    "'j codec \<Rightarrow> string \<Rightarrow> mvcc_store \<Rightarrow> mvcc_store \<times> (storage_error + nat)" where
  "delete_edge_record c i s =
     (let (s, version) = fetch_version s; (s, r) = delete_edge_record_at c i version s
      in (s, result_bind r (\<lambda>_. Inr version)))"

definition get_edge_record_visible_at ::
    "'j codec \<Rightarrow> mvcc_store \<Rightarrow> mvcc_snapshot \<Rightarrow> string \<Rightarrow> storage_error + 'j edge_record option" where
  "get_edge_record_visible_at c s snapshot i =
     opt_transpose (map_option (dec_edge c) (mvcc_read s snapshot (edge_logical_key i)))"

definition get_edge_record ::
    "'j codec \<Rightarrow> mvcc_store \<Rightarrow> string \<Rightarrow> storage_error + 'j edge_record option" where
  "get_edge_record c s i = get_edge_record_visible_at c s (begin_snapshot s) i"

definition get_edges_by_type ::
    "'j codec \<Rightarrow> mvcc_store \<Rightarrow> string \<Rightarrow> storage_error + 'j edge_record list" where
  "get_edges_by_type c s edge_type =
     result_bind
       (collect_visible (get_edge_record c s) (\<lambda>_. True) (idx_ids (ms_current_edge_types s) edge_type))
       (\<lambda>edges. Inr (sort_key er_id edges))"

definition get_edges_by_type_visible_at ::
    "'j codec \<Rightarrow> mvcc_store \<Rightarrow> mvcc_snapshot \<Rightarrow> string \<Rightarrow> storage_error + 'j edge_record list" where
  "get_edges_by_type_visible_at c s snapshot edge_type =
     result_bind
       (collect_visible (get_edge_record_visible_at c s snapshot)
          (\<lambda>edge. er_edge_type edge = edge_type) (idx_ids (ms_edge_type_history s) edge_type))
       (\<lambda>edges. Inr (dedup_by er_id (sort_key er_id edges)))"

definition all_edge_records_visible_at ::
    "'j codec \<Rightarrow> mvcc_store \<Rightarrow> mvcc_snapshot \<Rightarrow> storage_error + 'j edge_record list" where
  "all_edge_records_visible_at c s snapshot =
     result_bind
       (collect_visible (get_edge_record_visible_at c s snapshot) (\<lambda>_. True)
          (ids_with_prefix ''edge:'' s))
       (\<lambda>edges. Inr (sort_key er_id edges))"

end
