(* ===== verification/Mvcc_Views.thy ===== *)
theory Mvcc_Views
  imports Mvcc_Store
begin

text \<open>
  The contract of the store: at every timestamp it shows a graph, that is, a partial map from ids
  to node records and one to edge records (\<open>node_at\<close>, \<open>edge_at\<close>). The invariant \<open>mvcc_ok\<close> ties the
  versioned keys, the commit counter and the four indices together; under it each operation is a
  functional update of that graph at the new version and leaves every older one alone.
\<close>

subsection \<open>The version invariant\<close>

definition versions_ok :: "mvcc_store \<Rightarrow> bool" where
  "versions_ok s \<longleftrightarrow> bt_wf (ms_values s) \<and>
     (\<forall>k st. bt_get (ms_values s) k = Some st \<longrightarrow>
        ks_wf st \<and> at_most (head_version st) (ms_current_version s))"

definition key_head_at_most :: "mvcc_store \<Rightarrow> string \<Rightarrow> nat \<Rightarrow> bool" where
  "key_head_at_most s k v = at_most (head_version (key_or_default (ms_values s) k)) v"

lemma versions_ok_key:
  assumes "versions_ok s"
  shows "ks_wf (key_or_default (ms_values s) k)" "key_head_at_most s k (ms_current_version s)"
proof -
  have "ks_wf (key_or_default (ms_values s) k) \<and> key_head_at_most s k (ms_current_version s)"
  proof (cases "bt_get (ms_values s) k")
    case None
    then show ?thesis
      by (simp add: key_or_default_def key_head_at_most_def) (simp add: ks_default_def head_version_def)
  next
    case (Some st)
    with assms show ?thesis by (simp add: versions_ok_def key_or_default_def key_head_at_most_def)
  qed
  then show "ks_wf (key_or_default (ms_values s) k)" "key_head_at_most s k (ms_current_version s)"
    by simp_all
qed

lemma key_head_at_most_mono: "key_head_at_most s k v \<Longrightarrow> v \<le> w \<Longrightarrow> key_head_at_most s k w"
  by (auto simp: key_head_at_most_def intro: at_most_mono)

lemma read_key_or_default: "read_key s ts k = read_at (key_or_default (ms_values s) k) ts"
  by (simp add: read_key_def key_or_default_def read_at_def ks_default_def split: option.split)

lemma key_or_default_insert [simp]:
  "key_or_default (bt_insert k st m) j = (if j = k then st else key_or_default m j)"
  by (simp add: key_or_default_def)

lemma append_at_frame [frame_simps, simp]:
  "ms_current_version (append_at k v x s) = ms_current_version s"
  "ms_floor (append_at k v x s) = ms_floor s"
  "ms_current_node_labels (append_at k v x s) = ms_current_node_labels s"
  "ms_node_label_history (append_at k v x s) = ms_node_label_history s"
  "ms_current_edge_types (append_at k v x s) = ms_current_edge_types s"
  "ms_edge_type_history (append_at k v x s) = ms_edge_type_history s"
  "ms_active_readers (append_at k v x s) = ms_active_readers s"
  by (simp_all add: append_at_def)

lemma values_append_at [simp]:
  "ms_values (append_at k v x s) =
     bt_insert k (append_version v x (key_or_default (ms_values s) k)) (ms_values s)"
  by (simp add: append_at_def)

lemma versions_ok_append_at [wf_intros]:
  assumes "versions_ok s" "key_head_at_most s k v" "v \<le> ms_current_version s"
  shows "versions_ok (append_at k v x s)"
  using assms ks_wf_append [OF versions_ok_key(1) [OF assms(1)], of k v x]
  by (auto simp: versions_ok_def key_head_at_most_def bt_wf_insert)

lemma read_key_append_at:
  assumes "versions_ok s" "key_head_at_most s k v"
  shows "read_key (append_at k v x s) ts j = (if j = k \<and> v \<le> ts then x else read_key s ts j)"
  using assms versions_ok_key(1) [OF assms(1), of k]
  by (auto simp: read_key_or_default read_at_append key_head_at_most_def)

lemma key_head_at_most_append_at [simp]:
  "key_head_at_most (append_at k v x s) j w \<longleftrightarrow> (if j = k then v \<le> w else key_head_at_most s j w)"
  by (simp add: key_head_at_most_def)

lemma versions_ok_cong:
  "ms_values s' = ms_values s \<Longrightarrow> ms_current_version s' = ms_current_version s \<Longrightarrow>
     versions_ok s' = versions_ok s"
  by (simp add: versions_ok_def)

lemma read_key_cong: "ms_values s' = ms_values s \<Longrightarrow> read_key s' = read_key s"
  by (simp add: read_key_def fun_eq_iff)

lemma read_key_set_version [simp]: "read_key (s\<lparr>ms_current_version := v\<rparr>) = read_key s"
  by (rule read_key_cong) simp

lemma fetch_version_simps:
  assumes "ms_current_version s < u64_max"
  shows "fetch_version s = (s\<lparr>ms_current_version := Suc (ms_current_version s)\<rparr>, Suc (ms_current_version s))"
  using wadd64_Suc [OF assms] by (simp add: fetch_version_def)

lemma versions_ok_fetch:
  assumes "versions_ok s"
  shows "versions_ok (s\<lparr>ms_current_version := Suc (ms_current_version s)\<rparr>)"
  using assms at_most_mono [of _ "ms_current_version s" "Suc (ms_current_version s)"]
  by (auto simp: versions_ok_def)

text \<open>A batch of appends at one version above every head: the last write of a key wins.\<close>

lemma commit_batch_at_ok:
  assumes "versions_ok s" "\<forall>k. key_head_at_most s k v" "v \<le> ms_current_version s"
  shows "versions_ok (commit_batch_at ws v s) \<and>
    (\<forall>ts k. read_key (commit_batch_at ws v s) ts k =
       (if v \<le> ts then (case map_of (rev ws) k of Some x \<Rightarrow> x | None \<Rightarrow> read_key s ts k)
        else read_key s ts k)) \<and>
    ms_current_version (commit_batch_at ws v s) = ms_current_version s \<and>
    ms_active_readers (commit_batch_at ws v s) = ms_active_readers s"
  using assms
proof (induction ws arbitrary: s)
  case Nil
  then show ?case by (simp add: commit_batch_at_def)
next
  case (Cons w ws)
  obtain k x where w: "w = (k, x)" by (cases w)
  let ?s = "append_at k v x s"
  have step: "commit_batch_at (w # ws) v s = commit_batch_at ws v ?s"
    by (simp add: commit_batch_at_def w)
  have "versions_ok ?s" "\<forall>j. key_head_at_most ?s j v" "v \<le> ms_current_version ?s"
    using Cons.prems by (auto intro: wf_intros)
  from Cons.IH [OF this] Cons.prems(1,2) show ?case
    unfolding step by (simp add: w read_key_append_at map_add_def split: option.split)
qed

subsection \<open>The graph at a timestamp\<close>

definition ok_value :: "'e + 'r \<Rightarrow> 'r option" where
  "ok_value r = (case r of Inl _ \<Rightarrow> None | Inr x \<Rightarrow> Some x)"

lemma ok_value_simps [simp]: "ok_value (Inl e) = None" "ok_value (Inr x) = Some x"
  by (simp_all add: ok_value_def)

definition node_at :: "'j codec \<Rightarrow> mvcc_store \<Rightarrow> nat \<Rightarrow> string \<rightharpoonup> 'j node_record" where
  "node_at c s ts i = Option.bind (read_key s ts (node_logical_key i)) (\<lambda>raw. ok_value (dec_node c raw))"

definition edge_at :: "'j codec \<Rightarrow> mvcc_store \<Rightarrow> nat \<Rightarrow> string \<rightharpoonup> 'j edge_record" where
  "edge_at c s ts i = Option.bind (read_key s ts (edge_logical_key i)) (\<lambda>raw. ok_value (dec_edge c raw))"

abbreviation edge_tags :: "'j edge_record \<Rightarrow> string list" where
  "edge_tags e \<equiv> [er_edge_type e]"

definition mvcc_ok :: "'j codec \<Rightarrow> mvcc_store \<Rightarrow> bool" where
  "mvcc_ok c s \<longleftrightarrow> versions_ok s \<and>
     kind_inv node_logical_key (dec_node c) nr_id nr_labels
       (ms_values s) (ms_current_node_labels s) (ms_node_label_history s) \<and>
     kind_inv edge_logical_key (dec_edge c) er_id edge_tags
       (ms_values s) (ms_current_edge_types s) (ms_edge_type_history s)"

lemma mvcc_ok_versions: "mvcc_ok c s \<Longrightarrow> versions_ok s"
  by (simp add: mvcc_ok_def)

lemma kind_inv_empty [simp]: "kind_inv key dec rid tags [] [] []"
  by (simp add: kind_inv_def)

lemma mvcc_ok_default [simp]: "mvcc_ok c mvcc_default"
  by (simp add: mvcc_ok_def versions_ok_def mvcc_default_def)

text \<open>Every visible value decodes, to a record with the key's id, which the history index lists.\<close>

lemma read_key_retained:
  assumes "versions_ok s" "read_key s ts k = Some raw"
  shows "\<exists>st v. bt_get (ms_values s) k = Some st \<and> (v, Some raw) \<in> set (ks_history st)"
  using assms read_at_history by (fastforce simp: read_key_def versions_ok_def split: option.splits)

lemma visible_node:
  assumes "mvcc_ok c s" "read_key s ts (node_logical_key i) = Some raw"
  shows "\<exists>n. dec_node c raw = Inr n \<and> nr_id n = i \<and> (\<forall>l\<in>set (nr_labels n). idx_has (ms_node_label_history s) l i)"
  using assms read_key_retained [of s ts "node_logical_key i" raw] node_kind.kind_retained
  unfolding mvcc_ok_def by blast

lemma visible_edge:
  assumes "mvcc_ok c s" "read_key s ts (edge_logical_key i) = Some raw"
  shows "\<exists>e. dec_edge c raw = Inr e \<and> er_id e = i \<and> idx_has (ms_edge_type_history s) (er_edge_type e) i"
  using assms read_key_retained [of s ts "edge_logical_key i" raw]
    edge_kind.kind_retained [of c "ms_values s" "ms_current_edge_types s" "ms_edge_type_history s" i _ _ raw]
  unfolding mvcc_ok_def by fastforce

lemma get_node_record_visible_at_eq:
  assumes "mvcc_ok c s"
  shows "get_node_record_visible_at c s snap i = Inr (node_at c s (sn_read_ts snap) i)"
  using visible_node [OF assms, of "sn_read_ts snap" i]
  by (cases "read_key s (sn_read_ts snap) (node_logical_key i)")
    (auto simp: get_node_record_visible_at_def node_at_def mvcc_read_def)

lemma get_edge_record_visible_at_eq:
  assumes "mvcc_ok c s"
  shows "get_edge_record_visible_at c s snap i = Inr (edge_at c s (sn_read_ts snap) i)"
  using visible_edge [OF assms, of "sn_read_ts snap" i]
  by (cases "read_key s (sn_read_ts snap) (edge_logical_key i)")
    (auto simp: get_edge_record_visible_at_def edge_at_def mvcc_read_def)

lemma node_at_id: "mvcc_ok c s \<Longrightarrow> node_at c s ts i = Some n \<Longrightarrow> nr_id n = i"
  using visible_node [of c s ts i] by (auto simp: node_at_def bind_eq_Some_conv)

lemma edge_at_id: "mvcc_ok c s \<Longrightarrow> edge_at c s ts i = Some e \<Longrightarrow> er_id e = i"
  using visible_edge [of c s ts i] by (auto simp: edge_at_def bind_eq_Some_conv)

text \<open>At the current version the graph consists of the live heads.\<close>

lemma read_key_current:
  assumes "versions_ok s"
  shows "read_key s (ms_current_version s) k = live_raw (key_or_default (ms_values s) k)"
  using versions_ok_key [OF assms, of k]
  by (simp add: read_key_or_default live_raw_read_at key_head_at_most_def)

lemma current_index_nodes:
  assumes "mvcc_ok c s"
  shows "idx_has (ms_current_node_labels s) l i \<longleftrightarrow>
    (\<exists>n. node_at c s (ms_current_version s) i = Some n \<and> l \<in> set (nr_labels n))"
proof -
  have "idx_has (ms_current_node_labels s) l i \<longleftrightarrow>
     (\<exists>st raw n. bt_get (ms_values s) (node_logical_key i) = Some st \<and> live_raw st = Some raw \<and>
        dec_node c raw = Inr n \<and> l \<in> set (nr_labels n))"
    using assms unfolding mvcc_ok_def by (intro node_kind.kind_live) blast
  also have "\<dots> \<longleftrightarrow> (\<exists>n. node_at c s (ms_current_version s) i = Some n \<and> l \<in> set (nr_labels n))"
    using visible_node [OF assms, of "ms_current_version s" i]
    by (cases "bt_get (ms_values s) (node_logical_key i)")
      (auto simp: node_at_def read_key_current [OF mvcc_ok_versions [OF assms]] key_or_default_def bind_eq_Some_conv)
  finally show ?thesis .
qed

lemma current_index_edges:
  assumes "mvcc_ok c s"
  shows "idx_has (ms_current_edge_types s) t i \<longleftrightarrow>
    (\<exists>e. edge_at c s (ms_current_version s) i = Some e \<and> t = er_edge_type e)"
proof -
  have "idx_has (ms_current_edge_types s) t i \<longleftrightarrow>
     (\<exists>st raw e. bt_get (ms_values s) (edge_logical_key i) = Some st \<and> live_raw st = Some raw \<and>
        dec_edge c raw = Inr e \<and> t \<in> set (edge_tags e))"
    using assms unfolding mvcc_ok_def by (intro edge_kind.kind_live) blast
  also have "\<dots> \<longleftrightarrow> (\<exists>e. edge_at c s (ms_current_version s) i = Some e \<and> t = er_edge_type e)"
    using visible_edge [OF assms, of "ms_current_version s" i]
    by (cases "bt_get (ms_values s) (edge_logical_key i)")
      (auto simp: edge_at_def read_key_current [OF mvcc_ok_versions [OF assms]] key_or_default_def bind_eq_Some_conv)
  finally show ?thesis .
qed

lemma history_index_nodes:
  "mvcc_ok c s \<Longrightarrow> node_at c s ts i = Some n \<Longrightarrow> l \<in> set (nr_labels n) \<Longrightarrow>
     idx_has (ms_node_label_history s) l i"
  using visible_node [of c s ts i] by (auto simp: node_at_def bind_eq_Some_conv)

lemma history_index_edges:
  "mvcc_ok c s \<Longrightarrow> edge_at c s ts i = Some e \<Longrightarrow> idx_has (ms_edge_type_history s) (er_edge_type e) i"
  using visible_edge [of c s ts i] by (auto simp: edge_at_def bind_eq_Some_conv)


subsection \<open>Writes\<close>

lemma live_node_at_ok:
  assumes "mvcc_ok c s"
  shows "\<exists>old. live_node_at c (node_logical_key i) s = Inr old \<and>
    map_option (dec_node c) (live_raw (key_or_default (ms_values s) (node_logical_key i))) = map_option Inr old \<and>
    (\<forall>r. old = Some r \<longrightarrow> nr_id r = i)"
proof -
  let ?k = "node_logical_key i" and ?v = "ms_current_version s"
  note v = mvcc_ok_versions [OF assms]
  have live: "live_node_at c ?k s = opt_transpose (map_option (dec_node c) (read_key s ?v ?k))"
    unfolding read_key_current [OF v]
    using v by (auto simp: live_node_at_def key_or_default_def versions_ok_def current_live_raw split: option.split)
  show ?thesis
    unfolding live read_key_current [OF v, symmetric]
    using visible_node [OF assms, of ?v i] by (cases "read_key s ?v ?k") auto
qed

lemma live_edge_at_ok:
  assumes "mvcc_ok c s"
  shows "\<exists>old. live_edge_at c (edge_logical_key i) s = Inr old \<and>
    map_option (dec_edge c) (live_raw (key_or_default (ms_values s) (edge_logical_key i))) = map_option Inr old \<and>
    (\<forall>r. old = Some r \<longrightarrow> er_id r = i)"
proof -
  let ?k = "edge_logical_key i" and ?v = "ms_current_version s"
  note v = mvcc_ok_versions [OF assms]
  have live: "live_edge_at c ?k s = opt_transpose (map_option (dec_edge c) (read_key s ?v ?k))"
    unfolding read_key_current [OF v]
    using v by (auto simp: live_edge_at_def key_or_default_def versions_ok_def current_live_raw split: option.split)
  show ?thesis
    unfolding live read_key_current [OF v, symmetric]
    using visible_edge [OF assms, of ?v i] by (cases "read_key s ?v ?k") auto
qed

text \<open>
  The shape of every record write on a store in the invariant: the index update of \<open>kind_write\<close>
  followed by one append.
\<close>

definition write_node :: "'j node_record option \<Rightarrow> 'j node_record option \<Rightarrow> string \<Rightarrow> nat \<Rightarrow> bytes option \<Rightarrow> mvcc_store \<Rightarrow> mvcc_store" where
  "write_node old new i v x s = append_at (node_logical_key i) v x
     (s\<lparr>ms_current_node_labels := idx_add_all (tags_of nr_labels new) i
           (fold (\<lambda>l. idx_drop l i) (tags_of nr_labels old) (ms_current_node_labels s)),
        ms_node_label_history := idx_add_all (tags_of nr_labels new) i (ms_node_label_history s)\<rparr>)"

definition write_edge :: "'j edge_record option \<Rightarrow> 'j edge_record option \<Rightarrow> string \<Rightarrow> nat \<Rightarrow> bytes option \<Rightarrow> mvcc_store \<Rightarrow> mvcc_store" where
  "write_edge old new i v x s = append_at (edge_logical_key i) v x
     (s\<lparr>ms_current_edge_types := idx_add_all (tags_of edge_tags new) i
           (fold (\<lambda>l. idx_drop l i) (tags_of edge_tags old) (ms_current_edge_types s)),
        ms_edge_type_history := idx_add_all (tags_of edge_tags new) i (ms_edge_type_history s)\<rparr>)"

lemma write_cv [simp]:
  "ms_current_version (write_node old new i v x s) = ms_current_version s"
  "ms_current_version (write_edge old' new' i v x s) = ms_current_version s"
  "ms_active_readers (write_node old new i v x s) = ms_active_readers s"
  "ms_active_readers (write_edge old' new' i v x s) = ms_active_readers s"
  by (simp_all add: write_node_def write_edge_def)

lemma key_or_default_cong:
  "key_or_default (ms_values (s\<lparr>ms_current_node_labels := a, ms_node_label_history := b\<rparr>)) k = key_or_default (ms_values s) k"
  by simp

lemma write_node_reads:
  assumes "versions_ok s" "key_head_at_most s (node_logical_key i) v" "v \<le> ms_current_version s"
  shows "versions_ok (write_node old new i v x s)"
    and "read_key (write_node old new i v x s) ts k =
      (if k = node_logical_key i \<and> v \<le> ts then x else read_key s ts k)"
proof -
  let ?s = "s\<lparr>ms_current_node_labels := idx_add_all (tags_of nr_labels new) i
           (fold (\<lambda>l. idx_drop l i) (tags_of nr_labels old) (ms_current_node_labels s)),
        ms_node_label_history := idx_add_all (tags_of nr_labels new) i (ms_node_label_history s)\<rparr>"
  have s: "versions_ok ?s" "key_head_at_most ?s (node_logical_key i) v" "v \<le> ms_current_version ?s"
    using assms by (simp_all add: versions_ok_def key_head_at_most_def)
  show "versions_ok (write_node old new i v x s)"
    unfolding write_node_def using s by (rule versions_ok_append_at)
  show "read_key (write_node old new i v x s) ts k =
      (if k = node_logical_key i \<and> v \<le> ts then x else read_key s ts k)"
    unfolding write_node_def read_key_append_at [OF s(1,2)] by (simp add: read_key_def)
qed

lemma write_edge_reads:
  assumes "versions_ok s" "key_head_at_most s (edge_logical_key i) v" "v \<le> ms_current_version s"
  shows "versions_ok (write_edge old new i v x s)"
    and "read_key (write_edge old new i v x s) ts k =
      (if k = edge_logical_key i \<and> v \<le> ts then x else read_key s ts k)"
proof -
  let ?s = "s\<lparr>ms_current_edge_types := idx_add_all (tags_of edge_tags new) i
           (fold (\<lambda>l. idx_drop l i) (tags_of edge_tags old) (ms_current_edge_types s)),
        ms_edge_type_history := idx_add_all (tags_of edge_tags new) i (ms_edge_type_history s)\<rparr>"
  have s: "versions_ok ?s" "key_head_at_most ?s (edge_logical_key i) v" "v \<le> ms_current_version ?s"
    using assms by (simp_all add: versions_ok_def key_head_at_most_def)
  show "versions_ok (write_edge old new i v x s)"
    unfolding write_edge_def using s by (rule versions_ok_append_at)
  show "read_key (write_edge old new i v x s) ts k =
      (if k = edge_logical_key i \<and> v \<le> ts then x else read_key s ts k)"
    unfolding write_edge_def read_key_append_at [OF s(1,2)] by (simp add: read_key_def)
qed

lemma write_node_ok:
  assumes ok: "mvcc_ok c s" "codec_ok c"
    and v: "key_head_at_most s (node_logical_key i) v" "v \<le> ms_current_version s"
    and old: "map_option (dec_node c) (live_raw (key_or_default (ms_values s) (node_logical_key i))) = map_option Inr old"
    and new: "(case new of None \<Rightarrow> x = None | Some n \<Rightarrow> \<exists>raw. x = Some raw \<and> enc_node c n = Inr raw \<and> nr_id n = i)"
  shows "mvcc_ok c (write_node old new i v x s)"
proof -
  let ?s = "write_node old new i v x s"
  have inv: "kind_inv node_logical_key (dec_node c) nr_id nr_labels
       (ms_values s) (ms_current_node_labels s) (ms_node_label_history s)"
    "kind_inv edge_logical_key (dec_edge c) er_id edge_tags
       (ms_values s) (ms_current_edge_types s) (ms_edge_type_history s)"
    using ok(1) by (simp_all add: mvcc_ok_def)
  have "kind_inv node_logical_key (dec_node c) nr_id nr_labels
       (ms_values ?s) (ms_current_node_labels ?s) (ms_node_label_history ?s)"
    using node_kind.kind_write [OF inv(1) ok(2) old new] by (simp add: write_node_def)
  moreover have "kind_inv edge_logical_key (dec_edge c) er_id edge_tags
       (ms_values ?s) (ms_current_edge_types ?s) (ms_edge_type_history ?s)"
    using edge_kind.kind_other [OF inv(2)] by (simp add: write_node_def)
  ultimately show ?thesis
    using write_node_reads(1) [OF mvcc_ok_versions [OF ok(1)] v] by (simp add: mvcc_ok_def)
qed

lemma write_edge_ok:
  assumes ok: "mvcc_ok c s" "codec_ok c"
    and v: "key_head_at_most s (edge_logical_key i) v" "v \<le> ms_current_version s"
    and old: "map_option (dec_edge c) (live_raw (key_or_default (ms_values s) (edge_logical_key i))) = map_option Inr old"
    and new: "(case new of None \<Rightarrow> x = None | Some n \<Rightarrow> \<exists>raw. x = Some raw \<and> enc_edge c n = Inr raw \<and> er_id n = i)"
  shows "mvcc_ok c (write_edge old new i v x s)"
proof -
  let ?s = "write_edge old new i v x s"
  have inv: "kind_inv node_logical_key (dec_node c) nr_id nr_labels
       (ms_values s) (ms_current_node_labels s) (ms_node_label_history s)"
    "kind_inv edge_logical_key (dec_edge c) er_id edge_tags
       (ms_values s) (ms_current_edge_types s) (ms_edge_type_history s)"
    using ok(1) by (simp_all add: mvcc_ok_def)
  have "kind_inv edge_logical_key (dec_edge c) er_id edge_tags
       (ms_values ?s) (ms_current_edge_types ?s) (ms_edge_type_history ?s)"
    using edge_kind.kind_write [OF inv(2) ok(2) old new] by (simp add: write_edge_def)
  moreover have "kind_inv node_logical_key (dec_node c) nr_id nr_labels
       (ms_values ?s) (ms_current_node_labels ?s) (ms_node_label_history ?s)"
    using node_kind.kind_other [OF inv(1)] by (simp add: write_edge_def)
  ultimately show ?thesis
    using write_edge_reads(1) [OF mvcc_ok_versions [OF ok(1)] v] by (simp add: mvcc_ok_def)
qed

lemma put_node_record_at_eq:
  assumes "enc_node c n = Inr raw" "live_node_at c (node_logical_key (nr_id n)) s = Inr old"
    "\<forall>r. old = Some r \<longrightarrow> nr_id r = nr_id n"
  shows "put_node_record_at c n v s = (write_node old (Some n) (nr_id n) v (Some raw) s, Inr ())"
proof (cases old)
  case None
  then show ?thesis using assms(1,2) by (simp add: put_node_record_at_def write_node_def)
next
  case (Some r)
  then have "nr_id r = nr_id n" using assms(3) by simp
  with Some show ?thesis using assms(1,2)
    by (simp add: put_node_record_at_def write_node_def remove_node_from_current_labels_def)
qed

lemma delete_node_record_at_eq:
  assumes "live_node_at c (node_logical_key i) s = Inr old" "\<forall>r. old = Some r \<longrightarrow> nr_id r = i"
  shows "delete_node_record_at c i v s = (write_node old None i v None s, Inr ())"
proof (cases old)
  case None
  then show ?thesis using assms(1)
    by (simp add: delete_node_record_at_def write_node_def idx_add_all_def append_at_def Let_def)
next
  case (Some r)
  then have "nr_id r = i" using assms(2) by simp
  with Some show ?thesis using assms(1)
    by (simp add: delete_node_record_at_def write_node_def remove_node_from_current_labels_def
        idx_add_all_def append_at_def Let_def)
qed

lemma put_edge_record_at_eq:
  assumes "enc_edge c n = Inr raw" "live_edge_at c (edge_logical_key (er_id n)) s = Inr old"
    "\<forall>r. old = Some r \<longrightarrow> er_id r = er_id n"
  shows "put_edge_record_at c n v s = (write_edge old (Some n) (er_id n) v (Some raw) s, Inr ())"
proof (cases old)
  case None
  then show ?thesis using assms(1,2)
    by (simp add: put_edge_record_at_def write_edge_def idx_add_all_def)
next
  case (Some r)
  then have "er_id r = er_id n" using assms(3) by simp
  with Some show ?thesis using assms(1,2)
    by (simp add: put_edge_record_at_def write_edge_def remove_edge_from_current_types_def idx_add_all_def)
qed

lemma delete_edge_record_at_eq:
  assumes "live_edge_at c (edge_logical_key i) s = Inr old" "\<forall>r. old = Some r \<longrightarrow> er_id r = i"
  shows "delete_edge_record_at c i v s = (write_edge old None i v None s, Inr ())"
proof (cases old)
  case None
  then show ?thesis using assms(1)
    by (simp add: delete_edge_record_at_def write_edge_def idx_add_all_def append_at_def Let_def)
next
  case (Some r)
  then have "er_id r = i" using assms(2) by simp
  with Some show ?thesis using assms(1)
    by (simp add: delete_edge_record_at_def write_edge_def remove_edge_from_current_types_def
        idx_add_all_def append_at_def Let_def)
qed

text \<open>What one write does to the store, as seen through \<open>read_key\<close>.\<close>

definition writes_key :: "mvcc_store \<Rightarrow> mvcc_store \<Rightarrow> string \<Rightarrow> bytes option \<Rightarrow> bool" where
  "writes_key s s' k x \<longleftrightarrow>
     ms_current_version s' = Suc (ms_current_version s) \<and> ms_active_readers s' = ms_active_readers s \<and>
     (\<forall>ts j. read_key s' ts j = (if j = k \<and> ms_current_version s < ts then x else read_key s ts j))"

lemma fetched_ok:
  assumes "mvcc_ok c s"
  shows "mvcc_ok c (s\<lparr>ms_current_version := Suc (ms_current_version s)\<rparr>)"
    and "key_head_at_most (s\<lparr>ms_current_version := Suc (ms_current_version s)\<rparr>) k (Suc (ms_current_version s))"
proof -
  show "mvcc_ok c (s\<lparr>ms_current_version := Suc (ms_current_version s)\<rparr>)"
    using assms versions_ok_fetch [of s] by (simp add: mvcc_ok_def)
  show "key_head_at_most (s\<lparr>ms_current_version := Suc (ms_current_version s)\<rparr>) k (Suc (ms_current_version s))"
    using versions_ok_key(2) [OF versions_ok_fetch [OF mvcc_ok_versions [OF assms]], of k] by simp
qed

lemma put_node_record_ok:
  assumes "mvcc_ok c s" "codec_ok c" "ms_current_version s < u64_max" "enc_node c n = Inr raw"
  shows "\<exists>s'. put_node_record c n s = (s', Inr (Suc (ms_current_version s))) \<and> mvcc_ok c s' \<and>
    writes_key s s' (node_logical_key (nr_id n)) (Some raw)"
proof -
  let ?v = "Suc (ms_current_version s)" and ?i = "nr_id n"
  let ?s = "s\<lparr>ms_current_version := ?v\<rparr>"
  note ok = fetched_ok [OF assms(1)]
  obtain old where old: "live_node_at c (node_logical_key ?i) ?s = Inr old"
    "map_option (dec_node c) (live_raw (key_or_default (ms_values ?s) (node_logical_key ?i))) = map_option Inr old"
    "\<forall>r. old = Some r \<longrightarrow> nr_id r = ?i"
    using live_node_at_ok [OF ok(1)] by blast
  let ?s' = "write_node old (Some n) ?i ?v (Some raw) ?s"
  have "put_node_record c n s = (?s', Inr ?v)"
    using put_node_record_at_eq [OF assms(4) old(1,3)]
    by (simp add: put_node_record_def fetch_version_simps [OF assms(3)])
  moreover have "mvcc_ok c ?s'"
    using assms(4) by (intro write_node_ok [OF ok(1) assms(2) ok(2) _ old(2)]) simp_all
  moreover have "writes_key s ?s' (node_logical_key ?i) (Some raw)"
    by (simp add: writes_key_def Suc_le_eq write_node_reads(2) [OF mvcc_ok_versions [OF ok(1)] ok(2)])
  ultimately show ?thesis by blast
qed

lemma delete_node_record_ok:
  assumes "mvcc_ok c s" "codec_ok c" "ms_current_version s < u64_max"
  shows "\<exists>s'. delete_node_record c i s = (s', Inr (Suc (ms_current_version s))) \<and> mvcc_ok c s' \<and>
    writes_key s s' (node_logical_key i) None"
proof -
  let ?v = "Suc (ms_current_version s)"
  let ?s = "s\<lparr>ms_current_version := ?v\<rparr>"
  note ok = fetched_ok [OF assms(1)]
  obtain old where old: "live_node_at c (node_logical_key i) ?s = Inr old"
    "map_option (dec_node c) (live_raw (key_or_default (ms_values ?s) (node_logical_key i))) = map_option Inr old"
    "\<forall>r. old = Some r \<longrightarrow> nr_id r = i"
    using live_node_at_ok [OF ok(1)] by blast
  let ?s' = "write_node old None i ?v None ?s"
  have "delete_node_record c i s = (?s', Inr ?v)"
    using delete_node_record_at_eq [OF old(1,3)]
    by (simp add: delete_node_record_def fetch_version_simps [OF assms(3)])
  moreover have "mvcc_ok c ?s'"
    by (intro write_node_ok [OF ok(1) assms(2) ok(2) _ old(2)]) simp_all
  moreover have "writes_key s ?s' (node_logical_key i) None"
    by (simp add: writes_key_def Suc_le_eq write_node_reads(2) [OF mvcc_ok_versions [OF ok(1)] ok(2)])
  ultimately show ?thesis by blast
qed

lemma put_edge_record_ok:
  assumes "mvcc_ok c s" "codec_ok c" "ms_current_version s < u64_max" "enc_edge c n = Inr raw"
  shows "\<exists>s'. put_edge_record c n s = (s', Inr (Suc (ms_current_version s))) \<and> mvcc_ok c s' \<and>
    writes_key s s' (edge_logical_key (er_id n)) (Some raw)"
proof -
  let ?v = "Suc (ms_current_version s)" and ?i = "er_id n"
  let ?s = "s\<lparr>ms_current_version := ?v\<rparr>"
  note ok = fetched_ok [OF assms(1)]
  obtain old where old: "live_edge_at c (edge_logical_key ?i) ?s = Inr old"
    "map_option (dec_edge c) (live_raw (key_or_default (ms_values ?s) (edge_logical_key ?i))) = map_option Inr old"
    "\<forall>r. old = Some r \<longrightarrow> er_id r = ?i"
    using live_edge_at_ok [OF ok(1)] by blast
  let ?s' = "write_edge old (Some n) ?i ?v (Some raw) ?s"
  have "put_edge_record c n s = (?s', Inr ?v)"
    using put_edge_record_at_eq [OF assms(4) old(1,3)]
    by (simp add: put_edge_record_def fetch_version_simps [OF assms(3)])
  moreover have "mvcc_ok c ?s'"
    using assms(4) by (intro write_edge_ok [OF ok(1) assms(2) ok(2) _ old(2)]) simp_all
  moreover have "writes_key s ?s' (edge_logical_key ?i) (Some raw)"
    by (simp add: writes_key_def Suc_le_eq write_edge_reads(2) [OF mvcc_ok_versions [OF ok(1)] ok(2)])
  ultimately show ?thesis by blast
qed

lemma delete_edge_record_ok:
  assumes "mvcc_ok c s" "codec_ok c" "ms_current_version s < u64_max"
  shows "\<exists>s'. delete_edge_record c i s = (s', Inr (Suc (ms_current_version s))) \<and> mvcc_ok c s' \<and>
    writes_key s s' (edge_logical_key i) None"
proof -
  let ?v = "Suc (ms_current_version s)"
  let ?s = "s\<lparr>ms_current_version := ?v\<rparr>"
  note ok = fetched_ok [OF assms(1)]
  obtain old where old: "live_edge_at c (edge_logical_key i) ?s = Inr old"
    "map_option (dec_edge c) (live_raw (key_or_default (ms_values ?s) (edge_logical_key i))) = map_option Inr old"
    "\<forall>r. old = Some r \<longrightarrow> er_id r = i"
    using live_edge_at_ok [OF ok(1)] by blast
  let ?s' = "write_edge old None i ?v None ?s"
  have "delete_edge_record c i s = (?s', Inr ?v)"
    using delete_edge_record_at_eq [OF old(1,3)]
    by (simp add: delete_edge_record_def fetch_version_simps [OF assms(3)])
  moreover have "mvcc_ok c ?s'"
    by (intro write_edge_ok [OF ok(1) assms(2) ok(2) _ old(2)]) simp_all
  moreover have "writes_key s ?s' (edge_logical_key i) None"
    by (simp add: writes_key_def Suc_le_eq write_edge_reads(2) [OF mvcc_ok_versions [OF ok(1)] ok(2)])
  ultimately show ?thesis by blast
qed

text \<open>A write seen as an update of the graph.\<close>

lemma writes_node_at:
  assumes "writes_key s s' (node_logical_key i) x"
  shows "node_at c s' ts = (if ms_current_version s < ts
      then (node_at c s ts)(i := Option.bind x (\<lambda>raw. ok_value (dec_node c raw))) else node_at c s ts)"
    and "edge_at c s' ts = edge_at c s ts"
  using assms by (auto simp: writes_key_def node_at_def edge_at_def fun_eq_iff)

lemma writes_edge_at:
  assumes "writes_key s s' (edge_logical_key i) x"
  shows "edge_at c s' ts = (if ms_current_version s < ts
      then (edge_at c s ts)(i := Option.bind x (\<lambda>raw. ok_value (dec_edge c raw))) else edge_at c s ts)"
    and "node_at c s' ts = node_at c s ts"
  using assms by (auto simp: writes_key_def node_at_def edge_at_def fun_eq_iff)

subsection \<open>Lookups by label and type\<close>

lemma set_map_filter_eq: "set (List.map_filter f xs) = {y. \<exists>x\<in>set xs. f x = Some y}"
  by (force simp: List.map_filter_def)

lemma collect_visible_eq:
  assumes "\<And>i. i \<in> set ids \<Longrightarrow> get i = Inr (g i)"
  shows "collect_visible get keep ids = Inr (filter keep (List.map_filter g ids))"
  using assms by (induction ids) (auto simp: map_filter_simps split: option.split)

lemma sort_key_sorted: "sorted_wrt (<) (map f xs) \<Longrightarrow> sort_key f xs = (xs :: 'r list)"
  for f :: "'r \<Rightarrow> string"
  by (simp add: sort_key_id_if_sorted strict_sorted_imp_sorted)

lemma dedup_by_distinct: "distinct (map f xs) \<Longrightarrow> dedup_by f xs = xs"
  by (induction f xs rule: dedup_by.induct) auto

lemma collected_ids:
  assumes "sorted_wrt (<) ids" "\<And>i r. g i = Some r \<Longrightarrow> rid r = i"
  shows "sorted_wrt (<) (map rid (filter keep (List.map_filter g ids)))"
proof -
  have sub: "set (map rid (filter keep (List.map_filter g is))) \<subseteq> set is" for "is"
    using assms(2) by (induction "is") (auto simp: map_filter_simps split: option.splits)
  show ?thesis
    using assms(1)
  proof (induction ids)
    case (Cons i ids)
    then have "\<forall>y\<in>set (map rid (filter keep (List.map_filter g ids))). i < y"
      using sub [of ids] by fastforce
    with Cons show ?case
      using assms(2) [of i] by (auto simp: map_filter_simps split: option.split)
  qed (simp add: map_filter_simps)
qed

text \<open>
  \<open>lists_exactly f rid P rs\<close>: the list is in strictly ascending id order and holds exactly the
  records of the graph \<open>f\<close> that satisfy \<open>P\<close>.
\<close>

definition lists_exactly :: "(string \<rightharpoonup> 'r) \<Rightarrow> ('r \<Rightarrow> string) \<Rightarrow> ('r \<Rightarrow> bool) \<Rightarrow> 'r list \<Rightarrow> bool" where
  "lists_exactly g rid P rs \<longleftrightarrow>
     sorted_wrt (<) (map rid rs) \<and> set rs = {r. (\<exists>i. g i = Some r) \<and> P r}"

lemma lists_exactly_collect:
  assumes ids: "sorted_wrt (<) ids" and rid: "\<And>i r. g i = Some r \<Longrightarrow> rid r = i"
    and complete: "\<And>i r. g i = Some r \<Longrightarrow> P r \<Longrightarrow> i \<in> set ids"
    and keep: "\<And>i r. i \<in> set ids \<Longrightarrow> g i = Some r \<Longrightarrow> keep r \<longleftrightarrow> P r"
  shows "lists_exactly g rid P (sort_key rid (filter keep (List.map_filter g ids)))"
    and "lists_exactly g rid P (dedup_by rid (sort_key rid (filter keep (List.map_filter g ids))))"
proof -
  let ?rs = "filter keep (List.map_filter g ids)"
  have sorted: "sorted_wrt (<) (map rid ?rs)" using ids rid by (rule collected_ids)
  have "set ?rs = {r. (\<exists>i. g i = Some r) \<and> P r}"
    using keep complete by (fastforce simp: set_map_filter_eq)
  with sorted show "lists_exactly g rid P (sort_key rid ?rs)"
    by (simp add: lists_exactly_def sort_key_sorted)
  then show "lists_exactly g rid P (dedup_by rid (sort_key rid ?rs))"
    using sorted by (simp add: dedup_by_distinct strict_sorted_iff sort_key_sorted)
qed

lemma idx_wf_mvcc:
  assumes "mvcc_ok c s"
  shows "idx_wf (ms_current_node_labels s)" "idx_wf (ms_node_label_history s)"
    "idx_wf (ms_current_edge_types s)" "idx_wf (ms_edge_type_history s)"
  using assms by (simp_all add: mvcc_ok_def kind_inv_def)

lemma current_lookup_nodes:
  assumes "mvcc_ok c s"
  shows "\<exists>ns. get_nodes_by_label c s l = Inr ns \<and>
    lists_exactly (node_at c s (ms_current_version s)) nr_id (\<lambda>n. l \<in> set (nr_labels n)) ns"
proof -
  let ?ids = "idx_ids (ms_current_node_labels s) l" and ?g = "node_at c s (ms_current_version s)"
  have has: "i \<in> set ?ids \<longleftrightarrow> (\<exists>n. ?g i = Some n \<and> l \<in> set (nr_labels n))" for i
    using current_index_nodes [OF assms, of l i] by (simp add: idx_has_ids)
  have "get_nodes_by_label c s l = Inr (sort_key nr_id (filter (\<lambda>_. True) (List.map_filter ?g ?ids)))"
    by (simp add: get_nodes_by_label_def get_node_record_def get_node_record_visible_at_eq [OF assms]
        begin_snapshot_def collect_visible_eq [where g = ?g])
  moreover have "lists_exactly ?g nr_id (\<lambda>n. l \<in> set (nr_labels n))
      (sort_key nr_id (filter (\<lambda>_. True) (List.map_filter ?g ?ids)))"
    using idx_wf_mvcc(1) [OF assms] node_at_id [OF assms] has
    by (intro lists_exactly_collect) (auto intro: idx_ids_sorted)
  ultimately show ?thesis by blast
qed

lemma current_lookup_edges:
  assumes "mvcc_ok c s"
  shows "\<exists>es. get_edges_by_type c s t = Inr es \<and>
    lists_exactly (edge_at c s (ms_current_version s)) er_id (\<lambda>e. er_edge_type e = t) es"
proof -
  let ?ids = "idx_ids (ms_current_edge_types s) t" and ?g = "edge_at c s (ms_current_version s)"
  have has: "i \<in> set ?ids \<longleftrightarrow> (\<exists>e. ?g i = Some e \<and> t = er_edge_type e)" for i
    using current_index_edges [OF assms, of t i] by (simp add: idx_has_ids)
  have "get_edges_by_type c s t = Inr (sort_key er_id (filter (\<lambda>_. True) (List.map_filter ?g ?ids)))"
    by (simp add: get_edges_by_type_def get_edge_record_def get_edge_record_visible_at_eq [OF assms]
        begin_snapshot_def collect_visible_eq [where g = ?g])
  moreover have "lists_exactly ?g er_id (\<lambda>e. er_edge_type e = t)
      (sort_key er_id (filter (\<lambda>_. True) (List.map_filter ?g ?ids)))"
    using idx_wf_mvcc(3) [OF assms] edge_at_id [OF assms] has
    by (intro lists_exactly_collect) (auto intro: idx_ids_sorted)
  ultimately show ?thesis by blast
qed

lemma snapshot_lookup_nodes:
  assumes "mvcc_ok c s"
  shows "\<exists>ns. get_nodes_by_label_visible_at c s snap l = Inr ns \<and>
    lists_exactly (node_at c s (sn_read_ts snap)) nr_id (\<lambda>n. l \<in> set (nr_labels n)) ns"
proof -
  let ?ids = "idx_ids (ms_node_label_history s) l" and ?g = "node_at c s (sn_read_ts snap)"
  let ?keep = "\<lambda>n. l \<in> set (nr_labels n)"
  have "get_nodes_by_label_visible_at c s snap l =
      Inr (dedup_by nr_id (sort_key nr_id (filter ?keep (List.map_filter ?g ?ids))))"
    by (simp add: get_nodes_by_label_visible_at_def get_node_record_visible_at_eq [OF assms]
        collect_visible_eq [where g = ?g])
  moreover have "lists_exactly ?g nr_id ?keep
      (dedup_by nr_id (sort_key nr_id (filter ?keep (List.map_filter ?g ?ids))))"
    using idx_wf_mvcc(2) [OF assms] node_at_id [OF assms] history_index_nodes [OF assms]
    by (intro lists_exactly_collect) (auto intro: idx_ids_sorted simp: idx_has_ids [symmetric])
  ultimately show ?thesis by blast
qed

lemma snapshot_lookup_edges:
  assumes "mvcc_ok c s"
  shows "\<exists>es. get_edges_by_type_visible_at c s snap t = Inr es \<and>
    lists_exactly (edge_at c s (sn_read_ts snap)) er_id (\<lambda>e. er_edge_type e = t) es"
proof -
  let ?ids = "idx_ids (ms_edge_type_history s) t" and ?g = "edge_at c s (sn_read_ts snap)"
  let ?keep = "\<lambda>e. er_edge_type e = t"
  have "get_edges_by_type_visible_at c s snap t =
      Inr (dedup_by er_id (sort_key er_id (filter ?keep (List.map_filter ?g ?ids))))"
    by (simp add: get_edges_by_type_visible_at_def get_edge_record_visible_at_eq [OF assms]
        collect_visible_eq [where g = ?g])
  moreover have "lists_exactly ?g er_id ?keep
      (dedup_by er_id (sort_key er_id (filter ?keep (List.map_filter ?g ?ids))))"
    using idx_wf_mvcc(4) [OF assms] edge_at_id [OF assms] history_index_edges [OF assms]
    by (intro lists_exactly_collect) (auto intro: idx_ids_sorted simp: idx_has_ids [symmetric])
  ultimately show ?thesis by blast
qed

text \<open>Full scans strip the kind's prefix off the ordered keys, which keeps their order.\<close>

lemma append_less_append [simp]: "p @ x < p @ y \<longleftrightarrow> x < (y :: 'a::order list)"
  by (induction p) auto

lemma strip_prefix_sorted:
  fixes ks :: "'a::linorder list list"
  shows "sorted_wrt (<) ks \<Longrightarrow> sorted_wrt (<) (List.map_filter (strip_prefix_opt p) ks)"
proof (induction ks)
  case (Cons k ks)
  have "i < j" if "strip_prefix_opt p k = Some i" "j \<in> set (List.map_filter (strip_prefix_opt p) ks)" for i j
  proof -
    have "k = p @ i" "p @ j \<in> set ks"
      using that by (auto simp: strip_prefix_opt_Some set_map_filter_eq)
    with Cons.prems show ?thesis by fastforce
  qed
  with Cons show ?case by (auto simp: map_filter_simps split: option.split)
qed (simp add: map_filter_simps)

lemma ids_with_prefix_sorted: "versions_ok s \<Longrightarrow> sorted_wrt (<) (ids_with_prefix p s)"
  by (simp add: ids_with_prefix_def strip_prefix_sorted versions_ok_def bt_wf_def bt_keys_def)

lemma ids_with_prefix_complete:
  assumes "read_key s ts (p @ i) = Some raw" shows "i \<in> set (ids_with_prefix p s)"
proof -
  have "bt_get (ms_values s) (p @ i) \<noteq> None"
    using assms by (auto simp: read_key_def split: option.splits)
  then have "p @ i \<in> set (bt_keys (ms_values s))"
    using bt_get_None_iff [of "ms_values s" "p @ i"] by (auto simp: bt_keys_def)
  then show ?thesis
    unfolding ids_with_prefix_def set_map_filter_eq using strip_prefix_opt_append by blast
qed

lemma scan_nodes:
  assumes "mvcc_ok c s"
  shows "\<exists>ns. all_node_records_visible_at c s snap = Inr ns \<and>
    lists_exactly (node_at c s (sn_read_ts snap)) nr_id (\<lambda>_. True) ns"
proof -
  let ?ids = "ids_with_prefix ''node:'' s" and ?g = "node_at c s (sn_read_ts snap)"
  have "all_node_records_visible_at c s snap = Inr (sort_key nr_id (filter (\<lambda>_. True) (List.map_filter ?g ?ids)))"
    by (simp add: all_node_records_visible_at_def get_node_record_visible_at_eq [OF assms]
        collect_visible_eq [where g = ?g])
  moreover have "i \<in> set ?ids" if "?g i = Some n" for i n
    using that ids_with_prefix_complete [of s _ "''node:''" i]
    by (auto simp: node_at_def bind_eq_Some_conv node_logical_key_def)
  then have "lists_exactly ?g nr_id (\<lambda>_. True) (sort_key nr_id (filter (\<lambda>_. True) (List.map_filter ?g ?ids)))"
    using ids_with_prefix_sorted [OF mvcc_ok_versions [OF assms]] node_at_id [OF assms]
    by (intro lists_exactly_collect) auto
  ultimately show ?thesis by blast
qed

lemma scan_edges:
  assumes "mvcc_ok c s"
  shows "\<exists>es. all_edge_records_visible_at c s snap = Inr es \<and>
    lists_exactly (edge_at c s (sn_read_ts snap)) er_id (\<lambda>_. True) es"
proof -
  let ?ids = "ids_with_prefix ''edge:'' s" and ?g = "edge_at c s (sn_read_ts snap)"
  have "all_edge_records_visible_at c s snap = Inr (sort_key er_id (filter (\<lambda>_. True) (List.map_filter ?g ?ids)))"
    by (simp add: all_edge_records_visible_at_def get_edge_record_visible_at_eq [OF assms]
        collect_visible_eq [where g = ?g])
  moreover have "i \<in> set ?ids" if "?g i = Some n" for i n
    using that ids_with_prefix_complete [of s _ "''edge:''" i]
    by (auto simp: edge_at_def bind_eq_Some_conv edge_logical_key_def)
  then have "lists_exactly ?g er_id (\<lambda>_. True) (sort_key er_id (filter (\<lambda>_. True) (List.map_filter ?g ?ids)))"
    using ids_with_prefix_sorted [OF mvcc_ok_versions [OF assms]] edge_at_id [OF assms]
    by (intro lists_exactly_collect) auto
  ultimately show ?thesis by blast
qed

subsection \<open>Properties\<close>

text \<open>A concrete codec and store for the witnesses: a table of three records.\<close>

definition sample_meta :: node_embedding_metadata where
  "sample_meta = \<lparr>em_embedding_model = None, em_embedding_generation = None, em_embedding_dimensions = None,
     em_has_embedding = None, em_embedded_at = None, em_has_chunks = None, em_chunk_count = None\<rparr>"

definition sample_node :: "string \<Rightarrow> string list \<Rightarrow> unit node_record" where
  "sample_node i labels = \<lparr>nr_id = i, nr_labels = labels, nr_properties = [], nr_named_embeddings = [],
     nr_chunk_embeddings = [], nr_embed_meta = sample_meta, nr_created_at = 0, nr_updated_at = 0\<rparr>"

definition sample_edge :: "string \<Rightarrow> string \<Rightarrow> string \<Rightarrow> string \<Rightarrow> unit edge_record" where
  "sample_edge i a b t = \<lparr>er_id = i, er_start_node = a, er_end_node = b, er_edge_type = t,
     er_properties = [], er_created_at = 0, er_updated_at = 0\<rparr>"

definition sample_codec :: "unit codec" where
  "sample_codec =
     \<lparr>enc_node = (\<lambda>n. if n = sample_node ''a'' [''P''] then Inr [1]
                      else if n = sample_node ''a'' [''Q''] then Inr [2]
                      else if n = sample_node ''b'' [''P'', ''Q''] then Inr [3]
                      else Inl (Serialization ''unknown'')),
      dec_node = (\<lambda>raw. if raw = [1] then Inr (sample_node ''a'' [''P''])
                        else if raw = [2] then Inr (sample_node ''a'' [''Q''])
                        else if raw = [3] then Inr (sample_node ''b'' [''P'', ''Q''])
                        else Inl (Deserialization ''unknown'')),
      enc_edge = (\<lambda>e. if e = sample_edge ''e'' ''a'' ''b'' ''T'' then Inr [4] else Inl (Serialization ''unknown'')),
      dec_edge = (\<lambda>raw. if raw = [4] then Inr (sample_edge ''e'' ''a'' ''b'' ''T'')
                        else Inl (Deserialization ''unknown''))\<rparr>"

lemma codec_ok_sample [simp]: "codec_ok sample_codec"
  by (auto simp: codec_ok_def sample_codec_def split: if_splits)

lemma sample_node_eq [simp]:
  "sample_node i l = sample_node j m \<longleftrightarrow> i = j \<and> l = m"
  "nr_id (sample_node i l) = i" "nr_labels (sample_node i l) = l"
  by (auto simp: sample_node_def)

lemma sample_edge_eq [simp]: "er_id (sample_edge i a b t) = i" "er_edge_type (sample_edge i a b t) = t"
  by (simp_all add: sample_edge_def)

lemma ran_sample: "{r. (\<exists>i. m i = Some r) \<and> P r} = {r \<in> ran m. P r}"
  by (auto simp: ran_def)

lemma sample_codec_simps [simp]:
  "enc_node sample_codec (sample_node ''a'' [''P'']) = Inr [1]"
  "enc_node sample_codec (sample_node ''a'' [''Q'']) = Inr [2]"
  "enc_node sample_codec (sample_node ''b'' [''P'', ''Q'']) = Inr [3]"
  "enc_edge sample_codec (sample_edge ''e'' ''a'' ''b'' ''T'') = Inr [4]"
  "dec_node sample_codec [1] = Inr (sample_node ''a'' [''P''])"
  "dec_node sample_codec [2] = Inr (sample_node ''a'' [''Q''])"
  "dec_node sample_codec [3] = Inr (sample_node ''b'' [''P'', ''Q''])"
  "dec_edge sample_codec [4] = Inr (sample_edge ''e'' ''a'' ''b'' ''T'')"
  by (simp_all add: sample_codec_def)

lemma sample_default [simp]:
  "ms_current_version mvcc_default = 0" "node_at c mvcc_default ts = Map.empty" "edge_at c mvcc_default ts = Map.empty"
  by (simp_all add: mvcc_default_def node_at_def edge_at_def read_key_def fun_eq_iff)

text \<open>The store after writing nodes a and b (versions 1 and 2).\<close>

definition sample_store :: mvcc_store where
  "sample_store = fst (put_node_record sample_codec (sample_node ''b'' [''P'', ''Q''])
     (fst (put_node_record sample_codec (sample_node ''a'' [''P'']) mvcc_default)))"

lemma sample_store_ok [simp]:
  "mvcc_ok sample_codec sample_store" "ms_current_version sample_store = 2"
  "node_at sample_codec sample_store ts =
     (if 2 \<le> ts then [''a'' \<mapsto> sample_node ''a'' [''P''], ''b'' \<mapsto> sample_node ''b'' [''P'', ''Q'']]
      else if 1 \<le> ts then [''a'' \<mapsto> sample_node ''a'' [''P'']] else Map.empty)"
proof -
  obtain s1 where s1: "put_node_record sample_codec (sample_node ''a'' [''P'']) mvcc_default = (s1, Inr (Suc 0))"
    "mvcc_ok sample_codec s1" "writes_key mvcc_default s1 (node_logical_key ''a'') (Some [1])"
    using put_node_record_ok [of sample_codec mvcc_default "sample_node ''a'' [''P'']"]
    by (auto simp: u64_max_def)
  from s1(3) have v1: "ms_current_version s1 = 1" by (simp add: writes_key_def)
  obtain s2 where s2: "put_node_record sample_codec (sample_node ''b'' [''P'', ''Q'']) s1 = (s2, Inr 2)"
    "mvcc_ok sample_codec s2" "writes_key s1 s2 (node_logical_key ''b'') (Some [3])"
    using put_node_record_ok [OF s1(2) codec_ok_sample, of "sample_node ''b'' [''P'', ''Q'']" "[3]"]
    by (simp add: v1 u64_max_def numeral_2_eq_2 [symmetric]) blast
  have eq: "sample_store = s2" by (simp add: sample_store_def s1(1) s2(1))
  show "mvcc_ok sample_codec sample_store" "ms_current_version sample_store = 2"
    using s2(2,3) v1 by (simp_all add: eq writes_key_def)
  show "node_at sample_codec sample_store ts =
     (if 2 \<le> ts then [''a'' \<mapsto> sample_node ''a'' [''P''], ''b'' \<mapsto> sample_node ''b'' [''P'', ''Q'']]
      else if 1 \<le> ts then [''a'' \<mapsto> sample_node ''a'' [''P'']] else Map.empty)"
    unfolding eq writes_node_at(1) [OF s2(3)] writes_node_at(1) [OF s1(3)] v1
    by (auto simp: numeral_2_eq_2)
qed

text \<open>
  C3: On a store in its invariant, writing a node takes the next version and changes the graph at
  that version and later by exactly one binding, leaving every older graph and every edge alone;
  deleting removes exactly one binding; both keep the invariant, indices included.
\<close>

theorem node_writes_refine:
  assumes "mvcc_ok c s" "codec_ok c" "ms_current_version s < u64_max"
  shows "(\<forall>n raw. enc_node c n = Inr raw \<longrightarrow> (let (s', r) = put_node_record c n s in
      r = Inr (ms_current_version s + 1) \<and> mvcc_ok c s' \<and>
      (\<forall>ts. node_at c s' ts = (if ms_current_version s < ts then (node_at c s ts)(nr_id n \<mapsto> n) else node_at c s ts) \<and>
            edge_at c s' ts = edge_at c s ts))) \<and>
    (\<forall>i. let (s', r) = delete_node_record c i s in
      r = Inr (ms_current_version s + 1) \<and> mvcc_ok c s' \<and>
      (\<forall>ts. node_at c s' ts = (if ms_current_version s < ts then (node_at c s ts)(i := None) else node_at c s ts) \<and>
            edge_at c s' ts = edge_at c s ts))"
    (is "(\<forall>n raw. ?put n raw) \<and> (\<forall>i. ?del i)")
proof -
  have put: "?put n raw" for n raw
  proof
    assume e: "enc_node c n = Inr raw"
    have "dec_node c raw = Inr n" using assms(2) e by (simp add: codec_ok_def)
    moreover obtain s' where "put_node_record c n s = (s', Inr (Suc (ms_current_version s)))" "mvcc_ok c s'"
      "writes_key s s' (node_logical_key (nr_id n)) (Some raw)"
      using put_node_record_ok [OF assms e] by blast
    ultimately show
      "let (s', r) = put_node_record c n s in
        r = Inr (ms_current_version s + 1) \<and> mvcc_ok c s' \<and>
        (\<forall>ts. node_at c s' ts = (if ms_current_version s < ts then (node_at c s ts)(nr_id n \<mapsto> n) else node_at c s ts) \<and>
            edge_at c s' ts = edge_at c s ts)"
      by (simp add: writes_node_at)
  qed
  have "?del i" for i
  proof -
    obtain s' where "delete_node_record c i s = (s', Inr (Suc (ms_current_version s)))" "mvcc_ok c s'"
      "writes_key s s' (node_logical_key i) None"
      using delete_node_record_ok [OF assms] by blast
    then show ?thesis by (simp add: writes_node_at)
  qed
  with put show ?thesis by blast
qed

theorem node_writes_refine_witness:
  "node_at sample_codec (fst (put_node_record sample_codec (sample_node ''a'' [''Q'']) sample_store)) 3 ''a''
     = Some (sample_node ''a'' [''Q'']) \<and>
   node_at sample_codec (fst (put_node_record sample_codec (sample_node ''a'' [''Q'']) sample_store)) 2 ''a''
     = Some (sample_node ''a'' [''P''])"
proof -
  have "ms_current_version sample_store < u64_max" by (simp add: u64_max_def)
  from node_writes_refine [OF sample_store_ok(1) codec_ok_sample this, THEN conjunct1,
      THEN spec, of "sample_node ''a'' [''Q'']", THEN spec, of "[2]"]
  show ?thesis
    by (simp add: case_prod_beta Let_def)
qed

text \<open>
  The same for edges: a write or delete of an edge is one update of the edge graph at the new
  version, and no node of any version changes.
\<close>

theorem edge_writes_refine:
  assumes "mvcc_ok c s" "codec_ok c" "ms_current_version s < u64_max"
  shows "(\<forall>e raw. enc_edge c e = Inr raw \<longrightarrow> (let (s', r) = put_edge_record c e s in
      r = Inr (ms_current_version s + 1) \<and> mvcc_ok c s' \<and>
      (\<forall>ts. edge_at c s' ts = (if ms_current_version s < ts then (edge_at c s ts)(er_id e \<mapsto> e) else edge_at c s ts) \<and>
            node_at c s' ts = node_at c s ts))) \<and>
    (\<forall>i. let (s', r) = delete_edge_record c i s in
      r = Inr (ms_current_version s + 1) \<and> mvcc_ok c s' \<and>
      (\<forall>ts. edge_at c s' ts = (if ms_current_version s < ts then (edge_at c s ts)(i := None) else edge_at c s ts) \<and>
            node_at c s' ts = node_at c s ts))"
    (is "(\<forall>e raw. ?put e raw) \<and> (\<forall>i. ?del i)")
proof -
  have put: "?put e raw" for e raw
  proof
    assume enc: "enc_edge c e = Inr raw"
    have "dec_edge c raw = Inr e" using assms(2) enc by (simp add: codec_ok_def)
    moreover obtain s' where "put_edge_record c e s = (s', Inr (Suc (ms_current_version s)))" "mvcc_ok c s'"
      "writes_key s s' (edge_logical_key (er_id e)) (Some raw)"
      using put_edge_record_ok [OF assms enc] by blast
    ultimately show
      "let (s', r) = put_edge_record c e s in
        r = Inr (ms_current_version s + 1) \<and> mvcc_ok c s' \<and>
        (\<forall>ts. edge_at c s' ts = (if ms_current_version s < ts then (edge_at c s ts)(er_id e \<mapsto> e) else edge_at c s ts) \<and>
            node_at c s' ts = node_at c s ts)"
      by (simp add: writes_edge_at)
  qed
  have "?del i" for i
  proof -
    obtain s' where "delete_edge_record c i s = (s', Inr (Suc (ms_current_version s)))" "mvcc_ok c s'"
      "writes_key s s' (edge_logical_key i) None"
      using delete_edge_record_ok [OF assms] by blast
    then show ?thesis by (simp add: writes_edge_at)
  qed
  with put show ?thesis by blast
qed

theorem edge_writes_refine_witness:
  "edge_at sample_codec (fst (put_edge_record sample_codec (sample_edge ''e'' ''a'' ''b'' ''T'') sample_store)) 3 ''e''
     = Some (sample_edge ''e'' ''a'' ''b'' ''T'')"
proof -
  have "ms_current_version sample_store < u64_max" by (simp add: u64_max_def)
  from edge_writes_refine [OF sample_store_ok(1) codec_ok_sample this, THEN conjunct1,
      THEN spec, of "sample_edge ''e'' ''a'' ''b'' ''T''", THEN spec, of "[4]"]
  show ?thesis
    by (simp add: case_prod_beta Let_def)
qed

text \<open>
  C4: A label or type lookup on the current store never fails and returns, in ascending id order and
  without duplicates, exactly the live records that carry the label or type: the current indices
  neither miss a record nor list a stale one.
\<close>

theorem current_lookups_exact:
  assumes "mvcc_ok c s"
  shows "(\<exists>ns. get_nodes_by_label c s l = Inr ns \<and>
       lists_exactly (node_at c s (ms_current_version s)) nr_id (\<lambda>n. l \<in> set (nr_labels n)) ns) \<and>
    (\<exists>es. get_edges_by_type c s t = Inr es \<and>
       lists_exactly (edge_at c s (ms_current_version s)) er_id (\<lambda>e. er_edge_type e = t) es)"
  using current_lookup_nodes [OF assms] current_lookup_edges [OF assms] by blast

theorem current_lookups_exact_witness:
  "\<exists>ns. get_nodes_by_label sample_codec sample_store ''P'' = Inr ns \<and>
     set ns = {sample_node ''a'' [''P''], sample_node ''b'' [''P'', ''Q'']}"
proof -
  obtain ns where ns: "get_nodes_by_label sample_codec sample_store ''P'' = Inr ns"
    "set ns = {r \<in> ran (node_at sample_codec sample_store 2). ''P'' \<in> set (nr_labels r)}"
    using current_lookups_exact [OF sample_store_ok(1), of "''P''" "''T''", THEN conjunct1]
    unfolding lists_exactly_def sample_store_ok(2) ran_sample by blast
  moreover have "{r \<in> ran (node_at sample_codec sample_store 2). ''P'' \<in> set (nr_labels r)}
      = {sample_node ''a'' [''P''], sample_node ''b'' [''P'', ''Q'']}"
    by (auto simp: ran_map_upd)
  ultimately show ?thesis by simp
qed

text \<open>
  C5: Lookups and full scans at any snapshot, however old, return exactly the records of the graph
  the store shows at that timestamp: the history indices cover every retained version, and the
  final filter removes the records that carry the tag only at other versions.
\<close>

theorem snapshot_lookups_exact:
  assumes "mvcc_ok c s"
  shows "(\<exists>ns. get_nodes_by_label_visible_at c s snap l = Inr ns \<and>
       lists_exactly (node_at c s (sn_read_ts snap)) nr_id (\<lambda>n. l \<in> set (nr_labels n)) ns) \<and>
    (\<exists>es. get_edges_by_type_visible_at c s snap t = Inr es \<and>
       lists_exactly (edge_at c s (sn_read_ts snap)) er_id (\<lambda>e. er_edge_type e = t) es) \<and>
    (\<exists>ns. all_node_records_visible_at c s snap = Inr ns \<and>
       lists_exactly (node_at c s (sn_read_ts snap)) nr_id (\<lambda>_. True) ns) \<and>
    (\<exists>es. all_edge_records_visible_at c s snap = Inr es \<and>
       lists_exactly (edge_at c s (sn_read_ts snap)) er_id (\<lambda>_. True) es)"
  using snapshot_lookup_nodes [OF assms] snapshot_lookup_edges [OF assms]
    scan_nodes [OF assms] scan_edges [OF assms] by blast

theorem snapshot_lookups_exact_witness:
  "\<exists>ns. get_nodes_by_label_visible_at sample_codec sample_store \<lparr>sn_id = 1, sn_read_ts = 1\<rparr> ''P'' = Inr ns \<and>
     set ns = {sample_node ''a'' [''P'']}"
proof -
  obtain ns where ns:
    "get_nodes_by_label_visible_at sample_codec sample_store \<lparr>sn_id = 1, sn_read_ts = 1\<rparr> ''P'' = Inr ns"
    "set ns = {r \<in> ran (node_at sample_codec sample_store 1). ''P'' \<in> set (nr_labels r)}"
    using snapshot_lookups_exact [OF sample_store_ok(1), of "\<lparr>sn_id = 1, sn_read_ts = 1\<rparr>" "''P''" "''T''",
        THEN conjunct1] unfolding lists_exactly_def mvcc_snapshot.select_convs ran_sample by blast
  moreover have "{r \<in> ran (node_at sample_codec sample_store 1). ''P'' \<in> set (nr_labels r)}
      = {sample_node ''a'' [''P'']}"
    by (auto simp: ran_map_upd)
  ultimately show ?thesis by simp
qed

text \<open>
  The direct \<open>put_node_record\<close> takes its version before it takes the lock, so overlapping calls
  break both promises of a version. A snapshot begun between the two steps sees no node a, and after
  the write the same snapshot sees it. And when two writers of one node enter the lock in the
  opposite order of their versions, the older write becomes the head and hides the newer one.
\<close>

theorem overlapping_puts_unstable:
  "let c = sample_codec; older = sample_node ''a'' [''P'']; newer = sample_node ''a'' [''Q''];
       (s1, v1) = fetch_version mvcc_default; snap = begin_snapshot s1;
       (s2, v2) = fetch_version s1;
       s3 = fst (put_node_record_at c newer v2 s2); s4 = fst (put_node_record_at c older v1 s3)
   in get_node_record_visible_at c s1 snap ''a'' = Inr None \<and>
      get_node_record_visible_at c (fst (put_node_record_at c older v1 s1)) snap ''a'' = Inr (Some older) \<and>
      v1 < v2 \<and> get_node_record c s4 ''a'' = Inr (Some older)"
  by (simp add: put_node_record_at_def fetch_version_def wadd64_def mvcc_default_def live_node_at_def
      begin_snapshot_def get_node_record_visible_at_def get_node_record_def mvcc_read_def read_key_def
      append_at_def key_or_default_def current_live_node_from_state_def key_evals opt_transpose_def bt_get_def)

end
