(* ===== verification/Mvcc_Lifecycle.thy ===== *)
theory Mvcc_Lifecycle
  imports Mvcc_Views
begin

text \<open>
  Pruning, history-index compaction, lifecycle status and the persisted head of \<open>MvccStore\<close>, and the
  store as a state machine: a step is any public operation, and a registered reader's graph survives
  every step that the code promises it survives.
\<close>

subsection \<open>Pruning\<close>

definition prune_versions_older_than :: "nat \<Rightarrow> mvcc_store \<Rightarrow> mvcc_store" where
  "prune_versions_older_than min_version s =
     (let effective_min_version =
        (case oldest_active_reader s of
           Some oldest_reader \<Rightarrow> min min_version oldest_reader | None \<Rightarrow> min_version)
      in s\<lparr>ms_floor := effective_min_version,
           ms_values := bt_map_values (\<lambda>_ st. fst (prune_to_floor effective_min_version st)) (ms_values s)\<rparr>)"

definition retained_node_labels :: "'j codec \<Rightarrow> key_state \<Rightarrow> string list option" where
  "retained_node_labels c st =
     (let labels_of = (\<lambda>value. case value of
              None \<Rightarrow> []
            | Some raw \<Rightarrow> (case dec_node c raw of Inl _ \<Rightarrow> [] | Inr node \<Rightarrow> nr_labels node));
          labels = concat (map (labels_of \<circ> snd) (ks_archived st))
      in case ks_head st of
           None \<Rightarrow> None
         | Some head \<Rightarrow>
             Some (if lsh_tombstoned head then labels else labels @ labels_of (lsh_current head)))"

definition retained_edge_types :: "'j codec \<Rightarrow> key_state \<Rightarrow> string list option" where
  "retained_edge_types c st =
     (let types_of = (\<lambda>value. case value of
              None \<Rightarrow> []
            | Some raw \<Rightarrow> (case dec_edge c raw of Inl _ \<Rightarrow> [] | Inr edge \<Rightarrow> [er_edge_type edge]));
          types = concat (map (types_of \<circ> snd) (ks_archived st))
      in case ks_head st of
           None \<Rightarrow> None
         | Some head \<Rightarrow>
             Some (if lsh_tombstoned head then types else types @ types_of (lsh_current head)))"

definition unwrap_list :: "'a list option \<Rightarrow> 'a list" where
  "unwrap_list x = (case x of None \<Rightarrow> [] | Some xs \<Rightarrow> xs)"

definition compact_history_candidates :: "'j codec \<Rightarrow> string list \<Rightarrow> string list \<Rightarrow> mvcc_store \<Rightarrow> mvcc_store" where
  "compact_history_candidates c pruned_node_ids pruned_edge_ids s =
     (let values = ms_values s;
          label_history = fold (\<lambda>node_id. prune_node_history_candidates node_id
              (unwrap_list (Option.bind (bt_get values (node_logical_key node_id)) (retained_node_labels c))))
            pruned_node_ids (ms_node_label_history s);
          edge_type_history = fold (\<lambda>edge_id. prune_edge_history_candidates edge_id
              (unwrap_list (Option.bind (bt_get values (edge_logical_key edge_id)) (retained_edge_types c))))
            pruned_edge_ids (ms_edge_type_history s)
      in s\<lparr>ms_node_label_history := label_history, ms_edge_type_history := edge_type_history\<rparr>)"

definition min_floor :: "nat option \<Rightarrow> nat \<Rightarrow> nat option" where
  "min_floor existing floor = Some (case existing of Some existing \<Rightarrow> min existing floor | None \<Rightarrow> floor)"

text \<open>
  The loop of \<open>prune_mvcc_versions\<close> over the keys, in key order: per key the pruned state and the
  number of versions removed.
\<close>

definition prune_each :: "nat \<Rightarrow> nat option \<Rightarrow> (string, key_state) btree \<Rightarrow> (string, key_state \<times> nat) btree" where
  "prune_each max_versions oldest values =
     bt_map_values (\<lambda>_ st. prune_to_max_versions max_versions oldest st) values"

definition max_versions_of :: "nat option \<Rightarrow> nat" where
  "max_versions_of max_versions_per_key = max (case max_versions_per_key of None \<Rightarrow> 1 | Some m \<Rightarrow> m) 1"

definition prune_mvcc_versions :: "'j codec \<Rightarrow> nat option \<Rightarrow> mvcc_store \<Rightarrow> mvcc_store \<times> nat" where
  "prune_mvcc_versions c max_versions_per_key s =
     (let pruned = prune_each (max_versions_of max_versions_per_key) (oldest_active_reader s) (ms_values s);
          new_global_floor = fold (\<lambda>(_, st, _) acc.
              case logical_head_of st of Some head \<Rightarrow> min_floor acc (lh_floor head) | None \<Rightarrow> acc) pruned None;
          changed = filter (\<lambda>(_, _, removed). removed \<noteq> 0) pruned;
          pruned_node_ids = List.map_filter (\<lambda>(k, _). strip_prefix_opt ''node:'' k) changed;
          pruned_edge_ids = List.map_filter (\<lambda>(k, _).
              if strip_prefix_opt ''node:'' k = None then strip_prefix_opt ''edge:'' k else None) changed;
          s = s\<lparr>ms_values := map (\<lambda>(k, st, _). (k, st)) pruned,
                ms_floor := (case new_global_floor of Some f \<Rightarrow> f | None \<Rightarrow> 0)\<rparr>
      in (compact_history_candidates c pruned_node_ids pruned_edge_ids s,
          sum_list (map (\<lambda>(_, _, removed). removed) pruned)))"

definition key_in_prefix :: "string \<Rightarrow> string \<Rightarrow> bool" where
  "key_in_prefix namespace_prefix logical_key =
     (case split_once (CHR '':'') logical_key of None \<Rightarrow> False | Some (_, i) \<Rightarrow> starts_with i namespace_prefix)"

definition prune_mvcc_versions_in_namespace ::
    "'j codec \<Rightarrow> string \<Rightarrow> nat option \<Rightarrow> mvcc_store \<Rightarrow> mvcc_store \<times> nat" where
  "prune_mvcc_versions_in_namespace c namespace_prefix max_versions_per_key s =
     (let pruned = bt_map_values (\<lambda>k st.
              if key_in_prefix namespace_prefix k
              then prune_to_max_versions (max_versions_of max_versions_per_key) (oldest_active_reader s) st
              else (st, 0)) (ms_values s);
          changed = filter (\<lambda>(_, _, removed). removed \<noteq> 0) pruned;
          ids_of = (\<lambda>kind. List.map_filter (\<lambda>(k, _).
              case split_once (CHR '':'') k of
                None \<Rightarrow> None | Some (kd, i) \<Rightarrow> if kd = kind then Some i else None) changed);
          s = s\<lparr>ms_values := map (\<lambda>(k, st, _). (k, st)) pruned\<rparr>
      in (compact_history_candidates c (ids_of ''node'') (ids_of ''edge'') s,
          sum_list (map (\<lambda>(_, _, removed). removed) pruned)))"

definition trigger_prune_now :: "'j codec \<Rightarrow> nat \<Rightarrow> mvcc_store \<Rightarrow> mvcc_store \<times> nat" where
  "trigger_prune_now c retain_last_n_versions s =
     (case oldest_active_reader s of
        Some reader_anchor \<Rightarrow>
          (let new_global_floor = fold (\<lambda>(_, st) acc.
                 case ks_head st of
                   None \<Rightarrow> acc
                 | Some head \<Rightarrow>
                     if lsh_head head \<le> reader_anchor then acc
                     else min_floor acc (case last_opt (bt_upto reader_anchor (ks_archived st)) of
                            Some (v, _) \<Rightarrow> v | None \<Rightarrow> lsh_head head)) (ms_values s) None
           in (case new_global_floor of Some floor \<Rightarrow> s\<lparr>ms_floor := floor\<rparr> | None \<Rightarrow> s, 0))
      | None \<Rightarrow> prune_mvcc_versions c (Some (sat_add64 retain_last_n_versions 1)) s)"

subsection \<open>Lifecycle control and status\<close>

definition pause_lifecycle :: "mvcc_store \<Rightarrow> mvcc_store" where
  "pause_lifecycle s = s\<lparr>ms_lifecycle_paused := 1\<rparr>"

definition resume_lifecycle :: "mvcc_store \<Rightarrow> mvcc_store" where
  "resume_lifecycle s = s\<lparr>ms_lifecycle_paused := 0\<rparr>"

definition set_lifecycle_schedule_ms :: "nat \<Rightarrow> mvcc_store \<Rightarrow> mvcc_store" where
  "set_lifecycle_schedule_ms interval_ms s = s\<lparr>ms_lifecycle_schedule_ms := interval_ms\<rparr>"

record lifecycle_debt_key =
  ld_logical_key :: string
  ld_retained_versions :: nat
  ld_prune_debt :: nat

definition top_lifecycle_debt_keys :: "nat \<Rightarrow> mvcc_store \<Rightarrow> lifecycle_debt_key list" where
  "top_lifecycle_debt_keys limit s =
     (if limit = 0 then []
      else let candidate_floor = (case oldest_active_reader s of
                   Some r \<Rightarrow> r | None \<Rightarrow> ms_current_version s);
               keys = List.map_filter (\<lambda>(k, st).
                   if prune_debt st candidate_floor = 0 then None
                   else Some \<lparr>ld_logical_key = k, ld_retained_versions = retained_versions st,
                              ld_prune_debt = prune_debt st candidate_floor\<rparr>) (ms_values s)
           in take limit (sort_key (\<lambda>d. (- int (ld_prune_debt d), ld_logical_key d)) keys))"

definition mvcc_head_of :: "mvcc_store \<Rightarrow> mvcc_head" where
  "mvcc_head_of s = \<lparr>mh_floor = ms_floor s, mh_head = ms_current_version s\<rparr>"

definition retained_version_count :: "mvcc_store \<Rightarrow> nat" where
  "retained_version_count s = sum_list (map (\<lambda>(_, st). retained_versions st) (ms_values s))"

definition compute_prune_debt :: "mvcc_store \<Rightarrow> nat \<Rightarrow> nat" where
  "compute_prune_debt s candidate_floor = sum_list (map (\<lambda>(_, st). prune_debt st candidate_floor) (ms_values s))"

record operational_status =
  os_enabled :: bool
  os_paused :: bool
  os_schedule_interval_ms :: nat
  os_floor :: nat
  os_head :: nat
  os_oldest_active_reader :: "nat option"
  os_active_reader_count :: nat

record lifecycle_status = operational_status +
  lst_retained_versions :: nat
  lst_prune_debt :: nat
  lst_suggested_prune_floor :: nat

definition operational_status_of :: "mvcc_store \<Rightarrow> operational_status" where
  "operational_status_of s =
     \<lparr>os_enabled = True, os_paused = (ms_lifecycle_paused s \<noteq> 0),
      os_schedule_interval_ms = ms_lifecycle_schedule_ms s,
      os_floor = mh_floor (mvcc_head_of s), os_head = mh_head (mvcc_head_of s),
      os_oldest_active_reader = oldest_active_reader s,
      os_active_reader_count = active_reader_count s\<rparr>"

definition lifecycle_status_of :: "mvcc_store \<Rightarrow> lifecycle_status" where
  "lifecycle_status_of s =
     (let head = mvcc_head_of s;
          suggested = (case oldest_active_reader s of Some r \<Rightarrow> r | None \<Rightarrow> mh_head head)
      in \<lparr>os_enabled = True, os_paused = (ms_lifecycle_paused s \<noteq> 0),
          os_schedule_interval_ms = ms_lifecycle_schedule_ms s,
          os_floor = mh_floor head, os_head = mh_head head,
          os_oldest_active_reader = oldest_active_reader s,
          os_active_reader_count = active_reader_count s,
          lst_retained_versions = retained_version_count s,
          lst_prune_debt = compute_prune_debt s suggested,
          lst_suggested_prune_floor = suggested\<rparr>)"

definition reset_for_rebuild :: "mvcc_store \<Rightarrow> mvcc_store" where
  "reset_for_rebuild s = s\<lparr>ms_current_version := 0, ms_floor := 0, ms_values := [],
     ms_current_node_labels := [], ms_node_label_history := [], ms_current_edge_types := [],
     ms_edge_type_history := [], ms_active_readers := []\<rparr>"

subsection \<open>The fixed-width head encoding\<close>

fun be_bytes :: "nat \<Rightarrow> nat \<Rightarrow> bytes" where
  "be_bytes 0 x = []"
| "be_bytes (Suc n) x = word_of_nat (x div 256 ^ n) # be_bytes n (x mod 256 ^ n)"

definition from_be_bytes :: "bytes \<Rightarrow> nat" where
  "from_be_bytes bs = foldl (\<lambda>acc b. acc * 256 + unat b) 0 bs"

definition encode_head :: "mvcc_head \<Rightarrow> bytes" where
  "encode_head h = be_bytes 8 (mh_floor h) @ be_bytes 8 (mh_head h)"

definition decode_head :: "bytes \<Rightarrow> storage_error + mvcc_head" where
  "decode_head raw =
     (if length raw < 8 then Inl (MvccHeadTruncated (length raw))
      else if length raw < 16 then Inl (MvccHeadMissingFloor (length raw))
      else Inr \<lparr>mh_floor = from_be_bytes (take 8 raw), mh_head = from_be_bytes (take 8 (drop 8 raw))\<rparr>)"

subsection \<open>A pruned key keeps its head and a part of its history\<close>

definition shrinks :: "key_state \<Rightarrow> key_state \<Rightarrow> bool" where
  "shrinks st st' \<longleftrightarrow> ks_wf st' \<and> head_version st' = head_version st \<and> live_raw st' = live_raw st \<and>
     set (ks_history st') \<subseteq> set (ks_history st)"

lemma live_raw_set_floor [simp]: "live_raw (set_floor f st) = live_raw st"
  by (cases "ks_head st") (simp_all add: live_raw_def)

lemma shrinks_refl: "ks_wf st \<Longrightarrow> shrinks st st"
  by (simp add: shrinks_def)

lemma shrinks_prune_to_floor: "ks_wf st \<Longrightarrow> shrinks st (fst (prune_to_floor req st))"
proof (cases "compute_floor_for_request st req")
  case None
  then show "ks_wf st \<Longrightarrow> ?thesis" by (simp add: prune_to_floor_def shrinks_def)
next
  case (Some f)
  assume wf: "ks_wf st"
  have "live_raw (fst (prune_to_floor req st)) = live_raw st"
    by (simp add: prune_to_floor_eq [OF Some]) (simp add: live_raw_def)
  then show ?thesis
    using wf by (simp add: shrinks_def ks_wf_prune_to_floor prune_to_floor_history [OF wf Some])
qed

lemma shrinks_prune_to_max: "ks_wf st \<Longrightarrow> shrinks st (fst (prune_to_max_versions m r st))"
proof (cases "ks_head st")
  case None
  then show "ks_wf st \<Longrightarrow> ?thesis" by (simp add: prune_to_max_versions_def shrinks_def)
next
  case (Some head)
  assume wf: "ks_wf st"
  have "live_raw (fst (prune_to_max_versions m r st)) = live_raw st"
    by (simp add: prune_to_max_eq [OF Some] Let_def) (simp add: live_raw_def)
  then show ?thesis
    using wf by (simp add: shrinks_def ks_wf_prune_to_max prune_to_max_history [OF Some])
qed

text \<open>Applying such a step to every key keeps the version invariant and shrinks both kinds.\<close>

lemma versions_ok_map:
  assumes "versions_ok s" "\<And>k st. ks_wf st \<Longrightarrow> shrinks st (f k st)"
    "ms_values s' = bt_map_values f (ms_values s)" "ms_current_version s' = ms_current_version s"
  shows "versions_ok s'"
  using assms by (auto simp: versions_ok_def bt_wf_map_values shrinks_def)

lemma rel_map_values:
  assumes "versions_ok s" "\<And>k st. ks_wf st \<Longrightarrow> shrinks st (f k st)"
  shows "rel_option (\<lambda>st st'. live_raw st' = live_raw st \<and> set (ks_history st') \<subseteq> set (ks_history st))
    (bt_get (ms_values s) k) (bt_get (bt_map_values f (ms_values s)) k)"
proof (cases "bt_get (ms_values s) k")
  case (Some st)
  with assms have "shrinks st (f k st)" by (auto simp: versions_ok_def)
  with Some show ?thesis by (simp add: shrinks_def)
qed simp

lemma mvcc_ok_map:
  assumes ok: "mvcc_ok c s" and f: "\<And>k st. ks_wf st \<Longrightarrow> shrinks st (f k st)"
    and s': "ms_values s' = bt_map_values f (ms_values s)" "ms_current_version s' = ms_current_version s"
      "ms_current_node_labels s' = ms_current_node_labels s" "ms_current_edge_types s' = ms_current_edge_types s"
      "idx_wf (ms_node_label_history s')" "idx_wf (ms_edge_type_history s')"
    and nodes: "\<And>i st v raw n l. bt_get (ms_values s') (node_logical_key i) = Some st \<Longrightarrow>
        (v, Some raw) \<in> set (ks_history st) \<Longrightarrow> dec_node c raw = Inr n \<Longrightarrow> l \<in> set (nr_labels n) \<Longrightarrow>
        idx_has (ms_node_label_history s) l i \<Longrightarrow> idx_has (ms_node_label_history s') l i"
    and edges: "\<And>i st v raw e l. bt_get (ms_values s') (edge_logical_key i) = Some st \<Longrightarrow>
        (v, Some raw) \<in> set (ks_history st) \<Longrightarrow> dec_edge c raw = Inr e \<Longrightarrow> l \<in> set (edge_tags e) \<Longrightarrow>
        idx_has (ms_edge_type_history s) l i \<Longrightarrow> idx_has (ms_edge_type_history s') l i"
  shows "mvcc_ok c s'"
proof -
  have inv: "kind_inv node_logical_key (dec_node c) nr_id nr_labels
       (ms_values s) (ms_current_node_labels s) (ms_node_label_history s)"
    "kind_inv edge_logical_key (dec_edge c) er_id edge_tags
       (ms_values s) (ms_current_edge_types s) (ms_edge_type_history s)"
    using ok by (simp_all add: mvcc_ok_def)
  note v = mvcc_ok_versions [OF ok]
  have rel: "rel_option (\<lambda>st st'. live_raw st' = live_raw st \<and> set (ks_history st') \<subseteq> set (ks_history st))
    (bt_get (ms_values s) k) (bt_get (ms_values s') k)" for k
    unfolding s'(1) using rel_map_values [OF v f] .
  have "kind_inv node_logical_key (dec_node c) nr_id nr_labels
       (ms_values s') (ms_current_node_labels s) (ms_node_label_history s')"
    by (rule node_kind.kind_shrink [OF inv(1) rel s'(5) nodes])
  moreover have "kind_inv edge_logical_key (dec_edge c) er_id edge_tags
       (ms_values s') (ms_current_edge_types s) (ms_edge_type_history s')"
    by (rule edge_kind.kind_shrink [OF inv(2) rel s'(6) edges])
  ultimately show ?thesis
    using versions_ok_map [OF v f s'(1,2)] by (simp add: mvcc_ok_def s'(3,4))
qed

text \<open>Compaction keeps every history entry a retained version needs.\<close>

lemma retained_node_labels_complete:
  assumes "ks_wf st" "(v, Some raw) \<in> set (ks_history st)" "dec_node c raw = Inr n" "l \<in> set (nr_labels n)"
  shows "\<exists>ls. retained_node_labels c st = Some ls \<and> l \<in> set ls"
proof (cases "ks_head st")
  case None
  with assms(1,2) show ?thesis by (simp add: ks_history_def ks_wf_def)
next
  case (Some head)
  consider "(v, Some raw) \<in> set (ks_archived st)" | "lsh_current head = Some raw"
    using assms(2) Some by (auto simp: ks_history_def)
  then show ?thesis
  proof cases
    case 1
    with Some assms(3,4) show ?thesis by (force simp: retained_node_labels_def Let_def)
  next
    case 2
    moreover have "\<not> lsh_tombstoned head" using assms(1) Some 2 by (simp add: ks_wf_def)
    ultimately show ?thesis using Some assms(3,4) by (simp add: retained_node_labels_def Let_def)
  qed
qed

lemma retained_edge_types_complete:
  assumes "ks_wf st" "(v, Some raw) \<in> set (ks_history st)" "dec_edge c raw = Inr e"
  shows "\<exists>ls. retained_edge_types c st = Some ls \<and> er_edge_type e \<in> set ls"
proof (cases "ks_head st")
  case None
  with assms(1,2) show ?thesis by (simp add: ks_history_def ks_wf_def)
next
  case (Some head)
  consider "(v, Some raw) \<in> set (ks_archived st)" | "lsh_current head = Some raw"
    using assms(2) Some by (auto simp: ks_history_def)
  then show ?thesis
  proof cases
    case 1
    with Some assms(3) show ?thesis by (force simp: retained_edge_types_def Let_def)
  next
    case 2
    moreover have "\<not> lsh_tombstoned head" using assms(1) Some 2 by (simp add: ks_wf_def)
    ultimately show ?thesis using Some assms(3) by (simp add: retained_edge_types_def Let_def)
  qed
qed

lemma fold_retain:
  assumes "idx_wf ix"
  shows "idx_wf (fold (\<lambda>i. idx_retain i (g i)) ids ix) \<and>
    (idx_has (fold (\<lambda>i. idx_retain i (g i)) ids ix) t j \<longleftrightarrow>
       idx_has ix t j \<and> (j \<in> set ids \<longrightarrow> t \<in> set (g j)))"
  using assms
proof (induction ids arbitrary: ix)
  case (Cons i ids)
  then show ?case using Cons.IH [OF idx_wf_retain [OF Cons.prems, of i "g i"]] by auto
qed simp

lemma compact_frame [simp]:
  "ms_values (compact_history_candidates c ns es s) = ms_values s"
  "ms_current_version (compact_history_candidates c ns es s) = ms_current_version s"
  "ms_current_node_labels (compact_history_candidates c ns es s) = ms_current_node_labels s"
  "ms_current_edge_types (compact_history_candidates c ns es s) = ms_current_edge_types s"
  "ms_active_readers (compact_history_candidates c ns es s) = ms_active_readers s"
  "ms_floor (compact_history_candidates c ns es s) = ms_floor s"
  by (simp_all add: compact_history_candidates_def Let_def)

lemma compact_history_ok:
  assumes "versions_ok s" "idx_wf (ms_node_label_history s)" "idx_wf (ms_edge_type_history s)"
    and s'_def: "s' = compact_history_candidates c ns es s"
  shows "idx_wf (ms_node_label_history s')" "idx_wf (ms_edge_type_history s')"
    and "bt_get (ms_values s) (node_logical_key i) = Some st \<Longrightarrow> (v, Some raw) \<in> set (ks_history st) \<Longrightarrow>
      dec_node c raw = Inr n \<Longrightarrow> l \<in> set (nr_labels n) \<Longrightarrow> idx_has (ms_node_label_history s) l i \<Longrightarrow>
      idx_has (ms_node_label_history s') l i"
    and "bt_get (ms_values s) (edge_logical_key i) = Some st \<Longrightarrow> (v, Some raw) \<in> set (ks_history st) \<Longrightarrow>
      dec_edge c raw = Inr e \<Longrightarrow> l \<in> set (edge_tags e) \<Longrightarrow> idx_has (ms_edge_type_history s) l i \<Longrightarrow>
      idx_has (ms_edge_type_history s') l i"
proof -
  let ?gn = "\<lambda>i. unwrap_list (Option.bind (bt_get (ms_values s) (node_logical_key i)) (retained_node_labels c))"
  let ?ge = "\<lambda>i. unwrap_list (Option.bind (bt_get (ms_values s) (edge_logical_key i)) (retained_edge_types c))"
  have s': "ms_node_label_history s' = fold (\<lambda>i. idx_retain i (?gn i)) ns (ms_node_label_history s)"
    "ms_edge_type_history s' = fold (\<lambda>i. idx_retain i (?ge i)) es (ms_edge_type_history s)"
    by (simp_all add: s'_def compact_history_candidates_def Let_def prune_node_history_candidates_def [abs_def]
        prune_edge_history_candidates_def [abs_def])
  show "idx_wf (ms_node_label_history s')" "idx_wf (ms_edge_type_history s')"
    by (simp_all add: s' fold_retain [OF assms(2), THEN conjunct1] fold_retain [OF assms(3), THEN conjunct1])
  have wf: "ks_wf st" if "bt_get (ms_values s) k = Some st" for k st
    using assms(1) that by (auto simp: versions_ok_def)
  show "idx_has (ms_node_label_history s') l i"
    if "bt_get (ms_values s) (node_logical_key i) = Some st" "(v, Some raw) \<in> set (ks_history st)"
      "dec_node c raw = Inr n" "l \<in> set (nr_labels n)" "idx_has (ms_node_label_history s) l i"
  proof -
    have "l \<in> set (?gn i)"
      using retained_node_labels_complete [OF wf [OF that(1)] that(2,3,4)] that(1)
      by (auto simp: unwrap_list_def)
    with that(5) show ?thesis by (simp add: s' fold_retain [OF assms(2), THEN conjunct2])
  qed
  show "idx_has (ms_edge_type_history s') l i"
    if "bt_get (ms_values s) (edge_logical_key i) = Some st" "(v, Some raw) \<in> set (ks_history st)"
      "dec_edge c raw = Inr e" "l \<in> set (edge_tags e)" "idx_has (ms_edge_type_history s) l i"
  proof -
    have "l \<in> set (?ge i)"
      using retained_edge_types_complete [OF wf [OF that(1)] that(2,3)] that(1,4)
      by (auto simp: unwrap_list_def)
    with that(5) show ?thesis by (simp add: s' fold_retain [OF assms(3), THEN conjunct2])
  qed
qed

text \<open>Mapping a shrinking step over the keys and compacting any ids keeps the whole invariant.\<close>

lemma mvcc_ok_prune_compact:
  assumes ok: "mvcc_ok c s" and f: "\<And>k st. ks_wf st \<Longrightarrow> shrinks st (f k st)"
  shows "mvcc_ok c (compact_history_candidates c ns es
    (s\<lparr>ms_values := bt_map_values f (ms_values s), ms_floor := fl\<rparr>))"
proof -
  let ?s = "s\<lparr>ms_values := bt_map_values f (ms_values s), ms_floor := fl\<rparr>"
  have v: "versions_ok ?s"
    using mvcc_ok_versions [OF ok] f by (rule versions_ok_map) simp_all
  have w: "idx_wf (ms_node_label_history ?s)" "idx_wf (ms_edge_type_history ?s)"
    using idx_wf_mvcc [OF ok] by simp_all
  note h = compact_history_ok [OF v w refl, where c = c and ns = ns and es = es]
  show ?thesis
    by (rule mvcc_ok_map [OF ok f]) (use h in \<open>simp_all\<close>)
qed

lemma mvcc_ok_prune_plain:
  assumes ok: "mvcc_ok c s" and f: "\<And>k st. ks_wf st \<Longrightarrow> shrinks st (f k st)"
  shows "mvcc_ok c (s\<lparr>ms_floor := fl, ms_values := bt_map_values f (ms_values s)\<rparr>)"
  by (rule mvcc_ok_map [OF ok f]) (use idx_wf_mvcc [OF ok] in \<open>simp_all\<close>)

subsection \<open>What each operation does\<close>

lemma values_of_pruned:
  "map (\<lambda>(k, st, _). (k, st)) (bt_map_values g m) = bt_map_values (\<lambda>k st. fst (g k st)) m"
  by (simp add: bt_map_values_def case_prod_beta comp_def)

lemma prune_mvcc_versions_shape:
  "\<exists>ns es fl. fst (prune_mvcc_versions c m s) = compact_history_candidates c ns es
     (s\<lparr>ms_values := bt_map_values (\<lambda>_ st. fst (prune_to_max_versions (max_versions_of m) (oldest_active_reader s) st))
          (ms_values s), ms_floor := fl\<rparr>)"
  unfolding prune_mvcc_versions_def Let_def fst_conv prune_each_def values_of_pruned by blast

lemma prune_in_namespace_shape:
  "\<exists>ns es fl. fst (prune_mvcc_versions_in_namespace c p m s) = compact_history_candidates c ns es
     (s\<lparr>ms_values := bt_map_values (\<lambda>k st. fst (if key_in_prefix p k
            then prune_to_max_versions (max_versions_of m) (oldest_active_reader s) st else (st, 0)))
          (ms_values s), ms_floor := fl\<rparr>)"
proof -
  have same: "compact_history_candidates c ns es (s\<lparr>ms_values := v\<rparr>) =
      compact_history_candidates c ns es (s\<lparr>ms_values := v, ms_floor := ms_floor s\<rparr>)" for ns es v
    by simp
  show ?thesis
    unfolding prune_mvcc_versions_in_namespace_def Let_def fst_conv values_of_pruned
    by (intro exI) (rule same)
qed

text \<open>Count pruning in any of its forms is a shrinking step that the oldest reader does not notice.\<close>

lemma count_pruned_ok:
  assumes "mvcc_ok c s"
  shows "mvcc_ok c (fst (prune_mvcc_versions c m s))"
    and "mvcc_ok c (fst (prune_mvcc_versions_in_namespace c p m s))"
proof -
  obtain ns es fl where "fst (prune_mvcc_versions c m s) = compact_history_candidates c ns es
     (s\<lparr>ms_values := bt_map_values (\<lambda>_ st. fst (prune_to_max_versions (max_versions_of m) (oldest_active_reader s) st))
          (ms_values s), ms_floor := fl\<rparr>)"
    using prune_mvcc_versions_shape by blast
  then show "mvcc_ok c (fst (prune_mvcc_versions c m s))"
    using mvcc_ok_prune_compact [OF assms shrinks_prune_to_max] by simp
  obtain ns es fl where eq: "fst (prune_mvcc_versions_in_namespace c p m s) = compact_history_candidates c ns es
     (s\<lparr>ms_values := bt_map_values (\<lambda>k st. fst (if key_in_prefix p k
            then prune_to_max_versions (max_versions_of m) (oldest_active_reader s) st else (st, 0)))
          (ms_values s), ms_floor := fl\<rparr>)"
    using prune_in_namespace_shape by blast
  have "shrinks st (fst (if key_in_prefix p k
      then prune_to_max_versions (max_versions_of m) (oldest_active_reader s) st else (st, 0)))"
    if "ks_wf st" for k st
    using that by (simp add: shrinks_refl shrinks_prune_to_max)
  then show "mvcc_ok c (fst (prune_mvcc_versions_in_namespace c p m s))"
    unfolding eq by (rule mvcc_ok_prune_compact [OF assms])
qed

lemma read_key_map_values:
  assumes "versions_ok s" "ms_values s' = bt_map_values f (ms_values s)"
    "\<And>k st. ks_wf st \<Longrightarrow> read_at (f k st) ts = read_at st ts"
  shows "read_key s' ts k = read_key s ts k"
  using assms by (auto simp: read_key_def versions_ok_def split: option.split)

lemma pruned_values:
  "ms_values (fst (prune_mvcc_versions c m s)) = bt_map_values
     (\<lambda>_ st. fst (prune_to_max_versions (max_versions_of m) (oldest_active_reader s) st)) (ms_values s)"
  "ms_values (fst (prune_mvcc_versions_in_namespace c p m s)) = bt_map_values
     (\<lambda>k st. fst (if key_in_prefix p k
        then prune_to_max_versions (max_versions_of m) (oldest_active_reader s) st else (st, 0))) (ms_values s)"
  using prune_mvcc_versions_shape [of c m s] prune_in_namespace_shape [of c p m s] by auto

lemma count_pruned_reads:
  assumes "versions_ok s" "oldest_active_reader s = Some ts"
  shows "read_key (fst (prune_mvcc_versions c m s)) ts k = read_key s ts k"
    and "read_key (fst (prune_mvcc_versions_in_namespace c p m s)) ts k = read_key s ts k"
  by (rule read_key_map_values [OF assms(1) pruned_values(1)] read_key_map_values [OF assms(1) pruned_values(2)];
      simp add: assms(2) prune_to_max_reads_oldest)+

lemma count_pruned_frame:
  "ms_current_version (fst (prune_mvcc_versions c m s)) = ms_current_version s"
  "ms_active_readers (fst (prune_mvcc_versions c m s)) = ms_active_readers s"
  "ms_current_version (fst (prune_mvcc_versions_in_namespace c p m s)) = ms_current_version s"
  "ms_active_readers (fst (prune_mvcc_versions_in_namespace c p m s)) = ms_active_readers s"
  by (simp_all add: prune_mvcc_versions_def prune_mvcc_versions_in_namespace_def Let_def)

text \<open>The graph at the current version never changes by pruning: every head stays.\<close>

lemma count_pruned_current:
  assumes "mvcc_ok c s"
  shows "read_key (fst (prune_mvcc_versions c m s)) (ms_current_version s) k = read_key s (ms_current_version s) k"
proof -
  let ?f = "\<lambda>_::string. \<lambda>st. fst (prune_to_max_versions (max_versions_of m) (oldest_active_reader s) st)"
  note v = mvcc_ok_versions [OF assms]
  note vs = pruned_values(1) [of c m s]
  have "live_raw (key_or_default (bt_map_values ?f (ms_values s)) k) = live_raw (key_or_default (ms_values s) k)"
  proof (cases "bt_get (ms_values s) k")
    case (Some st)
    with v have "shrinks st (?f k st)" by (auto simp: versions_ok_def shrinks_prune_to_max)
    with Some show ?thesis by (simp add: key_or_default_def shrinks_def)
  qed (simp add: key_or_default_def)
  then show ?thesis
    using read_key_current [OF v, of k]
      read_key_current [OF mvcc_ok_versions [OF count_pruned_ok(1) [OF assms]], of m k]
    by (simp add: vs count_pruned_frame)
qed

lemma prune_to_max_count:
  "snd (prune_to_max_versions m r st) + retained_versions (fst (prune_to_max_versions m r st)) = retained_versions st"
proof (cases "ks_head st")
  case None
  then show ?thesis by (simp add: prune_to_max_versions_def)
next
  case (Some head)
  then show ?thesis
    using sum_list_map_filter_eq [of "\<lambda>e. fst e \<in> keep_versions m r head st" "ks_archived st"]
    by (simp add: prune_to_max_eq [OF Some] Let_def retained_versions_def)
qed

lemma sum_list_map_eq2:
  "(\<And>x. x \<in> set xs \<Longrightarrow> f x + g x = (h x :: nat)) \<Longrightarrow>
     sum_list (map f xs) + sum_list (map g xs) = sum_list (map h xs)"
  by (induction xs) fastforce+

lemma prune_mvcc_versions_count:
  "snd (prune_mvcc_versions c m s) + retained_version_count (fst (prune_mvcc_versions c m s)) = retained_version_count s"
proof -
  let ?p = "\<lambda>st. prune_to_max_versions (max_versions_of m) (oldest_active_reader s) st"
  have "retained_version_count (fst (prune_mvcc_versions c m s)) =
      sum_list (map (\<lambda>(_, st). retained_versions (fst (?p st))) (ms_values s))"
    by (simp add: retained_version_count_def pruned_values bt_map_values_def split_def comp_def)
  moreover have "snd (prune_mvcc_versions c m s) = sum_list (map (\<lambda>(_, st). snd (?p st)) (ms_values s))"
    by (simp add: prune_mvcc_versions_def Let_def prune_each_def bt_map_values_def split_def comp_def)
  ultimately show ?thesis
    unfolding retained_version_count_def
    by (simp add: sum_list_map_eq2 prune_to_max_count split_def)
qed

lemma prune_older_ok:
  "mvcc_ok c s \<Longrightarrow> mvcc_ok c (prune_versions_older_than v s)"
  unfolding prune_versions_older_than_def Let_def
  by (rule mvcc_ok_prune_plain) (simp_all add: shrinks_prune_to_floor)

lemma trigger_prune_with_reader:
  assumes "oldest_active_reader s = Some r"
  shows "\<exists>fl. fst (trigger_prune_now c n s) = s\<lparr>ms_floor := fl\<rparr>"
proof -
  have same: "s = s\<lparr>ms_floor := ms_floor s\<rparr>" by simp
  show ?thesis
    unfolding trigger_prune_now_def assms option.case Let_def fst_conv
    by (split option.split) (use same in blast)
qed

lemma mvcc_ok_floor [simp]: "mvcc_ok c (s\<lparr>ms_floor := fl\<rparr>) = mvcc_ok c s"
  by (simp add: mvcc_ok_def versions_ok_def)

lemma trigger_prune_ok:
  assumes "mvcc_ok c s" shows "mvcc_ok c (fst (trigger_prune_now c n s))"
proof (cases "oldest_active_reader s")
  case None
  then show ?thesis using assms by (simp add: trigger_prune_now_def count_pruned_ok)
next
  case (Some r)
  with assms trigger_prune_with_reader [OF Some, of c n] show ?thesis by auto
qed

subsection \<open>The store as a state machine\<close>

datatype 'j mvcc_op =
    MCommitBatch "(string \<times> bytes option) list"
  | MPutNode "'j node_record"
  | MDeleteNode string
  | MPutEdge "'j edge_record"
  | MDeleteEdge string
  | MBeginReader
  | MDropReader mvcc_snapshot
  | MTriggerPrune nat
  | MPruneMax "nat option"
  | MPruneInNamespace string "nat option"
  | MPruneOlder nat
  | MPause
  | MResume
  | MSetSchedule nat

primrec mvcc_exec :: "'j codec \<Rightarrow> 'j mvcc_op \<Rightarrow> mvcc_store \<Rightarrow> mvcc_store" where
  "mvcc_exec c (MCommitBatch ws) s = fst (commit_batch ws s)"
| "mvcc_exec c (MPutNode n) s = fst (put_node_record c n s)"
| "mvcc_exec c (MDeleteNode i) s = fst (delete_node_record c i s)"
| "mvcc_exec c (MPutEdge e) s = fst (put_edge_record c e s)"
| "mvcc_exec c (MDeleteEdge i) s = fst (delete_edge_record c i s)"
| "mvcc_exec c MBeginReader s = fst (begin_registered_snapshot s)"
| "mvcc_exec c (MDropReader snap) s = drop_lease snap s"
| "mvcc_exec c (MTriggerPrune n) s = fst (trigger_prune_now c n s)"
| "mvcc_exec c (MPruneMax m) s = fst (prune_mvcc_versions c m s)"
| "mvcc_exec c (MPruneInNamespace p m) s = fst (prune_mvcc_versions_in_namespace c p m s)"
| "mvcc_exec c (MPruneOlder v) s = prune_versions_older_than v s"
| "mvcc_exec c MPause s = pause_lifecycle s"
| "mvcc_exec c MResume s = resume_lifecycle s"
| "mvcc_exec c (MSetSchedule n) s = set_lifecycle_schedule_ms n s"

text \<open>
  A step needs a free version, and a raw batch must stay out of the key space of the records, which
  \<open>commit_batch\<close> itself does not check.
\<close>

definition op_allowed :: "mvcc_store \<Rightarrow> 'j mvcc_op \<Rightarrow> bool" where
  "op_allowed s op \<longleftrightarrow> ms_current_version s < u64_max \<and>
     (case op of MCommitBatch ws \<Rightarrow>
        list_all (\<lambda>(k, _). \<not> starts_with k ''node:'' \<and> \<not> starts_with k ''edge:'') ws | _ \<Rightarrow> True)"

inductive mvcc_step :: "'j codec \<Rightarrow> mvcc_store \<Rightarrow> mvcc_store \<Rightarrow> bool" for c where
  mvcc_step: "codec_ok c \<Longrightarrow> op_allowed s op \<Longrightarrow> mvcc_step c s (mvcc_exec c op s)"

inductive_cases mvcc_stepE: "mvcc_step c s s'"

lemma raw_key_other:
  assumes "\<not> starts_with k ''node:''" "\<not> starts_with k ''edge:''"
  shows "k \<noteq> node_logical_key i" "k \<noteq> edge_logical_key i"
  using assms by (auto simp: starts_with_def strip_prefix_opt_Some node_logical_key_def edge_logical_key_def)

lemma mvcc_ok_commit_batch_at:
  assumes "mvcc_ok c s" "\<forall>k. key_head_at_most s k v" "v \<le> ms_current_version s"
    "list_all (\<lambda>(k, _). \<not> starts_with k ''node:'' \<and> \<not> starts_with k ''edge:'') ws"
  shows "mvcc_ok c (commit_batch_at ws v s)"
  using assms
proof (induction ws arbitrary: s)
  case Nil
  then show ?case by (simp add: commit_batch_at_def)
next
  case (Cons w ws)
  obtain k x where w: "w = (k, x)" by (cases w)
  let ?s = "append_at k v x s"
  have other: "k \<noteq> node_logical_key i" "k \<noteq> edge_logical_key i" for i
    using Cons.prems(4) raw_key_other [of k] by (auto simp: w)
  have inv: "kind_inv node_logical_key (dec_node c) nr_id nr_labels
       (ms_values s) (ms_current_node_labels s) (ms_node_label_history s)"
    "kind_inv edge_logical_key (dec_edge c) er_id edge_tags
       (ms_values s) (ms_current_edge_types s) (ms_edge_type_history s)"
    using Cons.prems(1) by (simp_all add: mvcc_ok_def)
  have "mvcc_ok c ?s"
    using node_kind.kind_other [OF inv(1) other(1)] edge_kind.kind_other [OF inv(2) other(2)]
      versions_ok_append_at [OF mvcc_ok_versions [OF Cons.prems(1)], of k v x] Cons.prems(2,3)
    by (simp add: mvcc_ok_def)
  then have "mvcc_ok c (commit_batch_at ws v ?s)"
    using Cons.prems by (intro Cons.IH) simp_all
  then show ?case by (simp add: commit_batch_at_def w)
qed

lemma put_failed:
  assumes "ms_current_version s < u64_max"
  shows "enc_node c n = Inl e \<Longrightarrow> fst (put_node_record c n s) = s\<lparr>ms_current_version := Suc (ms_current_version s)\<rparr>"
    and "enc_edge c d = Inl e \<Longrightarrow> fst (put_edge_record c d s) = s\<lparr>ms_current_version := Suc (ms_current_version s)\<rparr>"
  by (simp_all add: put_node_record_def put_edge_record_def fetch_version_simps [OF assms]
      put_node_record_at_def put_edge_record_at_def)

text \<open>
  Every allowed step keeps the invariant; a write, a reader's arrival or departure and the
  lifecycle switches leave every read at or below the current version alone.
\<close>

definition keeps_past :: "mvcc_store \<Rightarrow> mvcc_store \<Rightarrow> bool" where
  "keeps_past s s' \<longleftrightarrow> ms_current_version s \<le> ms_current_version s' \<and>
     (\<forall>ts\<le>ms_current_version s. \<forall>k. read_key s' ts k = read_key s ts k)"

lemma keeps_past_writes: "writes_key s s' k x \<Longrightarrow> keeps_past s s'"
  by (auto simp: writes_key_def keeps_past_def)

lemma keeps_past_same:
  "ms_values s' = ms_values s \<Longrightarrow> ms_current_version s' = ms_current_version s \<Longrightarrow> keeps_past s s'"
  using read_key_cong [of s' s] by (simp add: keeps_past_def)

lemma keeps_past_fetch: "keeps_past s (s\<lparr>ms_current_version := Suc (ms_current_version s)\<rparr>)"
  by (simp add: keeps_past_def)

fun is_prune :: "'j mvcc_op \<Rightarrow> bool" where
  "is_prune (MTriggerPrune _) = True"
| "is_prune (MPruneMax _) = True"
| "is_prune (MPruneInNamespace _ _) = True"
| "is_prune (MPruneOlder _) = True"
| "is_prune _ = False"

lemma mvcc_exec_write:
  assumes ok: "mvcc_ok c s" "codec_ok c" and allowed: "op_allowed s op" and np: "\<not> is_prune op"
  shows "mvcc_ok c (mvcc_exec c op s) \<and> keeps_past s (mvcc_exec c op s)"
proof -
  have cv: "ms_current_version s < u64_max" using allowed by (simp add: op_allowed_def)
  note f = fetched_ok(1) [OF ok(1)] keeps_past_fetch [of s]
  show ?thesis
  proof (cases op)
    case (MCommitBatch ws)
    let ?s = "s\<lparr>ms_current_version := Suc (ms_current_version s)\<rparr>"
    have "\<forall>k. key_head_at_most ?s k (Suc (ms_current_version s))" using fetched_ok(2) [OF ok(1)] by blast
    then show ?thesis
      using MCommitBatch allowed mvcc_ok_commit_batch_at [OF f(1)]
        commit_batch_at_ok [OF mvcc_ok_versions [OF f(1)], of "Suc (ms_current_version s)" ws]
      by (simp add: commit_batch_def fetch_version_simps [OF cv] op_allowed_def keeps_past_def)
  next
    case (MPutNode n)
    then show ?thesis
      using put_failed(1) [OF cv, of c n] put_node_record_ok [OF ok cv, of n] f keeps_past_writes
      by (cases "enc_node c n") fastforce+
  next
    case (MDeleteNode i)
    then show ?thesis using delete_node_record_ok [OF ok cv, of i] keeps_past_writes by fastforce
  next
    case (MPutEdge e)
    then show ?thesis
      using put_failed(2) [OF cv, of c e] put_edge_record_ok [OF ok cv, of e] f keeps_past_writes
      by (cases "enc_edge c e") fastforce+
  next
    case (MDeleteEdge i)
    then show ?thesis using delete_edge_record_ok [OF ok cv, of i] keeps_past_writes by fastforce
  next
    case MBeginReader
    then show ?thesis using ok(1)
      by (simp add: begin_registered_snapshot_def Let_def keeps_past_same mvcc_ok_def versions_ok_def)
  next
    case (MDropReader snap)
    then show ?thesis using ok(1)
      by (simp add: drop_lease_def Let_def keeps_past_same mvcc_ok_def versions_ok_def split: option.split)
  next
    case MPause
    then show ?thesis using ok(1)
      by (simp add: pause_lifecycle_def keeps_past_same mvcc_ok_def versions_ok_def)
  next
    case MResume
    then show ?thesis using ok(1)
      by (simp add: resume_lifecycle_def keeps_past_same mvcc_ok_def versions_ok_def)
  next
    case (MSetSchedule n)
    then show ?thesis using ok(1)
      by (simp add: set_lifecycle_schedule_ms_def keeps_past_same mvcc_ok_def versions_ok_def)
  qed (use np in simp_all)
qed

lemma mvcc_exec_ok:
  assumes "mvcc_ok c s" "codec_ok c" "op_allowed s op"
  shows "mvcc_ok c (mvcc_exec c op s)"
  using mvcc_exec_write [OF assms] count_pruned_ok [OF assms(1)] prune_older_ok [OF assms(1)]
    trigger_prune_ok [OF assms(1)]
  by (cases "is_prune op"; cases op) simp_all

interpretation mvcc_machine: inductive_invariant "\<lambda>s. s = mvcc_default" "mvcc_step c" "mvcc_ok c" for c
  by unfold_locales (auto elim!: mvcc_stepE intro: mvcc_exec_ok)

text \<open>
  A run in which a reader stays registered at \<open>ts\<close>: explicit pruning by count happens only while it
  is the oldest reader, and explicit pruning by version does not happen.
\<close>

fun keeps_reader :: "nat \<Rightarrow> mvcc_store \<Rightarrow> 'j mvcc_op \<Rightarrow> bool" where
  "keeps_reader ts s (MPruneMax _) = (oldest_active_reader s = Some ts)"
| "keeps_reader ts s (MPruneInNamespace _ _) = (oldest_active_reader s = Some ts)"
| "keeps_reader ts s (MPruneOlder _) = False"
| "keeps_reader ts s _ = True"

inductive pinned_run :: "'j codec \<Rightarrow> nat \<Rightarrow> mvcc_store \<Rightarrow> mvcc_store \<Rightarrow> bool" for c ts s where
  pinned_refl: "pinned_run c ts s s"
| pinned_step: "pinned_run c ts s s' \<Longrightarrow> bt_get (ms_active_readers s') ts \<noteq> None \<Longrightarrow>
    op_allowed s' op \<Longrightarrow> keeps_reader ts s' op \<Longrightarrow> pinned_run c ts s (mvcc_exec c op s')"

lemma registered_oldest: "bt_get (ms_active_readers s) ts \<noteq> None \<Longrightarrow> \<exists>r. oldest_active_reader s = Some r"
  by (cases "ms_active_readers s") (simp_all add: oldest_active_reader_def bt_keys_def)

lemma prune_keeps_reader:
  assumes "versions_ok s" "bt_get (ms_active_readers s) ts \<noteq> None" "is_prune op" "keeps_reader ts s op"
  shows "ms_current_version (mvcc_exec c op s) = ms_current_version s \<and>
    (\<forall>k. read_key (mvcc_exec c op s) ts k = read_key s ts k)"
proof (cases op)
  case (MTriggerPrune n)
  obtain r where "oldest_active_reader s = Some r" using registered_oldest [OF assms(2)] by blast
  from trigger_prune_with_reader [OF this, of c n] MTriggerPrune show ?thesis
    by (auto simp: read_key_def)
next
  case (MPruneMax m)
  then have "oldest_active_reader s = Some ts" using assms(4) by simp
  with MPruneMax show ?thesis by (simp add: count_pruned_frame count_pruned_reads(1) [OF assms(1)])
next
  case (MPruneInNamespace p m)
  then have "oldest_active_reader s = Some ts" using assms(4) by simp
  with MPruneInNamespace show ?thesis by (simp add: count_pruned_frame count_pruned_reads(2) [OF assms(1)])
qed (use assms(3,4) in simp_all)

lemma pinned_run_keeps:
  assumes "codec_ok c" "mvcc_ok c s" "ts \<le> ms_current_version s" "pinned_run c ts s s'"
  shows "mvcc_ok c s' \<and> ts \<le> ms_current_version s' \<and> (\<forall>k. read_key s' ts k = read_key s ts k)"
  using assms(4)
proof (induction rule: pinned_run.induct)
  case pinned_refl
  then show ?case using assms by simp
next
  case (pinned_step s' op)
  then have IH: "mvcc_ok c s'" "ts \<le> ms_current_version s'" "\<forall>k. read_key s' ts k = read_key s ts k"
    by simp_all
  have ok: "mvcc_ok c (mvcc_exec c op s')"
    using mvcc_exec_ok [OF IH(1) assms(1) pinned_step.hyps(3)] .
  show ?case
  proof (cases "is_prune op")
    case True
    from prune_keeps_reader [OF mvcc_ok_versions [OF IH(1)] pinned_step.hyps(2) True pinned_step.hyps(4), of c]
    show ?thesis using ok IH by simp
  next
    case False
    from mvcc_exec_write [OF IH(1) assms(1) pinned_step.hyps(3) False]
    show ?thesis using IH by (auto simp: keeps_past_def)
  qed
qed

subsection \<open>The head encoding\<close>

lemma length_be_bytes [simp]: "length (be_bytes n x) = n"
  by (induction n arbitrary: x) auto

lemma foldl_be:
  "foldl (\<lambda>acc b. acc * 256 + unat (b :: 8 word)) a bs =
     a * 256 ^ length bs + foldl (\<lambda>acc b. acc * 256 + unat b) 0 bs"
proof (induction bs arbitrary: a)
  case (Cons b bs)
  show ?case
    using Cons [of "a * 256 + unat b"] Cons [of "unat b"] by (simp add: algebra_simps)
qed simp

lemma from_be_bytes_Cons: "from_be_bytes (b # bs) = unat b * 256 ^ length bs + from_be_bytes bs"
  using foldl_be [of "unat b" bs] by (simp add: from_be_bytes_def)

lemma from_be_bytes_be_bytes: "x < 256 ^ n \<Longrightarrow> from_be_bytes (be_bytes n x) = x"
proof (induction n arbitrary: x)
  case (Suc n)
  have "x div 256 ^ n < 256"
    using Suc.prems by (simp add: less_mult_imp_div_less)
  then have "unat (word_of_nat (x div 256 ^ n) :: 8 word) = x div 256 ^ n"
    by (simp add: unat_of_nat)
  then show ?case
    using Suc.IH [of "x mod 256 ^ n"] by (simp add: from_be_bytes_Cons div_mult_mod_eq)
qed (simp add: from_be_bytes_def)

lemma decode_encode_head:
  assumes "mh_floor h < 2 ^ 64" "mh_head h < 2 ^ 64"
  shows "decode_head (encode_head h @ rest) = Inr h"
proof -
  have "mh_floor h < 256 ^ 8" "mh_head h < 256 ^ 8" using assms by simp_all
  then show ?thesis
    by (simp add: decode_head_def encode_head_def from_be_bytes_be_bytes)
qed

lemma graph_cong:
  assumes "\<And>k. read_key s' ts k = read_key s ts k"
  shows "node_at c s' ts = node_at c s ts" "edge_at c s' ts = edge_at c s ts"
  using assms by (simp_all add: node_at_def edge_at_def fun_eq_iff)

subsection \<open>Properties\<close>

text \<open>
  C6: Whatever the sequence of operations since the store was created, with raw batches kept out of
  the record key space and the counter below its maximum, the whole invariant holds: heads never
  exceed the counter, every retained value decodes, and the four indices are exact.
\<close>

theorem mvcc_reachable_ok:
  assumes "(mvcc_step c)\<^sup>*\<^sup>* mvcc_default s"
  shows "mvcc_ok c s"
  using assms by (rule mvcc_machine.inv_reachable [OF refl])

lemma sample_default_cv: "ms_current_version mvcc_default < u64_max"
  by (simp add: u64_max_def)

theorem mvcc_reachable_ok_witness:
  "mvcc_ok sample_codec (mvcc_exec sample_codec (MPruneMax None)
     (mvcc_exec sample_codec (MPutNode (sample_node ''a'' [''P''])) mvcc_default))"
proof (rule mvcc_reachable_ok)
  let ?s = "mvcc_exec sample_codec (MPutNode (sample_node ''a'' [''P''])) mvcc_default"
  obtain s' where s': "?s = s'" "writes_key mvcc_default s' (node_logical_key ''a'') (Some [1])"
    using put_node_record_ok [OF mvcc_ok_default codec_ok_sample sample_default_cv, of "sample_node ''a'' [''P'']" "[1]"]
    by auto
  have one: "mvcc_step sample_codec mvcc_default ?s"
    by (rule mvcc_step.intros [OF codec_ok_sample]) (simp add: op_allowed_def u64_max_def)
  have "ms_current_version ?s < u64_max"
    unfolding s'(1) using s'(2) by (simp add: writes_key_def u64_max_def)
  then have "mvcc_step sample_codec ?s (mvcc_exec sample_codec (MPruneMax None) ?s)"
    by (intro mvcc_step.intros [OF codec_ok_sample]) (simp add: op_allowed_def)
  with one show "(mvcc_step sample_codec)\<^sup>*\<^sup>* mvcc_default (mvcc_exec sample_codec (MPruneMax None) ?s)"
    by (rule converse_rtranclp_into_rtranclp [OF _ r_into_rtranclp])
qed

text \<open>
  C7: Snapshot stability of a registered reader: while it stays registered, no write, no arrival or
  departure of another reader, no \<open>trigger_prune_now\<close> (which removes nothing then) and no pruning by
  count run while it is the oldest reader changes the graph it reads. The two other prunings are left
  out, because they can change it: by count while an older reader is registered
  (\<open>prune_to_max_versions_stale_second_reader\<close>), and by version (\<open>prune_to_floor_loses_reader_version\<close>).
\<close>

theorem registered_reader_stable:
  assumes "codec_ok c" "mvcc_ok c s" "ts \<le> ms_current_version s" "pinned_run c ts s s'"
  shows "node_at c s' ts = node_at c s ts \<and> edge_at c s' ts = edge_at c s ts \<and>
    (\<forall>k. read_key s' ts k = read_key s ts k) \<and> mvcc_ok c s'"
proof -
  have keep: "read_key s' ts k = read_key s ts k" and "mvcc_ok c s'" for k
    using pinned_run_keeps [OF assms] by blast+
  with graph_cong [OF keep] show ?thesis by blast
qed

theorem registered_reader_stable_witness:
  "\<exists>s'. s' = mvcc_exec sample_codec (MTriggerPrune 0)
       (mvcc_exec sample_codec (MPutNode (sample_node ''a'' [''Q''])) (mvcc_exec sample_codec MBeginReader sample_store)) \<and>
     node_at sample_codec s' 2 ''a'' = Some (sample_node ''a'' [''P''])"
proof -
  let ?s0 = "mvcc_exec sample_codec MBeginReader sample_store"
  let ?s1 = "mvcc_exec sample_codec (MPutNode (sample_node ''a'' [''Q''])) ?s0"
  have c0: "ms_current_version ?s0 = 2" "bt_get (ms_active_readers ?s0) 2 \<noteq> None"
    by (simp_all add: begin_registered_snapshot_def begin_snapshot_def Let_def)
  have "op_allowed sample_store (MBeginReader :: unit mvcc_op)" by (simp add: op_allowed_def u64_max_def)
  from mvcc_exec_write [OF sample_store_ok(1) codec_ok_sample this]
  have ok0: "mvcc_ok sample_codec ?s0" and past: "read_key ?s0 2 k = read_key sample_store 2 k" for k
    by (simp_all add: keeps_past_def)
  have a0: "op_allowed ?s0 (MPutNode (sample_node ''a'' [''Q'']))" by (simp only: op_allowed_def c0) (simp add: u64_max_def)
  have "ms_current_version ?s0 < u64_max" unfolding c0 by (simp add: u64_max_def)
  from put_node_record_ok [OF ok0 codec_ok_sample this, of "sample_node ''a'' [''Q'']" "[2]"]
  have c1: "ms_current_version ?s1 = 3" "bt_get (ms_active_readers ?s1) 2 \<noteq> None"
    using c0 by (auto simp: writes_key_def)
  have a1: "op_allowed ?s1 (MTriggerPrune 0 :: unit mvcc_op)" by (simp only: op_allowed_def c1) (simp add: u64_max_def)
  have "pinned_run sample_codec 2 ?s0 (mvcc_exec sample_codec (MTriggerPrune 0) ?s1)"
    by (intro pinned_run.intros c0 c1 a0 a1) simp_all
  from registered_reader_stable [OF codec_ok_sample ok0 _ this] c0
  have "node_at sample_codec (mvcc_exec sample_codec (MTriggerPrune 0) ?s1) 2 = node_at sample_codec sample_store 2"
    by (simp only: graph_cong(1) [OF past])
  then show ?thesis by simp
qed

text \<open>
  Pruning by count keeps the invariant (so every later lookup is still exact, although history
  entries of pruned ids were dropped), reports exactly the number of versions it removed, and
  changes neither the current graph nor the graph of the oldest registered reader.
\<close>

theorem prune_mvcc_versions_safe:
  assumes "mvcc_ok c s"
  shows "mvcc_ok c (fst (prune_mvcc_versions c m s)) \<and>
    snd (prune_mvcc_versions c m s) + retained_version_count (fst (prune_mvcc_versions c m s)) = retained_version_count s \<and>
    node_at c (fst (prune_mvcc_versions c m s)) (ms_current_version s) = node_at c s (ms_current_version s) \<and>
    edge_at c (fst (prune_mvcc_versions c m s)) (ms_current_version s) = edge_at c s (ms_current_version s) \<and>
    (\<forall>ts. oldest_active_reader s = Some ts \<longrightarrow>
       node_at c (fst (prune_mvcc_versions c m s)) ts = node_at c s ts \<and>
       edge_at c (fst (prune_mvcc_versions c m s)) ts = edge_at c s ts)"
  by (simp add: count_pruned_ok(1) [OF assms] prune_mvcc_versions_count
      graph_cong [OF count_pruned_current [OF assms]]
      graph_cong [OF count_pruned_reads(1) [OF mvcc_ok_versions [OF assms]]])

theorem prune_mvcc_versions_safe_witness:
  "node_at sample_codec (fst (prune_mvcc_versions sample_codec None sample_store)) 2 ''b'' =
     Some (sample_node ''b'' [''P'', ''Q''])"
  using prune_mvcc_versions_safe [OF sample_store_ok(1), of None] by simp

text \<open>
  The persisted head decodes to the head that was encoded, whatever bytes follow, and every
  input shorter than sixteen bytes is rejected with the error that names its length.
\<close>

theorem head_roundtrip:
  "decode_head (encode_head \<lparr>mh_floor = unat (f :: 64 word), mh_head = unat (h :: 64 word)\<rparr> @ rest) =
     Inr \<lparr>mh_floor = unat f, mh_head = unat h\<rparr> \<and>
   decode_head (take n raw) =
     (if min n (length raw) < 8 then Inl (MvccHeadTruncated (min n (length raw)))
      else if min n (length raw) < 16 then Inl (MvccHeadMissingFloor (min n (length raw)))
      else decode_head raw)"
proof (intro conjI)
  have "unat f < 2 ^ 64" "unat h < 2 ^ 64"
    using unsigned_less [of f] unsigned_less [of h] by simp_all
  then show "decode_head (encode_head \<lparr>mh_floor = unat f, mh_head = unat h\<rparr> @ rest) =
     Inr \<lparr>mh_floor = unat f, mh_head = unat h\<rparr>"
    by (intro decode_encode_head) simp_all
  show "decode_head (take n raw) =
     (if min n (length raw) < 8 then Inl (MvccHeadTruncated (min n (length raw)))
      else if min n (length raw) < 16 then Inl (MvccHeadMissingFloor (min n (length raw)))
      else decode_head raw)"
    by (auto simp: decode_head_def min_def take_drop)
qed

end
