(* ===== verification/Mvcc_Batch.thy ===== *)
theory Mvcc_Batch
  imports Mvcc_Lifecycle
begin

text \<open>
  The two-phase record batch of the storage engine (\<open>staged_record_batch\<close>, \<open>publish_record_batch\<close>)
  and the persistence of the store (\<open>encoded_persisted_*\<close>, \<open>restore_persisted_entries\<close>). A batch is
  staged against private copies of the keys it touches and published with the counter written
  last; publishing is shown to be exactly the sequence of its mutations, all at one version.
\<close>

subsection \<open>Staging and publishing\<close>

datatype 'j record_mutation =
    PutNode "'j node_record"
  | PutFreshNode "'j node_record"
  | DeleteNode string
  | PutEdge "'j edge_record"
  | PutFreshEdge "'j edge_record"
  | DeleteEdge string

record persisted_head =
  ph_current_version :: nat
  ph_floor :: nat

record 'j staged_batch =
  sb_head :: persisted_head
  sb_states :: "(string, key_state) btree"
  sb_node_changes :: "('j node_record option \<times> 'j node_record option) list"
  sb_edge_changes :: "('j edge_record option \<times> 'j edge_record option) list"

type_synonym 'j staging =
  "(string, key_state) btree \<times> ('j node_record option \<times> 'j node_record option) list \<times>
   ('j edge_record option \<times> 'j edge_record option) list"

definition mutation_key :: "'j record_mutation \<Rightarrow> string" where
  "mutation_key m = (case m of
     PutNode node \<Rightarrow> node_logical_key (nr_id node) | PutFreshNode node \<Rightarrow> node_logical_key (nr_id node)
   | DeleteNode i \<Rightarrow> node_logical_key i
   | PutEdge edge \<Rightarrow> edge_logical_key (er_id edge) | PutFreshEdge edge \<Rightarrow> edge_logical_key (er_id edge)
   | DeleteEdge i \<Rightarrow> edge_logical_key i)"

definition is_fresh :: "'j record_mutation \<Rightarrow> bool" where
  "is_fresh m = (case m of PutFreshNode _ \<Rightarrow> True | PutFreshEdge _ \<Rightarrow> True | _ \<Rightarrow> False)"

text \<open>\<open>states.entry(key).or_insert_with(..)\<close>\<close>

definition staged_state :: "(string, key_state) btree \<Rightarrow> 'j record_mutation \<Rightarrow> (string, key_state) btree \<Rightarrow> key_state" where
  "staged_state values m states =
     (case bt_get states (mutation_key m) of
        Some st \<Rightarrow> st
      | None \<Rightarrow> if is_fresh m then ks_default else key_or_default values (mutation_key m))"

definition stage_put_node ::
    "'j codec \<Rightarrow> nat \<Rightarrow> string \<Rightarrow> key_state \<Rightarrow> 'j node_record \<Rightarrow> 'j staging \<Rightarrow> storage_error + 'j staging" where
  "stage_put_node c version key st node acc = (case acc of (states, node_changes, edge_changes) \<Rightarrow>
     result_bind (opt_transpose (current_live_node_from_state c st)) (\<lambda>old.
     result_bind (enc_node c node) (\<lambda>raw.
       Inr (bt_insert key (append_version version (Some raw) st) states,
            node_changes @ [(old, Some node)], edge_changes))))"

definition stage_put_edge ::
    "'j codec \<Rightarrow> nat \<Rightarrow> string \<Rightarrow> key_state \<Rightarrow> 'j edge_record \<Rightarrow> 'j staging \<Rightarrow> storage_error + 'j staging" where
  "stage_put_edge c version key st edge acc = (case acc of (states, node_changes, edge_changes) \<Rightarrow>
     result_bind (opt_transpose (current_live_edge_from_state c st)) (\<lambda>old.
     result_bind (enc_edge c edge) (\<lambda>raw.
       Inr (bt_insert key (append_version version (Some raw) st) states,
            node_changes, edge_changes @ [(old, Some edge)]))))"

definition stage_mutation ::
    "'j codec \<Rightarrow> (string, key_state) btree \<Rightarrow> nat \<Rightarrow> 'j record_mutation \<Rightarrow> 'j staging \<Rightarrow> storage_error + 'j staging" where
  "stage_mutation c values version m acc = (case acc of (states, node_changes, edge_changes) \<Rightarrow>
     let key = mutation_key m; st = staged_state values m states in
     case m of
       PutNode node \<Rightarrow> stage_put_node c version key st node acc
     | PutFreshNode node \<Rightarrow> stage_put_node c version key st node acc
     | DeleteNode _ \<Rightarrow>
         result_bind (opt_transpose (current_live_node_from_state c st)) (\<lambda>old.
           Inr (bt_insert key (append_version version None st) states,
                node_changes @ [(old, None)], edge_changes))
     | PutEdge edge \<Rightarrow> stage_put_edge c version key st edge acc
     | PutFreshEdge edge \<Rightarrow> stage_put_edge c version key st edge acc
     | DeleteEdge _ \<Rightarrow>
         result_bind (opt_transpose (current_live_edge_from_state c st)) (\<lambda>old.
           Inr (bt_insert key (append_version version None st) states,
                node_changes, edge_changes @ [(old, None)])))"

definition batch_version :: "mvcc_store \<Rightarrow> 'j record_mutation list \<Rightarrow> nat" where
  "batch_version s mutations = wadd64 (ms_current_version s) (if mutations = [] then 0 else 1)"

definition staged_record_batch ::
    "'j codec \<Rightarrow> 'j record_mutation list \<Rightarrow> mvcc_store \<Rightarrow> storage_error + 'j staged_batch" where
  "staged_record_batch c mutations s =
     (let version = batch_version s mutations in
      result_bind (fold_result (stage_mutation c (ms_values s) version) mutations ([], [], []))
        (\<lambda>(states, node_changes, edge_changes).
          Inr \<lparr>sb_head = \<lparr>ph_current_version = version, ph_floor = ms_floor s\<rparr>, sb_states = states,
               sb_node_changes = node_changes, sb_edge_changes = edge_changes\<rparr>))"

definition publish_node_change ::
    "'j node_record option \<times> 'j node_record option \<Rightarrow> idx \<times> idx \<Rightarrow> idx \<times> idx" where
  "publish_node_change ch ix = (case (ch, ix) of ((old, new), (current, history)) \<Rightarrow>
     let current = (case old of None \<Rightarrow> current | Some old \<Rightarrow> remove_node_from_current_labels old current)
     in case new of
          None \<Rightarrow> (current, history)
        | Some new \<Rightarrow> (idx_add_all (nr_labels new) (nr_id new) current,
                       idx_add_all (nr_labels new) (nr_id new) history))"

definition publish_edge_change ::
    "'j edge_record option \<times> 'j edge_record option \<Rightarrow> idx \<times> idx \<Rightarrow> idx \<times> idx" where
  "publish_edge_change ch ix = (case (ch, ix) of ((old, new), (current, history)) \<Rightarrow>
     let current = (case old of None \<Rightarrow> current | Some old \<Rightarrow> remove_edge_from_current_types old current)
     in case new of
          None \<Rightarrow> (current, history)
        | Some new \<Rightarrow> (idx_add (er_edge_type new) (er_id new) current,
                       idx_add (er_edge_type new) (er_id new) history))"

text \<open>Everything \<open>publish_record_batch\<close> does before it stores the new version, then the store.\<close>

definition publish_states :: "'j staged_batch \<Rightarrow> mvcc_store \<Rightarrow> mvcc_store" where
  "publish_states staged s =
     (let (current_labels, label_history) = fold publish_node_change (sb_node_changes staged)
            (ms_current_node_labels s, ms_node_label_history s);
          (current_types, type_history) = fold publish_edge_change (sb_edge_changes staged)
            (ms_current_edge_types s, ms_edge_type_history s)
      in s\<lparr>ms_values := bt_extend (ms_values s) (sb_states staged),
           ms_current_node_labels := current_labels, ms_node_label_history := label_history,
           ms_current_edge_types := current_types, ms_edge_type_history := type_history\<rparr>)"

definition publish_record_batch :: "'j staged_batch \<Rightarrow> mvcc_store \<Rightarrow> mvcc_store" where
  "publish_record_batch staged s =
     (publish_states staged s)\<lparr>ms_current_version := ph_current_version (sb_head staged)\<rparr>"

subsection \<open>Specification: the mutations one after the other, at one version\<close>

definition mutation_at :: "'j codec \<Rightarrow> nat \<Rightarrow> 'j record_mutation \<Rightarrow> mvcc_store \<Rightarrow> mvcc_store \<times> (storage_error + unit)" where
  "mutation_at c v m s = (case m of
     PutNode n \<Rightarrow> put_node_record_at c n v s | PutFreshNode n \<Rightarrow> put_node_record_at c n v s
   | DeleteNode i \<Rightarrow> delete_node_record_at c i v s
   | PutEdge e \<Rightarrow> put_edge_record_at c e v s | PutFreshEdge e \<Rightarrow> put_edge_record_at c e v s
   | DeleteEdge i \<Rightarrow> delete_edge_record_at c i v s)"

definition batch_at :: "'j codec \<Rightarrow> nat \<Rightarrow> 'j record_mutation list \<Rightarrow> mvcc_store \<Rightarrow> mvcc_store" where
  "batch_at c v ms s = fold (\<lambda>m s. fst (mutation_at c v m s)) ms s"

fun apply_node :: "'j record_mutation \<Rightarrow> (string \<rightharpoonup> 'j node_record) \<Rightarrow> (string \<rightharpoonup> 'j node_record)" where
  "apply_node (PutNode n) g = g(nr_id n \<mapsto> n)"
| "apply_node (PutFreshNode n) g = g(nr_id n \<mapsto> n)"
| "apply_node (DeleteNode i) g = g(i := None)"
| "apply_node _ g = g"

fun apply_edge :: "'j record_mutation \<Rightarrow> (string \<rightharpoonup> 'j edge_record) \<Rightarrow> (string \<rightharpoonup> 'j edge_record)" where
  "apply_edge (PutEdge e) g = g(er_id e \<mapsto> e)"
| "apply_edge (PutFreshEdge e) g = g(er_id e \<mapsto> e)"
| "apply_edge (DeleteEdge i) g = g(i := None)"
| "apply_edge _ g = g"

text \<open>The caller's promise for a \<open>PutFresh\<close>: the store has no history of the key.\<close>

definition fresh_keys_absent :: "(string, key_state) btree \<Rightarrow> 'j record_mutation list \<Rightarrow> bool" where
  "fresh_keys_absent values ms \<longleftrightarrow> list_all (\<lambda>m. is_fresh m \<longrightarrow> bt_get values (mutation_key m) = None) ms"

text \<open>One staged mutation simulates the direct operation on a store that shows the staged states.\<close>

definition stage_store :: "mvcc_store \<Rightarrow> nat \<Rightarrow> 'j staging \<Rightarrow> (string, key_state) btree \<Rightarrow> mvcc_store" where
  "stage_store s v acc values = (case acc of (states, node_changes, edge_changes) \<Rightarrow>
     let nx = fold publish_node_change node_changes (ms_current_node_labels s, ms_node_label_history s);
         ex = fold publish_edge_change edge_changes (ms_current_edge_types s, ms_edge_type_history s)
     in s\<lparr>ms_current_version := v, ms_values := values,
          ms_current_node_labels := fst nx, ms_node_label_history := snd nx,
          ms_current_edge_types := fst ex, ms_edge_type_history := snd ex\<rparr>)"

definition stage_rel :: "mvcc_store \<Rightarrow> nat \<Rightarrow> 'j staging \<Rightarrow> mvcc_store \<Rightarrow> bool" where
  "stage_rel s v acc t \<longleftrightarrow> (\<exists>values. t = stage_store s v acc values \<and> bt_wf values \<and> bt_wf (fst acc) \<and>
     (\<forall>k. bt_get values k = (case bt_get (fst acc) k of Some st \<Rightarrow> Some st | None \<Rightarrow> bt_get (ms_values s) k)))"

lemma stage_store_simps [simp]:
  "ms_values (stage_store s v acc values) = values"
  "ms_current_version (stage_store s v acc values) = v"
  by (simp_all add: stage_store_def Let_def split: prod.split)

lemma staged_state_eq:
  assumes "\<forall>k. bt_get vals k = (case bt_get states k of Some st \<Rightarrow> Some st | None \<Rightarrow> bt_get (ms_values s) k)"
    "is_fresh m \<longrightarrow> bt_get (ms_values s) (mutation_key m) = None"
  shows "staged_state (ms_values s) m states = key_or_default vals (mutation_key m)"
  using assms by (auto simp: staged_state_def key_or_default_def split: option.split)

lemma live_at_key:
  "live_node_at c k t = opt_transpose (current_live_node_from_state c (key_or_default (ms_values t) k))"
  "live_edge_at c k t = opt_transpose (current_live_edge_from_state c (key_or_default (ms_values t) k))"
  by (simp_all add: live_node_at_def live_edge_at_def key_or_default_def current_live_node_from_state_def
      current_live_edge_from_state_def ks_default_def split: option.split)

lemma lookup_insert_both:
  assumes "\<forall>k. bt_get vals k = (case bt_get states k of Some st \<Rightarrow> Some st | None \<Rightarrow> bt_get old k)"
  shows "\<forall>k. bt_get (bt_insert key x vals) k =
    (case bt_get (bt_insert key x states) k of Some st \<Rightarrow> Some st | None \<Rightarrow> bt_get old k)"
  using assms by simp

lemma stage_node_step:
  assumes t: "t = stage_store s v (states, ncs, ecs) vals"
    and old: "live_node_at c (node_logical_key i) t = Inr old"
  shows "append_at (node_logical_key i) v x
      (t\<lparr>ms_current_node_labels := fst (publish_node_change (old, new) (ms_current_node_labels t, ms_node_label_history t)),
         ms_node_label_history := snd (publish_node_change (old, new) (ms_current_node_labels t, ms_node_label_history t))\<rparr>) =
    stage_store s v (bt_insert (node_logical_key i) (append_version v x (key_or_default vals (node_logical_key i))) states,
        ncs @ [(old, new)], ecs)
      (bt_insert (node_logical_key i) (append_version v x (key_or_default vals (node_logical_key i))) vals)"
  by (simp add: t stage_store_def append_at_def Let_def)

lemma stage_edge_step:
  assumes t: "t = stage_store s v (states, ncs, ecs) vals"
    and old: "live_edge_at c (edge_logical_key i) t = Inr old"
  shows "append_at (edge_logical_key i) v x
      (t\<lparr>ms_current_edge_types := fst (publish_edge_change (old, new) (ms_current_edge_types t, ms_edge_type_history t)),
         ms_edge_type_history := snd (publish_edge_change (old, new) (ms_current_edge_types t, ms_edge_type_history t))\<rparr>) =
    stage_store s v (bt_insert (edge_logical_key i) (append_version v x (key_or_default vals (edge_logical_key i))) states,
        ncs, ecs @ [(old, new)])
      (bt_insert (edge_logical_key i) (append_version v x (key_or_default vals (edge_logical_key i))) vals)"
  by (simp add: t stage_store_def append_at_def Let_def)

text \<open>The direct operations, written over the same index change.\<close>

lemma put_node_as_change:
  assumes "enc_node c n = Inr raw" "live_node_at c (node_logical_key (nr_id n)) t = Inr old"
  shows "put_node_record_at c n v t = (append_at (node_logical_key (nr_id n)) v (Some raw)
      (t\<lparr>ms_current_node_labels := fst (publish_node_change (old, Some n) (ms_current_node_labels t, ms_node_label_history t)),
         ms_node_label_history := snd (publish_node_change (old, Some n) (ms_current_node_labels t, ms_node_label_history t))\<rparr>), Inr ())"
  using assms by (simp add: put_node_record_at_def publish_node_change_def Let_def)

lemma delete_node_as_change:
  assumes "live_node_at c (node_logical_key i) t = Inr old"
  shows "delete_node_record_at c i v t = (append_at (node_logical_key i) v None
      (t\<lparr>ms_current_node_labels := fst (publish_node_change (old, None) (ms_current_node_labels t, ms_node_label_history t)),
         ms_node_label_history := snd (publish_node_change (old, None) (ms_current_node_labels t, ms_node_label_history t))\<rparr>), Inr ())"
  using assms by (cases old) (simp_all add: delete_node_record_at_def publish_node_change_def Let_def)

lemma put_edge_as_change:
  assumes "enc_edge c e = Inr raw" "live_edge_at c (edge_logical_key (er_id e)) t = Inr old"
  shows "put_edge_record_at c e v t = (append_at (edge_logical_key (er_id e)) v (Some raw)
      (t\<lparr>ms_current_edge_types := fst (publish_edge_change (old, Some e) (ms_current_edge_types t, ms_edge_type_history t)),
         ms_edge_type_history := snd (publish_edge_change (old, Some e) (ms_current_edge_types t, ms_edge_type_history t))\<rparr>), Inr ())"
  using assms by (simp add: put_edge_record_at_def publish_edge_change_def Let_def)

lemma delete_edge_as_change:
  assumes "live_edge_at c (edge_logical_key i) t = Inr old"
  shows "delete_edge_record_at c i v t = (append_at (edge_logical_key i) v None
      (t\<lparr>ms_current_edge_types := fst (publish_edge_change (old, None) (ms_current_edge_types t, ms_edge_type_history t)),
         ms_edge_type_history := snd (publish_edge_change (old, None) (ms_current_edge_types t, ms_edge_type_history t))\<rparr>), Inr ())"
  using assms by (cases old) (simp_all add: delete_edge_record_at_def publish_edge_change_def Let_def)

lemma stage_rel_insert:
  assumes "bt_wf vals" "bt_wf states"
    "\<forall>k. bt_get vals k = (case bt_get states k of Some st \<Rightarrow> Some st | None \<Rightarrow> bt_get (ms_values s) k)"
  shows "stage_rel s v (bt_insert key x states, ncs, ecs)
    (stage_store s v (bt_insert key x states, ncs, ecs) (bt_insert key x vals))"
  unfolding stage_rel_def using assms by (intro exI [of _ "bt_insert key x vals"]) (simp add: bt_wf_insert)

lemma stage_mutation_sim:
  assumes rel: "stage_rel s v acc t"
    and fresh: "is_fresh m \<longrightarrow> bt_get (ms_values s) (mutation_key m) = None"
    and stage: "stage_mutation c (ms_values s) v m acc = Inr acc'"
  shows "\<exists>t'. mutation_at c v m t = (t', Inr ()) \<and> stage_rel s v acc' t'"
proof -
  obtain states ncs ecs where acc: "acc = (states, ncs, ecs)" by (cases acc)
  obtain vals where t: "t = stage_store s v (states, ncs, ecs) vals" and wf: "bt_wf vals" "bt_wf states"
    and get: "\<forall>k. bt_get vals k = (case bt_get states k of Some st \<Rightarrow> Some st | None \<Rightarrow> bt_get (ms_values s) k)"
    using rel by (auto simp: stage_rel_def acc)
  have st: "staged_state (ms_values s) m states = key_or_default (ms_values t) (mutation_key m)"
    using staged_state_eq [OF get fresh] by (simp add: t)
  note ins = stage_rel_insert [OF wf get]
  have node: "\<exists>t'. put_node_record_at c n v t = (t', Inr ()) \<and> stage_rel s v acc' t'"
    if "mutation_key m = node_logical_key (nr_id n)"
      "stage_put_node c v (mutation_key m) (staged_state (ms_values s) m states) n acc = Inr acc'" for n
  proof -
    from that obtain old raw where r: "live_node_at c (node_logical_key (nr_id n)) t = Inr old" "enc_node c n = Inr raw"
      "acc' = (bt_insert (node_logical_key (nr_id n)) (append_version v (Some raw) (key_or_default vals (node_logical_key (nr_id n)))) states, ncs @ [(old, Some n)], ecs)"
      by (auto simp: stage_put_node_def acc result_bind_Inr_iff st live_at_key) (simp add: t)
    show ?thesis
      unfolding put_node_as_change [OF r(2,1)] stage_node_step [OF t r(1)] r(3) using ins by blast
  qed
  have edge: "\<exists>t'. put_edge_record_at c n v t = (t', Inr ()) \<and> stage_rel s v acc' t'"
    if "mutation_key m = edge_logical_key (er_id n)"
      "stage_put_edge c v (mutation_key m) (staged_state (ms_values s) m states) n acc = Inr acc'" for n
  proof -
    from that obtain old raw where r: "live_edge_at c (edge_logical_key (er_id n)) t = Inr old" "enc_edge c n = Inr raw"
      "acc' = (bt_insert (edge_logical_key (er_id n)) (append_version v (Some raw) (key_or_default vals (edge_logical_key (er_id n)))) states, ncs, ecs @ [(old, Some n)])"
      by (auto simp: stage_put_edge_def acc result_bind_Inr_iff st live_at_key) (simp add: t)
    show ?thesis
      unfolding put_edge_as_change [OF r(2,1)] stage_edge_step [OF t r(1)] r(3) using ins by blast
  qed
  show ?thesis
  proof (cases m)
    case (DeleteNode i)
    note st' = st [unfolded DeleteNode]
    from DeleteNode stage obtain old where r: "live_node_at c (node_logical_key i) t = Inr old"
      "acc' = (bt_insert (node_logical_key i) (append_version v None (key_or_default vals (node_logical_key i))) states, ncs @ [(old, None)], ecs)"
      by (auto simp: stage_mutation_def acc result_bind_Inr_iff Let_def st' live_at_key mutation_key_def) (simp add: t)
    show ?thesis
      unfolding DeleteNode mutation_at_def record_mutation.case delete_node_as_change [OF r(1)]
        stage_node_step [OF t r(1)] r(2) using ins by blast
  next
    case (DeleteEdge i)
    note st' = st [unfolded DeleteEdge]
    from DeleteEdge stage obtain old where r: "live_edge_at c (edge_logical_key i) t = Inr old"
      "acc' = (bt_insert (edge_logical_key i) (append_version v None (key_or_default vals (edge_logical_key i))) states, ncs, ecs @ [(old, None)])"
      by (auto simp: stage_mutation_def acc result_bind_Inr_iff Let_def st' live_at_key mutation_key_def) (simp add: t)
    show ?thesis
      unfolding DeleteEdge mutation_at_def record_mutation.case delete_edge_as_change [OF r(1)]
        stage_edge_step [OF t r(1)] r(2) using ins by blast
  qed (use stage node edge in \<open>auto simp: stage_mutation_def mutation_at_def mutation_key_def acc\<close>)
qed

text \<open>A direct mutation on a store in its invariant, at its current version.\<close>

lemma write_graph_at:
  assumes "\<forall>ts k. read_key t' ts k = (if k = key \<and> v \<le> ts then x else read_key t ts k)"
  shows "key = node_logical_key i \<Longrightarrow> node_at c t' ts = (if v \<le> ts
      then (node_at c t ts)(i := Option.bind x (\<lambda>raw. ok_value (dec_node c raw))) else node_at c t ts)"
    and "key = node_logical_key i \<Longrightarrow> edge_at c t' ts = edge_at c t ts"
    and "key = edge_logical_key i \<Longrightarrow> edge_at c t' ts = (if v \<le> ts
      then (edge_at c t ts)(i := Option.bind x (\<lambda>raw. ok_value (dec_edge c raw))) else edge_at c t ts)"
    and "key = edge_logical_key i \<Longrightarrow> node_at c t' ts = node_at c t ts"
  using assms by (auto simp: node_at_def edge_at_def fun_eq_iff)

definition mutation_effect :: "'j codec \<Rightarrow> nat \<Rightarrow> 'j record_mutation \<Rightarrow> mvcc_store \<Rightarrow> mvcc_store \<Rightarrow> bool" where
  "mutation_effect c v m t t' \<longleftrightarrow> mvcc_ok c t' \<and> ms_current_version t' = ms_current_version t \<and>
     (\<forall>ts. node_at c t' ts = (if v \<le> ts then apply_node m (node_at c t ts) else node_at c t ts) \<and>
           edge_at c t' ts = (if v \<le> ts then apply_edge m (edge_at c t ts) else edge_at c t ts))"

lemma put_node_effect:
  assumes ok: "mvcc_ok c t" "codec_ok c" and put: "put_node_record_at c n (ms_current_version t) t = (t', Inr ())"
  shows "mutation_effect c (ms_current_version t) (PutNode n) t t'"
proof -
  let ?v = "ms_current_version t"
  have head: "key_head_at_most t k ?v" for k using versions_ok_key(2) [OF mvcc_ok_versions [OF ok(1)]] .
  obtain raw where raw: "enc_node c n = Inr raw"
    using put by (cases "enc_node c n") (simp_all add: put_node_record_at_def)
  then have dec: "dec_node c raw = Inr n" using ok(2) by (simp add: codec_ok_def)
  obtain old where old: "live_node_at c (node_logical_key (nr_id n)) t = Inr old"
    "map_option (dec_node c) (live_raw (key_or_default (ms_values t) (node_logical_key (nr_id n)))) = map_option Inr old"
    "\<forall>r. old = Some r \<longrightarrow> nr_id r = nr_id n" using live_node_at_ok [OF ok(1)] by blast
  have t': "t' = write_node old (Some n) (nr_id n) ?v (Some raw) t"
    using put put_node_record_at_eq [OF raw old(1,3), of ?v] by simp
  have ok': "mvcc_ok c t'"
    unfolding t' using raw by (intro write_node_ok [OF ok head _ old(2)]) simp_all
  have rd: "\<forall>ts k. read_key t' ts k = (if k = node_logical_key (nr_id n) \<and> ?v \<le> ts then Some raw else read_key t ts k)"
    unfolding t' using write_node_reads(2) [OF mvcc_ok_versions [OF ok(1)] head] by blast
  have "ms_current_version t' = ?v" by (simp add: t')
  with ok' show ?thesis
    by (simp add: mutation_effect_def dec write_graph_at(1,2) [OF rd refl])
qed

lemma delete_node_effect:
  assumes ok: "mvcc_ok c t" "codec_ok c" and del: "delete_node_record_at c i (ms_current_version t) t = (t', Inr ())"
  shows "mutation_effect c (ms_current_version t) (DeleteNode i) t t'"
proof -
  let ?v = "ms_current_version t"
  have head: "key_head_at_most t k ?v" for k using versions_ok_key(2) [OF mvcc_ok_versions [OF ok(1)]] .
  obtain old where old: "live_node_at c (node_logical_key i) t = Inr old"
    "map_option (dec_node c) (live_raw (key_or_default (ms_values t) (node_logical_key i))) = map_option Inr old"
    "\<forall>r. old = Some r \<longrightarrow> nr_id r = i" using live_node_at_ok [OF ok(1)] by blast
  have t': "t' = write_node old None i ?v None t"
    using del delete_node_record_at_eq [OF old(1,3), of ?v] by simp
  have ok': "mvcc_ok c t'"
    unfolding t' by (intro write_node_ok [OF ok head _ old(2)]) simp_all
  have rd: "\<forall>ts k. read_key t' ts k = (if k = node_logical_key i \<and> ?v \<le> ts then None else read_key t ts k)"
    unfolding t' using write_node_reads(2) [OF mvcc_ok_versions [OF ok(1)] head] by blast
  have "ms_current_version t' = ?v" by (simp add: t')
  with ok' show ?thesis
    by (simp add: mutation_effect_def write_graph_at(1,2) [OF rd refl])
qed

lemma put_edge_effect:
  assumes ok: "mvcc_ok c t" "codec_ok c" and put: "put_edge_record_at c n (ms_current_version t) t = (t', Inr ())"
  shows "mutation_effect c (ms_current_version t) (PutEdge n) t t'"
proof -
  let ?v = "ms_current_version t"
  have head: "key_head_at_most t k ?v" for k using versions_ok_key(2) [OF mvcc_ok_versions [OF ok(1)]] .
  obtain raw where raw: "enc_edge c n = Inr raw"
    using put by (cases "enc_edge c n") (simp_all add: put_edge_record_at_def)
  then have dec: "dec_edge c raw = Inr n" using ok(2) by (simp add: codec_ok_def)
  obtain old where old: "live_edge_at c (edge_logical_key (er_id n)) t = Inr old"
    "map_option (dec_edge c) (live_raw (key_or_default (ms_values t) (edge_logical_key (er_id n)))) = map_option Inr old"
    "\<forall>r. old = Some r \<longrightarrow> er_id r = er_id n" using live_edge_at_ok [OF ok(1)] by blast
  have t': "t' = write_edge old (Some n) (er_id n) ?v (Some raw) t"
    using put put_edge_record_at_eq [OF raw old(1,3), of ?v] by simp
  have ok': "mvcc_ok c t'"
    unfolding t' using raw by (intro write_edge_ok [OF ok head _ old(2)]) simp_all
  have rd: "\<forall>ts k. read_key t' ts k = (if k = edge_logical_key (er_id n) \<and> ?v \<le> ts then Some raw else read_key t ts k)"
    unfolding t' using write_edge_reads(2) [OF mvcc_ok_versions [OF ok(1)] head] by blast
  have "ms_current_version t' = ?v" by (simp add: t')
  with ok' show ?thesis
    by (simp add: mutation_effect_def dec write_graph_at(3,4) [OF rd refl])
qed

lemma delete_edge_effect:
  assumes ok: "mvcc_ok c t" "codec_ok c" and del: "delete_edge_record_at c i (ms_current_version t) t = (t', Inr ())"
  shows "mutation_effect c (ms_current_version t) (DeleteEdge i) t t'"
proof -
  let ?v = "ms_current_version t"
  have head: "key_head_at_most t k ?v" for k using versions_ok_key(2) [OF mvcc_ok_versions [OF ok(1)]] .
  obtain old where old: "live_edge_at c (edge_logical_key i) t = Inr old"
    "map_option (dec_edge c) (live_raw (key_or_default (ms_values t) (edge_logical_key i))) = map_option Inr old"
    "\<forall>r. old = Some r \<longrightarrow> er_id r = i" using live_edge_at_ok [OF ok(1)] by blast
  have t': "t' = write_edge old None i ?v None t"
    using del delete_edge_record_at_eq [OF old(1,3), of ?v] by simp
  have ok': "mvcc_ok c t'"
    unfolding t' by (intro write_edge_ok [OF ok head _ old(2)]) simp_all
  have rd: "\<forall>ts k. read_key t' ts k = (if k = edge_logical_key i \<and> ?v \<le> ts then None else read_key t ts k)"
    unfolding t' using write_edge_reads(2) [OF mvcc_ok_versions [OF ok(1)] head] by blast
  have "ms_current_version t' = ?v" by (simp add: t')
  with ok' show ?thesis
    by (simp add: mutation_effect_def write_graph_at(3,4) [OF rd refl])
qed

lemma mutation_at_effect:
  assumes "mvcc_ok c t" "codec_ok c" "mutation_at c (ms_current_version t) m t = (t', Inr ())"
  shows "mutation_effect c (ms_current_version t) m t t'"
proof (cases m)
  case (PutFreshNode n)
  then have "mutation_effect c (ms_current_version t) (PutNode n) t t'"
    using assms(3) by (intro put_node_effect [OF assms(1,2)]) (simp add: mutation_at_def)
  then show ?thesis by (simp add: PutFreshNode mutation_effect_def)
next
  case (PutFreshEdge n)
  then have "mutation_effect c (ms_current_version t) (PutEdge n) t t'"
    using assms(3) by (intro put_edge_effect [OF assms(1,2)]) (simp add: mutation_at_def)
  then show ?thesis by (simp add: PutFreshEdge mutation_effect_def)
qed (use assms(3) put_node_effect [OF assms(1,2)] delete_node_effect [OF assms(1,2)]
    put_edge_effect [OF assms(1,2)] delete_edge_effect [OF assms(1,2)] in \<open>simp_all add: mutation_at_def\<close>)

text \<open>The loop.\<close>

lemma stage_all_sim:
  assumes "fold_result (stage_mutation c (ms_values s) v) ms acc = Inr acc'" "stage_rel s v acc t"
    "fresh_keys_absent (ms_values s) ms" "mvcc_ok c t" "codec_ok c" "ms_current_version t = v"
  shows "stage_rel s v acc' (batch_at c v ms t) \<and> mvcc_ok c (batch_at c v ms t) \<and>
    (\<forall>ts. node_at c (batch_at c v ms t) ts = (if v \<le> ts then fold apply_node ms (node_at c t ts) else node_at c t ts) \<and>
          edge_at c (batch_at c v ms t) ts = (if v \<le> ts then fold apply_edge ms (edge_at c t ts) else edge_at c t ts))"
  using assms
proof (induction ms arbitrary: acc t)
  case Nil
  then show ?case by (simp add: batch_at_def)
next
  case (Cons m ms)
  obtain acc1 where a1: "stage_mutation c (ms_values s) v m acc = Inr acc1"
    "fold_result (stage_mutation c (ms_values s) v) ms acc1 = Inr acc'"
    using Cons.prems(1) by (auto simp: result_bind_Inr_iff)
  have f: "is_fresh m \<longrightarrow> bt_get (ms_values s) (mutation_key m) = None" "fresh_keys_absent (ms_values s) ms"
    using Cons.prems(3) by (auto simp: fresh_keys_absent_def)
  obtain t1 where t1: "mutation_at c v m t = (t1, Inr ())" "stage_rel s v acc1 t1"
    using stage_mutation_sim [OF Cons.prems(2) f(1) a1(1)] by blast
  have eff: "mutation_effect c v m t t1"
    using mutation_at_effect [OF Cons.prems(4,5)] t1(1) Cons.prems(6) by blast
  then have "mvcc_ok c t1" "ms_current_version t1 = v"
    using Cons.prems(6) by (simp_all add: mutation_effect_def)
  from Cons.IH [OF a1(2) t1(2) f(2) this(1) Cons.prems(5) this(2)] eff
  show ?case by (simp add: batch_at_def t1(1) mutation_effect_def)
qed

lemma stage_rel_start:
  assumes "bt_wf (ms_values s)"
  shows "stage_rel s v ([], [], []) (s\<lparr>ms_current_version := v\<rparr>)"
  unfolding stage_rel_def
  by (intro exI [of _ "ms_values s"]) (simp add: stage_store_def assms)

lemma mvcc_ok_raise_version:
  assumes "mvcc_ok c s" "ms_current_version s \<le> v"
  shows "mvcc_ok c (s\<lparr>ms_current_version := v\<rparr>)"
  using assms at_most_mono [of _ "ms_current_version s" v]
  by (auto simp: mvcc_ok_def versions_ok_def)

lemma publish_staged:
  assumes "staged_record_batch c ms s = Inr staged" "stage_rel s v (sb_states staged, sb_node_changes staged, sb_edge_changes staged) t"
    "bt_wf (ms_values s)" "v = ph_current_version (sb_head staged)"
  shows "publish_record_batch staged s = t"
proof -
  obtain vals where t: "t = stage_store s v (sb_states staged, sb_node_changes staged, sb_edge_changes staged) vals"
    and wf: "bt_wf vals" "bt_wf (sb_states staged)"
    and get: "\<forall>k. bt_get vals k = (case bt_get (sb_states staged) k of Some st \<Rightarrow> Some st | None \<Rightarrow> bt_get (ms_values s) k)"
    using assms(2) by (auto simp: stage_rel_def)
  have "bt_extend (ms_values s) (sb_states staged) = vals"
    using wf assms(3) get by (intro bt_ext) (simp_all add: bt_get_extend_wf bt_wf_extend)
  then show ?thesis
    by (simp add: t stage_store_def publish_record_batch_def publish_states_def Let_def split_def assms(4))
qed

lemma publish_batch_ok:
  assumes "mvcc_ok c s" "codec_ok c" "ms_current_version s < u64_max" "fresh_keys_absent (ms_values s) ms"
    "staged_record_batch c ms s = Inr staged"
  defines "v \<equiv> ms_current_version s + (if ms = [] then 0 else 1)"
  shows "publish_record_batch staged s = batch_at c v ms (s\<lparr>ms_current_version := v\<rparr>)"
    and "mvcc_ok c (publish_record_batch staged s)"
    and "ms_current_version (publish_record_batch staged s) = v"
    and "node_at c (publish_record_batch staged s) ts =
      (if v \<le> ts then fold apply_node ms (node_at c s ts) else node_at c s ts)"
    and "edge_at c (publish_record_batch staged s) ts =
      (if v \<le> ts then fold apply_edge ms (edge_at c s ts) else edge_at c s ts)"
proof -
  have v: "batch_version s ms = v"
    using assms(3) wadd64_exact [of "ms_current_version s" "if ms = [] then 0 else 1"]
    by (simp add: batch_version_def v_def)
  obtain states ncs ecs where fr: "fold_result (stage_mutation c (ms_values s) v) ms ([], [], []) = Inr (states, ncs, ecs)"
    and st: "staged = \<lparr>sb_head = \<lparr>ph_current_version = v, ph_floor = ms_floor s\<rparr>, sb_states = states,
               sb_node_changes = ncs, sb_edge_changes = ecs\<rparr>"
    using assms(5) by (auto simp: staged_record_batch_def v Let_def result_bind_Inr_iff)
  let ?s = "s\<lparr>ms_current_version := v\<rparr>"
  have wf: "bt_wf (ms_values s)" using assms(1) by (simp add: mvcc_ok_def versions_ok_def)
  have ok: "mvcc_ok c ?s" by (rule mvcc_ok_raise_version [OF assms(1)]) (simp add: v_def)
  note all = stage_all_sim [OF fr stage_rel_start [OF wf] assms(4) ok assms(2)]
  have cv: "ms_current_version ?s = v" by simp
  show eq: "publish_record_batch staged s = batch_at c v ms ?s"
    using all cv by (intro publish_staged [OF assms(5) _ wf]) (simp_all add: st)
  show "ms_current_version (publish_record_batch staged s) = v"
    by (simp add: publish_record_batch_def st)
  show "mvcc_ok c (publish_record_batch staged s)" unfolding eq using all cv by blast
  have g: "node_at c ?s ts = node_at c s ts" "edge_at c ?s ts = edge_at c s ts"
    by (rule graph_cong, simp)+
  show "node_at c (publish_record_batch staged s) ts =
      (if v \<le> ts then fold apply_node ms (node_at c s ts) else node_at c s ts)"
    "edge_at c (publish_record_batch staged s) ts =
      (if v \<le> ts then fold apply_edge ms (edge_at c s ts) else edge_at c s ts)"
    unfolding eq using all cv g by simp_all
qed

subsection \<open>Persistence\<close>

text \<open>The \<open>rmp_serde\<close> encoding of the persisted head and of one key's state, a parameter.\<close>

record persist_codec =
  enc_state :: "key_state \<Rightarrow> storage_error + bytes"
  dec_state :: "bytes \<Rightarrow> storage_error + key_state"
  enc_phead :: "persisted_head \<Rightarrow> storage_error + bytes"
  dec_phead :: "bytes \<Rightarrow> storage_error + persisted_head"

definition persist_ok :: "persist_codec \<Rightarrow> bool" where
  "persist_ok p \<longleftrightarrow>
     (\<forall>st raw. enc_state p st = Inr raw \<longrightarrow> dec_state p raw = Inr st) \<and>
     (\<forall>h raw. enc_phead p h = Inr raw \<longrightarrow> dec_phead p raw = Inr h)"

definition strip_current :: "key_state \<Rightarrow> key_state" where
  "strip_current st = st\<lparr>ks_head := map_option (\<lambda>head. head\<lparr>lsh_current := None\<rparr>) (ks_head st)\<rparr>"

definition encode_persisted_mvcc_key_state :: "persist_codec \<Rightarrow> key_state \<Rightarrow> storage_error + bytes" where
  "encode_persisted_mvcc_key_state p st = enc_state p (strip_current st)"

definition encoded_persisted_head :: "persist_codec \<Rightarrow> mvcc_store \<Rightarrow> storage_error + bytes" where
  "encoded_persisted_head p s =
     enc_phead p \<lparr>ph_current_version = ms_current_version s, ph_floor = ms_floor s\<rparr>"

definition encoded_states_of :: "persist_codec \<Rightarrow> (string, key_state) btree \<Rightarrow> storage_error + (string \<times> bytes) list" where
  "encoded_states_of p values =
     map_result (\<lambda>(key, st). result_bind (encode_persisted_mvcc_key_state p st) (\<lambda>raw. Inr (key, raw))) values"

definition encoded_persisted_states :: "persist_codec \<Rightarrow> mvcc_store \<Rightarrow> storage_error + (string \<times> bytes) list" where
  "encoded_persisted_states p s = encoded_states_of p (ms_values s)"

definition staged_encoded_head :: "persist_codec \<Rightarrow> 'j staged_batch \<Rightarrow> storage_error + bytes" where
  "staged_encoded_head p staged = enc_phead p (sb_head staged)"

definition staged_encoded_states :: "persist_codec \<Rightarrow> 'j staged_batch \<Rightarrow> storage_error + (string \<times> bytes) list" where
  "staged_encoded_states p staged = encoded_states_of p (sb_states staged)"

definition resolve_state :: "(string \<Rightarrow> storage_error + bytes option) \<Rightarrow> string \<times> key_state \<Rightarrow> storage_error + (string \<times> key_state)" where
  "resolve_state resolve e = (case e of (logical_key, st) \<Rightarrow>
     (case ks_head st of
        None \<Rightarrow> Inr (logical_key, st)
      | Some head \<Rightarrow>
          if \<not> lsh_tombstoned head \<and> lsh_current head = None
          then result_bind (resolve logical_key) (\<lambda>value.
            case value of
              None \<Rightarrow> Inl (NotFound (''missing current MVCC payload for '' @ logical_key))
            | Some raw \<Rightarrow> Inr (logical_key, st\<lparr>ks_head := Some (head\<lparr>lsh_current := Some raw\<rparr>)\<rparr>))
          else Inr (logical_key, st)))"

definition retained_raws :: "key_state \<Rightarrow> bytes list" where
  "retained_raws st = List.map_filter (\<lambda>value. value)
     (map snd (ks_archived st) @ (case ks_head st of None \<Rightarrow> [] | Some head \<Rightarrow> [lsh_current head]))"

definition rebuild_record ::
    "(bytes \<Rightarrow> storage_error + 'r) \<Rightarrow> ('r \<Rightarrow> string) \<Rightarrow> ('r \<Rightarrow> string list) \<Rightarrow>
     (key_state \<Rightarrow> (storage_error + 'r) option) \<Rightarrow> key_state \<Rightarrow> idx \<times> idx \<Rightarrow> storage_error + idx \<times> idx" where
  "rebuild_record dec rid tags live st ix = (case ix of (current, history) \<Rightarrow>
     result_bind (fold_result (\<lambda>raw history. result_bind (dec raw) (\<lambda>r.
         Inr (idx_add_all (tags r) (rid r) history))) (retained_raws st) history) (\<lambda>history.
     result_bind (opt_transpose (live st)) (\<lambda>live.
       Inr (case live of None \<Rightarrow> current | Some r \<Rightarrow> idx_add_all (tags r) (rid r) current, history))))"

definition rebuild_key ::
    "'j codec \<Rightarrow> string \<times> key_state \<Rightarrow> (idx \<times> idx) \<times> (idx \<times> idx) \<Rightarrow> storage_error + (idx \<times> idx) \<times> (idx \<times> idx)" where
  "rebuild_key c e ix = (case e of (logical_key, st) \<Rightarrow> (case ix of (nodes, edges) \<Rightarrow>
     if starts_with logical_key ''node:'' then
       result_bind (rebuild_record (dec_node c) nr_id nr_labels (current_live_node_from_state c) st nodes)
         (\<lambda>nodes. Inr (nodes, edges))
     else if starts_with logical_key ''edge:'' then
       result_bind (rebuild_record (dec_edge c) er_id edge_tags (current_live_edge_from_state c) st edges)
         (\<lambda>edges. Inr (nodes, edges))
     else Inr (nodes, edges)))"

definition restore_persisted_entries ::
    "'j codec \<Rightarrow> persist_codec \<Rightarrow> bytes \<Rightarrow> (string \<times> bytes) list \<Rightarrow>
     (string \<Rightarrow> storage_error + bytes option) \<Rightarrow> mvcc_store \<Rightarrow> storage_error + mvcc_store" where
  "restore_persisted_entries c p encoded_head entries resolve t =
     result_bind (dec_phead p encoded_head) (\<lambda>head.
     result_bind (map_result (\<lambda>(key, value). result_bind (dec_state p value) (\<lambda>st. Inr (key, st))) entries) (\<lambda>kvs.
     result_bind (map_result (resolve_state resolve) (bt_extend [] kvs)) (\<lambda>values.
     result_bind (fold_result (rebuild_key c) values (([], []), ([], []))) (\<lambda>((cn, hn), (ce, he)).
       Inr (t\<lparr>ms_current_version := ph_current_version head, ms_floor := ph_floor head, ms_values := values,
              ms_current_node_labels := cn, ms_node_label_history := hn,
              ms_current_edge_types := ce, ms_edge_type_history := he, ms_active_readers := []\<rparr>)))))"

text \<open>Decoding and resolving undoes the stripping of the current value.\<close>

lemma resolve_strip:
  assumes "ks_wf st" "resolve k = Inr (live_raw st)"
  shows "resolve_state resolve (k, strip_current st) = Inr (k, st)"
  using assms
  by (cases "ks_head st"; cases st)
    (auto simp: resolve_state_def strip_current_def live_raw_def ks_wf_def split: option.splits)

lemma retained_raws_history: "set (retained_raws st) = {raw. \<exists>v. (v, Some raw) \<in> set (ks_history st)}"
  by (force simp: retained_raws_def ks_history_def set_map_filter_eq split: option.splits)

lemma fold_history_add:
  assumes "\<forall>raw\<in>set raws. \<exists>r. dec raw = Inr r \<and> rid r = i" "idx_wf hist"
  shows "\<exists>hist'. fold_result (\<lambda>raw hist. result_bind (dec raw) (\<lambda>r. Inr (idx_add_all (tags r) (rid r) hist))) raws hist = Inr hist' \<and>
    idx_wf hist' \<and> (\<forall>t j. idx_has hist' t j \<longleftrightarrow>
      idx_has hist t j \<or> (j = i \<and> (\<exists>raw\<in>set raws. \<exists>r. dec raw = Inr r \<and> t \<in> set (tags r))))"
  using assms
proof (induction raws arbitrary: hist)
  case (Cons raw raws)
  obtain r where r: "dec raw = Inr r" "rid r = i" using Cons.prems(1) by auto
  have "idx_wf (idx_add_all (tags r) i hist)" using Cons.prems(2) by (rule idx_wf_add_all)
  from Cons.IH [OF _ this] Cons.prems(1) obtain hist' where
    h: "fold_result (\<lambda>raw hist. result_bind (dec raw) (\<lambda>r. Inr (idx_add_all (tags r) (rid r) hist))) raws
      (idx_add_all (tags r) i hist) = Inr hist'" "idx_wf hist'"
    "\<forall>t j. idx_has hist' t j \<longleftrightarrow> idx_has (idx_add_all (tags r) i hist) t j \<or>
      (j = i \<and> (\<exists>raw\<in>set raws. \<exists>r. dec raw = Inr r \<and> t \<in> set (tags r)))" by auto
  then show ?case using r by (intro exI [of _ hist']) auto
qed simp

text \<open>What one kind's indices hold after the keys of a list were rebuilt.\<close>

definition kind_built ::
    "(string \<Rightarrow> string) \<Rightarrow> (bytes \<Rightarrow> storage_error + 'r) \<Rightarrow> ('r \<Rightarrow> string list) \<Rightarrow>
     (string \<times> key_state) list \<Rightarrow> idx \<times> idx \<Rightarrow> bool" where
  "kind_built key dec tags es ix \<longleftrightarrow> idx_wf (fst ix) \<and> idx_wf (snd ix) \<and>
     (\<forall>t j. idx_has (fst ix) t j \<longleftrightarrow>
        (\<exists>st raw r. (key j, st) \<in> set es \<and> live_raw st = Some raw \<and> dec raw = Inr r \<and> t \<in> set (tags r))) \<and>
     (\<forall>t j. idx_has (snd ix) t j \<longleftrightarrow>
        (\<exists>st v raw r. (key j, st) \<in> set es \<and> (v, Some raw) \<in> set (ks_history st) \<and> dec raw = Inr r \<and> t \<in> set (tags r)))"

lemma rebuild_record_built:
  assumes inj: "\<And>i j. key i = key j \<longleftrightarrow> i = j"
    and built: "kind_built key dec tags es ix"
    and dec: "\<forall>v raw. (v, Some raw) \<in> set (ks_history st) \<longrightarrow> (\<exists>r. dec raw = Inr r \<and> rid r = i)"
    and live: "live st = map_option dec (live_raw st)"
  shows "\<exists>ix'. rebuild_record dec rid tags live st ix = Inr ix' \<and> kind_built key dec tags (es @ [(key i, st)]) ix'"
proof -
  obtain cur hist where ix: "ix = (cur, hist)" by (cases ix)
  have wf: "idx_wf cur" "idx_wf hist" using built by (simp_all add: kind_built_def ix)
  have "\<forall>raw\<in>set (retained_raws st). \<exists>r. dec raw = Inr r \<and> rid r = i"
    using dec by (auto simp: retained_raws_history)
  from fold_history_add [OF this wf(2), of tags] obtain hist' where
    h: "fold_result (\<lambda>raw hist. result_bind (dec raw) (\<lambda>r. Inr (idx_add_all (tags r) (rid r) hist))) (retained_raws st) hist = Inr hist'"
    "idx_wf hist'" "\<And>t j. idx_has hist' t j \<longleftrightarrow> idx_has hist t j \<or>
      (j = i \<and> (\<exists>raw\<in>set (retained_raws st). \<exists>r. dec raw = Inr r \<and> t \<in> set (tags r)))" by auto
  have hist_ok: "idx_has hist' t j \<longleftrightarrow> (\<exists>st' v raw r. (key j, st') \<in> set (es @ [(key i, st)]) \<and>
      (v, Some raw) \<in> set (ks_history st') \<and> dec raw = Inr r \<and> t \<in> set (tags r))" for t j
    using built unfolding h(3) by (auto simp: kind_built_def ix retained_raws_history inj)
  show ?thesis
  proof (cases "live_raw st")
    case None
    then have "kind_built key dec tags (es @ [(key i, st)]) (cur, hist')"
      using built hist_ok h(2) by (auto simp: kind_built_def ix inj)
    with h(1) show ?thesis by (simp add: rebuild_record_def ix live None)
  next
    case (Some raw)
    obtain r where r: "dec raw = Inr r" "rid r = i"
      using dec live_raw_history [OF Some] by blast
    have "kind_built key dec tags (es @ [(key i, st)]) (idx_add_all (tags r) i cur, hist')"
      using built hist_ok h(2) Some r by (auto simp: kind_built_def ix inj wf intro: idx_wf_add_all)
    with h(1) r show ?thesis by (simp add: rebuild_record_def ix live Some)
  qed
qed

lemma kind_built_other:
  assumes "kind_built key dec tags es ix" "\<And>i. k \<noteq> key i"
  shows "kind_built key dec tags (es @ [(k, st)]) ix"
proof -
  have mem: "(key j, st') \<in> set (es @ [(k, st)]) \<longleftrightarrow> (key j, st') \<in> set es" for j st'
    using assms(2) [of j] by auto
  show ?thesis using assms(1) unfolding kind_built_def mem .
qed

lemma starts_with_kind:
  "starts_with k ''node:'' \<longleftrightarrow> (\<exists>i. k = node_logical_key i)"
  "starts_with k ''edge:'' \<longleftrightarrow> (\<exists>i. k = edge_logical_key i)"
  by (auto simp: starts_with_def strip_prefix_opt_Some node_logical_key_def edge_logical_key_def)

lemma rebuild_all:
  assumes ok: "mvcc_ok c s" and sub: "set es \<subseteq> set (ms_values s)"
  shows "\<exists>ix. fold_result (rebuild_key c) es (([], []), ([], [])) = Inr ix \<and>
    kind_built node_logical_key (dec_node c) nr_labels es (fst ix) \<and>
    kind_built edge_logical_key (dec_edge c) edge_tags es (snd ix)"
  using sub
proof (induction es rule: rev_induct)
  case Nil
  then show ?case by (simp add: kind_built_def)
next
  case (snoc e es)
  obtain k st where e: "e = (k, st)" by (cases e)
  obtain nodes edges where ix: "fold_result (rebuild_key c) es (([], []), ([], [])) = Inr (nodes, edges)"
    "kind_built node_logical_key (dec_node c) nr_labels es nodes"
    "kind_built edge_logical_key (dec_edge c) edge_tags es edges"
    using snoc by auto
  have step: "fold_result (rebuild_key c) (es @ [e]) (([], []), ([], [])) = rebuild_key c (k, st) (nodes, edges)"
    by (cases "rebuild_key c (k, st) (nodes, edges)") (simp_all add: fold_result_append ix(1) e)
  have wf: "bt_wf (ms_values s)" using ok by (simp add: mvcc_ok_def versions_ok_def)
  have get: "bt_get (ms_values s) k = Some st"
    using snoc.prems by (simp add: e bt_get_Some_iff [OF wf])
  then have st: "ks_wf st" using ok by (auto simp: mvcc_ok_def versions_ok_def)
  consider (node) i where "k = node_logical_key i" | (edge) i where "k = edge_logical_key i"
    | (other) "\<And>i. k \<noteq> node_logical_key i" "\<And>i. k \<noteq> edge_logical_key i" by blast
  then show ?case
  proof cases
    case (node i)
    have "\<forall>v raw. (v, Some raw) \<in> set (ks_history st) \<longrightarrow> (\<exists>r. dec_node c raw = Inr r \<and> nr_id r = i)"
      using ok node_kind.kind_retained get unfolding mvcc_ok_def node by blast
    from rebuild_record_built [where live = "current_live_node_from_state c", OF logical_key_inj(1) ix(2) this
        current_live_raw(1) [OF st]]
    show ?thesis
      using kind_built_other [OF ix(3), of k st] unfolding step
      by (cases edges) (auto simp: rebuild_key_def starts_with_kind node e)
  next
    case (edge i)
    have "\<forall>v raw. (v, Some raw) \<in> set (ks_history st) \<longrightarrow> (\<exists>r. dec_edge c raw = Inr r \<and> er_id r = i)"
      using ok edge_kind.kind_retained [of c "ms_values s" _ _ i st] get unfolding mvcc_ok_def edge by blast
    from rebuild_record_built [where live = "current_live_edge_from_state c", OF logical_key_inj(2) ix(3) this
        current_live_raw(2) [OF st]]
    show ?thesis
      using kind_built_other [OF ix(2), of k st] unfolding step
      by (cases nodes) (auto simp: rebuild_key_def starts_with_kind edge e)
  next
    case other
    then show ?thesis
      using kind_built_other [OF ix(2), of k st] kind_built_other [OF ix(3), of k st]
      unfolding step by (simp add: rebuild_key_def starts_with_kind e)
  qed
qed

lemma kind_built_inv:
  assumes inv: "kind_inv key dec rid tags values cur hist" and wf: "bt_wf values"
    and built: "kind_built key dec tags values ix"
  shows "kind_inv key dec rid tags values (fst ix) (snd ix)" and "fst ix = cur"
proof -
  have get: "(k, st) \<in> set values \<longleftrightarrow> bt_get values k = Some st" for k st
    by (simp add: bt_get_Some_iff [OF wf])
  show "kind_inv key dec rid tags values (fst ix) (snd ix)"
    unfolding kind_inv_def
  proof (intro conjI allI impI)
    fix i st v raw assume a: "bt_get values (key i) = Some st" "(v, Some raw) \<in> set (ks_history st)"
    with inv obtain r where r: "dec raw = Inr r" "rid r = i" unfolding kind_inv_def by blast
    moreover have "\<forall>t\<in>set (tags r). idx_has (snd ix) t i"
      using built a r unfolding kind_built_def get by blast
    ultimately show "\<exists>r. dec raw = Inr r \<and> rid r = i \<and> (\<forall>t\<in>set (tags r). idx_has (snd ix) t i)" by blast
  qed (use built in \<open>simp_all add: kind_built_def get\<close>)
  show "fst ix = cur"
    using inv built unfolding kind_inv_def kind_built_def get by (intro idx_ext) simp_all
qed

lemma map_result_total:
  assumes "\<And>x. x \<in> set xs \<Longrightarrow> f x = Inr (g x)" shows "map_result f xs = Inr (map g xs)"
  using assms by (induction xs) simp_all

lemma decode_encoded_states:
  assumes "persist_ok p" "encoded_states_of p values = Inr entries"
  shows "map_result (\<lambda>(key, value). result_bind (dec_state p value) (\<lambda>st. Inr (key, st))) entries =
    Inr (map (\<lambda>(k, st). (k, strip_current st)) values)"
proof -
  have "list_all2 (\<lambda>x y. (case x of (key, st) \<Rightarrow> result_bind (encode_persisted_mvcc_key_state p st) (\<lambda>raw. Inr (key, raw))) = Inr y)
      values entries"
    using assms(2) by (simp add: encoded_states_of_def map_result_Inr_iff)
  then show ?thesis
  proof (induction rule: list_all2_induct)
    case (Cons x xs y ys)
    obtain k st where x: "x = (k, st)" by (cases x)
    obtain raw where raw: "enc_state p (strip_current st) = Inr raw" "y = (k, raw)"
      using Cons.hyps(1) by (auto simp: x result_bind_Inr_iff encode_persisted_mvcc_key_state_def)
    have "dec_state p raw = Inr (strip_current st)" using assms(1) raw(1) by (simp add: persist_ok_def)
    with Cons.IH show ?case by (simp add: x raw(2))
  qed simp
qed

lemma restore_encoded:
  assumes ok: "mvcc_ok c s" "persist_ok p"
    and enc: "encoded_persisted_head p s = Inr hb" "encoded_persisted_states p s = Inr entries"
    and resolve: "\<forall>k st. bt_get (ms_values s) k = Some st \<longrightarrow> resolve k = Inr (live_raw st)"
  shows "\<exists>s'. restore_persisted_entries c p hb entries resolve t = Inr s' \<and> mvcc_ok c s' \<and>
    ms_values s' = ms_values s \<and> ms_current_version s' = ms_current_version s \<and> ms_floor s' = ms_floor s \<and>
    ms_current_node_labels s' = ms_current_node_labels s \<and> ms_current_edge_types s' = ms_current_edge_types s \<and>
    ms_active_readers s' = []"
proof -
  let ?strip = "\<lambda>(k, st). (k, strip_current st)"
  have wf: "bt_wf (ms_values s)" using ok by (simp add: mvcc_ok_def versions_ok_def)
  have head: "dec_phead p hb = Inr \<lparr>ph_current_version = ms_current_version s, ph_floor = ms_floor s\<rparr>"
    using ok(2) enc(1) by (simp add: persist_ok_def encoded_persisted_head_def)
  have "map ?strip (ms_values s) = bt_map_values (\<lambda>_. strip_current) (ms_values s)"
    by (simp add: bt_map_values_def)
  then have "bt_wf (map ?strip (ms_values s))" using wf by (simp add: bt_wf_map_values)
  then have ext: "bt_extend [] (map ?strip (ms_values s)) = map ?strip (ms_values s)"
    by (rule bt_get_extend_empty)
  have "resolve_state resolve (?strip e) = Inr e" if "e \<in> set (ms_values s)" for e
  proof -
    obtain k st where e: "e = (k, st)" by (cases e)
    then have "bt_get (ms_values s) k = Some st" using that by (simp add: bt_get_Some_iff [OF wf])
    then have "ks_wf st" "resolve k = Inr (live_raw st)"
      using ok(1) resolve by (auto simp: mvcc_ok_def versions_ok_def)
    then show ?thesis by (simp add: e resolve_strip)
  qed
  then have res: "map_result (resolve_state resolve) (map ?strip (ms_values s)) = Inr (ms_values s)"
    using map_result_total [of "ms_values s" "\<lambda>e. resolve_state resolve (?strip e)" "\<lambda>e. e"]
    by (simp add: map_result_Inr_iff list_all2_map1 list.rel_map)
  obtain nodes edges where ix: "fold_result (rebuild_key c) (ms_values s) (([], []), ([], [])) = Inr (nodes, edges)"
    "kind_built node_logical_key (dec_node c) nr_labels (ms_values s) nodes"
    "kind_built edge_logical_key (dec_edge c) edge_tags (ms_values s) edges"
    using rebuild_all [OF ok(1) order_refl] by auto
  have inv: "kind_inv node_logical_key (dec_node c) nr_id nr_labels
       (ms_values s) (ms_current_node_labels s) (ms_node_label_history s)"
    "kind_inv edge_logical_key (dec_edge c) er_id edge_tags
       (ms_values s) (ms_current_edge_types s) (ms_edge_type_history s)"
    using ok(1) by (simp_all add: mvcc_ok_def)
  note n = kind_built_inv [OF inv(1) wf ix(2)] and e = kind_built_inv [OF inv(2) wf ix(3)]
  let ?s' = "t\<lparr>ms_current_version := ms_current_version s, ms_floor := ms_floor s, ms_values := ms_values s,
       ms_current_node_labels := fst nodes, ms_node_label_history := snd nodes,
       ms_current_edge_types := fst edges, ms_edge_type_history := snd edges, ms_active_readers := []\<rparr>"
  have "restore_persisted_entries c p hb entries resolve t = Inr ?s'"
    by (cases nodes; cases edges)
      (simp add: restore_persisted_entries_def head ext res ix(1)
        decode_encoded_states [OF ok(2) enc(2) [unfolded encoded_persisted_states_def]])
  moreover have "mvcc_ok c ?s'"
    using n(1) e(1) mvcc_ok_versions [OF ok(1)] by (simp add: mvcc_ok_def versions_ok_def)
  ultimately show ?thesis using n(2) e(2) by (intro exI [of _ ?s']) simp
qed

subsection \<open>Properties\<close>

text \<open>
  C8: Publishing a staged batch is exactly the sequence of its mutations at the one new version: it
  keeps the invariant, a snapshot older than that version sees none of it, and from that version on
  the graph is the old one with all the mutations applied in order.
\<close>

theorem publish_batch_atomic:
  assumes "mvcc_ok c s" "codec_ok c" "ms_current_version s < u64_max" "fresh_keys_absent (ms_values s) ms"
    "staged_record_batch c ms s = Inr staged" "ms \<noteq> []"
  shows "mvcc_ok c (publish_record_batch staged s) \<and>
    ms_current_version (publish_record_batch staged s) = ms_current_version s + 1 \<and>
    publish_record_batch staged s =
      batch_at c (ms_current_version s + 1) ms (s\<lparr>ms_current_version := ms_current_version s + 1\<rparr>) \<and>
    (\<forall>ts. node_at c (publish_record_batch staged s) ts =
        (if ms_current_version s < ts then fold apply_node ms (node_at c s ts) else node_at c s ts) \<and>
      edge_at c (publish_record_batch staged s) ts =
        (if ms_current_version s < ts then fold apply_edge ms (edge_at c s ts) else edge_at c s ts))"
  using publish_batch_ok [OF assms(1-5)] assms(6) by (simp add: Suc_le_eq)

lemma sample_store_values:
  "ms_values sample_store =
     [(''node:a'', \<lparr>ks_head = Some \<lparr>lsh_floor = 1, lsh_head = 1, lsh_tombstoned = False, lsh_current = Some [1]\<rparr>, ks_archived = []\<rparr>),
      (''node:b'', \<lparr>ks_head = Some \<lparr>lsh_floor = 2, lsh_head = 2, lsh_tombstoned = False, lsh_current = Some [3]\<rparr>, ks_archived = []\<rparr>)]"
  by (simp add: sample_store_def put_node_record_def put_node_record_at_def fetch_version_def wadd64_def
      mvcc_default_def live_node_at_def append_at_def key_or_default_def key_evals bt_get_def node_logical_key_def)

definition sample_batch :: "unit record_mutation list" where
  "sample_batch = [PutNode (sample_node ''a'' [''Q'']), DeleteNode ''b'']"

theorem publish_batch_atomic_witness:
  "\<exists>staged. staged_record_batch sample_codec sample_batch sample_store = Inr staged \<and>
     node_at sample_codec (publish_record_batch staged sample_store) 3 = [''a'' \<mapsto> sample_node ''a'' [''Q'']] \<and>
     node_at sample_codec (publish_record_batch staged sample_store) 2 = node_at sample_codec sample_store 2"
proof -
  have v: "batch_version sample_store sample_batch = 3"
    by (simp add: batch_version_def sample_batch_def wadd64_def)
  have "\<exists>staged. staged_record_batch sample_codec sample_batch sample_store = Inr staged"
    unfolding staged_record_batch_def v
    by (simp add: sample_batch_def sample_store_values stage_mutation_def stage_put_node_def mutation_key_def
        staged_state_def is_fresh_def key_or_default_def bt_get_def current_live_node_from_state_def
        node_logical_key_def bt_insert_def)
  then obtain staged where st: "staged_record_batch sample_codec sample_batch sample_store = Inr staged" ..
  have pre: "ms_current_version sample_store < u64_max" "fresh_keys_absent (ms_values sample_store) sample_batch"
    "sample_batch \<noteq> []"
    by (simp_all add: u64_max_def fresh_keys_absent_def sample_batch_def is_fresh_def)
  note r = publish_batch_atomic [OF sample_store_ok(1) codec_ok_sample pre(1,2) st pre(3)]
  have g: "node_at sample_codec (publish_record_batch staged sample_store) ts =
      (if 2 < ts then fold apply_node sample_batch (node_at sample_codec sample_store ts)
       else node_at sample_codec sample_store ts)" for ts
    using r unfolding sample_store_ok(2) by blast
  have "node_at sample_codec (publish_record_batch staged sample_store) 3 = [''a'' \<mapsto> sample_node ''a'' [''Q'']]"
    unfolding g by (simp add: sample_batch_def fun_eq_iff)
  moreover have "node_at sample_codec (publish_record_batch staged sample_store) 2 = node_at sample_codec sample_store 2"
    unfolding g by simp
  ultimately show ?thesis using st by blast
qed

text \<open>
  C9: Restoring what was persisted gives the store back: the same versioned keys, counter and floor,
  current indices equal to the live ones, history indices that are complete again, and no reader;
  so every graph it shows is the graph the store showed.
\<close>

theorem restore_persisted_roundtrip:
  assumes "mvcc_ok c s" "persist_ok p"
    "encoded_persisted_head p s = Inr hb" "encoded_persisted_states p s = Inr entries"
    "\<forall>k st. bt_get (ms_values s) k = Some st \<longrightarrow> resolve k = Inr (live_raw st)"
  shows "\<exists>s'. restore_persisted_entries c p hb entries resolve t = Inr s' \<and> mvcc_ok c s' \<and>
    ms_values s' = ms_values s \<and> ms_current_version s' = ms_current_version s \<and> ms_floor s' = ms_floor s \<and>
    ms_current_node_labels s' = ms_current_node_labels s \<and> ms_current_edge_types s' = ms_current_edge_types s \<and>
    oldest_active_reader s' = None \<and>
    (\<forall>ts. node_at c s' ts = node_at c s ts \<and> edge_at c s' ts = edge_at c s ts)"
proof -
  obtain s' where s': "restore_persisted_entries c p hb entries resolve t = Inr s'" "mvcc_ok c s'"
    "ms_values s' = ms_values s" "ms_current_version s' = ms_current_version s" "ms_floor s' = ms_floor s"
    "ms_current_node_labels s' = ms_current_node_labels s" "ms_current_edge_types s' = ms_current_edge_types s"
    "ms_active_readers s' = []"
    using restore_encoded [OF assms] by blast
  have "node_at c s' ts = node_at c s ts" "edge_at c s' ts = edge_at c s ts" for ts
    using read_key_cong [OF s'(3)] by (intro graph_cong; simp)+
  with s' show ?thesis by (intro exI [of _ s']) (simp add: oldest_active_reader_def bt_keys_def)
qed

text \<open>A persistence codec for the witness: a table of the sample's head and keys.\<close>

definition sample_stripped :: "nat \<Rightarrow> key_state" where
  "sample_stripped v = \<lparr>ks_head = Some \<lparr>lsh_floor = v, lsh_head = v, lsh_tombstoned = False, lsh_current = None\<rparr>, ks_archived = []\<rparr>"

definition sample_phead :: persisted_head where
  "sample_phead = \<lparr>ph_current_version = 2, ph_floor = 0\<rparr>"

definition sample_persist :: persist_codec where
  "sample_persist =
     \<lparr>enc_state = (\<lambda>st. if st = sample_stripped 1 then Inr [1] else if st = sample_stripped 2 then Inr [2]
                       else Inl (Serialization ''unknown'')),
      dec_state = (\<lambda>raw. if raw = [1] then Inr (sample_stripped 1) else if raw = [2] then Inr (sample_stripped 2)
                       else Inl (Deserialization ''unknown'')),
      enc_phead = (\<lambda>h. if h = sample_phead then Inr [9] else Inl (Serialization ''unknown'')),
      dec_phead = (\<lambda>raw. if raw = [9] then Inr sample_phead else Inl (Deserialization ''unknown''))\<rparr>"

lemma sample_persist_ok: "persist_ok sample_persist"
  by (auto simp: persist_ok_def sample_persist_def split: if_splits)

theorem restore_persisted_roundtrip_witness:
  "\<exists>s'. restore_persisted_entries sample_codec sample_persist [9] [(''node:a'', [1]), (''node:b'', [2])]
      (\<lambda>k. if k = ''node:a'' then Inr (Some [1]) else Inr (Some [3])) mvcc_default = Inr s' \<and>
    (\<forall>ts. node_at sample_codec s' ts = node_at sample_codec sample_store ts)"
proof -
  have floor: "ms_floor sample_store = 0"
    by (simp add: sample_store_def put_node_record_def put_node_record_at_def fetch_version_def
        mvcc_default_def live_node_at_def append_at_def key_or_default_def key_evals bt_get_def wadd64_def)
  have h: "encoded_persisted_head sample_persist sample_store = Inr [9]"
    by (simp add: encoded_persisted_head_def floor sample_persist_def sample_phead_def)
  have e: "encoded_persisted_states sample_persist sample_store = Inr [(''node:a'', [1]), (''node:b'', [2])]"
    by (simp add: encoded_persisted_states_def encoded_states_of_def sample_store_values
        encode_persisted_mvcc_key_state_def strip_current_def sample_persist_def sample_stripped_def)
  have "\<forall>k st. bt_get (ms_values sample_store) k = Some st \<longrightarrow>
      (\<lambda>k. if k = ''node:a'' then Inr (Some [1]) else Inr (Some [3])) k = (Inr (live_raw st) :: storage_error + bytes option)"
    by (auto simp: sample_store_values bt_get_def live_raw_def split: if_splits)
  from restore_persisted_roundtrip [OF sample_store_ok(1) sample_persist_ok h e this, of mvcc_default]
  show ?thesis by blast
qed

end
