(* ===== verification/Mvcc_Namespace.thy ===== *)
theory Mvcc_Namespace
  imports Mvcc_Batch
begin

text \<open>
  \<open>NamespacedMvccStore\<close> of crates/storage/src/mvcc.rs: a view of the store in which every record id
  carries the prefix \<open>namespace:\<close>. The prefix is added only when it is not there already and taken
  off on the way out. A view is modelled by its prefix; the inner store is passed as elsewhere.
\<close>

subsection \<open>The view\<close>

definition ns_prefix :: "string \<Rightarrow> string" where
  "ns_prefix namespace = namespace @ '':''"

definition in_namespace :: "string \<Rightarrow> string \<Rightarrow> bool" where
  "in_namespace ns i = starts_with i (ns_prefix ns)"

definition prefix_id :: "string \<Rightarrow> string \<Rightarrow> string" where
  "prefix_id ns i = (if in_namespace ns i then i else ns_prefix ns @ i)"

definition unprefix_id :: "string \<Rightarrow> string \<Rightarrow> string" where
  "unprefix_id ns i = (case strip_prefix_opt (ns_prefix ns) i of Some rest \<Rightarrow> rest | None \<Rightarrow> i)"

definition to_user_node :: "string \<Rightarrow> 'j node_record \<Rightarrow> 'j node_record" where
  "to_user_node ns node = node\<lparr>nr_id := unprefix_id ns (nr_id node)\<rparr>"

definition to_user_edge :: "string \<Rightarrow> 'j edge_record \<Rightarrow> 'j edge_record" where
  "to_user_edge ns edge = edge\<lparr>er_id := unprefix_id ns (er_id edge),
     er_start_node := unprefix_id ns (er_start_node edge), er_end_node := unprefix_id ns (er_end_node edge)\<rparr>"

definition logical_key_in_namespace :: "string \<Rightarrow> string \<Rightarrow> bool" where
  "logical_key_in_namespace ns logical_key = key_in_prefix (ns_prefix ns) logical_key"

definition strip_namespace_from_logical_key :: "string \<Rightarrow> string \<Rightarrow> string" where
  "strip_namespace_from_logical_key ns logical_key =
     (case split_once (CHR '':'') logical_key of
        None \<Rightarrow> logical_key | Some (kind, i) \<Rightarrow> kind @ '':'' @ unprefix_id ns i)"

definition map_ok :: "('a \<Rightarrow> 'b) \<Rightarrow> 'e + 'a \<Rightarrow> 'e + 'b" where
  "map_ok f r = result_bind r (\<lambda>x. Inr (f x))"

lemma map_ok_simps [simp]: "map_ok f (Inr x) = Inr (f x)" "map_ok f (Inl e) = Inl e"
  by (simp_all add: map_ok_def)

definition ns_put_node_record ::
    "'j codec \<Rightarrow> string \<Rightarrow> 'j node_record \<Rightarrow> mvcc_store \<Rightarrow> mvcc_store \<times> (storage_error + nat)" where
  "ns_put_node_record c ns node s = put_node_record c (node\<lparr>nr_id := prefix_id ns (nr_id node)\<rparr>) s"

definition ns_get_node_record_visible_at ::
    "'j codec \<Rightarrow> string \<Rightarrow> mvcc_store \<Rightarrow> mvcc_snapshot \<Rightarrow> string \<Rightarrow> storage_error + 'j node_record option" where
  "ns_get_node_record_visible_at c ns s snap i =
     map_ok (map_option (to_user_node ns)) (get_node_record_visible_at c s snap (prefix_id ns i))"

definition ns_get_node_record ::
    "'j codec \<Rightarrow> string \<Rightarrow> mvcc_store \<Rightarrow> string \<Rightarrow> storage_error + 'j node_record option" where
  "ns_get_node_record c ns s i = map_ok (map_option (to_user_node ns)) (get_node_record c s (prefix_id ns i))"

definition ns_delete_node_record ::
    "'j codec \<Rightarrow> string \<Rightarrow> string \<Rightarrow> mvcc_store \<Rightarrow> mvcc_store \<times> (storage_error + nat)" where
  "ns_delete_node_record c ns i s = delete_node_record c (prefix_id ns i) s"

definition ns_get_nodes_by_label ::
    "'j codec \<Rightarrow> string \<Rightarrow> mvcc_store \<Rightarrow> string \<Rightarrow> storage_error + 'j node_record list" where
  "ns_get_nodes_by_label c ns s label =
     map_ok (\<lambda>nodes. map (to_user_node ns) (filter (\<lambda>node. in_namespace ns (nr_id node)) nodes))
       (get_nodes_by_label c s label)"

definition ns_get_nodes_by_label_visible_at ::
    "'j codec \<Rightarrow> string \<Rightarrow> mvcc_store \<Rightarrow> mvcc_snapshot \<Rightarrow> string \<Rightarrow> storage_error + 'j node_record list" where
  "ns_get_nodes_by_label_visible_at c ns s snap label =
     map_ok (\<lambda>nodes. map (to_user_node ns) (filter (\<lambda>node. in_namespace ns (nr_id node)) nodes))
       (get_nodes_by_label_visible_at c s snap label)"

definition ns_put_edge_record ::
    "'j codec \<Rightarrow> string \<Rightarrow> 'j edge_record \<Rightarrow> mvcc_store \<Rightarrow> mvcc_store \<times> (storage_error + nat)" where
  "ns_put_edge_record c ns edge s = put_edge_record c (edge\<lparr>er_id := prefix_id ns (er_id edge),
     er_start_node := prefix_id ns (er_start_node edge), er_end_node := prefix_id ns (er_end_node edge)\<rparr>) s"

definition ns_get_edge_record ::
    "'j codec \<Rightarrow> string \<Rightarrow> mvcc_store \<Rightarrow> string \<Rightarrow> storage_error + 'j edge_record option" where
  "ns_get_edge_record c ns s i = map_ok (map_option (to_user_edge ns)) (get_edge_record c s (prefix_id ns i))"

definition ns_get_edge_record_visible_at ::
    "'j codec \<Rightarrow> string \<Rightarrow> mvcc_store \<Rightarrow> mvcc_snapshot \<Rightarrow> string \<Rightarrow> storage_error + 'j edge_record option" where
  "ns_get_edge_record_visible_at c ns s snap i =
     map_ok (map_option (to_user_edge ns)) (get_edge_record_visible_at c s snap (prefix_id ns i))"

definition ns_delete_edge_record ::
    "'j codec \<Rightarrow> string \<Rightarrow> string \<Rightarrow> mvcc_store \<Rightarrow> mvcc_store \<times> (storage_error + nat)" where
  "ns_delete_edge_record c ns i s = delete_edge_record c (prefix_id ns i) s"

definition ns_get_edges_by_type ::
    "'j codec \<Rightarrow> string \<Rightarrow> mvcc_store \<Rightarrow> string \<Rightarrow> storage_error + 'j edge_record list" where
  "ns_get_edges_by_type c ns s edge_type =
     map_ok (\<lambda>edges. map (to_user_edge ns) (filter (\<lambda>edge. in_namespace ns (er_id edge)) edges))
       (get_edges_by_type c s edge_type)"

definition ns_get_edges_by_type_visible_at ::
    "'j codec \<Rightarrow> string \<Rightarrow> mvcc_store \<Rightarrow> mvcc_snapshot \<Rightarrow> string \<Rightarrow> storage_error + 'j edge_record list" where
  "ns_get_edges_by_type_visible_at c ns s snap edge_type =
     map_ok (\<lambda>edges. map (to_user_edge ns) (filter (\<lambda>edge. in_namespace ns (er_id edge)) edges))
       (get_edges_by_type_visible_at c s snap edge_type)"

definition ns_top_lifecycle_debt_keys :: "string \<Rightarrow> nat \<Rightarrow> mvcc_store \<Rightarrow> lifecycle_debt_key list" where
  "ns_top_lifecycle_debt_keys ns limit s =
     take limit (List.map_filter (\<lambda>debt.
         if \<not> logical_key_in_namespace ns (ld_logical_key debt) then None
         else Some (debt\<lparr>ld_logical_key := strip_namespace_from_logical_key ns (ld_logical_key debt)\<rparr>))
       (top_lifecycle_debt_keys (max (min u64_max (limit * 4)) limit) s))"

subsection \<open>Ids\<close>

lemma in_namespace_iff: "in_namespace ns i \<longleftrightarrow> (\<exists>rest. i = ns @ CHR '':'' # rest)"
  by (auto simp: in_namespace_def starts_with_def strip_prefix_opt_Some ns_prefix_def)

lemma prefix_id_in [simp]: "in_namespace ns (prefix_id ns i)"
  by (auto simp: prefix_id_def in_namespace_iff ns_prefix_def)

lemma unprefix_prefix: "\<not> in_namespace ns i \<Longrightarrow> unprefix_id ns (prefix_id ns i) = i"
  by (simp add: prefix_id_def unprefix_id_def)

lemma unprefix_own [simp]: "unprefix_id ns (ns @ CHR '':'' # rest) = rest"
  using strip_prefix_opt_append [of "ns_prefix ns" rest] by (simp add: unprefix_id_def ns_prefix_def)

lemma append_colon_eq:
  "CHR '':'' \<notin> set a \<Longrightarrow> CHR '':'' \<notin> set b \<Longrightarrow> a @ CHR '':'' # x = b @ CHR '':'' # y \<Longrightarrow> a = b"
proof (induction a arbitrary: b)
  case Nil
  then show ?case by (cases b) auto
next
  case (Cons c a)
  then show ?case by (cases b) auto
qed

text \<open>Namespaces without a colon partition the ids.\<close>

lemma namespaces_disjoint:
  assumes "CHR '':'' \<notin> set a" "CHR '':'' \<notin> set b" "a \<noteq> b" "in_namespace a i"
  shows "\<not> in_namespace b i"
  using assms append_colon_eq by (auto simp: in_namespace_iff)

lemma prefix_id_neq:
  assumes "CHR '':'' \<notin> set a" "CHR '':'' \<notin> set b" "a \<noteq> b"
  shows "prefix_id a i \<noteq> prefix_id b j"
  using namespaces_disjoint [OF assms, of "prefix_id a i"] prefix_id_in [of b j] by (metis prefix_id_in)

subsection \<open>Properties\<close>

text \<open>
  C10: Two namespaces whose names contain no colon are isolated: a node written, or deleted, through
  one is read back through it under the user's id and changes nothing the other one reads, at any
  version.
\<close>

theorem namespace_isolation:
  assumes "mvcc_ok c s" "codec_ok c" "ms_current_version s < u64_max"
    "CHR '':'' \<notin> set a" "CHR '':'' \<notin> set b" "a \<noteq> b" "\<not> in_namespace a (nr_id n)"
    "enc_node c (n\<lparr>nr_id := prefix_id a (nr_id n)\<rparr>) = Inr raw"
  shows "ns_get_node_record c a (fst (ns_put_node_record c a n s)) (nr_id n) = Inr (Some n) \<and>
    (\<forall>snap j. ns_get_node_record_visible_at c b (fst (ns_put_node_record c a n s)) snap j =
       ns_get_node_record_visible_at c b s snap j) \<and>
    ns_get_node_record c a (fst (ns_delete_node_record c a i s)) i = Inr None \<and>
    (\<forall>snap j. ns_get_node_record_visible_at c b (fst (ns_delete_node_record c a i s)) snap j =
       ns_get_node_record_visible_at c b s snap j)"
proof -
  let ?n = "n\<lparr>nr_id := prefix_id a (nr_id n)\<rparr>" and ?v = "ms_current_version s"
  obtain p where p: "put_node_record c ?n s = (p, Inr (Suc ?v))" "mvcc_ok c p"
    "writes_key s p (node_logical_key (nr_id ?n)) (Some raw)"
    using put_node_record_ok [OF assms(1-3,8)] by blast
  obtain d where d: "delete_node_record c (prefix_id a i) s = (d, Inr (Suc ?v))" "mvcc_ok c d"
    "writes_key s d (node_logical_key (prefix_id a i)) None"
    using delete_node_record_ok [OF assms(1-3)] by blast
  have dec: "dec_node c raw = Inr ?n" using assms(2,8) by (simp add: codec_ok_def)
  note other = prefix_id_neq [OF assms(5,4) assms(6) [symmetric]]
  have cv: "ms_current_version p = Suc ?v" "ms_current_version d = Suc ?v"
    using p(3) d(3) by (simp_all add: writes_key_def)
  have "to_user_node a ?n = n"
    using assms(7) by (simp add: to_user_node_def unprefix_prefix)
  then have "ns_get_node_record c a p (nr_id n) = Inr (Some n)"
    by (simp add: ns_get_node_record_def get_node_record_def get_node_record_visible_at_eq [OF p(2)]
        begin_snapshot_def writes_node_at(1) [OF p(3)] cv dec)
  moreover have "ns_get_node_record c a d i = Inr None"
    by (simp add: ns_get_node_record_def get_node_record_def get_node_record_visible_at_eq [OF d(2)]
        begin_snapshot_def writes_node_at(1) [OF d(3)] cv)
  moreover have "ns_get_node_record_visible_at c b p snap j = ns_get_node_record_visible_at c b s snap j"
    "ns_get_node_record_visible_at c b d snap j = ns_get_node_record_visible_at c b s snap j" for snap j
    by (simp_all add: ns_get_node_record_visible_at_def get_node_record_visible_at_eq [OF p(2)]
        get_node_record_visible_at_eq [OF d(2)] get_node_record_visible_at_eq [OF assms(1)]
        writes_node_at(1) [OF p(3)] writes_node_at(1) [OF d(3)] other)
  ultimately show ?thesis
    by (simp add: ns_put_node_record_def ns_delete_node_record_def p(1) d(1))
qed

definition sample_ns_codec :: "unit codec" where
  "sample_ns_codec = sample_codec
     \<lparr>enc_node := (\<lambda>n. if n = sample_node ''a:x'' [''P''] then Inr [1]
                       else if n = sample_node ''a:b:x'' [''P''] then Inr [2] else Inl (Serialization ''unknown'')),
      dec_node := (\<lambda>raw. if raw = [1] then Inr (sample_node ''a:x'' [''P''])
                       else if raw = [2] then Inr (sample_node ''a:b:x'' [''P'']) else Inl (Deserialization ''unknown''))\<rparr>"

lemma sample_ns_codec_ok: "codec_ok sample_ns_codec"
  by (auto simp: codec_ok_def sample_ns_codec_def sample_codec_def split: if_splits)

theorem namespace_isolation_witness:
  "ns_get_node_record sample_ns_codec ''a''
     (fst (ns_put_node_record sample_ns_codec ''a'' (sample_node ''x'' [''P'']) mvcc_default)) ''x'' =
     Inr (Some (sample_node ''x'' [''P'']))"
proof -
  have cv: "ms_current_version mvcc_default < u64_max" by (simp add: u64_max_def)
  have out: "\<not> in_namespace ''a'' (nr_id (sample_node ''x'' [''P'']))"
    by (simp add: in_namespace_def starts_with_def ns_prefix_def)
  have enc: "enc_node sample_ns_codec ((sample_node ''x'' [''P''])\<lparr>nr_id := prefix_id ''a'' (nr_id (sample_node ''x'' [''P'']))\<rparr>) = Inr [1]"
    using out by (simp add: prefix_id_def ns_prefix_def sample_ns_codec_def) (simp add: sample_node_def)
  show ?thesis
    using namespace_isolation [OF mvcc_ok_default sample_ns_codec_ok cv _ _ _ out enc, of "''b''"] by simp
qed

text \<open>
  A colon in a namespace's name breaks the isolation. A node x written in namespace \<open>a:b\<close> is
  readable in namespace \<open>a\<close> as \<open>b:x\<close> and appears in its label lookups; and inside one namespace the
  ids \<open>x\<close> and \<open>a:x\<close> name the same record.
\<close>

theorem namespace_colon_aliasing:
  "(let s = fst (ns_put_node_record sample_ns_codec ''a:b'' (sample_node ''x'' [''P'']) mvcc_default) in
     ns_get_node_record sample_ns_codec ''a'' s ''b:x'' = Inr (Some (sample_node ''b:x'' [''P''])) \<and>
     ns_get_nodes_by_label sample_ns_codec ''a'' s ''P'' = Inr [sample_node ''b:x'' [''P'']]) \<and>
   prefix_id ''a'' ''x'' = prefix_id ''a'' ''a:x''"
proof -
  let ?k = "sample_node ''a:b:x'' [''P'']"
  have pre: "(sample_node ''x'' [''P''])\<lparr>nr_id := prefix_id ''a:b'' (nr_id (sample_node ''x'' [''P'']))\<rparr> = ?k"
    by (simp add: prefix_id_def in_namespace_def starts_with_def ns_prefix_def) (simp add: sample_node_def)
  have user: "to_user_node ''a'' ?k = sample_node ''b:x'' [''P'']"
    by (simp add: to_user_node_def unprefix_id_def ns_prefix_def) (simp add: sample_node_def)
  have pid: "prefix_id ''a'' ''b:x'' = ''a:b:x''" "in_namespace ''a'' ''a:b:x''"
    by (simp_all add: prefix_id_def in_namespace_def starts_with_def ns_prefix_def)
  have cv: "ms_current_version mvcc_default < u64_max" by (simp add: u64_max_def)
  have enc: "enc_node sample_ns_codec ?k = Inr [2]" by (simp add: sample_ns_codec_def)
  obtain p where p: "put_node_record sample_ns_codec ?k mvcc_default = (p, Inr (Suc 0))" "mvcc_ok sample_ns_codec p"
    "writes_key mvcc_default p (node_logical_key ''a:b:x'') (Some [2])"
    using put_node_record_ok [OF mvcc_ok_default sample_ns_codec_ok cv enc] by auto
  have cvp: "ms_current_version p = 1" using p(3) by (simp add: writes_key_def)
  have g: "node_at sample_ns_codec p 1 = [''a:b:x'' \<mapsto> ?k]"
    by (simp add: writes_node_at(1) [OF p(3)] sample_ns_codec_def)
  have get: "ns_get_node_record sample_ns_codec ''a'' p ''b:x'' = Inr (Some (sample_node ''b:x'' [''P'']))"
    by (simp add: ns_get_node_record_def get_node_record_def get_node_record_visible_at_eq [OF p(2)]
        begin_snapshot_def cvp pid user g [unfolded One_nat_def])
  obtain ns where ns: "get_nodes_by_label sample_ns_codec p ''P'' = Inr ns"
    "sorted_wrt (<) (map nr_id ns)" "set ns = {r \<in> ran (node_at sample_ns_codec p 1). ''P'' \<in> set (nr_labels r)}"
    using current_lookup_nodes [OF p(2), of "''P''"] unfolding lists_exactly_def cvp ran_sample by blast
  have "set ns = {?k}" unfolding ns(3) g by auto
  moreover have "distinct ns"
    using ns(2) by (simp add: strict_sorted_iff distinct_map)
  ultimately have "ns = [?k]"
    by (cases ns rule: list.exhaust; cases "tl ns") auto
  with ns(1) have "ns_get_nodes_by_label sample_ns_codec ''a'' p ''P'' = Inr [sample_node ''b:x'' [''P'']]"
    by (simp add: ns_get_nodes_by_label_def pid user)
  moreover have "prefix_id ''a'' ''x'' = prefix_id ''a'' ''a:x''"
    by (simp add: prefix_id_def in_namespace_def starts_with_def ns_prefix_def)
  ultimately show ?thesis
    unfolding ns_put_node_record_def pre p(1) fst_conv Let_def using get by blast
qed

end
