(* ===== verification/Topology.thy ===== *)
theory Topology
  imports Rust_Strings BTree_Map
begin

text \<open>
  The cluster map and the planners of crates/topology/src/lib.rs: peers, placements and the registry
  of both, the cost-ordered search fan-out, and the replica sets and acknowledgement counts of
  distributed writes and reads. A \<open>BTreeMap\<close> is a \<open>btree\<close>, a \<open>BTreeSet<String>\<close> a strictly sorted
  list. u16, u32 and usize fields are nat; the one usize addition that can overflow is \<open>wadd64\<close>.
\<close>

subsection \<open>Data\<close>

datatype hyperscaler_provider = Aws | Azure | Gcp | Local | Custom string

record hyperscaler_profile =
  hp_profile_id :: string
  hp_provider :: hyperscaler_provider
  hp_region :: string
  hp_zones :: "string list"
  hp_tier :: string
  hp_enabled :: bool
  hp_metadata :: "(string, string) btree"

definition profile_local :: "string \<Rightarrow> hyperscaler_profile" where
  "profile_local profile_id =
     \<lparr>hp_profile_id = profile_id, hp_provider = Local, hp_region = ''local'', hp_zones = [''local-a''],
      hp_tier = ''local'', hp_enabled = True, hp_metadata = []\<rparr>"

datatype node_capability = Http | Bolt | Storage | Search | WriteLeader | WriteReplica | Coordinator

datatype peer_health = Healthy | Degraded | Draining | Unreachable

fun can_serve_reads :: "peer_health \<Rightarrow> bool" where
  "can_serve_reads Healthy = True"
| "can_serve_reads Degraded = True"
| "can_serve_reads _ = False"

fun can_accept_writes :: "peer_health \<Rightarrow> bool" where
  "can_accept_writes Healthy = True"
| "can_accept_writes _ = False"

lemma can_accept_writes_iff: "can_accept_writes h \<longleftrightarrow> h = Healthy"
  by (cases h) simp_all

lemma can_serve_reads_iff: "can_serve_reads h \<longleftrightarrow> h = Healthy \<or> h = Degraded"
  by (cases h) simp_all

datatype topology_error =
    MissingPeer string
  | MissingPlacement string
  | InvalidTopology string
  | NoHealthyPeer node_capability

record search_routing_policy =
  sp_request_region :: "string option"
  sp_max_fanout :: nat
  sp_prefer_same_region :: bool
  sp_include_degraded :: bool
  sp_hedge_after_micros :: nat
  sp_cross_region_penalty_micros :: nat

definition policy_low_latency :: "string \<Rightarrow> nat \<Rightarrow> search_routing_policy" where
  "policy_low_latency request_region max_fanout =
     \<lparr>sp_request_region = Some request_region, sp_max_fanout = max max_fanout 1,
      sp_prefer_same_region = True, sp_include_degraded = True, sp_hedge_after_micros = 5000,
      sp_cross_region_penalty_micros = 25000\<rparr>"

definition policy_global :: "nat \<Rightarrow> search_routing_policy" where
  "policy_global max_fanout =
     \<lparr>sp_request_region = None, sp_max_fanout = max max_fanout 1,
      sp_prefer_same_region = False, sp_include_degraded = True, sp_hedge_after_micros = 5000,
      sp_cross_region_penalty_micros = 0\<rparr>"

record mesh_peer =
  mp_node_id :: string
  mp_advertise_addr :: string
  mp_region :: string
  mp_zone :: string
  mp_capabilities :: "node_capability set"
  mp_health :: peer_health
  mp_hyperscaler_profile :: "string option"
  mp_last_heartbeat_unix_ms :: int
  mp_observed_rtt_micros :: nat
  mp_inflight_requests :: nat
  mp_capacity_weight :: nat

definition mesh_peer_new :: "string \<Rightarrow> string \<Rightarrow> mesh_peer" where
  "mesh_peer_new node_id advertise_addr =
     \<lparr>mp_node_id = node_id, mp_advertise_addr = advertise_addr, mp_region = ''local'',
      mp_zone = ''local-a'', mp_capabilities = {}, mp_health = Healthy, mp_hyperscaler_profile = None,
      mp_last_heartbeat_unix_ms = 0, mp_observed_rtt_micros = 1000, mp_inflight_requests = 0,
      mp_capacity_weight = 1\<rparr>"

definition with_capability :: "node_capability \<Rightarrow> mesh_peer \<Rightarrow> mesh_peer" where
  "with_capability capability peer = peer\<lparr>mp_capabilities := insert capability (mp_capabilities peer)\<rparr>"

definition with_region_zone :: "string \<Rightarrow> string \<Rightarrow> mesh_peer \<Rightarrow> mesh_peer" where
  "with_region_zone region zone peer = peer\<lparr>mp_region := region, mp_zone := zone\<rparr>"

definition with_hyperscaler_profile :: "string \<Rightarrow> mesh_peer \<Rightarrow> mesh_peer" where
  "with_hyperscaler_profile profile_id peer = peer\<lparr>mp_hyperscaler_profile := Some profile_id\<rparr>"

definition with_observed_rtt_micros :: "nat \<Rightarrow> mesh_peer \<Rightarrow> mesh_peer" where
  "with_observed_rtt_micros rtt peer = peer\<lparr>mp_observed_rtt_micros := max rtt 1\<rparr>"

definition with_load :: "nat \<Rightarrow> nat \<Rightarrow> mesh_peer \<Rightarrow> mesh_peer" where
  "with_load inflight weight peer =
     peer\<lparr>mp_inflight_requests := inflight, mp_capacity_weight := max weight 1\<rparr>"

definition can_serve :: "mesh_peer \<Rightarrow> node_capability \<Rightarrow> bool" where
  "can_serve peer capability \<longleftrightarrow>
     capability \<in> mp_capabilities peer \<and>
     (case capability of
        WriteLeader \<Rightarrow> can_accept_writes (mp_health peer)
      | _ \<Rightarrow> can_serve_reads (mp_health peer))"

definition search_cost :: "search_routing_policy \<Rightarrow> mesh_peer \<Rightarrow> nat" where
  "search_cost policy peer =
     (let locality_penalty =
            (if sp_prefer_same_region policy
             then (case sp_request_region policy of
                     Some region \<Rightarrow> if region = mp_region peer then 0 else sp_cross_region_penalty_micros policy
                   | None \<Rightarrow> 0)
             else 0);
          load_penalty = (mp_inflight_requests peer * 1000) div max (mp_capacity_weight peer) 1
      in mp_observed_rtt_micros peer + locality_penalty + load_penalty)"

text \<open>With u32 and u16 fields the sum stays far below the end of u64.\<close>

lemma search_cost_fits:
  assumes "mp_observed_rtt_micros p < 2 ^ 32" "mp_inflight_requests p < 2 ^ 32"
    "sp_cross_region_penalty_micros pol < 2 ^ 32"
  shows "search_cost pol p < 2 ^ 64"
proof -
  define load where "load = mp_inflight_requests p * 1000 div max (mp_capacity_weight p) 1"
  have "load \<le> mp_inflight_requests p * 1000" unfolding load_def by (rule div_le_dividend)
  moreover have "search_cost pol p \<le> mp_observed_rtt_micros p + sp_cross_region_penalty_micros pol + load"
    unfolding search_cost_def Let_def load_def by (simp split: option.split)
  ultimately show ?thesis using assms by simp
qed

subsection \<open>Placements\<close>

datatype placement_key = PlacementKey (pk_tenant: string) (pk_database: string) (pk_shard: string)

definition pk_tuple :: "placement_key \<Rightarrow> string \<times> string \<times> string" where
  "pk_tuple k = (pk_tenant k, pk_database k, pk_shard k)"

lemma pk_tuple_eq [simp]: "pk_tuple a = pk_tuple b \<longleftrightarrow> a = b"
  by (cases a; cases b) (simp add: pk_tuple_def)

instantiation placement_key :: linorder
begin

definition less_eq_placement_key :: "placement_key \<Rightarrow> placement_key \<Rightarrow> bool" where
  "less_eq_placement_key a b \<longleftrightarrow> pk_tuple a \<le> pk_tuple b"

definition less_placement_key :: "placement_key \<Rightarrow> placement_key \<Rightarrow> bool" where
  "less_placement_key a b \<longleftrightarrow> pk_tuple a < pk_tuple b"

instance
proof
  fix a b :: placement_key
  show "a \<le> b \<Longrightarrow> b \<le> a \<Longrightarrow> a = b"
    using pk_tuple_eq antisym unfolding less_eq_placement_key_def by blast
  show "(a < b) = (a \<le> b \<and> \<not> b \<le> a)"
    unfolding less_eq_placement_key_def less_placement_key_def by (rule less_le_not_le)
qed (auto simp: less_eq_placement_key_def)

end

definition default_for_database :: "string \<Rightarrow> placement_key" where
  "default_for_database database = PlacementKey ''default'' database ''primary''"

definition placement_stable_id :: "placement_key \<Rightarrow> string" where
  "placement_stable_id k = pk_tenant k @ ''/'' @ pk_database k @ ''/'' @ pk_shard k"

record placement_record =
  pr_key :: placement_key
  pr_primary_node :: string
  pr_replica_nodes :: "string list"
  pr_search_nodes :: "string list"
  pr_hyperscaler_profile :: "string option"
  pr_min_write_replicas :: nat
  pr_search_fanout :: nat

definition placement_standalone :: "string \<Rightarrow> string \<Rightarrow> placement_record" where
  "placement_standalone database node_id =
     \<lparr>pr_key = default_for_database database, pr_primary_node = node_id, pr_replica_nodes = [],
      pr_search_nodes = [node_id], pr_hyperscaler_profile = None, pr_min_write_replicas = 0,
      pr_search_fanout = 1\<rparr>"

text \<open>Collecting into a \<open>BTreeSet\<close> sorts and removes duplicates.\<close>

definition bset_of :: "string list \<Rightarrow> string list" where
  "bset_of xs = sort (remdups xs)"

lemma bset_of_simps [simp]:
  "set (bset_of xs) = set xs" "distinct (bset_of xs)" "sorted (bset_of xs)"
  by (simp_all add: bset_of_def)

definition participant_ids :: "placement_record \<Rightarrow> string list" where
  "participant_ids placement =
     bset_of (pr_primary_node placement # pr_replica_nodes placement @ pr_search_nodes placement)"

lemma set_participant_ids:
  "set (participant_ids pl) = insert (pr_primary_node pl) (set (pr_replica_nodes pl) \<union> set (pr_search_nodes pl))"
  by (simp add: participant_ids_def)

lemma distinct_participant_ids [simp]: "distinct (participant_ids pl)" "sorted (participant_ids pl)"
  by (simp_all add: participant_ids_def)

end
