(* ===== verification/Fabric.thy ===== *)
theory Fabric
  imports Topology
begin

text \<open>
  Fabric databases and global ids of crates/topology/src/lib.rs: the validation of a database's shard
  list, and the printed form of a global entity id with its parser.
\<close>

datatype fabric_partition_policy =
  SingleShard | HashByKey nat | LabelAware | VectorCollection | Temporal | Manual

datatype fabric_shard_kind = GraphShard | VectorShard | SearchShard | TemporalShard | MixedShard

record fabric_shard =
  fs_placement :: placement_key
  fs_kind :: fabric_shard_kind
  fs_labels :: "string list"
  fs_relationship_types :: "string list"
  fs_collections :: "string list"

definition shard_mixed :: "placement_key \<Rightarrow> fabric_shard" where
  "shard_mixed placement =
     \<lparr>fs_placement = placement, fs_kind = MixedShard, fs_labels = [], fs_relationship_types = [],
      fs_collections = []\<rparr>"

record fabric_database =
  fd_tenant :: string
  fd_database :: string
  fd_default_shard :: string
  fd_partition_policy :: fabric_partition_policy
  fd_shards :: "fabric_shard list"

definition single_shard :: "string \<Rightarrow> fabric_database" where
  "single_shard database =
     (let placement = default_for_database database
      in \<lparr>fd_tenant = pk_tenant placement, fd_database = database, fd_default_shard = pk_shard placement,
          fd_partition_policy = SingleShard, fd_shards = [shard_mixed placement]\<rparr>)"

definition fabric_stable_id :: "fabric_database \<Rightarrow> string" where
  "fabric_stable_id db = fd_tenant db @ ''/'' @ fd_database db"

definition placement_keys :: "fabric_database \<Rightarrow> placement_key list" where
  "placement_keys db = map fs_placement (fd_shards db)"

definition default_placement_key :: "fabric_database \<Rightarrow> placement_key option" where
  "default_placement_key db =
     map_option fs_placement (List.find (\<lambda>shard. pk_shard (fs_placement shard) = fd_default_shard db) (fd_shards db))"

text \<open>The loop over the shards, with its set of seen placements and the default-shard flag.\<close>

fun validate_shards ::
    "fabric_database \<Rightarrow> fabric_shard list \<Rightarrow> placement_key set \<Rightarrow> bool \<Rightarrow> topology_error + bool" where
  "validate_shards db [] seen has_default = Inr has_default"
| "validate_shards db (shard # rest) seen has_default =
     (let key = fs_placement shard
      in if pk_tenant key \<noteq> fd_tenant db \<or> pk_database key \<noteq> fd_database db
         then Inl (InvalidTopology (''fabric shard '' @ placement_stable_id key @
                '' does not belong to database '' @ fabric_stable_id db))
         else (let has_default = (if pk_shard key = fd_default_shard db then True else has_default)
               in if key \<in> seen
                  then Inl (InvalidTopology (''duplicate fabric shard '' @ placement_stable_id key))
                  else validate_shards db rest (insert key seen) has_default))"

definition validate_fabric :: "fabric_database \<Rightarrow> topology_error + unit" where
  "validate_fabric db =
     (if trim (fd_tenant db) = [] then Inl (InvalidTopology ''fabric database tenant must not be empty'')
      else if trim (fd_database db) = [] then Inl (InvalidTopology ''fabric database name must not be empty'')
      else if trim (fd_default_shard db) = []
      then Inl (InvalidTopology ''fabric database default shard must not be empty'')
      else if fd_shards db = []
      then Inl (InvalidTopology (''fabric database '' @ fabric_stable_id db @ '' has no shards''))
      else result_bind (validate_shards db (fd_shards db) {} False) (\<lambda>has_default.
        if \<not> has_default
        then Inl (InvalidTopology (''fabric database '' @ fabric_stable_id db @ '' missing default shard '' @
               fd_default_shard db))
        else Inr ()))"

lemma validate_shards_Inr:
  "validate_shards db shards seen d = Inr d' \<longleftrightarrow>
     (\<forall>k\<in>set (map fs_placement shards). pk_tenant k = fd_tenant db \<and> pk_database k = fd_database db \<and> k \<notin> seen) \<and>
     distinct (map fs_placement shards) \<and>
     d' = (d \<or> (\<exists>k\<in>set (map fs_placement shards). pk_shard k = fd_default_shard db))"
proof (induction shards arbitrary: seen d)
  case (Cons s shards)
  show ?case by (auto simp: Let_def Cons.IH image_iff)
qed auto

lemma find_is_Some_iff: "(\<exists>x. List.find P xs = Some x) \<longleftrightarrow> (\<exists>x\<in>set xs. P x)"
  by (induction xs) auto

text \<open>
  C14: Validation accepts exactly the databases whose names are not blank, whose shards are distinct,
  all belong to the database and include the default one; the default placement of such a database
  is then defined, is the one shard of that name, and is one of its placement keys.
\<close>

theorem validate_fabric_exact:
  "(validate_fabric db = Inr () \<longleftrightarrow>
      trim (fd_tenant db) \<noteq> [] \<and> trim (fd_database db) \<noteq> [] \<and> trim (fd_default_shard db) \<noteq> [] \<and>
      distinct (placement_keys db) \<and>
      (\<forall>k\<in>set (placement_keys db). pk_tenant k = fd_tenant db \<and> pk_database k = fd_database db) \<and>
      (\<exists>k\<in>set (placement_keys db). pk_shard k = fd_default_shard db)) \<and>
   (validate_fabric db = Inr () \<longrightarrow>
      default_placement_key db = Some (PlacementKey (fd_tenant db) (fd_database db) (fd_default_shard db)) \<and>
      PlacementKey (fd_tenant db) (fd_database db) (fd_default_shard db) \<in> set (placement_keys db))"
proof (intro conjI impI)
  show exact: "validate_fabric db = Inr () \<longleftrightarrow>
      trim (fd_tenant db) \<noteq> [] \<and> trim (fd_database db) \<noteq> [] \<and> trim (fd_default_shard db) \<noteq> [] \<and>
      distinct (placement_keys db) \<and>
      (\<forall>k\<in>set (placement_keys db). pk_tenant k = fd_tenant db \<and> pk_database k = fd_database db) \<and>
      (\<exists>k\<in>set (placement_keys db). pk_shard k = fd_default_shard db)"
    by (auto simp: validate_fabric_def placement_keys_def result_bind_Inr_iff validate_shards_Inr)
  assume "validate_fabric db = Inr ()"
  then have names: "\<forall>k\<in>set (placement_keys db). pk_tenant k = fd_tenant db \<and> pk_database k = fd_database db"
    and ex: "\<exists>k\<in>set (placement_keys db). pk_shard k = fd_default_shard db"
    using exact by auto
  then obtain shard where shard: "List.find (\<lambda>shard. pk_shard (fs_placement shard) = fd_default_shard db) (fd_shards db) = Some shard"
    using find_is_Some_iff [of "\<lambda>shard. pk_shard (fs_placement shard) = fd_default_shard db" "fd_shards db"]
    by (auto simp: placement_keys_def)
  then have "shard \<in> set (fd_shards db)" "pk_shard (fs_placement shard) = fd_default_shard db"
    by (auto simp: find_Some_iff)
  with names have "fs_placement shard = PlacementKey (fd_tenant db) (fd_database db) (fd_default_shard db)"
    "fs_placement shard \<in> set (placement_keys db)"
    by (auto simp: placement_keys_def intro: placement_key.expand)
  with shard show "default_placement_key db = Some (PlacementKey (fd_tenant db) (fd_database db) (fd_default_shard db))"
    "PlacementKey (fd_tenant db) (fd_database db) (fd_default_shard db) \<in> set (placement_keys db)"
    by (simp_all add: default_placement_key_def)
qed

theorem validate_fabric_exact_witness:
  "validate_fabric (single_shard ''neo4j'') = Inr () \<and>
   default_placement_key (single_shard ''neo4j'') = Some (PlacementKey ''default'' ''neo4j'' ''primary'')"
proof -
  have t: "trim ''default'' \<noteq> []" "trim ''neo4j'' \<noteq> []" "trim ''primary'' \<noteq> []"
    by (simp_all add: trim_graph graph_char_def)
  have "validate_fabric (single_shard ''neo4j'') = Inr ()"
    using t validate_fabric_exact [of "single_shard ''neo4j''"]
    by (simp add: single_shard_def default_for_database_def placement_keys_def shard_mixed_def Let_def)
  then show ?thesis
    using validate_fabric_exact [of "single_shard ''neo4j''"]
    by (simp add: single_shard_def default_for_database_def Let_def)
qed

subsection \<open>Global ids\<close>

record fabric_global_id =
  gi_placement :: placement_key
  gi_entity_kind :: string
  gi_local_id :: string

definition fabric_scheme :: string where
  "fabric_scheme = ''fabric://''"

definition global_stable_id :: "fabric_global_id \<Rightarrow> string" where
  "global_stable_id g =
     fabric_scheme @ join ''/'' [pk_tenant (gi_placement g), pk_database (gi_placement g),
       pk_shard (gi_placement g), gi_entity_kind g, gi_local_id g]"

definition global_parse :: "string \<Rightarrow> topology_error + fabric_global_id" where
  "global_parse stable_id =
     (case strip_prefix_opt fabric_scheme stable_id of
        None \<Rightarrow> Inl (InvalidTopology (''fabric global id must start with '' @ fabric_scheme))
      | Some rest \<Rightarrow>
          (let parts = splitn 5 CHR ''/'' rest
           in if length parts \<noteq> 5 \<or> [] \<in> set parts
              then Inl (InvalidTopology (''invalid fabric global id '' @ stable_id))
              else Inr \<lparr>gi_placement = PlacementKey (parts ! 0) (parts ! 1) (parts ! 2),
                        gi_entity_kind = parts ! 3, gi_local_id = parts ! 4\<rparr>))"

definition global_components :: "fabric_global_id \<Rightarrow> string list" where
  "global_components g = [pk_tenant (gi_placement g), pk_database (gi_placement g),
     pk_shard (gi_placement g), gi_entity_kind g, gi_local_id g]"

lemma splitn_join:
  assumes "\<forall>p\<in>set ps. d \<notin> set p"
  shows "splitn (Suc (length ps)) d (join [d] (ps @ [r])) = ps @ [r]"
  using assms
proof (induction ps)
  case (Cons p ps)
  have "join [d] ((p # ps) @ [r]) = p @ d # join [d] (ps @ [r])"
    by (cases ps) auto
  with Cons show ?case by (simp add: split_once_append)
qed simp

lemma five_parts:
  assumes "length ps = 5" shows "ps = [ps ! 0, ps ! 1, ps ! 2, ps ! 3, ps ! 4]"
proof -
  have "[ps ! 0, ps ! 1, ps ! 2, ps ! 3, ps ! 4] = map ((!) ps) [0..<length ps]"
    using assms by (simp add: upt_rec numeral_eq_Suc)
  then show ?thesis by (simp add: map_nth)
qed

text \<open>
  C15: A global id whose components are not empty and whose first four have no slash is read back from
  its printed form; and every string that parses is the printed form of what it parses to, so
  printing is injective on such ids and no two strings parse to the same id.
\<close>

theorem global_id_roundtrip:
  "(\<forall>g. [] \<notin> set (global_components g) \<and> (\<forall>c\<in>set (take 4 (global_components g)). CHR ''/'' \<notin> set c) \<longrightarrow>
      global_parse (global_stable_id g) = Inr g) \<and>
   (\<forall>s g. global_parse s = Inr g \<longrightarrow>
      global_stable_id g = s \<and> [] \<notin> set (global_components g))"
proof (intro conjI allI impI)
  fix g
  assume g: "[] \<notin> set (global_components g) \<and> (\<forall>c\<in>set (take 4 (global_components g)). CHR ''/'' \<notin> set c)"
  let ?ps = "[pk_tenant (gi_placement g), pk_database (gi_placement g), pk_shard (gi_placement g), gi_entity_kind g]"
  have "\<forall>p\<in>set ?ps. CHR ''/'' \<notin> set p" using g by (simp add: global_components_def)
  then have "splitn (Suc (length ?ps)) CHR ''/'' (join ''/'' (?ps @ [gi_local_id g])) = ?ps @ [gi_local_id g]"
    by (rule splitn_join)
  then have "splitn 5 CHR ''/'' (join ''/'' (global_components g)) = global_components g"
    by (simp only: list.size append.simps global_components_def) (simp add: numeral_eq_Suc)
  with g show "global_parse (global_stable_id g) = Inr g"
    by (simp add: global_parse_def global_stable_id_def Let_def global_components_def)
next
  fix s g
  assume "global_parse s = Inr g"
  then obtain rest where s: "s = fabric_scheme @ rest"
    and parts: "length (splitn 5 CHR ''/'' rest) = 5" "[] \<notin> set (splitn 5 CHR ''/'' rest)"
    and g: "g = \<lparr>gi_placement = PlacementKey (splitn 5 CHR ''/'' rest ! 0) (splitn 5 CHR ''/'' rest ! 1) (splitn 5 CHR ''/'' rest ! 2),
                gi_entity_kind = splitn 5 CHR ''/'' rest ! 3, gi_local_id = splitn 5 CHR ''/'' rest ! 4\<rparr>"
    by (auto simp: global_parse_def Let_def strip_prefix_opt_Some split: option.splits if_splits)
  have comps: "global_components g = splitn 5 CHR ''/'' rest"
    using five_parts [OF parts(1)] by (simp add: g global_components_def)
  have "join ''/'' (splitn 5 CHR ''/'' rest) = rest" by (rule join_splitn) simp
  then have "join ''/'' (global_components g) = rest" by (simp only: comps)
  then show "global_stable_id g = s"
    by (simp only: s global_stable_id_def global_components_def)
  show "[] \<notin> set (global_components g)" using parts(2) by (simp only: comps not_False_eq_True)
qed

theorem global_id_roundtrip_witness:
  "global_parse (global_stable_id \<lparr>gi_placement = PlacementKey ''t'' ''db'' ''s0'', gi_entity_kind = ''node'', gi_local_id = ''a/b''\<rparr>) =
     Inr \<lparr>gi_placement = PlacementKey ''t'' ''db'' ''s0'', gi_entity_kind = ''node'', gi_local_id = ''a/b''\<rparr>"
  by (rule global_id_roundtrip [THEN conjunct1, rule_format]) (simp add: global_components_def)

end
