(* ===== verification/Tx_Clock.thy ===== *)
theory Tx_Clock
  imports Rust_Strings
begin

text \<open>
  Logical transaction time, from crates/topology/src/lib.rs: \<open>LogicalTransactionId\<close> with its derived
  lexicographic order and printed form, \<open>DistributedTransactionClock\<close> with its two atomics, and the
  trait \<open>TransactionTimeOracle\<close> as a locale. The u64 fields are nat below \<open>2 ^ 64\<close>; \<open>fetch_add\<close> and the
  additions after it wrap there, as a release build does.
\<close>

subsection \<open>Logical transaction ids\<close>

datatype logical_tx_id = LogicalTxId (tx_epoch: nat) (tx_counter: nat) (tx_node: nat)

definition tx_tuple :: "logical_tx_id \<Rightarrow> nat \<times> nat \<times> nat" where
  "tx_tuple t = (tx_epoch t, tx_counter t, tx_node t)"

lemma tx_tuple_eq [simp]: "tx_tuple a = tx_tuple b \<longleftrightarrow> a = b"
  by (cases a; cases b) (simp add: tx_tuple_def)

instantiation logical_tx_id :: linorder
begin

definition less_eq_logical_tx_id :: "logical_tx_id \<Rightarrow> logical_tx_id \<Rightarrow> bool" where
  "less_eq_logical_tx_id a b \<longleftrightarrow> tx_tuple a \<le> tx_tuple b"

definition less_logical_tx_id :: "logical_tx_id \<Rightarrow> logical_tx_id \<Rightarrow> bool" where
  "less_logical_tx_id a b \<longleftrightarrow> tx_tuple a < tx_tuple b"

instance
proof
  fix a b :: logical_tx_id
  show "a \<le> b \<Longrightarrow> b \<le> a \<Longrightarrow> a = b"
    using tx_tuple_eq antisym unfolding less_eq_logical_tx_id_def by blast
  show "(a < b) = (a \<le> b \<and> \<not> b \<le> a)"
    unfolding less_eq_logical_tx_id_def less_logical_tx_id_def by (rule less_le_not_le)
qed (auto simp: less_eq_logical_tx_id_def)

end

lemma tx_less_iff:
  "LogicalTxId e c n < LogicalTxId e' c' n' \<longleftrightarrow> e < e' \<or> e = e' \<and> (c < c' \<or> c = c' \<and> n < n')"
  by (auto simp: less_logical_tx_id_def tx_tuple_def)

lemma tx_less_eq_iff:
  "LogicalTxId e c n \<le> LogicalTxId e' c' n' \<longleftrightarrow> e < e' \<or> e = e' \<and> (c < c' \<or> c = c' \<and> n \<le> n')"
  by (auto simp: less_eq_logical_tx_id_def tx_tuple_def)

definition tx_zero :: logical_tx_id where
  "tx_zero = LogicalTxId 0 0 0"

definition tx_stable_id :: "logical_tx_id \<Rightarrow> string" where
  "tx_stable_id t = hex_fixed 16 (tx_epoch t) @ '':'' @ hex_fixed 16 (tx_counter t) @ '':'' @ hex_fixed 8 (tx_node t)"

definition u32_max :: nat where
  "u32_max = 2 ^ 32 - 1"

text \<open>The ids a Rust value can hold.\<close>

definition tx_in_range :: "logical_tx_id \<Rightarrow> bool" where
  "tx_in_range t \<longleftrightarrow> tx_epoch t \<le> u64_max \<and> tx_counter t \<le> u64_max \<and> tx_node t \<le> u32_max"

record logical_tx_range =
  tr_first :: logical_tx_id
  tr_last :: logical_tx_id
  tr_len :: nat

subsection \<open>The distributed clock\<close>

record tx_clock =
  ck_node_ordinal :: nat
  ck_epoch :: nat
  ck_counter :: nat

definition clock_with_epoch :: "nat \<Rightarrow> nat \<Rightarrow> tx_clock" where
  "clock_with_epoch node_ordinal epoch =
     \<lparr>ck_node_ordinal = node_ordinal, ck_epoch = max epoch 1, ck_counter = 0\<rparr>"

definition clock_new :: "nat \<Rightarrow> tx_clock" where
  "clock_new node_ordinal = clock_with_epoch node_ordinal 1"

text \<open>
  The compare-exchange loop: each element of the list is the value another thread stored just before
  an attempt, which that attempt then finds instead of the one it expected.
\<close>

fun advance_atomic_at_least :: "nat \<Rightarrow> nat \<Rightarrow> nat list \<Rightarrow> nat" where
  "advance_atomic_at_least current floor interference =
     (if current < floor
      then (case interference of [] \<Rightarrow> floor | next # rest \<Rightarrow> advance_atomic_at_least next floor rest)
      else current)"

declare advance_atomic_at_least.simps [simp del]

lemma advance_quiet [simp]: "advance_atomic_at_least current floor [] = max current floor"
  by (simp add: advance_atomic_at_least.simps)

lemma advance_at_least:
  "floor \<le> advance_atomic_at_least current floor others \<and>
   (advance_atomic_at_least current floor others = floor \<or>
    advance_atomic_at_least current floor others \<in> set (current # others))"
proof (induction current floor others rule: advance_atomic_at_least.induct)
  case (1 current floor others)
  then show ?case by (subst (1 2 3) advance_atomic_at_least.simps) (auto split: list.split)
qed

definition advance_epoch :: "nat \<Rightarrow> tx_clock \<Rightarrow> tx_clock" where
  "advance_epoch epoch ck = ck\<lparr>ck_epoch := advance_atomic_at_least (ck_epoch ck) (max epoch 1) []\<rparr>"

definition clock_issue :: "tx_clock \<Rightarrow> tx_clock \<times> logical_tx_id" where
  "clock_issue ck =
     (let counter = wadd64 (ck_counter ck) 1
      in (ck\<lparr>ck_counter := counter\<rparr>, LogicalTxId (ck_epoch ck) counter (ck_node_ordinal ck)))"

definition clock_reserve :: "nat \<Rightarrow> tx_clock \<Rightarrow> tx_clock \<times> logical_tx_range" where
  "clock_reserve len ck =
     (let len = max len 1;
          first_counter = wadd64 (ck_counter ck) 1
      in (ck\<lparr>ck_counter := wadd64 (ck_counter ck) len\<rparr>,
          \<lparr>tr_first = LogicalTxId (ck_epoch ck) first_counter (ck_node_ordinal ck),
           tr_last = LogicalTxId (ck_epoch ck) (wadd64 first_counter (len - 1)) (ck_node_ordinal ck),
           tr_len = len\<rparr>))"

definition clock_observe :: "logical_tx_id \<Rightarrow> tx_clock \<Rightarrow> tx_clock \<times> logical_tx_id" where
  "clock_observe remote ck =
     (let ck = advance_epoch (tx_epoch remote) ck;
          ck = ck\<lparr>ck_counter := advance_atomic_at_least (ck_counter ck) (tx_counter remote) []\<rparr>
      in clock_issue ck)"

subsection \<open>The contract of a time oracle\<close>

text \<open>
  What a transaction manager may assume of the trait: \<open>latest\<close> bounds every id issued so far; as long
  as there is \<open>room\<close>, an issued id is above it and becomes it, and an observed id is below the id
  issued for it.
\<close>

locale time_oracle =
  fixes issue :: "'s \<Rightarrow> 's \<times> logical_tx_id"
    and observe :: "logical_tx_id \<Rightarrow> 's \<Rightarrow> 's \<times> logical_tx_id"
    and latest :: "'s \<Rightarrow> logical_tx_id"
    and room :: "'s \<Rightarrow> nat"
    and above :: "logical_tx_id \<Rightarrow> nat"
  assumes issue_later: "0 < room s \<Longrightarrow> latest s < snd (issue s) \<and> latest (fst (issue s)) = snd (issue s)"
    and observe_later: "0 < room s \<Longrightarrow> 0 < above r \<Longrightarrow>
      latest s < snd (observe r s) \<and> r < snd (observe r s) \<and> latest (fst (observe r s)) = snd (observe r s)"
begin

lemma issue_after_observe:
  assumes "0 < room s" "0 < above r" "0 < room (fst (observe r s))"
  shows "r < snd (issue (fst (observe r s)))"
  using observe_later [OF assms(1,2)] issue_later [OF assms(3)] by auto

lemma observe_after_issue:
  assumes "0 < room s" "0 < room s'" "0 < above (snd (issue s))"
  shows "snd (issue s) < snd (observe (snd (issue s)) s')"
  using observe_later [OF assms(2,3)] by blast

end

definition clock_latest :: "tx_clock \<Rightarrow> logical_tx_id" where
  "clock_latest ck = LogicalTxId (ck_epoch ck) (ck_counter ck) (ck_node_ordinal ck)"

definition clock_room :: "tx_clock \<Rightarrow> nat" where
  "clock_room ck = u64_max - ck_counter ck"

definition id_room :: "logical_tx_id \<Rightarrow> nat" where
  "id_room t = u64_max - tx_counter t"

lemma clock_issue_eq:
  assumes "ck_counter ck < u64_max"
  shows "clock_issue ck = (ck\<lparr>ck_counter := Suc (ck_counter ck)\<rparr>,
    LogicalTxId (ck_epoch ck) (Suc (ck_counter ck)) (ck_node_ordinal ck))"
  using wadd64_Suc [OF assms] by (simp add: clock_issue_def)

lemma clock_observe_eq:
  assumes "ck_counter ck < u64_max" "tx_counter r < u64_max"
  shows "clock_observe r ck =
    (let e = max (ck_epoch ck) (max (tx_epoch r) 1); c = Suc (max (ck_counter ck) (tx_counter r))
     in (ck\<lparr>ck_epoch := e, ck_counter := c\<rparr>, LogicalTxId e c (ck_node_ordinal ck)))"
  using assms by (simp add: clock_observe_def advance_epoch_def Let_def clock_issue_eq)

interpretation clock: time_oracle clock_issue clock_observe clock_latest clock_room id_room
proof
  fix s
  assume "0 < clock_room s"
  then show "clock_latest s < snd (clock_issue s) \<and> clock_latest (fst (clock_issue s)) = snd (clock_issue s)"
    by (simp add: clock_room_def clock_latest_def clock_issue_eq tx_less_iff)
next
  fix s r
  assume "0 < clock_room s" "0 < id_room r"
  then show "clock_latest s < snd (clock_observe r s) \<and> r < snd (clock_observe r s) \<and>
      clock_latest (fst (clock_observe r s)) = snd (clock_observe r s)"
    by (cases r) (auto simp: clock_room_def id_room_def clock_latest_def clock_observe_eq tx_less_iff Let_def)
qed

subsection \<open>Runs of a clock\<close>

datatype clock_event = CIssue | CReserve nat | CObserve logical_tx_id | CAdvanceEpoch nat

text \<open>The ids an event hands out: one, none, or every id of a reserved range.\<close>

definition range_ids :: "logical_tx_range \<Rightarrow> logical_tx_id list" where
  "range_ids r = map (\<lambda>k. LogicalTxId (tx_epoch (tr_first r)) (tx_counter (tr_first r) + k) (tx_node (tr_first r)))
     [0..<tr_len r]"

primrec clock_step :: "clock_event \<Rightarrow> tx_clock \<Rightarrow> tx_clock \<times> logical_tx_id list" where
  "clock_step CIssue ck = (let (ck, t) = clock_issue ck in (ck, [t]))"
| "clock_step (CReserve n) ck = (let (ck, r) = clock_reserve n ck in (ck, range_ids r))"
| "clock_step (CObserve r) ck = (let (ck, t) = clock_observe r ck in (ck, [t]))"
| "clock_step (CAdvanceEpoch e) ck = (advance_epoch e ck, [])"

text \<open>An event fits when the counter does not pass the end of u64.\<close>

fun event_fits :: "clock_event \<Rightarrow> tx_clock \<Rightarrow> bool" where
  "event_fits CIssue ck = (ck_counter ck < u64_max)"
| "event_fits (CReserve n) ck = (ck_counter ck + max n 1 \<le> u64_max)"
| "event_fits (CObserve r) ck = (ck_counter ck < u64_max \<and> tx_counter r < u64_max)"
| "event_fits (CAdvanceEpoch e) ck = True"

primrec clock_run :: "clock_event list \<Rightarrow> tx_clock \<Rightarrow> tx_clock \<times> logical_tx_id list" where
  "clock_run [] ck = (ck, [])"
| "clock_run (ev # evs) ck =
     (let (ck, ids) = clock_step ev ck; (ck, more) = clock_run evs ck in (ck, ids @ more))"

primrec run_fits :: "clock_event list \<Rightarrow> tx_clock \<Rightarrow> bool" where
  "run_fits [] ck = True"
| "run_fits (ev # evs) ck = (event_fits ev ck \<and> run_fits evs (fst (clock_step ev ck)))"

lemma reserve_eq:
  assumes "ck_counter ck + max n 1 \<le> u64_max"
  shows "clock_reserve n ck = (ck\<lparr>ck_counter := ck_counter ck + max n 1\<rparr>,
    \<lparr>tr_first = LogicalTxId (ck_epoch ck) (Suc (ck_counter ck)) (ck_node_ordinal ck),
     tr_last = LogicalTxId (ck_epoch ck) (ck_counter ck + max n 1) (ck_node_ordinal ck), tr_len = max n 1\<rparr>)"
proof -
  have "wadd64 (ck_counter ck) 1 = Suc (ck_counter ck)"
    using assms by (intro wadd64_Suc) simp
  moreover have "wadd64 (Suc (ck_counter ck)) (max n 1 - 1) = ck_counter ck + max n 1"
    using assms wadd64_exact [of "Suc (ck_counter ck)" "max n 1 - 1"] by simp
  moreover have "wadd64 (ck_counter ck) (max n 1) = ck_counter ck + max n 1"
    using assms by (rule wadd64_exact)
  ultimately show ?thesis by (simp add: clock_reserve_def Let_def)
qed

text \<open>One event: its ids ascend from above the clock's latest id, and the clock moves up to them.\<close>

lemma sorted_range_ids:
  "sorted_wrt (<) (map (\<lambda>k. LogicalTxId e (c + k) n) [0..<m])"
  "sorted_wrt (<) (map (\<lambda>k. LogicalTxId e (Suc (c + k)) n) [0..<m])"
  by (simp_all add: sorted_wrt_map sorted_wrt_upt [THEN sorted_wrt_mono_rel [rotated]] tx_less_iff)

lemma clock_step_ok:
  assumes "event_fits ev ck"
  shows "sorted_wrt (<) (snd (clock_step ev ck)) \<and>
    (\<forall>t\<in>set (snd (clock_step ev ck)). clock_latest ck < t \<and> t \<le> clock_latest (fst (clock_step ev ck))) \<and>
    clock_latest ck \<le> clock_latest (fst (clock_step ev ck)) \<and>
    ck_node_ordinal (fst (clock_step ev ck)) = ck_node_ordinal ck"
proof (cases ev)
  case CIssue
  with assms show ?thesis by (simp add: clock_issue_eq clock_latest_def tx_less_iff tx_less_eq_iff)
next
  case (CReserve n)
  with assms show ?thesis
    by (auto simp: reserve_eq clock_latest_def range_ids_def sorted_range_ids tx_less_iff tx_less_eq_iff)
next
  case (CObserve r)
  with assms show ?thesis
    by (auto simp: clock_observe_eq Let_def clock_latest_def tx_less_iff tx_less_eq_iff)
next
  case (CAdvanceEpoch e)
  then show ?thesis by (auto simp: advance_epoch_def clock_latest_def tx_less_eq_iff)
qed

lemma clock_run_ok:
  assumes "run_fits evs ck"
  shows "sorted_wrt (<) (snd (clock_run evs ck)) \<and> (\<forall>t\<in>set (snd (clock_run evs ck)). clock_latest ck < t)"
  using assms
proof (induction evs arbitrary: ck)
  case (Cons ev evs)
  let ?ck = "fst (clock_step ev ck)"
  have IH: "sorted_wrt (<) (snd (clock_run evs ?ck))" "\<forall>t\<in>set (snd (clock_run evs ?ck)). clock_latest ?ck < t"
    using Cons by simp_all
  have step: "sorted_wrt (<) (snd (clock_step ev ck))" "clock_latest ck \<le> clock_latest ?ck"
    "\<forall>t\<in>set (snd (clock_step ev ck)). clock_latest ck < t \<and> t \<le> clock_latest ?ck"
    using clock_step_ok [of ev ck] Cons.prems by simp_all
  have eq: "snd (clock_run (ev # evs) ck) = snd (clock_step ev ck) @ snd (clock_run evs ?ck)"
    by (simp add: case_prod_beta Let_def)
  show ?case unfolding eq using IH step by (force simp: sorted_wrt_append)
qed simp

subsection \<open>Properties\<close>

text \<open>
  C11: Whatever the mix of issues, reserved ranges, observed remote ids and epoch changes on a clock,
  as long as the counter does not reach its end, the ids handed out (every member of a range
  included) are strictly increasing, so none is handed out twice; and the id issued for an observed
  remote id is above that remote id.
\<close>

theorem clock_ids_increase:
  assumes "run_fits evs ck"
  shows "sorted_wrt (<) (snd (clock_run evs ck)) \<and> distinct (snd (clock_run evs ck)) \<and>
    (\<forall>r ck'. event_fits (CObserve r) ck' \<longrightarrow> r < snd (clock_observe r ck'))"
proof (intro conjI allI impI)
  show s: "sorted_wrt (<) (snd (clock_run evs ck))" using clock_run_ok [OF assms] by blast
  then show "distinct (snd (clock_run evs ck))" by (simp add: strict_sorted_iff)
  show "r < snd (clock_observe r ck')" if "event_fits (CObserve r) ck'" for r ck'
    using that clock.observe_later [of ck' r] by (simp add: clock_room_def id_room_def)
qed

theorem clock_ids_increase_witness:
  "sorted_wrt (<) (snd (clock_run [CIssue, CReserve 2, CObserve (LogicalTxId 3 9 7), CAdvanceEpoch 2, CIssue] (clock_new 5))) \<and>
   snd (clock_run [CIssue, CReserve 2, CObserve (LogicalTxId 3 9 7), CAdvanceEpoch 2, CIssue] (clock_new 5)) =
     [LogicalTxId 1 1 5, LogicalTxId 1 2 5, LogicalTxId 1 3 5, LogicalTxId 3 10 5, LogicalTxId 3 11 5]"
proof -
  let ?evs = "[CIssue, CReserve 2, CObserve (LogicalTxId 3 9 7), CAdvanceEpoch 2, CIssue]"
  have fits: "run_fits ?evs (clock_new 5)"
    by (simp add: clock_new_def clock_with_epoch_def clock_issue_def clock_reserve_def clock_observe_def
        advance_epoch_def wadd64_def u64_max_def Let_def)
  have "snd (clock_run ?evs (clock_new 5)) =
     [LogicalTxId 1 1 5, LogicalTxId 1 2 5, LogicalTxId 1 3 5, LogicalTxId 3 10 5, LogicalTxId 3 11 5]"
    by (simp add: clock_new_def clock_with_epoch_def clock_issue_def clock_reserve_def clock_observe_def
        advance_epoch_def wadd64_def range_ids_def Let_def upt_rec)
  with clock_ids_increase [OF fits] show ?thesis by simp
qed

text \<open>
  Observing a remote id whose counter is the largest u64, which a client can put in a bookmark,
  wraps the clock's counter to zero: the id issued for it, and the ids after it, are below ids
  issued before.
\<close>

theorem clock_observe_wraps:
  "let ck = fst (clock_issue (clock_new 0)); (ck', t) = clock_observe (LogicalTxId 1 u64_max 0) ck
   in t = LogicalTxId 1 0 0 \<and> t < snd (clock_issue (clock_new 0)) \<and>
      snd (clock_issue ck') = snd (clock_issue (clock_new 0))"
  by (simp add: clock_new_def clock_with_epoch_def clock_issue_def clock_observe_def advance_epoch_def
      wadd64_def u64_max_def Let_def tx_less_iff)

end
