(* ===== verification/Tx_Transaction.thy ===== *)
theory Tx_Transaction
  imports Tx_Clock BTree_Map
begin

text \<open>
  Bookmarks, transactions and the transaction manager of crates/txsession/src/lib.rs. An \<open>Instant\<close> is
  a nat and every operation that reads the clock takes the reading as an argument; ids drawn with
  \<open>Uuid::new_v4\<close> are arguments too. \<open>DashMap\<close> is a map, the time oracle is the distributed clock.
\<close>

type_synonym uuid = nat
type_synonym instant = nat

datatype tx_error =
    NoActiveTransaction | TransactionActive | TransactionClosed | TransactionRolledBack
  | TransactionReadOnly | TimedOut | Conflict | InvalidBookmark string | Terminal string

datatype transaction_state = Active | Committed | RolledBack | Failed

datatype transaction_mode = ReadMode | WriteMode

datatype bookmark_mode = BmNone | BmRequired | BmOptional

datatype isolation_level = ReadCommitted | RepeatableRead | Serializable

datatype tx_operation = Put string bytes bytes | Delete string bytes

subsection \<open>Bookmarks\<close>

definition parse_bookmark :: "string \<Rightarrow> tx_error + logical_tx_id" where
  "parse_bookmark value =
     (let trimmed = trim value
      in case split_char CHR '':'' trimmed of
           [epoch_hex, counter_hex, node_hex] \<Rightarrow>
             (case from_str_radix16 u64_max epoch_hex of
                None \<Rightarrow> Inl (InvalidBookmark trimmed)
              | Some epoch \<Rightarrow>
             (case from_str_radix16 u64_max counter_hex of
                None \<Rightarrow> Inl (InvalidBookmark trimmed)
              | Some counter \<Rightarrow>
             (case from_str_radix16 u32_max node_hex of
                None \<Rightarrow> Inl (InvalidBookmark trimmed)
              | Some node_ordinal \<Rightarrow> Inr (LogicalTxId epoch counter node_ordinal))))
         | _ \<Rightarrow> Inl (InvalidBookmark trimmed))"

fun normalize_loop :: "bookmark_mode \<Rightarrow> string list \<Rightarrow> tx_error + string list" where
  "normalize_loop mode [] = Inr []"
| "normalize_loop mode (bookmark # rest) =
     (case parse_bookmark bookmark of
        Inr parsed \<Rightarrow> result_bind (normalize_loop mode rest) (\<lambda>ns. Inr (tx_stable_id parsed # ns))
      | Inl err \<Rightarrow> if mode = BmOptional then normalize_loop mode rest else Inl err)"

definition normalize_bookmarks :: "string list \<Rightarrow> bookmark_mode \<Rightarrow> tx_error + string list" where
  "normalize_bookmarks bookmarks mode = (if mode = BmNone then Inr [] else normalize_loop mode bookmarks)"

fun fence_loop ::
    "bookmark_mode \<Rightarrow> string list \<Rightarrow> logical_tx_id option \<Rightarrow> tx_error + logical_tx_id option" where
  "fence_loop mode [] fence = Inr fence"
| "fence_loop mode (bookmark # rest) fence =
     (case parse_bookmark bookmark of
        Inr parsed \<Rightarrow> fence_loop mode rest
          (Some (case fence of Some current \<Rightarrow> max current parsed | None \<Rightarrow> parsed))
      | Inl err \<Rightarrow> if mode = BmOptional then fence_loop mode rest fence else Inl err)"

definition resolve_bookmark_fence ::
    "string list \<Rightarrow> bookmark_mode \<Rightarrow> tx_error + logical_tx_id option" where
  "resolve_bookmark_fence bookmarks mode =
     (if mode = BmNone then Inr None else fence_loop mode bookmarks None)"

definition resolve_read_fence_from_bookmarks :: "string list \<Rightarrow> tx_error + logical_tx_id option" where
  "resolve_read_fence_from_bookmarks bookmarks = resolve_bookmark_fence bookmarks BmRequired"

lemma hex_no_colon: "CHR '':'' \<notin> set (hex_fixed n x)"
  using hex_fixed_chars [of "CHR '':''" n x] by auto

lemma hex_fixed_ends:
  assumes "0 < n"
  shows "hex_fixed n x \<noteq> []" "graph_char (hd (hex_fixed n x))" "graph_char (last (hex_fixed n x))"
proof -
  show ne: "hex_fixed n x \<noteq> []" using length_hex_fixed [of n x] assms by (cases "hex_fixed n x") auto
  show "graph_char (hd (hex_fixed n x))" using hex_fixed_chars [OF hd_in_set [OF ne]] by simp
  show "graph_char (last (hex_fixed n x))" using hex_fixed_chars [OF last_in_set [OF ne]] by simp
qed

lemma trim_stable_id [simp]: "trim (tx_stable_id t) = tx_stable_id t"
proof (rule trim_graph)
  show "tx_stable_id t \<noteq> []" by (simp add: tx_stable_id_def)
  show "graph_char (hd (tx_stable_id t))"
    using hex_fixed_ends [of 16 "tx_epoch t"] by (simp add: tx_stable_id_def)
  show "graph_char (last (tx_stable_id t))"
    using hex_fixed_ends [of 8 "tx_node t"] by (simp add: tx_stable_id_def)
qed

lemma split_stable_id:
  "split_char CHR '':'' (tx_stable_id t) =
     [hex_fixed 16 (tx_epoch t), hex_fixed 16 (tx_counter t), hex_fixed 8 (tx_node t)]"
  by (simp add: tx_stable_id_def split_char_append split_char_single hex_no_colon)

lemma parse_stable_id:
  assumes "tx_in_range t" shows "parse_bookmark (tx_stable_id t) = Inr t"
proof -
  have "from_str_radix16 u64_max (hex_fixed 16 (tx_epoch t)) = Some (tx_epoch t)"
    "from_str_radix16 u64_max (hex_fixed 16 (tx_counter t)) = Some (tx_counter t)"
    "from_str_radix16 u32_max (hex_fixed 8 (tx_node t)) = Some (tx_node t)"
    using assms by (auto intro!: from_str_radix16_hex_fixed simp: tx_in_range_def u64_max_def u32_max_def)
  then show ?thesis by (cases t) (simp add: parse_bookmark_def Let_def split_stable_id)
qed

lemma parse_in_range: "parse_bookmark s = Inr t \<Longrightarrow> tx_in_range t"
  by (auto simp: parse_bookmark_def Let_def tx_in_range_def from_str_radix16_bound
      split: list.splits option.splits)

text \<open>What the list of bookmarks that parse says.\<close>

definition parsed_bookmarks :: "string list \<Rightarrow> logical_tx_id list" where
  "parsed_bookmarks bs = List.map_filter (\<lambda>b. case parse_bookmark b of Inr t \<Rightarrow> Some t | Inl _ \<Rightarrow> None) bs"

lemma parsed_bookmarks_simps [simp]:
  "parsed_bookmarks [] = []"
  "parsed_bookmarks (b # bs) =
     (case parse_bookmark b of Inr t \<Rightarrow> t # parsed_bookmarks bs | Inl _ \<Rightarrow> parsed_bookmarks bs)"
  by (simp_all add: parsed_bookmarks_def List.map_filter_simps split: sum.split)

lemma parsed_in_range: "t \<in> set (parsed_bookmarks bs) \<Longrightarrow> tx_in_range t"
  by (induction bs) (auto dest: parse_in_range split: sum.splits)

definition bookmarks_accepted :: "bookmark_mode \<Rightarrow> string list \<Rightarrow> bool" where
  "bookmarks_accepted mode bs \<longleftrightarrow> mode \<noteq> BmRequired \<or> (\<forall>b\<in>set bs. is_ok (parse_bookmark b))"

definition latest_of :: "logical_tx_id set \<Rightarrow> logical_tx_id option" where
  "latest_of ts = (if ts = {} then None else Some (Max ts))"

lemma fence_loop_eq:
  assumes "bookmarks_accepted mode bs" "mode \<noteq> BmNone"
  shows "fence_loop mode bs f = Inr (latest_of (set_option f \<union> set (parsed_bookmarks bs)))"
  using assms
proof (induction bs arbitrary: f)
  case Nil
  then show ?case by (cases f) (simp_all add: latest_of_def)
next
  case (Cons b bs)
  have acc: "bookmarks_accepted mode bs" using Cons.prems by (auto simp: bookmarks_accepted_def)
  show ?case
  proof (cases "parse_bookmark b")
    case (Inl e)
    then have "mode = BmOptional"
      using Cons.prems by (cases mode) (auto simp: bookmarks_accepted_def)
    then show ?thesis using Cons.IH [OF acc] Inl by simp
  next
    case (Inr t)
    have "latest_of (insert (max c t) (set (parsed_bookmarks bs))) =
        latest_of (insert c (insert t (set (parsed_bookmarks bs))))" for c
      by (simp add: latest_of_def) (cases "set (parsed_bookmarks bs) = {}"; simp add: max.assoc)
    then show ?thesis
      using Cons.IH [OF acc Cons.prems(2)] Inr by (cases f) (simp_all add: insert_commute)
  qed
qed

lemma normalize_loop_eq:
  assumes "bookmarks_accepted mode bs" "mode \<noteq> BmNone"
  shows "normalize_loop mode bs = Inr (map tx_stable_id (parsed_bookmarks bs))"
  using assms
proof (induction bs)
  case (Cons b bs)
  then have acc: "bookmarks_accepted mode bs" by (auto simp: bookmarks_accepted_def)
  show ?case
  proof (cases "parse_bookmark b")
    case (Inl e)
    then have "mode = BmOptional"
      using Cons.prems by (cases mode) (auto simp: bookmarks_accepted_def)
    then show ?thesis using Cons.IH [OF acc] Inl by simp
  qed (use Cons.IH [OF acc] Cons.prems in simp)
qed simp

lemma loops_reject:
  assumes "\<not> bookmarks_accepted mode bs"
  shows "(\<exists>e. fence_loop mode bs f = Inl (InvalidBookmark e)) \<and> (\<exists>e. normalize_loop mode bs = Inl (InvalidBookmark e))"
  using assms
proof (induction bs arbitrary: f)
  case (Cons b bs)
  have m: "mode = BmRequired" using Cons.prems by (simp add: bookmarks_accepted_def)
  show ?case
  proof (cases "parse_bookmark b")
    case (Inl e)
    then obtain s where "e = InvalidBookmark s"
      by (auto simp: parse_bookmark_def Let_def split: list.splits option.splits)
    with Inl m show ?thesis by simp
  next
    case (Inr t)
    with Cons.prems m have "\<not> bookmarks_accepted mode bs" by (auto simp: bookmarks_accepted_def)
    from Cons.IH [OF this] Inr show ?thesis by fastforce
  qed
qed (simp add: bookmarks_accepted_def)

lemma parsed_normalized:
  assumes "\<forall>t\<in>set ts. tx_in_range t" shows "parsed_bookmarks (map tx_stable_id ts) = ts"
  using assms by (induction ts) (simp_all add: parse_stable_id)

text \<open>
  C16: The id of a transaction printed as a bookmark is read back exactly; the read fence of a list of
  bookmarks is the latest id among those that parse, with a bookmark that does not parse refused in
  the required mode and skipped in the optional one; and normalising the list, which a transaction
  stores, keeps its fence.
\<close>

theorem bookmark_fence:
  "(\<forall>t. tx_in_range t \<longrightarrow> parse_bookmark (tx_stable_id t) = Inr t) \<and>
   (\<forall>bs mode. mode \<noteq> BmNone \<longrightarrow>
      (if bookmarks_accepted mode bs
       then resolve_bookmark_fence bs mode = Inr (latest_of (set (parsed_bookmarks bs))) \<and>
         (\<exists>ns. normalize_bookmarks bs mode = Inr ns \<and> resolve_bookmark_fence ns BmRequired = resolve_bookmark_fence bs mode)
       else (\<exists>e. resolve_bookmark_fence bs mode = Inl (InvalidBookmark e)) \<and>
         (\<exists>e. normalize_bookmarks bs mode = Inl (InvalidBookmark e))))"
proof (intro conjI allI impI)
  fix t assume "tx_in_range t"
  then show "parse_bookmark (tx_stable_id t) = Inr t" by (rule parse_stable_id)
next
  fix bs and mode :: bookmark_mode
  assume mode: "mode \<noteq> BmNone"
  have ranges: "\<forall>t\<in>set (parsed_bookmarks bs). tx_in_range t" using parsed_in_range by blast
  then have acc: "bookmarks_accepted BmRequired (map tx_stable_id (parsed_bookmarks bs))"
    by (auto simp: bookmarks_accepted_def parse_stable_id)
  show "if bookmarks_accepted mode bs
       then resolve_bookmark_fence bs mode = Inr (latest_of (set (parsed_bookmarks bs))) \<and>
         (\<exists>ns. normalize_bookmarks bs mode = Inr ns \<and> resolve_bookmark_fence ns BmRequired = resolve_bookmark_fence bs mode)
       else (\<exists>e. resolve_bookmark_fence bs mode = Inl (InvalidBookmark e)) \<and>
         (\<exists>e. normalize_bookmarks bs mode = Inl (InvalidBookmark e))"
    using mode loops_reject [of mode bs None]
    by (simp add: resolve_bookmark_fence_def normalize_bookmarks_def fence_loop_eq normalize_loop_eq
        fence_loop_eq [OF acc] parsed_normalized [OF ranges])
qed

theorem bookmark_fence_witness:
  "parse_bookmark (tx_stable_id (LogicalTxId 1 42 7)) = Inr (LogicalTxId 1 42 7) \<and>
   resolve_bookmark_fence [tx_stable_id (LogicalTxId 1 42 7), ''junk''] BmOptional = Inr (Some (LogicalTxId 1 42 7))"
proof -
  have p: "parse_bookmark (tx_stable_id (LogicalTxId 1 42 7)) = Inr (LogicalTxId 1 42 7)"
    by (rule bookmark_fence [THEN conjunct1, rule_format]) (simp add: tx_in_range_def u64_max_def u32_max_def)
  have "trim ''junk'' = ''junk''" by (rule trim_graph) (simp_all add: graph_char_def)
  then have "parse_bookmark ''junk'' = Inl (InvalidBookmark ''junk'')"
    by (simp add: parse_bookmark_def Let_def)
  then show ?thesis
    using p bookmark_fence [THEN conjunct2, rule_format, of BmOptional "[tx_stable_id (LogicalTxId 1 42 7), ''junk'']"]
    by (simp add: bookmarks_accepted_def latest_of_def)
qed

subsection \<open>Transactions\<close>

record session_config =
  sc_mode :: transaction_mode
  sc_database :: "string option"
  sc_fetch_size :: nat
  sc_timeout :: nat
  sc_bookmarks :: "string list"
  sc_bookmark_mode :: bookmark_mode

text \<open>Durations are in milliseconds.\<close>

definition session_config_default :: session_config where
  "session_config_default =
     \<lparr>sc_mode = WriteMode, sc_database = None, sc_fetch_size = 1000, sc_timeout = 30000,
      sc_bookmarks = [], sc_bookmark_mode = BmNone\<rparr>"

record transaction =
  tx_id :: uuid
  tx_state :: transaction_state
  tx_mode :: transaction_mode
  tx_created_at :: instant
  tx_timeout :: nat
  tx_bookmarks :: "string list"
  tx_database :: "string option"
  tx_begin_timestamp :: logical_tx_id
  tx_commit_timestamp :: "logical_tx_id option"
  tx_pending :: "tx_operation list"
  tx_isolation :: isolation_level

definition new_with_timestamp :: "uuid \<Rightarrow> instant \<Rightarrow> session_config \<Rightarrow> logical_tx_id \<Rightarrow> transaction" where
  "new_with_timestamp new_id now config begin_timestamp =
     \<lparr>tx_id = new_id, tx_state = Active, tx_mode = sc_mode config, tx_created_at = now,
      tx_timeout = sc_timeout config, tx_bookmarks = sc_bookmarks config, tx_database = sc_database config,
      tx_begin_timestamp = begin_timestamp, tx_commit_timestamp = None, tx_pending = [],
      tx_isolation = ReadCommitted\<rparr>"

definition tx_new :: "uuid \<Rightarrow> instant \<Rightarrow> session_config \<Rightarrow> transaction" where
  "tx_new new_id now config = new_with_timestamp new_id now config tx_zero"

definition tx_begin :: "uuid \<Rightarrow> instant \<Rightarrow> string \<Rightarrow> isolation_level \<Rightarrow> transaction" where
  "tx_begin new_id now database isolation =
     \<lparr>tx_id = new_id, tx_state = Active, tx_mode = WriteMode, tx_created_at = now, tx_timeout = 30000,
      tx_bookmarks = [], tx_database = Some database, tx_begin_timestamp = tx_zero,
      tx_commit_timestamp = None, tx_pending = [], tx_isolation = isolation\<rparr>"

definition tx_is_expired :: "instant \<Rightarrow> transaction \<Rightarrow> bool" where
  "tx_is_expired now tx \<longleftrightarrow> tx_timeout tx < now - tx_created_at tx"

definition tx_is_active :: "instant \<Rightarrow> transaction \<Rightarrow> bool" where
  "tx_is_active now tx \<longleftrightarrow> tx_state tx = Active \<and> \<not> tx_is_expired now tx"

definition tx_commit_at :: "logical_tx_id \<Rightarrow> instant \<Rightarrow> transaction \<Rightarrow> transaction \<times> (tx_error + unit)" where
  "tx_commit_at commit_timestamp now tx =
     (if tx_is_expired now tx then (tx\<lparr>tx_state := Failed, tx_pending := []\<rparr>, Inl TimedOut)
      else (case tx_state tx of
        Active \<Rightarrow> (tx\<lparr>tx_state := Committed, tx_commit_timestamp := Some commit_timestamp\<rparr>, Inr ())
      | Committed \<Rightarrow> (tx, Inl TransactionClosed)
      | Failed \<Rightarrow> (tx, Inl TransactionClosed)
      | RolledBack \<Rightarrow> (tx, Inl TransactionRolledBack)))"

definition tx_commit :: "instant \<Rightarrow> transaction \<Rightarrow> transaction \<times> (tx_error + unit)" where
  "tx_commit now tx = tx_commit_at tx_zero now tx"

definition tx_rollback :: "transaction \<Rightarrow> transaction \<times> (tx_error + unit)" where
  "tx_rollback tx =
     (case tx_state tx of
        Active \<Rightarrow> (tx\<lparr>tx_state := RolledBack, tx_pending := []\<rparr>, Inr ())
      | Failed \<Rightarrow> (tx\<lparr>tx_state := RolledBack, tx_pending := []\<rparr>, Inr ())
      | RolledBack \<Rightarrow> (tx, Inl TransactionRolledBack)
      | Committed \<Rightarrow> (tx, Inl TransactionClosed))"

definition ensure_writable :: "instant \<Rightarrow> transaction \<Rightarrow> tx_error + unit" where
  "ensure_writable now tx =
     (if tx_is_expired now tx then Inl TimedOut
      else (case tx_state tx of
        Active \<Rightarrow> Inr ()
      | Committed \<Rightarrow> Inl TransactionClosed
      | Failed \<Rightarrow> Inl TransactionClosed
      | RolledBack \<Rightarrow> Inl TransactionRolledBack))"

definition tx_add_operation :: "tx_operation \<Rightarrow> instant \<Rightarrow> transaction \<Rightarrow> transaction \<times> (tx_error + unit)" where
  "tx_add_operation op now tx =
     (case ensure_writable now tx of
        Inl e \<Rightarrow> (tx, Inl e)
      | Inr _ \<Rightarrow> if tx_mode tx = ReadMode then (tx, Inl TransactionReadOnly)
                else (tx\<lparr>tx_pending := tx_pending tx @ [op]\<rparr>, Inr ()))"

definition take_pending :: "transaction \<Rightarrow> transaction \<times> tx_operation list" where
  "take_pending tx = (tx\<lparr>tx_pending := []\<rparr>, tx_pending tx)"

text \<open>
  A committed transaction does not stay committed: once its timeout has passed, a second commit
  marks it failed and discards its pending operations, and it can then be rolled back, with its
  commit timestamp still set.
\<close>

theorem committed_then_rolled_back:
  "let tx0 = tx_begin 1 0 ''db'' Serializable;
       (tx1, r1) = tx_commit_at (LogicalTxId 1 1 0) 10 tx0;
       (tx2, r2) = tx_commit_at (LogicalTxId 1 2 0) 40000 tx1;
       (tx3, r3) = tx_rollback tx2
   in r1 = Inr () \<and> tx_state tx1 = Committed \<and> r2 = Inl TimedOut \<and> tx_state tx2 = Failed \<and>
      r3 = Inr () \<and> tx_state tx3 = RolledBack \<and> tx_commit_timestamp tx3 = Some (LogicalTxId 1 1 0)"
  by (simp add: tx_begin_def tx_commit_at_def tx_is_expired_def tx_rollback_def Let_def)

subsection \<open>The transaction manager\<close>

record tx_manager =
  tm_active :: "uuid \<Rightarrow> transaction option"
  tm_clock :: tx_clock

definition tm_with_clock :: "tx_clock \<Rightarrow> tx_manager" where
  "tm_with_clock ck = \<lparr>tm_active = Map.empty, tm_clock = ck\<rparr>"

definition tm_new :: tx_manager where
  "tm_new = tm_with_clock (clock_new 0)"

definition issue_begin_timestamp :: "session_config \<Rightarrow> tx_manager \<Rightarrow> tx_manager \<times> (tx_error + logical_tx_id)" where
  "issue_begin_timestamp config tm =
     (case resolve_bookmark_fence (sc_bookmarks config) (sc_bookmark_mode config) of
        Inl e \<Rightarrow> (tm, Inl e)
      | Inr (Some fence) \<Rightarrow> (let (ck, t) = clock_observe fence (tm_clock tm) in (tm\<lparr>tm_clock := ck\<rparr>, Inr t))
      | Inr None \<Rightarrow> (let (ck, t) = clock_issue (tm_clock tm) in (tm\<lparr>tm_clock := ck\<rparr>, Inr t)))"

definition tm_begin :: "uuid \<Rightarrow> instant \<Rightarrow> session_config \<Rightarrow> tx_manager \<Rightarrow> tx_manager \<times> (tx_error + uuid)" where
  "tm_begin new_id now config tm =
     (case issue_begin_timestamp config tm of
        (tm, Inl e) \<Rightarrow> (tm, Inl e)
      | (tm, Inr begin_timestamp) \<Rightarrow>
          (let tx = new_with_timestamp new_id now config begin_timestamp
           in case normalize_bookmarks (sc_bookmarks config) (sc_bookmark_mode config) of
                Inl e \<Rightarrow> (tm, Inl e)
              | Inr bookmarks \<Rightarrow>
                  (tm\<lparr>tm_active := hm_insert new_id (tx\<lparr>tx_bookmarks := bookmarks\<rparr>) (tm_active tm)\<rparr>, Inr new_id)))"

definition tm_read_fence :: "uuid \<Rightarrow> tx_manager \<Rightarrow> tx_error + logical_tx_id" where
  "tm_read_fence k tm =
     (case tm_active tm k of None \<Rightarrow> Inl NoActiveTransaction | Some tx \<Rightarrow> Inr (tx_begin_timestamp tx))"

text \<open>\<open>later\<close> is the clock reading of the \<open>is_active\<close> test that decides the re-insertion.\<close>

definition commit_with_bookmark ::
    "uuid \<Rightarrow> instant \<Rightarrow> instant \<Rightarrow> tx_manager \<Rightarrow> tx_manager \<times> (tx_error + string)" where
  "commit_with_bookmark k now later tm =
     (case tm_active tm k of
        None \<Rightarrow> (tm, Inl NoActiveTransaction)
      | Some tx \<Rightarrow>
          (let tm = tm\<lparr>tm_active := hm_remove k (tm_active tm)\<rparr>;
               (ck, commit_timestamp) = clock_issue (tm_clock tm);
               tm = tm\<lparr>tm_clock := ck\<rparr>
           in case tx_commit_at commit_timestamp now tx of
                (tx, Inr _) \<Rightarrow> (tm, Inr (tx_stable_id commit_timestamp))
              | (tx, Inl err) \<Rightarrow>
                  ((if tx_is_active later tx then tm\<lparr>tm_active := hm_insert k tx (tm_active tm)\<rparr> else tm), Inl err)))"

definition tm_commit :: "uuid \<Rightarrow> instant \<Rightarrow> instant \<Rightarrow> tx_manager \<Rightarrow> tx_manager \<times> (tx_error + unit)" where
  "tm_commit k now later tm = (let (tm, r) = commit_with_bookmark k now later tm in (tm, map_sum id (\<lambda>_. ()) r))"

definition tm_rollback :: "uuid \<Rightarrow> instant \<Rightarrow> tx_manager \<Rightarrow> tx_manager \<times> (tx_error + unit)" where
  "tm_rollback k later tm =
     (case tm_active tm k of
        None \<Rightarrow> (tm, Inl NoActiveTransaction)
      | Some tx \<Rightarrow>
          (let tm = tm\<lparr>tm_active := hm_remove k (tm_active tm)\<rparr>
           in case tx_rollback tx of
                (tx, Inr _) \<Rightarrow> (tm, Inr ())
              | (tx, Inl err) \<Rightarrow>
                  ((if tx_is_active later tx then tm\<lparr>tm_active := hm_insert k tx (tm_active tm)\<rparr> else tm), Inl err)))"

definition tm_is_active :: "uuid \<Rightarrow> instant \<Rightarrow> tx_manager \<Rightarrow> bool" where
  "tm_is_active k now tm = (case tm_active tm k of Some tx \<Rightarrow> tx_is_active now tx | None \<Rightarrow> False)"

definition tm_add_operation ::
    "uuid \<Rightarrow> tx_operation \<Rightarrow> instant \<Rightarrow> tx_manager \<Rightarrow> tx_manager \<times> (tx_error + unit)" where
  "tm_add_operation k op now tm =
     (case tm_active tm k of
        None \<Rightarrow> (tm, Inl NoActiveTransaction)
      | Some tx \<Rightarrow> (let (tx, r) = tx_add_operation op now tx
                   in (tm\<lparr>tm_active := (tm_active tm)(k \<mapsto> tx)\<rparr>, r)))"

definition tm_cleanup_expired :: "instant \<Rightarrow> tx_manager \<Rightarrow> tx_manager" where
  "tm_cleanup_expired now tm =
     tm\<lparr>tm_active := (\<lambda>k. case tm_active tm k of
        Some tx \<Rightarrow> if tx_is_expired now tx then None else Some tx | None \<Rightarrow> None)\<rparr>"

definition tm_remove :: "uuid \<Rightarrow> tx_manager \<Rightarrow> tx_manager" where
  "tm_remove k tm = tm\<lparr>tm_active := hm_remove k (tm_active tm)\<rparr>"

end
