(* ===== verification/Tx_Manager.thy ===== *)
theory Tx_Manager
  imports Tx_Transaction
begin

text \<open>
  Runs of the transaction manager of crates/txsession/src/lib.rs: what holds of the transactions it
  keeps, how a commit or rollback settles a transaction, and the order bookmarks impose.
\<close>

subsection \<open>Runs\<close>

datatype tm_event =
    EBegin uuid instant session_config
  | ECommit uuid instant instant
  | ERollback uuid instant
  | EAdd uuid tx_operation instant
  | ECleanup instant
  | ERemove uuid

primrec tm_apply :: "tm_event \<Rightarrow> tx_manager \<Rightarrow> tx_manager" where
  "tm_apply (EBegin k now config) tm = fst (tm_begin k now config tm)"
| "tm_apply (ECommit k now later) tm = fst (commit_with_bookmark k now later tm)"
| "tm_apply (ERollback k later) tm = fst (tm_rollback k later tm)"
| "tm_apply (EAdd k op now) tm = fst (tm_add_operation k op now tm)"
| "tm_apply (ECleanup now) tm = tm_cleanup_expired now tm"
| "tm_apply (ERemove k) tm = tm_remove k tm"

inductive tm_step :: "tx_manager \<Rightarrow> tx_manager \<Rightarrow> bool" where
  apply_event: "tm_step tm (tm_apply ev tm)"

inductive_cases tm_stepE: "tm_step tm tm'"

inductive tm_start :: "tx_manager \<Rightarrow> bool" where
  "tm_start (tm_with_clock ck)"

definition open_tx :: "uuid \<Rightarrow> transaction \<Rightarrow> bool" where
  "open_tx k tx \<longleftrightarrow> tx_id tx = k \<and> tx_state tx = Active \<and> tx_commit_timestamp tx = None \<and>
     (tx_mode tx = ReadMode \<longrightarrow> tx_pending tx = [])"

definition tm_ok :: "tx_manager \<Rightarrow> bool" where
  "tm_ok tm \<longleftrightarrow> (\<forall>k tx. tm_active tm k = Some tx \<longrightarrow> open_tx k tx)"

lemma tm_okD: "tm_ok tm \<Longrightarrow> tm_active tm k = Some tx \<Longrightarrow> open_tx k tx"
  by (simp add: tm_ok_def)

text \<open>Begin adds at most one entry, a fresh transaction.\<close>

lemma tm_begin_cases:
  "\<exists>ck. fst (tm_begin k now config tm) = tm\<lparr>tm_clock := ck\<rparr> \<or>
     (\<exists>t bs. fst (tm_begin k now config tm) =
        tm\<lparr>tm_clock := ck, tm_active := (tm_active tm)(k \<mapsto> (new_with_timestamp k now config t)\<lparr>tx_bookmarks := bs\<rparr>)\<rparr>)"
proof (cases "resolve_bookmark_fence (sc_bookmarks config) (sc_bookmark_mode config)")
  case (Inl e)
  then show ?thesis
    by (intro exI [of _ "tm_clock tm"] disjI1) (simp add: tm_begin_def issue_begin_timestamp_def)
next
  case (Inr fence)
  then show ?thesis
    unfolding tm_begin_def issue_begin_timestamp_def
    by (cases "normalize_bookmarks (sc_bookmarks config) (sc_bookmark_mode config)")
      (auto simp: Let_def hm_insert_def split: option.split prod.split)
qed

text \<open>
  The branch that puts a transaction back after a failed commit or rollback is never taken: what
  fails is not active.
\<close>

lemma commit_at_not_active:
  "snd (tx_commit_at t now tx) = Inl e \<Longrightarrow> \<not> tx_is_active later (fst (tx_commit_at t now tx))"
  by (auto simp: tx_commit_at_def tx_is_active_def split: if_splits transaction_state.splits)

lemma rollback_not_active:
  "snd (tx_rollback tx) = Inl e \<Longrightarrow> \<not> tx_is_active later (fst (tx_rollback tx))"
  by (auto simp: tx_rollback_def tx_is_active_def split: transaction_state.splits)

lemma commit_with_bookmark_eq:
  "commit_with_bookmark k now later tm =
     (case tm_active tm k of
        None \<Rightarrow> (tm, Inl NoActiveTransaction)
      | Some tx \<Rightarrow> (tm\<lparr>tm_active := (tm_active tm)(k := None), tm_clock := fst (clock_issue (tm_clock tm))\<rparr>,
          map_sum id (\<lambda>_. tx_stable_id (snd (clock_issue (tm_clock tm))))
            (snd (tx_commit_at (snd (clock_issue (tm_clock tm))) now tx))))"
proof (cases "tm_active tm k")
  case (Some tx)
  obtain ck t where ck: "clock_issue (tm_clock tm) = (ck, t)" by (cases "clock_issue (tm_clock tm)")
  obtain tx' r where r: "tx_commit_at t now tx = (tx', r)" by (cases "tx_commit_at t now tx")
  have "r = Inl e \<Longrightarrow> \<not> tx_is_active later tx'" for e
    using commit_at_not_active [of t now tx e later] r by simp
  then show ?thesis
    using Some ck r by (cases r) (simp_all add: commit_with_bookmark_def hm_remove_def)
qed (simp add: commit_with_bookmark_def)

lemma tm_rollback_eq:
  "tm_rollback k later tm =
     (case tm_active tm k of
        None \<Rightarrow> (tm, Inl NoActiveTransaction)
      | Some tx \<Rightarrow> (tm\<lparr>tm_active := (tm_active tm)(k := None)\<rparr>, snd (tx_rollback tx)))"
proof (cases "tm_active tm k")
  case (Some tx)
  obtain tx' r where r: "tx_rollback tx = (tx', r)" by (cases "tx_rollback tx")
  have "r = Inl e \<Longrightarrow> \<not> tx_is_active later tx'" for e
    using rollback_not_active [of tx e later] r by simp
  then show ?thesis
    using Some r by (cases r) (simp_all add: tm_rollback_def hm_remove_def)
qed (simp add: tm_rollback_def)

lemma open_add_operation: "open_tx k tx \<Longrightarrow> open_tx k (fst (tx_add_operation op now tx))"
  by (auto simp: open_tx_def tx_add_operation_def split: sum.split)

lemma tm_ok_apply:
  assumes "tm_ok tm" shows "tm_ok (tm_apply ev tm)"
proof (cases ev)
  case (EBegin k now config)
  then show ?thesis
    using tm_begin_cases [of k now config tm] assms
    by (auto simp: tm_ok_def open_tx_def new_with_timestamp_def split: if_split_asm)
next
  case (ECommit k now later)
  then show ?thesis using assms by (auto simp: commit_with_bookmark_eq tm_ok_def split: option.split)
next
  case (ERollback k later)
  then show ?thesis using assms by (auto simp: tm_rollback_eq tm_ok_def split: option.split)
next
  case (EAdd k op now)
  then show ?thesis
    using assms open_add_operation [of k _ op now]
    by (auto simp: tm_add_operation_def tm_ok_def case_prod_beta split: option.split)
next
  case (ECleanup now)
  then show ?thesis using assms by (auto simp: tm_cleanup_expired_def tm_ok_def split: option.splits if_splits)
next
  case (ERemove k)
  then show ?thesis using assms by (auto simp: tm_remove_def hm_remove_def tm_ok_def)
qed

interpretation manager: inductive_invariant tm_start tm_step tm_ok
proof
  show "tm_start s \<Longrightarrow> tm_ok s" for s
    by (auto elim!: tm_start.cases simp: tm_with_clock_def tm_ok_def)
  show "tm_ok s \<Longrightarrow> tm_step s s' \<Longrightarrow> tm_ok s'" for s s'
    by (auto elim!: tm_stepE intro: tm_ok_apply)
qed

subsection \<open>Properties\<close>

text \<open>
  C17: In every reachable state of the manager each transaction it keeps is open (active, not
  committed, with no pending operation if it is read-only), and one commit or rollback settles a
  transaction for good: it is removed whatever the result, the others are untouched, a commit
  succeeds exactly when it has not timed out, a rollback always does, and any further commit,
  rollback or operation on the id is refused as inactive.
\<close>

theorem commit_settles:
  assumes "tm_start tm0" "tm_step\<^sup>*\<^sup>* tm0 tm" "tm_active tm k = Some tx"
  shows "open_tx k tx \<and>
    (let (tm', r) = commit_with_bookmark k now later tm in
       tm_active tm' = (tm_active tm)(k := None) \<and>
       r = (if tx_is_expired now tx then Inl TimedOut else Inr (tx_stable_id (snd (clock_issue (tm_clock tm))))) \<and>
       snd (commit_with_bookmark k now' later' tm') = Inl NoActiveTransaction \<and>
       snd (tm_rollback k later' tm') = Inl NoActiveTransaction \<and>
       snd (tm_add_operation k op now' tm') = Inl NoActiveTransaction) \<and>
    (let (tm', r) = tm_rollback k later tm in
       tm_active tm' = (tm_active tm)(k := None) \<and> r = Inr () \<and>
       snd (commit_with_bookmark k now' later' tm') = Inl NoActiveTransaction)"
proof -
  have op: "open_tx k tx"
    using manager.inv_reachable [OF assms(1,2)] tm_okD assms(3) by blast
  then have st: "tx_state tx = Active" by (simp add: open_tx_def)
  show ?thesis
    using assms(3) op st
    by (simp add: commit_with_bookmark_eq tm_rollback_eq Let_def tm_add_operation_def tx_commit_at_def tx_rollback_def)
qed

theorem commit_settles_witness:
  "let tm = tm_apply (EAdd 7 (Put ''t'' [] []) 5) (tm_apply (EBegin 7 0 session_config_default) tm_new)
   in (\<exists>tx. tm_active tm 7 = Some tx \<and> open_tx 7 tx \<and> tx_pending tx = [Put ''t'' [] []]) \<and>
      snd (commit_with_bookmark 7 40000 40000 tm) = Inl TimedOut"
proof -
  define tm where "tm = tm_apply (EAdd 7 (Put ''t'' [] []) 5) (tm_apply (EBegin 7 0 session_config_default) tm_new)"
  have start: "tm_start tm_new" unfolding tm_new_def by (rule tm_start.intros)
  have run: "tm_step\<^sup>*\<^sup>* tm_new tm"
    unfolding tm_def
    by (rule rtranclp.rtrancl_into_rtrancl, rule r_into_rtranclp) (rule apply_event)+
  obtain tx where tx: "tm_active tm 7 = Some tx" "tx_pending tx = [Put ''t'' [] []]" "tx_is_expired 40000 tx"
    by (simp add: tm_def tm_new_def tm_with_clock_def tm_begin_def issue_begin_timestamp_def
        session_config_default_def resolve_bookmark_fence_def normalize_bookmarks_def hm_insert_def
        tm_add_operation_def tx_add_operation_def ensure_writable_def new_with_timestamp_def
        tx_is_expired_def case_prod_beta)
  show ?thesis
    using commit_settles [OF start run tx(1), of 40000 40000 0 0 "Put ''t'' [] []"] tx
    unfolding tm_def [symmetric] by (auto simp: Let_def case_prod_beta)
qed

lemma map_sum_Inr_iff: "map_sum f g r = Inr y \<longleftrightarrow> (\<exists>x. r = Inr x \<and> y = g x)"
  by (cases r) auto

lemma parsed_bookmarks_mem:
  "b \<in> set bs \<Longrightarrow> parse_bookmark b = Inr t \<Longrightarrow> t \<in> set (parsed_bookmarks bs)"
  by (induction bs) (auto split: sum.split)

text \<open>
  C18: Bookmarks order transactions across managers: when a commit on one manager returned a bookmark,
  a transaction begun anywhere with that bookmark among those it accepts has a begin timestamp, its
  read fence, later than the commit's, provided the counters have room.
\<close>

theorem bookmarks_are_causal:
  assumes "commit_with_bookmark k now later tmA = (tmA', Inr b)"
    and "ck_counter (tm_clock tmA) < u64_max" "ck_epoch (tm_clock tmA) \<le> u64_max" "ck_node_ordinal (tm_clock tmA) \<le> u32_max"
    and "b \<in> set (sc_bookmarks config)" "sc_bookmark_mode config \<noteq> BmNone"
    and "bookmarks_accepted (sc_bookmark_mode config) (sc_bookmarks config)"
    and "ck_counter (tm_clock tmB) < u64_max" "\<forall>t\<in>set (parsed_bookmarks (sc_bookmarks config)). tx_counter t < u64_max"
  shows "\<exists>commit_ts tmB' tx. parse_bookmark b = Inr commit_ts \<and> clock_latest (tm_clock tmA) < commit_ts \<and>
    tm_begin new_id now' config tmB = (tmB', Inr new_id) \<and> tm_active tmB' new_id = Some tx \<and>
    commit_ts < tx_begin_timestamp tx \<and> tm_read_fence new_id tmB' = Inr (tx_begin_timestamp tx) \<and>
    clock_latest (tm_clock tmB) < tx_begin_timestamp tx"
proof -
  define ct where "ct = snd (clock_issue (tm_clock tmA))"
  have b: "b = tx_stable_id ct"
    using assms(1) by (auto simp: commit_with_bookmark_eq ct_def map_sum_Inr_iff split: option.splits)
  have ct_range: "tx_in_range ct"
    using assms(2-4) by (simp add: ct_def clock_issue_eq tx_in_range_def)
  then have parse: "parse_bookmark b = Inr ct" by (simp add: b parse_stable_id)
  have later: "clock_latest (tm_clock tmA) < ct"
    using clock.issue_later [of "tm_clock tmA"] assms(2) by (simp add: ct_def clock_room_def)
  let ?ts = "parsed_bookmarks (sc_bookmarks config)"
  have mem: "ct \<in> set ?ts"
    by (rule parsed_bookmarks_mem [OF assms(5) parse])
  define fence where "fence = Max (set ?ts)"
  have fence: "ct \<le> fence" "fence \<in> set ?ts" unfolding fence_def using mem by (auto intro: Max_in)
  have res: "resolve_bookmark_fence (sc_bookmarks config) (sc_bookmark_mode config) = Inr (Some fence)"
    using fence_loop_eq [OF assms(7,6), of None] assms(6) mem by (auto simp: resolve_bookmark_fence_def latest_of_def fence_def)
  have norm: "normalize_bookmarks (sc_bookmarks config) (sc_bookmark_mode config) = Inr (map tx_stable_id ?ts)"
    using normalize_loop_eq [OF assms(7,6)] assms(6) by (simp add: normalize_bookmarks_def)
  obtain ck bt where obs: "clock_observe fence (tm_clock tmB) = (ck, bt)" by (cases "clock_observe fence (tm_clock tmB)")
  have "fence < bt \<and> clock_latest (tm_clock tmB) < bt"
    using clock.observe_later [of "tm_clock tmB" fence] obs assms(8,9) fence(2) by (simp add: clock_room_def id_room_def)
  then show ?thesis
    using parse later fence(1) res norm obs
    by (auto simp: tm_begin_def issue_begin_timestamp_def hm_insert_def new_with_timestamp_def tm_read_fence_def)
qed

theorem bookmarks_are_causal_witness:
  "let b = tx_stable_id (LogicalTxId 1 2 0);
       config = session_config_default\<lparr>sc_bookmarks := [b], sc_bookmark_mode := BmRequired\<rparr>
   in snd (commit_with_bookmark 1 10 10 (fst (tm_begin 1 0 session_config_default tm_new))) = Inr b \<and>
      (\<exists>tmB tx. tm_begin 5 20 config (tm_with_clock (clock_new 3)) = (tmB, Inr 5) \<and>
         tm_active tmB 5 = Some tx \<and> LogicalTxId 1 2 0 < tx_begin_timestamp tx)"
proof -
  let ?b = "tx_stable_id (LogicalTxId 1 2 0)"
  let ?config = "session_config_default\<lparr>sc_bookmarks := [?b], sc_bookmark_mode := BmRequired\<rparr>"
  define tmA where "tmA = fst (tm_begin 1 0 session_config_default tm_new)"
  have ckA: "tm_clock tmA = \<lparr>ck_node_ordinal = 0, ck_epoch = 1, ck_counter = 1\<rparr>"
    "\<exists>tx. tm_active tmA 1 = Some tx \<and> tx_state tx = Active \<and> \<not> tx_is_expired 10 tx"
    by (simp_all add: tmA_def tm_begin_def issue_begin_timestamp_def session_config_default_def resolve_bookmark_fence_def
        normalize_bookmarks_def tm_new_def tm_with_clock_def clock_new_def clock_with_epoch_def clock_issue_def
        wadd64_def hm_insert_def new_with_timestamp_def tx_is_expired_def)
  have issue: "clock_issue (tm_clock tmA) = (\<lparr>ck_node_ordinal = 0, ck_epoch = 1, ck_counter = 2\<rparr>, LogicalTxId 1 2 0)"
    by (simp add: ckA clock_issue_def wadd64_def)
  obtain tmA' where commit: "commit_with_bookmark 1 10 10 tmA = (tmA', Inr ?b)"
    using ckA(2) issue by (auto simp: commit_with_bookmark_eq tx_commit_at_def)
  have "tx_in_range (LogicalTxId 1 2 0)" by (simp add: tx_in_range_def u64_max_def u32_max_def)
  then have parse: "parse_bookmark ?b = Inr (LogicalTxId 1 2 0)" by (rule parse_stable_id)
  have "\<exists>commit_ts tmB' tx. parse_bookmark ?b = Inr commit_ts \<and> clock_latest (tm_clock tmA) < commit_ts \<and>
    tm_begin 5 20 ?config (tm_with_clock (clock_new 3)) = (tmB', Inr 5) \<and> tm_active tmB' 5 = Some tx \<and>
    commit_ts < tx_begin_timestamp tx \<and> tm_read_fence 5 tmB' = Inr (tx_begin_timestamp tx) \<and>
    clock_latest (tm_clock (tm_with_clock (clock_new 3))) < tx_begin_timestamp tx"
    by (rule bookmarks_are_causal [OF commit])
      (simp_all add: ckA(1) u64_max_def u32_max_def bookmarks_accepted_def parse [simplified] tm_with_clock_def clock_new_def
        clock_with_epoch_def)
  with parse commit show ?thesis unfolding tmA_def [symmetric] by (auto simp: Let_def)
qed

end
