(* ===== verification/Tx_Session.thy ===== *)
theory Tx_Session
  imports Tx_Manager
begin

text \<open>
  Sessions of crates/txsession/src/lib.rs: a session binds an owner and an expiry to one transaction
  of the manager, remembers the first terminal error, and ends with a commit, a rollback or a
  deletion.
\<close>

record session =
  se_id :: uuid
  se_transaction_id :: uuid
  se_database :: "string option"
  se_bookmarks :: "string list"
  se_read_fence :: logical_tx_id
  se_owner :: "string option"
  se_expires_at :: instant
  se_terminal_error :: "tx_error option"

definition se_is_expired :: "instant \<Rightarrow> session \<Rightarrow> bool" where
  "se_is_expired now s \<longleftrightarrow> se_expires_at s < now"

record session_manager =
  sm_sessions :: "uuid \<Rightarrow> session option"
  sm_transactions :: tx_manager
  sm_ttl :: nat

definition sm_with_transactions :: "nat \<Rightarrow> tx_manager \<Rightarrow> session_manager" where
  "sm_with_transactions ttl transactions =
     \<lparr>sm_sessions = Map.empty, sm_transactions = transactions, sm_ttl = (if ttl = 0 then 30000 else ttl)\<rparr>"

definition sm_new :: "nat \<Rightarrow> session_manager" where
  "sm_new ttl = sm_with_transactions ttl tm_new"

definition trimmed_owner :: "string option \<Rightarrow> string option" where
  "trimmed_owner owner =
     (case owner of None \<Rightarrow> None | Some value \<Rightarrow> if trim value = [] then None else Some (trim value))"

text \<open>\<open>now\<close> is read when the transaction is created, \<open>later\<close> when the session's expiry is set.\<close>

definition open_for_owner ::
    "uuid \<Rightarrow> uuid \<Rightarrow> instant \<Rightarrow> instant \<Rightarrow> session_config \<Rightarrow> string option \<Rightarrow> session_manager \<Rightarrow>
     session_manager \<times> (tx_error + uuid)" where
  "open_for_owner new_tx_id session_id now later config owner sm =
     (case tm_begin new_tx_id now config (sm_transactions sm) of
        (tm, Inl e) \<Rightarrow> (sm\<lparr>sm_transactions := tm\<rparr>, Inl e)
      | (tm, Inr transaction_id) \<Rightarrow>
          (let sm = sm\<lparr>sm_transactions := tm\<rparr>
           in case tm_active tm transaction_id of
                None \<Rightarrow> (sm, Inl NoActiveTransaction)
              | Some transaction \<Rightarrow>
                  (let s = \<lparr>se_id = session_id, se_transaction_id = transaction_id, se_database = sc_database config,
                            se_bookmarks = tx_bookmarks transaction, se_read_fence = tx_begin_timestamp transaction,
                            se_owner = trimmed_owner owner, se_expires_at = later + sm_ttl sm,
                            se_terminal_error = None\<rparr>
                   in (sm\<lparr>sm_sessions := hm_insert session_id s (sm_sessions sm)\<rparr>, Inr session_id))))"

definition sm_open ::
    "uuid \<Rightarrow> uuid \<Rightarrow> instant \<Rightarrow> instant \<Rightarrow> session_config \<Rightarrow> session_manager \<Rightarrow> session_manager \<times> (tx_error + uuid)" where
  "sm_open new_tx_id session_id now later config sm = open_for_owner new_tx_id session_id now later config None sm"

definition get_for_owner :: "uuid \<Rightarrow> string option \<Rightarrow> session_manager \<Rightarrow> session option" where
  "get_for_owner session_id owner sm =
     (case sm_sessions sm session_id of
        None \<Rightarrow> None
      | Some s \<Rightarrow>
          (case (se_owner s, trimmed_owner owner) of
             (Some bound_owner, Some request_owner) \<Rightarrow> if bound_owner = request_owner then Some s else None
           | (Some _, None) \<Rightarrow> None
           | (None, _) \<Rightarrow> Some s))"

definition sm_get :: "uuid \<Rightarrow> session_manager \<Rightarrow> session option" where
  "sm_get session_id sm = get_for_owner session_id None sm"

definition touch :: "uuid \<Rightarrow> instant \<Rightarrow> session_manager \<Rightarrow> session_manager \<times> (tx_error + unit)" where
  "touch session_id now sm =
     (case sm_sessions sm session_id of
        None \<Rightarrow> (sm, Inl NoActiveTransaction)
      | Some s \<Rightarrow> (sm\<lparr>sm_sessions := (sm_sessions sm)(session_id \<mapsto> s\<lparr>se_expires_at := now + sm_ttl sm\<rparr>)\<rparr>, Inr ()))"

definition record_terminal_error ::
    "uuid \<Rightarrow> tx_error \<Rightarrow> session_manager \<Rightarrow> session_manager \<times> (tx_error + tx_error)" where
  "record_terminal_error session_id err sm =
     (case sm_sessions sm session_id of
        None \<Rightarrow> (sm, Inl NoActiveTransaction)
      | Some s \<Rightarrow>
          (case se_terminal_error s of
             Some existing \<Rightarrow> (sm, Inr existing)
           | None \<Rightarrow> (sm\<lparr>sm_sessions := (sm_sessions sm)(session_id \<mapsto> s\<lparr>se_terminal_error := Some err\<rparr>)\<rparr>, Inr err)))"

definition sm_read_fence :: "uuid \<Rightarrow> session_manager \<Rightarrow> tx_error + logical_tx_id" where
  "sm_read_fence session_id sm =
     (case sm_get session_id sm of None \<Rightarrow> Inl NoActiveTransaction | Some s \<Rightarrow> Inr (se_read_fence s))"

definition commit_and_get_bookmark ::
    "uuid \<Rightarrow> instant \<Rightarrow> instant \<Rightarrow> session_manager \<Rightarrow> session_manager \<times> (tx_error + string)" where
  "commit_and_get_bookmark session_id now later sm =
     (case sm_sessions sm session_id of
        None \<Rightarrow> (sm, Inl NoActiveTransaction)
      | Some s \<Rightarrow>
          (let sm = sm\<lparr>sm_sessions := hm_remove session_id (sm_sessions sm)\<rparr>
           in case se_terminal_error s of
                Some err \<Rightarrow> (sm\<lparr>sm_transactions := tm_remove (se_transaction_id s) (sm_transactions sm)\<rparr>, Inl err)
              | None \<Rightarrow>
                  (let (tm, r) = commit_with_bookmark (se_transaction_id s) now later (sm_transactions sm)
                   in (sm\<lparr>sm_transactions := tm\<rparr>, r))))"

definition commit_and_delete ::
    "uuid \<Rightarrow> instant \<Rightarrow> instant \<Rightarrow> session_manager \<Rightarrow> session_manager \<times> (tx_error + unit)" where
  "commit_and_delete session_id now later sm =
     (let (sm, r) = commit_and_get_bookmark session_id now later sm in (sm, map_sum id (\<lambda>_. ()) r))"

definition rollback_and_delete ::
    "uuid \<Rightarrow> instant \<Rightarrow> session_manager \<Rightarrow> session_manager \<times> (tx_error + unit)" where
  "rollback_and_delete session_id later sm =
     (case sm_sessions sm session_id of
        None \<Rightarrow> (sm, Inl NoActiveTransaction)
      | Some s \<Rightarrow>
          (let sm = sm\<lparr>sm_sessions := hm_remove session_id (sm_sessions sm)\<rparr>
           in case se_terminal_error s of
                Some err \<Rightarrow> (sm\<lparr>sm_transactions := tm_remove (se_transaction_id s) (sm_transactions sm)\<rparr>, Inr ())
              | None \<Rightarrow>
                  (let (tm, r) = tm_rollback (se_transaction_id s) later (sm_transactions sm)
                   in (sm\<lparr>sm_transactions := tm\<rparr>, r))))"

definition sm_delete :: "uuid \<Rightarrow> session_manager \<Rightarrow> session_manager" where
  "sm_delete session_id sm =
     (case sm_sessions sm session_id of
        None \<Rightarrow> sm
      | Some s \<Rightarrow> sm\<lparr>sm_sessions := hm_remove session_id (sm_sessions sm),
                     sm_transactions := tm_remove (se_transaction_id s) (sm_transactions sm)\<rparr>)"

text \<open>\<open>order\<close> is the order in which the iterator of the map of sessions yields their keys.\<close>

definition sm_cleanup_expired :: "instant \<Rightarrow> uuid list \<Rightarrow> session_manager \<Rightarrow> session_manager" where
  "sm_cleanup_expired now order sm =
     (let expired = List.map_filter (\<lambda>k. case sm_sessions sm k of
            Some s \<Rightarrow> if se_is_expired now s then Some (k, se_transaction_id s) else None | None \<Rightarrow> None) order
      in fold (\<lambda>(session_id, transaction_id) sm.
           sm\<lparr>sm_sessions := hm_remove session_id (sm_sessions sm),
              sm_transactions := tm_remove transaction_id (sm_transactions sm)\<rparr>) expired sm)"

subsection \<open>Runs of sessions\<close>

datatype sm_event =
    SOpen uuid uuid instant instant session_config "string option"
  | STouch uuid instant
  | SRecord uuid tx_error
  | SCommit uuid instant instant
  | SRollback uuid instant
  | SDelete uuid
  | SCleanup instant "uuid list"
  | STransaction tm_event

primrec sm_apply :: "sm_event \<Rightarrow> session_manager \<Rightarrow> session_manager" where
  "sm_apply (SOpen tid sid now later config owner) sm = fst (open_for_owner tid sid now later config owner sm)"
| "sm_apply (STouch sid now) sm = fst (touch sid now sm)"
| "sm_apply (SRecord sid err) sm = fst (record_terminal_error sid err sm)"
| "sm_apply (SCommit sid now later) sm = fst (commit_and_get_bookmark sid now later sm)"
| "sm_apply (SRollback sid later) sm = fst (rollback_and_delete sid later sm)"
| "sm_apply (SDelete sid) sm = sm_delete sid sm"
| "sm_apply (SCleanup now order) sm = sm_cleanup_expired now order sm"
| "sm_apply (STransaction ev) sm = sm\<lparr>sm_transactions := tm_apply ev (sm_transactions sm)\<rparr>"

text \<open>The events that end the session of an id or start another one under it.\<close>

fun ends_session :: "uuid \<Rightarrow> sm_event \<Rightarrow> bool" where
  "ends_session k (SOpen tid sid now later config owner) = (sid = k)"
| "ends_session k (SCommit sid now later) = (sid = k)"
| "ends_session k (SRollback sid later) = (sid = k)"
| "ends_session k (SDelete sid) = (sid = k)"
| "ends_session k _ = False"

fun is_cleanup :: "sm_event \<Rightarrow> bool" where
  "is_cleanup (SCleanup now order) = True"
| "is_cleanup _ = False"

text \<open>The fields of a session that last as long as it does.\<close>

definition same_session :: "session \<Rightarrow> session \<Rightarrow> bool" where
  "same_session s t \<longleftrightarrow> se_id t = se_id s \<and> se_transaction_id t = se_transaction_id s \<and>
     se_owner t = se_owner s \<and> se_read_fence t = se_read_fence s \<and> se_database t = se_database s \<and>
     (\<forall>e. se_terminal_error s = Some e \<longrightarrow> se_terminal_error t = Some e)"

lemma same_session_refl [simp]: "same_session s s"
  by (simp add: same_session_def)

lemma same_session_trans: "same_session s t \<Longrightarrow> same_session t u \<Longrightarrow> same_session s u"
  by (simp add: same_session_def)

lemma cleanup_fold_sessions:
  "sm_sessions (fold (\<lambda>(session_id, transaction_id) sm.
      sm\<lparr>sm_sessions := hm_remove session_id (sm_sessions sm),
         sm_transactions := tm_remove transaction_id (sm_transactions sm)\<rparr>) xs sm) k =
   (if k \<in> fst ` set xs then None else sm_sessions sm k)"
  by (induction xs arbitrary: sm) (auto simp: hm_remove_def)

lemma session_step:
  assumes "sm_sessions sm k = Some s" "\<not> ends_session k ev"
  shows "case sm_sessions (sm_apply ev sm) k of
      Some t \<Rightarrow> same_session s t | None \<Rightarrow> is_cleanup ev"
proof (cases ev)
  case (SOpen tid sid now later config owner)
  with assms show ?thesis
    by (auto simp: open_for_owner_def hm_insert_def Let_def split: prod.split sum.split option.split)
next
  case (STouch sid now)
  with assms show ?thesis by (auto simp: touch_def same_session_def split: option.split)
next
  case (SRecord sid err)
  with assms show ?thesis by (auto simp: record_terminal_error_def same_session_def split: option.split)
next
  case (SCommit sid now later)
  with assms show ?thesis
    by (auto simp: commit_and_get_bookmark_def Let_def hm_remove_def case_prod_beta split: option.split)
next
  case (SRollback sid later)
  with assms show ?thesis
    by (auto simp: rollback_and_delete_def Let_def hm_remove_def case_prod_beta split: option.split)
next
  case (SDelete sid)
  with assms show ?thesis by (auto simp: sm_delete_def hm_remove_def split: option.split)
next
  case (SCleanup now order)
  with assms show ?thesis
    by (simp add: sm_cleanup_expired_def Let_def cleanup_fold_sessions del: case_prod_conv)
next
  case (STransaction tev)
  with assms show ?thesis by simp
qed

lemma session_absent:
  assumes "sm_sessions sm k = None" "\<not> ends_session k ev"
  shows "sm_sessions (sm_apply ev sm) k = None"
proof (cases ev)
  case (SOpen tid sid now later config owner)
  with assms show ?thesis
    by (auto simp: open_for_owner_def hm_insert_def Let_def split: prod.split sum.split option.split)
next
  case (SCleanup now order)
  with assms show ?thesis
    by (simp add: sm_cleanup_expired_def Let_def cleanup_fold_sessions del: case_prod_conv)
qed (use assms in \<open>auto simp: touch_def record_terminal_error_def commit_and_get_bookmark_def
      rollback_and_delete_def sm_delete_def Let_def hm_remove_def case_prod_beta split: option.split\<close>)

lemma session_run:
  assumes "sm_sessions sm k = Some s" "\<forall>ev\<in>set evs. \<not> ends_session k ev"
  shows "case sm_sessions (fold sm_apply evs sm) k of
      Some t \<Rightarrow> same_session s t | None \<Rightarrow> \<exists>ev\<in>set evs. is_cleanup ev"
  using assms
proof (induction evs rule: rev_induct)
  case (snoc ev evs)
  let ?sm = "fold sm_apply evs sm"
  have IH: "case sm_sessions ?sm k of Some t \<Rightarrow> same_session s t | None \<Rightarrow> \<exists>ev\<in>set evs. is_cleanup ev"
    using snoc by simp
  show ?case
  proof (cases "sm_sessions ?sm k")
    case None
    with IH obtain c where c: "c \<in> set evs" "is_cleanup c" by auto
    have "sm_sessions (sm_apply ev ?sm) k = None"
      using None snoc.prems(2) session_absent by simp
    with c show ?thesis by auto
  next
    case (Some t)
    with IH session_step [of ?sm k t ev] snoc.prems(2) same_session_trans show ?thesis
      by (auto split: option.splits)
  qed
qed simp

text \<open>
  C19: The first terminal error recorded on a session sticks: whatever happens on the session manager
  and its transactions afterwards, short of ending that session, a session still there carries that
  error, owner, transaction and read fence (only the expiry sweep can have removed it). Its commit
  then returns that error, removes the session and drops the transaction without drawing a
  timestamp, and its rollback succeeds and drops the transaction as well.
\<close>

theorem terminal_error_sticks:
  assumes "sm_sessions sm k = Some s" "se_terminal_error s = Some e"
    and "\<forall>ev\<in>set evs. \<not> ends_session k ev"
  shows "case sm_sessions (fold sm_apply evs sm) k of
      None \<Rightarrow> \<exists>ev\<in>set evs. is_cleanup ev
    | Some t \<Rightarrow> same_session s t \<and>
        record_terminal_error k e' (fold sm_apply evs sm) = (fold sm_apply evs sm, Inr e) \<and>
        (let sm' = fold sm_apply evs sm; (sm1, r1) = commit_and_get_bookmark k now later sm';
             (sm2, r2) = rollback_and_delete k later sm'
         in r1 = Inl e \<and> r2 = Inr () \<and> sm1 = sm2 \<and> sm_sessions sm1 = (sm_sessions sm')(k := None) \<and>
            tm_active (sm_transactions sm1) = (tm_active (sm_transactions sm'))(se_transaction_id s := None) \<and>
            tm_clock (sm_transactions sm1) = tm_clock (sm_transactions sm'))"
proof (cases "sm_sessions (fold sm_apply evs sm) k")
  case None
  then show ?thesis using session_run [OF assms(1,3)] by simp
next
  case (Some t)
  have same: "same_session s t" using session_run [OF assms(1,3)] Some by simp
  then have "se_terminal_error t = Some e" "se_transaction_id t = se_transaction_id s"
    using assms(2) by (simp_all add: same_session_def)
  with Some same show ?thesis
    by (simp add: record_terminal_error_def commit_and_get_bookmark_def rollback_and_delete_def Let_def
        hm_remove_def tm_remove_def)
qed

lemma open_demo:
  "tm_begin 1 0 session_config_default tm_new =
     (tm_new\<lparr>tm_active := [1 \<mapsto> new_with_timestamp 1 0 session_config_default (LogicalTxId 1 1 0)],
        tm_clock := \<lparr>ck_node_ordinal = 0, ck_epoch = 1, ck_counter = 1\<rparr>\<rparr>, Inr 1)"
  by (simp add: tm_begin_def issue_begin_timestamp_def session_config_default_def resolve_bookmark_fence_def
      normalize_bookmarks_def tm_new_def tm_with_clock_def clock_new_def clock_with_epoch_def clock_issue_def
      wadd64_def hm_insert_def new_with_timestamp_def)

theorem terminal_error_sticks_witness:
  "let sm = sm_apply (SRecord 9 Conflict) (sm_apply (SOpen 1 9 0 0 session_config_default None) (sm_new 0))
   in \<exists>s. sm_sessions sm 9 = Some s \<and> se_terminal_error s = Some Conflict \<and>
      snd (commit_and_get_bookmark 9 5 5 (fold sm_apply [STouch 9 3, SRecord 9 TimedOut] sm)) = Inl Conflict"
proof -
  define sm where "sm = sm_apply (SRecord 9 Conflict) (sm_apply (SOpen 1 9 0 0 session_config_default None) (sm_new 0))"
  obtain s where s: "sm_sessions sm 9 = Some s" "se_terminal_error s = Some Conflict"
    by (simp add: sm_def sm_new_def sm_with_transactions_def open_for_owner_def open_demo trimmed_owner_def
        record_terminal_error_def hm_insert_def open_demo [simplified])
  let ?evs = "[STouch 9 3, SRecord 9 TimedOut]"
  have no: "\<forall>ev\<in>set ?evs. \<not> ends_session 9 ev" "\<not> (\<exists>ev\<in>set ?evs. is_cleanup ev)" by simp_all
  have "snd (commit_and_get_bookmark 9 5 5 (fold sm_apply ?evs sm)) = Inl Conflict"
  proof (cases "sm_sessions (fold sm_apply ?evs sm) 9")
    case None
    then show ?thesis using terminal_error_sticks [OF s no(1), of Conflict 5 5] no(2) by (simp only: option.case)
  next
    case (Some t)
    then show ?thesis
      using terminal_error_sticks [OF s no(1), of Conflict 5 5]
      by (auto simp only: option.case Let_def case_prod_beta)
  qed
  with s show ?thesis unfolding sm_def [symmetric] by (auto simp: Let_def)
qed

lemma begin_returns_id: "tm_begin tid now config tm = (tm', Inr i) \<Longrightarrow> i = tid"
  by (auto simp: tm_begin_def Let_def split: prod.splits sum.splits)

text \<open>
  Opening a session for an owner succeeds with the session bound to the owner's trimmed name and
  a read fence equal to its transaction's begin timestamp; \<open>get_for_owner\<close> hands the session out to
  exactly the requests whose trimmed name is the owner's, or to every request when the session has
  none. The methods without an owner argument never see an owned session: asking for its read
  fence reports that there is no active transaction.
\<close>

theorem session_owner_checked:
  assumes "open_for_owner tid sid now later config owner sm = (sm', Inr sid)"
  shows "\<exists>s tx. sm_sessions sm' sid = Some s \<and> tm_active (sm_transactions sm') tid = Some tx \<and>
    se_transaction_id s = tid \<and> se_owner s = trimmed_owner owner \<and> se_read_fence s = tx_begin_timestamp tx \<and>
    se_terminal_error s = None \<and> tx_state tx = Active \<and>
    (\<forall>request. get_for_owner sid request sm' =
       (if trimmed_owner owner = None \<or> trimmed_owner request = trimmed_owner owner then Some s else None)) \<and>
    (trimmed_owner owner \<noteq> None \<longrightarrow> sm_get sid sm' = None \<and> sm_read_fence sid sm' = Inl NoActiveTransaction) \<and>
    (trimmed_owner owner = None \<longrightarrow> sm_read_fence sid sm' = Inr (tx_begin_timestamp tx))"
proof -
  obtain tm r where tm: "tm_begin tid now config (sm_transactions sm) = (tm, r)"
    by (cases "tm_begin tid now config (sm_transactions sm)")
  have r: "r = Inr tid"
    using assms tm begin_returns_id [of tid now config "sm_transactions sm" tm]
    by (cases r) (auto simp: open_for_owner_def)
  from assms tm r obtain tx where started: "tm_begin tid now config (sm_transactions sm) = (tm, Inr tid)"
      "tm_active tm tid = Some tx"
    and sm': "sm' = sm\<lparr>sm_transactions := tm, sm_sessions := (sm_sessions sm)(sid \<mapsto>
      \<lparr>se_id = sid, se_transaction_id = tid, se_database = sc_database config,
       se_bookmarks = tx_bookmarks tx, se_read_fence = tx_begin_timestamp tx,
       se_owner = trimmed_owner owner, se_expires_at = later + sm_ttl sm, se_terminal_error = None\<rparr>)\<rparr>"
    by (auto simp: open_for_owner_def Let_def hm_insert_def split: option.splits)
  have "tx_state tx = Active"
    using started by (auto simp: tm_begin_def Let_def hm_insert_def new_with_timestamp_def split: prod.splits sum.splits)
  then show ?thesis
    unfolding sm' using started(2)
    by (auto simp: get_for_owner_def sm_get_def sm_read_fence_def trimmed_owner_def split: option.splits)
qed

theorem session_owner_checked_witness:
  "\<exists>sm. open_for_owner 1 9 0 0 session_config_default (Some ''alice'') (sm_new 0) = (sm, Inr 9) \<and>
     sm_read_fence 9 sm = Inl NoActiveTransaction \<and> get_for_owner 9 (Some ''alice'') sm \<noteq> None"
proof -
  have t: "trim ''alice'' = ''alice''" by (rule trim_graph) (simp_all add: graph_char_def)
  obtain sm where sm: "open_for_owner 1 9 0 0 session_config_default (Some ''alice'') (sm_new 0) = (sm, Inr 9)"
    by (simp add: sm_new_def sm_with_transactions_def open_for_owner_def open_demo [simplified])
  show ?thesis using session_owner_checked [OF sm] sm t by (auto simp: trimmed_owner_def)
qed

end
