(* ===== verification/Raft_Node.thy ===== *)
theory Raft_Node
  imports Rust_Strings BTree_Map
begin

text \<open>
  One node of the quorum replicator of crates/replication/src/lib.rs: its consensus state and log, the
  handlers of the vote, append-entries and snapshot calls, and the pieces of an election between two
  awaits. The commands of the log and the storage they are applied to are type parameters; the trait
  \<open>ReplicationStorage\<close> is the function \<open>apply_command\<close> the handlers take. Terms are u64 with the
  increment of an election wrapping; log indices count entries held in memory. An index out of the
  range of a \<open>Vec\<close> panics, which is the value \<open>Panic\<close>.
\<close>

subsection \<open>Messages\<close>

datatype replication_error =
    NotLeader string
  | NoQuorum nat nat
  | Transport string
  | StorageFault string
  | Timeout string
  | Shutdown

datatype fault = Fault replication_error | Panic

datatype node_role = Follower | Candidate | Leader

datatype config_action = AddNode | RemoveNode | UpdateNode

datatype 'c log_payload =
    CommandPayload 'c
  | ConfigChange config_action string string
  | SnapshotMarker string string

datatype 'c log_entry = LogEntry (le_index: nat) (le_term: nat) (le_payload: "'c log_payload")

record vote_request =
  vq_term :: nat
  vq_candidate_id :: string
  vq_last_log_index :: nat
  vq_last_log_term :: nat

record vote_response =
  vr_term :: nat
  vr_vote_granted :: bool
  vr_voter_id :: string

record 'c append_request =
  aq_term :: nat
  aq_leader_id :: string
  aq_prev_log_index :: nat
  aq_prev_log_term :: nat
  aq_entries :: "'c log_entry list"
  aq_leader_commit :: nat

record append_response =
  ar_term :: nat
  ar_success :: bool
  ar_match_index :: nat
  ar_responder_id :: string

record snapshot =
  sn_last_included_index :: nat
  sn_last_included_term :: nat
  sn_data :: bytes

subsection \<open>The state of a node\<close>

record ('c, 's) raft_node =
  rn_id :: string
  rn_current_term :: nat
  rn_role :: node_role
  rn_leader_id :: "string option"
  rn_voted_for :: "string option"
  rn_commit_index :: nat
  rn_last_applied :: nat
  rn_running :: bool
  rn_next_index :: "string \<Rightarrow> nat option"
  rn_match_index :: "string \<Rightarrow> nat option"
  rn_log :: "'c log_entry list"
  rn_membership :: "string list"
  rn_storage :: 's

definition raft_new :: "string \<Rightarrow> string list \<Rightarrow> 's \<Rightarrow> ('c, 's) raft_node" where
  "raft_new node_id peers storage =
     \<lparr>rn_id = node_id, rn_current_term = 0, rn_role = Follower, rn_leader_id = None, rn_voted_for = None,
      rn_commit_index = 0, rn_last_applied = 0, rn_running = False,
      rn_next_index = (\<lambda>p. if p \<in> set peers then Some 1 else None),
      rn_match_index = (\<lambda>p. if p \<in> set peers then Some 0 else None),
      rn_log = [], rn_membership = sort (remdups peers), rn_storage = storage\<rparr>"

definition raft_start :: "('c, 's) raft_node \<Rightarrow> ('c, 's) raft_node" where
  "raft_start n = n\<lparr>rn_running := True\<rparr>"

definition raft_shutdown :: "('c, 's) raft_node \<Rightarrow> ('c, 's) raft_node" where
  "raft_shutdown n = n\<lparr>rn_running := False\<rparr>"

definition last_log_index :: "('c, 's) raft_node \<Rightarrow> nat" where
  "last_log_index n = (case last_opt (rn_log n) of Some entry \<Rightarrow> le_index entry | None \<Rightarrow> 0)"

definition last_log_position :: "('c, 's) raft_node \<Rightarrow> nat \<times> nat" where
  "last_log_position n =
     (case last_opt (rn_log n) of Some entry \<Rightarrow> (le_index entry, le_term entry) | None \<Rightarrow> (0, 0))"

definition quorum_size :: "('c, 's) raft_node \<Rightarrow> nat" where
  "quorum_size n = (let total_nodes = length (rn_membership n) + 1 in total_nodes div 2 + 1)"

definition node_leader_id :: "('c, 's) raft_node \<Rightarrow> string option" where
  "node_leader_id n = (case rn_role n of Leader \<Rightarrow> Some (rn_id n) | _ \<Rightarrow> rn_leader_id n)"

definition leader_target :: "('c, 's) raft_node \<Rightarrow> string" where
  "leader_target n = (case node_leader_id n of Some i \<Rightarrow> i | None \<Rightarrow> rn_id n)"

subsection \<open>Votes\<close>

definition is_up_to_date :: "vote_request \<Rightarrow> ('c, 's) raft_node \<Rightarrow> bool" where
  "is_up_to_date request n =
     (let (last_index, last_term) = last_log_position n
      in last_term < vq_last_log_term request \<or>
         (vq_last_log_term request = last_term \<and> last_index \<le> vq_last_log_index request))"

definition request_vote_rpc :: "vote_request \<Rightarrow> ('c, 's) raft_node \<Rightarrow> ('c, 's) raft_node \<times> vote_response" where
  "request_vote_rpc request n =
     (if vq_term request < rn_current_term n
      then (n, \<lparr>vr_term = rn_current_term n, vr_vote_granted = False, vr_voter_id = rn_id n\<rparr>)
      else
        (let n = (if rn_current_term n < vq_term request
                  then n\<lparr>rn_current_term := vq_term request, rn_role := Follower, rn_voted_for := None,
                         rn_leader_id := None\<rparr>
                  else n);
             can_vote = (case rn_voted_for n of Some vote \<Rightarrow> vote = vq_candidate_id request | None \<Rightarrow> True);
             vote_granted = (can_vote \<and> is_up_to_date request n);
             n = (if vote_granted then n\<lparr>rn_voted_for := Some (vq_candidate_id request)\<rparr> else n)
         in (n, \<lparr>vr_term = rn_current_term n, vr_vote_granted = vote_granted, vr_voter_id = rn_id n\<rparr>)))"

text \<open>The part of \<open>start_election\<close> before the first await.\<close>

definition election_start ::
    "('c, 's) raft_node \<Rightarrow> ('c, 's) raft_node \<times> (replication_error + vote_request)" where
  "election_start n =
     (if \<not> rn_running n then (n, Inl Shutdown)
      else
        (let n = n\<lparr>rn_current_term := wadd64 (rn_current_term n) 1, rn_role := Candidate,
                   rn_voted_for := Some (rn_id n), rn_leader_id := None\<rparr>;
             (last_log_index, last_log_term) = last_log_position n
         in (n, Inr \<lparr>vq_term = rn_current_term n, vq_candidate_id = rn_id n,
                     vq_last_log_index = last_log_index, vq_last_log_term = last_log_term\<rparr>)))"

text \<open>
  What \<open>start_election\<close> does with the response to one vote request, given the votes so far: it stops
  with an error on a higher term, or counts.
\<close>

definition election_response ::
    "vote_request \<Rightarrow> vote_response \<Rightarrow> nat \<Rightarrow> ('c, 's) raft_node \<Rightarrow>
     ('c, 's) raft_node \<times> (replication_error + nat)" where
  "election_response request response votes n =
     (if vq_term request < vr_term response
      then (n\<lparr>rn_current_term := vr_term response, rn_role := Follower, rn_voted_for := None\<rparr>,
            Inl (NotLeader (vr_voter_id response)))
      else (n, Inr (if vr_vote_granted response then votes + 1 else votes)))"

definition become_leader :: "('c, 's) raft_node \<Rightarrow> ('c, 's) raft_node" where
  "become_leader n =
     (let last_index = last_log_index n + 1
      in n\<lparr>rn_role := Leader, rn_leader_id := Some (rn_id n), rn_voted_for := Some (rn_id n),
           rn_next_index := (\<lambda>p. if p \<in> set (rn_membership n) then Some last_index else rn_next_index n p),
           rn_match_index := (\<lambda>p. if p \<in> set (rn_membership n) then Some 0 else rn_match_index n p)\<rparr>)"

text \<open>The part of \<open>start_election\<close> after the last response, up to the broadcast.\<close>

definition election_finish :: "nat \<Rightarrow> ('c, 's) raft_node \<Rightarrow> ('c, 's) raft_node \<times> (replication_error + unit)" where
  "election_finish votes n =
     (if votes < quorum_size n then (n, Inl (NoQuorum (quorum_size n) votes)) else (become_leader n, Inr ()))"

subsection \<open>Appending and applying\<close>

text \<open>The loop over the request's entries: \<open>slot\<close> is the position of the next entry in the log.\<close>

fun merge_entries :: "nat \<Rightarrow> 'c log_entry list \<Rightarrow> 'c log_entry list \<Rightarrow> 'c log_entry list" where
  "merge_entries slot [] log = log"
| "merge_entries slot (entry # entries) log =
     (if slot < length log
      then (let existing = log ! slot
            in if le_term existing \<noteq> le_term entry \<or> le_payload existing \<noteq> le_payload entry
               then merge_entries (Suc slot) entries (take slot log @ [entry])
               else merge_entries (Suc slot) entries log)
      else merge_entries (Suc slot) entries (log @ [entry]))"

text \<open>One entry applied: a command to the storage, a configuration change to the membership.\<close>

definition apply_entry ::
    "('c \<Rightarrow> 's \<Rightarrow> replication_error + 's) \<Rightarrow> 'c log_entry \<Rightarrow> ('c, 's) raft_node \<Rightarrow> fault + ('c, 's) raft_node" where
  "apply_entry apply_command entry n =
     (case le_payload entry of
        CommandPayload command \<Rightarrow>
          (case apply_command command (rn_storage n) of
             Inl e \<Rightarrow> Inl (Fault e) | Inr s \<Rightarrow> Inr (n\<lparr>rn_storage := s\<rparr>))
      | ConfigChange action node_id address \<Rightarrow>
          (case action of
             AddNode \<Rightarrow> Inr (if node_id \<noteq> rn_id n
               then n\<lparr>rn_membership := sort (remdups (node_id # rn_membership n))\<rparr> else n)
           | UpdateNode \<Rightarrow> Inr (if node_id \<noteq> rn_id n
               then n\<lparr>rn_membership := sort (remdups (node_id # rn_membership n))\<rparr> else n)
           | RemoveNode \<Rightarrow> Inr (n\<lparr>rn_membership := filter (\<lambda>i. i \<noteq> node_id) (rn_membership n)\<rparr>))
      | SnapshotMarker snapshot_id checksum \<Rightarrow> Inr n)"

lemma apply_entry_frame:
  assumes "apply_entry ap entry n = Inr n'"
  shows "rn_commit_index n' = rn_commit_index n" "rn_last_applied n' = rn_last_applied n"
    "rn_log n' = rn_log n" "rn_current_term n' = rn_current_term n" "rn_id n' = rn_id n"
    "rn_role n' = rn_role n" "rn_voted_for n' = rn_voted_for n" "rn_leader_id n' = rn_leader_id n"
    "rn_next_index n' = rn_next_index n" "rn_match_index n' = rn_match_index n" "rn_running n' = rn_running n"
  using assms
  by (auto simp: apply_entry_def split: log_payload.splits config_action.splits sum.splits if_splits)

function apply_committed_entries ::
    "('c \<Rightarrow> 's \<Rightarrow> replication_error + 's) \<Rightarrow> ('c, 's) raft_node \<Rightarrow> ('c, 's) raft_node \<times> (fault + unit)" where
  "apply_committed_entries apply_command n =
     (if rn_commit_index n \<le> rn_last_applied n then (n, Inr ())
      else
        (let next_index = rn_last_applied n + 1
         in if length (rn_log n) < next_index then (n, Inl Panic)
            else (case apply_entry apply_command (rn_log n ! (next_index - 1)) n of
                    Inl e \<Rightarrow> (n, Inl e)
                  | Inr n' \<Rightarrow> apply_committed_entries apply_command (n'\<lparr>rn_last_applied := next_index\<rparr>))))"
  by pat_completeness auto

termination
  by (relation "measure (\<lambda>(ap, n). rn_commit_index n - rn_last_applied n)") (auto simp: apply_entry_frame)

declare apply_committed_entries.simps [simp del]

text \<open>The three blocks of \<open>append_entries_rpc\<close>: following the sender, the previous entry, storing.\<close>

definition follow_leader :: "'c append_request \<Rightarrow> ('c, 's) raft_node \<Rightarrow> ('c, 's) raft_node" where
  "follow_leader request n =
     (let n = (if rn_current_term n < aq_term request
               then n\<lparr>rn_current_term := aq_term request, rn_voted_for := None\<rparr> else n)
      in n\<lparr>rn_role := Follower, rn_leader_id := Some (aq_leader_id request)\<rparr>)"

definition check_previous :: "'c append_request \<Rightarrow> ('c, 's) raft_node \<Rightarrow> nat option" where
  "check_previous request n =
     (let prev = aq_prev_log_index request
      in if 0 < prev
         then (if length (rn_log n) < prev
               then Some (case last_opt (rn_log n) of Some entry \<Rightarrow> le_index entry | None \<Rightarrow> 0)
               else if le_term (rn_log n ! (prev - 1)) \<noteq> aq_prev_log_term request then Some (prev - 1)
               else None)
         else None)"

definition store_entries ::
    "('c \<Rightarrow> 's \<Rightarrow> replication_error + 's) \<Rightarrow> 'c append_request \<Rightarrow> ('c, 's) raft_node \<Rightarrow>
     ('c, 's) raft_node \<times> (fault + append_response)" where
  "store_entries apply_command request n =
     (let n = n\<lparr>rn_log := merge_entries (aq_prev_log_index request) (aq_entries request) (rn_log n)\<rparr>;
          last_index = last_log_index n;
          n = n\<lparr>rn_commit_index := max (rn_commit_index n) (min (aq_leader_commit request) last_index)\<rparr>
      in case apply_committed_entries apply_command n of
           (n, Inl e) \<Rightarrow> (n, Inl e)
         | (n, Inr _) \<Rightarrow> (n, Inr \<lparr>ar_term = rn_current_term n, ar_success = True,
                                  ar_match_index = last_index, ar_responder_id = rn_id n\<rparr>))"

definition refuse_entries :: "nat \<Rightarrow> ('c, 's) raft_node \<Rightarrow> append_response" where
  "refuse_entries match_index n =
     \<lparr>ar_term = rn_current_term n, ar_success = False, ar_match_index = match_index, ar_responder_id = rn_id n\<rparr>"

definition append_entries_rpc ::
    "('c \<Rightarrow> 's \<Rightarrow> replication_error + 's) \<Rightarrow> 'c append_request \<Rightarrow> ('c, 's) raft_node \<Rightarrow>
     ('c, 's) raft_node \<times> (fault + append_response)" where
  "append_entries_rpc apply_command request n =
     (if aq_term request < rn_current_term n then (n, Inr (refuse_entries (last_log_index n) n))
      else
        (let n = follow_leader request n
         in case check_previous request n of
              Some match_index \<Rightarrow> (n, Inr (refuse_entries match_index n))
            | None \<Rightarrow> store_entries apply_command request n))"

subsection \<open>Snapshots\<close>

definition create_snapshot :: "('s \<Rightarrow> replication_error + bytes) \<Rightarrow> ('c, 's) raft_node \<Rightarrow> fault + snapshot" where
  "create_snapshot write_snapshot n =
     (let last_included_index = rn_last_applied n
      in if 0 < last_included_index \<and> length (rn_log n) < last_included_index then Inl Panic
         else
           (let last_included_term = (if last_included_index = 0 then 0
                  else le_term (rn_log n ! (last_included_index - 1)))
            in case write_snapshot (rn_storage n) of
                 Inl e \<Rightarrow> Inl (Fault e)
               | Inr d \<Rightarrow> Inr \<lparr>sn_last_included_index = last_included_index,
                             sn_last_included_term = last_included_term, sn_data = d\<rparr>))"

definition install_snapshot ::
    "(bytes \<Rightarrow> replication_error + 's) \<Rightarrow> snapshot \<Rightarrow> ('c, 's) raft_node \<Rightarrow> ('c, 's) raft_node \<times> (fault + unit)" where
  "install_snapshot restore_snapshot sn n =
     (case restore_snapshot (sn_data sn) of
        Inl e \<Rightarrow> (n, Inl (Fault e))
      | Inr s \<Rightarrow> (n\<lparr>rn_storage := s, rn_commit_index := sn_last_included_index sn,
                    rn_last_applied := sn_last_included_index sn\<rparr>, Inr ()))"

end
