(* ===== verification/Raft_Log.thy ===== *)
theory Raft_Log
  imports Raft_Node
begin

text \<open>
  The follower's side of log replication in crates/replication/src/lib.rs: the merge loop of
  \<open>append_entries_rpc\<close> against its closed form, the entries applied when the commit index moves, and the
  handler on every branch.
\<close>

subsection \<open>Logs\<close>

definition log_ok :: "'c log_entry list \<Rightarrow> bool" where
  "log_ok log \<longleftrightarrow> (\<forall>i<length log. le_index (log ! i) = Suc i)"

definition indexed_from :: "nat \<Rightarrow> 'c log_entry list \<Rightarrow> bool" where
  "indexed_from slot entries \<longleftrightarrow> (\<forall>j<length entries. le_index (entries ! j) = Suc (slot + j))"

definition differs :: "'c log_entry \<Rightarrow> 'c log_entry \<Rightarrow> bool" where
  "differs a b \<longleftrightarrow> le_term a \<noteq> le_term b \<or> le_payload a \<noteq> le_payload b"

text \<open>Some entry of the request contradicts the entry the log has in its place.\<close>

definition conflicting :: "nat \<Rightarrow> 'c log_entry list \<Rightarrow> 'c log_entry list \<Rightarrow> bool" where
  "conflicting slot entries log \<longleftrightarrow> list_ex (\<lambda>(a, b). differs a b) (zip (drop slot log) entries)"

lemma log_ok_append: "log_ok (xs @ ys) \<longleftrightarrow> log_ok xs \<and> indexed_from (length xs) ys"
  unfolding log_ok_def indexed_from_def
proof safe
  fix j assume all: "\<forall>i<length (xs @ ys). le_index ((xs @ ys) ! i) = Suc i" and "j < length ys"
  then show "le_index (ys ! j) = Suc (length xs + j)"
    using all [rule_format, of "length xs + j"] by simp
next
  fix i assume "\<forall>i<length (xs @ ys). le_index ((xs @ ys) ! i) = Suc i" "i < length xs"
  then show "le_index (xs ! i) = Suc i" by (metis length_append nth_append trans_less_add1)
next
  fix i assume "\<forall>i<length xs. le_index (xs ! i) = Suc i"
    "\<forall>j<length ys. le_index (ys ! j) = Suc (length xs + j)" "i < length (xs @ ys)"
  then show "le_index ((xs @ ys) ! i) = Suc i" by (cases "i < length xs") (auto simp: nth_append)
qed

lemma indexed_from_Cons:
  "indexed_from slot (e # es) \<longleftrightarrow> le_index e = Suc slot \<and> indexed_from (Suc slot) es"
  by (auto simp: indexed_from_def less_Suc_eq_0_disj)

lemma indexed_from_append:
  "indexed_from slot (xs @ ys) \<longleftrightarrow> indexed_from slot xs \<and> indexed_from (slot + length xs) ys"
proof (induction xs arbitrary: slot)
  case Nil
  then show ?case by (simp add: indexed_from_def)
qed (simp add: indexed_from_Cons)

lemma log_ok_take: "log_ok log \<Longrightarrow> log_ok (take k log)"
  by (simp add: log_ok_def)

lemma indexed_from_drop: "log_ok log \<Longrightarrow> indexed_from k (drop k log)"
  by (simp add: log_ok_def indexed_from_def)

lemma last_log_index_eq: "log_ok (rn_log n) \<Longrightarrow> last_log_index n = length (rn_log n)"
  by (cases "rn_log n" rule: rev_cases) (auto simp: last_log_index_def log_ok_def)

lemma differs_expand: "le_index a = le_index b \<Longrightarrow> \<not> differs a b \<Longrightarrow> a = b"
  by (simp add: differs_def log_entry.expand)

lemma merge_entries_eq:
  assumes "log_ok log" "indexed_from slot entries" "slot \<le> length log"
  shows "merge_entries slot entries log =
    take slot log @ entries @ (if conflicting slot entries log then [] else drop (slot + length entries) log)"
  using assms
proof (induction entries arbitrary: slot log)
  case (Cons e es)
  have e: "le_index e = Suc slot" and es: "indexed_from (Suc slot) es"
    using Cons.prems(2) by (simp_all add: indexed_from_Cons)
  show ?case
  proof (cases "slot < length log")
    case True
    let ?x = "log ! slot"
    have x: "le_index ?x = Suc slot" using Cons.prems(1) True by (simp add: log_ok_def)
    have drop: "drop slot log = ?x # drop (Suc slot) log" using True by (rule Cons_nth_drop_Suc [symmetric])
    show ?thesis
    proof (cases "differs ?x e")
      case True
      let ?log = "take slot log @ [e]"
      have len: "length ?log = Suc slot" using Cons.prems(3) by simp
      have ok: "log_ok ?log"
        using Cons.prems(1,3) e by (simp add: log_ok_append log_ok_take indexed_from_Cons indexed_from_def)
      have "merge_entries (Suc slot) es ?log = take (Suc slot) ?log @ es @
          (if conflicting (Suc slot) es ?log then [] else drop (Suc slot + length es) ?log)"
        using len by (intro Cons.IH [OF ok es]) simp
      also have "\<dots> = take slot log @ e # es" using len by (simp add: conflicting_def)
      finally show ?thesis
        using True \<open>slot < length log\<close> drop by (simp add: Let_def conflicting_def differs_def)
    next
      case False
      then have "e = ?x" using differs_expand [of ?x e] e x by simp
      then show ?thesis
        using Cons.IH [OF Cons.prems(1) es] True False drop
        by (simp add: Let_def conflicting_def differs_def take_Suc_conv_app_nth)
    qed
  next
    case False
    then have slot: "slot = length log" using Cons.prems(3) by simp
    have ok: "log_ok (log @ [e])"
      using Cons.prems(1) e slot by (simp add: log_ok_append indexed_from_Cons indexed_from_def)
    have "merge_entries (Suc slot) es (log @ [e]) = log @ e # es"
      using Cons.IH [OF ok es] slot by (simp add: conflicting_def)
    then show ?thesis using slot by (simp add: conflicting_def)
  qed
qed (simp add: conflicting_def)

lemma merge_log_ok:
  assumes "log_ok log" "indexed_from slot entries" "slot \<le> length log"
  shows "log_ok (merge_entries slot entries log)"
proof -
  have "indexed_from slot (entries @ drop (slot + length entries) log)"
    using assms(2) indexed_from_drop [OF assms(1)] by (simp add: indexed_from_append)
  with assms show ?thesis
    by (simp add: merge_entries_eq log_ok_append log_ok_take min_def)
qed

subsection \<open>Applying committed entries\<close>

definition entry_command :: "('c \<Rightarrow> 's \<Rightarrow> replication_error + 's) \<Rightarrow> 'c log_entry \<Rightarrow> 's \<Rightarrow> replication_error + 's" where
  "entry_command ap entry s = (case le_payload entry of CommandPayload c \<Rightarrow> ap c s | _ \<Rightarrow> Inr s)"

lemma apply_entry_storage:
  "apply_entry ap entry n = Inr n' \<Longrightarrow> entry_command ap entry (rn_storage n) = Inr (rn_storage n')"
  by (auto simp: apply_entry_def entry_command_def
      split: log_payload.splits config_action.splits sum.splits if_splits)

lemma apply_entry_fault: "apply_entry ap entry n = Inl e \<Longrightarrow> e \<noteq> Panic"
  by (auto simp: apply_entry_def split: log_payload.splits config_action.splits sum.splits if_splits)

lemma apply_committed_frame:
  "rn_log (fst (apply_committed_entries ap n)) = rn_log n \<and>
   rn_commit_index (fst (apply_committed_entries ap n)) = rn_commit_index n \<and>
   rn_current_term (fst (apply_committed_entries ap n)) = rn_current_term n \<and>
   rn_id (fst (apply_committed_entries ap n)) = rn_id n \<and>
   rn_role (fst (apply_committed_entries ap n)) = rn_role n \<and>
   rn_voted_for (fst (apply_committed_entries ap n)) = rn_voted_for n \<and>
   rn_leader_id (fst (apply_committed_entries ap n)) = rn_leader_id n"
proof (induction ap n rule: apply_committed_entries.induct)
  case (1 ap n)
  show ?case
    by (subst (1 2 3 4 5 6 7) apply_committed_entries.simps)
      (use 1 in \<open>auto simp: Let_def apply_entry_frame split: sum.split\<close>)
qed

lemma apply_committed_ok:
  assumes "rn_commit_index n \<le> max (rn_last_applied n) (length (rn_log n))"
  shows "snd (apply_committed_entries ap n) \<noteq> Inl Panic \<and>
    (snd (apply_committed_entries ap n) = Inr () \<longrightarrow>
       rn_last_applied (fst (apply_committed_entries ap n)) = max (rn_last_applied n) (rn_commit_index n) \<and>
       fold_result (entry_command ap) (drop (rn_last_applied n) (take (rn_commit_index n) (rn_log n))) (rn_storage n) =
         Inr (rn_storage (fst (apply_committed_entries ap n))))"
  using assms
proof (induction ap n rule: apply_committed_entries.induct)
  case (1 ap n)
  show ?case
  proof (cases "rn_commit_index n \<le> rn_last_applied n")
    case True
    then show ?thesis by (simp add: apply_committed_entries.simps [of ap n])
  next
    case False
    let ?k = "rn_last_applied n"
    have k: "?k < length (rn_log n)" "?k < rn_commit_index n" "rn_commit_index n \<le> length (rn_log n)"
      using False 1(2) by auto
    have split: "drop ?k (take (rn_commit_index n) (rn_log n)) =
        rn_log n ! ?k # drop (Suc ?k) (take (rn_commit_index n) (rn_log n))"
      using k Cons_nth_drop_Suc [of ?k "take (rn_commit_index n) (rn_log n)"] by simp
    show ?thesis
    proof (cases "apply_entry ap (rn_log n ! ?k) n")
      case (Inl e)
      then show ?thesis
        using False k apply_entry_fault [OF Inl] by (simp add: apply_committed_entries.simps [of ap n] Let_def)
    next
      case (Inr n')
      let ?m = "n'\<lparr>rn_last_applied := ?k + 1\<rparr>"
      have step: "apply_committed_entries ap n = apply_committed_entries ap ?m"
        using False k Inr by (simp add: apply_committed_entries.simps [of ap n] Let_def)
      have IH: "rn_commit_index ?m \<le> max (rn_last_applied ?m) (length (rn_log ?m)) \<Longrightarrow>
        snd (apply_committed_entries ap ?m) \<noteq> Inl Panic \<and>
        (snd (apply_committed_entries ap ?m) = Inr () \<longrightarrow>
         rn_last_applied (fst (apply_committed_entries ap ?m)) = max (rn_last_applied ?m) (rn_commit_index ?m) \<and>
         fold_result (entry_command ap) (drop (rn_last_applied ?m) (take (rn_commit_index ?m) (rn_log ?m))) (rn_storage ?m) =
           Inr (rn_storage (fst (apply_committed_entries ap ?m))))"
        using 1(1) [OF False refl, of n'] k Inr by simp
      show ?thesis
        using IH k apply_entry_frame(1,3) [OF Inr] apply_entry_storage [OF Inr]
        unfolding step split by (simp add: max_def)
    qed
  qed
qed

lemma apply_committed_total:
  assumes "rn_commit_index n \<le> max (rn_last_applied n) (length (rn_log n))"
    "\<And>c s e. ap c s \<noteq> Inl e"
  shows "snd (apply_committed_entries ap n) = Inr ()"
  using assms(1)
proof (induction ap\<equiv>ap n rule: apply_committed_entries.induct)
  case (1 n)
  show ?case
  proof (cases "rn_commit_index n \<le> rn_last_applied n")
    case True
    then show ?thesis by (simp add: apply_committed_entries.simps [of ap n])
  next
    case False
    let ?k = "rn_last_applied n"
    have k: "?k < length (rn_log n)" using False 1(2) by auto
    have "apply_entry ap (rn_log n ! ?k) n \<noteq> Inl e" for e
      using assms(2) by (auto simp: apply_entry_def split: log_payload.splits config_action.splits sum.splits if_splits)
    then obtain n' where n': "apply_entry ap (rn_log n ! ?k) n = Inr n'"
      by (cases "apply_entry ap (rn_log n ! ?k) n") auto
    show ?thesis
      using 1(1) [OF False refl, of n'] 1(2) k n' False apply_entry_frame(1,3) [OF n']
      by (simp add: apply_committed_entries.simps [of ap n] Let_def)
  qed
qed

subsection \<open>The append-entries handler\<close>

definition node_ok :: "('c, 's) raft_node \<Rightarrow> bool" where
  "node_ok n \<longleftrightarrow> log_ok (rn_log n) \<and> rn_last_applied n = rn_commit_index n"

definition prev_matches :: "'c append_request \<Rightarrow> 'c log_entry list \<Rightarrow> bool" where
  "prev_matches req log \<longleftrightarrow> aq_prev_log_index req = 0 \<or>
     (aq_prev_log_index req \<le> length log \<and> le_term (log ! (aq_prev_log_index req - 1)) = aq_prev_log_term req)"

definition log_after :: "'c append_request \<Rightarrow> 'c log_entry list \<Rightarrow> 'c log_entry list" where
  "log_after req log =
     (let k = aq_prev_log_index req; es = aq_entries req
      in take k log @ es @ (if conflicting k es log then [] else drop (k + length es) log))"

definition commit_after :: "'c append_request \<Rightarrow> ('c, 's) raft_node \<Rightarrow> nat" where
  "commit_after req n = max (rn_commit_index n) (min (aq_leader_commit req) (length (log_after req (rn_log n))))"

text \<open>The node just before the committed entries are applied.\<close>

definition appended :: "'c append_request \<Rightarrow> ('c, 's) raft_node \<Rightarrow> ('c, 's) raft_node" where
  "appended req n = n\<lparr>rn_current_term := aq_term req,
     rn_voted_for := (if rn_current_term n < aq_term req then None else rn_voted_for n),
     rn_role := Follower, rn_leader_id := Some (aq_leader_id req),
     rn_log := log_after req (rn_log n), rn_commit_index := commit_after req n\<rparr>"

lemma prev_le: "prev_matches req log \<Longrightarrow> aq_prev_log_index req \<le> length log"
  by (auto simp: prev_matches_def)

lemma log_after_ok:
  assumes "log_ok log" "indexed_from (aq_prev_log_index req) (aq_entries req)" "prev_matches req log"
  shows "merge_entries (aq_prev_log_index req) (aq_entries req) log = log_after req log" "log_ok (log_after req log)"
  using merge_entries_eq [OF assms(1,2) prev_le [OF assms(3)]] merge_log_ok [OF assms(1,2) prev_le [OF assms(3)]]
  by (simp_all add: log_after_def Let_def)

lemma follow_leader_fields [simp]:
  "rn_log (follow_leader req n) = rn_log n" "rn_commit_index (follow_leader req n) = rn_commit_index n"
  "rn_last_applied (follow_leader req n) = rn_last_applied n" "rn_storage (follow_leader req n) = rn_storage n"
  "rn_id (follow_leader req n) = rn_id n" "rn_role (follow_leader req n) = Follower"
  "rn_current_term (follow_leader req n) = max (rn_current_term n) (aq_term req)"
  "rn_membership (follow_leader req n) = rn_membership n"
  by (simp_all add: follow_leader_def Let_def max_def)

lemma check_previous_None: "check_previous req n = None \<longleftrightarrow> prev_matches req (rn_log n)"
  by (auto simp: check_previous_def prev_matches_def Let_def)

lemma check_previous_bound:
  "log_ok (rn_log n) \<Longrightarrow> check_previous req n = Some k \<Longrightarrow> k \<le> length (rn_log n)"
  by (cases "rn_log n" rule: rev_cases) (auto simp: check_previous_def Let_def log_ok_def split: if_splits)

lemma append_accept:
  assumes "log_ok (rn_log n)" "indexed_from (aq_prev_log_index req) (aq_entries req)"
    "rn_current_term n \<le> aq_term req" "prev_matches req (rn_log n)"
  shows "append_entries_rpc ap req n =
    (case apply_committed_entries ap (appended req n) of
       (n', Inl e) \<Rightarrow> (n', Inl e)
     | (n', Inr _) \<Rightarrow> (n', Inr \<lparr>ar_term = aq_term req, ar_success = True,
         ar_match_index = length (log_after req (rn_log n)), ar_responder_id = rn_id n\<rparr>))"
proof -
  let ?f = "follow_leader req n"
  let ?m = "?f\<lparr>rn_log := log_after req (rn_log n)\<rparr>"
  have li: "last_log_index ?m = length (log_after req (rn_log n))"
    using last_log_index_eq [of ?m] log_after_ok(2) [OF assms(1,2,4)] by simp
  have app: "?m\<lparr>rn_commit_index := commit_after req n\<rparr> = appended req n"
    using assms(3) by (simp add: appended_def follow_leader_def Let_def)
  have none: "check_previous req ?f = None" using assms(4) by (simp add: check_previous_None)
  obtain n' r where r: "apply_committed_entries ap (appended req n) = (n', r)"
    by (cases "apply_committed_entries ap (appended req n)")
  have n': "rn_current_term n' = aq_term req" "rn_id n' = rn_id n"
    using apply_committed_frame [of ap "appended req n"] r by (simp_all add: appended_def)
  have "append_entries_rpc ap req n = store_entries ap req ?f"
    using assms(3) none by (simp add: append_entries_rpc_def)
  also have "\<dots> = (case apply_committed_entries ap (appended req n) of
       (n', Inl e) \<Rightarrow> (n', Inl e)
     | (n', Inr _) \<Rightarrow> (n', Inr \<lparr>ar_term = rn_current_term n', ar_success = True,
         ar_match_index = length (log_after req (rn_log n)), ar_responder_id = rn_id n'\<rparr>))"
    unfolding store_entries_def Let_def
    by (simp add: log_after_ok(1) [OF assms(1,2,4)] li commit_after_def [symmetric] app)
  finally show ?thesis using r n' by (simp split: sum.split)
qed

lemma append_refuse:
  assumes "log_ok (rn_log n)" "\<not> (rn_current_term n \<le> aq_term req \<and> prev_matches req (rn_log n))"
  shows "\<exists>k. k \<le> length (rn_log n) \<and> append_entries_rpc ap req n =
    (let n' = (if aq_term req < rn_current_term n then n else follow_leader req n) in (n', Inr (refuse_entries k n')))"
proof (cases "aq_term req < rn_current_term n")
  case True
  then show ?thesis
    by (intro exI [of _ "length (rn_log n)"]) (simp add: append_entries_rpc_def last_log_index_eq assms(1))
next
  case False
  then obtain k where k: "check_previous req (follow_leader req n) = Some k"
    using assms(2) check_previous_None [of req "follow_leader req n"]
    by (cases "check_previous req (follow_leader req n)") auto
  then have "k \<le> length (rn_log n)"
    using check_previous_bound [of "follow_leader req n" req k] assms(1) by simp
  with False k show ?thesis by (intro exI [of _ k]) (simp add: append_entries_rpc_def)
qed

lemma append_entries_spec:
  fixes ap :: "'c \<Rightarrow> 's \<Rightarrow> replication_error + 's" and req :: "'c append_request" and n :: "('c, 's) raft_node"
  assumes "node_ok n" "indexed_from (aq_prev_log_index req) (aq_entries req)"
  shows "let (n', r) = append_entries_rpc ap req n in
    r \<noteq> Inl Panic \<and> rn_current_term n' = max (rn_current_term n) (aq_term req) \<and> log_ok (rn_log n') \<and>
    (if rn_current_term n \<le> aq_term req \<and> prev_matches req (rn_log n)
     then rn_log n' = log_after req (rn_log n) \<and> rn_commit_index n' = commit_after req n \<and>
       (\<forall>resp. r = Inr resp \<longrightarrow> ar_success resp \<and> ar_match_index resp = length (rn_log n') \<and> node_ok n' \<and>
          fold_result (entry_command ap) (drop (rn_commit_index n) (take (rn_commit_index n') (rn_log n'))) (rn_storage n) =
            Inr (rn_storage n'))
     else rn_log n' = rn_log n \<and> rn_commit_index n' = rn_commit_index n \<and> rn_storage n' = rn_storage n \<and> node_ok n' \<and>
       (\<exists>resp. r = Inr resp \<and> \<not> ar_success resp \<and> ar_match_index resp \<le> length (rn_log n)))"
proof (cases "rn_current_term n \<le> aq_term req \<and> prev_matches req (rn_log n)")
  case True
  have ok: "log_ok (rn_log n)" "rn_last_applied n = rn_commit_index n" using assms(1) by (simp_all add: node_ok_def)
  let ?m = "appended req n"
  have bound: "rn_commit_index ?m \<le> max (rn_last_applied ?m) (length (rn_log ?m))"
    using ok(2) by (simp add: appended_def commit_after_def)
  note frame = apply_committed_frame [of ap ?m]
  note result = apply_committed_ok [of ?m ap, OF bound]
  have m: "rn_log ?m = log_after req (rn_log n)" "rn_commit_index ?m = commit_after req n"
    "rn_last_applied ?m = rn_commit_index n" "rn_storage ?m = rn_storage n" "rn_current_term ?m = aq_term req"
    using ok(2) by (simp_all add: appended_def)
  have commit: "rn_commit_index n \<le> commit_after req n" by (simp add: commit_after_def)
  obtain n' r where ar: "apply_committed_entries ap ?m = (n', r)" by (cases "apply_committed_entries ap ?m")
  have log: "log_ok (log_after req (rn_log n))"
    using log_after_ok(2) [OF ok(1) assms(2)] True by simp
  show ?thesis
    using True ar frame result m commit log
    by (cases r) (simp_all add: append_accept [OF ok(1) assms(2)] node_ok_def max_def)
next
  case False
  have ok: "log_ok (rn_log n)" using assms(1) by (simp add: node_ok_def)
  show ?thesis
    using append_refuse [OF ok False, of ap] False assms(1)
    by (auto simp: node_ok_def refuse_entries_def Let_def max_def)
qed

text \<open>
  C21: The append-entries handler on a settled node (log numbered from one, everything committed
  applied), for a request whose entries are numbered from its previous index, on every branch: the
  term never decreases; a stale term or a previous entry that does not match is refused with the log
  untouched; otherwise the log becomes the prefix before the request, the request's entries, and the
  old tail only if none of them contradicts it, the commit index becomes the leader's bounded by the
  log and never decreases, exactly the newly committed commands are applied to the storage in order,
  and the node is settled again. The handler never panics there.
\<close>

theorem append_entries_exact:
  fixes ap :: "'c \<Rightarrow> 's \<Rightarrow> replication_error + 's" and req :: "'c append_request" and n :: "('c, 's) raft_node"
  assumes "node_ok n" "indexed_from (aq_prev_log_index req) (aq_entries req)"
  shows "let (n', r) = append_entries_rpc ap req n in
    r \<noteq> Inl Panic \<and> rn_current_term n' = max (rn_current_term n) (aq_term req) \<and> log_ok (rn_log n') \<and>
    (if rn_current_term n \<le> aq_term req \<and> prev_matches req (rn_log n)
     then rn_log n' = log_after req (rn_log n) \<and> rn_commit_index n' = commit_after req n \<and>
       (\<forall>resp. r = Inr resp \<longrightarrow> ar_success resp \<and> ar_match_index resp = length (rn_log n') \<and> node_ok n' \<and>
          fold_result (entry_command ap) (drop (rn_commit_index n) (take (rn_commit_index n') (rn_log n'))) (rn_storage n) =
            Inr (rn_storage n'))
     else rn_log n' = rn_log n \<and> rn_commit_index n' = rn_commit_index n \<and> rn_storage n' = rn_storage n \<and> node_ok n' \<and>
       (\<exists>resp. r = Inr resp \<and> \<not> ar_success resp \<and> ar_match_index resp \<le> length (rn_log n)))"
  by (rule append_entries_spec [OF assms])

theorem append_entries_exact_witness:
  "let n = (raft_new ''b'' [''a''] [])\<lparr>rn_current_term := 1,
             rn_log := [LogEntry 1 1 (CommandPayload ''x''), LogEntry 2 1 (CommandPayload ''y'')]\<rparr>;
       req = \<lparr>aq_term = 2, aq_leader_id = ''a'', aq_prev_log_index = 1, aq_prev_log_term = 1,
              aq_entries = [LogEntry 2 2 (CommandPayload ''z'')], aq_leader_commit = 2\<rparr>;
       (n', r) = append_entries_rpc (\<lambda>c s. Inr (s @ [c])) req n
   in node_ok n \<and> rn_log n' = [LogEntry 1 1 (CommandPayload ''x''), LogEntry 2 2 (CommandPayload ''z'')] \<and>
      rn_commit_index n' = 2"
proof -
  let ?n = "(raft_new ''b'' [''a''] [])\<lparr>rn_current_term := 1,
             rn_log := [LogEntry 1 1 (CommandPayload ''x''), LogEntry 2 1 (CommandPayload ''y'')]\<rparr>"
  let ?req = "\<lparr>aq_term = 2, aq_leader_id = ''a'', aq_prev_log_index = 1, aq_prev_log_term = 1,
              aq_entries = [LogEntry 2 2 (CommandPayload ''z'')], aq_leader_commit = 2\<rparr>"
  have ok: "node_ok ?n" by (simp add: node_ok_def raft_new_def log_ok_def less_Suc_eq)
  have ix: "indexed_from (aq_prev_log_index ?req) (aq_entries ?req)" by (simp add: indexed_from_def)
  have acc: "prev_matches ?req (rn_log ?n)" by (simp add: prev_matches_def)
  have log: "log_after ?req (rn_log ?n) = [LogEntry 1 1 (CommandPayload ''x''), LogEntry 2 2 (CommandPayload ''z'')]"
    by (simp add: log_after_def conflicting_def differs_def)
  then have "commit_after ?req ?n = 2" by (simp add: commit_after_def raft_new_def)
  then show ?thesis
    using append_entries_exact [OF ok ix, of "\<lambda>c s. Inr (s @ [c])"] acc log ok
    by (simp add: Let_def case_prod_beta)
qed

end
