(* ===== verification/Raft_Leader.thy ===== *)
theory Raft_Leader
  imports Raft_Log
begin

text \<open>
  The leader's side of log replication in crates/replication/src/lib.rs: the replication loop to one
  peer, the round over the membership, and a client write from the append to the commit broadcast.
  The peers are reached through the in-memory transport, whose table of nodes is a map; a call on an
  absent node is a transport error. The write runs without interleaving.
\<close>

type_synonym ('c, 's) peers = "string \<Rightarrow> ('c, 's) raft_node option"

definition unknown_peer :: "string \<Rightarrow> fault" where
  "unknown_peer target = Fault (Transport (''unknown peer '' @ target))"

definition transport_append ::
    "('c \<Rightarrow> 's \<Rightarrow> replication_error + 's) \<Rightarrow> string \<Rightarrow> 'c append_request \<Rightarrow> ('c, 's) peers \<Rightarrow>
     ('c, 's) peers \<times> (fault + append_response)" where
  "transport_append apply_command target request peers =
     (case peers target of
        None \<Rightarrow> (peers, Inl (unknown_peer target))
      | Some n \<Rightarrow> (let (n, r) = append_entries_rpc apply_command request n in (peers(target \<mapsto> n), r)))"

definition build_append_request :: "nat \<Rightarrow> ('c, 's) raft_node \<Rightarrow> fault + 'c append_request" where
  "build_append_request next_index n =
     (let prev_log_index = next_index - 1
      in if 0 < prev_log_index \<and> length (rn_log n) < prev_log_index then Inl Panic
         else Inr \<lparr>aq_term = rn_current_term n, aq_leader_id = rn_id n, aq_prev_log_index = prev_log_index,
                   aq_prev_log_term = (if prev_log_index = 0 then 0 else le_term (rn_log n ! (prev_log_index - 1))),
                   aq_entries = (if next_index = 0 then rn_log n else drop (next_index - 1) (rn_log n)),
                   aq_leader_commit = rn_commit_index n\<rparr>)"

definition next_index_of :: "string \<Rightarrow> ('c, 's) raft_node \<Rightarrow> nat" where
  "next_index_of peer n = (case rn_next_index n peer of Some k \<Rightarrow> k | None \<Rightarrow> 1)"

definition step_down :: "append_response \<Rightarrow> ('c, 's) raft_node \<Rightarrow> ('c, 's) raft_node" where
  "step_down response n =
     n\<lparr>rn_current_term := ar_term response, rn_role := Follower, rn_leader_id := Some (ar_responder_id response),
       rn_voted_for := None\<rparr>"

text \<open>One turn of the loop once the response is there: \<open>Inr None\<close> goes round again.\<close>

definition handle_append_response ::
    "string \<Rightarrow> nat \<Rightarrow> nat \<Rightarrow> append_response \<Rightarrow> ('c, 's) raft_node \<Rightarrow> ('c, 's) raft_node \<times> (fault + bool option)" where
  "handle_append_response peer committed_through current_term response n =
     (if current_term < ar_term response
      then (step_down response n, Inl (Fault (NotLeader (ar_responder_id response))))
      else if ar_success response
      then (n\<lparr>rn_match_index := (rn_match_index n)(peer \<mapsto> ar_match_index response),
              rn_next_index := (rn_next_index n)(peer \<mapsto> ar_match_index response + 1)\<rparr>,
            Inr (Some (committed_through \<le> ar_match_index response)))
      else if next_index_of peer n \<le> 1
      then (n\<lparr>rn_next_index := (rn_next_index n)(peer \<mapsto> next_index_of peer n)\<rparr>, Inr (Some False))
      else (n\<lparr>rn_next_index := (rn_next_index n)(peer \<mapsto> next_index_of peer n - 1)\<rparr>, Inr None))"

lemma handle_again_decreases:
  "handle_append_response peer k t resp n = (n', Inr None) \<Longrightarrow> next_index_of peer n' < next_index_of peer n"
  by (auto simp: handle_append_response_def next_index_of_def split: if_splits)

function replicate_to_peer ::
    "('c \<Rightarrow> 's \<Rightarrow> replication_error + 's) \<Rightarrow> string \<Rightarrow> nat \<Rightarrow> ('c, 's) raft_node \<Rightarrow> ('c, 's) peers \<Rightarrow>
     ('c, 's) raft_node \<times> ('c, 's) peers \<times> (fault + bool)" where
  "replicate_to_peer apply_command peer committed_through n peers =
     (case build_append_request (next_index_of peer n) n of
        Inl e \<Rightarrow> (n, peers, Inl e)
      | Inr request \<Rightarrow>
          (case transport_append apply_command peer request peers of
             (peers, Inl e) \<Rightarrow> (n, peers, Inl e)
           | (peers, Inr response) \<Rightarrow>
               (case handle_append_response peer committed_through (rn_current_term n) response n of
                  (n, Inl e) \<Rightarrow> (n, peers, Inl e)
                | (n, Inr (Some acked)) \<Rightarrow> (n, peers, Inr acked)
                | (n, Inr None) \<Rightarrow> replicate_to_peer apply_command peer committed_through n peers)))"
  by pat_completeness auto

termination
  by (relation "measure (\<lambda>(ap, peer, k, n, peers). next_index_of peer n)") (auto dest: handle_again_decreases [OF sym])

declare replicate_to_peer.simps [simp del]

fun replicate_to_peers ::
    "('c \<Rightarrow> 's \<Rightarrow> replication_error + 's) \<Rightarrow> nat \<Rightarrow> string list \<Rightarrow> nat \<Rightarrow> ('c, 's) raft_node \<Rightarrow> ('c, 's) peers \<Rightarrow>
     ('c, 's) raft_node \<times> ('c, 's) peers \<times> (fault + nat)" where
  "replicate_to_peers apply_command committed_through [] acks n peers = (n, peers, Inr acks)"
| "replicate_to_peers apply_command committed_through (peer # rest) acks n peers =
     (case replicate_to_peer apply_command peer committed_through n peers of
        (n, peers, Inl e) \<Rightarrow> (n, peers, Inl e)
      | (n, peers, Inr acked) \<Rightarrow>
          replicate_to_peers apply_command committed_through rest (if acked then acks + 1 else acks) n peers)"

definition replicate_to_quorum ::
    "('c \<Rightarrow> 's \<Rightarrow> replication_error + 's) \<Rightarrow> nat \<Rightarrow> ('c, 's) raft_node \<Rightarrow> ('c, 's) peers \<Rightarrow>
     ('c, 's) raft_node \<times> ('c, 's) peers \<times> (fault + nat)" where
  "replicate_to_quorum apply_command committed_through n peers =
     replicate_to_peers apply_command committed_through (rn_membership n) 1 n peers"

text \<open>\<open>let _ =\<close>: the outcome of a commit broadcast is ignored.\<close>

definition broadcast_commit ::
    "('c \<Rightarrow> 's \<Rightarrow> replication_error + 's) \<Rightarrow> nat \<Rightarrow> ('c, 's) raft_node \<Rightarrow> ('c, 's) peers \<Rightarrow> ('c, 's) peers" where
  "broadcast_commit apply_command leader_commit n peers =
     fold (\<lambda>peer peers. fst (transport_append apply_command peer
       \<lparr>aq_term = rn_current_term n, aq_leader_id = rn_id n, aq_prev_log_index = last_log_index n,
        aq_prev_log_term = snd (last_log_position n), aq_entries = [], aq_leader_commit = leader_commit\<rparr> peers))
       (rn_membership n) peers"

fun push_commands :: "nat \<Rightarrow> 'c list \<Rightarrow> 'c log_entry list \<Rightarrow> 'c log_entry list" where
  "push_commands term [] log = log"
| "push_commands term (command # commands) log =
     push_commands term commands (log @ [LogEntry (length log + 1) term (CommandPayload command)])"

definition apply_inner ::
    "('c \<Rightarrow> 's \<Rightarrow> replication_error + 's) \<Rightarrow> 'c list \<Rightarrow> ('c, 's) raft_node \<Rightarrow> ('c, 's) peers \<Rightarrow>
     ('c, 's) raft_node \<times> ('c, 's) peers \<times> (fault + unit)" where
  "apply_inner apply_command commands n peers =
     (if \<not> rn_running n then (n, peers, Inl (Fault Shutdown))
      else if rn_role n \<noteq> Leader then (n, peers, Inl (Fault (NotLeader (leader_target n))))
      else
        (let n = n\<lparr>rn_log := push_commands (rn_current_term n) commands (rn_log n)\<rparr>;
             last_index = last_log_index n
         in case replicate_to_quorum apply_command last_index n peers of
              (n, peers, Inl e) \<Rightarrow> (n, peers, Inl e)
            | (n, peers, Inr acks) \<Rightarrow>
                if acks < quorum_size n then (n, peers, Inl (Fault (NoQuorum (quorum_size n) acks)))
                else (case apply_committed_entries apply_command (n\<lparr>rn_commit_index := last_index\<rparr>) of
                        (n, Inl e) \<Rightarrow> (n, peers, Inl e)
                      | (n, Inr _) \<Rightarrow> (n, broadcast_commit apply_command last_index n peers, Inr ()))))"

subsection \<open>Replication to one peer\<close>

definition log_matching :: "'c log_entry list \<Rightarrow> 'c log_entry list \<Rightarrow> bool" where
  "log_matching L P \<longleftrightarrow> (\<forall>k. 0 < k \<and> k \<le> length L \<and> k \<le> length P \<and> le_term (L ! (k - 1)) = le_term (P ! (k - 1)) \<longrightarrow>
     take k L = take k P)"

definition extends_log :: "'c log_entry list \<Rightarrow> 'c log_entry list \<Rightarrow> bool" where
  "extends_log L P \<longleftrightarrow> (\<exists>ys. P = L @ ys)"

definition peer_ok :: "('c, 's) raft_node \<Rightarrow> ('c, 's) raft_node \<Rightarrow> bool" where
  "peer_ok n p \<longleftrightarrow> node_ok p \<and> rn_current_term p \<le> rn_current_term n \<and> log_matching (rn_log n) (rn_log p)"

text \<open>What the leader's loop does not change.\<close>

definition same_leader :: "string set \<Rightarrow> ('c, 's) raft_node \<Rightarrow> ('c, 's) raft_node \<Rightarrow> bool" where
  "same_leader ps n n' \<longleftrightarrow> rn_log n' = rn_log n \<and> rn_current_term n' = rn_current_term n \<and>
     rn_commit_index n' = rn_commit_index n \<and> rn_last_applied n' = rn_last_applied n \<and>
     rn_storage n' = rn_storage n \<and> rn_membership n' = rn_membership n \<and> rn_id n' = rn_id n \<and>
     rn_role n' = rn_role n \<and> (\<forall>q. q \<notin> ps \<longrightarrow> rn_next_index n' q = rn_next_index n q)"

lemma same_leader_trans: "same_leader A n n' \<Longrightarrow> same_leader B n' n'' \<Longrightarrow> same_leader (A \<union> B) n n''"
  by (auto simp: same_leader_def)

lemma same_leader_refl [simp]: "same_leader A n n"
  by (simp add: same_leader_def)

lemma extends_matching: "extends_log L P \<Longrightarrow> log_matching L P"
  by (auto simp: extends_log_def log_matching_def)

text \<open>A storage that accepts every command.\<close>

definition never_fails :: "('c \<Rightarrow> 's \<Rightarrow> replication_error + 's) \<Rightarrow> bool" where
  "never_fails ap \<longleftrightarrow> (\<forall>c s. is_ok (ap c s))"

lemma never_fails_no_error: "never_fails ap \<Longrightarrow> ap c s \<noteq> Inl e"
  unfolding never_fails_def by (metis is_ok_simps(1))

lemma append_total:
  assumes "node_ok p" "indexed_from (aq_prev_log_index req) (aq_entries req)"
    "rn_current_term p \<le> aq_term req" "prev_matches req (rn_log p)" "never_fails ap"
  shows "\<exists>p'. append_entries_rpc ap req p = (p', Inr \<lparr>ar_term = aq_term req, ar_success = True,
      ar_match_index = length (log_after req (rn_log p)), ar_responder_id = rn_id p\<rparr>) \<and>
    rn_log p' = log_after req (rn_log p) \<and> rn_current_term p' = aq_term req \<and> node_ok p' \<and> rn_id p' = rn_id p \<and>
    rn_commit_index p' = commit_after req p"
proof -
  have ok: "log_ok (rn_log p)" "rn_last_applied p = rn_commit_index p" using assms(1) by (simp_all add: node_ok_def)
  have "rn_commit_index (appended req p) \<le> max (rn_last_applied (appended req p)) (length (rn_log (appended req p)))"
    using ok(2) by (simp add: appended_def commit_after_def)
  then have "snd (apply_committed_entries ap (appended req p)) = Inr ()"
    by (rule apply_committed_total [OF _ never_fails_no_error [OF assms(5)]])
  then obtain p' where p': "apply_committed_entries ap (appended req p) = (p', Inr ())"
    by (cases "apply_committed_entries ap (appended req p)") auto
  show ?thesis
    using append_entries_spec [OF assms(1,2), of ap] append_accept [OF ok(1) assms(2,3,4), of ap] p' assms(3,4)
      apply_committed_frame [of ap "appended req p"]
    by (auto simp: Let_def appended_def max_def)
qed

lemma build_request_eq:
  assumes "next_index_of peer n \<le> length (rn_log n) + 1"
  shows "build_append_request (next_index_of peer n) n =
    Inr \<lparr>aq_term = rn_current_term n, aq_leader_id = rn_id n, aq_prev_log_index = next_index_of peer n - 1,
      aq_prev_log_term = (if next_index_of peer n - 1 = 0 then 0 else le_term (rn_log n ! (next_index_of peer n - 2))),
      aq_entries = drop (next_index_of peer n - 1) (rn_log n), aq_leader_commit = rn_commit_index n\<rparr>"
  using assms by (auto simp: build_append_request_def Let_def numeral_2_eq_2)

lemma log_after_suffix:
  assumes "aq_prev_log_index req \<le> length L" "aq_entries req = drop (aq_prev_log_index req) L"
    "aq_prev_log_index req \<noteq> 0 \<Longrightarrow> aq_prev_log_term req = le_term (L ! (aq_prev_log_index req - 1))"
    "prev_matches req P" "log_matching L P"
  shows "extends_log L (log_after req P)"
proof -
  let ?k = "aq_prev_log_index req"
  have "take ?k P = take ?k L"
  proof (cases "?k = 0")
    case False
    then have "0 < ?k \<and> ?k \<le> length L \<and> ?k \<le> length P \<and> le_term (L ! (?k - 1)) = le_term (P ! (?k - 1))"
      using assms(1,3,4) by (auto simp: prev_matches_def)
    then show ?thesis using assms(5) unfolding log_matching_def by metis
  qed simp
  then have "take ?k P @ drop ?k L = L" by simp
  then show ?thesis
    unfolding extends_log_def log_after_def Let_def assms(2) by (metis append.assoc)
qed

lemma replicate_to_peer_converges:
  assumes "never_fails ap" "log_ok (rn_log n)" "peers peer = Some p" "peer_ok n p"
    "next_index_of peer n \<le> length (rn_log n) + 1"
  shows "\<exists>n' p'. replicate_to_peer ap peer through n peers =
      (n', peers(peer \<mapsto> p'), Inr (through \<le> length (rn_log p'))) \<and>
    node_ok p' \<and> rn_current_term p' = rn_current_term n \<and> extends_log (rn_log n) (rn_log p') \<and>
    same_leader {peer} n n' \<and> next_index_of peer n' = length (rn_log p') + 1"
  using assms(2-)
proof (induction "next_index_of peer n" arbitrary: n p peers rule: less_induct)
  case less
  define k where "k = next_index_of peer n - 1"
  define req where "req = \<lparr>aq_term = rn_current_term n, aq_leader_id = rn_id n, aq_prev_log_index = k,
      aq_prev_log_term = (if k = 0 then 0 else le_term (rn_log n ! (k - 1))),
      aq_entries = drop k (rn_log n), aq_leader_commit = rn_commit_index n\<rparr>"
  have req: "aq_term req = rn_current_term n" "aq_prev_log_index req = k" "aq_entries req = drop k (rn_log n)"
    "k \<noteq> 0 \<Longrightarrow> aq_prev_log_term req = le_term (rn_log n ! (k - 1))"
    by (simp_all add: req_def)
  have build: "build_append_request (next_index_of peer n) n = Inr req"
    using build_request_eq [OF less.prems(4)] by (simp add: req_def k_def numeral_2_eq_2)
  have k: "k \<le> length (rn_log n)" using less.prems(4) by (simp add: k_def)
  have ix: "indexed_from (aq_prev_log_index req) (aq_entries req)"
    using indexed_from_drop [OF less.prems(1)] by (simp add: req)
  have p: "node_ok p" "rn_current_term p \<le> aq_term req" "log_matching (rn_log n) (rn_log p)"
    using less.prems(3) by (simp_all add: peer_ok_def req)
  show ?case
  proof (cases "prev_matches req (rn_log p)")
    case True
    obtain p' where p': "append_entries_rpc ap req p = (p', Inr \<lparr>ar_term = aq_term req, ar_success = True,
        ar_match_index = length (log_after req (rn_log p)), ar_responder_id = rn_id p\<rparr>)"
      "rn_log p' = log_after req (rn_log p)" "rn_current_term p' = aq_term req" "node_ok p'"
      using append_total [OF p(1) ix p(2) True assms(1)] by blast
    have ext: "extends_log (rn_log n) (rn_log p')"
      unfolding p'(2) by (rule log_after_suffix [OF _ _ _ True p(3)]) (use k req in auto)
    let ?n = "n\<lparr>rn_match_index := (rn_match_index n)(peer \<mapsto> length (rn_log p')),
        rn_next_index := (rn_next_index n)(peer \<mapsto> length (rn_log p') + 1)\<rparr>"
    have "replicate_to_peer ap peer through n peers = (?n, peers(peer \<mapsto> p'), Inr (through \<le> length (rn_log p')))"
      using build p' less.prems(2)
      by (subst replicate_to_peer.simps) (simp add: transport_append_def handle_append_response_def req(1))
    with p' ext show ?thesis
      by (intro exI [of _ ?n] exI [of _ p']) (simp add: same_leader_def next_index_of_def req(1))
  next
    case False
    have pos: "1 < next_index_of peer n" using False by (auto simp: prev_matches_def req k_def)
    have ok: "log_ok (rn_log p)" using p(1) by (simp add: node_ok_def)
    let ?p = "follow_leader req p"
    obtain j where ref: "append_entries_rpc ap req p = (?p, Inr (refuse_entries j ?p))"
      using append_refuse [OF ok, of req ap] False p(2) by (auto simp: Let_def)
    let ?n = "n\<lparr>rn_next_index := (rn_next_index n)(peer \<mapsto> next_index_of peer n - 1)\<rparr>"
    have ni: "next_index_of peer ?n = next_index_of peer n - 1" by (simp add: next_index_of_def)
    have step: "replicate_to_peer ap peer through n peers = replicate_to_peer ap peer through ?n (peers(peer \<mapsto> ?p))"
      using build ref pos p(2) less.prems(2)
      by (subst replicate_to_peer.simps)
        (simp add: transport_append_def handle_append_response_def refuse_entries_def req(1))
    have pok: "peer_ok ?n ?p" using p by (simp add: peer_ok_def node_ok_def req(1))
    have "\<exists>n' p'. replicate_to_peer ap peer through ?n (peers(peer \<mapsto> ?p)) =
      (n', peers(peer \<mapsto> ?p, peer \<mapsto> p'), Inr (through \<le> length (rn_log p'))) \<and>
      node_ok p' \<and> rn_current_term p' = rn_current_term ?n \<and> extends_log (rn_log ?n) (rn_log p') \<and>
      same_leader {peer} ?n n' \<and> next_index_of peer n' = length (rn_log p') + 1"
      by (rule less.hyps) (use ni pos pok less.prems in \<open>auto\<close>)
    then show ?thesis unfolding step by (auto simp: same_leader_def)
  qed
qed

end
