(* ===== verification/Raft_Write.thy ===== *)
theory Raft_Write
  imports Raft_Leader
begin

text \<open>
  A client write on a leader, crates/replication/src/lib.rs: when it succeeds, what every member then
  holds, and when it fails.
\<close>

subsection \<open>The round over the members\<close>

lemma peer_ok_same: "same_leader A n n' \<Longrightarrow> peer_ok n' p = peer_ok n p"
  by (simp add: peer_ok_def same_leader_def)

definition member_ready :: "('c, 's) raft_node \<Rightarrow> ('c, 's) peers \<Rightarrow> string \<Rightarrow> bool" where
  "member_ready n peers q \<longleftrightarrow> next_index_of q n \<le> length (rn_log n) + 1 \<and> (\<forall>p. peers q = Some p \<longrightarrow> peer_ok n p)"

definition holds_log :: "('c, 's) raft_node \<Rightarrow> ('c, 's) peers \<Rightarrow> string \<Rightarrow> bool" where
  "holds_log n peers q \<longleftrightarrow> (\<exists>p. peers q = Some p \<and> node_ok p \<and> rn_current_term p = rn_current_term n \<and>
     extends_log (rn_log n) (rn_log p))"

lemma holds_log_length: "holds_log n peers q \<Longrightarrow> peers q = Some p \<Longrightarrow> length (rn_log n) \<le> length (rn_log p)"
  by (auto simp: holds_log_def extends_log_def)

lemma replicate_absent:
  assumes "peers q = None" "next_index_of q n \<le> length (rn_log n) + 1"
  shows "replicate_to_peer ap q through n peers = (n, peers, Inl (unknown_peer q))"
  using assms(1) build_request_eq [OF assms(2)]
  by (subst replicate_to_peer.simps) (simp add: transport_append_def)

lemma replicate_round:
  assumes "never_fails ap" "log_ok (rn_log n)" "distinct ps" "\<forall>q\<in>set ps. member_ready n peers q"
  shows "\<exists>n' peers' r. replicate_to_peers ap (length (rn_log n)) ps acks n peers = (n', peers', r) \<and>
    same_leader (set ps) n n' \<and> (\<forall>q. q \<notin> set ps \<longrightarrow> peers' q = peers q) \<and>
    (if \<exists>q\<in>set ps. peers q = None
     then (\<exists>q\<in>set ps. peers q = None \<and> r = Inl (unknown_peer q))
     else r = Inr (acks + length ps) \<and> (\<forall>q\<in>set ps. holds_log n peers' q))"
  using assms(2-)
proof (induction ps arbitrary: acks n peers)
  case (Cons q ps)
  have ready: "member_ready n peers q" using Cons.prems(3) by simp
  show ?case
  proof (cases "peers q")
    case None
    then show ?thesis
      using replicate_absent [of peers q n ap "length (rn_log n)"] ready by (simp add: member_ready_def)
  next
    case (Some p)
    then obtain n1 p1 where one: "replicate_to_peer ap q (length (rn_log n)) n peers =
        (n1, peers(q \<mapsto> p1), Inr (length (rn_log n) \<le> length (rn_log p1)))"
      "node_ok p1" "rn_current_term p1 = rn_current_term n" "extends_log (rn_log n) (rn_log p1)" "same_leader {q} n n1"
      using replicate_to_peer_converges [OF assms(1) Cons.prems(1), of peers q p "length (rn_log n)"] ready Some
      by (auto simp: member_ready_def)
    have len: "length (rn_log n) \<le> length (rn_log p1)" using one(4) by (auto simp: extends_log_def)
    have n1: "rn_log n1 = rn_log n" "rn_current_term n1 = rn_current_term n" using one(5) by (simp_all add: same_leader_def)
    define peers1 where "peers1 = peers(q \<mapsto> p1)"
    have peers1: "peers1 q = Some p1" "q' \<noteq> q \<Longrightarrow> peers1 q' = peers q'" for q' by (simp_all add: peers1_def)
    have "log_ok (rn_log n1)" "distinct ps" using Cons.prems(1,2) n1 by simp_all
    moreover have ready1: "\<forall>q'\<in>set ps. member_ready n1 peers1 q'"
      using Cons.prems(2,3) one(5) peer_ok_same [OF one(5)]
      by (auto simp: member_ready_def next_index_of_def same_leader_def peers1_def)
    ultimately obtain n2 peers2 r where rest: "replicate_to_peers ap (length (rn_log n1)) ps (acks + 1) n1 peers1 = (n2, peers2, r)"
      "same_leader (set ps) n1 n2" "\<forall>q'. q' \<notin> set ps \<longrightarrow> peers2 q' = peers1 q'"
      "if \<exists>q'\<in>set ps. peers1 q' = None
       then (\<exists>q'\<in>set ps. peers1 q' = None \<and> r = Inl (unknown_peer q'))
       else r = Inr (acks + 1 + length ps) \<and> (\<forall>q'\<in>set ps. holds_log n1 peers2 q')"
      using Cons.IH [of n1 peers1 "acks + 1"] by blast
    have all: "replicate_to_peers ap (length (rn_log n)) (q # ps) acks n peers = (n2, peers2, r)"
      using one(1) rest(1) len n1 by (simp add: peers1_def)
    have leader: "same_leader (set (q # ps)) n n2" using same_leader_trans [OF one(5) rest(2)] by simp
    have others: "\<forall>q'. q' \<notin> set (q # ps) \<longrightarrow> peers2 q' = peers q'" using rest(3) peers1 by auto
    have holds: "holds_log n peers2 q" "holds_log n1 peers2 q' = holds_log n peers2 q'" for q'
      using rest(3) Cons.prems(2) one(2-4) peers1(1) n1 by (auto simp: holds_log_def)
    have absent: "peers1 q' = None \<longleftrightarrow> peers q' = None" for q' using Some peers1 by (cases "q' = q") auto
    have result: "if \<exists>q'\<in>set (q # ps). peers q' = None
       then (\<exists>q'\<in>set (q # ps). peers q' = None \<and> r = Inl (unknown_peer q'))
       else r = Inr (acks + length (q # ps)) \<and> (\<forall>q'\<in>set (q # ps). holds_log n peers2 q')"
      using rest(4) holds Some unfolding absent by (cases "\<exists>q'\<in>set ps. peers q' = None") auto
    show ?thesis using all leader others result by blast
  qed
qed simp

subsection \<open>The commit broadcast\<close>

lemma broadcast_one:
  assumes "never_fails ap" "holds_log n peers q" "log_ok (rn_log n)" "rn_commit_index n = length (rn_log n)"
  defines "req \<equiv> \<lparr>aq_term = rn_current_term n, aq_leader_id = rn_id n, aq_prev_log_index = last_log_index n,
        aq_prev_log_term = snd (last_log_position n), aq_entries = [], aq_leader_commit = length (rn_log n)\<rparr>"
  shows "\<exists>p'. fst (transport_append ap q req peers) = peers(q \<mapsto> p') \<and> node_ok p' \<and>
    rn_current_term p' = rn_current_term n \<and> extends_log (rn_log n) (rn_log p') \<and> length (rn_log n) \<le> rn_commit_index p'"
proof -
  obtain p where p: "peers q = Some p" "node_ok p" "rn_current_term p = rn_current_term n" "extends_log (rn_log n) (rn_log p)"
    using assms(2) by (auto simp: holds_log_def)
  then obtain ys where ys: "rn_log p = rn_log n @ ys" by (auto simp: extends_log_def)
  have prev: "aq_prev_log_index req = length (rn_log n)" by (simp add: req_def last_log_index_eq [OF assms(3)])
  have last: "rn_log n \<noteq> [] \<Longrightarrow> aq_prev_log_term req = le_term (last (rn_log n))"
    by (simp add: req_def last_log_position_def last_opt_def)
  have matches: "prev_matches req (rn_log p)"
  proof (cases "rn_log n = []")
    case False
    then have "rn_log p ! (length (rn_log n) - 1) = last (rn_log n)"
      by (simp add: ys nth_append last_conv_nth)
    with False show ?thesis using last prev by (simp add: prev_matches_def ys)
  qed (simp add: prev_matches_def prev)
  have la: "log_after req (rn_log p) = rn_log p"
    by (simp add: log_after_def Let_def prev conflicting_def) (simp add: req_def ys)
  have ix: "indexed_from (aq_prev_log_index req) (aq_entries req)" by (simp add: req_def indexed_from_def)
  have tm: "rn_current_term p \<le> aq_term req" using p(3) by (simp add: req_def)
  obtain p' r where p': "append_entries_rpc ap req p = (p', r)" "rn_log p' = rn_log p"
      "rn_current_term p' = aq_term req" "node_ok p'" "rn_commit_index p' = commit_after req p"
    using append_total [OF p(2) ix tm matches assms(1)] la by auto
  have "length (rn_log n) \<le> commit_after req p"
    by (simp add: commit_after_def la) (simp add: req_def ys)
  with p' p show ?thesis
    by (intro exI [of _ p']) (simp add: transport_append_def, simp add: req_def)
qed

lemma broadcast_round:
  assumes "never_fails ap" "log_ok (rn_log n)" "rn_commit_index n = length (rn_log n)"
  defines "send \<equiv> \<lambda>peer peers. fst (transport_append ap peer
    \<lparr>aq_term = rn_current_term n, aq_leader_id = rn_id n, aq_prev_log_index = last_log_index n,
     aq_prev_log_term = snd (last_log_position n), aq_entries = [], aq_leader_commit = length (rn_log n)\<rparr> peers)"
  assumes "distinct ps" "\<forall>q\<in>set ps. holds_log n peers q"
  shows "(\<forall>q\<in>set ps. holds_log n (fold send ps peers) q \<and>
      (\<forall>p'. fold send ps peers q = Some p' \<longrightarrow> length (rn_log n) \<le> rn_commit_index p')) \<and>
    (\<forall>q. q \<notin> set ps \<longrightarrow> fold send ps peers q = peers q)"
  using assms(5,6)
proof (induction ps arbitrary: peers)
  case (Cons q ps)
  obtain p' where p': "send q peers = peers(q \<mapsto> p')" "node_ok p'" "rn_current_term p' = rn_current_term n"
      "extends_log (rn_log n) (rn_log p')" "length (rn_log n) \<le> rn_commit_index p'"
    using broadcast_one [OF assms(1) _ assms(2,3), of peers q] Cons.prems(2) unfolding send_def by auto
  define peers1 where "peers1 = peers(q \<mapsto> p')"
  have rest: "\<forall>q'\<in>set ps. holds_log n peers1 q'" using Cons.prems by (auto simp: holds_log_def peers1_def)
  have IH: "(\<forall>q'\<in>set ps. holds_log n (fold send ps peers1) q' \<and>
      (\<forall>p'. fold send ps peers1 q' = Some p' \<longrightarrow> length (rn_log n) \<le> rn_commit_index p')) \<and>
    (\<forall>q'. q' \<notin> set ps \<longrightarrow> fold send ps peers1 q' = peers1 q')"
    using Cons.IH [OF _ rest] Cons.prems(1) by simp
  have q: "fold send ps peers1 q = Some p'" using IH Cons.prems(1) by (simp add: peers1_def)
  have eq: "fold send (q # ps) peers = fold send ps peers1" by (simp add: p'(1) peers1_def)
  show ?case
    unfolding eq using IH q p'(2-5) by (auto simp: holds_log_def peers1_def)
qed simp

subsection \<open>The write\<close>

lemma push_commands_eq:
  "\<exists>es. push_commands t cs log = log @ es \<and> length es = length cs \<and> (\<forall>e\<in>set es. le_term e = t) \<and>
     map le_payload es = map CommandPayload cs \<and> indexed_from (length log) es"
proof (induction cs arbitrary: log)
  case Nil
  then show ?case by (simp add: indexed_from_def)
next
  case (Cons c cs)
  let ?e = "LogEntry (length log + 1) t (CommandPayload c)"
  obtain es where es: "push_commands t cs (log @ [?e]) = (log @ [?e]) @ es" "length es = length cs"
    "\<forall>e\<in>set es. le_term e = t" "map le_payload es = map CommandPayload cs" "indexed_from (length (log @ [?e])) es"
    using Cons [of "log @ [?e]"] by blast
  then show ?case
    by (intro exI [of _ "?e # es"]) (simp add: indexed_from_Cons)
qed

text \<open>Only commands, no configuration change: what \<open>apply_inner\<close> itself ever appends.\<close>

definition only_commands :: "'c log_entry list \<Rightarrow> bool" where
  "only_commands log \<longleftrightarrow> (\<forall>e\<in>set log. \<exists>c. le_payload e = CommandPayload c)"

lemma only_commands_push: "only_commands log \<Longrightarrow> only_commands (push_commands t cs log)"
proof (induction cs arbitrary: log)
  case (Cons c cs)
  have "only_commands (log @ [LogEntry (length log + 1) t (CommandPayload c)])"
    using Cons.prems by (auto simp: only_commands_def)
  from Cons.IH [OF this] show ?case by simp
qed simp

lemma apply_committed_membership:
  assumes "only_commands (rn_log n)"
  shows "rn_membership (fst (apply_committed_entries ap n)) = rn_membership n"
  using assms
proof (induction ap n rule: apply_committed_entries.induct)
  case (1 ap n)
  show ?case
  proof (cases "rn_commit_index n \<le> rn_last_applied n \<or> length (rn_log n) \<le> rn_last_applied n")
    case True
    then show ?thesis by (auto simp: apply_committed_entries.simps [of ap n] Let_def)
  next
    case False
    let ?k = "rn_last_applied n"
    obtain c where c: "le_payload (rn_log n ! ?k) = CommandPayload c"
      using 1(2) False by (auto simp: only_commands_def not_le dest!: bspec [OF _ nth_mem])
    show ?thesis
    proof (cases "ap c (rn_storage n)")
      case (Inl e)
      then show ?thesis using c False by (simp add: apply_committed_entries.simps [of ap n] Let_def apply_entry_def)
    next
      case (Inr s)
      have e: "apply_entry ap (rn_log n ! ?k) n = Inr (n\<lparr>rn_storage := s\<rparr>)"
        using c Inr by (simp add: apply_entry_def)
      show ?thesis
        using False 1(1) [of "?k + 1" "n\<lparr>rn_storage := s\<rparr>"] e 1(2)
        by (simp add: apply_committed_entries.simps [of ap n] Let_def)
    qed
  qed
qed

text \<open>A follower whose log can only differ from the leader's in entries of earlier terms.\<close>

definition follower_of :: "('c, 's) raft_node \<Rightarrow> ('c, 's) raft_node \<Rightarrow> bool" where
  "follower_of n p \<longleftrightarrow> peer_ok n p \<and>
     (\<forall>i<length (rn_log p). length (rn_log n) \<le> i \<longrightarrow> le_term (rn_log p ! i) < rn_current_term n)"

lemma matching_push:
  assumes "log_matching L P" "\<forall>i<length P. length L \<le> i \<longrightarrow> le_term (P ! i) < t" "\<forall>e\<in>set es. le_term e = t"
  shows "log_matching (L @ es) P"
  unfolding log_matching_def
proof (intro allI impI)
  fix k
  assume k: "0 < k \<and> k \<le> length (L @ es) \<and> k \<le> length P \<and> le_term ((L @ es) ! (k - 1)) = le_term (P ! (k - 1))"
  show "take k (L @ es) = take k P"
  proof (cases "k \<le> length L")
    case True
    with k have "k - 1 < length L" by linarith
    then have "(L @ es) ! (k - 1) = L ! (k - 1)" by (rule nth_append_left)
    with k True have "take k L = take k P" using assms(1) unfolding log_matching_def by metis
    with True show ?thesis by simp
  next
    case False
    then have "(L @ es) ! (k - 1) \<in> set es" using k by (auto simp: nth_append)
    moreover have "le_term (P ! (k - 1)) < t" using assms(2) [rule_format, of "k - 1"] k False by linarith
    ultimately show ?thesis using k assms(3) by auto
  qed
qed

lemma member_ready_push:
  assumes "\<forall>p. peers q = Some p \<longrightarrow> follower_of n p" "next_index_of q n \<le> length (rn_log n) + 1"
  shows "member_ready (n\<lparr>rn_log := push_commands (rn_current_term n) cs (rn_log n)\<rparr>) peers q"
proof -
  obtain es where es: "push_commands (rn_current_term n) cs (rn_log n) = rn_log n @ es" "\<forall>e\<in>set es. le_term e = rn_current_term n"
    using push_commands_eq by blast
  have "log_matching (rn_log n @ es) (rn_log p)" if "peers q = Some p" for p
    using assms(1) that by (intro matching_push [OF _ _ es(2)]) (auto simp: follower_of_def peer_ok_def)
  then show ?thesis
    using assms by (simp add: member_ready_def es(1) peer_ok_def follower_of_def next_index_of_def)
qed

lemma commit_leader:
  assumes "never_fails ap" "rn_last_applied n \<le> length (rn_log n)" "only_commands (rn_log n)"
  defines "m \<equiv> fst (apply_committed_entries ap (n\<lparr>rn_commit_index := length (rn_log n)\<rparr>))"
  shows "apply_committed_entries ap (n\<lparr>rn_commit_index := length (rn_log n)\<rparr>) = (m, Inr ())"
    "rn_commit_index m = length (rn_log n)" "rn_last_applied m = length (rn_log n)" "rn_log m = rn_log n"
    "rn_current_term m = rn_current_term n" "rn_id m = rn_id n" "rn_membership m = rn_membership n"
    "fold_result (entry_command ap) (drop (rn_last_applied n) (rn_log n)) (rn_storage n) = Inr (rn_storage m)"
proof -
  let ?n = "n\<lparr>rn_commit_index := length (rn_log n)\<rparr>"
  have bound: "rn_commit_index ?n \<le> max (rn_last_applied ?n) (length (rn_log ?n))" by simp
  have ok: "snd (apply_committed_entries ap ?n) = Inr ()"
    by (rule apply_committed_total [OF bound never_fails_no_error [OF assms(1)]])
  then show "apply_committed_entries ap ?n = (m, Inr ())" by (simp add: m_def prod_eq_iff)
  show "rn_commit_index m = length (rn_log n)" "rn_log m = rn_log n" "rn_current_term m = rn_current_term n" "rn_id m = rn_id n"
    using apply_committed_frame [of ap ?n] by (simp_all add: m_def)
  show "rn_membership m = rn_membership n"
    using apply_committed_membership [of ?n ap] assms(3) by (simp add: m_def)
  show "rn_last_applied m = length (rn_log n)"
    "fold_result (entry_command ap) (drop (rn_last_applied n) (rn_log n)) (rn_storage n) = Inr (rn_storage m)"
    using apply_committed_ok [OF bound, of ap] ok assms(2) by (simp_all add: m_def max_def)
qed

definition write_done :: "('c \<Rightarrow> 's \<Rightarrow> replication_error + 's) \<Rightarrow> ('c, 's) raft_node \<Rightarrow> ('c, 's) raft_node \<Rightarrow> ('c, 's) peers \<Rightarrow> bool" where
  "write_done ap n n' peers' \<longleftrightarrow>
     rn_commit_index n' = length (rn_log n') \<and> rn_last_applied n' = length (rn_log n') \<and>
     fold_result (entry_command ap) (drop (rn_last_applied n) (rn_log n')) (rn_storage n) = Inr (rn_storage n') \<and>
     (\<forall>q\<in>set (rn_membership n). \<exists>p. peers' q = Some p \<and> node_ok p \<and> extends_log (rn_log n') (rn_log p) \<and>
        length (rn_log n') \<le> rn_commit_index p)"

text \<open>
  C22: A write on a running leader whose members' logs can differ from its own only in entries of
  earlier terms: if every member is reachable it succeeds, the new entries are committed and applied
  on the leader in order, and every member's log extends the leader's and has committed all of it.
  If some member is unreachable the write fails with that member's transport error, however many
  others acknowledge it, and nothing is committed, while the new entries stay in the leader's log.
\<close>

theorem write_needs_every_member:
  assumes "never_fails ap" "rn_running n" "rn_role n = Leader" "distinct (rn_membership n)"
    and "log_ok (rn_log n)" "rn_last_applied n \<le> length (rn_log n)" "only_commands (rn_log n)"
    and "\<forall>q\<in>set (rn_membership n). next_index_of q n \<le> length (rn_log n) + 1 \<and> (\<forall>p. peers q = Some p \<longrightarrow> follower_of n p)"
  shows "case apply_inner ap cs n peers of (n', peers', r) \<Rightarrow>
    rn_log n' = push_commands (rn_current_term n) cs (rn_log n) \<and>
    (if \<forall>q\<in>set (rn_membership n). peers q \<noteq> None then r = Inr () \<and> write_done ap n n' peers'
     else (\<exists>q\<in>set (rn_membership n). peers q = None \<and> r = Inl (unknown_peer q)) \<and>
       rn_commit_index n' = rn_commit_index n \<and> rn_storage n' = rn_storage n)"
proof -
  define m where "m = n\<lparr>rn_log := push_commands (rn_current_term n) cs (rn_log n)\<rparr>"
  obtain es where es: "rn_log m = rn_log n @ es" "indexed_from (length (rn_log n)) es"
    unfolding m_def using push_commands_eq [of "rn_current_term n" cs "rn_log n"] by auto
  have ok: "log_ok (rn_log m)" using assms(5) es by (simp add: log_ok_append)
  have mem: "rn_membership m = rn_membership n" by (simp add: m_def)
  have ready: "\<forall>q\<in>set (rn_membership m). member_ready m peers q"
  proof
    fix q assume "q \<in> set (rn_membership m)"
    then have "\<forall>p. peers q = Some p \<longrightarrow> follower_of n p" "next_index_of q n \<le> length (rn_log n) + 1"
      using assms(8) mem by simp_all
    then show "member_ready m peers q" unfolding m_def by (rule member_ready_push)
  qed
  obtain n1 peers1 r1 where round: "replicate_to_peers ap (length (rn_log m)) (rn_membership m) 1 m peers = (n1, peers1, r1)"
    "same_leader (set (rn_membership m)) m n1"
    "if \<exists>q\<in>set (rn_membership m). peers q = None
     then (\<exists>q\<in>set (rn_membership m). peers q = None \<and> r1 = Inl (unknown_peer q))
     else r1 = Inr (1 + length (rn_membership m)) \<and> (\<forall>q\<in>set (rn_membership m). holds_log m peers1 q)"
    using replicate_round [OF assms(1) ok, of "rn_membership m" peers 1] assms(4) ready unfolding mem by blast
  have start: "apply_inner ap cs n peers =
    (case (n1, peers1, r1) of
       (n, peers, Inl e) \<Rightarrow> (n, peers, Inl e)
     | (n, peers, Inr acks) \<Rightarrow>
         if acks < quorum_size n then (n, peers, Inl (Fault (NoQuorum (quorum_size n) acks)))
         else (case apply_committed_entries ap (n\<lparr>rn_commit_index := length (rn_log m)\<rparr>) of
                 (n, Inl e) \<Rightarrow> (n, peers, Inl e)
               | (n, Inr _) \<Rightarrow> (n, broadcast_commit ap (length (rn_log m)) n peers, Inr ())))"
    using assms(2,3) round(1)
    by (simp only: apply_inner_def replicate_to_quorum_def m_def [symmetric] Let_def last_log_index_eq [OF ok]) simp
  have n1: "rn_log n1 = rn_log m" "rn_commit_index n1 = rn_commit_index n" "rn_storage n1 = rn_storage n"
    "rn_membership n1 = rn_membership n" "rn_last_applied n1 = rn_last_applied n" "rn_current_term n1 = rn_current_term n"
    using round(2) by (simp_all add: same_leader_def m_def)
  show ?thesis
  proof (cases "\<forall>q\<in>set (rn_membership n). peers q \<noteq> None")
    case False
    then show ?thesis
      using round(3) n1 unfolding start mem by (auto simp: m_def)
  next
    case True
    have r1: "r1 = Inr (1 + length (rn_membership n))" and holds: "\<forall>q\<in>set (rn_membership n). holds_log m peers1 q"
      using round(3) True by (auto simp: mem)
    have quorum: "\<not> 1 + length (rn_membership n) < quorum_size n1" by (simp add: quorum_size_def n1 Let_def)
    have la: "rn_last_applied n1 \<le> length (rn_log n1)" using assms(6) n1 es by simp
    have oc: "only_commands (rn_log n1)" using only_commands_push [OF assms(7)] n1 by (simp add: m_def)
    define n2 where "n2 = fst (apply_committed_entries ap (n1\<lparr>rn_commit_index := length (rn_log n1)\<rparr>))"
    note n2 = commit_leader [OF assms(1) la oc, folded n2_def]
    have h2: "holds_log n2 peers1 q = holds_log m peers1 q" for q
      using n2 n1 by (simp add: holds_log_def m_def)
    have result: "apply_inner ap cs n peers = (n2, broadcast_commit ap (length (rn_log m)) n2 peers1, Inr ())"
      using r1 quorum n2(1) unfolding start n1(1) [symmetric] by simp
    have "\<forall>q\<in>set (rn_membership n). holds_log n2 (broadcast_commit ap (length (rn_log m)) n2 peers1) q \<and>
        (\<forall>p'. broadcast_commit ap (length (rn_log m)) n2 peers1 q = Some p' \<longrightarrow> length (rn_log n2) \<le> rn_commit_index p')"
      using broadcast_round [OF assms(1), of n2 "rn_membership n" peers1] ok n2 n1 holds h2 assms(4)
      unfolding broadcast_commit_def by simp
    then have "write_done ap n n2 (broadcast_commit ap (length (rn_log m)) n2 peers1)"
      using n2 n1 unfolding write_done_def holds_log_def by fastforce
    with True result n2 n1 show ?thesis by (simp add: m_def)
  qed
qed

text \<open>A three-node cluster with empty logs, its leader a.\<close>

definition demo_leader :: "(string, string list) raft_node" where
  "demo_leader = become_leader ((raft_new ''a'' [''b'', ''c''] [])\<lparr>rn_running := True, rn_current_term := 1\<rparr>)"

definition demo_append :: "string \<Rightarrow> string list \<Rightarrow> replication_error + string list" where
  "demo_append c s = Inr (s @ [c])"

lemma demo_sort [simp]: "sort [''b'', ''c''] = [''b'', ''c'']"
  by (simp add: less_eq_char_def)

lemma demo_leader_fields [simp]:
  "rn_id demo_leader = ''a''" "rn_running demo_leader" "rn_role demo_leader = Leader" "rn_current_term demo_leader = 1"
  "rn_membership demo_leader = [''b'', ''c'']" "rn_log demo_leader = []" "rn_last_applied demo_leader = 0"
  "rn_commit_index demo_leader = 0" "rn_storage demo_leader = []"
  "next_index_of ''b'' demo_leader = 1" "next_index_of ''c'' demo_leader = 1"
  by (simp_all add: demo_leader_def become_leader_def raft_new_def next_index_of_def last_log_index_def Let_def)

lemma demo_follower [simp]: "follower_of demo_leader (raft_new i ps [])"
  by (simp add: follower_of_def peer_ok_def node_ok_def raft_new_def log_ok_def log_matching_def)

lemma demo_append_never_fails [simp]: "never_fails demo_append"
  by (simp add: never_fails_def demo_append_def)

theorem write_needs_every_member_witness:
  "let b = raft_new ''b'' [''a'', ''c''] []; c = raft_new ''c'' [''a'', ''b''] []
   in (case apply_inner demo_append [''x''] demo_leader [''b'' \<mapsto> b, ''c'' \<mapsto> c] of (n', peers', r) \<Rightarrow>
         r = Inr () \<and> rn_storage n' = [''x''] \<and> rn_commit_index n' = 1) \<and>
      (case apply_inner demo_append [''x''] demo_leader [''b'' \<mapsto> b] of (n', peers', r) \<Rightarrow>
         r = Inl (unknown_peer ''c'') \<and> rn_commit_index n' = 0 \<and> length (rn_log n') = 1)"
proof -
  let ?b = "raft_new ''b'' [''a'', ''c''] [] :: (string, string list) raft_node"
  let ?c = "raft_new ''c'' [''a'', ''b''] [] :: (string, string list) raft_node"
  have log: "log_ok (rn_log demo_leader)" "only_commands (rn_log demo_leader)"
    by (simp_all add: log_ok_def only_commands_def)
  have one: "case apply_inner demo_append [''x''] demo_leader [''b'' \<mapsto> ?b, ''c'' \<mapsto> ?c] of (n', peers', r) \<Rightarrow>
    rn_log n' = push_commands (rn_current_term demo_leader) [''x''] (rn_log demo_leader) \<and>
    (if \<forall>q\<in>set (rn_membership demo_leader). [''b'' \<mapsto> ?b, ''c'' \<mapsto> ?c] q \<noteq> None
     then r = Inr () \<and> write_done demo_append demo_leader n' peers'
     else (\<exists>q\<in>set (rn_membership demo_leader). [''b'' \<mapsto> ?b, ''c'' \<mapsto> ?c] q = None \<and> r = Inl (unknown_peer q)) \<and>
       rn_commit_index n' = rn_commit_index demo_leader \<and> rn_storage n' = rn_storage demo_leader)"
    by (rule write_needs_every_member) (simp_all add: log [simplified])
  have two: "case apply_inner demo_append [''x''] demo_leader [''b'' \<mapsto> ?b] of (n', peers', r) \<Rightarrow>
    rn_log n' = push_commands (rn_current_term demo_leader) [''x''] (rn_log demo_leader) \<and>
    (if \<forall>q\<in>set (rn_membership demo_leader). [''b'' \<mapsto> ?b] q \<noteq> None
     then r = Inr () \<and> write_done demo_append demo_leader n' peers'
     else (\<exists>q\<in>set (rn_membership demo_leader). [''b'' \<mapsto> ?b] q = None \<and> r = Inl (unknown_peer q)) \<and>
       rn_commit_index n' = rn_commit_index demo_leader \<and> rn_storage n' = rn_storage demo_leader)"
    by (rule write_needs_every_member) (simp_all add: log [simplified])
  show ?thesis
    using one two by (auto simp: Let_def write_done_def entry_command_def demo_append_def split: prod.splits)
qed

text \<open>
  A write with no commands to a follower whose log is longer makes the leader's next write panic: the
  follower answers with the length of its whole log, one more than the leader's is the next index,
  and the entry before it does not exist.
\<close>

lemma empty_batch_then_panic:
  "let e1 = LogEntry 1 1 (CommandPayload ''x''); e2 = LogEntry 2 1 (CommandPayload ''y''); e3 = LogEntry 3 1 (CommandPayload ''z'');
       leader = (raft_new ''a'' [''b''] [])\<lparr>rn_running := True, rn_role := Leader, rn_current_term := 2, rn_log := [e1],
         rn_next_index := [''b'' \<mapsto> 2]\<rparr>;
       follower = (raft_new ''b'' [''a''] [])\<lparr>rn_current_term := 2, rn_log := [e1, e2, e3]\<rparr>;
       (leader', peers, r) = apply_inner demo_append [] leader [''b'' \<mapsto> follower]
   in r = Inr () \<and> snd (snd (apply_inner demo_append [''w''] leader' peers)) = Inl Panic"
  by (simp add: Let_def apply_inner_def replicate_to_quorum_def raft_new_def last_log_index_def last_log_position_def
      replicate_to_peer.simps build_append_request_def next_index_of_def transport_append_def append_entries_rpc_def
      check_previous_def follow_leader_def store_entries_def apply_committed_entries.simps handle_append_response_def
      apply_entry_def demo_append_def broadcast_commit_def quorum_size_def last_opt_def)

end
