(* ===== verification/Raft_Election.thy ===== *)
theory Raft_Election
  imports Raft_Write
begin

text \<open>
  Elections of a cluster of quorum replicators, crates/replication/src/lib.rs, as interleavings of the
  code between awaits: the start of an election, a node answering a vote request, the candidate
  taking in one response, its end, append requests and the step-down of a leader. Messages are
  delivered in any order, or never. The flag of the step relation says whether a continuation after
  an await is taken only while the state it was computed from still stands; the code does not test
  that, and is the relation with the flag off.
\<close>

subsection \<open>The cluster\<close>

record ('c, 's) cluster =
  cl_node :: "string \<Rightarrow> ('c, 's) raft_node"
  cl_requests :: "vote_request set"
  cl_responses :: "(vote_request \<times> vote_response) set"
  cl_election :: "string \<Rightarrow> (vote_request \<times> string set) option"
  cl_votes :: "(string \<times> nat \<times> string) set"
  cl_leaders :: "(nat \<times> string) set"

text \<open>\<open>cl_votes\<close> (voter, term, candidate) and \<open>cl_leaders\<close> (term, node) only record what happened.\<close>

definition cluster_start :: "string list \<Rightarrow> 's \<Rightarrow> ('c, 's) cluster" where
  "cluster_start ids storage =
     \<lparr>cl_node = (\<lambda>i. raft_start (raft_new i (filter (\<lambda>j. j \<noteq> i) ids) storage)), cl_requests = {},
      cl_responses = {}, cl_election = Map.empty, cl_votes = {}, cl_leaders = {}\<rparr>"

definition set_node :: "string \<Rightarrow> ('c, 's) raft_node \<Rightarrow> ('c, 's) cluster \<Rightarrow> ('c, 's) cluster" where
  "set_node i n cl = cl\<lparr>cl_node := (cl_node cl)(i := n)\<rparr>"

text \<open>
  \<open>cluster_step False\<close> has the steps of the code. \<open>cluster_step True\<close> leaves out three of them, which a check
  after each await would prevent: winning an election that is over, and stepping down for a term that is
  not ahead, when a response is counted and when an append is answered.
\<close>

inductive cluster_step ::
    "bool \<Rightarrow> ('c \<Rightarrow> 's \<Rightarrow> replication_error + 's) \<Rightarrow> string list \<Rightarrow> ('c, 's) cluster \<Rightarrow> ('c, 's) cluster \<Rightarrow> bool"
  for timely ap ids where
  start: "i \<in> set ids \<Longrightarrow> rn_current_term (cl_node cl i) < u64_max \<Longrightarrow>
     election_start (cl_node cl i) = (n, Inr req) \<Longrightarrow>
     cluster_step timely ap ids cl ((set_node i n cl)
       \<lparr>cl_votes := insert (i, vq_term req, i) (cl_votes cl), cl_election := (cl_election cl)(i \<mapsto> (req, {})),
        cl_requests := insert req (cl_requests cl)\<rparr>)"
| vote: "v \<in> set ids \<Longrightarrow> req \<in> cl_requests cl \<Longrightarrow> v \<noteq> vq_candidate_id req \<Longrightarrow>
     request_vote_rpc req (cl_node cl v) = (n, resp) \<Longrightarrow>
     cluster_step timely ap ids cl ((set_node v n cl)
       \<lparr>cl_votes := (if vr_vote_granted resp then insert (v, vq_term req, vq_candidate_id req) (cl_votes cl) else cl_votes cl),
        cl_responses := insert (req, resp) (cl_responses cl)\<rparr>)"
| count: "cl_election cl i = Some (req, vs) \<Longrightarrow> (req, resp) \<in> cl_responses cl \<Longrightarrow>
     election_response req resp votes (cl_node cl i) = (n, Inr votes') \<Longrightarrow>
     cluster_step timely ap ids cl ((set_node i n cl)
       \<lparr>cl_election := (cl_election cl)(i \<mapsto> (req, if vr_vote_granted resp then insert (vr_voter_id resp) vs else vs))\<rparr>)"
| abandon: "cl_election cl i = Some (req, vs) \<Longrightarrow> (req, resp) \<in> cl_responses cl \<Longrightarrow>
     election_response req resp votes (cl_node cl i) = (n, Inl e) \<Longrightarrow>
     (timely \<longrightarrow> rn_current_term (cl_node cl i) < vr_term resp) \<Longrightarrow>
     cluster_step timely ap ids cl ((set_node i n cl)\<lparr>cl_election := (cl_election cl)(i := None)\<rparr>)"
| win: "cl_election cl i = Some (req, vs) \<Longrightarrow>
     election_finish (card vs + 1) (cl_node cl i) = (n, Inr ()) \<Longrightarrow>
     (timely \<longrightarrow> rn_role (cl_node cl i) = Candidate \<and> rn_current_term (cl_node cl i) = vq_term req) \<Longrightarrow>
     cluster_step timely ap ids cl ((set_node i n cl)
       \<lparr>cl_election := (cl_election cl)(i := None), cl_leaders := insert (rn_current_term n, i) (cl_leaders cl)\<rparr>)"
| lose: "cl_election cl i = Some (req, vs) \<Longrightarrow>
     election_finish (card vs + 1) (cl_node cl i) = (n, Inl e) \<Longrightarrow>
     cluster_step timely ap ids cl ((set_node i n cl)\<lparr>cl_election := (cl_election cl)(i := None)\<rparr>)"
| append: "v \<in> set ids \<Longrightarrow> only_commands (aq_entries areq) \<Longrightarrow>
     append_entries_rpc ap areq (cl_node cl v) = (n, r) \<Longrightarrow>
     cluster_step timely ap ids cl (set_node v n cl)"
| demote: "(timely \<longrightarrow> rn_current_term (cl_node cl i) < ar_term aresp) \<Longrightarrow>
     cluster_step timely ap ids cl (set_node i (step_down aresp (cl_node cl i)) cl)"

inductive_cases cluster_stepE: "cluster_step timely ap ids cl cl'"

subsection \<open>One node\<close>

text \<open>
  What every handler keeps: the term grows, or it stays and so does a vote already given; nobody
  becomes a leader.
\<close>

definition steady :: "('c, 's) raft_node \<Rightarrow> ('c, 's) raft_node \<Rightarrow> bool" where
  "steady n n' \<longleftrightarrow> rn_id n' = rn_id n \<and> rn_membership n' = rn_membership n \<and> only_commands (rn_log n') \<and>
     (rn_current_term n < rn_current_term n' \<or>
      rn_current_term n = rn_current_term n' \<and> (\<forall>c. rn_voted_for n = Some c \<longrightarrow> rn_voted_for n' = Some c)) \<and>
     (rn_role n' = Leader \<longrightarrow> rn_role n = Leader \<and> rn_current_term n' = rn_current_term n)"

lemma steady_vote:
  assumes "request_vote_rpc req n = (n', resp)" "only_commands (rn_log n)"
  shows "steady n n' \<and> vr_voter_id resp = rn_id n \<and>
    (vr_vote_granted resp \<longrightarrow> rn_current_term n' = vq_term req \<and> rn_voted_for n' = Some (vq_candidate_id req))"
  using assms
  by (auto simp: request_vote_rpc_def steady_def Let_def is_up_to_date_def split: if_splits option.splits)

lemma only_commands_merge:
  "only_commands es \<Longrightarrow> only_commands log \<Longrightarrow> only_commands (merge_entries slot es log)"
proof (induction slot es log rule: merge_entries.induct)
  case (2 slot e es log)
  have tk: "only_commands (take slot log @ [e])" "only_commands (log @ [e])" "only_commands es"
    using 2(4,5) by (auto simp: only_commands_def dest: in_set_takeD)
  show ?case using 2 tk by (auto simp: Let_def)
qed simp

lemma steady_append:
  assumes "append_entries_rpc ap req n = (n', r)" "only_commands (rn_log n)" "only_commands (aq_entries req)"
  shows "steady n n'"
proof -
  let ?f = "follow_leader req n"
  have f: "steady n ?f" if "\<not> aq_term req < rn_current_term n"
    using assms(2) that by (auto simp: steady_def follow_leader_def Let_def)
  have st: "steady n (fst (store_entries ap req ?f))" if "\<not> aq_term req < rn_current_term n"
  proof -
    let ?l = "merge_entries (aq_prev_log_index req) (aq_entries req) (rn_log ?f)"
    let ?m = "(?f\<lparr>rn_log := ?l\<rparr>)\<lparr>rn_commit_index := max (rn_commit_index ?f) (min (aq_leader_commit req) (last_log_index (?f\<lparr>rn_log := ?l\<rparr>)))\<rparr>"
    have oc: "only_commands ?l" using only_commands_merge [OF assms(3)] assms(2) by simp
    have "fst (store_entries ap req ?f) = fst (apply_committed_entries ap ?m)"
      by (simp add: store_entries_def Let_def split: prod.split sum.split)
    then show ?thesis
      using f [OF that] apply_committed_frame [of ap ?m] apply_committed_membership [of ?m ap] oc
      by (simp add: steady_def)
  qed
  show ?thesis
    using assms(1) f st assms(2)
    by (cases "aq_term req < rn_current_term n"; cases "check_previous req ?f")
      (auto simp: append_entries_rpc_def Let_def steady_def)
qed

subsection \<open>The cluster's invariant\<close>

definition elected :: "string list \<Rightarrow> (string \<times> nat \<times> string) set \<Rightarrow> nat \<Rightarrow> string \<Rightarrow> bool" where
  "elected ids votes t i \<longleftrightarrow> i \<in> set ids \<and> (\<exists>vs. vs \<subseteq> set ids - {i} \<and> (\<forall>v\<in>insert i vs. (v, t, i) \<in> votes) \<and>
     card (set ids) div 2 < card vs + 1)"

definition nodes_ok :: "string list \<Rightarrow> ('c, 's) cluster \<Rightarrow> bool" where
  "nodes_ok ids cl \<longleftrightarrow> (\<forall>i. rn_id (cl_node cl i) = i \<and> length (rn_membership (cl_node cl i)) = card (set ids - {i}) \<and>
     only_commands (rn_log (cl_node cl i)))"

definition votes_ok :: "('c, 's) cluster \<Rightarrow> bool" where
  "votes_ok cl \<longleftrightarrow> (\<forall>v t c. (v, t, c) \<in> cl_votes cl \<longrightarrow> t \<le> rn_current_term (cl_node cl v) \<and>
     (t = rn_current_term (cl_node cl v) \<longrightarrow> rn_voted_for (cl_node cl v) = Some c)) \<and>
   (\<forall>v t c c'. (v, t, c) \<in> cl_votes cl \<longrightarrow> (v, t, c') \<in> cl_votes cl \<longrightarrow> c = c')"

definition collecting :: "string list \<Rightarrow> (string \<times> nat \<times> string) set \<Rightarrow> string \<Rightarrow> vote_request \<Rightarrow> string set \<Rightarrow> bool" where
  "collecting ids votes i req vs \<longleftrightarrow> i \<in> set ids \<and> vq_candidate_id req = i \<and> vs \<subseteq> set ids - {i} \<and>
     (\<forall>v\<in>insert i vs. (v, vq_term req, i) \<in> votes)"

definition elections_ok :: "string list \<Rightarrow> ('c, 's) cluster \<Rightarrow> bool" where
  "elections_ok ids cl \<longleftrightarrow>
     (\<forall>i req vs. cl_election cl i = Some (req, vs) \<longrightarrow> collecting ids (cl_votes cl) i req vs) \<and>
     (\<forall>req resp. (req, resp) \<in> cl_responses cl \<longrightarrow> vr_vote_granted resp \<longrightarrow>
        vr_voter_id resp \<in> set ids - {vq_candidate_id req} \<and> (vr_voter_id resp, vq_term req, vq_candidate_id req) \<in> cl_votes cl)"

definition leaders_ok :: "string list \<Rightarrow> ('c, 's) cluster \<Rightarrow> bool" where
  "leaders_ok ids cl \<longleftrightarrow> (\<forall>t i. (t, i) \<in> cl_leaders cl \<longrightarrow> elected ids (cl_votes cl) t i) \<and>
     (\<forall>i. rn_role (cl_node cl i) = Leader \<longrightarrow> (rn_current_term (cl_node cl i), i) \<in> cl_leaders cl)"

definition cluster_ok :: "string list \<Rightarrow> ('c, 's) cluster \<Rightarrow> bool" where
  "cluster_ok ids cl \<longleftrightarrow> nodes_ok ids cl \<and> votes_ok cl \<and> elections_ok ids cl \<and> leaders_ok ids cl"

lemma collecting_mono: "collecting ids votes i req vs \<Longrightarrow> votes \<subseteq> votes' \<Longrightarrow> collecting ids votes' i req vs"
  unfolding collecting_def by blast

lemma elected_mono: "elected ids votes t i \<Longrightarrow> votes \<subseteq> votes' \<Longrightarrow> elected ids votes' t i"
  unfolding elected_def by blast

lemma cluster_ok_steady:
  assumes "cluster_ok ids cl" "steady (cl_node cl i) n"
  shows "cluster_ok ids (set_node i n cl)"
proof -
  have "nodes_ok ids (set_node i n cl)"
    using assms by (auto simp: cluster_ok_def nodes_ok_def set_node_def steady_def)
  moreover have "votes_ok (set_node i n cl)"
    using assms unfolding cluster_ok_def votes_ok_def set_node_def steady_def
    by (fastforce dest: le_less_trans)
  moreover have "elections_ok ids (set_node i n cl)"
    using assms by (simp add: cluster_ok_def elections_ok_def set_node_def)
  moreover have "leaders_ok ids (set_node i n cl)"
    using assms by (auto simp: cluster_ok_def leaders_ok_def set_node_def steady_def)
  ultimately show ?thesis by (simp add: cluster_ok_def)
qed

lemma cluster_ok_add_vote:
  assumes "cluster_ok ids cl" "rn_current_term (cl_node cl v) = t" "rn_voted_for (cl_node cl v) = Some c"
  shows "cluster_ok ids (cl\<lparr>cl_votes := insert (v, t, c) (cl_votes cl)\<rparr>)"
proof -
  let ?cl = "cl\<lparr>cl_votes := insert (v, t, c) (cl_votes cl)\<rparr>"
  have "nodes_ok ids ?cl" using assms by (simp add: cluster_ok_def nodes_ok_def)
  moreover have "votes_ok ?cl" using assms unfolding cluster_ok_def votes_ok_def by auto
  moreover have "elections_ok ids ?cl"
    using assms(1) collecting_mono [OF _ subset_insertI] unfolding cluster_ok_def elections_ok_def by auto
  moreover have "leaders_ok ids ?cl"
    using assms(1) elected_mono [OF _ subset_insertI] unfolding cluster_ok_def leaders_ok_def by auto
  ultimately show ?thesis by (simp add: cluster_ok_def)
qed

lemma cluster_ok_request: "cluster_ok ids cl \<Longrightarrow> cluster_ok ids (cl\<lparr>cl_requests := rs\<rparr>)"
  by (simp add: cluster_ok_def nodes_ok_def votes_ok_def elections_ok_def leaders_ok_def)

lemma cluster_ok_election:
  assumes "cluster_ok ids cl" "\<And>req vs. e = Some (req, vs) \<Longrightarrow> collecting ids (cl_votes cl) i req vs"
  shows "cluster_ok ids (cl\<lparr>cl_election := (cl_election cl)(i := e)\<rparr>)"
  using assms by (auto simp: cluster_ok_def nodes_ok_def votes_ok_def leaders_ok_def elections_ok_def)

lemma cluster_ok_response:
  assumes "cluster_ok ids cl"
    "vr_vote_granted resp \<Longrightarrow> vr_voter_id resp \<in> set ids - {vq_candidate_id req} \<and>
       (vr_voter_id resp, vq_term req, vq_candidate_id req) \<in> cl_votes cl"
  shows "cluster_ok ids (cl\<lparr>cl_responses := insert (req, resp) (cl_responses cl)\<rparr>)"
proof -
  have "elections_ok ids (cl\<lparr>cl_responses := insert (req, resp) (cl_responses cl)\<rparr>)"
    using assms unfolding cluster_ok_def elections_ok_def by auto
  with assms(1) show ?thesis by (simp add: cluster_ok_def nodes_ok_def votes_ok_def leaders_ok_def)
qed

lemma cluster_ok_win:
  assumes "cluster_ok ids cl" "cl_election cl i = Some (req, vs)" "card vs + 1 \<ge> quorum_size (cl_node cl i)"
    "rn_current_term (cl_node cl i) = vq_term req"
  shows "cluster_ok ids ((set_node i (become_leader (cl_node cl i)) cl)
    \<lparr>cl_election := (cl_election cl)(i := None), cl_leaders := insert (vq_term req, i) (cl_leaders cl)\<rparr>)"
proof -
  let ?n = "become_leader (cl_node cl i)"
  let ?cl = "(set_node i ?n cl)\<lparr>cl_election := (cl_election cl)(i := None), cl_leaders := insert (vq_term req, i) (cl_leaders cl)\<rparr>"
  have n: "rn_id ?n = rn_id (cl_node cl i)" "rn_membership ?n = rn_membership (cl_node cl i)"
    "rn_log ?n = rn_log (cl_node cl i)" "rn_current_term ?n = vq_term req" "rn_voted_for ?n = Some (rn_id (cl_node cl i))"
    "rn_role ?n = Leader"
    using assms(4) by (simp_all add: become_leader_def Let_def)
  have el: "i \<in> set ids" "vq_candidate_id req = i" "vs \<subseteq> set ids - {i}" "\<forall>v\<in>insert i vs. (v, vq_term req, i) \<in> cl_votes cl"
    using assms(1,2) by (auto simp: cluster_ok_def elections_ok_def collecting_def)
  have id: "rn_id (cl_node cl i) = i" "length (rn_membership (cl_node cl i)) = card (set ids - {i})"
    using assms(1) by (simp_all add: cluster_ok_def nodes_ok_def)
  then have "card (set ids) div 2 < card vs + 1"
    using assms(3) el(1) card_Suc_Diff1 [OF finite_set, of i ids] by (simp add: quorum_size_def Let_def)
  then have won: "elected ids (cl_votes cl) (vq_term req) i" using el unfolding elected_def by blast
  have "nodes_ok ids ?cl" using assms(1) n by (auto simp: cluster_ok_def nodes_ok_def set_node_def)
  moreover have "votes_ok ?cl"
    using assms(1,4) n id(1) el(4) unfolding cluster_ok_def votes_ok_def set_node_def by fastforce
  moreover have "elections_ok ids ?cl"
    using assms(1) by (auto simp: cluster_ok_def elections_ok_def set_node_def)
  moreover have "leaders_ok ids ?cl"
    using assms(1) won n by (auto simp: cluster_ok_def leaders_ok_def set_node_def)
  ultimately show ?thesis by (simp add: cluster_ok_def)
qed

lemma cluster_ok_step:
  assumes "cluster_step True ap ids cl cl'" "cluster_ok ids cl"
  shows "cluster_ok ids cl'"
  using assms(1)
proof cases
  case (start i n req)
  let ?old = "cl_node cl i"
  have id: "rn_id ?old = i" "only_commands (rn_log ?old)" using assms(2) by (simp_all add: cluster_ok_def nodes_ok_def)
  have req: "vq_term req = Suc (rn_current_term ?old)" "vq_candidate_id req = i" "rn_current_term n = Suc (rn_current_term ?old)"
    "rn_voted_for n = Some i" "steady ?old n"
    using start(3,4) id by (auto simp: election_start_def Let_def case_prod_beta steady_def wadd64_Suc [simplified] split: if_splits)
  let ?cl = "(set_node i n cl)\<lparr>cl_votes := insert (i, vq_term req, i) (cl_votes (set_node i n cl))\<rparr>"
  have "cluster_ok ids ?cl"
    by (rule cluster_ok_add_vote [OF cluster_ok_steady [OF assms(2) req(5)]]) (simp_all add: set_node_def req)
  then have "cluster_ok ids (?cl\<lparr>cl_election := (cl_election ?cl)(i := Some (req, {}))\<rparr>)"
    using start(2) req(2) by (intro cluster_ok_election) (auto simp: collecting_def)
  from cluster_ok_request [OF this] show ?thesis unfolding start(1) by (simp add: set_node_def)
next
  case (vote v req n resp)
  have id: "rn_id (cl_node cl v) = v" "only_commands (rn_log (cl_node cl v))"
    using assms(2) by (simp_all add: cluster_ok_def nodes_ok_def)
  have sv: "steady (cl_node cl v) n" "vr_voter_id resp = v"
    "vr_vote_granted resp \<Longrightarrow> rn_current_term n = vq_term req \<and> rn_voted_for n = Some (vq_candidate_id req)"
    using steady_vote [OF vote(5) id(2)] id(1) by simp_all
  let ?cl = "set_node v n cl"
  have ok: "cluster_ok ids ?cl" by (rule cluster_ok_steady [OF assms(2) sv(1)])
  let ?votes = "if vr_vote_granted resp then insert (v, vq_term req, vq_candidate_id req) (cl_votes ?cl) else cl_votes ?cl"
  have fields: "cl_votes ?cl = cl_votes cl" "cl_responses (?cl\<lparr>cl_votes := vs\<rparr>) = cl_responses cl" for vs
    by (simp_all add: set_node_def)
  have "cluster_ok ids (?cl\<lparr>cl_votes := ?votes\<rparr>)"
  proof (cases "vr_vote_granted resp")
    case True
    then show ?thesis using cluster_ok_add_vote [OF ok, of v] sv(3) by (simp add: set_node_def)
  qed (use ok in simp)
  then have "cluster_ok ids (?cl\<lparr>cl_votes := ?votes,
      cl_responses := insert (req, resp) (cl_responses (?cl\<lparr>cl_votes := ?votes\<rparr>))\<rparr>)"
    by (rule cluster_ok_response) (use vote(2,4) sv(2) in auto)
  then show ?thesis unfolding vote(1) fields .
next
  case (count i req vs resp votes n votes')
  have n: "n = cl_node cl i" using count(4) by (auto simp: election_response_def split: if_splits)
  then have same: "set_node i n cl = cl" by (simp add: set_node_def)
  have vs: "collecting ids (cl_votes cl) i req vs"
    "vr_vote_granted resp \<Longrightarrow> vr_voter_id resp \<in> set ids - {vq_candidate_id req} \<and>
       (vr_voter_id resp, vq_term req, vq_candidate_id req) \<in> cl_votes cl"
    using assms(2) count(2,3) unfolding cluster_ok_def elections_ok_def by blast+
  then have "collecting ids (cl_votes cl) i req (if vr_vote_granted resp then insert (vr_voter_id resp) vs else vs)"
    by (auto simp: collecting_def)
  then show ?thesis
    unfolding count(1) same by (intro cluster_ok_election [OF assms(2)]) simp
next
  case (abandon i req vs resp votes n e)
  have "steady (cl_node cl i) n"
    using abandon(4,5) assms(2) by (auto simp: election_response_def steady_def cluster_ok_def nodes_ok_def split: if_splits)
  from cluster_ok_election [OF cluster_ok_steady [OF assms(2) this], of None i] show ?thesis
    unfolding abandon(1) by (simp add: set_node_def)
next
  case (win i req vs n)
  have n: "n = become_leader (cl_node cl i)" "quorum_size (cl_node cl i) \<le> card vs + 1"
    using win(3) by (auto simp: election_finish_def split: if_splits)
  have "rn_current_term n = vq_term req" using win(4) by (simp add: n become_leader_def Let_def)
  then show ?thesis
    using cluster_ok_win [OF assms(2) win(2) n(2)] win(4) unfolding win(1) n(1) by simp
next
  case (lose i req vs n e)
  have n: "n = cl_node cl i" using lose(3) by (auto simp: election_finish_def split: if_splits)
  then have same: "set_node i n cl = cl" by (simp add: set_node_def)
  show ?thesis
    unfolding lose(1) same by (rule cluster_ok_election [OF assms(2)]) simp
next
  case (append v areq n r)
  have "steady (cl_node cl v) n"
    by (rule steady_append [OF append(4) _ append(3)]) (use assms(2) in \<open>simp add: cluster_ok_def nodes_ok_def\<close>)
  from cluster_ok_steady [OF assms(2) this] show ?thesis unfolding append(1) .
next
  case (demote i aresp)
  have "steady (cl_node cl i) (step_down aresp (cl_node cl i))"
    using demote(2) assms(2) by (auto simp: step_down_def steady_def cluster_ok_def nodes_ok_def)
  from cluster_ok_steady [OF assms(2) this] show ?thesis unfolding demote(1) .
qed

lemma cluster_ok_start: "distinct ids \<Longrightarrow> cluster_ok ids (cluster_start ids st)"
proof -
  assume d: "distinct ids"
  have "length (sort (remdups (filter (\<lambda>j. j \<noteq> i) ids))) = card (set ids - {i})" for i
    using d distinct_card [of "filter (\<lambda>j. j \<noteq> i) ids"] by (simp add: set_diff_eq set_eq_iff distinct_remdups_id)
  then show ?thesis
    by (simp add: cluster_ok_def nodes_ok_def votes_ok_def elections_ok_def leaders_ok_def cluster_start_def
        raft_start_def raft_new_def only_commands_def)
qed

interpretation timely_cluster:
  inductive_invariant "\<lambda>cl. distinct ids \<and> cl = cluster_start ids st" "cluster_step True ap ids" "cluster_ok ids"
  by unfold_locales (auto intro: cluster_ok_start cluster_ok_step)

lemma elected_unique:
  assumes "elected ids votes t i" "elected ids votes t j" "\<forall>v t c c'. (v, t, c) \<in> votes \<longrightarrow> (v, t, c') \<in> votes \<longrightarrow> c = c'"
  shows "i = j"
proof -
  obtain vs where vs: "vs \<subseteq> set ids - {i}" "\<forall>v\<in>insert i vs. (v, t, i) \<in> votes" "card (set ids) div 2 < card vs + 1" "i \<in> set ids"
    using assms(1) by (auto simp: elected_def)
  obtain ws where ws: "ws \<subseteq> set ids - {j}" "\<forall>v\<in>insert j ws. (v, t, j) \<in> votes" "card (set ids) div 2 < card ws + 1" "j \<in> set ids"
    using assms(2) by (auto simp: elected_def)
  have fin: "finite vs" "finite ws" using vs(1) ws(1) by (auto intro: finite_subset)
  have "i \<notin> vs" "j \<notin> ws" using vs(1) ws(1) by auto
  then have cards: "card (insert i vs) = card vs + 1" "card (insert j ws) = card ws + 1" using fin by simp_all
  have "insert i vs \<inter> insert j ws \<noteq> {}"
  proof
    assume "insert i vs \<inter> insert j ws = {}"
    then have "card (insert i vs \<union> insert j ws) = card vs + 1 + (card ws + 1)"
      using fin cards card_Un_disjoint [of "insert i vs" "insert j ws"] by simp
    moreover have "card (insert i vs \<union> insert j ws) \<le> card (set ids)"
      using vs(1,4) ws(1,4) by (intro card_mono) auto
    ultimately show False using vs(3) ws(3) by simp
  qed
  then obtain v where "v \<in> insert i vs" "v \<in> insert j ws" by blast
  then have "(v, t, i) \<in> votes" "(v, t, j) \<in> votes" using vs(2) ws(2) by blast+
  with assms(3) show ?thesis by blast
qed

lemma timely_leaders:
  assumes "distinct ids" "(cluster_step True ap ids)\<^sup>*\<^sup>* (cluster_start ids st) cl"
  shows "(\<forall>i j. rn_role (cl_node cl i) = Leader \<and> rn_role (cl_node cl j) = Leader \<and>
      rn_current_term (cl_node cl i) = rn_current_term (cl_node cl j) \<longrightarrow> i = j) \<and>
    (\<forall>t i j. (t, i) \<in> cl_leaders cl \<and> (t, j) \<in> cl_leaders cl \<longrightarrow> i = j) \<and>
    (\<forall>v t c c'. (v, t, c) \<in> cl_votes cl \<and> (v, t, c') \<in> cl_votes cl \<longrightarrow> c = c')"
proof -
  have ok: "cluster_ok ids cl"
    using timely_cluster.inv_reachable [of ids "cluster_start ids st" st ap cl] assms by simp
  have votes: "\<forall>v t c c'. (v, t, c) \<in> cl_votes cl \<longrightarrow> (v, t, c') \<in> cl_votes cl \<longrightarrow> c = c'"
    using ok unfolding cluster_ok_def votes_ok_def by blast
  have leaders: "i = j" if "(t, i) \<in> cl_leaders cl" "(t, j) \<in> cl_leaders cl" for t i j
    using ok that elected_unique [OF _ _ votes] unfolding cluster_ok_def leaders_ok_def by blast
  have role: "(rn_current_term (cl_node cl i), i) \<in> cl_leaders cl" if "rn_role (cl_node cl i) = Leader" for i
    using ok that unfolding cluster_ok_def leaders_ok_def by blast
  show ?thesis
  proof (intro conjI allI impI)
    fix i j
    assume "rn_role (cl_node cl i) = Leader \<and> rn_role (cl_node cl j) = Leader \<and>
      rn_current_term (cl_node cl i) = rn_current_term (cl_node cl j)"
    then show "i = j" using role [of i] role [of j] leaders by auto
  qed (use leaders votes in blast)+
qed

subsection \<open>Traces of three nodes\<close>

text \<open>The cluster after each event, by the event's own rule.\<close>

definition after_start :: "string \<Rightarrow> ('c, 's) cluster \<Rightarrow> ('c, 's) cluster" where
  "after_start i cl =
     (case election_start (cl_node cl i) of
        (n, Inr req) \<Rightarrow> (set_node i n cl)\<lparr>cl_votes := insert (i, vq_term req, i) (cl_votes cl),
          cl_election := (cl_election cl)(i \<mapsto> (req, {})), cl_requests := insert req (cl_requests cl)\<rparr>
      | _ \<Rightarrow> cl)"

definition after_vote :: "string \<Rightarrow> vote_request \<Rightarrow> ('c, 's) cluster \<Rightarrow> ('c, 's) cluster" where
  "after_vote v req cl =
     (case request_vote_rpc req (cl_node cl v) of
        (n, resp) \<Rightarrow> (set_node v n cl)
          \<lparr>cl_votes := (if vr_vote_granted resp then insert (v, vq_term req, vq_candidate_id req) (cl_votes cl) else cl_votes cl),
           cl_responses := insert (req, resp) (cl_responses cl)\<rparr>)"

definition after_count :: "string \<Rightarrow> vote_request \<Rightarrow> vote_response \<Rightarrow> ('c, 's) cluster \<Rightarrow> ('c, 's) cluster" where
  "after_count i req resp cl =
     (case cl_election cl i of
        Some (req', vs) \<Rightarrow> cl\<lparr>cl_election := (cl_election cl)(i \<mapsto> (req, if vr_vote_granted resp then insert (vr_voter_id resp) vs else vs))\<rparr>
      | None \<Rightarrow> cl)"

definition after_win :: "string \<Rightarrow> ('c, 's) cluster \<Rightarrow> ('c, 's) cluster" where
  "after_win i cl = (set_node i (become_leader (cl_node cl i)) cl)
     \<lparr>cl_election := (cl_election cl)(i := None),
      cl_leaders := insert (rn_current_term (become_leader (cl_node cl i)), i) (cl_leaders cl)\<rparr>"

lemma step_start:
  assumes "i \<in> set ids" "rn_current_term (cl_node cl i) < u64_max" "rn_running (cl_node cl i)"
  shows "cluster_step timely ap ids cl (after_start i cl)"
proof -
  obtain n req where e: "election_start (cl_node cl i) = (n, Inr req)"
    using assms(3) by (simp add: election_start_def Let_def case_prod_beta)
  show ?thesis
    unfolding after_start_def e prod.case sum.case by (rule cluster_step.start [OF assms(1,2) e])
qed

lemma step_vote:
  assumes "v \<in> set ids" "req \<in> cl_requests cl" "v \<noteq> vq_candidate_id req"
  shows "cluster_step timely ap ids cl (after_vote v req cl)"
proof -
  obtain n resp where e: "request_vote_rpc req (cl_node cl v) = (n, resp)" by fastforce
  show ?thesis unfolding after_vote_def e prod.case by (rule cluster_step.vote [OF assms e])
qed

lemma step_count:
  assumes "cl_election cl i = Some (req, vs)" "(req, resp) \<in> cl_responses cl" "vr_term resp \<le> vq_term req"
  shows "cluster_step timely ap ids cl (after_count i req resp cl)"
proof -
  have "set_node i (cl_node cl i) cl = cl" by (simp add: set_node_def)
  moreover have "election_response req resp 0 (cl_node cl i) = (cl_node cl i, Inr (if vr_vote_granted resp then 1 else 0))"
    using assms(3) by (simp add: election_response_def)
  ultimately show ?thesis
    using cluster_step.count [OF assms(1,2), of 0 "cl_node cl i"] assms(1) by (simp add: after_count_def)
qed

lemma step_win:
  assumes "cl_election cl i = Some (req, vs)" "quorum_size (cl_node cl i) \<le> card vs + 1"
    "timely \<longrightarrow> rn_role (cl_node cl i) = Candidate \<and> rn_current_term (cl_node cl i) = vq_term req"
  shows "cluster_step timely ap ids cl (after_win i cl)"
  unfolding after_win_def
  by (rule cluster_step.win [OF assms(1) _ assms(3)]) (use assms(2) in \<open>simp add: election_finish_def\<close>)

definition abc :: "string list" where
  "abc = [''a'', ''b'', ''c'']"

definition ask :: "nat \<Rightarrow> string \<Rightarrow> vote_request" where
  "ask t i = \<lparr>vq_term = t, vq_candidate_id = i, vq_last_log_index = 0, vq_last_log_term = 0\<rparr>"

definition yes :: "nat \<Rightarrow> string \<Rightarrow> vote_response" where
  "yes t v = \<lparr>vr_term = t, vr_vote_granted = True, vr_voter_id = v\<rparr>"

text \<open>a is elected in term 1 with b's vote.\<close>

definition elected_a :: "(string, unit) cluster" where
  "elected_a = after_count ''a'' (ask 1 ''a'') (yes 1 ''b'')
     (after_vote ''b'' (ask 1 ''a'') (after_start ''a'' (cluster_start abc ())))"

definition fresh_node :: "string \<Rightarrow> (string, unit) raft_node" where
  "fresh_node i = raft_start (raft_new i (filter (\<lambda>j. j \<noteq> i) abc) ())"

lemma fresh_node_fields [simp]:
  "rn_id (fresh_node i) = i" "rn_current_term (fresh_node i) = 0" "rn_running (fresh_node i)" "rn_log (fresh_node i) = []"
  "rn_voted_for (fresh_node i) = None" "rn_role (fresh_node i) = Follower"
  "quorum_size (fresh_node ''a'') = 2" "quorum_size (fresh_node ''b'') = 2" "quorum_size (fresh_node ''c'') = 2"
  by (simp_all add: fresh_node_def raft_start_def raft_new_def quorum_size_def abc_def)

lemma start_cluster:
  "cluster_start abc () = \<lparr>cl_node = fresh_node, cl_requests = {}, cl_responses = {}, cl_election = Map.empty,
     cl_votes = {}, cl_leaders = {}\<rparr>"
  by (simp add: cluster_start_def fresh_node_def [abs_def])

lemma ask_yes_simps [simp]:
  "vq_term (ask t i) = t" "vq_candidate_id (ask t i) = i" "vr_term (yes t v) = t" "vr_vote_granted (yes t v)"
  "vr_voter_id (yes t v) = v"
  by (simp_all add: ask_def yes_def)

lemma vote_granted:
  assumes "rn_current_term n < t" "rn_log n = []"
  shows "request_vote_rpc (ask t c) n =
    (n\<lparr>rn_current_term := t, rn_role := Follower, rn_voted_for := Some c, rn_leader_id := None\<rparr>, yes t (rn_id n))"
  using assms by (simp add: request_vote_rpc_def ask_def yes_def is_up_to_date_def last_log_position_def Let_def)

lemma start_eq:
  assumes "rn_running n" "rn_current_term n < u64_max" "rn_log n = []"
  shows "election_start n = (n\<lparr>rn_current_term := Suc (rn_current_term n), rn_role := Candidate,
      rn_voted_for := Some (rn_id n), rn_leader_id := None\<rparr>, Inr (ask (Suc (rn_current_term n)) (rn_id n)))"
  using assms wadd64_Suc [OF assms(2)] by (simp add: election_start_def ask_def last_log_position_def Let_def)

lemma u64_big [simp]: "0 < u64_max" "Suc 0 < u64_max"
  by (simp_all add: u64_max_def)

lemma elected_a_eq:
  "elected_a = (let a = (fresh_node ''a'')\<lparr>rn_current_term := 1, rn_role := Candidate, rn_voted_for := Some ''a'', rn_leader_id := None\<rparr>;
      b = (fresh_node ''b'')\<lparr>rn_current_term := 1, rn_role := Follower, rn_voted_for := Some ''a'', rn_leader_id := None\<rparr>
    in \<lparr>cl_node = fresh_node(''a'' := a, ''b'' := b), cl_requests = {ask 1 ''a''}, cl_responses = {(ask 1 ''a'', yes 1 ''b'')},
        cl_election = [''a'' \<mapsto> (ask 1 ''a'', {''b''})], cl_votes = {(''b'', 1, ''a''), (''a'', 1, ''a'')}, cl_leaders = {}\<rparr>)"
  by (simp add: elected_a_def start_cluster after_start_def after_vote_def after_count_def start_eq
      vote_granted [simplified] Let_def set_node_def)

lemma quorum_update [simp]:
  "quorum_size (n\<lparr>rn_current_term := t\<rparr>) = quorum_size n" "quorum_size (n\<lparr>rn_role := r\<rparr>) = quorum_size n"
  "quorum_size (n\<lparr>rn_voted_for := w\<rparr>) = quorum_size n" "quorum_size (n\<lparr>rn_leader_id := l\<rparr>) = quorum_size n"
  by (simp_all add: quorum_size_def)

lemma elected_a_reachable: "(cluster_step timely ap abc)\<^sup>*\<^sup>* (cluster_start abc ()) elected_a"
proof -
  let ?s1 = "after_start ''a'' (cluster_start abc ())" and ?s2 = "after_vote ''b'' (ask 1 ''a'') (after_start ''a'' (cluster_start abc ()))"
  have "cluster_step timely ap abc (cluster_start abc ()) ?s1"
    by (rule step_start) (simp_all add: start_cluster, simp add: abc_def)
  moreover have "cluster_step timely ap abc ?s1 ?s2"
    by (rule step_vote) (simp_all add: start_cluster after_start_def start_eq, simp add: abc_def)
  moreover have "cluster_step timely ap abc ?s2 elected_a"
    unfolding elected_a_def
    by (rule step_count)
      (simp_all add: start_cluster after_start_def after_vote_def start_eq vote_granted [simplified] set_node_def)
  ultimately show ?thesis by (meson converse_rtranclp_into_rtranclp r_into_rtranclp)
qed

text \<open>
  The code does not re-check its state after the awaits of an election. There is a run of three
  nodes in which a collects a majority in term 1, then grants c its vote for term 2, c becomes leader
  of term 2, and a, continuing, makes itself leader as well, of the term it is in now: two leaders in
  term 2, one of them with no vote in it.
\<close>

lemma stale_candidate_second_leader:
  "\<exists>cl. (cluster_step False (\<lambda>(c::string) s. Inr s) abc)\<^sup>*\<^sup>* (cluster_start abc ()) cl \<and>
     rn_role (cl_node cl ''a'') = Leader \<and> rn_role (cl_node cl ''c'') = Leader \<and>
     rn_current_term (cl_node cl ''a'') = 2 \<and> rn_current_term (cl_node cl ''c'') = 2 \<and>
     (\<forall>v. (v, 2, ''a'') \<notin> cl_votes cl)"
proof -
  let ?step = "cluster_step False (\<lambda>c s. Inr s) abc :: (string, unit) cluster \<Rightarrow> (string, unit) cluster \<Rightarrow> bool"
  define s1 where "s1 = after_vote ''c'' (ask 1 ''a'') elected_a"
  define s2 where "s2 = after_start ''c'' s1"
  define s3 where "s3 = after_vote ''a'' (ask 2 ''c'') s2"
  define s4 where "s4 = after_count ''c'' (ask 2 ''c'') (yes 2 ''a'') s3"
  define s5 where "s5 = after_win ''c'' s4"
  define s6 where "s6 = after_win ''a'' s5"
  let ?a1 = "(fresh_node ''a'')\<lparr>rn_current_term := 1, rn_role := Candidate, rn_voted_for := Some ''a'', rn_leader_id := None\<rparr>"
  let ?b1 = "(fresh_node ''b'')\<lparr>rn_current_term := 1, rn_role := Follower, rn_voted_for := Some ''a'', rn_leader_id := None\<rparr>"
  let ?c1 = "(fresh_node ''c'')\<lparr>rn_current_term := 1, rn_role := Follower, rn_voted_for := Some ''a'', rn_leader_id := None\<rparr>"
  let ?a2 = "(fresh_node ''a'')\<lparr>rn_current_term := 2, rn_role := Follower, rn_voted_for := Some ''c'', rn_leader_id := None\<rparr>"
  let ?c2 = "(fresh_node ''c'')\<lparr>rn_current_term := 2, rn_role := Candidate, rn_voted_for := Some ''c'', rn_leader_id := None\<rparr>"
  have e1: "s1 = \<lparr>cl_node = fresh_node(''a'' := ?a1, ''b'' := ?b1, ''c'' := ?c1), cl_requests = {ask 1 ''a''},
      cl_responses = {(ask 1 ''a'', yes 1 ''c''), (ask 1 ''a'', yes 1 ''b'')}, cl_election = [''a'' \<mapsto> (ask 1 ''a'', {''b''})],
      cl_votes = {(''c'', 1, ''a''), (''b'', 1, ''a''), (''a'', 1, ''a'')}, cl_leaders = {}\<rparr>"
    by (simp add: s1_def elected_a_eq after_vote_def vote_granted [simplified] Let_def set_node_def)
  have e2: "s2 = \<lparr>cl_node = fresh_node(''a'' := ?a1, ''b'' := ?b1, ''c'' := ?c2), cl_requests = {ask 2 ''c'', ask 1 ''a''},
      cl_responses = {(ask 1 ''a'', yes 1 ''c''), (ask 1 ''a'', yes 1 ''b'')},
      cl_election = [''a'' \<mapsto> (ask 1 ''a'', {''b''}), ''c'' \<mapsto> (ask 2 ''c'', {})],
      cl_votes = {(''c'', 2, ''c''), (''c'', 1, ''a''), (''b'', 1, ''a''), (''a'', 1, ''a'')}, cl_leaders = {}\<rparr>"
    by (simp add: s2_def e1 after_start_def start_eq set_node_def numeral_2_eq_2)
  have e3: "s3 = \<lparr>cl_node = fresh_node(''b'' := ?b1, ''c'' := ?c2, ''a'' := ?a2), cl_requests = {ask 2 ''c'', ask 1 ''a''},
      cl_responses = {(ask 2 ''c'', yes 2 ''a''), (ask 1 ''a'', yes 1 ''c''), (ask 1 ''a'', yes 1 ''b'')},
      cl_election = [''a'' \<mapsto> (ask 1 ''a'', {''b''}), ''c'' \<mapsto> (ask 2 ''c'', {})],
      cl_votes = {(''a'', 2, ''c''), (''c'', 2, ''c''), (''c'', 1, ''a''), (''b'', 1, ''a''), (''a'', 1, ''a'')}, cl_leaders = {}\<rparr>"
    by (simp add: s3_def e2 after_vote_def vote_granted set_node_def fun_upd_twist)
  have "?step elected_a s1" unfolding s1_def by (rule step_vote) (simp_all add: elected_a_eq Let_def abc_def)
  moreover have "?step s1 s2" unfolding s2_def by (rule step_start) (simp_all add: e1 abc_def)
  moreover have "?step s2 s3" unfolding s3_def by (rule step_vote) (simp_all add: e2 abc_def)
  moreover have "?step s3 s4" unfolding s4_def by (rule step_count) (simp_all add: e3)
  moreover have "?step s4 s5" unfolding s5_def
    by (rule step_win [where req = "ask 2 ''c''" and vs = "{''a''}"]) (simp_all add: s4_def e3 after_count_def)
  moreover have "?step s5 s6"
    unfolding s6_def
    by (rule step_win [where req = "ask 1 ''a''" and vs = "{''b''}"]) (simp_all add: s5_def s4_def e3 after_count_def after_win_def set_node_def)
  ultimately have "?step\<^sup>*\<^sup>* elected_a s6" by (meson converse_rtranclp_into_rtranclp r_into_rtranclp)
  with elected_a_reachable have "?step\<^sup>*\<^sup>* (cluster_start abc ()) s6" by (rule rtranclp_trans)
  then show ?thesis
    by (intro exI [of _ s6])
      (simp add: s6_def s5_def s4_def e3 after_count_def after_win_def set_node_def become_leader_def Let_def)
qed

subsection \<open>Property\<close>

text \<open>
  C20: Two nodes can lead one term, with the steps the code takes: the first part is a run of three nodes
  that ends so. It needs an election, or a response, that goes on after its node has moved on. In runs
  without such a continuation (a candidate becomes leader only as the candidate of the term it collected
  votes for, a node steps down only to a higher term), no reachable state of a cluster has two leaders in
  one term, none ever has had two, and each node votes once per term.
\<close>

theorem election_safety:
  assumes "distinct ids" "(cluster_step True ap ids)\<^sup>*\<^sup>* (cluster_start ids st) cl"
  shows "(\<exists>cl' i j. (cluster_step False (\<lambda>(c::string) s. Inr s) abc)\<^sup>*\<^sup>* (cluster_start abc ()) cl' \<and> i \<noteq> j \<and>
      rn_role (cl_node cl' i) = Leader \<and> rn_role (cl_node cl' j) = Leader \<and>
      rn_current_term (cl_node cl' i) = rn_current_term (cl_node cl' j)) \<and>
    (\<forall>i j. rn_role (cl_node cl i) = Leader \<and> rn_role (cl_node cl j) = Leader \<and>
      rn_current_term (cl_node cl i) = rn_current_term (cl_node cl j) \<longrightarrow> i = j) \<and>
    (\<forall>t i j. (t, i) \<in> cl_leaders cl \<and> (t, j) \<in> cl_leaders cl \<longrightarrow> i = j) \<and>
    (\<forall>v t c c'. (v, t, c) \<in> cl_votes cl \<and> (v, t, c') \<in> cl_votes cl \<longrightarrow> c = c')"
proof
  obtain cl' where "(cluster_step False (\<lambda>(c::string) s. Inr s) abc)\<^sup>*\<^sup>* (cluster_start abc ()) cl'"
    "rn_role (cl_node cl' ''a'') = Leader" "rn_role (cl_node cl' ''c'') = Leader"
    "rn_current_term (cl_node cl' ''a'') = 2" "rn_current_term (cl_node cl' ''c'') = 2"
    using stale_candidate_second_leader by blast
  then show "\<exists>cl' i j. (cluster_step False (\<lambda>(c::string) s. Inr s) abc)\<^sup>*\<^sup>* (cluster_start abc ()) cl' \<and> i \<noteq> j \<and>
      rn_role (cl_node cl' i) = Leader \<and> rn_role (cl_node cl' j) = Leader \<and>
      rn_current_term (cl_node cl' i) = rn_current_term (cl_node cl' j)"
    by (intro exI [of _ cl'] exI [of _ "''a''"] exI [of _ "''c''"]) simp
qed (rule timely_leaders [OF assms])

theorem election_safety_witness:
  "\<exists>cl. (cluster_step True (\<lambda>(c::string) s. Inr s) abc)\<^sup>*\<^sup>* (cluster_start abc ()) cl \<and>
     rn_role (cl_node cl ''a'') = Leader \<and> rn_current_term (cl_node cl ''a'') = 1 \<and>
     (\<forall>j. rn_role (cl_node cl j) = Leader \<and> rn_current_term (cl_node cl j) = 1 \<longrightarrow> j = ''a'')"
proof -
  let ?cl = "after_win ''a'' elected_a"
  have "cluster_step True (\<lambda>c s. Inr s) abc elected_a ?cl"
    by (rule step_win [where req = "ask 1 ''a''" and vs = "{''b''}"]) (simp_all add: elected_a_eq Let_def)
  with elected_a_reachable have reach: "(cluster_step True (\<lambda>c s. Inr s) abc)\<^sup>*\<^sup>* (cluster_start abc ()) ?cl"
    by (rule rtranclp.rtrancl_into_rtrancl)
  have a: "rn_role (cl_node ?cl ''a'') = Leader" "rn_current_term (cl_node ?cl ''a'') = 1"
    by (simp_all add: after_win_def set_node_def become_leader_def elected_a_eq Let_def)
  have d: "distinct abc" by (simp add: abc_def)
  show ?thesis
    using election_safety [OF d reach] reach a by (intro exI [of _ ?cl]) auto
qed

end
