(* ===== verification/Replica_Store.thy ===== *)
theory Replica_Store
  imports Raft_Node
begin

text \<open>
  The storage behind replication, crates/replication/src/lib.rs: commands, \<open>MemoryStorage\<close> and its
  snapshots, the standalone replicator, and the in-memory transport to a table of replicas. JSON values
  and access metadata are type parameters, the JSON encoder and decoder of snapshots are arguments. The
  trait \<open>ReplicationStorage\<close> is the locale \<open>replication_storage\<close>, interpreted on \<open>MemoryStorage\<close>.
\<close>

datatype ('v, 'm) command =
    Noop
  | PutKey bytes bytes
  | DeleteKey bytes
  | CypherMutation string string 'v
  | PutAccessMetadata string 'm

record 'v memory_storage =
  mem_kv :: "(bytes, bytes) btree"
  mem_cypher :: "(string \<times> string \<times> 'v) list"

definition memory_new :: "'v memory_storage" where
  "memory_new = \<lparr>mem_kv = [], mem_cypher = []\<rparr>"

fun memory_apply :: "('v, 'm) command \<Rightarrow> 'v memory_storage \<Rightarrow> replication_error + 'v memory_storage" where
  "memory_apply Noop s = Inr s"
| "memory_apply (PutKey key v) s = Inr (s\<lparr>mem_kv := bt_insert key v (mem_kv s)\<rparr>)"
| "memory_apply (DeleteKey key) s = Inr (s\<lparr>mem_kv := bt_remove key (mem_kv s)\<rparr>)"
| "memory_apply (CypherMutation database query params) s = Inr (s\<lparr>mem_cypher := mem_cypher s @ [(database, query, params)]\<rparr>)"
| "memory_apply (PutAccessMetadata entity_id metadata) s = Inr s"

definition memory_get :: "bytes \<Rightarrow> 'v memory_storage \<Rightarrow> bytes option" where
  "memory_get key s = bt_get (mem_kv s) key"

definition memory_read_key :: "bytes \<Rightarrow> 'v memory_storage \<Rightarrow> replication_error + bytes option" where
  "memory_read_key key s = Inr (memory_get key s)"

subsection \<open>Snapshots\<close>

type_synonym 'v snapshot_wire = "(bytes \<times> bytes) list \<times> (string \<times> string \<times> 'v) list"

definition memory_write_snapshot ::
    "('v snapshot_wire \<Rightarrow> string + bytes) \<Rightarrow> 'v memory_storage \<Rightarrow> replication_error + bytes" where
  "memory_write_snapshot to_vec s = map_sum StorageFault id (to_vec (mem_kv s, mem_cypher s))"

definition memory_restore_snapshot ::
    "(bytes \<Rightarrow> string + 'v snapshot_wire) \<Rightarrow> bytes \<Rightarrow> replication_error + 'v memory_storage" where
  "memory_restore_snapshot from_slice sn =
     (case from_slice sn of
        Inl e \<Rightarrow> Inl (StorageFault e)
      | Inr (kv, cypher) \<Rightarrow> Inr \<lparr>mem_kv = bt_extend [] kv, mem_cypher = cypher\<rparr>)"

definition memory_ok :: "'v memory_storage \<Rightarrow> bool" where
  "memory_ok s \<longleftrightarrow> bt_wf (mem_kv s)"

lemma memory_ok_new: "memory_ok memory_new"
  by (simp add: memory_ok_def memory_new_def)

lemma memory_ok_apply: "memory_ok s \<Longrightarrow> memory_apply c s = Inr s' \<Longrightarrow> memory_ok s'"
  by (cases c) (auto simp: memory_ok_def intro: wf_intros)

lemma memory_snapshot_roundtrip:
  assumes "memory_ok s" "to_vec (mem_kv s, mem_cypher s) = Inr b" "from_slice b = Inr (mem_kv s, mem_cypher s)"
  shows "memory_write_snapshot to_vec s = Inr b" "memory_restore_snapshot from_slice b = Inr s"
  using assms by (simp_all add: memory_write_snapshot_def memory_restore_snapshot_def memory_ok_def bt_get_extend_empty)

text \<open>A node that installs the snapshot another one created has its storage and its applied index.\<close>

lemma snapshot_transfer:
  assumes "memory_ok (rn_storage n)" "rn_last_applied n \<le> length (rn_log n)"
    "to_vec (mem_kv (rn_storage n), mem_cypher (rn_storage n)) = Inr b"
    "from_slice b = Inr (mem_kv (rn_storage n), mem_cypher (rn_storage n))"
  shows "\<exists>sn m'. create_snapshot (memory_write_snapshot to_vec) n = Inr sn \<and>
    install_snapshot (memory_restore_snapshot from_slice) sn m = (m', Inr ()) \<and>
    rn_storage m' = rn_storage n \<and> rn_last_applied m' = rn_last_applied n \<and> rn_commit_index m' = rn_last_applied n"
  using assms memory_snapshot_roundtrip [of "rn_storage n" to_vec b from_slice]
  by (auto simp: create_snapshot_def install_snapshot_def Let_def)

text \<open>
  But the log is not transferred with it, so a node that has just installed a snapshot cannot create
  one: it indexes an empty log.
\<close>

lemma snapshot_after_install_panics:
  assumes "install_snapshot restore sn (raft_new i ps s) = (m, Inr ())" "0 < sn_last_included_index sn"
  shows "create_snapshot write m = Inl Panic"
  using assms by (auto simp: install_snapshot_def create_snapshot_def raft_new_def Let_def split: sum.splits)

subsection \<open>The storage trait\<close>

locale replication_storage =
  fixes apply_put :: "bytes \<Rightarrow> bytes \<Rightarrow> 's \<Rightarrow> replication_error + 's"
    and apply_delete :: "bytes \<Rightarrow> 's \<Rightarrow> replication_error + 's"
    and read :: "bytes \<Rightarrow> 's \<Rightarrow> replication_error + bytes option"
  assumes put_read: "apply_put k v s = Inr s' \<Longrightarrow> read j s' = (if j = k then Inr (Some v) else read j s)"
    and delete_read: "apply_delete k s = Inr s' \<Longrightarrow> read j s' = (if j = k then Inr None else read j s)"
begin

lemma last_put_wins:
  "apply_put k v s = Inr s1 \<Longrightarrow> apply_put k w s1 = Inr s2 \<Longrightarrow> read k s2 = Inr (Some w)"
  using put_read [of k w s1 s2 k] by simp

lemma put_then_delete:
  "apply_put k v s = Inr s1 \<Longrightarrow> apply_delete k s1 = Inr s2 \<Longrightarrow> read k s2 = Inr None"
  using delete_read [of k s1 s2 k] by simp

end

interpretation memory: replication_storage
  "\<lambda>k v. memory_apply (PutKey k v)" "\<lambda>k. memory_apply (DeleteKey k)" memory_read_key
  by unfold_locales (auto simp: memory_read_key_def memory_get_def)

subsection \<open>The standalone replicator\<close>

record 's standalone =
  sr_running :: bool
  sr_applied :: nat
  sr_storage :: 's

definition standalone_new :: "'s \<Rightarrow> 's standalone" where
  "standalone_new storage = \<lparr>sr_running = False, sr_applied = 0, sr_storage = storage\<rparr>"

definition standalone_start :: "'s standalone \<Rightarrow> 's standalone" where
  "standalone_start r = r\<lparr>sr_running := True\<rparr>"

definition standalone_shutdown :: "'s standalone \<Rightarrow> 's standalone" where
  "standalone_shutdown r = r\<lparr>sr_running := False\<rparr>"

text \<open>What is applied before a failing command stays applied, and is not counted.\<close>

fun standalone_loop :: "('c \<Rightarrow> 's \<Rightarrow> replication_error + 's) \<Rightarrow> 'c list \<Rightarrow> 's \<Rightarrow> 's \<times> (replication_error + unit)" where
  "standalone_loop apply_command [] s = (s, Inr ())"
| "standalone_loop apply_command (c # cs) s =
     (case apply_command c s of Inl e \<Rightarrow> (s, Inl e) | Inr s \<Rightarrow> standalone_loop apply_command cs s)"

definition standalone_apply_batch ::
    "('c \<Rightarrow> 's \<Rightarrow> replication_error + 's) \<Rightarrow> 'c list \<Rightarrow> 's standalone \<Rightarrow> 's standalone \<times> (replication_error + unit)" where
  "standalone_apply_batch apply_command commands r =
     (if \<not> sr_running r then (r, Inl Shutdown)
      else (case standalone_loop apply_command commands (sr_storage r) of
              (s, Inl e) \<Rightarrow> (r\<lparr>sr_storage := s\<rparr>, Inl e)
            | (s, Inr _) \<Rightarrow> (r\<lparr>sr_storage := s, sr_applied := sr_applied r + length commands\<rparr>, Inr ())))"

lemma standalone_loop_eq:
  "standalone_loop ap cs s = (s', Inr ()) \<longleftrightarrow> fold_result ap cs s = Inr s'"
  by (induction cs arbitrary: s) (auto split: sum.splits)

subsection \<open>The in-memory transport\<close>

type_synonym 's replicas = "string \<Rightarrow> 's option"

definition unknown_replica :: "string \<Rightarrow> replication_error" where
  "unknown_replica target = Transport (''unknown replica '' @ target)"

definition apply_replica ::
    "('c \<Rightarrow> 's \<Rightarrow> replication_error + 's) \<Rightarrow> string \<Rightarrow> 'c \<Rightarrow> 's replicas \<Rightarrow> 's replicas \<times> (replication_error + unit)" where
  "apply_replica apply_command target command replicas =
     (case replicas target of
        None \<Rightarrow> (replicas, Inl (unknown_replica target))
      | Some s \<Rightarrow> (case apply_command command s of
                   Inl e \<Rightarrow> (replicas, Inl e) | Inr s \<Rightarrow> (replicas(target \<mapsto> s), Inr ())))"

definition read_replica ::
    "(bytes \<Rightarrow> 's \<Rightarrow> replication_error + bytes option) \<Rightarrow> string \<Rightarrow> bytes \<Rightarrow> 's replicas \<Rightarrow> replication_error + bytes option" where
  "read_replica read_key target key replicas =
     (case replicas target of None \<Rightarrow> Inl (unknown_replica target) | Some s \<Rightarrow> read_key key s)"

end
