(* ===== verification/Topology_Registry.thy ===== *)
theory Topology_Registry
  imports Topology
begin

text \<open>
  \<open>TopologyRegistry\<close> of crates/topology/src/lib.rs: registration with its checks, and the planners of
  searches, writes and reads, with what a plan guarantees about the peers it names.
\<close>

subsection \<open>The registry\<close>

record topology_registry =
  reg_peers :: "(string, mesh_peer) btree"
  reg_placements :: "(placement_key, placement_record) btree"
  reg_profiles :: "(string, hyperscaler_profile) btree"

definition registry_new :: topology_registry where
  "registry_new = \<lparr>reg_peers = [], reg_placements = [], reg_profiles = []\<rparr>"

definition register_hyperscaler_profile ::
    "hyperscaler_profile \<Rightarrow> topology_registry \<Rightarrow> topology_error + topology_registry" where
  "register_hyperscaler_profile profile reg =
     (if trim (hp_profile_id profile) = [] then Inl (InvalidTopology ''hyperscaler profile id must not be empty'')
      else Inr (reg\<lparr>reg_profiles := bt_insert (hp_profile_id profile) profile (reg_profiles reg)\<rparr>))"

definition register_peer :: "mesh_peer \<Rightarrow> topology_registry \<Rightarrow> topology_error + topology_registry" where
  "register_peer peer reg =
     (if trim (mp_node_id peer) = [] then Inl (InvalidTopology ''peer node id must not be empty'')
      else (case mp_hyperscaler_profile peer of
        Some profile \<Rightarrow>
          if bt_get (reg_profiles reg) profile = None
          then Inl (MissingPeer (''hyperscaler profile '' @ profile))
          else Inr (reg\<lparr>reg_peers := bt_insert (mp_node_id peer) peer (reg_peers reg)\<rparr>)
      | None \<Rightarrow> Inr (reg\<lparr>reg_peers := bt_insert (mp_node_id peer) peer (reg_peers reg)\<rparr>)))"

fun check_participants :: "topology_registry \<Rightarrow> string list \<Rightarrow> topology_error + unit" where
  "check_participants reg [] = Inr ()"
| "check_participants reg (peer_id # rest) =
     (if bt_get (reg_peers reg) peer_id = None then Inl (MissingPeer peer_id)
      else check_participants reg rest)"

definition register_placement ::
    "placement_record \<Rightarrow> topology_registry \<Rightarrow> topology_error + topology_registry" where
  "register_placement placement reg =
     result_bind (check_participants reg (participant_ids placement)) (\<lambda>_.
       if (case pr_hyperscaler_profile placement of
             Some profile \<Rightarrow> bt_get (reg_profiles reg) profile = None | None \<Rightarrow> False)
       then Inl (InvalidTopology (''placement references unknown hyperscaler profile '' @
              the (pr_hyperscaler_profile placement)))
       else Inr (reg\<lparr>reg_placements := bt_insert (pr_key placement) placement (reg_placements reg)\<rparr>))"

definition reg_peer :: "topology_registry \<Rightarrow> string \<Rightarrow> mesh_peer option" where
  "reg_peer reg node_id = bt_get (reg_peers reg) node_id"

definition reg_placement :: "topology_registry \<Rightarrow> placement_key \<Rightarrow> placement_record option" where
  "reg_placement reg key = bt_get (reg_placements reg) key"

definition healthy_peers_with :: "node_capability \<Rightarrow> topology_registry \<Rightarrow> mesh_peer list" where
  "healthy_peers_with capability reg =
     filter (\<lambda>peer. can_serve peer capability) (map snd (reg_peers reg))"

lemma check_participants_Inr:
  "check_participants reg ids = Inr u \<longleftrightarrow> (\<forall>i\<in>set ids. bt_get (reg_peers reg) i \<noteq> None)"
  by (induction ids) auto

subsection \<open>Consistency levels\<close>

datatype distributed_write_mode = Standalone | LeaderLease | Quorum | RaftLog | DynamoQuorum

datatype consistency_level = One | QuorumLevel | All | LocalQuorum

primrec required :: "consistency_level \<Rightarrow> nat \<Rightarrow> nat \<Rightarrow> nat" where
  "required One total_replicas local_replicas = max 1 1"
| "required QuorumLevel total_replicas local_replicas = max (total_replicas div 2 + 1) 1"
| "required All total_replicas local_replicas = max total_replicas 1"
| "required LocalQuorum total_replicas local_replicas = max (max local_replicas 1 div 2 + 1) 1"

lemma required_pos: "0 < required c n l"
  by (cases c) simp_all

subsection \<open>Planning a search\<close>

record distributed_search_plan =
  dsp_placement :: placement_key
  dsp_fanout :: "mesh_peer list"
  dsp_policy :: search_routing_policy
  dsp_parallelism :: nat
  dsp_hedge_after_micros :: nat

definition search_health_ok :: "search_routing_policy \<Rightarrow> mesh_peer \<Rightarrow> bool" where
  "search_health_ok policy peer =
     (if sp_include_degraded policy then can_serve_reads (mp_health peer) else mp_health peer = Healthy)"

fun search_candidates ::
    "topology_registry \<Rightarrow> search_routing_policy \<Rightarrow> string list \<Rightarrow>
     topology_error + (nat \<times> string \<times> mesh_peer) list" where
  "search_candidates reg policy [] = Inr []"
| "search_candidates reg policy (node_id # rest) =
     (case bt_get (reg_peers reg) node_id of
        None \<Rightarrow> Inl (MissingPeer node_id)
      | Some peer \<Rightarrow>
          result_bind (search_candidates reg policy rest) (\<lambda>candidates.
            if Search \<in> mp_capabilities peer \<and> search_health_ok policy peer
            then Inr ((search_cost policy peer, mp_node_id peer, peer) # candidates)
            else Inr candidates))"

definition candidate_order :: "nat \<times> string \<times> mesh_peer \<Rightarrow> nat \<times> string" where
  "candidate_order c = (fst c, fst (snd c))"

definition plan_search_with_policy ::
    "placement_key \<Rightarrow> search_routing_policy \<Rightarrow> topology_registry \<Rightarrow>
     topology_error + distributed_search_plan" where
  "plan_search_with_policy key policy reg =
     (case bt_get (reg_placements reg) key of
        None \<Rightarrow> Inl (MissingPlacement (placement_stable_id key))
      | Some placement \<Rightarrow>
          (let target_fanout = min (max (pr_search_fanout placement) 1) (max (sp_max_fanout policy) 1)
           in result_bind (search_candidates reg policy (pr_search_nodes placement)) (\<lambda>candidates.
                let fanout = map (\<lambda>c. snd (snd c)) (take target_fanout (sort_key candidate_order candidates))
                in if fanout = [] then Inl (NoHealthyPeer Search)
                   else Inr \<lparr>dsp_placement = key, dsp_fanout = fanout, dsp_policy = policy,
                             dsp_parallelism = length fanout,
                             dsp_hedge_after_micros = sp_hedge_after_micros policy\<rparr>)))"

definition plan_search :: "placement_key \<Rightarrow> topology_registry \<Rightarrow> topology_error + distributed_search_plan" where
  "plan_search key reg =
     (case bt_get (reg_placements reg) key of
        None \<Rightarrow> Inl (MissingPlacement (placement_stable_id key))
      | Some placement \<Rightarrow> plan_search_with_policy key (policy_global (pr_search_fanout placement)) reg)"

subsection \<open>Planning a write\<close>

record distributed_write_plan =
  dwp_placement :: placement_key
  dwp_mode :: distributed_write_mode
  dwp_consistency :: consistency_level
  dwp_coordinator :: mesh_peer
  dwp_leader :: mesh_peer
  dwp_replicas :: "mesh_peer list"
  dwp_required_acks :: nat

definition locality :: "string option \<Rightarrow> mesh_peer \<Rightarrow> nat" where
  "locality request_region peer =
     (case request_region of Some region \<Rightarrow> if mp_region peer = region then 0 else 1 | None \<Rightarrow> 0)"

definition peer_order :: "string option \<Rightarrow> mesh_peer \<Rightarrow> nat \<times> nat \<times> string" where
  "peer_order request_region peer =
     (locality request_region peer, mp_observed_rtt_micros peer, mp_node_id peer)"

text \<open>\<open>filter_map(|id| self.peers.get(&id))\<close>: unknown ids are skipped.\<close>

definition known_peers :: "topology_registry \<Rightarrow> string list \<Rightarrow> mesh_peer list" where
  "known_peers reg ids = List.map_filter (bt_get (reg_peers reg)) ids"

definition choose_coordinator ::
    "placement_record \<Rightarrow> string option \<Rightarrow> topology_registry \<Rightarrow> topology_error + mesh_peer" where
  "choose_coordinator placement request_region reg =
     (let candidates = filter (\<lambda>peer. can_serve peer Coordinator) (known_peers reg (participant_ids placement));
          candidates = (if candidates = []
            then filter (\<lambda>peer. can_accept_writes (mp_health peer)) (known_peers reg (participant_ids placement))
            else candidates)
      in case sort_key (peer_order request_region) candidates of
           peer # _ \<Rightarrow> Inr peer | [] \<Rightarrow> Inl (NoHealthyPeer Coordinator))"

definition stores_data :: "mesh_peer \<Rightarrow> bool" where
  "stores_data peer \<longleftrightarrow> WriteReplica \<in> mp_capabilities peer \<or> Storage \<in> mp_capabilities peer \<or>
     WriteLeader \<in> mp_capabilities peer"

definition leader_mode :: "distributed_write_mode \<Rightarrow> bool" where
  "leader_mode mode \<longleftrightarrow> mode \<in> {LeaderLease, Quorum, RaftLog}"

definition local_count :: "string option \<Rightarrow> mesh_peer list \<Rightarrow> nat" where
  "local_count request_region replicas =
     length (filter (\<lambda>peer. case request_region of Some region \<Rightarrow> mp_region peer = region | None \<Rightarrow> True) replicas)"

definition write_replicas :: "distributed_write_mode \<Rightarrow> placement_record \<Rightarrow> topology_registry \<Rightarrow> mesh_peer list" where
  "write_replicas mode placement reg =
     (let replica_ids = (if leader_mode mode then bset_of (pr_replica_nodes placement) else participant_ids placement)
      in filter (\<lambda>peer. stores_data peer \<and> can_accept_writes (mp_health peer)) (known_peers reg replica_ids))"

definition write_required_acks ::
    "distributed_write_mode \<Rightarrow> consistency_level \<Rightarrow> placement_record \<Rightarrow> nat \<Rightarrow> nat \<Rightarrow> nat" where
  "write_required_acks mode consistency placement replicas local_replicas =
     (case mode of
        Standalone \<Rightarrow> 1
      | LeaderLease \<Rightarrow> wadd64 1 (pr_min_write_replicas placement)
      | Quorum \<Rightarrow> required consistency (1 + replicas) (local_replicas + 1)
      | RaftLog \<Rightarrow> required consistency (1 + replicas) (local_replicas + 1)
      | DynamoQuorum \<Rightarrow> required consistency replicas local_replicas)"

definition plan_write_with_consistency ::
    "placement_key \<Rightarrow> distributed_write_mode \<Rightarrow> consistency_level \<Rightarrow> string option \<Rightarrow> topology_registry \<Rightarrow>
     topology_error + distributed_write_plan" where
  "plan_write_with_consistency key mode consistency request_region reg =
     (case bt_get (reg_placements reg) key of
        None \<Rightarrow> Inl (MissingPlacement (placement_stable_id key))
      | Some placement \<Rightarrow>
     (case bt_get (reg_peers reg) (pr_primary_node placement) of
        None \<Rightarrow> Inl (MissingPeer (pr_primary_node placement))
      | Some leader \<Rightarrow>
          if mode \<noteq> DynamoQuorum \<and> \<not> can_serve leader WriteLeader then Inl (NoHealthyPeer WriteLeader)
          else result_bind
            (if mode = DynamoQuorum then choose_coordinator placement request_region reg else Inr leader)
            (\<lambda>coordinator.
              let replicas = write_replicas mode placement reg;
                  required_acks = write_required_acks mode consistency placement (length replicas)
                    (local_count request_region replicas);
                  available_acks = (if leader_mode mode then 1 + length replicas else length replicas)
              in if available_acks < required_acks
                 then Inl (InvalidTopology (''write plan requires '' @ dec_string required_acks @
                        '' acknowledgements but only '' @ dec_string available_acks @
                        '' healthy participants are available''))
                 else Inr \<lparr>dwp_placement = key, dwp_mode = mode, dwp_consistency = consistency,
                           dwp_coordinator = coordinator,
                           dwp_leader = (if leader_mode mode then leader else coordinator),
                           dwp_replicas = replicas, dwp_required_acks = required_acks\<rparr>)))"

definition plan_write ::
    "placement_key \<Rightarrow> distributed_write_mode \<Rightarrow> topology_registry \<Rightarrow> topology_error + distributed_write_plan" where
  "plan_write key mode reg =
     plan_write_with_consistency key mode
       (if mode = Standalone \<or> mode = LeaderLease then One else QuorumLevel) None reg"

subsection \<open>Planning a read\<close>

record distributed_read_plan =
  drp_placement :: placement_key
  drp_consistency :: consistency_level
  drp_coordinator :: mesh_peer
  drp_replicas :: "mesh_peer list"
  drp_required_responses :: nat

fun read_replicas :: "topology_registry \<Rightarrow> string list \<Rightarrow> topology_error + mesh_peer list" where
  "read_replicas reg [] = Inr []"
| "read_replicas reg (node_id # rest) =
     (case bt_get (reg_peers reg) node_id of
        None \<Rightarrow> Inl (MissingPeer node_id)
      | Some peer \<Rightarrow> result_bind (read_replicas reg rest) (\<lambda>replicas.
          Inr (if stores_data peer \<and> can_serve_reads (mp_health peer) then peer # replicas else replicas)))"

definition plan_read ::
    "placement_key \<Rightarrow> consistency_level \<Rightarrow> string option \<Rightarrow> topology_registry \<Rightarrow>
     topology_error + distributed_read_plan" where
  "plan_read key consistency request_region reg =
     (case bt_get (reg_placements reg) key of
        None \<Rightarrow> Inl (MissingPlacement (placement_stable_id key))
      | Some placement \<Rightarrow>
          result_bind (choose_coordinator placement request_region reg) (\<lambda>coordinator.
          result_bind (read_replicas reg (participant_ids placement)) (\<lambda>replicas.
            let replicas = sort_key (peer_order request_region) replicas;
                required_responses = required consistency (length replicas) (local_count request_region replicas)
            in if length replicas < required_responses
               then Inl (InvalidTopology (''read plan requires '' @ dec_string required_responses @
                      '' responses but only '' @ dec_string (length replicas) @
                      '' healthy replicas are available''))
               else Inr \<lparr>drp_placement = key, drp_consistency = consistency, drp_coordinator = coordinator,
                         drp_replicas = replicas, drp_required_responses = required_responses\<rparr>)))"

end
