(* ===== verification/Topology_Plans.thy ===== *)
theory Topology_Plans
  imports Topology_Registry
begin

text \<open>
  What the registry keeps invariant and what its plans guarantee: the search fan-out is the cheapest
  part of the eligible peers, a write plan names peers that can take the write and asks for no more
  acknowledgements than there are, and quorums of one registry state intersect when they are taken
  over the same peers, which is not always so.
\<close>

subsection \<open>The registry's invariant\<close>

definition reg_ok :: "topology_registry \<Rightarrow> bool" where
  "reg_ok reg \<longleftrightarrow> bt_wf (reg_peers reg) \<and> bt_wf (reg_placements reg) \<and> bt_wf (reg_profiles reg) \<and>
     (\<forall>i p. bt_get (reg_peers reg) i = Some p \<longrightarrow> mp_node_id p = i \<and> trim i \<noteq> [] \<and>
        (\<forall>profile. mp_hyperscaler_profile p = Some profile \<longrightarrow> bt_get (reg_profiles reg) profile \<noteq> None)) \<and>
     (\<forall>k pl. bt_get (reg_placements reg) k = Some pl \<longrightarrow> pr_key pl = k \<and>
        (\<forall>i\<in>set (participant_ids pl). bt_get (reg_peers reg) i \<noteq> None) \<and>
        (\<forall>profile. pr_hyperscaler_profile pl = Some profile \<longrightarrow> bt_get (reg_profiles reg) profile \<noteq> None))"

inductive reg_step :: "topology_registry \<Rightarrow> topology_registry \<Rightarrow> bool" where
  profile: "register_hyperscaler_profile p reg = Inr reg' \<Longrightarrow> reg_step reg reg'"
| peer: "register_peer q reg = Inr reg' \<Longrightarrow> reg_step reg reg'"
| placement: "register_placement pl reg = Inr reg' \<Longrightarrow> reg_step reg reg'"

lemma reg_ok_profile: "reg_ok reg \<Longrightarrow> register_hyperscaler_profile p reg = Inr reg' \<Longrightarrow> reg_ok reg'"
  by (auto simp: reg_ok_def register_hyperscaler_profile_def bt_wf_insert split: if_splits)

lemma reg_ok_peer: "reg_ok reg \<Longrightarrow> register_peer q reg = Inr reg' \<Longrightarrow> reg_ok reg'"
  unfolding reg_ok_def register_peer_def
  by (auto simp: bt_wf_insert split: if_splits option.splits)

lemma reg_ok_placement: "reg_ok reg \<Longrightarrow> register_placement pl reg = Inr reg' \<Longrightarrow> reg_ok reg'"
  unfolding reg_ok_def register_placement_def
  by (auto simp: bt_wf_insert result_bind_Inr_iff check_participants_Inr split: if_splits option.splits)

interpretation registry: inductive_invariant "(=) registry_new" reg_step reg_ok
proof
  show "registry_new = s \<Longrightarrow> reg_ok s" for s
    by (auto simp: reg_ok_def registry_new_def)
  show "reg_ok s \<Longrightarrow> reg_step s s' \<Longrightarrow> reg_ok s'" for s s'
    by (auto elim!: reg_step.cases intro: reg_ok_profile reg_ok_peer reg_ok_placement)
qed

lemma reg_ok_reachable: "reg_step\<^sup>*\<^sup>* registry_new reg \<Longrightarrow> reg_ok reg"
  using registry.inv_reachable by blast

lemma reg_ok_node_id: "reg_ok reg \<Longrightarrow> bt_get (reg_peers reg) i = Some p \<Longrightarrow> mp_node_id p = i"
  by (simp add: reg_ok_def)

lemma reg_ok_participant:
  "reg_ok reg \<Longrightarrow> bt_get (reg_placements reg) k = Some pl \<Longrightarrow> i \<in> set (participant_ids pl) \<Longrightarrow>
     \<exists>p. bt_get (reg_peers reg) i = Some p"
  by (auto simp: reg_ok_def)

subsection \<open>Known peers\<close>

lemma known_peers_simps [simp]:
  "known_peers reg [] = []"
  "known_peers reg (i # ids) =
     (case bt_get (reg_peers reg) i of Some p \<Rightarrow> p # known_peers reg ids | None \<Rightarrow> known_peers reg ids)"
  by (simp_all add: known_peers_def List.map_filter_simps split: option.split)

lemma set_known_peers: "set (known_peers reg ids) = {p. \<exists>i\<in>set ids. bt_get (reg_peers reg) i = Some p}"
  by (induction ids) (auto split: option.split)

lemma distinct_known_peers:
  assumes "reg_ok reg" "distinct ids"
  shows "distinct (known_peers reg ids)"
  using assms(2)
proof (induction ids)
  case (Cons i ids)
  have "p \<notin> set (known_peers reg ids)" if p: "bt_get (reg_peers reg) i = Some p" for p
  proof
    assume "p \<in> set (known_peers reg ids)"
    then obtain j where "j \<in> set ids" "bt_get (reg_peers reg) j = Some p" by (auto simp: set_known_peers)
    with reg_ok_node_id [OF assms(1)] p Cons.prems show False by auto
  qed
  with Cons show ?case by (auto split: option.split)
qed simp

lemma read_replicas_eq:
  assumes "\<forall>i\<in>set ids. bt_get (reg_peers reg) i \<noteq> None"
  shows "read_replicas reg ids =
    Inr (filter (\<lambda>p. stores_data p \<and> can_serve_reads (mp_health p)) (known_peers reg ids))"
  using assms by (induction ids) auto

lemma search_candidates_eq:
  assumes "\<forall>i\<in>set ids. bt_get (reg_peers reg) i \<noteq> None"
  shows "search_candidates reg pol ids =
    Inr (map (\<lambda>p. (search_cost pol p, mp_node_id p, p))
      (filter (\<lambda>p. Search \<in> mp_capabilities p \<and> search_health_ok pol p) (known_peers reg ids)))"
  using assms by (induction ids) auto

subsection \<open>The cheapest elements of a list\<close>

lemma sort_key_map: "sort_key f (map g xs) = map g (sort_key (\<lambda>x. f (g x)) xs)"
proof -
  have ins: "insort_key f (g x) (map g ys) = map g (insort_key (\<lambda>x. f (g x)) x ys)" for x ys
    by (induction ys) auto
  show ?thesis by (induction xs) (simp_all add: ins)
qed

lemma sort_key_Nil_iff [simp]: "sort_key f xs = [] \<longleftrightarrow> xs = []"
  by (metis length_0_conv length_sort)

lemma fanout_limit_pos [simp]: "min (max a (Suc 0)) (max b (Suc 0)) \<noteq> 0"
  by (simp add: min_def max_def)

lemma take_sort_key_cheapest:
  assumes "x \<in> set (take n (sort_key f xs))" "y \<in> set xs" "y \<notin> set (take n (sort_key f xs))"
  shows "f x \<le> f y"
proof -
  have "y \<in> set (drop n (sort_key f xs))"
    using assms(2,3) append_take_drop_id [of n "sort_key f xs"] by (metis Un_iff set_append set_sort)
  moreover have "sorted (map f (take n (sort_key f xs)) @ map f (drop n (sort_key f xs)))"
    by (simp flip: map_append)
  ultimately show ?thesis using assms(1) by (auto simp: sorted_append)
qed

lemma hd_sort_key_least:
  assumes "sort_key f xs = p # ps" "q \<in> set xs"
  shows "p \<in> set xs \<and> f p \<le> f q"
proof -
  have "sorted (map f (p # ps))" "set (p # ps) = set xs"
    using assms(1) by (metis sorted_sort_key, metis set_sort)
  with assms(2) show ?thesis by auto
qed

definition search_eligible :: "topology_registry \<Rightarrow> search_routing_policy \<Rightarrow> placement_record \<Rightarrow> mesh_peer list" where
  "search_eligible reg policy pl =
     filter (\<lambda>p. Search \<in> mp_capabilities p \<and> search_health_ok policy p) (known_peers reg (pr_search_nodes pl))"

definition search_rank :: "search_routing_policy \<Rightarrow> mesh_peer \<Rightarrow> nat \<times> string" where
  "search_rank policy p = (search_cost policy p, mp_node_id p)"

lemma plan_search_eq:
  assumes "reg_ok reg" "bt_get (reg_placements reg) key = Some pl"
  shows "plan_search_with_policy key policy reg =
    (let n = min (max (pr_search_fanout pl) 1) (max (sp_max_fanout policy) 1);
         fanout = take n (sort_key (search_rank policy) (search_eligible reg policy pl))
     in if search_eligible reg policy pl = [] then Inl (NoHealthyPeer Search)
        else Inr \<lparr>dsp_placement = key, dsp_fanout = fanout, dsp_policy = policy,
                  dsp_parallelism = length fanout, dsp_hedge_after_micros = sp_hedge_after_micros policy\<rparr>)"
proof -
  have known: "\<forall>i\<in>set (pr_search_nodes pl). bt_get (reg_peers reg) i \<noteq> None"
    using reg_ok_participant [OF assms] by (auto simp: set_participant_ids)
  have "sort_key candidate_order (map (\<lambda>p. (search_cost policy p, mp_node_id p, p)) ps) =
      map (\<lambda>p. (search_cost policy p, mp_node_id p, p)) (sort_key (search_rank policy) ps)" for ps
    unfolding sort_key_map by (simp add: candidate_order_def search_rank_def [abs_def])
  with assms(2) show ?thesis
    by (auto simp: plan_search_with_policy_def search_candidates_eq [OF known] search_eligible_def
        Let_def take_map comp_def)
qed

text \<open>
  C12: In every registry built by registrations, planning a search of a registered placement fails
  only when none of its search nodes is eligible (has the capability and a health the policy
  admits), and then with that error; otherwise the fan-out holds eligible peers only, as many as the
  placement and the policy allow, in ascending cost, and no eligible peer left out is cheaper than
  one in it. It never fails for a peer that is not registered.
\<close>

theorem plan_search_cheapest:
  assumes "reg_step\<^sup>*\<^sup>* registry_new reg" "bt_get (reg_placements reg) key = Some pl"
  shows "case plan_search_with_policy key policy reg of
      Inl e \<Rightarrow> e = NoHealthyPeer Search \<and> search_eligible reg policy pl = []
    | Inr plan \<Rightarrow>
        set (dsp_fanout plan) \<subseteq> set (search_eligible reg policy pl) \<and> dsp_fanout plan \<noteq> [] \<and>
        length (dsp_fanout plan) =
          min (length (search_eligible reg policy pl)) (min (max (pr_search_fanout pl) 1) (max (sp_max_fanout policy) 1)) \<and>
        dsp_parallelism plan = length (dsp_fanout plan) \<and>
        sorted (map (search_rank policy) (dsp_fanout plan)) \<and>
        (\<forall>p\<in>set (dsp_fanout plan). \<forall>q\<in>set (search_eligible reg policy pl) - set (dsp_fanout plan).
           search_rank policy p \<le> search_rank policy q) \<and>
        (distinct (pr_search_nodes pl) \<longrightarrow> distinct (dsp_fanout plan))"
proof -
  have ok: "reg_ok reg" by (rule reg_ok_reachable [OF assms(1)])
  let ?el = "search_eligible reg policy pl"
  let ?n = "min (max (pr_search_fanout pl) 1) (max (sp_max_fanout policy) 1)"
  let ?f = "take ?n (sort_key (search_rank policy) ?el)"
  show ?thesis
  proof (cases "?el = []")
    case True
    then show ?thesis by (simp add: plan_search_eq [OF ok assms(2)] Let_def)
  next
    case False
    have "set ?f \<subseteq> set ?el" using set_take_subset [of ?n "sort_key (search_rank policy) ?el"] by simp
    moreover have "?f \<noteq> []" using False by simp
    moreover have "sorted (map (search_rank policy) ?f)"
      using sorted_wrt_take [OF sorted_sort_key [of "search_rank policy" ?el], of ?n] by (simp add: take_map)
    moreover have "\<forall>p\<in>set ?f. \<forall>q\<in>set ?el - set ?f. search_rank policy p \<le> search_rank policy q"
      using take_sort_key_cheapest [of _ ?n "search_rank policy" ?el] by simp
    moreover have "distinct (pr_search_nodes pl) \<longrightarrow> distinct ?f"
      by (simp add: search_eligible_def distinct_known_peers [OF ok])
    moreover have "plan_search_with_policy key policy reg = Inr \<lparr>dsp_placement = key, dsp_fanout = ?f,
        dsp_policy = policy, dsp_parallelism = length ?f, dsp_hedge_after_micros = sp_hedge_after_micros policy\<rparr>"
      using False plan_search_eq [OF ok assms(2)] by (simp add: Let_def)
    ultimately show ?thesis by simp
  qed
qed

text \<open>
  A registry for the examples: peers a, b and c, the last two of a given health, all able to search
  and to store; a placement with primary a.
\<close>

definition demo_peer :: "string \<Rightarrow> peer_health \<Rightarrow> nat \<Rightarrow> mesh_peer" where
  "demo_peer node_id health rtt =
     (mesh_peer_new node_id [])\<lparr>mp_capabilities := {Storage, Search, WriteLeader, Coordinator},
        mp_health := health, mp_observed_rtt_micros := rtt\<rparr>"

definition demo_placement :: "string list \<Rightarrow> placement_record" where
  "demo_placement replicas =
     \<lparr>pr_key = PlacementKey ''t'' ''d'' ''s'', pr_primary_node = ''a'', pr_replica_nodes = replicas,
      pr_search_nodes = [''c'', ''b'', ''a''], pr_hyperscaler_profile = None, pr_min_write_replicas = 1,
      pr_search_fanout = 2\<rparr>"

definition demo_registry :: "peer_health \<Rightarrow> string list \<Rightarrow> topology_registry" where
  "demo_registry health replicas =
     \<lparr>reg_peers = [(''a'', demo_peer ''a'' Healthy 300), (''b'', demo_peer ''b'' health 100), (''c'', demo_peer ''c'' health 200)],
      reg_placements = [(PlacementKey ''t'' ''d'' ''s'', demo_placement replicas)], reg_profiles = []\<rparr>"

lemma demo_lookup [simp]:
  "bt_get (reg_peers (demo_registry h rs)) ''a'' = Some (demo_peer ''a'' Healthy 300)"
  "bt_get (reg_peers (demo_registry h rs)) ''b'' = Some (demo_peer ''b'' h 100)"
  "bt_get (reg_peers (demo_registry h rs)) ''c'' = Some (demo_peer ''c'' h 200)"
  "bt_get (reg_placements (demo_registry h rs)) (PlacementKey ''t'' ''d'' ''s'') = Some (demo_placement rs)"
  by (simp_all add: demo_registry_def bt_get_def)

lemma demo_peer_fields [simp]:
  "mp_node_id (demo_peer i h n) = i" "mp_health (demo_peer i h n) = h"
  "mp_capabilities (demo_peer i h n) = {Storage, Search, WriteLeader, Coordinator}"
  "mp_observed_rtt_micros (demo_peer i h n) = n" "mp_inflight_requests (demo_peer i h n) = 0"
  "mp_capacity_weight (demo_peer i h n) = 1" "mp_hyperscaler_profile (demo_peer i h n) = None"
  "stores_data (demo_peer i h n)"
  by (simp_all add: demo_peer_def mesh_peer_new_def stores_data_def)

lemma demo_peer_eq [simp]: "demo_peer i h n = demo_peer j k m \<longleftrightarrow> i = j \<and> h = k \<and> n = m"
  by (auto simp: demo_peer_def mesh_peer_new_def)

lemma demo_participants [simp]:
  assumes "set rs \<subseteq> {''a'', ''b'', ''c''}"
  shows "participant_ids (demo_placement rs) = [''a'', ''b'', ''c'']"
proof (rule sorted_distinct_set_unique)
  show "set (participant_ids (demo_placement rs)) = set [''a'', ''b'', ''c'']"
    using assms by (auto simp: set_participant_ids demo_placement_def)
qed (simp_all add: less_eq_char_def)

lemma demo_reachable:
  assumes "set rs \<subseteq> {''a'', ''b'', ''c''}"
  shows "reg_step\<^sup>*\<^sup>* registry_new (demo_registry h rs)"
proof -
  let ?peers = "[(''a'', demo_peer ''a'' Healthy 300), (''b'', demo_peer ''b'' h 100), (''c'', demo_peer ''c'' h 200)]"
  let ?r = "\<lambda>n. \<lparr>reg_peers = take n ?peers, reg_placements = [], reg_profiles = []\<rparr>"
  have t: "trim ''a'' \<noteq> []" "trim ''b'' \<noteq> []" "trim ''c'' \<noteq> []"
    by (simp_all add: trim_graph graph_char_def)
  have "register_peer (demo_peer ''a'' Healthy 300) (?r 0) = Inr (?r 1)"
    "register_peer (demo_peer ''b'' h 100) (?r 1) = Inr (?r 2)"
    "register_peer (demo_peer ''c'' h 200) (?r 2) = Inr (?r 3)"
    using t by (simp_all add: register_peer_def bt_insert_def less_char_def)
  then have steps: "reg_step (?r 0) (?r 1)" "reg_step (?r 1) (?r 2)" "reg_step (?r 2) (?r 3)"
    by (blast intro: reg_step.peer)+
  have "register_placement (demo_placement rs) (?r 3) = Inr (demo_registry h rs)"
    using assms by (simp add: register_placement_def bt_get_def bt_insert_def demo_registry_def)
      (simp add: demo_placement_def)
  then have last: "reg_step (?r 3) (demo_registry h rs)" by (rule reg_step.placement)
  have "reg_step\<^sup>*\<^sup>* (?r 0) (demo_registry h rs)"
    by (rule rtranclp.rtrancl_into_rtrancl [where b = "?r 3"], rule rtranclp.rtrancl_into_rtrancl [where b = "?r 2"],
        rule rtranclp.rtrancl_into_rtrancl [where b = "?r 1"], rule r_into_rtranclp) (use steps last in blast)+
  then show ?thesis by (simp add: registry_new_def)
qed

theorem plan_search_cheapest_witness:
  "reg_step\<^sup>*\<^sup>* registry_new (demo_registry Healthy [''b'']) \<and>
   map mp_node_id (search_eligible (demo_registry Healthy [''b'']) (policy_global 2) (demo_placement [''b''])) = [''c'', ''b'', ''a''] \<and>
   (case plan_search_with_policy (PlacementKey ''t'' ''d'' ''s'') (policy_global 2) (demo_registry Healthy [''b'']) of
      Inl e \<Rightarrow> False
    | Inr plan \<Rightarrow> sorted (map (search_rank (policy_global 2)) (dsp_fanout plan)) \<and> length (dsp_fanout plan) = 2)"
proof -
  let ?reg = "demo_registry Healthy [''b'']"
  have reach: "reg_step\<^sup>*\<^sup>* registry_new ?reg" by (rule demo_reachable) simp
  have el: "map mp_node_id (search_eligible ?reg (policy_global 2) (demo_placement [''b''])) = [''c'', ''b'', ''a'']"
    by (simp add: search_eligible_def demo_placement_def search_health_ok_def policy_global_def)
  then have len: "length (search_eligible ?reg (policy_global 2) (demo_placement [''b''])) = 3"
    by (metis length_map length_Cons list.size(3) numeral_3_eq_3)
  have lim: "pr_search_fanout (demo_placement [''b'']) = 2" "sp_max_fanout (policy_global 2) = 2"
    by (simp_all add: demo_placement_def policy_global_def)
  show ?thesis
    using plan_search_cheapest [OF reach, of "PlacementKey ''t'' ''d'' ''s''" "demo_placement [''b'']" "policy_global 2"] reach el len lim
    by (auto split: sum.splits)
qed

subsection \<open>Write plans\<close>

lemma set_write_replicas:
  "set (write_replicas mode pl reg) =
     {p. stores_data p \<and> mp_health p = Healthy \<and>
       (\<exists>i \<in> (if leader_mode mode then set (pr_replica_nodes pl) else set (participant_ids pl)).
          bt_get (reg_peers reg) i = Some p)}"
  by (auto simp: write_replicas_def Let_def set_known_peers can_accept_writes_iff)

lemma distinct_write_replicas: "reg_ok reg \<Longrightarrow> distinct (write_replicas mode pl reg)"
  by (simp add: write_replicas_def Let_def distinct_known_peers)

lemma required_acks_pos:
  "pr_min_write_replicas pl < u64_max \<Longrightarrow> 0 < write_required_acks mode c pl n l"
proof -
  assume "pr_min_write_replicas pl < u64_max"
  then have "wadd64 1 (pr_min_write_replicas pl) = Suc (pr_min_write_replicas pl)"
    using wadd64_exact [of 1 "pr_min_write_replicas pl"] by simp
  then show ?thesis by (cases mode) (simp_all add: write_required_acks_def required_pos)
qed

lemma choose_coordinator_Inr:
  assumes "choose_coordinator pl region reg = Inr c"
  defines "able \<equiv> {p. (\<exists>i\<in>set (participant_ids pl). bt_get (reg_peers reg) i = Some p) \<and> can_serve p Coordinator}"
    and "healthy \<equiv> {p. (\<exists>i\<in>set (participant_ids pl). bt_get (reg_peers reg) i = Some p) \<and> mp_health p = Healthy}"
  shows "c \<in> (if able = {} then healthy else able) \<and>
    (\<forall>q\<in>(if able = {} then healthy else able). peer_order region c \<le> peer_order region q)"
proof -
  let ?known = "known_peers reg (participant_ids pl)"
  define cs where "cs = (if filter (\<lambda>p. can_serve p Coordinator) ?known = []
    then filter (\<lambda>p. can_accept_writes (mp_health p)) ?known
    else filter (\<lambda>p. can_serve p Coordinator) ?known)"
  have set_able: "set (filter (\<lambda>p. can_serve p Coordinator) ?known) = able"
    by (auto simp: able_def set_known_peers)
  have set_healthy: "set (filter (\<lambda>p. can_accept_writes (mp_health p)) ?known) = healthy"
    by (auto simp: healthy_def set_known_peers can_accept_writes_iff)
  have nil: "filter (\<lambda>p. can_serve p Coordinator) ?known = [] \<longleftrightarrow> able = {}"
    unfolding set_able [symmetric] by (rule set_empty [symmetric])
  have set_cs: "set cs = (if able = {} then healthy else able)"
    unfolding cs_def nil by (simp only: set_able set_healthy split: if_split) simp
  from assms(1) obtain ps where ps: "sort_key (peer_order region) cs = c # ps"
    by (auto simp: choose_coordinator_def Let_def cs_def split: list.splits)
  have "c \<in> set (sort_key (peer_order region) cs)" unfolding ps by simp
  then have "c \<in> set cs" by simp
  moreover have "\<forall>q\<in>set cs. peer_order region c \<le> peer_order region q"
    using hd_sort_key_least [OF ps] by blast
  ultimately show ?thesis unfolding set_cs by blast
qed

text \<open>
  C13: A write plan that is returned names registered peers only: its replicas are distinct healthy
  participants that store data (the leader modes take them from the replica list alone), in every
  mode but DynamoQuorum the primary can lead writes and coordinates, in DynamoQuorum mode the
  coordinator is the nearest participant able to coordinate, or the nearest healthy one when there
  is none; and the plan asks for at least one acknowledgement and no more than there are peers to
  give.
\<close>

theorem write_plan_sound:
  assumes "reg_step\<^sup>*\<^sup>* registry_new reg"
    and "plan_write_with_consistency key mode consistency region reg = Inr plan"
  shows "\<exists>pl leader. bt_get (reg_placements reg) key = Some pl \<and>
    bt_get (reg_peers reg) (pr_primary_node pl) = Some leader \<and> dwp_placement plan = key \<and>
    distinct (dwp_replicas plan) \<and>
    (\<forall>p\<in>set (dwp_replicas plan). stores_data p \<and> mp_health p = Healthy \<and>
       bt_get (reg_peers reg) (mp_node_id p) = Some p \<and>
       mp_node_id p \<in> (if leader_mode mode then set (pr_replica_nodes pl) else set (participant_ids pl))) \<and>
    (mode \<noteq> DynamoQuorum \<longrightarrow> can_serve leader WriteLeader \<and> dwp_coordinator plan = leader \<and> dwp_leader plan = leader) \<and>
    (mode = DynamoQuorum \<longrightarrow> choose_coordinator pl region reg = Inr (dwp_coordinator plan) \<and>
       mp_node_id (dwp_coordinator plan) \<in> set (participant_ids pl) \<and>
       (can_serve (dwp_coordinator plan) Coordinator \<or> mp_health (dwp_coordinator plan) = Healthy)) \<and>
    dwp_required_acks plan \<le> (if leader_mode mode then 1 else 0) + length (dwp_replicas plan) \<and>
    (pr_min_write_replicas pl < u64_max \<longrightarrow> 0 < dwp_required_acks plan)"
proof -
  have ok: "reg_ok reg" by (rule reg_ok_reachable [OF assms(1)])
  from assms(2) obtain pl leader coordinator where
    pl: "bt_get (reg_placements reg) key = Some pl" and
    leader: "bt_get (reg_peers reg) (pr_primary_node pl) = Some leader" and
    lead: "mode \<noteq> DynamoQuorum \<longrightarrow> can_serve leader WriteLeader" and
    co: "(if mode = DynamoQuorum then choose_coordinator pl region reg else Inr leader) = Inr coordinator" and
    plan: "plan = \<lparr>dwp_placement = key, dwp_mode = mode, dwp_consistency = consistency,
      dwp_coordinator = coordinator, dwp_leader = (if leader_mode mode then leader else coordinator),
      dwp_replicas = write_replicas mode pl reg,
      dwp_required_acks = write_required_acks mode consistency pl (length (write_replicas mode pl reg))
        (local_count region (write_replicas mode pl reg))\<rparr>" and
    acks: "dwp_required_acks plan \<le> (if leader_mode mode then 1 else 0) + length (dwp_replicas plan)"
    by (auto simp: plan_write_with_consistency_def Let_def result_bind_Inr_iff split: option.splits if_splits)
  have reps: "\<forall>p\<in>set (write_replicas mode pl reg). stores_data p \<and> mp_health p = Healthy \<and>
       bt_get (reg_peers reg) (mp_node_id p) = Some p \<and>
       mp_node_id p \<in> (if leader_mode mode then set (pr_replica_nodes pl) else set (participant_ids pl))"
    using reg_ok_node_id [OF ok] by (force simp: set_write_replicas)
  have dyn: "mp_node_id coordinator \<in> set (participant_ids pl) \<and>
      (can_serve coordinator Coordinator \<or> mp_health coordinator = Healthy)" if "mode = DynamoQuorum"
    using choose_coordinator_Inr [of pl region reg coordinator] co that reg_ok_node_id [OF ok]
    by (auto split: if_splits)
  show ?thesis
    using pl leader lead co reps dyn acks distinct_write_replicas [OF ok] required_acks_pos [of pl]
    by (intro exI [of _ pl] exI [of _ leader]) (auto simp: plan)
qed

lemma demo_write_replicas:
  assumes "set rs \<subseteq> {''a'', ''b'', ''c''}" "bset_of rs = [''b'', ''c'']"
  shows "write_replicas Quorum (demo_placement rs) (demo_registry Healthy rs) =
      [demo_peer ''b'' Healthy 100, demo_peer ''c'' Healthy 200]"
    "write_replicas DynamoQuorum (demo_placement rs) (demo_registry Healthy rs) =
      [demo_peer ''a'' Healthy 300, demo_peer ''b'' Healthy 100, demo_peer ''c'' Healthy 200]"
    "write_replicas DynamoQuorum (demo_placement rs) (demo_registry Degraded rs) = [demo_peer ''a'' Healthy 300]"
  using assms by (simp_all add: write_replicas_def Let_def leader_mode_def) (simp add: demo_placement_def)

lemma demo_bset [simp]: "bset_of [''b'', ''c''] = [''b'', ''c'']" "bset_of [''a'', ''b''] = [''a'', ''b'']"
  by (simp_all add: bset_of_def less_eq_char_def)

lemma demo_primary [simp]: "pr_primary_node (demo_placement rs) = ''a''"
  by (simp add: demo_placement_def)

theorem write_plan_sound_witness:
  "\<exists>plan. plan_write_with_consistency (PlacementKey ''t'' ''d'' ''s'') Quorum QuorumLevel None (demo_registry Healthy [''b'', ''c'']) = Inr plan \<and>
     map mp_node_id (dwp_replicas plan) = [''b'', ''c''] \<and> dwp_required_acks plan = 2 \<and>
     can_serve (dwp_leader plan) WriteLeader"
proof -
  let ?reg = "demo_registry Healthy [''b'', ''c'']" and ?key = "PlacementKey ''t'' ''d'' ''s''"
  have reach: "reg_step\<^sup>*\<^sup>* registry_new ?reg" by (rule demo_reachable) simp
  obtain plan where plan: "plan_write_with_consistency ?key Quorum QuorumLevel None ?reg = Inr plan"
      "map mp_node_id (dwp_replicas plan) = [''b'', ''c'']" "dwp_required_acks plan = 2"
    by (simp add: plan_write_with_consistency_def demo_write_replicas can_serve_def leader_mode_def
        write_required_acks_def Let_def)
  show ?thesis using write_plan_sound [OF reach plan(1)] plan by auto
qed

subsection \<open>Quorums\<close>

lemma required_overlap:
  assumes "cw = All \<or> cr = All \<or> (cw = QuorumLevel \<and> cr = QuorumLevel)"
  shows "n < required cw n l + required cr n l'"
  using assms required_pos [of cr n l'] required_pos [of cw n l] by auto

lemma overlap_if_large:
  assumes "finite S" "A \<subseteq> S" "B \<subseteq> S" "card S < card A + card B"
  shows "A \<inter> B \<noteq> {}"
proof
  assume "A \<inter> B = {}"
  then have "card (A \<union> B) = card A + card B"
    using assms finite_subset by (intro card_Un_disjoint) auto
  moreover have "card (A \<union> B) \<le> card S" using assms by (intro card_mono) auto
  ultimately show False using assms(4) by simp
qed

text \<open>
  For a placement none of whose peers is degraded, the acknowledgements of a write plan in the mode
  DynamoQuorum and the responses of a read plan made from the same registry intersect, when both are at
  quorum level or one of them is at level All: some replica that took the write answers the read. In the
  modes with a leader nothing is said; there a plan can ask for two acknowledgements that one peer alone
  gives (\<open>quorum_plans_can_miss\<close>).
\<close>

theorem quorums_intersect:
  assumes "reg_step\<^sup>*\<^sup>* registry_new reg" "bt_get (reg_placements reg) key = Some pl"
    and "plan_write_with_consistency key DynamoQuorum cw region reg = Inr w"
    and "plan_read key cr region' reg = Inr r"
    and "cw = All \<or> cr = All \<or> (cw = QuorumLevel \<and> cr = QuorumLevel)"
    and "\<forall>i\<in>set (participant_ids pl). \<forall>p. bt_get (reg_peers reg) i = Some p \<longrightarrow> mp_health p \<noteq> Degraded"
    and "A \<subseteq> set (dwp_replicas w)" "dwp_required_acks w \<le> card A"
    and "B \<subseteq> set (drp_replicas r)" "drp_required_responses r \<le> card B"
  shows "A \<inter> B \<noteq> {}"
proof -
  have ok: "reg_ok reg" by (rule reg_ok_reachable [OF assms(1)])
  let ?known = "known_peers reg (participant_ids pl)"
  let ?ws = "write_replicas DynamoQuorum pl reg"
  let ?rs = "filter (\<lambda>p. stores_data p \<and> can_serve_reads (mp_health p)) ?known"
  have w: "dwp_replicas w = ?ws" "dwp_required_acks w = required cw (length ?ws) (local_count region ?ws)"
    using assms(2,3)
    by (auto simp: plan_write_with_consistency_def Let_def result_bind_Inr_iff write_required_acks_def
        split: option.splits if_splits)
  have all_known: "\<forall>i\<in>set (participant_ids pl). bt_get (reg_peers reg) i \<noteq> None"
    using reg_ok_participant [OF ok assms(2)] by auto
  have r: "drp_replicas r = sort_key (peer_order region') ?rs"
    "drp_required_responses r = required cr (length ?rs) (local_count region' (sort_key (peer_order region') ?rs))"
    using assms(2,4)
    by (auto simp: plan_read_def Let_def result_bind_Inr_iff read_replicas_eq [OF all_known] split: if_splits)
  have same: "?ws = ?rs"
    unfolding write_replicas_def Let_def leader_mode_def
    by (auto simp: can_accept_writes_iff can_serve_reads_iff set_known_peers assms(6) intro!: filter_cong)
  have card: "card (set ?rs) = length ?rs"
    by (intro distinct_card distinct_filter distinct_known_peers [OF ok]) simp
  have "card (set ?rs) < card A + card B"
    unfolding card using required_overlap [OF assms(5), of "length ?rs" "local_count region ?rs"
        "local_count region' (sort_key (peer_order region') ?rs)"] assms(8,10) w(2) [unfolded same] r(2) by linarith
  then show ?thesis
    using assms(7,9) w(1) r(1) same by (intro overlap_if_large [of "set ?rs"]) auto
qed

theorem quorums_intersect_witness:
  "\<exists>w r. plan_write_with_consistency (PlacementKey ''t'' ''d'' ''s'') DynamoQuorum QuorumLevel None (demo_registry Healthy [''b'', ''c'']) = Inr w \<and>
     plan_read (PlacementKey ''t'' ''d'' ''s'') QuorumLevel None (demo_registry Healthy [''b'', ''c'']) = Inr r \<and>
     set (take 2 (dwp_replicas w)) \<inter> set (take 2 (drp_replicas r)) \<noteq> {}"
proof -
  let ?reg = "demo_registry Healthy [''b'', ''c'']" and ?key = "PlacementKey ''t'' ''d'' ''s''"
  let ?a = "demo_peer ''a'' Healthy 300" and ?b = "demo_peer ''b'' Healthy 100" and ?c = "demo_peer ''c'' Healthy 200"
  have reach: "reg_step\<^sup>*\<^sup>* registry_new ?reg" by (rule demo_reachable) simp
  have co: "choose_coordinator (demo_placement [''b'', ''c'']) None ?reg = Inr ?b"
    by (simp add: choose_coordinator_def Let_def can_serve_def peer_order_def locality_def)
  obtain w where w: "plan_write_with_consistency ?key DynamoQuorum QuorumLevel None ?reg = Inr w"
      "dwp_replicas w = [?a, ?b, ?c]" "dwp_required_acks w = 2"
    by (simp add: plan_write_with_consistency_def demo_write_replicas leader_mode_def co
        write_required_acks_def Let_def)
  obtain r where r: "plan_read ?key QuorumLevel None ?reg = Inr r"
      "drp_replicas r = [?b, ?c, ?a]" "drp_required_responses r = 2"
    by (simp add: plan_read_def co Let_def peer_order_def locality_def)
  have "set (take 2 (dwp_replicas w)) \<inter> set (take 2 (drp_replicas r)) \<noteq> {}"
  proof (rule quorums_intersect [OF reach _ w(1) r(1), of "demo_placement [''b'', ''c'']"])
  qed (simp_all add: w r)
  with w(1) r(1) show ?thesis by blast
qed

text \<open>
  Health decides which peers count: with two degraded peers out of three, a quorum write needs
  only the one healthy peer while a quorum read is satisfied by the two degraded ones, so the read
  misses the write. And a primary that is also in the replica list is counted twice: a quorum write
  plan then asks for two acknowledgements that the primary alone can give.
\<close>

theorem quorum_plans_can_miss:
  "(\<exists>w r. plan_write_with_consistency (PlacementKey ''t'' ''d'' ''s'') DynamoQuorum QuorumLevel None (demo_registry Degraded [''b'', ''c'']) = Inr w \<and>
      plan_read (PlacementKey ''t'' ''d'' ''s'') QuorumLevel None (demo_registry Degraded [''b'', ''c'']) = Inr r \<and>
      map mp_node_id (dwp_replicas w) = [''a''] \<and> dwp_required_acks w = 1 \<and>
      map mp_node_id (take 2 (drp_replicas r)) = [''b'', ''c''] \<and> drp_required_responses r = 2) \<and>
   (\<exists>w. plan_write_with_consistency (PlacementKey ''t'' ''d'' ''s'') Quorum QuorumLevel None (demo_registry Healthy [''a'', ''b'']) = Inr w \<and>
      dwp_leader w \<in> set (dwp_replicas w) \<and> dwp_required_acks w = 2)"
proof (intro conjI)
  have co: "choose_coordinator (demo_placement [''b'', ''c'']) None (demo_registry Degraded [''b'', ''c'']) = Inr (demo_peer ''b'' Degraded 100)"
    by (simp add: choose_coordinator_def Let_def can_serve_def peer_order_def locality_def)
  show "\<exists>w r. plan_write_with_consistency (PlacementKey ''t'' ''d'' ''s'') DynamoQuorum QuorumLevel None (demo_registry Degraded [''b'', ''c'']) = Inr w \<and>
      plan_read (PlacementKey ''t'' ''d'' ''s'') QuorumLevel None (demo_registry Degraded [''b'', ''c'']) = Inr r \<and>
      map mp_node_id (dwp_replicas w) = [''a''] \<and> dwp_required_acks w = 1 \<and>
      map mp_node_id (take 2 (drp_replicas r)) = [''b'', ''c''] \<and> drp_required_responses r = 2"
    by (simp add: plan_write_with_consistency_def plan_read_def co demo_write_replicas leader_mode_def
        write_required_acks_def Let_def peer_order_def locality_def)
  have "write_replicas Quorum (demo_placement [''a'', ''b'']) (demo_registry Healthy [''a'', ''b'']) =
      [demo_peer ''a'' Healthy 300, demo_peer ''b'' Healthy 100]"
    by (simp add: write_replicas_def leader_mode_def Let_def) (simp add: demo_placement_def)
  then show "\<exists>w. plan_write_with_consistency (PlacementKey ''t'' ''d'' ''s'') Quorum QuorumLevel None (demo_registry Healthy [''a'', ''b'']) = Inr w \<and>
      dwp_leader w \<in> set (dwp_replicas w) \<and> dwp_required_acks w = 2"
    by (simp add: plan_write_with_consistency_def can_serve_def leader_mode_def write_required_acks_def Let_def)
qed

end
