(* ===== verification/Coordinator.thy ===== *)
theory Coordinator
  imports Replica_Store Topology_Plans
begin

text \<open>
  The quorum coordinator of crates/replication/src/lib.rs: replicated writes and reads along a plan of
  the topology registry, hinted hand-off and read repair, and the replay of the repair queue. Storage
  operations are arguments, replicas are reached through the in-memory transport. The repair queue,
  which the code keeps in a storage engine as JSON, is an ordered map from record id to record without
  I/O errors; the hash inside a record's id is an argument.
\<close>

subsection \<open>Errors of the planner\<close>

fun capability_debug :: "node_capability \<Rightarrow> string" where
  "capability_debug Http = ''Http''"
| "capability_debug Bolt = ''Bolt''"
| "capability_debug Storage = ''Storage''"
| "capability_debug Search = ''Search''"
| "capability_debug WriteLeader = ''WriteLeader''"
| "capability_debug WriteReplica = ''WriteReplica''"
| "capability_debug Coordinator = ''Coordinator''"

fun topology_error_message :: "topology_error \<Rightarrow> string" where
  "topology_error_message (MissingPeer s) = ''missing peer: '' @ s"
| "topology_error_message (MissingPlacement s) = ''missing placement: '' @ s"
| "topology_error_message (InvalidTopology s) = ''invalid topology: '' @ s"
| "topology_error_message (NoHealthyPeer c) = ''no healthy peer for capability '' @ capability_debug c"

subsection \<open>The repair queue\<close>

datatype repair_kind = HintedHandoff | ReadRepairProbe

record 'c repair_record =
  rr_id :: string
  rr_kind :: repair_kind
  rr_placement :: placement_key
  rr_target_node :: string
  rr_command :: "'c option"
  rr_read_key :: "bytes option"
  rr_attempts :: nat

type_synonym 'c repair_hash = "repair_kind \<Rightarrow> placement_key \<Rightarrow> string \<Rightarrow> 'c option \<Rightarrow> bytes option \<Rightarrow> string"

definition repair_new ::
    "'c repair_hash \<Rightarrow> repair_kind \<Rightarrow> placement_key \<Rightarrow> string \<Rightarrow> 'c option \<Rightarrow> bytes option \<Rightarrow> 'c repair_record" where
  "repair_new hash kind placement target_node command read_key =
     \<lparr>rr_id = (case kind of HintedHandoff \<Rightarrow> ''hint'' | ReadRepairProbe \<Rightarrow> ''read'') @ '':'' @ target_node @ '':'' @
        hash kind placement target_node command read_key,
      rr_kind = kind, rr_placement = placement, rr_target_node = target_node, rr_command = command,
      rr_read_key = read_key, rr_attempts = 0\<rparr>"

definition hinted_handoff :: "'c repair_hash \<Rightarrow> placement_key \<Rightarrow> string \<Rightarrow> 'c \<Rightarrow> 'c repair_record" where
  "hinted_handoff hash placement target_node command = repair_new hash HintedHandoff placement target_node (Some command) None"

definition read_repair_probe :: "'c repair_hash \<Rightarrow> placement_key \<Rightarrow> string \<Rightarrow> bytes \<Rightarrow> 'c repair_record" where
  "read_repair_probe hash placement target_node read_key = repair_new hash ReadRepairProbe placement target_node None (Some read_key)"

definition increment_attempts :: "'c repair_record \<Rightarrow> 'c repair_record" where
  "increment_attempts r = r\<lparr>rr_attempts := min (rr_attempts r + 1) (2 ^ 32 - 1)\<rparr>"

type_synonym 'c repair_queue = "(string, 'c repair_record) btree"

definition rq_enqueue :: "'c repair_record \<Rightarrow> 'c repair_queue \<Rightarrow> 'c repair_queue" where
  "rq_enqueue r queue = bt_insert (rr_id r) r queue"

definition rq_pending :: "'c repair_queue \<Rightarrow> 'c repair_record list" where
  "rq_pending queue = sort_key rr_id (map snd queue)"

definition rq_delete :: "string \<Rightarrow> 'c repair_queue \<Rightarrow> 'c repair_queue" where
  "rq_delete record_id queue = bt_remove record_id queue"

record repair_report =
  rp_attempted :: nat
  rp_completed :: nat
  rp_retained :: nat

type_synonym ('c, 's) store_ops = "('c \<Rightarrow> 's \<Rightarrow> replication_error + 's) \<times> (bytes \<Rightarrow> 's \<Rightarrow> replication_error + bytes option)"

definition replay_record ::
    "('c, 's) store_ops \<Rightarrow> 'c repair_record \<Rightarrow> 's replicas \<Rightarrow> 's replicas \<times> (replication_error + unit)" where
  "replay_record ops r replicas =
     (case rr_kind r of
        HintedHandoff \<Rightarrow>
          (case rr_command r of
             None \<Rightarrow> (replicas, Inl (StorageFault ''hinted handoff record missing command''))
           | Some command \<Rightarrow> apply_replica (fst ops) (rr_target_node r) command replicas)
      | ReadRepairProbe \<Rightarrow>
          (case rr_read_key r of
             None \<Rightarrow> (replicas, Inl (StorageFault ''read repair record missing key''))
           | Some key \<Rightarrow> (replicas, map_sum id (\<lambda>_. ()) (read_replica (snd ops) (rr_target_node r) key replicas))))"

fun replay_records ::
    "('c, 's) store_ops \<Rightarrow> 'c repair_record list \<Rightarrow> repair_report \<Rightarrow> 'c repair_queue \<Rightarrow> 's replicas \<Rightarrow>
     'c repair_queue \<times> 's replicas \<times> repair_report" where
  "replay_records ops [] report queue replicas = (queue, replicas, report)"
| "replay_records ops (r # rest) report queue replicas =
     (let report = report\<lparr>rp_attempted := rp_attempted report + 1\<rparr>
      in case replay_record ops r replicas of
           (replicas, Inr _) \<Rightarrow>
             replay_records ops rest (report\<lparr>rp_completed := rp_completed report + 1\<rparr>) (rq_delete (rr_id r) queue) replicas
         | (replicas, Inl _) \<Rightarrow>
             replay_records ops rest (report\<lparr>rp_retained := rp_retained report + 1\<rparr>) (rq_enqueue (increment_attempts r) queue) replicas)"

definition replay_batch ::
    "('c, 's) store_ops \<Rightarrow> nat \<Rightarrow> 'c repair_queue \<Rightarrow> 's replicas \<Rightarrow> 'c repair_queue \<times> 's replicas \<times> repair_report" where
  "replay_batch ops max_records queue replicas =
     replay_records ops (take (max max_records 1) (rq_pending queue))
       \<lparr>rp_attempted = 0, rp_completed = 0, rp_retained = 0\<rparr> queue replicas"

subsection \<open>Writes\<close>

record write_outcome =
  wo_plan :: distributed_write_plan
  wo_acknowledged_by :: "string list"
  wo_failed_replicas :: "string list"

fun write_round ::
    "('c, 's) store_ops \<Rightarrow> 'c \<Rightarrow> mesh_peer list \<Rightarrow> 's replicas \<Rightarrow> 's replicas \<times> string list \<times> string list" where
  "write_round ops command [] replicas = (replicas, [], [])"
| "write_round ops command (replica # rest) replicas =
     (case apply_replica (fst ops) (mp_node_id replica) command replicas of
        (replicas, r) \<Rightarrow>
          (case write_round ops command rest replicas of
             (replicas, acked, failed) \<Rightarrow>
               (if is_ok r then (replicas, mp_node_id replica # acked, failed)
                else (replicas, acked, mp_node_id replica # failed))))"

definition enqueue_hinted_handoff ::
    "'c repair_hash \<Rightarrow> placement_key \<Rightarrow> 'c \<Rightarrow> string list \<Rightarrow> 'c repair_queue option \<Rightarrow> 'c repair_queue option" where
  "enqueue_hinted_handoff hash placement command failed queue =
     map_option (fold (\<lambda>replica. rq_enqueue (hinted_handoff hash placement replica command)) failed) queue"

record ('c, 's) co_state =
  co_registry :: topology_registry
  co_replicas :: "'s replicas"
  co_queue :: "'c repair_queue option"

definition co_write ::
    "('c, 's) store_ops \<Rightarrow> 'c repair_hash \<Rightarrow> placement_key \<Rightarrow> consistency_level \<Rightarrow> 'c \<Rightarrow> string option \<Rightarrow>
     ('c, 's) co_state \<Rightarrow> ('c, 's) co_state \<times> (replication_error + write_outcome)" where
  "co_write ops hash placement consistency command request_region co =
     (case plan_write_with_consistency placement DynamoQuorum consistency request_region (co_registry co) of
        Inl e \<Rightarrow> (co, Inl (StorageFault (topology_error_message e)))
      | Inr plan \<Rightarrow>
          (case write_round ops command (dwp_replicas plan) (co_replicas co) of
             (replicas, acked, failed) \<Rightarrow>
               (let co = co\<lparr>co_replicas := replicas\<rparr>
                in if length acked < dwp_required_acks plan
                   then (co, Inl (NoQuorum (dwp_required_acks plan) (length acked)))
                   else (co\<lparr>co_queue := enqueue_hinted_handoff hash (dwp_placement plan) command failed (co_queue co)\<rparr>,
                         Inr \<lparr>wo_plan = plan, wo_acknowledged_by = acked, wo_failed_replicas = failed\<rparr>))))"

subsection \<open>Reads\<close>

record read_outcome =
  ro_plan :: distributed_read_plan
  ro_responded_by :: "string list"
  ro_failed_replicas :: "string list"
  ro_value :: "bytes option"

text \<open>The read loop with what it has collected; it stops once it has enough answers and a value.\<close>

fun read_round ::
    "('c, 's) store_ops \<Rightarrow> bytes \<Rightarrow> nat \<Rightarrow> mesh_peer list \<Rightarrow> 's replicas \<Rightarrow> string list \<Rightarrow> string list \<Rightarrow> bytes option \<Rightarrow>
     string list \<times> string list \<times> bytes option" where
  "read_round ops key needed [] replicas responded failed v = (responded, failed, v)"
| "read_round ops key needed (replica # rest) replicas responded failed v =
     (case read_replica (snd ops) (mp_node_id replica) key replicas of
        Inr replica_value \<Rightarrow>
          (let v = (if v = None \<and> replica_value \<noteq> None then replica_value else v);
               responded = responded @ [mp_node_id replica]
           in if needed \<le> length responded \<and> v \<noteq> None then (responded, failed, v)
              else read_round ops key needed rest replicas responded failed v)
      | Inl _ \<Rightarrow>
          (let failed = failed @ [mp_node_id replica]
           in if needed \<le> length responded \<and> v \<noteq> None then (responded, failed, v)
              else read_round ops key needed rest replicas responded failed v))"

definition enqueue_read_repairs ::
    "'c repair_hash \<Rightarrow> placement_key \<Rightarrow> bytes \<Rightarrow> string list \<Rightarrow> 'c repair_queue option \<Rightarrow> 'c repair_queue option" where
  "enqueue_read_repairs hash placement key failed queue =
     map_option (fold (\<lambda>replica. rq_enqueue (read_repair_probe hash placement replica key)) failed) queue"

definition co_read ::
    "('c, 's) store_ops \<Rightarrow> 'c repair_hash \<Rightarrow> placement_key \<Rightarrow> consistency_level \<Rightarrow> bytes \<Rightarrow> string option \<Rightarrow>
     ('c, 's) co_state \<Rightarrow> ('c, 's) co_state \<times> (replication_error + read_outcome)" where
  "co_read ops hash placement consistency key request_region co =
     (case plan_read placement consistency request_region (co_registry co) of
        Inl e \<Rightarrow> (co, Inl (StorageFault (topology_error_message e)))
      | Inr plan \<Rightarrow>
          (case read_round ops key (drp_required_responses plan) (drp_replicas plan) (co_replicas co) [] [] None of
             (responded, failed, v) \<Rightarrow>
               (if length responded < drp_required_responses plan
                then (co, Inl (NoQuorum (drp_required_responses plan) (length responded)))
                else (co\<lparr>co_queue := enqueue_read_repairs hash (drp_placement plan) key failed (co_queue co)\<rparr>,
                      Inr \<lparr>ro_plan = plan, ro_responded_by = responded, ro_failed_replicas = failed, ro_value = v\<rparr>))))"

end
