(* ===== verification/Coordinator_Reads.thy ===== *)
theory Coordinator_Reads
  imports Coordinator
begin

text \<open>
  What a quorum read returns after quorum writes, crates/replication/src/lib.rs, over replicas that are
  memory stores: exactly the first value in plan order, hence a fresh key's write, but not always the
  latest write of a key.
\<close>

definition mem_ops :: "(('v, 'm) command, 'v memory_storage) store_ops" where
  "mem_ops = (memory_apply, memory_read_key)"

definition memory_run :: "('v, 'm) command \<Rightarrow> 'v memory_storage \<Rightarrow> 'v memory_storage" where
  "memory_run c s = projr (memory_apply c s)"

lemma memory_run_eq: "memory_apply c s = Inr (memory_run c s)"
  by (cases c) (simp_all add: memory_run_def)

lemma memory_get_run [simp]:
  "memory_get k (memory_run (PutKey j v) s) = (if k = j then Some v else memory_get k s)"
  by (simp add: memory_run_def memory_get_def)

subsection \<open>Rounds\<close>

lemma write_round_mem:
  assumes "distinct (map mp_node_id ps)"
  shows "write_round mem_ops c ps replicas =
    ((\<lambda>i. if i \<in> mp_node_id ` set ps then map_option (memory_run c) (replicas i) else replicas i),
     filter (\<lambda>i. replicas i \<noteq> None) (map mp_node_id ps), filter (\<lambda>i. replicas i = None) (map mp_node_id ps))"
  using assms
proof (induction ps arbitrary: replicas)
  case (Cons p ps)
  let ?i = "mp_node_id p"
  have new: "?i \<notin> mp_node_id ` set ps" using Cons.prems by simp
  show ?case
  proof (cases "replicas ?i")
    case None
    then have "apply_replica (fst mem_ops) ?i c replicas = (replicas, Inl (unknown_replica ?i))"
      by (simp add: apply_replica_def)
    then show ?thesis using Cons None by (auto simp: fun_eq_iff)
  next
    case (Some s)
    let ?r = "replicas(?i \<mapsto> memory_run c s)"
    have one: "apply_replica (fst mem_ops) ?i c replicas = (?r, Inr ())"
      using Some by (simp add: apply_replica_def mem_ops_def memory_run_eq)
    have same: "filter (\<lambda>i. ?r i \<noteq> None) (map mp_node_id ps) = filter (\<lambda>i. replicas i \<noteq> None) (map mp_node_id ps)"
      "filter (\<lambda>i. ?r i = None) (map mp_node_id ps) = filter (\<lambda>i. replicas i = None) (map mp_node_id ps)"
      using new by (auto intro!: filter_cong)
    have "(\<lambda>i. if i \<in> mp_node_id ` set ps then map_option (memory_run c) (?r i) else ?r i) =
        (\<lambda>i. if i \<in> mp_node_id ` set (p # ps) then map_option (memory_run c) (replicas i) else replicas i)"
      using new Some by (auto simp: fun_eq_iff)
    with one same Some Cons show ?thesis by simp
  qed
qed simp

text \<open>The values the replicas hold under a key, in plan order; unreachable replicas have none.\<close>

definition replica_value :: "bytes \<Rightarrow> 'v memory_storage replicas \<Rightarrow> mesh_peer \<Rightarrow> bytes option" where
  "replica_value key replicas p = (case replicas (mp_node_id p) of Some s \<Rightarrow> memory_get key s | None \<Rightarrow> None)"

definition first_value :: "bytes \<Rightarrow> 'v memory_storage replicas \<Rightarrow> mesh_peer list \<Rightarrow> bytes option" where
  "first_value key replicas ps = head_opt (List.map_filter (replica_value key replicas) ps)"

lemma first_value_simps [simp]:
  "first_value key replicas [] = None"
  "first_value key replicas (p # ps) =
     (case replica_value key replicas p of Some v \<Rightarrow> Some v | None \<Rightarrow> first_value key replicas ps)"
  by (simp_all add: first_value_def List.map_filter_simps split: option.split)

lemma first_value_mem:
  "first_value key replicas ps = Some v \<Longrightarrow> \<exists>p\<in>set ps. replica_value key replicas p = Some v"
  by (induction ps) (auto split: option.splits)

lemma first_value_None: "first_value key replicas ps = None \<longleftrightarrow> (\<forall>p\<in>set ps. replica_value key replicas p = None)"
  by (induction ps) (auto split: option.splits)

lemma read_round_value:
  "snd (snd (read_round mem_ops key needed ps replicas responded failed v)) =
     (case v of Some x \<Rightarrow> Some x | None \<Rightarrow> first_value key replicas ps)"
proof (induction ps arbitrary: responded failed v)
  case (Cons p ps)
  then show ?case
    by (cases "replicas (mp_node_id p)"; cases v)
      (auto simp: read_replica_def mem_ops_def memory_read_key_def replica_value_def Let_def split: option.split)
qed (auto split: option.split)

subsection \<open>A fresh key\<close>

lemma plan_read_known:
  assumes "reg_ok reg" "bt_get (reg_placements reg) key = Some pl" "plan_read key cr region reg = Inr r"
  shows "set (drp_replicas r) =
    {p. stores_data p \<and> can_serve_reads (mp_health p) \<and> (\<exists>i\<in>set (participant_ids pl). bt_get (reg_peers reg) i = Some p)}"
proof -
  have "\<forall>i\<in>set (participant_ids pl). bt_get (reg_peers reg) i \<noteq> None"
    using reg_ok_participant [OF assms(1,2)] by auto
  then have rr: "read_replicas reg (participant_ids pl) =
      Inr (filter (\<lambda>p. stores_data p \<and> can_serve_reads (mp_health p)) (known_peers reg (participant_ids pl)))"
    by (rule read_replicas_eq)
  show ?thesis
    using assms(2,3) by (auto simp: plan_read_def Let_def result_bind_Inr_iff rr set_known_peers split: if_splits)
qed

lemma plan_write_known:
  assumes "bt_get (reg_placements reg) key = Some pl"
    "plan_write_with_consistency key DynamoQuorum cw region reg = Inr w"
  shows "dwp_replicas w = write_replicas DynamoQuorum pl reg" "0 < dwp_required_acks w" "dwp_placement w = key"
  using assms
  by (auto simp: plan_write_with_consistency_def Let_def result_bind_Inr_iff write_required_acks_def
      required_pos split: option.splits if_splits)

lemma distinct_write_ids:
  assumes "reg_ok reg" shows "distinct (map mp_node_id (write_replicas mode pl reg))"
proof -
  have "inj_on mp_node_id (set (write_replicas mode pl reg))"
    using reg_ok_node_id [OF assms] by (fastforce simp: inj_on_def set_write_replicas split: if_splits)
  then show ?thesis using distinct_write_replicas [OF assms] by (simp add: distinct_map)
qed


subsection \<open>Three replicas, one of them down for a while\<close>

abbreviation demo_key :: placement_key where
  "demo_key \<equiv> PlacementKey ''t'' ''d'' ''s''"

abbreviation demo_reg :: topology_registry where
  "demo_reg \<equiv> demo_registry Healthy [''b'', ''c'']"

lemma demo_coordinator: "choose_coordinator (demo_placement [''b'', ''c'']) None demo_reg = Inr (demo_peer ''b'' Healthy 100)"
  by (simp add: choose_coordinator_def Let_def can_serve_def peer_order_def locality_def)

lemma demo_write_plan:
  "\<exists>w. plan_write_with_consistency demo_key DynamoQuorum QuorumLevel None demo_reg = Inr w \<and>
     dwp_replicas w = [demo_peer ''a'' Healthy 300, demo_peer ''b'' Healthy 100, demo_peer ''c'' Healthy 200] \<and>
     dwp_required_acks w = 2 \<and> dwp_placement w = demo_key"
  by (simp add: plan_write_with_consistency_def demo_write_replicas leader_mode_def demo_coordinator
      write_required_acks_def Let_def)

lemma demo_read_plan:
  "\<exists>r. plan_read demo_key QuorumLevel None demo_reg = Inr r \<and>
     drp_replicas r = [demo_peer ''b'' Healthy 100, demo_peer ''c'' Healthy 200, demo_peer ''a'' Healthy 300] \<and>
     drp_required_responses r = 2 \<and> drp_placement r = demo_key"
  by (simp add: plan_read_def demo_coordinator Let_def peer_order_def locality_def)

lemma demo_write:
  fixes replicas :: "'v memory_storage replicas" and c :: "('v, 'm) command"
  assumes "replicas ''a'' = Some sa" "replicas ''c'' = Some sc"
  shows "\<exists>w. co_write mem_ops hash demo_key QuorumLevel c None
      \<lparr>co_registry = demo_reg, co_replicas = replicas, co_queue = Some queue\<rparr> =
    (\<lparr>co_registry = demo_reg,
      co_replicas = (\<lambda>i. if i \<in> {''a'', ''b'', ''c''} then map_option (memory_run c) (replicas i) else replicas i),
      co_queue = Some (if replicas ''b'' = None then rq_enqueue (hinted_handoff hash demo_key ''b'' c) queue else queue)\<rparr>,
     Inr w) \<and> wo_acknowledged_by w = (if replicas ''b'' = None then [''a'', ''c''] else [''a'', ''b'', ''c''])"
proof -
  let ?ps = "[demo_peer ''a'' Healthy 300, demo_peer ''b'' Healthy 100, demo_peer ''c'' Healthy 200]"
  have "distinct (map mp_node_id ?ps)" by simp
  note round = write_round_mem [OF this, of c replicas]
  obtain w where "plan_write_with_consistency demo_key DynamoQuorum QuorumLevel None demo_reg = Inr w"
    "dwp_replicas w = ?ps" "dwp_required_acks w = 2" "dwp_placement w = demo_key"
    using demo_write_plan by blast
  then show ?thesis
    unfolding co_write_def using assms round by (simp add: enqueue_hinted_handoff_def)
qed

text \<open>The coordinator's node b, the nearest of the three, answers first.\<close>

lemma demo_read:
  assumes "replicas ''b'' = Some sb" "memory_get key sb = Some v" "replicas ''c'' = Some sc"
  shows "\<exists>r. co_read mem_ops hash demo_key QuorumLevel key None
      \<lparr>co_registry = demo_reg, co_replicas = replicas, co_queue = queue\<rparr> =
    (\<lparr>co_registry = demo_reg, co_replicas = replicas, co_queue = queue\<rparr>, Inr r) \<and> ro_value r = Some v"
proof -
  obtain r where "plan_read demo_key QuorumLevel None demo_reg = Inr r"
    "drp_replicas r = [demo_peer ''b'' Healthy 100, demo_peer ''c'' Healthy 200, demo_peer ''a'' Healthy 300]"
    "drp_required_responses r = 2" "drp_placement r = demo_key"
    using demo_read_plan by blast
  then show ?thesis
    unfolding co_read_def using assms
    by (cases queue) (auto simp: read_replica_def mem_ops_def memory_read_key_def enqueue_read_repairs_def Let_def)
qed

text \<open>A replayed hint is applied to its target, whatever has been written there since.\<close>

lemma replay_hint:
  fixes c :: "('v, 'm) command" and replicas :: "'v memory_storage replicas"
  assumes "replicas ''b'' = Some s"
  shows "replay_batch mem_ops n (rq_enqueue (hinted_handoff hash pk ''b'' c) []) replicas =
    ([], replicas(''b'' \<mapsto> memory_run c s), \<lparr>rp_attempted = 1, rp_completed = 1, rp_retained = 0\<rparr>)"
proof -
  let ?hint = "hinted_handoff hash pk ''b'' c"
  have queue: "rq_enqueue ?hint [] = [(rr_id ?hint, ?hint)]" by (simp add: rq_enqueue_def bt_insert_def)
  have "max n 1 = Suc (n - 1)" by simp
  moreover have "replay_record mem_ops ?hint replicas = (replicas(''b'' \<mapsto> memory_run c s), Inr ())"
    using assms by (simp add: replay_record_def hinted_handoff_def repair_new_def apply_replica_def mem_ops_def memory_run_eq)
  ultimately show ?thesis
    by (simp add: replay_batch_def queue rq_pending_def rq_delete_def bt_remove_def del: max_Suc_Suc)
qed

definition demo_hash :: "'c repair_hash" where
  "demo_hash kind placement target command key = (if command = None then ''1'' else ''2'')"


text \<open>
  A hint replayed after a later write undoes that write on its target, and quorum reads then return
  the older value: a write of v1 is acknowledged by a and c with b down, a write of v2 by all three once
  b is back, then the repair queue replays the hint of v1 to b and empties itself; from then on b, the
  nearest replica, answers every quorum read with v1 although all replicas had acknowledged v2.
\<close>

theorem replayed_hint_undoes_write:
  "\<exists>co1 w1 co2 w2 replicas r co3.
     co_write mem_ops hash demo_key QuorumLevel (PutKey key v1 :: ('v, 'm) command) None
       \<lparr>co_registry = demo_reg, co_replicas = [''a'' \<mapsto> memory_new, ''c'' \<mapsto> memory_new], co_queue = Some []\<rparr> = (co1, Inr w1) \<and>
     wo_acknowledged_by w1 = [''a'', ''c''] \<and>
     co_write mem_ops hash demo_key QuorumLevel (PutKey key v2) None
       (co1\<lparr>co_replicas := (co_replicas co1)(''b'' \<mapsto> memory_new)\<rparr>) = (co2, Inr w2) \<and>
     wo_acknowledged_by w2 = [''a'', ''b'', ''c''] \<and>
     replay_batch mem_ops 1 (the (co_queue co2)) (co_replicas co2) =
       ([], replicas, \<lparr>rp_attempted = 1, rp_completed = 1, rp_retained = 0\<rparr>) \<and>
     co_read mem_ops hash demo_key QuorumLevel key None
       (co2\<lparr>co_replicas := replicas, co_queue := Some []\<rparr>) = (co3, Inr r) \<and>
     ro_value r = Some v1"
proof -
  let ?put = "PutKey key :: bytes \<Rightarrow> ('v, 'm) command"
  let ?q = "rq_enqueue (hinted_handoff hash demo_key ''b'' (?put v1)) []"
  let ?s1 = "memory_run (?put v1) memory_new" and ?s2 = "memory_run (?put v2) memory_new"
  define r1 where "r1 = (\<lambda>i. if i \<in> {''a'', ''b'', ''c''} then map_option (memory_run (?put v1)) ([''a'' \<mapsto> memory_new, ''c'' \<mapsto> memory_new] i)
    else [''a'' \<mapsto> memory_new, ''c'' \<mapsto> memory_new] i)"
  define r1b where "r1b = r1(''b'' \<mapsto> memory_new)"
  define r2 where "r2 = (\<lambda>i. if i \<in> {''a'', ''b'', ''c''} then map_option (memory_run (?put v2)) (r1b i) else r1b i)"
  define r3 where "r3 = r2(''b'' \<mapsto> memory_run (?put v1) ?s2)"
  have b1: "r1b ''a'' = Some ?s1" "r1b ''c'' = Some ?s1" "r1b ''b'' \<noteq> None" by (simp_all add: r1b_def r1_def)
  have b2: "r2 ''b'' = Some ?s2" by (simp add: r2_def r1b_def)
  have b3: "r3 ''b'' = Some (memory_run (?put v1) ?s2)" "r3 ''c'' = Some (memory_run (?put v2) ?s1)"
    by (simp_all add: r3_def r2_def b1)
  have b4: "memory_get key (memory_run (?put v1) ?s2) = Some v1" by simp
  obtain w1 where w1: "co_write mem_ops hash demo_key QuorumLevel (?put v1) None
      \<lparr>co_registry = demo_reg, co_replicas = [''a'' \<mapsto> memory_new, ''c'' \<mapsto> memory_new], co_queue = Some []\<rparr> =
      (\<lparr>co_registry = demo_reg, co_replicas = r1, co_queue = Some ?q\<rparr>, Inr w1)" "wo_acknowledged_by w1 = [''a'', ''c'']"
    using demo_write [of "[''a'' \<mapsto> memory_new, ''c'' \<mapsto> memory_new]" memory_new memory_new hash "?put v1" "[]"]
    by (auto simp: r1_def)
  obtain w2 where w2: "co_write mem_ops hash demo_key QuorumLevel (?put v2) None
      \<lparr>co_registry = demo_reg, co_replicas = r1b, co_queue = Some ?q\<rparr> =
      (\<lparr>co_registry = demo_reg, co_replicas = r2, co_queue = Some ?q\<rparr>, Inr w2)" "wo_acknowledged_by w2 = [''a'', ''b'', ''c'']"
    using demo_write [OF b1(1,2), of hash "?put v2" ?q] b1(3) unfolding r2_def by auto
  obtain r where r: "co_read mem_ops hash demo_key QuorumLevel key None
      \<lparr>co_registry = demo_reg, co_replicas = r3, co_queue = Some []\<rparr> =
      (\<lparr>co_registry = demo_reg, co_replicas = r3, co_queue = Some []\<rparr>, Inr r)" "ro_value r = Some v1"
    using demo_read [OF b3(1) b4 b3(2), of hash "Some []"] by auto
  note replay = replay_hint [where n = 1 and hash = hash and pk = demo_key and c = "?put v1" and replicas = r2, OF b2]
  let ?co1 = "\<lparr>co_registry = demo_reg, co_replicas = r1, co_queue = Some ?q\<rparr>"
  let ?co2 = "\<lparr>co_registry = demo_reg, co_replicas = r2, co_queue = Some ?q\<rparr>"
  have w2': "co_write mem_ops hash demo_key QuorumLevel (?put v2) None
      (?co1\<lparr>co_replicas := (co_replicas ?co1)(''b'' \<mapsto> memory_new)\<rparr>) = (?co2, Inr w2)"
    using w2(1) unfolding r1b_def by simp
  have replay': "replay_batch mem_ops 1 (the (co_queue ?co2)) (co_replicas ?co2) =
      ([], r3, \<lparr>rp_attempted = 1, rp_completed = 1, rp_retained = 0\<rparr>)"
    using replay unfolding r3_def by simp
  have r': "\<exists>co3. co_read mem_ops hash demo_key QuorumLevel key None
      (?co2\<lparr>co_replicas := r3, co_queue := Some []\<rparr>) = (co3, Inr r)"
    using r(1) by simp
  then show ?thesis using w1 w2' w2(2) replay' r(2) by blast
qed

end
