(* ===== verification/Pack_Stream.thy ===== *)
theory Pack_Stream
  imports Rust_Strings
begin

text \<open>
  PackStream, the binary encoding of Bolt, crates/bolt/src/packstream.rs. An \<open>i64\<close> is a 64-bit word
  read by \<open>sint\<close>, an \<open>f64\<close> the 64-bit word of its bits. An encoder returns the bytes it appends to the
  buffer. A slice is a list, \<open>&data[pos..]\<close> is \<open>drop pos data\<close>; theory Pack_Roundtrip shows that the
  position never leaves the data.
\<close>

unbundle bit_operations_syntax

subsection \<open>Bytes, integers and UTF-8\<close>

text \<open>\<open>to_be_bytes\<close> and \<open>from_be_bytes\<close> of an n-byte integer\<close>

fun be_bytes :: "nat \<Rightarrow> nat \<Rightarrow> bytes" where
  "be_bytes 0 x = []"
| "be_bytes (Suc n) x = be_bytes n (x div 256) @ [word_of_nat x]"

definition be_nat :: "bytes \<Rightarrow> nat" where
  "be_nat bs = foldl (\<lambda>a b. a * 256 + unat b) 0 bs"

definition str_bytes :: "string \<Rightarrow> bytes" where
  "str_bytes s = map (\<lambda>c. word_of_nat (of_char c)) s"

definition bytes_str :: "bytes \<Rightarrow> string" where
  "bytes_str bs = map (\<lambda>b. char_of (unat b)) bs"

text \<open>\<open>core::str\<close>'s validation: an error has the length of the bad sequence, unless the input ended.\<close>

fun utf8_tail :: "nat \<Rightarrow> nat \<Rightarrow> bytes \<Rightarrow> nat option + bytes" where
  "utf8_tail 0 k bs = Inr bs"
| "utf8_tail (Suc n) k [] = Inl None"
| "utf8_tail (Suc n) k (b # bs) = (if 0x80 \<le> b \<and> b \<le> 0xBF then utf8_tail n (k + 1) bs else Inl (Some k))"

definition utf8_second :: "8 word \<Rightarrow> 8 word \<Rightarrow> bool" where
  "utf8_second b c =
     (if b = 0xE0 then 0xA0 \<le> c \<and> c \<le> 0xBF
      else if b = 0xED then 0x80 \<le> c \<and> c \<le> 0x9F
      else if b = 0xF0 then 0x90 \<le> c \<and> c \<le> 0xBF
      else if b = 0xF4 then 0x80 \<le> c \<and> c \<le> 0x8F
      else 0x80 \<le> c \<and> c \<le> 0xBF)"

fun utf8_char :: "bytes \<Rightarrow> nat option + bytes" where
  "utf8_char [] = Inr []"
| "utf8_char (b # bs) =
     (if b \<le> 0x7F then Inr bs
      else if 0xC2 \<le> b \<and> b \<le> 0xDF then utf8_tail 1 1 bs
      else if 0xE0 \<le> b \<and> b \<le> 0xF4
      then (case bs of
              [] \<Rightarrow> Inl None
            | c # bs \<Rightarrow> if utf8_second b c then utf8_tail (if b \<le> 0xEF then 1 else 2) 2 bs else Inl (Some 1))
      else Inl (Some 1))"

lemma utf8_tail_length: "utf8_tail n k bs = Inr r \<Longrightarrow> length r \<le> length bs"
  by (induction n k bs rule: utf8_tail.induct) (auto split: if_splits)

lemma utf8_char_length: "utf8_char bs = Inr r \<Longrightarrow> bs \<noteq> [] \<Longrightarrow> length r < length bs"
  by (cases bs rule: utf8_char.cases) (auto dest!: utf8_tail_length split: if_splits list.splits)

function utf8_error :: "nat \<Rightarrow> bytes \<Rightarrow> (nat \<times> nat option) option" where
  "utf8_error valid_up_to bs =
     (if bs = [] then None
      else (case utf8_char bs of
              Inl error_len \<Rightarrow> Some (valid_up_to, error_len)
            | Inr r \<Rightarrow> utf8_error (valid_up_to + (length bs - length r)) r))"
  by pat_completeness auto

termination
  by (relation "measure (\<lambda>(k, bs). length bs)") (auto dest: utf8_char_length)

declare utf8_error.simps [simp del]

definition utf8_message :: "nat \<times> nat option \<Rightarrow> string" where
  "utf8_message e = (case e of
     (valid_up_to, Some n) \<Rightarrow> ''invalid utf-8 sequence of '' @ dec_string n @ '' bytes from index '' @ dec_string valid_up_to
   | (valid_up_to, None) \<Rightarrow> ''incomplete utf-8 byte sequence from index '' @ dec_string valid_up_to)"

subsection \<open>Values\<close>

datatype bolt_error =
    IoError string
  | PackStreamError string
  | UnsupportedVersion "8 word" "8 word"
  | AuthFailed
  | ProtocolViolation string

datatype pack_value =
    PNull
  | PBool bool
  | PInteger "64 word"
  | PFloat "64 word"
  | PBytes bytes
  | PString string
  | PList "pack_value list"
  | PMap "(string \<times> pack_value) list"
  | PDateTime "64 word" "64 word" "64 word"
  | PLocalDateTime "64 word" "64 word"
  | PStruct "8 word" "pack_value list"

subsection \<open>Encoding\<close>

definition encode_null :: bytes where
  "encode_null = [0xC0]"

definition encode_bool :: "bool \<Rightarrow> bytes" where
  "encode_bool v = [if v then 0xC3 else 0xC2]"

definition encode_int :: "64 word \<Rightarrow> bytes" where
  "encode_int v =
     (if -16 \<le> sint v \<and> sint v \<le> 127 then [ucast v]
      else if -128 \<le> sint v \<and> sint v \<le> 127 then [0xC8, ucast v]
      else if -32768 \<le> sint v \<and> sint v \<le> 32767 then 0xC9 # be_bytes 2 (unat (ucast v :: 16 word))
      else if -2147483648 \<le> sint v \<and> sint v \<le> 2147483647 then 0xCA # be_bytes 4 (unat (ucast v :: 32 word))
      else 0xCB # be_bytes 8 (unat v))"

text \<open>A length after the markers of its three widths; a length of 2 ^ 32 or more is cut.\<close>

definition encode_length :: "8 word \<Rightarrow> 8 word \<Rightarrow> 8 word \<Rightarrow> nat \<Rightarrow> bytes" where
  "encode_length m8 m16 m32 len =
     (if len \<le> 255 then m8 # be_bytes 1 len
      else if len \<le> 65535 then m16 # be_bytes 2 len
      else m32 # be_bytes 4 len)"

definition encode_string :: "string \<Rightarrow> bytes" where
  "encode_string v =
     (let len = length v
      in (if len \<le> 15 then [0x80 OR word_of_nat len] else encode_length 0xD0 0xD1 0xD2 len) @ str_bytes v)"

definition encode_float :: "64 word \<Rightarrow> bytes" where
  "encode_float v = 0xC1 # be_bytes 8 (unat v)"

definition encode_bytes :: "bytes \<Rightarrow> bytes" where
  "encode_bytes v = encode_length 0xCC 0xCD 0xCE (length v) @ v"

definition encode_list_header :: "nat \<Rightarrow> bytes" where
  "encode_list_header len = (if len \<le> 15 then [0x90 OR word_of_nat len] else encode_length 0xD4 0xD5 0xD6 len)"

definition encode_map_header :: "nat \<Rightarrow> bytes" where
  "encode_map_header len = (if len \<le> 15 then [0xA0 OR word_of_nat len] else encode_length 0xD8 0xD9 0xDA len)"

definition encode_struct_header :: "nat \<Rightarrow> 8 word \<Rightarrow> bytes" where
  "encode_struct_header fields signature =
     (if fields \<le> 15 then [0xB0 OR word_of_nat fields]
      else if fields \<le> 255 then 0xDC # be_bytes 1 fields
      else 0xDD # be_bytes 2 fields) @ [signature]"

definition encode_datetime :: "64 word \<Rightarrow> 64 word \<Rightarrow> 64 word \<Rightarrow> bytes" where
  "encode_datetime seconds nanoseconds offset_seconds =
     encode_struct_header 3 0x49 @ encode_int seconds @ encode_int nanoseconds @ encode_int offset_seconds"

definition encode_local_datetime :: "64 word \<Rightarrow> 64 word \<Rightarrow> bytes" where
  "encode_local_datetime seconds nanoseconds =
     encode_struct_header 2 0x64 @ encode_int seconds @ encode_int nanoseconds"

fun encode_value :: "pack_value \<Rightarrow> bytes" where
  "encode_value PNull = encode_null"
| "encode_value (PBool b) = encode_bool b"
| "encode_value (PInteger i) = encode_int i"
| "encode_value (PFloat f) = encode_float f"
| "encode_value (PBytes b) = encode_bytes b"
| "encode_value (PString s) = encode_string s"
| "encode_value (PList items) = encode_list_header (length items) @ concat (map encode_value items)"
| "encode_value (PMap pairs) =
     encode_map_header (length pairs) @ concat (map (\<lambda>(k, v). encode_string k @ encode_value v) pairs)"
| "encode_value (PDateTime seconds nanoseconds offset_seconds) = encode_datetime seconds nanoseconds offset_seconds"
| "encode_value (PLocalDateTime seconds nanoseconds) = encode_local_datetime seconds nanoseconds"
| "encode_value (PStruct signature fields) =
     encode_struct_header (length fields) signature @ concat (map encode_value fields)"

subsection \<open>Decoding\<close>

definition integer_field :: "pack_value \<Rightarrow> 64 word option" where
  "integer_field v = (case v of PInteger i \<Rightarrow> Some i | _ \<Rightarrow> None)"

definition decode_temporal_struct :: "8 word \<Rightarrow> pack_value list \<Rightarrow> pack_value option" where
  "decode_temporal_struct signature fields =
     (if (signature = 0x49 \<or> signature = 0x46) \<and> 3 \<le> length fields
      then (case (integer_field (fields ! 0), integer_field (fields ! 1), integer_field (fields ! 2)) of
              (Some seconds, Some nanoseconds, Some offset_seconds) \<Rightarrow> Some (PDateTime seconds nanoseconds offset_seconds)
            | _ \<Rightarrow> None)
      else if signature = 0x64 \<and> 2 \<le> length fields
      then (case (integer_field (fields ! 0), integer_field (fields ! 1)) of
              (Some seconds, Some nanoseconds) \<Rightarrow> Some (PLocalDateTime seconds nanoseconds)
            | _ \<Rightarrow> None)
      else None)"

text \<open>
  The match on the marker, up to the calls that decode further values: a value that ends here, or the
  offset and the number of the values to come.
\<close>

datatype pack_shape =
    Whole pack_value nat
  | ListBody nat nat
  | MapBody nat nat
  | StructBody nat nat "8 word"

text \<open>\<open>&data[from..to]\<close>, for \<open>to\<close> within the data\<close>

definition byte_slice :: "nat \<Rightarrow> nat \<Rightarrow> bytes \<Rightarrow> bytes" where
  "byte_slice i j data = take (j - i) (drop i data)"

lemma byte_slice_prefix [simp]: "j \<le> c \<Longrightarrow> c \<le> length data \<Longrightarrow> byte_slice i j (take c data @ more) = byte_slice i j data"
  by (simp add: byte_slice_def drop_take)

definition truncated :: "string \<Rightarrow> bolt_error" where
  "truncated what = PackStreamError (''truncated '' @ what)"

definition hex_upper2 :: "nat \<Rightarrow> string" where
  "hex_upper2 n = map (\<lambda>d. ''0123456789ABCDEF'' ! d) [n div 16 mod 16, n mod 16]"

definition fixed_width :: "string \<Rightarrow> nat \<Rightarrow> bytes \<Rightarrow> (nat \<Rightarrow> bolt_error + pack_shape) \<Rightarrow> bolt_error + pack_shape" where
  "fixed_width what width data f =
     (if length data < 1 + width then Inl (truncated what) else f (be_nat (byte_slice 1 (1 + width) data)))"

definition decode_bytes_body :: "bytes \<Rightarrow> nat \<Rightarrow> nat \<Rightarrow> bolt_error + pack_shape" where
  "decode_bytes_body data offset len =
     (if length data < offset + len then Inl (truncated ''bytes body'')
      else Inr (Whole (PBytes (byte_slice offset (offset + len) data)) (offset + len)))"

definition decode_string_body :: "bytes \<Rightarrow> nat \<Rightarrow> nat \<Rightarrow> bolt_error + pack_shape" where
  "decode_string_body data offset len =
     (if length data < offset + len then Inl (truncated ''string body'')
      else (case utf8_error 0 (byte_slice offset (offset + len) data) of
              Some e \<Rightarrow> Inl (PackStreamError (''invalid UTF-8: '' @ utf8_message e))
            | None \<Rightarrow> Inr (Whole (PString (bytes_str (byte_slice offset (offset + len) data))) (offset + len))))"

definition struct_head :: "string \<Rightarrow> nat \<Rightarrow> bytes \<Rightarrow> bolt_error + pack_shape" where
  "struct_head what width data =
     (if length data < 2 + width then Inl (truncated what)
      else Inr (StructBody (2 + width) (be_nat (byte_slice 1 (1 + width) data)) (data ! (1 + width))))"

definition decode_marked :: "8 word \<Rightarrow> bytes \<Rightarrow> bolt_error + pack_shape" where
  "decode_marked b data =
       (if b = 0xC0 then Inr (Whole PNull 1)
        else if b = 0xC3 then Inr (Whole (PBool True) 1)
        else if b = 0xC2 then Inr (Whole (PBool False) 1)
        else if b = 0xC1 then fixed_width ''float64'' 8 data (\<lambda>x. Inr (Whole (PFloat (word_of_nat x)) 9))
        else if b = 0xC8 then fixed_width ''int8'' 1 data (\<lambda>x. Inr (Whole (PInteger (scast (word_of_nat x :: 8 word))) 2))
        else if b = 0xC9 then fixed_width ''int16'' 2 data (\<lambda>x. Inr (Whole (PInteger (scast (word_of_nat x :: 16 word))) 3))
        else if b = 0xCA then fixed_width ''int32'' 4 data (\<lambda>x. Inr (Whole (PInteger (scast (word_of_nat x :: 32 word))) 5))
        else if b = 0xCB then fixed_width ''int64'' 8 data (\<lambda>x. Inr (Whole (PInteger (word_of_nat x)) 9))
        else if b = 0xCC then fixed_width ''bytes8 header'' 1 data (decode_bytes_body data 2)
        else if b = 0xCD then fixed_width ''bytes16 header'' 2 data (decode_bytes_body data 3)
        else if b = 0xCE then fixed_width ''bytes32 header'' 4 data (decode_bytes_body data 5)
        else if b = 0xD0 then fixed_width ''string8 header'' 1 data (decode_string_body data 2)
        else if b = 0xD1 then fixed_width ''string16 header'' 2 data (decode_string_body data 3)
        else if b = 0xD2 then fixed_width ''string32 header'' 4 data (decode_string_body data 5)
        else if b = 0xD4 then fixed_width ''list8 header'' 1 data (\<lambda>n. Inr (ListBody 2 n))
        else if b = 0xD5 then fixed_width ''list16 header'' 2 data (\<lambda>n. Inr (ListBody 3 n))
        else if b = 0xD6 then fixed_width ''list32 header'' 4 data (\<lambda>n. Inr (ListBody 5 n))
        else if b = 0xD8 then fixed_width ''map8 header'' 1 data (\<lambda>n. Inr (MapBody 2 n))
        else if b = 0xD9 then fixed_width ''map16 header'' 2 data (\<lambda>n. Inr (MapBody 3 n))
        else if b = 0xDA then fixed_width ''map32 header'' 4 data (\<lambda>n. Inr (MapBody 5 n))
        else if b = 0xDC then struct_head ''struct8 header'' 1 data
        else if b = 0xDD then struct_head ''struct16 header'' 2 data
        else if b AND 0xF0 = 0x80 then decode_string_body data 1 (unat (b AND 0x0F))
        else if b AND 0xF0 = 0x90 then Inr (ListBody 1 (unat (b AND 0x0F)))
        else if b AND 0xF0 = 0xA0 then Inr (MapBody 1 (unat (b AND 0x0F)))
        else if b AND 0xF0 = 0xB0
        then (if length data < 2 then Inl (truncated ''tiny struct'')
              else Inr (StructBody 2 (unat (b AND 0x0F)) (data ! 1)))
        else if b \<le> 0x7F then Inr (Whole (PInteger (ucast b)) 1)
        else if 0xF0 \<le> b then Inr (Whole (PInteger (scast b)) 1)
        else Inl (PackStreamError (''unknown or reserved marker: 0x'' @ hex_upper2 (unat b))))"

definition decode_marker :: "bytes \<Rightarrow> bolt_error + pack_shape" where
  "decode_marker data =
     (case data of
        [] \<Rightarrow> Inl (PackStreamError ''unexpected end of data'')
      | b # _ \<Rightarrow> decode_marked b data)"

text \<open>
  A shape reads a prefix of the data of at least one byte, and nothing after it.
\<close>

definition shape_size :: "pack_shape \<Rightarrow> nat" where
  "shape_size sh = (case sh of Whole v n \<Rightarrow> n | ListBody k n \<Rightarrow> k | MapBody k n \<Rightarrow> k | StructBody k n g \<Rightarrow> k)"

definition local_read :: "(bytes \<Rightarrow> bolt_error + pack_shape) \<Rightarrow> bool" where
  "local_read g \<longleftrightarrow> (\<forall>data sh. data \<noteq> [] \<longrightarrow> g data = Inr sh \<longrightarrow>
     0 < shape_size sh \<and> shape_size sh \<le> length data \<and> (\<forall>more. g (take (shape_size sh) data @ more) = Inr sh))"

lemma local_read_if: "(c \<Longrightarrow> local_read f) \<Longrightarrow> (\<not> c \<Longrightarrow> local_read g) \<Longrightarrow> local_read (\<lambda>data. if c then f data else g data)"
  by (cases c) simp_all

lemma local_read_const: "shape_size sh = 1 \<Longrightarrow> local_read (\<lambda>data. Inr sh)"
  by (auto simp: local_read_def Suc_le_eq)

lemma local_read_error: "local_read (\<lambda>data. Inl e)"
  by (simp add: local_read_def)

lemma local_read_fixed:
  assumes "\<And>x. shape_size (h x) = 1 + w"
  shows "local_read (\<lambda>data. fixed_width what w data (\<lambda>x. Inr (h x)))"
  using assms by (auto simp: local_read_def fixed_width_def split: if_splits)

lemma local_read_bytes:
  assumes "k = 1 + w"
  shows "local_read (\<lambda>data. fixed_width what w data (decode_bytes_body data k))"
  using assms
  by (auto simp: local_read_def fixed_width_def decode_bytes_body_def shape_size_def split: if_splits)

lemma local_read_string:
  assumes "k = 1 + w"
  shows "local_read (\<lambda>data. fixed_width what w data (decode_string_body data k))"
  using assms
  by (auto simp: local_read_def fixed_width_def decode_string_body_def shape_size_def split: if_splits option.splits)

lemma local_read_tiny_string: "local_read (\<lambda>data. decode_string_body data 1 n)"
  by (auto simp: local_read_def decode_string_body_def shape_size_def split: if_splits option.splits)

lemma local_read_struct: "local_read (struct_head what w)"
  by (auto simp: local_read_def struct_head_def shape_size_def nth_append split: if_splits)

lemma local_read_tiny_struct:
  "local_read (\<lambda>data. if length data < 2 then Inl e else Inr (StructBody 2 n (data ! 1)))"
  by (auto simp: local_read_def shape_size_def nth_append split: if_splits)

lemma local_read_marked: "local_read (decode_marked b)"
  unfolding decode_marked_def [abs_def]
  by (intro local_read_if local_read_fixed local_read_bytes local_read_string local_read_tiny_string
      local_read_struct local_read_tiny_struct local_read_error local_read_const) (simp_all add: shape_size_def)

lemma decode_marker_local:
  assumes "decode_marker data = Inr sh"
  shows "0 < shape_size sh" "shape_size sh \<le> length data" "decode_marker (take (shape_size sh) data @ more) = Inr sh"
proof -
  obtain b rest where data: "data = b # rest" using assms by (auto simp: decode_marker_def split: list.splits)
  then have "decode_marked b data = Inr sh" using assms by (simp add: decode_marker_def)
  then have *: "0 < shape_size sh \<and> shape_size sh \<le> length data \<and>
      decode_marked b (take (shape_size sh) data @ more) = Inr sh"
    using local_read_marked [of b] data unfolding local_read_def by blast
  then show "0 < shape_size sh" "shape_size sh \<le> length data" by auto
  obtain n where "shape_size sh = Suc n" using * by (cases "shape_size sh") auto
  then show "decode_marker (take (shape_size sh) data @ more) = Inr sh"
    using * data by (simp add: decode_marker_def)
qed

lemma decode_marker_bounds: "decode_marker data = Inr sh \<Longrightarrow> 0 < shape_size sh \<and> shape_size sh \<le> length data"
  by (simp add: decode_marker_local)

text \<open>
  \<open>decode\<close> with the loops of the list, map and struct bodies; each returns the bytes it has consumed.
\<close>

function decode :: "bytes \<Rightarrow> bolt_error + pack_value \<times> nat"
  and decode_items :: "nat \<Rightarrow> bytes \<Rightarrow> bolt_error + pack_value list \<times> nat"
  and decode_pairs :: "nat \<Rightarrow> bytes \<Rightarrow> bolt_error + (string \<times> pack_value) list \<times> nat" where
  "decode data =
     (case decode_marker data of
        Inl e \<Rightarrow> Inl e
      | Inr (Whole v n) \<Rightarrow> Inr (v, n)
      | Inr (ListBody offset count) \<Rightarrow>
          (case decode_items count (drop offset data) of
             Inl e \<Rightarrow> Inl e | Inr (items, n) \<Rightarrow> Inr (PList items, offset + n))
      | Inr (MapBody offset count) \<Rightarrow>
          (case decode_pairs count (drop offset data) of
             Inl e \<Rightarrow> Inl e | Inr (pairs, n) \<Rightarrow> Inr (PMap pairs, offset + n))
      | Inr (StructBody offset count signature) \<Rightarrow>
          (case decode_items count (drop offset data) of
             Inl e \<Rightarrow> Inl e
           | Inr (fields, n) \<Rightarrow>
               (case decode_temporal_struct signature fields of
                  Some v \<Rightarrow> Inr (v, offset + n)
                | None \<Rightarrow> Inr (PStruct signature fields, offset + n))))"
| "decode_items 0 data = Inr ([], 0)"
| "decode_items (Suc count) data =
     (case decode data of
        Inl e \<Rightarrow> Inl e
      | Inr (v, consumed) \<Rightarrow>
          (case decode_items count (drop consumed data) of
             Inl e \<Rightarrow> Inl e | Inr (items, n) \<Rightarrow> Inr (v # items, consumed + n)))"
| "decode_pairs 0 data = Inr ([], 0)"
| "decode_pairs (Suc count) data =
     (case decode data of
        Inl e \<Rightarrow> Inl e
      | Inr (PString key, key_consumed) \<Rightarrow>
          (case decode (drop key_consumed data) of
             Inl e \<Rightarrow> Inl e
           | Inr (v, val_consumed) \<Rightarrow>
               (case decode_pairs count (drop val_consumed (drop key_consumed data)) of
                  Inl e \<Rightarrow> Inl e | Inr (pairs, n) \<Rightarrow> Inr ((key, v) # pairs, key_consumed + val_consumed + n)))
      | Inr _ \<Rightarrow> Inl (PackStreamError ''map key must be string''))"
  by pat_completeness auto

termination
proof (relation "measures [\<lambda>x. case x of Inl data \<Rightarrow> length data | Inr (Inl (n, data)) \<Rightarrow> length data | Inr (Inr (n, data)) \<Rightarrow> length data,
    \<lambda>x. case x of Inl data \<Rightarrow> 0 | Inr (Inl (n, data)) \<Rightarrow> n | Inr (Inr (n, data)) \<Rightarrow> n]", goal_cases)
  case 1
  then show ?case by simp
qed (auto dest!: decode_marker_bounds simp: shape_size_def)

declare decode.simps [simp del]

end
