(* ===== verification/Pack_Roundtrip.thy ===== *)
theory Pack_Roundtrip
  imports Pack_Stream
begin

text \<open>
  What decoding and encoding promise each other, crates/bolt/src/packstream.rs: the decoder reads a
  prefix of its input and nothing else, every encoded value decodes back, and no truncation of an
  encoding decodes.
\<close>

unbundle bit_operations_syntax

subsection \<open>The decoder reads a prefix\<close>

lemma read_on: "k \<le> length data \<Longrightarrow> take (k + m) data @ more = take k data @ take m (drop k data) @ more"
  by (simp add: take_add)

lemma drop_read [simp]: "k \<le> length data \<Longrightarrow> drop k (take k data @ rest) = rest"
  by simp

lemma decode_local:
  "(\<forall>v n. decode data = Inr (v, n) \<longrightarrow> 0 < n \<and> n \<le> length data \<and> (\<forall>more. decode (take n data @ more) = Inr (v, n)))"
  "(\<forall>vs n. decode_items count data' = Inr (vs, n) \<longrightarrow> n \<le> length data' \<and> length vs = count \<and>
     (\<forall>more. decode_items count (take n data' @ more) = Inr (vs, n)))"
  "(\<forall>kvs n. decode_pairs count' data'' = Inr (kvs, n) \<longrightarrow> n \<le> length data'' \<and> length kvs = count' \<and>
     (\<forall>more. decode_pairs count' (take n data'' @ more) = Inr (kvs, n)))"
proof (induction data and count data' and count' data'' rule: decode_decode_items_decode_pairs.induct)
  case (1 data)
  show ?case
  proof (intro allI impI)
    fix v n assume a: "decode data = Inr (v, n)"
    then obtain sh where sh: "decode_marker data = Inr sh" by (subst (asm) decode.simps) (auto split: sum.splits)
    note b = decode_marker_bounds [OF sh] and p = decode_marker_local(3) [OF sh]
    show "0 < n \<and> n \<le> length data \<and> (\<forall>more. decode (take n data @ more) = Inr (v, n))"
    proof (cases sh)
      case (Whole w k)
      then show ?thesis using a b p by (simp add: decode.simps [of data] decode.simps [of "take _ _ @ _"] sh shape_size_def)
    next
      case (ListBody k count)
      have "\<forall>vs n. decode_items count (drop k data) = Inr (vs, n) \<longrightarrow> n \<le> length (drop k data) \<and> length vs = count \<and>
          (\<forall>more. decode_items count (take n (drop k data) @ more) = Inr (vs, n))"
        using 1(1) sh ListBody by blast
      with a b p ListBody sh show ?thesis
        by (auto simp: decode.simps [of data] decode.simps [of "take _ _ @ _"] shape_size_def read_on simp del: take_append drop_append
            split: sum.splits)
    next
      case (MapBody k count)
      have "\<forall>kvs n. decode_pairs count (drop k data) = Inr (kvs, n) \<longrightarrow> n \<le> length (drop k data) \<and> length kvs = count \<and>
          (\<forall>more. decode_pairs count (take n (drop k data) @ more) = Inr (kvs, n))"
        using 1(2) sh MapBody by blast
      with a b p MapBody sh show ?thesis
        by (auto simp: decode.simps [of data] decode.simps [of "take _ _ @ _"] shape_size_def read_on simp del: take_append drop_append
            split: sum.splits)
    next
      case (StructBody k count g)
      have "\<forall>vs n. decode_items count (drop k data) = Inr (vs, n) \<longrightarrow> n \<le> length (drop k data) \<and> length vs = count \<and>
          (\<forall>more. decode_items count (take n (drop k data) @ more) = Inr (vs, n))"
        using 1(3) sh StructBody by blast
      with a b p StructBody sh show ?thesis
        by (auto simp: decode.simps [of data] decode.simps [of "take _ _ @ _"] shape_size_def read_on simp del: take_append drop_append
            split: sum.splits option.splits)
    qed
  qed
next
  case (2 data)
  then show ?case by simp
next
  case (3 count data)
  show ?case
  proof (intro allI impI)
    fix vs n assume a: "decode_items (Suc count) data = Inr (vs, n)"
    then obtain v k vs' m where d: "decode data = Inr (v, k)" "decode_items count (drop k data) = Inr (vs', m)"
      and eq: "vs = v # vs'" "n = k + m"
      by (auto split: sum.splits)
    have 1: "0 < k" "k \<le> length data" "\<And>more. decode (take k data @ more) = Inr (v, k)"
      using 3(1) d(1) by blast+
    have 2: "m \<le> length (drop k data)" "length vs' = count" "\<And>more. decode_items count (take m (drop k data) @ more) = Inr (vs', m)"
      using 3(2)[OF d(1) refl] d(2) by blast+
    show "n \<le> length data \<and> length vs = Suc count \<and> (\<forall>more. decode_items (Suc count) (take n data @ more) = Inr (vs, n))"
      using 1 2 by (simp add: eq read_on del: take_append drop_append)
  qed
next
  case (4 data)
  then show ?case by simp
next
  case (5 count data)
  show ?case
  proof (intro allI impI)
    fix kvs n assume a: "decode_pairs (Suc count) data = Inr (kvs, n)"
    then obtain key k v j kvs' m where d: "decode data = Inr (PString key, k)" "decode (drop k data) = Inr (v, j)"
      "decode_pairs count (drop j (drop k data)) = Inr (kvs', m)"
      and eq: "kvs = (key, v) # kvs'" "n = k + j + m"
      by (auto simp del: drop_drop split: sum.splits pack_value.splits)
    have 1: "0 < k" "k \<le> length data" "\<And>more. decode (take k data @ more) = Inr (PString key, k)"
      using 5(1) d(1) by blast+
    have 2: "0 < j" "j \<le> length (drop k data)" "\<And>more. decode (take j (drop k data) @ more) = Inr (v, j)"
      using 5(2)[OF d(1) refl refl] d(2) by blast+
    have 3: "m \<le> length (drop j (drop k data))" "length kvs' = count"
      "\<And>more. decode_pairs count (take m (drop j (drop k data)) @ more) = Inr (kvs', m)"
      using 5(3)[OF d(1) refl refl d(2) refl] d(3) by blast+
    have "take n data @ more = take k data @ take j (drop k data) @ take m (drop j (drop k data)) @ more" for more
      using 1(2) 2(2) by (simp add: eq read_on add.assoc del: drop_drop)
    then show "n \<le> length data \<and> length kvs = Suc count \<and> (\<forall>more. decode_pairs (Suc count) (take n data @ more) = Inr (kvs, n))"
      using 1 2 3 by (simp add: eq(1) del: take_append drop_append drop_drop) (simp add: eq(2))
  qed
qed

subsection \<open>Integers, lengths and strings\<close>

lemma length_pack_bytes [simp]: "length (be_bytes n x) = n"
  by (induction n arbitrary: x) simp_all

lemma be_nat_bytes [simp]: "be_nat (be_bytes n x) = x mod 256 ^ n"
proof (induction n arbitrary: x)
  case (Suc n)
  have "be_nat (be_bytes (Suc n) x) = be_nat (be_bytes n (x div 256)) * 256 + x mod 256"
    by (simp add: be_nat_def unat_of_nat)
  also have "\<dots> = x mod 256 ^ Suc n" by (simp add: Suc mod_mult2_eq mult.commute)
  finally show ?case .
qed (simp add: be_nat_def)

lemma str_bytes_simps [simp]: "length (str_bytes s) = length s" "bytes_str (str_bytes s) = s"
  by (induction s) (simp_all add: str_bytes_def bytes_str_def unat_of_nat)

lemma sint_ucast:
  fixes v :: "64 word"
  assumes "LENGTH('a::len) \<le> 64" "- (2 ^ (LENGTH('a) - 1)) \<le> sint v" "sint v < 2 ^ (LENGTH('a) - 1)"
  shows "sint (ucast v :: 'a word) = sint v"
proof -
  have n: "LENGTH('a) - 1 < 64" using assms(1) by (simp add: less_le_trans [OF _ assms(1)])
  have "sint (ucast v :: 'a word) = signed_take_bit (LENGTH('a) - 1) (uint v)"
    by (simp add: signed_ucast_eq)
  also have "\<dots> = signed_take_bit (LENGTH('a) - 1) (sint v)"
    using assms(1) n by (simp add: signed_take_bit_eq_iff_take_bit_eq sint_uint)
  also have "\<dots> = sint v"
    using assms(2,3) by (simp add: signed_take_bit_int_eq_self)
  finally show ?thesis .
qed

lemma scast_ucast:
  fixes v :: "64 word"
  assumes "LENGTH('a::len) \<le> 64" "- (2 ^ (LENGTH('a) - 1)) \<le> sint v" "sint v < 2 ^ (LENGTH('a) - 1)"
  shows "(scast (ucast v :: 'a word) :: 64 word) = v"
proof -
  have "(word_of_int (sint (ucast v :: 'a word)) :: 64 word) = word_of_int (sint v)"
    by (simp only: sint_ucast [OF assms])
  then show ?thesis by simp
qed

lemma byte_slice_header [simp]: "length bs = w \<Longrightarrow> byte_slice (Suc 0) (Suc w) (m # bs @ rest) = bs"
  by (simp add: byte_slice_def)

lemma byte_slice_byte [simp]: "byte_slice (Suc 0) (Suc (Suc 0)) (m # b # rest) = [b]"
  by (simp add: byte_slice_def)

lemma byte_slice_body [simp]:
  assumes "n = length bs"
  shows "length h = 2 \<Longrightarrow> byte_slice 3 (3 + n) (m # h @ bs @ rest) = bs"
    "length h = 4 \<Longrightarrow> byte_slice 5 (5 + n) (m # h @ bs @ rest) = bs"
    "length h = Suc 0 \<Longrightarrow> byte_slice 2 (Suc (Suc n)) (m # h @ bs @ rest) = bs"
  using assms by (simp_all add: byte_slice_def drop_Cons')

lemma be_nat_one [simp]: "be_nat [b] = unat b"
  by (simp add: be_nat_def)

lemma markers_nibble:
  "b AND 0xF0 \<in> {0x80, 0x90, 0xA0, 0xB0} \<Longrightarrow> decode_marked b data =
     (if b AND 0xF0 = 0x80 then decode_string_body data 1 (unat (b AND 0x0F))
      else if b AND 0xF0 = 0x90 then Inr (ListBody 1 (unat (b AND 0x0F)))
      else if b AND 0xF0 = 0xA0 then Inr (MapBody 1 (unat (b AND 0x0F)))
      else if length data < 2 then Inl (truncated ''tiny struct'')
      else Inr (StructBody 2 (unat (b AND 0x0F)) (data ! 1)))"
proof -
  assume a: "b AND 0xF0 \<in> {0x80, 0x90, 0xA0, 0xB0}"
  then have "b \<notin> {0xC0, 0xC1, 0xC2, 0xC3, 0xC8, 0xC9, 0xCA, 0xCB, 0xCC, 0xCD, 0xCE, 0xD0, 0xD1, 0xD2, 0xD4,
      0xD5, 0xD6, 0xD8, 0xD9, 0xDA, 0xDC, 0xDD}"
    by auto
  with a show ?thesis by (auto simp: decode_marked_def)
qed

lemma tiny_nibble:
  assumes "n \<le> 15" "base \<in> {0x80, 0x90, 0xA0, 0xB0 :: 8 word}"
  shows "(base OR word_of_nat n) AND 0xF0 = base" "unat ((base OR word_of_nat n) AND 0x0F) = n"
proof -
  have "list_all (\<lambda>n. \<forall>base\<in>{0x80, 0x90, 0xA0, 0xB0 :: 8 word}. (base OR word_of_nat n) AND 0xF0 = base \<and>
      unat ((base OR word_of_nat n) AND 0x0F) = n) [0, 1, 2, 3, 4, 5, 6, 7, 8, 9, 10, 11, 12, 13, 14, 15]"
    by simp
  from below_16 [OF this, of n] assms
  show "(base OR word_of_nat n) AND 0xF0 = base" "unat ((base OR word_of_nat n) AND 0x0F) = n" by auto
qed

lemma high_nibble:
  assumes "b \<le> 0x7F \<or> (0xF0 :: 8 word) \<le> b" shows "b AND 0xF0 \<notin> {0x80, 0x90, 0xA0, 0xB0}"
proof
  assume a: "b AND 0xF0 \<in> {0x80, 0x90, 0xA0, 0xB0}"
  have "b AND 0xF0 \<le> b" by (rule word_and_le2)
  then have "\<not> b \<le> 0x7F" using a by (auto dest: order_trans)
  then have big: "0xF0 \<le> unat b" using assms by (simp add: word_le_nat_alt)
  have "(b AND 0xF0) AND (b AND 0x0F) = b AND (0xF0 AND 0x0F)" by (simp only: and.assoc and.left_commute and.commute and.left_idem)
  then have "(b AND 0xF0) + (b AND 0x0F) = (b AND 0xF0) OR (b AND 0x0F)" by (intro disjunctive_add_eq_or) simp
  also have "\<dots> = b AND (0xF0 OR 0x0F)" by (simp only: bit.conj_disj_distrib)
  also have "(0xF0 OR 0x0F :: 8 word) = - 1" by simp
  finally have sum: "(b AND 0xF0) + (b AND 0x0F) = b" by simp
  have "b AND 0x0F \<le> 0x0F" by (rule word_and_le1)
  then have low: "unat (b AND 0x0F) \<le> 15" by (simp add: word_le_nat_alt)
  have high: "unat (b AND 0xF0) \<le> 176" using a by auto
  have "unat b = unat ((b AND 0xF0) + (b AND 0x0F))" using sum by simp
  also have "\<dots> = unat (b AND 0xF0) + unat (b AND 0x0F)" using low high by (simp add: unat_word_ariths)
  finally show False using big low high by simp
qed

lemma scast_low:
  assumes "b \<le> (0x7F :: 8 word)" shows "(scast b :: 64 word) = ucast b"
proof -
  have "uint b \<le> 127" using assms by (simp add: word_le_def)
  moreover have "- 128 \<le> uint b" by (rule order_trans [OF _ uint_ge_0]) simp
  ultimately have "sint b = uint b" by (simp add: sint_uint signed_take_bit_int_eq_self)
  then have "(word_of_int (sint b) :: 64 word) = word_of_int (uint b)" by simp
  then show ?thesis by simp
qed

lemma tiny_marked:
  assumes "b \<le> 0x7F \<or> 0xF0 \<le> b" shows "decode_marked b data = Inr (Whole (PInteger (scast b)) 1)"
proof -
  have "b \<notin> {0xC0, 0xC1, 0xC2, 0xC3, 0xC8, 0xC9, 0xCA, 0xCB, 0xCC, 0xCD, 0xCE, 0xD0, 0xD1, 0xD2, 0xD4,
      0xD5, 0xD6, 0xD8, 0xD9, 0xDA, 0xDC, 0xDD}"
    using assms by auto
  with assms high_nibble [OF assms] scast_low show ?thesis by (auto simp: decode_marked_def)
qed

lemma tiny_range:
  assumes "- 16 \<le> sint b" "sint b \<le> 127" shows "b \<le> 0x7F \<or> (0xF0 :: 8 word) \<le> b"
proof -
  have u: "uint b = sint b mod 256" by (simp add: uint_sint take_bit_eq_mod)
  show ?thesis
  proof (cases "0 \<le> sint b")
    case True
    then have "uint b \<le> 127" using u assms(2) by simp
    then show ?thesis by (simp add: word_le_def)
  next
    case False
    then have "(sint b + 256) mod 256 = sint b + 256" using assms(1) by (intro mod_pos_pos_trivial) simp_all
    then have "sint b mod 256 = sint b + 256" by simp
    then show ?thesis using u assms(1) by (simp add: word_le_def)
  qed
qed

subsection \<open>Round trips\<close>

text \<open>The decoder's first step on the header of an encoding.\<close>

lemma decode_marker_Cons: "decode_marker (b # rest) = decode_marked b (b # rest)"
  by (simp add: decode_marker_def)

lemma word_of_be [simp]:
  "word_of_nat (unat (x :: 16 word) mod 65536) = x" "word_of_nat (unat (y :: 32 word) mod 4294967296) = y"
  "word_of_nat (unat (z :: 64 word) mod 18446744073709551616) = z"
  using unsigned_less [of x, where 'a = nat] unsigned_less [of y, where 'a = nat] unsigned_less [of z, where 'a = nat]
  by simp_all

lemma decode_whole: "decode_marker data = Inr (Whole v n) \<Longrightarrow> decode data = Inr (v, n)"
  by (subst decode.simps) simp

lemma decode_marked_simps:
  "decode_marked 0xC0 data = Inr (Whole PNull 1)"
  "decode_marked 0xC3 data = Inr (Whole (PBool True) 1)"
  "decode_marked 0xC2 data = Inr (Whole (PBool False) 1)"
  "decode_marked 0xC1 data = fixed_width ''float64'' 8 data (\<lambda>x. Inr (Whole (PFloat (word_of_nat x)) 9))"
  "decode_marked 0xC8 data = fixed_width ''int8'' 1 data (\<lambda>x. Inr (Whole (PInteger (scast (word_of_nat x :: 8 word))) 2))"
  "decode_marked 0xC9 data = fixed_width ''int16'' 2 data (\<lambda>x. Inr (Whole (PInteger (scast (word_of_nat x :: 16 word))) 3))"
  "decode_marked 0xCA data = fixed_width ''int32'' 4 data (\<lambda>x. Inr (Whole (PInteger (scast (word_of_nat x :: 32 word))) 5))"
  "decode_marked 0xCB data = fixed_width ''int64'' 8 data (\<lambda>x. Inr (Whole (PInteger (word_of_nat x)) 9))"
  "decode_marked 0xCC data = fixed_width ''bytes8 header'' 1 data (decode_bytes_body data 2)"
  "decode_marked 0xCD data = fixed_width ''bytes16 header'' 2 data (decode_bytes_body data 3)"
  "decode_marked 0xCE data = fixed_width ''bytes32 header'' 4 data (decode_bytes_body data 5)"
  "decode_marked 0xD0 data = fixed_width ''string8 header'' 1 data (decode_string_body data 2)"
  "decode_marked 0xD1 data = fixed_width ''string16 header'' 2 data (decode_string_body data 3)"
  "decode_marked 0xD2 data = fixed_width ''string32 header'' 4 data (decode_string_body data 5)"
  "decode_marked 0xD4 data = fixed_width ''list8 header'' 1 data (\<lambda>n. Inr (ListBody 2 n))"
  "decode_marked 0xD5 data = fixed_width ''list16 header'' 2 data (\<lambda>n. Inr (ListBody 3 n))"
  "decode_marked 0xD6 data = fixed_width ''list32 header'' 4 data (\<lambda>n. Inr (ListBody 5 n))"
  "decode_marked 0xD8 data = fixed_width ''map8 header'' 1 data (\<lambda>n. Inr (MapBody 2 n))"
  "decode_marked 0xD9 data = fixed_width ''map16 header'' 2 data (\<lambda>n. Inr (MapBody 3 n))"
  "decode_marked 0xDA data = fixed_width ''map32 header'' 4 data (\<lambda>n. Inr (MapBody 5 n))"
  "decode_marked 0xDC data = struct_head ''struct8 header'' 1 data"
  "decode_marked 0xDD data = struct_head ''struct16 header'' 2 data"
  by (simp_all add: decode_marked_def)

lemma fixed_width_be:
  "fixed_width what w (m # be_bytes w x @ rest) f = f (x mod 256 ^ w)"
  by (simp add: fixed_width_def)

lemma fixed_width_be1: "fixed_width what (Suc 0) (m # be_bytes (Suc 0) x @ rest) f = f (x mod 256)"
  using fixed_width_be [of what 1 m x rest f] by (simp del: be_bytes.simps)

lemmas marker_steps = decode_marker_Cons decode_marked_simps fixed_width_be1
  fixed_width_be [of _ 2, simplified] fixed_width_be [of _ 4, simplified] fixed_width_be [of _ 8, simplified]

lemma word_of_byte: "word_of_nat (unat (x :: 8 word) mod 256) = x"
  using unsigned_less [of x, where 'a = nat] by simp

lemma decode_int [simp]: "decode (encode_int v @ rest) = Inr (PInteger v, length (encode_int v))"
proof -
  let ?in = "\<lambda>n. - (2 ^ n) \<le> sint v \<and> sint v < 2 ^ n"
  consider "- 16 \<le> sint v" "sint v \<le> 127" | "sint v < - 16" "?in 7" | "\<not> ?in 7" "?in 15" | "\<not> ?in 15" "?in 31" | "\<not> ?in 31"
    by fastforce
  then show ?thesis
  proof cases
    case 1
    let ?b = "ucast v :: 8 word"
    have b: "(scast ?b :: 64 word) = v" using 1 by (intro scast_ucast) simp_all
    have "sint ?b = sint v" using 1 by (intro sint_ucast) simp_all
    with 1 tiny_range [of ?b] tiny_marked [of ?b] show ?thesis
      by (intro decode_whole) (simp add: encode_int_def decode_marker_Cons b)
  next
    case 2
    then have "encode_int v = [0xC8, ucast v]" by (simp add: encode_int_def)
    then show ?thesis using 2 by (intro decode_whole) (simp add: decode_marker_Cons decode_marked_simps fixed_width_def scast_ucast)
  next
    case 3
    then have "encode_int v = 0xC9 # be_bytes 2 (unat (ucast v :: 16 word))" by (auto simp: encode_int_def)
    then show ?thesis using 3 by (intro decode_whole) (simp add: marker_steps scast_ucast)
  next
    case 4
    then have "encode_int v = 0xCA # be_bytes 4 (unat (ucast v :: 32 word))" by (auto simp: encode_int_def)
    then show ?thesis using 4 by (intro decode_whole) (simp add: marker_steps scast_ucast)
  next
    case 5
    then have "encode_int v = 0xCB # be_bytes 8 (unat v)" by (auto simp: encode_int_def)
    then show ?thesis by (intro decode_whole) (simp add: marker_steps)
  qed
qed

lemma decode_list_header:
  assumes "n < 2 ^ 32"
  shows "decode_marker (encode_list_header n @ rest) = Inr (ListBody (length (encode_list_header n)) n)"
  using assms tiny_nibble [of n "0x90"]
  by (auto simp: encode_list_header_def encode_length_def marker_steps markers_nibble decode_marker_Cons simp del: be_bytes.simps)

lemma decode_map_header:
  assumes "n < 2 ^ 32"
  shows "decode_marker (encode_map_header n @ rest) = Inr (MapBody (length (encode_map_header n)) n)"
  using assms tiny_nibble [of n "0xA0"]
  by (auto simp: encode_map_header_def encode_length_def marker_steps markers_nibble decode_marker_Cons simp del: be_bytes.simps)

lemma decode_struct_header:
  assumes "n < 2 ^ 16"
  shows "decode_marker (encode_struct_header n g @ rest) = Inr (StructBody (length (encode_struct_header n g)) n g)"
  using assms tiny_nibble [of n "0xB0"]
  by (auto simp: encode_struct_header_def marker_steps markers_nibble decode_marker_Cons struct_head_def nth_append simp del: be_bytes.simps)

lemma decode_string [simp]:
  assumes "length s < 2 ^ 32" "utf8_error 0 (str_bytes s) = None"
  shows "decode (encode_string s @ rest) = Inr (PString s, length (encode_string s))"
  using assms tiny_nibble [of "length s" "0x80"]
  by (intro decode_whole) (auto simp: encode_string_def encode_length_def marker_steps markers_nibble decode_marker_Cons Let_def
      decode_string_body_def simp del: be_bytes.simps)

lemma decode_bytes [simp]:
  assumes "length b < 2 ^ 32"
  shows "decode (encode_bytes b @ rest) = Inr (PBytes b, length (encode_bytes b))"
  using assms
  by (intro decode_whole) (auto simp: encode_bytes_def encode_length_def marker_steps decode_bytes_body_def simp del: be_bytes.simps)

definition str_ok :: "string \<Rightarrow> bool" where
  "str_ok s \<longleftrightarrow> length s < 2 ^ 32 \<and> utf8_error 0 (str_bytes s) = None"

text \<open>The values whose lengths fit their headers; a Rust string is always valid UTF-8.\<close>

fun pack_ok :: "pack_value \<Rightarrow> bool" where
  "pack_ok (PBytes b) = (length b < 2 ^ 32)"
| "pack_ok (PString s) = str_ok s"
| "pack_ok (PList items) = (length items < 2 ^ 32 \<and> list_all pack_ok items)"
| "pack_ok (PMap pairs) = (length pairs < 2 ^ 32 \<and> list_all (\<lambda>(k, v). str_ok k \<and> pack_ok v) pairs)"
| "pack_ok (PStruct signature fields) = (length fields < 2 ^ 16 \<and> list_all pack_ok fields)"
| "pack_ok _ = True"

text \<open>A structure with the signature and the integers of a date decodes as that date.\<close>

fun pack_norm :: "pack_value \<Rightarrow> pack_value" where
  "pack_norm (PList items) = PList (map pack_norm items)"
| "pack_norm (PMap pairs) = PMap (map (\<lambda>(k, v). (k, pack_norm v)) pairs)"
| "pack_norm (PStruct signature fields) =
     (case decode_temporal_struct signature (map pack_norm fields) of
        Some v \<Rightarrow> v | None \<Rightarrow> PStruct signature (map pack_norm fields))"
| "pack_norm v = v"

lemma decode_items_all:
  assumes "\<And>x rest. x \<in> set xs \<Longrightarrow> decode (encode_value x @ rest) = Inr (f x, length (encode_value x))"
  shows "decode_items (length xs) (concat (map encode_value xs) @ rest) =
    Inr (map f xs, length (concat (map encode_value xs)))"
  using assms by (induction xs) simp_all

lemma decode_pairs_all:
  assumes "\<And>k v rest. (k, v) \<in> set kvs \<Longrightarrow> str_ok k \<and> decode (encode_value v @ rest) = Inr (f v, length (encode_value v))"
  shows "decode_pairs (length kvs) (concat (map (\<lambda>(k, v). encode_string k @ encode_value v) kvs) @ rest) =
    Inr (map (\<lambda>(k, v). (k, f v)) kvs, length (concat (map (\<lambda>(k, v). encode_string k @ encode_value v) kvs)))"
  using assms
proof (induction kvs)
  case (Cons kv kvs)
  obtain k v where kv: "kv = (k, v)" by fastforce
  then have k: "str_ok k" and v: "decode (encode_value v @ rest) = Inr (f v, length (encode_value v))" for rest
    using Cons.prems [of k v] by simp_all
  have "decode_pairs (length kvs) (concat (map (\<lambda>(k, v). encode_string k @ encode_value v) kvs) @ rest) =
      Inr (map (\<lambda>(k, v). (k, f v)) kvs, length (concat (map (\<lambda>(k, v). encode_string k @ encode_value v) kvs)))"
    by (rule Cons.IH) (rule Cons.prems, simp)
  with k v kv show ?case by (simp add: str_ok_def)
qed simp

lemma decode_encode: "pack_ok v \<Longrightarrow> decode (encode_value v @ rest) = Inr (pack_norm v, length (encode_value v))"
proof (induction v arbitrary: rest rule: encode_value.induct)
  case (7 items)
  have all: "decode (encode_value x @ rest') = Inr (pack_norm x, length (encode_value x))" if "x \<in> set items" for x rest'
    using 7 that by (auto simp: list_all_iff)
  show ?case
    using 7(2) decode_list_header [of "length items"] decode_items_all [of items pack_norm, OF all]
    by (subst decode.simps) simp
next
  case (8 pairs)
  have all: "str_ok k \<and> decode (encode_value v @ rest') = Inr (pack_norm v, length (encode_value v))"
    if "(k, v) \<in> set pairs" for k v rest'
    using 8 that by (fastforce simp: list_all_iff)
  show ?case
    using 8(2) decode_map_header [of "length pairs"] decode_pairs_all [of pairs pack_norm, OF all]
    by (subst decode.simps) simp
next
  case (9 s n z)
  have "decode_items 3 (encode_int s @ encode_int n @ encode_int z @ rest) =
      Inr ([PInteger s, PInteger n, PInteger z], length (encode_int s) + (length (encode_int n) + length (encode_int z)))"
    by (simp add: numeral_3_eq_3)
  then show ?case
    using decode_struct_header [of 3 "0x49"]
    by (subst decode.simps) (simp add: encode_datetime_def decode_temporal_struct_def integer_field_def)
next
  case (10 s n)
  have "decode_items 2 (encode_int s @ encode_int n @ rest) =
      Inr ([PInteger s, PInteger n], length (encode_int s) + length (encode_int n))"
    by (simp add: numeral_2_eq_2)
  then show ?case
    using decode_struct_header [of 2 "0x64"]
    by (subst decode.simps) (simp add: encode_local_datetime_def decode_temporal_struct_def integer_field_def)
next
  case (11 signature fields)
  have all: "decode (encode_value x @ rest') = Inr (pack_norm x, length (encode_value x))" if "x \<in> set fields" for x rest'
    using 11 that by (auto simp: list_all_iff)
  show ?case
    using 11(2) decode_struct_header [of "length fields"] decode_items_all [of fields pack_norm, OF all]
    by (subst decode.simps) (simp split: option.split)
qed (auto simp: str_ok_def intro!: decode_whole simp: encode_null_def encode_bool_def encode_float_def marker_steps simp del: be_bytes.simps)

subsection \<open>Decoded values\<close>

definition shape_ok :: "pack_shape \<Rightarrow> bool" where
  "shape_ok sh = (case sh of
     Whole v n \<Rightarrow> pack_ok v \<and> pack_norm v = v
   | ListBody k n \<Rightarrow> n < 2 ^ 32
   | MapBody k n \<Rightarrow> n < 2 ^ 32
   | StructBody k n g \<Rightarrow> n < 2 ^ 16)"

definition ok_read :: "(bytes \<Rightarrow> bolt_error + pack_shape) \<Rightarrow> bool" where
  "ok_read g \<longleftrightarrow> (\<forall>data sh. g data = Inr sh \<longrightarrow> shape_ok sh)"

lemma ok_read_if: "ok_read f \<Longrightarrow> ok_read g \<Longrightarrow> ok_read (\<lambda>data. if c data then f data else g data)"
  by (simp add: ok_read_def)

lemma ok_read_const: "shape_ok sh \<Longrightarrow> ok_read (\<lambda>data. Inr sh)"
  by (simp add: ok_read_def)

lemma ok_read_error: "ok_read (\<lambda>data. Inl e)"
  by (simp add: ok_read_def)

lemma be_nat_bound: "be_nat bs < 256 ^ length bs"
proof (induction bs rule: rev_induct)
  case (snoc b bs)
  have "unat b < 256" using unsigned_less [of b, where 'a = nat] by simp
  then have "be_nat bs * 256 + unat b < (be_nat bs + 1) * 256" by simp
  also have "\<dots> \<le> 256 ^ length bs * 256" using snoc by (intro mult_right_mono) simp_all
  finally show ?case by (simp add: be_nat_def)
qed (simp add: be_nat_def)

lemma be_nat_slice: "be_nat (byte_slice i j data) < 256 ^ (j - i)"
proof -
  have "length (byte_slice i j data) \<le> j - i" by (simp add: byte_slice_def)
  then have "(256::nat) ^ length (byte_slice i j data) \<le> 256 ^ (j - i)" by (intro power_increasing) simp_all
  with be_nat_bound [of "byte_slice i j data"] show ?thesis by (rule less_le_trans)
qed

lemma ok_read_fixed:
  assumes "\<And>x. x < 256 ^ w \<Longrightarrow> shape_ok (h x)"
  shows "ok_read (\<lambda>data. fixed_width what w data (\<lambda>x. Inr (h x)))"
  using assms be_nat_slice [of 1 "1 + w"] by (auto simp: ok_read_def fixed_width_def split: if_splits)

lemma str_bytes_of [simp]: "str_bytes (bytes_str bs) = bs" "length (bytes_str bs) = length bs"
proof -
  have "word_of_nat (of_char (char_of (unat b) :: char)) = b" for b :: "8 word"
    using unsigned_less [of b, where 'a = nat] by simp
  then show "str_bytes (bytes_str bs) = bs" "length (bytes_str bs) = length bs"
    by (simp_all add: str_bytes_def bytes_str_def comp_def)
qed

lemma ok_read_bytes:
  assumes "w \<le> 4" shows "ok_read (\<lambda>data. fixed_width what w data (decode_bytes_body data k))"
proof -
  have "(256::nat) ^ w \<le> 256 ^ 4" using assms by (intro power_increasing) simp_all
  then have "be_nat (byte_slice (Suc 0) (Suc w) data) < 4294967296" for data
    using be_nat_slice [of 1 "1 + w" data] by simp
  moreover have "length (byte_slice k (k + n) data) \<le> n" for n data by (simp add: byte_slice_def)
  ultimately show ?thesis
    by (auto simp: ok_read_def fixed_width_def decode_bytes_body_def shape_ok_def split: if_splits
        intro: le_less_trans)
qed

lemma decode_string_body_ok: "decode_string_body data k n = Inr sh \<Longrightarrow> n < 2 ^ 32 \<Longrightarrow> shape_ok sh"
  by (auto simp: decode_string_body_def shape_ok_def str_ok_def byte_slice_def min_def split: if_splits option.splits)

lemma ok_read_string:
  assumes "w \<le> 4" shows "ok_read (\<lambda>data. fixed_width what w data (decode_string_body data k))"
proof -
  have "(256::nat) ^ w \<le> 256 ^ 4" using assms by (intro power_increasing) simp_all
  then have "be_nat (byte_slice (Suc 0) (Suc w) data) < 2 ^ 32" for data
    using be_nat_slice [of 1 "1 + w" data] by simp
  then show ?thesis
    by (auto simp: ok_read_def fixed_width_def intro: decode_string_body_ok split: if_splits)
qed

lemma nibble_bound: "unat (b AND 0x0F :: 8 word) \<le> 15"
  using word_and_le1 [of b "0x0F"] by (simp add: word_le_nat_alt)

lemma ok_read_tiny_string: "ok_read (\<lambda>data. decode_string_body data k (unat (b AND 0x0F :: 8 word)))"
  using nibble_bound [of b] by (auto simp: ok_read_def intro: decode_string_body_ok)

lemma ok_read_struct:
  assumes "w \<le> 2" shows "ok_read (struct_head what w)"
proof -
  have "(256::nat) ^ w \<le> 256 ^ 2" using assms by (intro power_increasing) simp_all
  then have "be_nat (byte_slice (Suc 0) (Suc w) data) < 2 ^ 16" for data
    using be_nat_slice [of 1 "1 + w" data] by simp
  then show ?thesis by (auto simp: ok_read_def struct_head_def shape_ok_def split: if_splits)
qed

lemma ok_read_tiny_struct: "ok_read (\<lambda>data. Inr (StructBody 2 (unat (b AND 0x0F :: 8 word)) (data ! 1)))"
  using nibble_bound [of b] by (auto simp: ok_read_def shape_ok_def)

lemma ok_read_marked: "ok_read (decode_marked b)"
  unfolding decode_marked_def [abs_def]
  by (intro ok_read_if ok_read_fixed ok_read_bytes ok_read_string ok_read_tiny_string ok_read_tiny_struct
      ok_read_struct ok_read_error ok_read_const) (use nibble_bound [of b] in \<open>simp_all add: shape_ok_def\<close>)

lemma decode_marker_ok: "decode_marker data = Inr sh \<Longrightarrow> shape_ok sh"
  using ok_read_marked unfolding decode_marker_def ok_read_def by (auto split: list.splits)

lemma decode_ok:
  "(\<forall>v n. decode data = Inr (v, n) \<longrightarrow> pack_ok v \<and> pack_norm v = v)"
  "(\<forall>vs n. decode_items count data' = Inr (vs, n) \<longrightarrow> list_all pack_ok vs \<and> map pack_norm vs = vs)"
  "(\<forall>kvs n. decode_pairs count' data'' = Inr (kvs, n) \<longrightarrow>
     list_all (\<lambda>(k, v). str_ok k \<and> pack_ok v) kvs \<and> map (\<lambda>(k, v). (k, pack_norm v)) kvs = kvs)"
proof (induction data and count data' and count' data'' rule: decode_decode_items_decode_pairs.induct)
  case (1 data)
  show ?case
  proof (intro allI impI)
    fix v n assume a: "decode data = Inr (v, n)"
    then obtain sh where sh: "decode_marker data = Inr sh" by (subst (asm) decode.simps) (auto split: sum.splits)
    note ok = decode_marker_ok [OF sh]
    show "pack_ok v \<and> pack_norm v = v"
    proof (cases sh)
      case (Whole w k)
      then show ?thesis using a ok by (simp add: decode.simps [of data] sh shape_ok_def)
    next
      case (ListBody k count)
      then show ?thesis
        using 1(1) [OF sh] a ok decode_local(2) [of count "drop k data"]
        by (auto simp: decode.simps [of data] sh shape_ok_def split: sum.splits)
    next
      case (MapBody k count)
      then show ?thesis
        using 1(2) [OF sh] a ok decode_local(3) [of count "drop k data"]
        by (auto simp: decode.simps [of data] sh shape_ok_def split: sum.splits)
    next
      case (StructBody k count g)
      then show ?thesis
        using 1(3) [OF sh] a ok decode_local(2) [of count "drop k data"]
        by (auto simp: decode.simps [of data] sh shape_ok_def decode_temporal_struct_def split: sum.splits option.splits if_splits)
    qed
  qed
next
  case (3 count data)
  then show ?case by (auto split: sum.splits)
next
  case (5 count data)
  show ?case
  proof (intro allI impI)
    fix kvs n assume "decode_pairs (Suc count) data = Inr (kvs, n)"
    then obtain key k v j kvs' m where d: "decode data = Inr (PString key, k)" "decode (drop k data) = Inr (v, j)"
      "decode_pairs count (drop j (drop k data)) = Inr (kvs', m)"
      and eq: "kvs = (key, v) # kvs'"
      by (auto simp del: drop_drop split: sum.splits pack_value.splits)
    have "str_ok key" using 5(1) d(1) by fastforce
    moreover have "pack_ok v \<and> pack_norm v = v" using 5(2) [OF d(1) refl refl] d(2) by blast
    moreover have "list_all (\<lambda>(k, v). str_ok k \<and> pack_ok v) kvs' \<and> map (\<lambda>(k, v). (k, pack_norm v)) kvs' = kvs'"
      using 5(3) [OF d(1) refl refl d(2) refl] d(3) by blast
    ultimately show "list_all (\<lambda>(k, v). str_ok k \<and> pack_ok v) kvs \<and> map (\<lambda>(k, v). (k, pack_norm v)) kvs = kvs"
      by (simp add: eq)
  qed
qed simp_all

lemma prefix_refused:
  assumes "pack_ok v" "m < length (encode_value v)"
  shows "\<exists>e. decode (take m (encode_value v)) = Inl e"
proof (cases "decode (take m (encode_value v))")
  case (Inr r)
  obtain w n where r: "r = (w, n)" by fastforce
  let ?data = "take m (encode_value v)"
  have n: "n \<le> m" using decode_local(1) [of ?data] Inr r assms(2) by auto
  have "decode (take n ?data @ drop n (encode_value v)) = Inr (w, n)"
    using decode_local(1) [of ?data] Inr r by blast
  with n have "decode (encode_value v) = Inr (w, n)" by (simp add: min_absorb1)
  then have "n = length (encode_value v)" using decode_encode [OF assms(1), of "[]"] by simp
  with n assms(2) show ?thesis by simp
qed simp

text \<open>
  C24: A value whose lengths fit their 32-bit headers (a structure's 16-bit one) decodes from its
  encoding, whatever follows it, as the same value, except that a structure with the signature and the
  integers of a date comes back as that date, and the decoder consumes exactly the encoding; and no
  proper prefix of the encoding decodes.
\<close>

theorem pack_roundtrip:
  assumes "pack_ok v"
  shows "decode (encode_value v @ rest) = Inr (pack_norm v, length (encode_value v)) \<and>
    (\<forall>m < length (encode_value v). \<exists>e. decode (take m (encode_value v)) = Inl e)"
  using decode_encode [OF assms] prefix_refused [OF assms] by blast

theorem pack_roundtrip_witness:
  "let v = PMap [(''n'', PInteger (- 129)), (''xs'', PList [PNull, PBool True]), (''at'', PStruct 0x64 [PInteger 5, PInteger 0])]
   in decode (encode_value v) = Inr (PMap [(''n'', PInteger (- 129)), (''xs'', PList [PNull, PBool True]),
        (''at'', PLocalDateTime 5 0)], length (encode_value v)) \<and>
      (\<exists>e. decode (take 3 (encode_value v)) = Inl e)"
proof -
  let ?v = "PMap [(''n'', PInteger (- 129)), (''xs'', PList [PNull, PBool True]), (''at'', PStruct 0x64 [PInteger 5, PInteger 0])]"
  have ok: "pack_ok ?v" by (simp add: str_ok_def str_bytes_def utf8_error.simps)
  have "3 < length (encode_value ?v)"
    by (simp add: encode_map_header_def encode_string_def str_bytes_def)
  then show ?thesis
    using pack_roundtrip [OF ok, of "[]"] by (auto simp: Let_def decode_temporal_struct_def integer_field_def)
qed

text \<open>
  C25: Whatever the input, when decoding succeeds it has consumed at least one byte and no more than
  there are (so every slice it took was in range), the outcome does not depend on the bytes after
  those, and the decoded value is again one that encodes within its headers and decodes to itself.
\<close>

theorem decode_reads_prefix:
  assumes "decode data = Inr (v, n)"
  shows "0 < n \<and> n \<le> length data \<and> (\<forall>more. decode (take n data @ more) = Inr (v, n)) \<and>
    decode (encode_value v) = Inr (v, length (encode_value v))"
proof -
  have "0 < n \<and> n \<le> length data \<and> (\<forall>more. decode (take n data @ more) = Inr (v, n))"
    using decode_local(1) [of data] assms by blast
  moreover have "pack_ok v \<and> pack_norm v = v" using decode_ok(1) [of data] assms by blast
  ultimately show ?thesis using decode_encode [of v "[]"] by simp
qed

theorem decode_reads_prefix_witness:
  "decode [0x92, 0x01, 0x81, 0x61, 0xFF] = Inr (PList [PInteger 1, PString ''a''], 4) \<and>
   decode ([0x92, 0x01, 0x81, 0x61] @ [0x00]) = Inr (PList [PInteger 1, PString ''a''], 4)"
proof -
  have 1: "decode (0x01 # rest) = Inr (PInteger 1, 1)" for rest
    using decode_int [of 1 rest] by (simp add: encode_int_def)
  have 2: "decode (0x81 # 0x61 # rest) = Inr (PString ''a'', 2)" for rest
    using decode_string [of "''a''" rest] by (simp add: encode_string_def str_bytes_def utf8_error.simps flip: numeral_2_eq_2)
  have 3: "decode_marker (0x92 # rest) = Inr (ListBody 1 2)" for rest
    using decode_list_header [of 2 rest] by (simp add: encode_list_header_def)
  have d: "decode [0x92, 0x01, 0x81, 0x61, 0xFF] = Inr (PList [PInteger 1, PString ''a''], 4)"
    by (subst decode.simps) (simp add: 1 2 3 numeral_2_eq_2)
  then have "decode (take 4 [0x92, 0x01, 0x81, 0x61, 0xFF] @ [0x00]) = Inr (PList [PInteger 1, PString ''a''], 4)"
    using decode_reads_prefix [OF d] by blast
  then show ?thesis using d by simp
qed

end
