(* ===== verification/Index_Encoding.thy ===== *)
theory Index_Encoding
  imports Rust_Strings BTree_Map
begin

text \<open>
  The keys of the property indexes, crates/storage/src/storage_property_index_encoding.rs and the key
  functions of crates/storage/src/lib.rs: an encoding of values whose byte order is the order of
  numbers and of strings, and the bounds of a range scan over it. Byte vectors of keys are strings. The
  numbers of serde_json are a type parameter with \<open>as_f64\<close>, giving the bits of an \<open>f64\<close>, as an
  argument; so is \<open>serde_json::to_vec\<close>, for the values that are not ordered.
\<close>

unbundle bit_operations_syntax

subsection \<open>Values\<close>

datatype 'n json =
    JNull
  | JBool bool
  | JNumber 'n
  | JString string
  | JArray "'n json list"
  | JObject "(string \<times> 'n json) list"

text \<open>\<open>f64::partial_cmp\<close> on bits: NaNs are incomparable, otherwise sign and magnitude decide.\<close>

datatype ordering = Less | Equal | Greater

definition f64_magnitude :: "64 word \<Rightarrow> nat" where
  "f64_magnitude b = unat (b AND 0x7FFFFFFFFFFFFFFF)"

definition f64_is_nan :: "64 word \<Rightarrow> bool" where
  "f64_is_nan b \<longleftrightarrow> 0x7FF0000000000000 < f64_magnitude b"

definition f64_rank :: "64 word \<Rightarrow> int" where
  "f64_rank b = (if bit b 63 then - int (f64_magnitude b) else int (f64_magnitude b))"

definition cmp :: "'a::linorder \<Rightarrow> 'a \<Rightarrow> ordering" where
  "cmp x y = (if x < y then Less else if x = y then Equal else Greater)"

definition f64_partial_cmp :: "64 word \<Rightarrow> 64 word \<Rightarrow> ordering option" where
  "f64_partial_cmp a b = (if f64_is_nan a \<or> f64_is_nan b then None else Some (cmp (f64_rank a) (f64_rank b)))"

lemma cmp_simps [simp]:
  "cmp x y = Less \<longleftrightarrow> x < y" "cmp x y = Equal \<longleftrightarrow> x = y" "cmp x y = Greater \<longleftrightarrow> y < x"
  by (auto simp: cmp_def)

subsection \<open>Keys\<close>

definition hex_encode :: "string \<Rightarrow> string" where
  "hex_encode s = concat (map (\<lambda>c. hex_fixed 2 (of_char c)) s)"

definition ordered_f64_bits :: "64 word \<Rightarrow> 64 word" where
  "ordered_f64_bits b = (if b AND (push_bit 63 1) \<noteq> 0 then NOT b else b XOR push_bit 63 1)"

definition ordered_value_key :: "('n \<Rightarrow> 64 word option) \<Rightarrow> 'n json \<Rightarrow> string option" where
  "ordered_value_key as_f64 v =
     (case v of
        JNumber n \<Rightarrow> (case as_f64 n of None \<Rightarrow> None | Some x \<Rightarrow> Some (''n'' @ hex_fixed 16 (unat (ordered_f64_bits x))))
      | JString s \<Rightarrow> Some (''s'' @ hex_encode s)
      | _ \<Rightarrow> None)"

definition property_index_value_key :: "('n \<Rightarrow> 64 word option) \<Rightarrow> ('n json \<Rightarrow> string) \<Rightarrow> 'n json \<Rightarrow> string" where
  "property_index_value_key as_f64 to_vec v =
     (case ordered_value_key as_f64 v of Some key \<Rightarrow> key | None \<Rightarrow> ''j'' @ hex_encode (to_vec v))"

text \<open>The loop from the last byte down: the first one that is not the largest is incremented.\<close>

fun prefix_successor_rev :: "string \<Rightarrow> string option" where
  "prefix_successor_rev [] = None"
| "prefix_successor_rev (c # cs) =
     (if c \<noteq> CHR 0xFF then Some (rev (char_of (of_char c + 1 :: nat) # cs)) else prefix_successor_rev cs)"

definition prefix_successor :: "string \<Rightarrow> string option" where
  "prefix_successor bytes = prefix_successor_rev (rev bytes)"

datatype range_comparison = GreaterThan | GreaterThanOrEqual | LessThan | LessThanOrEqual

definition range_scan_bounds ::
    "('n \<Rightarrow> 64 word option) \<Rightarrow> string \<Rightarrow> range_comparison \<Rightarrow> 'n json \<Rightarrow> (string \<times> string option) option" where
  "range_scan_bounds as_f64 prefix comparison v =
     (case ordered_value_key as_f64 v of
        None \<Rightarrow> None
      | Some value_key \<Rightarrow>
          (let value_prefix = prefix @ value_key @ ''/'';
               prefix_end = prefix_successor prefix
           in case comparison of
                GreaterThan \<Rightarrow> map_option (\<lambda>start. (start, prefix_end)) (prefix_successor value_prefix)
              | GreaterThanOrEqual \<Rightarrow> Some (value_prefix, prefix_end)
              | LessThan \<Rightarrow> Some (prefix, Some value_prefix)
              | LessThanOrEqual \<Rightarrow> map_option (\<lambda>stop. (prefix, Some stop)) (prefix_successor value_prefix)))"

definition compare_index_values :: "('n \<Rightarrow> 64 word option) \<Rightarrow> 'n json \<Rightarrow> 'n json \<Rightarrow> ordering option" where
  "compare_index_values as_f64 left right =
     (case (left, right) of
        (JNumber l, JNumber r) \<Rightarrow>
          (case (as_f64 l, as_f64 r) of (Some l, Some r) \<Rightarrow> f64_partial_cmp l r | _ \<Rightarrow> None)
      | (JString l, JString r) \<Rightarrow> Some (cmp l r)
      | _ \<Rightarrow> None)"

subsection \<open>Order of the encodings\<close>

lemma append_less [simp]: "(p @ x < p @ (y :: 'a::linorder list)) = (x < y)" "(p @ x \<le> p @ y) = (x \<le> y)"
  by (induction p) simp_all

lemma hex_digit_less: "e < 16 \<Longrightarrow> d < e \<Longrightarrow> hex_digit d < hex_digit e"
proof -
  have "list_all (\<lambda>d. list_all (\<lambda>e. d < e \<longrightarrow> hex_digit d < hex_digit e) [0, 1, 2, 3, 4, 5, 6, 7, 8, 9, 10, 11, 12, 13, 14, 15])
      [0, 1, 2, 3, 4, 5, 6, 7, 8, 9, 10, 11, 12, 13, 14, 15::nat]"
    by (simp add: hex_digit_def less_char_def)
  from below_16 [OF this, of d] below_16 [of "\<lambda>e. d < e \<longrightarrow> hex_digit d < hex_digit e" e]
  show "e < 16 \<Longrightarrow> d < e \<Longrightarrow> hex_digit d < hex_digit e" by simp
qed

lemma hex_fixed_less:
  assumes "x mod 16 ^ n < y mod 16 ^ n" shows "hex_fixed n x @ r < hex_fixed n y @ r'"
  using assms
proof (induction n)
  case (Suc n)
  let ?d = "\<lambda>x. x div 16 ^ n mod 16"
  have split: "x mod 16 ^ Suc n = ?d x * 16 ^ n + x mod 16 ^ n" for x :: nat
    by (simp add: mod_mult2_eq mult.commute [of 16])
  have low: "x mod 16 ^ n < 16 ^ n" "y mod 16 ^ n < 16 ^ n" by simp_all
  show ?case
  proof (cases "?d x < ?d y")
    case True
    then have "hex_digit (?d x) < hex_digit (?d y)" by (intro hex_digit_less) simp_all
    then show ?thesis by simp
  next
    case False
    have "?d x = ?d y"
    proof (rule ccontr)
      assume "?d x \<noteq> ?d y"
      with False have "?d y * 16 ^ n + 16 ^ n \<le> ?d x * 16 ^ n"
        using mult_le_mono1 [of "Suc (?d y)" "?d x" "16 ^ n"] by simp
      with Suc.prems low show False unfolding split by linarith
    qed
    with Suc show ?thesis unfolding split by simp
  qed
qed simp

lemma length_hex_byte: "length (hex_fixed 2 x) = 2" by simp

lemma hex_encode_simps [simp]:
  "hex_encode [] = []" "hex_encode (c # s) = hex_fixed 2 (of_char c) @ hex_encode s"
  "hex_encode (s @ t) = hex_encode s @ hex_encode t"
  by (simp_all add: hex_encode_def)

lemma of_char_mod [simp]: "of_char c mod 256 = (of_char c :: nat)"
  using of_char_mod_256 [of c, where 'a = nat] by simp

lemma hex_byte_less:
  assumes "c < d" shows "hex_fixed 2 (of_char c) @ r < hex_fixed 2 (of_char d) @ r'"
  using assms by (intro hex_fixed_less) (simp add: less_char_def)

text \<open>
  The end of a component sorts before every hexadecimal digit, so the keys of strings sort as the
  strings do, whatever follows.
\<close>

lemma hex_encode_less:
  assumes "s < t" shows "hex_encode s @ CHR ''/'' # r < hex_encode t @ r'"
  using assms
proof (induction s arbitrary: t)
  case Nil
  then obtain c t' where "t = c # t'" by (cases t) auto
  moreover have "CHR ''/'' < hex_digit d" if "d < 16" for d
    by (rule below_16 [OF _ that]) (simp add: hex_digit_def)
  ultimately show ?case by (simp add: numeral_2_eq_2)
next
  case (Cons c s)
  then obtain d t' where t: "t = d # t'" "c < d \<or> c = d \<and> s < t'" by (cases t) auto
  with Cons.IH [of t'] hex_byte_less [of c d] show ?case by auto
qed

lemma hex_encode_next:
  assumes "s < t" shows "hex_encode s @ ''0'' \<le> hex_encode t @ r"
  using assms
proof (induction s arbitrary: t)
  case Nil
  then obtain c t' where "t = c # t'" by (cases t) auto
  moreover have "CHR ''0'' \<le> hex_digit d" if "d < 16" for d
    by (rule below_16 [OF _ that]) (simp add: hex_digit_def)
  ultimately show ?case by (auto simp: numeral_2_eq_2 less_le)
next
  case (Cons c s)
  then obtain d t' where t: "t = d # t'" "c < d \<or> c = d \<and> s < t'" by (cases t) auto
  with Cons.IH [of t'] hex_byte_less [of c d "hex_encode s @ ''0''" "hex_encode t' @ r"] show ?case by auto
qed

subsection \<open>Order of the bits of a double\<close>

lemma magnitude_mod: "f64_magnitude b = unat b mod 2 ^ 63"
proof -
  have m: "(0x7FFFFFFFFFFFFFFF :: 64 word) = mask 63" by (simp add: mask_eq_exp_minus_1)
  show ?thesis
    unfolding f64_magnitude_def m take_bit_eq_mask [symmetric]
    by (simp only: unsigned_take_bit_eq) (simp only: take_bit_eq_mod)
qed

lemma magnitude_bound: "f64_magnitude b < 2 ^ 63"
  by (simp add: magnitude_mod)

lemma f64_unat: "unat b = f64_magnitude b + (if bit b 63 then 2 ^ 63 else 0)"
proof -
  have "bit (unat b) 63 \<longleftrightarrow> bit b 63" by (simp add: bit_unsigned_iff)
  then have b: "bit b 63 \<longleftrightarrow> odd (unat b div 2 ^ 63)" by (simp only: bit_iff_odd [of "unat b"])
  have "unat b div 2 ^ 63 < 2"
    using unsigned_less [of b, where 'a = nat] by (intro less_mult_imp_div_less) simp
  then have q: "unat b div 2 ^ 63 = 0 \<or> unat b div 2 ^ 63 = 1" by linarith
  have sum: "unat b = unat b div 2 ^ 63 * 2 ^ 63 + f64_magnitude b" unfolding magnitude_mod by (simp only: div_mult_mod_eq)
  from q show ?thesis
  proof
    assume z: "unat b div 2 ^ 63 = 0"
    then have "\<not> bit b 63" using b unfolding z by simp
    then show ?thesis using sum unfolding z by (simp only: if_False mult_zero_left add_0 add_0_right)
  next
    assume z: "unat b div 2 ^ 63 = 1"
    then have "bit b 63" using b unfolding z by simp
    then show ?thesis using sum unfolding z by (simp only: if_True mult_1 add.commute)
  qed
qed

lemma ordered_unat: "unat (ordered_f64_bits b) = (if bit b 63 then 2 ^ 63 - 1 - f64_magnitude b else 2 ^ 63 + f64_magnitude b)"
proof -
  have p: "push_bit 63 1 = (2 :: 64 word) ^ 63" by simp
  show ?thesis
  proof (cases "bit b 63")
    case True
    then have "ordered_f64_bits b = NOT b" unfolding ordered_f64_bits_def p by (simp only: and_exp_eq_0_iff_not_bit) simp
    moreover have "unat (NOT b) = 2 ^ 64 - 1 - unat b"
    proof -
      have "NOT b = - 1 - b" by (simp add: not_eq_complement)
      also have "unat (- 1 - b) = unat (- 1 :: 64 word) - unat b" by (rule unat_sub) (simp add: word_order.extremum)
      finally show ?thesis by (simp add: unsigned_minus_1_eq_mask mask_eq_exp_minus_1)
    qed
    ultimately show ?thesis using True f64_unat [of b] by simp
  next
    case False
    then have zero: "b AND 2 ^ 63 = 0" by (simp only: and_exp_eq_0_iff_not_bit not_False_eq_True)
    then have "ordered_f64_bits b = b XOR 2 ^ 63" unfolding ordered_f64_bits_def p by simp
    also have "\<dots> = b + 2 ^ 63" using zero by (simp only: disjunctive_add_eq_xor)
    finally have "unat (ordered_f64_bits b) = (unat b + 2 ^ 63) mod 2 ^ 64" by (simp add: unat_word_ariths)
    then show ?thesis using False f64_unat [of b] magnitude_bound [of b] by simp
  qed
qed

definition negative_zero :: "64 word" where
  "negative_zero = 0x8000000000000000"

lemma zero_bits: "f64_magnitude b = 0 \<Longrightarrow> bit b 63 \<Longrightarrow> b = negative_zero"
  using f64_unat [of b] by (simp add: negative_zero_def word_unat_eq_iff)

lemma ordered_less:
  assumes "f64_rank a < f64_rank b" shows "unat (ordered_f64_bits a) < unat (ordered_f64_bits b)"
  using assms magnitude_bound [of a] magnitude_bound [of b]
  by (auto simp: f64_rank_def ordered_unat split: if_splits)

lemma rank_inj:
  assumes "f64_rank a = f64_rank b" "a \<noteq> negative_zero" "b \<noteq> negative_zero" shows "a = b"
proof -
  have "bit a 63 = bit b 63 \<and> f64_magnitude a = f64_magnitude b"
    using assms zero_bits [of a] zero_bits [of b] by (auto simp: f64_rank_def split: if_splits)
  then have "unat a = unat b" using f64_unat [of a] f64_unat [of b] by simp
  then show ?thesis by (simp only: word_unat_eq_iff)
qed

subsection \<open>What a range scan covers\<close>

lemma prefix_successor_slash [simp]: "prefix_successor (s @ ''/'') = Some (s @ ''0'')"
proof -
  have "char_of (of_char CHR ''/'' + 1 :: nat) = CHR ''0''" by code_simp
  then show ?thesis by (simp add: prefix_successor_def del: of_char_Char)
qed

definition in_bounds :: "string \<times> string option \<Rightarrow> string \<Rightarrow> bool" where
  "in_bounds bounds key \<longleftrightarrow> fst bounds \<le> key \<and> (case snd bounds of None \<Rightarrow> True | Some stop \<Rightarrow> key < stop)"

definition range_holds :: "range_comparison \<Rightarrow> ordering option \<Rightarrow> bool" where
  "range_holds comparison ord = (case ord of
     None \<Rightarrow> False
   | Some ord \<Rightarrow> (case comparison of
       GreaterThan \<Rightarrow> ord = Greater
     | GreaterThanOrEqual \<Rightarrow> ord \<noteq> Less
     | LessThan \<Rightarrow> ord = Less
     | LessThanOrEqual \<Rightarrow> ord \<noteq> Greater))"

text \<open>Zero is the one number with two bit patterns; without the negative one, values that compare equal have one key.\<close>

fun plain_number :: "('n \<Rightarrow> 64 word option) \<Rightarrow> 'n json \<Rightarrow> bool" where
  "plain_number as_f64 (JNumber n) = (as_f64 n \<noteq> Some negative_zero)"
| "plain_number as_f64 v = True"

text \<open>
  The three places a key can be relative to a value's: before, among the value's own keys, after.
\<close>

lemma value_key_order:
  assumes "compare_index_values as_f64 v w = Some ord" "ordered_value_key as_f64 w = Some kw"
    "plain_number as_f64 v" "plain_number as_f64 w"
  shows "\<exists>kv. ordered_value_key as_f64 v = Some kv \<and>
    (case ord of
       Less \<Rightarrow> (\<forall>r. kv @ CHR ''/'' # r < kw @ ''/'')
     | Equal \<Rightarrow> kv = kw
     | Greater \<Rightarrow> (\<forall>r. kw @ ''0'' \<le> kv @ r))"
proof (cases v)
  case (JNumber n)
  then obtain m x y where w: "w = JNumber m" "as_f64 n = Some x" "as_f64 m = Some y" and ord: "ord = cmp (f64_rank x) (f64_rank y)"
    using assms(1) by (auto simp: compare_index_values_def f64_partial_cmp_def split: json.splits option.splits if_splits)
  have bound: "unat (ordered_f64_bits z) < 16 ^ 16" for z
    using unsigned_less [of "ordered_f64_bits z", where 'a = nat] by simp
  have less: "hex_fixed 16 (unat (ordered_f64_bits z)) @ s < hex_fixed 16 (unat (ordered_f64_bits z')) @ s'"
    if "f64_rank z < f64_rank z'" for z z' s s'
    using ordered_less [OF that] bound by (intro hex_fixed_less) simp
  have "x = y" if "f64_rank x = f64_rank y"
    using rank_inj [OF that] assms(3,4) JNumber w by auto
  then show ?thesis
    using less [of x y] less [of y x] assms(2) JNumber w ord
    by (auto simp: ordered_value_key_def cmp_def less_imp_le)
next
  case (JString s)
  then obtain t where w: "w = JString t" "ord = cmp s t"
    using assms(1) by (auto simp: compare_index_values_def split: json.splits)
  then show ?thesis
    using JString assms(2) hex_encode_less [of s t _ "''/''"] hex_encode_next [of t s]
    by (auto simp: ordered_value_key_def cmp_def)
qed (use assms(1) in \<open>simp_all add: compare_index_values_def\<close>)

lemma range_scan_covers:
  assumes "range_holds comparison (compare_index_values as_f64 v w)" "plain_number as_f64 v" "plain_number as_f64 w"
  shows "\<exists>bounds. range_scan_bounds as_f64 (p @ ''/'') comparison w = Some bounds \<and>
    in_bounds bounds (p @ ''/'' @ property_index_value_key as_f64 to_vec v @ CHR ''/'' # r)"
proof -
  obtain ord where ord: "compare_index_values as_f64 v w = Some ord"
    using assms(1) by (auto simp: range_holds_def split: option.splits)
  then obtain kw where kw: "ordered_value_key as_f64 w = Some kw"
    by (auto simp: compare_index_values_def ordered_value_key_def split: json.splits option.splits)
  obtain kv where kv: "ordered_value_key as_f64 v = Some kv"
    and place: "case ord of Less \<Rightarrow> (\<forall>r. kv @ CHR ''/'' # r < kw @ ''/'') | Equal \<Rightarrow> kv = kw | Greater \<Rightarrow> (\<forall>r. kw @ ''0'' \<le> kv @ r)"
    using value_key_order [OF ord kw assms(2,3)] by blast
  have key: "property_index_value_key as_f64 to_vec v = kv" by (simp add: property_index_value_key_def kv)
  have succ: "prefix_successor (p @ CHR ''/'' # kw @ ''/'') = Some (p @ CHR ''/'' # kw @ ''0'')"
    using prefix_successor_slash [of "p @ ''/'' @ kw"] by simp
  have above: "kw @ ''/'' \<le> kv @ CHR ''/'' # r" if "ord = Equal \<or> ord = Greater"
  proof (cases "ord = Equal")
    case False
    with place that have "kw @ ''0'' \<le> kv @ CHR ''/'' # r" by auto
    moreover have "kw @ ''/'' < kw @ ''0''" by simp
    ultimately show ?thesis by (meson less_imp_le order_trans)
  qed (use place in simp)
  have below: "kv @ CHR ''/'' # r < kw @ ''0''" if "ord = Equal \<or> ord = Less"
  proof (cases "ord = Equal")
    case False
    with place that have "kv @ CHR ''/'' # r < kw @ ''/''" by auto
    also have "kw @ ''/'' < kw @ ''0''" by simp
    finally show ?thesis .
  qed (use place in simp)
  show ?thesis
    using assms(1) ord place above below
    by (cases comparison; cases ord)
      (auto simp: range_scan_bounds_def kw Let_def in_bounds_def key succ range_holds_def)
qed

end
