(* ===== verification/Node_Index.thy ===== *)
theory Node_Index
  imports Index_Encoding Mvcc_Index
begin

text \<open>
  The label and property indexes of nodes, crates/storage/src/lib.rs and storage_node_property_range.rs:
  their key space, its upkeep when a node is written or deleted and when an index is created or
  dropped, tombstones that hide entries, and the lookups. The key space and the node table are ordered
  maps without I/O errors. Full-text and relationship indexes live under prefixes of their own and are
  left out, as are the caches and counters that the same commits maintain.
\<close>

subsection \<open>Definitions and keys\<close>

datatype index_entity_type = NodeEntity | RelationshipEntity

datatype index_kind = RangeIndex | TemporalIndex | FullTextIndex | VectorIndex

record index_definition =
  ix_name :: string
  ix_entity_type :: index_entity_type
  ix_label :: string
  ix_properties :: "string list"
  ix_kind :: index_kind

type_synonym 'n value_codec = "('n \<Rightarrow> 64 word option) \<times> ('n json \<Rightarrow> string)"

definition value_key :: "'n value_codec \<Rightarrow> 'n json \<Rightarrow> string" where
  "value_key cd v = property_index_value_key (fst cd) (snd cd) v"

definition is_property_backed_index_kind :: "index_kind \<Rightarrow> bool" where
  "is_property_backed_index_kind kind \<longleftrightarrow> kind = RangeIndex \<or> kind = TemporalIndex"

definition is_node_property_index :: "index_definition \<Rightarrow> bool" where
  "is_node_property_index d \<longleftrightarrow>
     ix_entity_type d = NodeEntity \<and> is_property_backed_index_kind (ix_kind d) \<and> ix_properties d \<noteq> []"

definition escape_index_component :: "string \<Rightarrow> string" where
  "escape_index_component v = hex_encode v"

definition label_index_prefix :: "string \<Rightarrow> string" where
  "label_index_prefix label = ''label_nodes/'' @ label @ ''/''"

definition label_index_key :: "string \<Rightarrow> string \<Rightarrow> string" where
  "label_index_key label node_id = label_index_prefix label @ node_id"

definition node_property_prefix :: "string \<Rightarrow> string \<Rightarrow> string" where
  "node_property_prefix label property =
     ''node_property/'' @ escape_index_component label @ ''/'' @ escape_index_component property @ ''/''"

definition node_property_value_prefix :: "'n value_codec \<Rightarrow> string \<Rightarrow> string \<Rightarrow> 'n json \<Rightarrow> string" where
  "node_property_value_prefix cd label property v = node_property_prefix label property @ value_key cd v @ ''/''"

definition node_property_key :: "'n value_codec \<Rightarrow> string \<Rightarrow> string \<Rightarrow> 'n json \<Rightarrow> string \<Rightarrow> string" where
  "node_property_key cd label property v node_id = node_property_value_prefix cd label property v @ node_id"

definition definition_prefix :: "string \<Rightarrow> string list \<Rightarrow> string" where
  "definition_prefix label properties =
     (if length properties = 1 then node_property_prefix label (properties ! 0)
      else ''node_property/'' @ escape_index_component label @ ''/composite/'' @
        join ''/'' (map escape_index_component properties) @ ''/values/'')"

text \<open>\<open>iter().map(f).collect::<Option<Vec<_>>>()\<close>\<close>

fun collect_opt :: "('a \<Rightarrow> 'b option) \<Rightarrow> 'a list \<Rightarrow> 'b list option" where
  "collect_opt f [] = Some []"
| "collect_opt f (x # xs) =
     (case f x of None \<Rightarrow> None | Some y \<Rightarrow> map_option ((#) y) (collect_opt f xs))"

definition lookup_prefix :: "'n value_codec \<Rightarrow> string \<Rightarrow> string list \<Rightarrow> (string \<rightharpoonup> 'n json) \<Rightarrow> string option" where
  "lookup_prefix cd label properties values =
     (case collect_opt values properties of
        None \<Rightarrow> None
      | Some vs \<Rightarrow>
          if length properties = 1 then Some (node_property_value_prefix cd label (properties ! 0) (vs ! 0))
          else Some (definition_prefix label properties @ join ''/'' (map (value_key cd) vs) @ ''/''))"

definition key_for_node :: "'n value_codec \<Rightarrow> index_definition \<Rightarrow> 'n json node_record \<Rightarrow> string option" where
  "key_for_node cd d node =
     (case collect_opt (bt_get (nr_properties node)) (ix_properties d) of
        None \<Rightarrow> None
      | Some vs \<Rightarrow>
          if length (ix_properties d) = 1
          then Some (node_property_key cd (ix_label d) (ix_properties d ! 0) (vs ! 0) (nr_id node))
          else Some (definition_prefix (ix_label d) (ix_properties d) @ join ''/'' (map (value_key cd) vs) @ ''/'' @ nr_id node))"

subsection \<open>The store\<close>

type_synonym key_space = "(string, unit) btree"

record 'n index_store =
  is_nodes :: "(string, 'n json node_record) btree"
  is_indexes :: key_space
  is_definitions :: "(string, index_definition) btree"
  is_tombstones :: "string set"

definition index_store_new :: "'n index_store" where
  "index_store_new = \<lparr>is_nodes = [], is_indexes = [], is_definitions = [], is_tombstones = {}\<rparr>"

definition node_property_indexes :: "'n index_store \<Rightarrow> index_definition list" where
  "node_property_indexes st = filter is_node_property_index (map snd (is_definitions st))"

text \<open>The macro \<open>stage_node_indexes\<close>: the node's keys are put in, or taken out.\<close>

definition stage_key :: "bool \<Rightarrow> string \<Rightarrow> key_space \<Rightarrow> key_space" where
  "stage_key put key ks = (if put then bt_insert key () ks else bt_remove key ks)"

definition stage_node_indexes ::
    "'n value_codec \<Rightarrow> bool \<Rightarrow> 'n json node_record \<Rightarrow> index_definition list \<Rightarrow> key_space \<Rightarrow> key_space" where
  "stage_node_indexes cd put node defs ks =
     (let ks = fold (\<lambda>label. stage_key put (label_index_key label (nr_id node))) (nr_labels node) ks
      in fold (\<lambda>d ks.
           if ix_label d \<in> set (nr_labels node)
           then (case key_for_node cd d node of None \<Rightarrow> ks | Some key \<Rightarrow> stage_key put key ks)
           else ks) defs ks)"

subsection \<open>Embeddings of a stored node\<close>

definition node_record_is_embedding_eligible :: "'j node_record \<Rightarrow> bool" where
  "node_record_is_embedding_eligible n \<longleftrightarrow>
     \<not> list_ex (\<lambda>label. starts_with label ''_'') (nr_labels n) \<and> bt_get (nr_properties n) ''embedding_skipped'' = None"

definition has_materialized_chunk_embeddings :: "'j node_record \<Rightarrow> bool" where
  "has_materialized_chunk_embeddings n = list_ex (\<lambda>e. e \<noteq> []) (nr_chunk_embeddings n)"

definition node_record_has_materialized_embedding :: "'j node_record \<Rightarrow> bool" where
  "node_record_has_materialized_embedding n \<longleftrightarrow>
     list_ex (\<lambda>e. snd e \<noteq> []) (nr_named_embeddings n) \<or> list_ex (\<lambda>e. e \<noteq> []) (nr_chunk_embeddings n)"

definition node_record_needs_embedding :: "'j node_record \<Rightarrow> bool" where
  "node_record_needs_embedding n \<longleftrightarrow> node_record_is_embedding_eligible n \<and> \<not> node_record_has_materialized_embedding n"

definition node_embedding_source_changed :: "'j node_record \<Rightarrow> 'j node_record \<Rightarrow> bool" where
  "node_embedding_source_changed old new \<longleftrightarrow> nr_labels old \<noteq> nr_labels new \<or> nr_properties old \<noteq> nr_properties new"

definition clear_materialized_state :: "node_embedding_metadata \<Rightarrow> node_embedding_metadata" where
  "clear_materialized_state em = em\<lparr>em_embedding_model := None, em_embedding_generation := None, em_embedding_dimensions := None,
     em_has_embedding := None, em_embedded_at := None, em_has_chunks := None, em_chunk_count := None\<rparr>"

definition clear_managed_chunk_embeddings :: "'j node_record \<Rightarrow> 'j node_record" where
  "clear_managed_chunk_embeddings n = n\<lparr>nr_chunk_embeddings := [], nr_embed_meta := clear_materialized_state (nr_embed_meta n)\<rparr>"

text \<open>What a commit writes in place of \<open>new\<close>: the embeddings of a changed source are dropped.\<close>

definition stored_node :: "'j node_record option \<Rightarrow> 'j node_record \<Rightarrow> 'j node_record" where
  "stored_node old new =
     (if (case old of None \<Rightarrow> False | Some o' \<Rightarrow> has_materialized_chunk_embeddings o' \<and> node_embedding_source_changed o' new) \<and>
        node_record_is_embedding_eligible new
      then clear_managed_chunk_embeddings new else new)"

lemma stored_node_simps [simp]:
  "nr_id (stored_node old n) = nr_id n" "nr_labels (stored_node old n) = nr_labels n" "nr_properties (stored_node old n) = nr_properties n"
  by (simp_all add: stored_node_def clear_managed_chunk_embeddings_def)

lemma key_for_node_stored [simp]: "key_for_node cd d (stored_node old n) = key_for_node cd d n"
  by (simp add: key_for_node_def split: option.split)

text \<open>A batch of one node: the record and its index keys are replaced, or removed.\<close>

definition commit_node ::
    "'n value_codec \<Rightarrow> string \<Rightarrow> 'n json node_record option \<Rightarrow> 'n index_store \<Rightarrow> 'n index_store" where
  "commit_node cd node_id new st =
     (let defs = node_property_indexes st;
          ks = (case bt_get (is_nodes st) node_id of
                  None \<Rightarrow> is_indexes st | Some old \<Rightarrow> stage_node_indexes cd False old defs (is_indexes st))
      in case new of
           Some node \<Rightarrow> st\<lparr>is_nodes := bt_insert node_id (stored_node (bt_get (is_nodes st) node_id) node) (is_nodes st), is_indexes := stage_node_indexes cd True node defs ks\<rparr>
         | None \<Rightarrow> st\<lparr>is_nodes := bt_remove node_id (is_nodes st), is_indexes := ks\<rparr>)"

definition is_put_node :: "'n value_codec \<Rightarrow> 'n json node_record \<Rightarrow> 'n index_store \<Rightarrow> 'n index_store" where
  "is_put_node cd node st = commit_node cd (nr_id node) (Some node) st"

definition is_delete_node :: "'n value_codec \<Rightarrow> string \<Rightarrow> 'n index_store \<Rightarrow> 'n index_store" where
  "is_delete_node cd node_id st = commit_node cd node_id None st"

subsection \<open>Scans\<close>

definition scan_prefix :: "string \<Rightarrow> key_space \<Rightarrow> string list" where
  "scan_prefix prefix ks = filter (\<lambda>key. starts_with key prefix) (bt_keys ks)"

text \<open>\<open>rsplit('/').next()\<close>\<close>

definition last_component :: "string \<Rightarrow> string" where
  "last_component key = rev (takeWhile (\<lambda>c. c \<noteq> CHR ''/'') (rev key))"

text \<open>The loop of the lookups over scanned keys: the nodes behind those that are not suppressed.\<close>

definition visible_nodes :: "'n index_store \<Rightarrow> string list \<Rightarrow> 'n json node_record list" where
  "visible_nodes st keys =
     List.map_filter (\<lambda>key. if key \<in> is_tombstones st then None else bt_get (is_nodes st) (last_component key)) keys"

definition all_nodes :: "'n index_store \<Rightarrow> 'n json node_record list" where
  "all_nodes st = map snd (is_nodes st)"

definition stream_nodes_by_label :: "string \<Rightarrow> 'n index_store \<Rightarrow> 'n json node_record list" where
  "stream_nodes_by_label label st =
     (let out = visible_nodes st (scan_prefix (label_index_prefix label) (is_indexes st))
      in if out = [] then filter (\<lambda>node. label \<in> set (nr_labels node)) (all_nodes st) else out)"

text \<open>\<open>dedup_by\<close> on ids: of neighbours with one id, the first.\<close>

fun dedup_ids :: "'j node_record list \<Rightarrow> 'j node_record list" where
  "dedup_ids (a # b # rest) = (if nr_id a = nr_id b then dedup_ids (a # rest) else a # dedup_ids (b # rest))"
| "dedup_ids xs = xs"

definition is_nodes_by_label :: "string \<Rightarrow> 'n index_store \<Rightarrow> 'n json node_record list" where
  "is_nodes_by_label label st = dedup_ids (sort_key nr_id (stream_nodes_by_label label st))"

subsection \<open>Creating and dropping indexes, tombstones\<close>

definition delete_index_entries :: "index_definition \<Rightarrow> key_space \<Rightarrow> key_space" where
  "delete_index_entries d ks = fold bt_remove (scan_prefix (definition_prefix (ix_label d) (ix_properties d)) ks) ks"

definition rebuild_index :: "'n value_codec \<Rightarrow> index_definition \<Rightarrow> 'n index_store \<Rightarrow> 'n index_store" where
  "rebuild_index cd d st =
     (let st = st\<lparr>is_indexes := delete_index_entries d (is_indexes st)\<rparr>
      in st\<lparr>is_indexes := fold (\<lambda>node ks. case key_for_node cd d node of None \<Rightarrow> ks | Some key \<Rightarrow> bt_insert key () ks)
                             (stream_nodes_by_label (ix_label d) st) (is_indexes st)\<rparr>)"

definition persist_index_definition :: "'n value_codec \<Rightarrow> index_definition \<Rightarrow> 'n index_store \<Rightarrow> 'n index_store" where
  "persist_index_definition cd d st =
     (let st = (if is_node_property_index d then rebuild_index cd d st else st)
      in st\<lparr>is_definitions := bt_insert (ix_name d) d (is_definitions st)\<rparr>)"

definition delete_index_definition :: "string \<Rightarrow> 'n index_store \<Rightarrow> 'n index_store \<times> bool" where
  "delete_index_definition name st =
     (case bt_get (is_definitions st) name of
        None \<Rightarrow> (st, False)
      | Some d \<Rightarrow>
          (let st = st\<lparr>is_definitions := bt_remove name (is_definitions st)\<rparr>
           in (if is_node_property_index d then st\<lparr>is_indexes := delete_index_entries d (is_indexes st)\<rparr> else st, True)))"

definition write_index_tombstones :: "string list \<Rightarrow> 'n index_store \<Rightarrow> 'n index_store" where
  "write_index_tombstones keys st = st\<lparr>is_tombstones := set keys \<union> is_tombstones st\<rparr>"

definition delete_index_tombstones :: "string list \<Rightarrow> 'n index_store \<Rightarrow> 'n index_store" where
  "delete_index_tombstones keys st = st\<lparr>is_tombstones := is_tombstones st - set keys\<rparr>"

subsection \<open>Lookups by property\<close>

definition has_node_property_index :: "string \<Rightarrow> string \<Rightarrow> 'n index_store \<Rightarrow> bool" where
  "has_node_property_index label property st =
     list_ex (\<lambda>d. ix_label d = label \<and> ix_properties d ! 0 = property) (node_property_indexes st)"

definition has_exact_node_property_index :: "string \<Rightarrow> string list \<Rightarrow> 'n index_store \<Rightarrow> bool" where
  "has_exact_node_property_index label properties st =
     list_ex (\<lambda>d. ix_label d = label \<and> ix_properties d = properties) (node_property_indexes st)"

definition nodes_by_property :: "'n value_codec \<Rightarrow> string \<Rightarrow> string \<Rightarrow> 'n json \<Rightarrow> 'n index_store \<Rightarrow> 'n json node_record list" where
  "nodes_by_property cd label property v st =
     (if \<not> has_node_property_index label property st then []
      else sort_key nr_id (List.map_filter (\<lambda>key. bt_get (is_nodes st) (last_component key))
             (scan_prefix (node_property_value_prefix cd label property v) (is_indexes st))))"

definition nodes_by_properties ::
    "'n value_codec \<Rightarrow> string \<Rightarrow> string list \<Rightarrow> (string \<rightharpoonup> 'n json) \<Rightarrow> 'n index_store \<Rightarrow> 'n json node_record list" where
  "nodes_by_properties cd label properties values st =
     (if \<not> has_exact_node_property_index label properties st then []
      else (case lookup_prefix cd label properties values of
              None \<Rightarrow> []
            | Some prefix \<Rightarrow> sort_key nr_id (visible_nodes st (scan_prefix prefix (is_indexes st)))))"

definition node_property_matches_range ::
    "'n value_codec \<Rightarrow> string \<Rightarrow> range_comparison \<Rightarrow> 'n json \<Rightarrow> 'n json node_record \<Rightarrow> bool" where
  "node_property_matches_range cd property comparison expected node =
     (case bt_get (nr_properties node) property of
        None \<Rightarrow> False
      | Some actual \<Rightarrow> range_holds comparison (compare_index_values (fst cd) actual expected))"

definition node_matches_exact_suffix :: "string list \<Rightarrow> (string \<rightharpoonup> 'n json) \<Rightarrow> 'n json node_record \<Rightarrow> bool" where
  "node_matches_exact_suffix properties exact node =
     list_all (\<lambda>p. case exact p of None \<Rightarrow> True | Some expected \<Rightarrow> bt_get (nr_properties node) p = Some expected) properties"

text \<open>The scan of a range: each id once, in key order.\<close>

definition scan_range :: "string \<times> string option \<Rightarrow> key_space \<Rightarrow> string list" where
  "scan_range bounds ks = filter (in_bounds bounds) (bt_keys ks)"

fun range_loop ::
    "'n index_store \<Rightarrow> ('n json node_record \<Rightarrow> bool) \<Rightarrow> string list \<Rightarrow> string set \<Rightarrow> 'n json node_record list" where
  "range_loop st P [] seen = []"
| "range_loop st P (key # keys) seen =
     (if key \<in> is_tombstones st then range_loop st P keys seen
      else (let node_id = last_component key
            in if node_id \<in> seen then range_loop st P keys seen
               else (case bt_get (is_nodes st) node_id of
                       None \<Rightarrow> range_loop st P keys (insert node_id seen)
                     | Some node \<Rightarrow>
                         (if P node then [node] else []) @ range_loop st P keys (insert node_id seen))))"

definition nodes_by_property_range ::
    "'n value_codec \<Rightarrow> string \<Rightarrow> string \<Rightarrow> range_comparison \<Rightarrow> 'n json \<Rightarrow> 'n index_store \<Rightarrow> 'n json node_record list" where
  "nodes_by_property_range cd label property comparison v st =
     (if \<not> has_node_property_index label property st then []
      else (case range_scan_bounds (fst cd) (node_property_prefix label property) comparison v of
              None \<Rightarrow> []
            | Some bounds \<Rightarrow>
                sort_key nr_id (range_loop st (node_property_matches_range cd property comparison v)
                  (scan_range bounds (is_indexes st)) {})))"

definition range_lookup_prefix ::
    "'n value_codec \<Rightarrow> string \<Rightarrow> string list \<Rightarrow> nat \<Rightarrow> (string \<rightharpoonup> 'n json) \<Rightarrow> string option" where
  "range_lookup_prefix cd label properties k exact =
     (if k = 0 then Some (definition_prefix label properties)
      else map_option (\<lambda>vs. definition_prefix label properties @ join ''/'' (map (value_key cd) vs) @ ''/'')
        (collect_opt exact (take k properties)))"

definition nodes_by_properties_range ::
    "'n value_codec \<Rightarrow> string \<Rightarrow> string list \<Rightarrow> string \<Rightarrow> range_comparison \<Rightarrow> 'n json \<Rightarrow> (string \<rightharpoonup> 'n json) \<Rightarrow>
     'n index_store \<Rightarrow> 'n json node_record list" where
  "nodes_by_properties_range cd label properties range_property comparison v exact st =
     (if range_property \<notin> set properties then []
      else (let k = length (takeWhile (\<lambda>p. p \<noteq> range_property) properties)
            in if \<not> has_exact_node_property_index label properties st then []
               else (case range_lookup_prefix cd label properties k exact of
                       None \<Rightarrow> []
                     | Some prefix \<Rightarrow>
                         (case range_scan_bounds (fst cd) prefix comparison v of
                            None \<Rightarrow> []
                          | Some bounds \<Rightarrow>
                              sort_key nr_id (range_loop st
                                (\<lambda>node. node_property_matches_range cd range_property comparison v node \<and>
                                   node_matches_exact_suffix properties exact node)
                                (scan_range bounds (is_indexes st)) {})))))"

end
