(* ===== verification/Node_Index_Keys.thy ===== *)
theory Node_Index_Keys
  imports Node_Index
begin

text \<open>
  The index keys of crates/storage/src/lib.rs as paths of components: a key determines its node, and
  the prefix of an index its label and properties. The whole key space of a store is then exactly the
  keys of its nodes, kept by every operation.
\<close>

subsection \<open>Components\<close>

definition slash_free :: "string \<Rightarrow> bool" where
  "slash_free s \<longleftrightarrow> CHR ''/'' \<notin> set s"

definition path :: "string list \<Rightarrow> string" where
  "path cs = concat (map (\<lambda>c. c @ ''/'') cs)"

lemma path_simps [simp]: "path [] = []" "path (c # cs) = c @ CHR ''/'' # path cs" "path (cs @ ds) = path cs @ path ds"
  by (simp_all add: path_def)

lemma path_join: "cs \<noteq> [] \<Longrightarrow> join ''/'' cs @ CHR ''/'' # r = path cs @ r"
  by (induction cs rule: induct_list012) simp_all

lemma marked_append_eq: "x \<notin> set a \<Longrightarrow> x \<notin> set b \<Longrightarrow> a @ x # c = b @ x # d \<longleftrightarrow> a = b \<and> c = d"
proof (induction a arbitrary: b)
  case Nil
  then show ?case by (cases b) auto
next
  case (Cons y a)
  then show ?case by (cases b) auto
qed

lemma first_slash: "slash_free a \<Longrightarrow> slash_free b \<Longrightarrow> a @ CHR ''/'' # x = b @ CHR ''/'' # y \<longleftrightarrow> a = b \<and> x = y"
  unfolding slash_free_def by (rule marked_append_eq)

lemma path_prefix:
  assumes "\<forall>c\<in>set xs \<union> set ys. slash_free c" "slash_free t" "path ys @ t = path xs @ r"
  shows "\<exists>zs. ys = xs @ zs"
  using assms
proof (induction xs arbitrary: ys)
  case (Cons x xs)
  show ?case
  proof (cases ys)
    case Nil
    then have "CHR ''/'' \<in> set t" using Cons.prems(3) by simp
    then show ?thesis using Cons.prems(2) by (simp add: slash_free_def)
  next
    case (Cons y ys')
    have "slash_free y" "slash_free x" using Cons Cons.prems(1) by auto
    then have "y = x" "path ys' @ t = path xs @ r" using Cons Cons.prems(3) by (simp_all add: first_slash)
    moreover from this Cons.IH [of ys'] Cons Cons.prems(1,2) have "\<exists>zs. ys' = xs @ zs" by auto
    ultimately show ?thesis using Cons by auto
  qed
qed simp

lemma last_component [simp]: "slash_free t \<Longrightarrow> last_component (p @ CHR ''/'' # t) = t"
  by (simp add: last_component_def slash_free_def takeWhile_append)

subsection \<open>Hexadecimal components\<close>

lemma hex_chars: "set (hex_encode s) \<subseteq> set ''0123456789abcdef''"
proof -
  have "list_all (\<lambda>d. hex_digit d \<in> set ''0123456789abcdef'') [0, 1, 2, 3, 4, 5, 6, 7, 8, 9, 10, 11, 12, 13, 14, 15]"
    by (simp add: hex_digit_def)
  then have d: "hex_digit (x mod 16) \<in> set ''0123456789abcdef''" for x by (rule below_16) simp
  have "set (hex_fixed n x) \<subseteq> set ''0123456789abcdef''" for n x
    by (induction n) (use d in auto)
  then show ?thesis by (induction s) auto
qed

lemma hex_number_chars: "set (hex_fixed n x) \<subseteq> set ''0123456789abcdef''"
proof -
  have "list_all (\<lambda>d. hex_digit d \<in> set ''0123456789abcdef'') [0, 1, 2, 3, 4, 5, 6, 7, 8, 9, 10, 11, 12, 13, 14, 15]"
    by (simp add: hex_digit_def)
  then have "hex_digit (x mod 16) \<in> set ''0123456789abcdef''" for x by (rule below_16) simp
  then show ?thesis by (induction n) auto
qed

lemma slash_free_hex [simp]: "slash_free (hex_encode s)" "slash_free (hex_fixed n x)"
  using hex_chars [of s] hex_number_chars [of n x] by (auto simp: slash_free_def)

lemma slash_free_simps [simp]: "slash_free []" "slash_free (c # s) \<longleftrightarrow> c \<noteq> CHR ''/'' \<and> slash_free s"
  "slash_free (s @ t) \<longleftrightarrow> slash_free s \<and> slash_free t"
  by (auto simp: slash_free_def)

lemma slash_free_value_key [simp]: "slash_free (value_key cd v)"
  by (auto simp: value_key_def property_index_value_key_def ordered_value_key_def split: option.split json.split)

lemma hex_encode_inj [simp]: "hex_encode s = hex_encode t \<longleftrightarrow> s = t"
  using hex_encode_less [of s t "[]" "''/''"] hex_encode_less [of t s "[]" "''/''"]
  by (metis less_irrefl linorder_neqE)

lemma not_hex: "''composite'' \<noteq> hex_encode s" "''values'' \<noteq> hex_encode s"
proof -
  have "CHR ''o'' \<notin> set (hex_encode s)" "CHR ''v'' \<notin> set (hex_encode s)" using hex_chars [of s] by auto
  moreover have "CHR ''o'' \<in> set ''composite''" "CHR ''v'' \<in> set ''values''" by simp_all
  ultimately show "''composite'' \<noteq> hex_encode s" "''values'' \<noteq> hex_encode s" by metis+
qed

subsection \<open>Keys as paths\<close>

definition def_path :: "string \<Rightarrow> string list \<Rightarrow> string list" where
  "def_path label properties = ''node_property'' # hex_encode label #
     (if length properties = 1 then [hex_encode (properties ! 0)]
      else ''composite'' # map hex_encode properties @ [''values''])"

lemma escape_is_hex [simp]: "escape_index_component = hex_encode"
  by (simp add: fun_eq_iff escape_index_component_def)

lemma definition_prefix_path: "properties \<noteq> [] \<Longrightarrow> definition_prefix label properties = path (def_path label properties)"
  using path_join [of "map hex_encode properties" "''values/''"]
  by (simp add: definition_prefix_def node_property_prefix_def def_path_def)

lemma collect_opt_Some: "collect_opt f xs = Some ys \<longleftrightarrow> list_all2 (\<lambda>x y. f x = Some y) xs ys"
  by (induction xs arbitrary: ys) (auto split: option.splits simp: list_all2_Cons1)

lemma collect_opt_length: "collect_opt f xs = Some ys \<Longrightarrow> length ys = length xs"
  by (simp add: collect_opt_Some list_all2_lengthD)

lemma key_for_node_path:
  assumes "ix_properties d \<noteq> []" "key_for_node cd d node = Some key"
  shows "\<exists>vs. collect_opt (bt_get (nr_properties node)) (ix_properties d) = Some vs \<and>
    key = path (def_path (ix_label d) (ix_properties d) @ map (value_key cd) vs) @ nr_id node"
proof -
  obtain vs where vs: "collect_opt (bt_get (nr_properties node)) (ix_properties d) = Some vs"
    using assms(2) by (auto simp: key_for_node_def split: option.splits)
  then have "vs \<noteq> []" using assms(1) collect_opt_length by fastforce
  note prefix = definition_prefix_path [OF assms(1), of "ix_label d"]
  show ?thesis
  proof (cases "length (ix_properties d) = 1")
    case True
    then obtain v where "vs = [v]" using collect_opt_length [OF vs] by (cases vs) auto
    then show ?thesis
      using vs assms(2) True prefix
      by (auto simp: key_for_node_def node_property_key_def node_property_value_prefix_def definition_prefix_def def_path_def)
  next
    case False
    then show ?thesis
      using vs assms(2) prefix path_join [of "map (value_key cd) vs" "nr_id node"] \<open>vs \<noteq> []\<close>
      by (auto simp: key_for_node_def)
  qed
qed

lemma def_path_slash_free: "\<forall>c\<in>set (def_path label properties). slash_free c"
  by (auto simp: def_path_def)

lemma def_path_prefix:
  assumes "def_path l ps @ zs = def_path l' ps' @ ws" "ps \<noteq> []" "ps' \<noteq> []"
  shows "l = l' \<and> ps = ps'"
proof -
  have l: "l = l'" using assms(1) by (simp add: def_path_def)
  consider "length ps = 1" "length ps' = 1" | "length ps = 1" "length ps' \<noteq> 1" | "length ps \<noteq> 1" "length ps' = 1"
    | "length ps \<noteq> 1" "length ps' \<noteq> 1" by blast
  then have "ps = ps'"
  proof cases
    case 1
    then obtain p p' where "ps = [p]" "ps' = [p']" by (auto simp: length_Suc_conv)
    with assms(1) show ?thesis by (simp add: def_path_def)
  next
    case 4
    then have eq: "map hex_encode ps @ ''values'' # zs = map hex_encode ps' @ ''values'' # ws"
      using assms(1) by (simp add: def_path_def)
    have "''values'' \<notin> set (map hex_encode qs)" for qs using not_hex by (auto simp: image_iff)
    from iffD1 [OF marked_append_eq [OF this this] eq] have "map hex_encode ps = map hex_encode ps'" by (rule conjunct1)
    moreover have "inj hex_encode" by (rule injI) simp
    ultimately show ?thesis by (simp only: inj_map_eq_map)
  qed (use assms(1) not_hex not_hex [symmetric] in \<open>auto simp: def_path_def\<close>)
  with l show ?thesis by simp
qed

text \<open>A key that lies under the prefix of an index is a key of that label and those properties.\<close>

lemma key_under_prefix:
  assumes "key_for_node cd d' node = Some key" "ix_properties d' \<noteq> []" "slash_free (nr_id node)"
    and "starts_with key (definition_prefix label properties)" "properties \<noteq> []"
  shows "ix_label d' = label \<and> ix_properties d' = properties"
proof -
  obtain vs where key: "key = path (def_path (ix_label d') (ix_properties d') @ map (value_key cd) vs) @ nr_id node"
    using key_for_node_path [OF assms(2,1)] by blast
  obtain r where "key = path (def_path label properties) @ r"
    using assms(4,5) by (auto simp: starts_with_iff definition_prefix_path)
  with key have eq: "path (def_path (ix_label d') (ix_properties d') @ map (value_key cd) vs) @ nr_id node = path (def_path label properties) @ r"
    by simp
  have "\<forall>c\<in>set (def_path label properties) \<union> set (def_path (ix_label d') (ix_properties d') @ map (value_key cd) vs). slash_free c"
    using def_path_slash_free [of label properties] def_path_slash_free [of "ix_label d'" "ix_properties d'"] by auto
  from path_prefix [OF this assms(3) eq]
  obtain zs where "def_path (ix_label d') (ix_properties d') @ map (value_key cd) vs = def_path label properties @ zs" by blast
  from def_path_prefix [OF this assms(2,5)] show ?thesis .
qed

lemma key_for_node_prefix:
  assumes "key_for_node cd d node = Some key" "ix_properties d \<noteq> []"
  shows "starts_with key (definition_prefix (ix_label d) (ix_properties d))"
  using key_for_node_path [OF assms(2,1)] assms(2) by (auto simp: starts_with_iff definition_prefix_path)

lemma key_for_node_last:
  assumes "key_for_node cd d node = Some key" "ix_properties d \<noteq> []" "slash_free (nr_id node)"
  shows "last_component key = nr_id node"
proof -
  obtain vs where vs: "collect_opt (bt_get (nr_properties node)) (ix_properties d) = Some vs"
    "key = path (def_path (ix_label d) (ix_properties d) @ map (value_key cd) vs) @ nr_id node"
    using key_for_node_path [OF assms(2,1)] by blast
  then have "vs \<noteq> []" using assms(2) collect_opt_length by fastforce
  then obtain us v where "vs = us @ [v]" by (cases vs rule: rev_cases) auto
  then show ?thesis using vs assms(3) last_component [of "nr_id node" "path (def_path (ix_label d) (ix_properties d) @ map (value_key cd) us) @ value_key cd v"]
    by simp
qed

end
