(* ===== verification/Node_Index_Store.thy ===== *)
theory Node_Index_Store
  imports Node_Index_Keys
begin

text \<open>
  The invariant of the index store of crates/storage/src/lib.rs: the key space holds exactly the label
  and property keys of the stored nodes. Every write, index creation and removal keeps it, for node ids
  and labels without a slash, indexes that differ in label or properties, and a creation that no
  tombstone hides a node from.
\<close>

subsection \<open>The keys of a node\<close>

definition node_keys :: "'n value_codec \<Rightarrow> index_definition set \<Rightarrow> 'n json node_record \<Rightarrow> string set" where
  "node_keys cd defs n = (\<lambda>label. label_index_key label (nr_id n)) ` set (nr_labels n) \<union>
     {key. \<exists>d\<in>defs. ix_label d \<in> set (nr_labels n) \<and> key_for_node cd d n = Some key}"

definition keys_of :: "key_space \<Rightarrow> string set" where
  "keys_of ks = fst ` set ks"

lemma keys_of_simps [simp]:
  "keys_of [] = {}" "keys_of (bt_insert key u ks) = insert key (keys_of ks)" "keys_of (bt_remove key ks) = keys_of ks - {key}"
  by (auto simp: keys_of_def set_bt_insert bt_remove_def image_iff)

lemma keys_of_stage: "keys_of (stage_key put key ks) = (if put then insert key (keys_of ks) else keys_of ks - {key})"
  by (simp add: stage_key_def)

lemma bt_wf_stage [wf_intros]: "bt_wf ks \<Longrightarrow> bt_wf (stage_key put key ks)"
  by (simp add: stage_key_def bt_wf_insert bt_wf_remove)

lemma keys_of_stage_labels:
  "keys_of (fold (\<lambda>label. stage_key put (f label)) ls ks) = (if put then keys_of ks \<union> f ` set ls else keys_of ks - f ` set ls)"
  by (induction ls arbitrary: ks) (auto simp: keys_of_stage)

lemma keys_of_stage_defs:
  "keys_of (fold (\<lambda>d ks. if P d then (case g d of None \<Rightarrow> ks | Some key \<Rightarrow> stage_key put key ks) else ks) ds ks) =
     (let K = {key. \<exists>d\<in>set ds. P d \<and> g d = Some key} in if put then keys_of ks \<union> K else keys_of ks - K)"
proof (induction ds arbitrary: ks)
  case (Cons d ds)
  then show ?case by (cases "g d"; cases "P d") (auto simp: keys_of_stage Let_def)
qed (simp add: Let_def)

lemma keys_of_stage_node:
  "keys_of (stage_node_indexes cd put n ds ks) =
     (if put then keys_of ks \<union> node_keys cd (set ds) n else keys_of ks - node_keys cd (set ds) n)"
  by (auto simp: stage_node_indexes_def Let_def keys_of_stage_labels keys_of_stage_defs node_keys_def)

lemma bt_wf_stage_node [wf_intros]: "bt_wf ks \<Longrightarrow> bt_wf (stage_node_indexes cd put n ds ks)"
proof -
  have labels: "bt_wf ks \<Longrightarrow> bt_wf (fold (\<lambda>label. stage_key put (f label)) ls ks)" for f and ls :: "string list" and ks
    by (induction ls arbitrary: ks) (auto intro: wf_intros)
  have "bt_wf ks \<Longrightarrow> bt_wf (fold (\<lambda>d ks. if P d then (case g d of None \<Rightarrow> ks | Some key \<Rightarrow> stage_key put key ks) else ks) ds ks)"
    for P and g :: "index_definition \<Rightarrow> string option" and ks
    by (induction ds arbitrary: ks) (auto intro: wf_intros split: option.split)
  with labels show "bt_wf ks \<Longrightarrow> bt_wf (stage_node_indexes cd put n ds ks)"
    by (simp add: stage_node_indexes_def Let_def)
qed

lemma node_keys_last:
  assumes "key \<in> node_keys cd defs n" "\<forall>d\<in>defs. ix_properties d \<noteq> []" "slash_free (nr_id n)"
  shows "last_component key = nr_id n"
proof -
  have "last_component (label_index_key label (nr_id n)) = nr_id n" for label
    using last_component [OF assms(3), of "''label_nodes/'' @ label"]
    by (simp add: label_index_key_def label_index_prefix_def)
  moreover from assms(1) have "(\<exists>label. key = label_index_key label (nr_id n)) \<or> (\<exists>d\<in>defs. key_for_node cd d n = Some key)"
    unfolding node_keys_def by blast
  ultimately show ?thesis using assms(2,3) key_for_node_last by blast
qed

subsection \<open>The invariant\<close>

definition clean_node :: "'j node_record \<Rightarrow> bool" where
  "clean_node n \<longleftrightarrow> slash_free (nr_id n) \<and> (\<forall>label\<in>set (nr_labels n). slash_free label)"

definition same_index :: "index_definition \<Rightarrow> index_definition \<Rightarrow> bool" where
  "same_index d e \<longleftrightarrow> ix_label d = ix_label e \<and> ix_properties d = ix_properties e"

definition property_indexes :: "'n index_store \<Rightarrow> index_definition set" where
  "property_indexes st = set (node_property_indexes st)"

definition nodes_of :: "'n index_store \<Rightarrow> 'n json node_record set" where
  "nodes_of st = snd ` set (is_nodes st)"

definition index_ok :: "'n value_codec \<Rightarrow> 'n index_store \<Rightarrow> bool" where
  "index_ok cd st \<longleftrightarrow> bt_wf (is_nodes st) \<and> bt_wf (is_indexes st) \<and> bt_wf (is_definitions st) \<and>
     (\<forall>(i, n)\<in>set (is_nodes st). nr_id n = i \<and> clean_node n) \<and>
     (\<forall>(k, d)\<in>set (is_definitions st). ix_name d = k) \<and>
     (\<forall>d\<in>property_indexes st. \<forall>e\<in>property_indexes st. same_index d e \<longrightarrow> d = e) \<and>
     keys_of (is_indexes st) = \<Union> (node_keys cd (property_indexes st) ` nodes_of st)"

lemma property_indexes_iff: "d \<in> property_indexes st \<longleftrightarrow> is_node_property_index d \<and> d \<in> snd ` set (is_definitions st)"
  by (auto simp: property_indexes_def node_property_indexes_def)

lemma property_indexes_ne: "\<forall>d\<in>property_indexes st. ix_properties d \<noteq> []"
  by (auto simp: property_indexes_iff is_node_property_index_def)

lemma get_node_iff: "index_ok cd st \<Longrightarrow> bt_get (is_nodes st) i = Some n \<longleftrightarrow> n \<in> nodes_of st \<and> nr_id n = i"
proof -
  assume ok: "index_ok cd st"
  then have wf: "bt_wf (is_nodes st)" and ids: "\<forall>e\<in>set (is_nodes st). nr_id (snd e) = fst e" by (auto simp: index_ok_def)
  show ?thesis unfolding bt_get_Some_iff [OF wf] nodes_of_def using ids by force
qed

lemma nodes_of_clean: "index_ok cd st \<Longrightarrow> n \<in> nodes_of st \<Longrightarrow> clean_node n"
  by (auto simp: index_ok_def nodes_of_def)

lemma nodes_of_unique: "index_ok cd st \<Longrightarrow> n \<in> nodes_of st \<Longrightarrow> m \<in> nodes_of st \<Longrightarrow> nr_id n = nr_id m \<Longrightarrow> n = m"
  by (metis get_node_iff option.inject)

lemma index_ok_key:
  assumes "index_ok cd st"
  shows "key \<in> keys_of (is_indexes st) \<longleftrightarrow> (\<exists>n\<in>nodes_of st. key \<in> node_keys cd (property_indexes st) n)"
  using assms by (auto simp: index_ok_def)

lemma key_last:
  assumes "index_ok cd st" "n \<in> nodes_of st" "key \<in> node_keys cd (property_indexes st) n"
  shows "last_component key = nr_id n"
  using node_keys_last [OF assms(3) property_indexes_ne] nodes_of_clean [OF assms(1,2)] by (simp add: clean_node_def)

lemma index_ok_new: "index_ok cd index_store_new"
  by (simp add: index_ok_def index_store_new_def property_indexes_def node_property_indexes_def nodes_of_def)

subsection \<open>Writing nodes\<close>

lemma image_other_ids:
  assumes "\<forall>e\<in>S. f (snd e) = fst e" shows "snd ` {e \<in> S. fst e \<noteq> i} = {n \<in> snd ` S. f n \<noteq> i}"
proof (intro set_eqI iffI)
  fix n assume "n \<in> snd ` {e \<in> S. fst e \<noteq> i}"
  then obtain e where "e \<in> S" "fst e \<noteq> i" "n = snd e" by blast
  with assms show "n \<in> {n \<in> snd ` S. f n \<noteq> i}" by simp
next
  fix n assume "n \<in> {n \<in> snd ` S. f n \<noteq> i}"
  then obtain e where "e \<in> S" "f n \<noteq> i" "n = snd e" by blast
  with assms have "e \<in> {e \<in> S. fst e \<noteq> i}" by simp
  with \<open>n = snd e\<close> show "n \<in> snd ` {e \<in> S. fst e \<noteq> i}" by simp
qed

lemma commit_node_ok:
  assumes ok: "index_ok cd st" and new: "\<forall>n. new = Some n \<longrightarrow> nr_id n = i \<and> clean_node n"
  shows "index_ok cd (commit_node cd i new st)"
proof -
  let ?st = "commit_node cd i new st" and ?D = "property_indexes st"
  let ?others = "{n \<in> nodes_of st. nr_id n \<noteq> i}"
  have D: "property_indexes ?st = ?D" and defs: "is_definitions ?st = is_definitions st"
    by (auto simp: commit_node_def Let_def property_indexes_def node_property_indexes_def split: option.split)
  define ks where "ks = (case bt_get (is_nodes st) i of None \<Rightarrow> is_indexes st
    | Some old \<Rightarrow> stage_node_indexes cd False old (node_property_indexes st) (is_indexes st))"
  have wf: "bt_wf ks" using ok by (auto simp: ks_def index_ok_def intro: wf_intros split: option.split)
  have ks: "keys_of ks = \<Union> (node_keys cd ?D ` ?others)"
  proof (cases "bt_get (is_nodes st) i")
    case None
    then have "?others = nodes_of st" using get_node_iff [OF ok, of i] by auto
    then show ?thesis using None ok by (simp add: ks_def index_ok_def)
  next
    case (Some old)
    then have old: "old \<in> nodes_of st" "nr_id old = i" using get_node_iff [OF ok, of i old] by auto
    have "keys_of ks = \<Union> (node_keys cd ?D ` nodes_of st) - node_keys cd ?D old"
      using ok Some by (simp add: ks_def keys_of_stage_node index_ok_def property_indexes_def)
    also have "\<dots> = \<Union> (node_keys cd ?D ` ?others)"
    proof -
      have "n = old" if "n \<in> nodes_of st" "nr_id n = i" for n using nodes_of_unique [OF ok] that old by auto
      moreover have "key \<notin> node_keys cd ?D old" if "n \<in> nodes_of st" "nr_id n \<noteq> i" "key \<in> node_keys cd ?D n" for n key
        using key_last [OF ok that(1,3)] key_last [OF ok old(1), of key] that(2) old(2) by auto
      ultimately show ?thesis by blast
    qed
    finally show ?thesis .
  qed
  have gone: "?st = st\<lparr>is_nodes := bt_remove i (is_nodes st), is_indexes := ks\<rparr>" if "new = None"
    by (simp add: commit_node_def Let_def ks_def that)
  have put: "?st = st\<lparr>is_nodes := bt_insert i (stored_node (bt_get (is_nodes st) i) n) (is_nodes st), is_indexes := stage_node_indexes cd True n (node_property_indexes st) ks\<rparr>"
    if "new = Some n" for n by (simp add: commit_node_def Let_def ks_def that)
  have "\<forall>e\<in>set (is_nodes st). nr_id (snd e) = fst e"
    using ok by (auto simp: index_ok_def)
  note others = image_other_ids [where f = nr_id, OF this, of i, folded nodes_of_def]
  show ?thesis
  proof (cases new)
    case None
    have "nodes_of ?st = ?others" using others by (simp add: gone [OF None] nodes_of_def bt_remove_def)
    then show ?thesis using ok wf ks D defs
      by (simp add: index_ok_def gone [OF None] bt_wf_remove) (auto simp: bt_remove_def)
  next
    case (Some n)
    let ?n = "stored_node (bt_get (is_nodes st) i) n"
    have tab: "is_nodes ?st = bt_insert i ?n (is_nodes st)"
      and keys: "is_indexes ?st = stage_node_indexes cd True n (node_property_indexes st) ks" by (simp_all add: put [OF Some])
    have "nodes_of ?st = insert ?n ?others" unfolding nodes_of_def [of ?st] tab set_bt_insert using others by simp
    moreover have "node_keys cd D ?n = node_keys cd D n" for D by (simp add: node_keys_def)
    ultimately have "keys_of (is_indexes ?st) = \<Union> (node_keys cd ?D ` nodes_of ?st)"
      by (auto simp: keys keys_of_stage_node ks property_indexes_def)
    moreover have "\<forall>(j, m)\<in>set (is_nodes ?st). nr_id m = j \<and> clean_node m"
      unfolding tab set_bt_insert using ok new Some by (auto simp: index_ok_def clean_node_def)
    moreover have "bt_wf (is_nodes ?st)" "bt_wf (is_indexes ?st)" using ok wf by (simp_all add: put [OF Some] index_ok_def wf_intros)
    ultimately show ?thesis using ok D defs by (simp add: index_ok_def)
  qed
qed

subsection \<open>Scanning labels\<close>

lemma set_scan_prefix: "set (scan_prefix p ks) = {key \<in> keys_of ks. starts_with key p}"
  by (auto simp: scan_prefix_def bt_keys_def keys_of_def)

lemma label_prefix_iff:
  assumes "clean_node n" "slash_free label" "key \<in> node_keys cd D n" "\<forall>d\<in>D. ix_properties d \<noteq> []"
  shows "starts_with key (label_index_prefix label) \<longleftrightarrow> label \<in> set (nr_labels n) \<and> key = label_index_key label (nr_id n)"
proof -
  have free: "slash_free (nr_id n)" "\<forall>l\<in>set (nr_labels n). slash_free l" using assms(1) by (auto simp: clean_node_def)
  from assms(3) consider l where "l \<in> set (nr_labels n)" "key = label_index_key l (nr_id n)"
    | d where "d \<in> D" "key_for_node cd d n = Some key"
    unfolding node_keys_def by blast
  then show ?thesis
  proof cases
    case 1
    then show ?thesis
      using free assms(2) by (auto simp: label_index_key_def label_index_prefix_def starts_with_iff first_slash)
  next
    case 2
    then have "hd key = CHR ''n''"
      using key_for_node_path [of d cd n key] assms(4) by (auto simp: def_path_def)
    then show ?thesis by (auto simp: label_index_key_def label_index_prefix_def starts_with_iff)
  qed
qed

definition unsuppressed :: "'n index_store \<Rightarrow> string \<Rightarrow> bool" where
  "unsuppressed st label \<longleftrightarrow> (\<forall>key\<in>is_tombstones st. \<not> starts_with key (label_index_prefix label))"

lemma set_visible_nodes:
  "set (visible_nodes st keys) = {n. \<exists>key\<in>set keys. key \<notin> is_tombstones st \<and> bt_get (is_nodes st) (last_component key) = Some n}"
  by (induction keys) (auto simp: visible_nodes_def List.map_filter_simps split: option.split if_splits)

lemma stream_label:
  assumes ok: "index_ok cd st" and "slash_free label" "unsuppressed st label"
  shows "set (stream_nodes_by_label label st) = {n \<in> nodes_of st. label \<in> set (nr_labels n)}"
proof -
  let ?keys = "scan_prefix (label_index_prefix label) (is_indexes st)"
  have "set (visible_nodes st ?keys) = {n \<in> nodes_of st. label \<in> set (nr_labels n)}" (is "?l = ?r")
  proof (intro set_eqI iffI)
    fix n assume "n \<in> ?l"
    then obtain key where key: "key \<in> keys_of (is_indexes st)" "starts_with key (label_index_prefix label)"
      "bt_get (is_nodes st) (last_component key) = Some n"
      by (auto simp: set_visible_nodes set_scan_prefix)
    obtain m where m: "m \<in> nodes_of st" "key \<in> node_keys cd (property_indexes st) m"
      using key(1) index_ok_key [OF ok] by blast
    have "label \<in> set (nr_labels m)"
      using label_prefix_iff [OF nodes_of_clean [OF ok m(1)] assms(2) m(2) property_indexes_ne] key(2) by blast
    moreover have "n = m" using key(3) key_last [OF ok m] get_node_iff [OF ok] nodes_of_unique [OF ok] m(1) by simp
    ultimately show "n \<in> ?r" using m(1) by simp
  next
    fix n assume n: "n \<in> ?r"
    let ?key = "label_index_key label (nr_id n)"
    have key: "?key \<in> node_keys cd (property_indexes st) n" using n by (auto simp: node_keys_def)
    then have "?key \<in> keys_of (is_indexes st)" using n index_ok_key [OF ok] by blast
    moreover have "starts_with ?key (label_index_prefix label)" by (auto simp: starts_with_iff label_index_key_def)
    moreover from this have "?key \<notin> is_tombstones st" using assms(3) by (auto simp: unsuppressed_def)
    moreover have "bt_get (is_nodes st) (last_component ?key) = Some n"
      using key_last [OF ok _ key] n get_node_iff [OF ok] by simp
    ultimately show "n \<in> ?l" unfolding set_visible_nodes set_scan_prefix by blast
  qed
  then show ?thesis
    by (auto simp: stream_nodes_by_label_def Let_def all_nodes_def nodes_of_def)
qed

subsection \<open>Creating and dropping indexes\<close>

lemma keys_of_delete_entries:
  "keys_of (delete_index_entries d ks) = {key \<in> keys_of ks. \<not> starts_with key (definition_prefix (ix_label d) (ix_properties d))}"
  using set_scan_prefix [of "definition_prefix (ix_label d) (ix_properties d)" ks]
  by (auto simp: delete_index_entries_def fold_bt_remove keys_of_def)

lemma bt_wf_delete_entries [wf_intros]: "bt_wf ks \<Longrightarrow> bt_wf (delete_index_entries d ks)"
  by (simp add: delete_index_entries_def fold_bt_remove bt_wf_filter)

lemma under_definition:
  assumes "clean_node n" "key \<in> node_keys cd D n" "\<forall>e\<in>D. ix_properties e \<noteq> []" "ix_properties d \<noteq> []"
  shows "starts_with key (definition_prefix (ix_label d) (ix_properties d)) \<longleftrightarrow>
    (\<exists>e\<in>D. same_index e d \<and> ix_label e \<in> set (nr_labels n) \<and> key_for_node cd e n = Some key)"
proof
  have free: "slash_free (nr_id n)" using assms(1) by (simp add: clean_node_def)
  assume s: "starts_with key (definition_prefix (ix_label d) (ix_properties d))"
  from assms(2) consider l where "key = label_index_key l (nr_id n)"
    | e where "e \<in> D" "ix_label e \<in> set (nr_labels n)" "key_for_node cd e n = Some key"
    unfolding node_keys_def by blast
  then show "\<exists>e\<in>D. same_index e d \<and> ix_label e \<in> set (nr_labels n) \<and> key_for_node cd e n = Some key"
  proof cases
    case 1
    then show ?thesis
      using s assms(4) by (auto simp: label_index_key_def label_index_prefix_def starts_with_iff definition_prefix_path def_path_def)
  next
    case 2
    moreover have "same_index e d"
      using key_under_prefix [OF 2(3) _ free s assms(4)] assms(3) 2(1) by (simp add: same_index_def)
    ultimately show ?thesis by blast
  qed
next
  assume "\<exists>e\<in>D. same_index e d \<and> ix_label e \<in> set (nr_labels n) \<and> key_for_node cd e n = Some key"
  then obtain e where e: "e \<in> D" "same_index e d" "key_for_node cd e n = Some key" by blast
  then have "starts_with key (definition_prefix (ix_label e) (ix_properties e))"
    using assms(3) by (intro key_for_node_prefix) auto
  then show "starts_with key (definition_prefix (ix_label d) (ix_properties d))" using e(2) by (simp add: same_index_def)
qed

lemma node_keys_insert:
  "node_keys cd (insert d D) n = node_keys cd D n \<union> {key. ix_label d \<in> set (nr_labels n) \<and> key_for_node cd d n = Some key}"
  by (auto simp: node_keys_def)

lemma node_keys_mono: "D \<subseteq> E \<Longrightarrow> node_keys cd D n \<subseteq> node_keys cd E n"
  by (auto simp: node_keys_def)

lemma entries_of_store:
  assumes ok: "index_ok cd st" and "ix_properties d \<noteq> []" "key \<in> keys_of (is_indexes st)"
    and "starts_with key (definition_prefix (ix_label d) (ix_properties d))"
  shows "\<exists>e\<in>property_indexes st. same_index e d"
proof -
  obtain n where n: "n \<in> nodes_of st" "key \<in> node_keys cd (property_indexes st) n"
    using assms(3) index_ok_key [OF ok] by blast
  show ?thesis
    using under_definition [OF nodes_of_clean [OF ok n(1)] n(2) property_indexes_ne assms(2)] assms(4) by blast
qed

lemma no_entries:
  assumes "index_ok cd st" "ix_properties d \<noteq> []" "\<forall>e\<in>property_indexes st. \<not> same_index e d"
  shows "delete_index_entries d (is_indexes st) = is_indexes st"
proof -
  have "set (scan_prefix (definition_prefix (ix_label d) (ix_properties d)) (is_indexes st)) = {}"
    using entries_of_store [OF assms(1,2)] assms(3) unfolding set_scan_prefix by blast
  then show ?thesis by (simp add: delete_index_entries_def)
qed

lemma keys_of_fold_insert:
  "keys_of (fold (\<lambda>n ks. case g n of None \<Rightarrow> ks | Some key \<Rightarrow> bt_insert key () ks) ns ks) =
     keys_of ks \<union> {key. \<exists>n\<in>set ns. g n = Some key}"
  by (induction ns arbitrary: ks) (auto split: option.splits)

lemma bt_wf_fold_insert:
  "bt_wf ks \<Longrightarrow> bt_wf (fold (\<lambda>n ks. case g n of None \<Rightarrow> ks | Some key \<Rightarrow> bt_insert key () ks) ns ks)"
  by (induction ns arbitrary: ks) (auto intro: wf_intros split: option.splits)

lemma snd_insert_fresh: "bt_get m k = None \<Longrightarrow> snd ` set (bt_insert k v m) = insert v (snd ` set m)"
  by (force simp: set_bt_insert bt_get_None_iff)

lemma rebuild_ok:
  assumes ok: "index_ok cd st" and "ix_properties d \<noteq> []" "\<forall>e\<in>property_indexes st. \<not> same_index e d"
    and "slash_free (ix_label d)" "unsuppressed st (ix_label d)"
  shows "\<exists>ks. rebuild_index cd d st = st\<lparr>is_indexes := ks\<rparr> \<and> bt_wf ks \<and>
    keys_of ks = \<Union> (node_keys cd (insert d (property_indexes st)) ` nodes_of st)"
proof -
  let ?ks = "fold (\<lambda>node ks. case key_for_node cd d node of None \<Rightarrow> ks | Some key \<Rightarrow> bt_insert key () ks)
    (stream_nodes_by_label (ix_label d) st) (is_indexes st)"
  have "rebuild_index cd d st = st\<lparr>is_indexes := ?ks\<rparr>"
    using no_entries [OF assms(1-3)] by (simp add: rebuild_index_def Let_def)
  moreover have "bt_wf ?ks" using ok by (intro bt_wf_fold_insert) (simp add: index_ok_def)
  moreover have "keys_of (is_indexes st) = \<Union> (node_keys cd (property_indexes st) ` nodes_of st)"
    using ok by (simp add: index_ok_def)
  then have "keys_of ?ks = \<Union> (node_keys cd (insert d (property_indexes st)) ` nodes_of st)"
    unfolding keys_of_fold_insert stream_label [OF ok assms(4,5)] node_keys_insert by blast
  ultimately show ?thesis by blast
qed

lemma persist_ok:
  assumes ok: "index_ok cd st" and fresh: "bt_get (is_definitions st) (ix_name d) = None"
    "\<forall>e\<in>property_indexes st. \<not> same_index e d"
    and "slash_free (ix_label d)" "unsuppressed st (ix_label d)"
  shows "index_ok cd (persist_index_definition cd d st)"
proof -
  let ?st = "persist_index_definition cd d st"
  have nodes: "is_nodes ?st = is_nodes st" and defs: "is_definitions ?st = bt_insert (ix_name d) d (is_definitions st)"
    by (simp_all add: persist_index_definition_def rebuild_index_def Let_def)
  have "snd ` set (is_definitions ?st) = insert d (snd ` set (is_definitions st))"
    unfolding defs by (rule snd_insert_fresh [OF fresh(1)])
  then have D: "property_indexes ?st = (if is_node_property_index d then insert d (property_indexes st) else property_indexes st)"
    by (auto simp: property_indexes_iff)
  have "bt_wf (is_indexes ?st) \<and> keys_of (is_indexes ?st) = \<Union> (node_keys cd (property_indexes ?st) ` nodes_of st)"
  proof (cases "is_node_property_index d")
    case True
    then have "ix_properties d \<noteq> []" by (simp add: is_node_property_index_def)
    from rebuild_ok [OF ok this fresh(2) assms(4,5)] True show ?thesis
      unfolding D by (auto simp: persist_index_definition_def)
  next
    case False
    then show ?thesis using ok unfolding D by (simp add: persist_index_definition_def index_ok_def)
  qed
  moreover have "bt_wf (is_definitions ?st)" "\<forall>(k, e)\<in>set (is_definitions ?st). ix_name e = k"
    using ok by (auto simp: defs index_ok_def set_bt_insert intro: wf_intros)
  moreover have "\<forall>e\<in>property_indexes ?st. \<forall>f\<in>property_indexes ?st. same_index e f \<longrightarrow> e = f"
    using ok fresh(2) unfolding D by (auto simp: index_ok_def same_index_def)
  moreover have "nodes_of ?st = nodes_of st" by (simp add: nodes_of_def nodes)
  ultimately show ?thesis using ok nodes by (simp add: index_ok_def)
qed

lemma node_keys_without:
  assumes ok: "index_ok cd st" and d: "d \<in> property_indexes st" and n: "n \<in> nodes_of st"
  shows "node_keys cd (property_indexes st - {d}) n =
    {key \<in> node_keys cd (property_indexes st) n. \<not> starts_with key (definition_prefix (ix_label d) (ix_properties d))}"
    (is "?l = ?r")
proof (intro set_eqI iffI)
  have ne: "ix_properties d \<noteq> []" using d property_indexes_ne by blast
  have twin: "e = d" if "e \<in> property_indexes st" "same_index e d" for e using ok d that by (auto simp: index_ok_def)
  note clean = nodes_of_clean [OF ok n]
  fix key
  show "key \<in> ?r" if key: "key \<in> ?l"
  proof -
    have "\<forall>e\<in>property_indexes st - {d}. ix_properties e \<noteq> []" using property_indexes_ne by blast
    from under_definition [OF clean key this ne] twin
    have "\<not> starts_with key (definition_prefix (ix_label d) (ix_properties d))" by blast
    then show ?thesis using key node_keys_mono [of "property_indexes st - {d}" "property_indexes st"] by blast
  qed
  show "key \<in> ?l" if key: "key \<in> ?r"
  proof -
    have "\<not> (ix_label d \<in> set (nr_labels n) \<and> key_for_node cd d n = Some key)"
      using key key_for_node_prefix [of cd d n key] ne by blast
    then show ?thesis using key node_keys_insert [of cd d "property_indexes st - {d}" n] d
      by (auto simp: insert_absorb)
  qed
qed

lemma delete_definition_ok:
  assumes ok: "index_ok cd st" shows "index_ok cd (fst (delete_index_definition name st))"
proof (cases "bt_get (is_definitions st) name")
  case None
  then show ?thesis using ok by (simp add: delete_index_definition_def)
next
  case (Some d)
  let ?st = "fst (delete_index_definition name st)"
  have wf: "bt_wf (is_definitions st)" and ids: "\<forall>e\<in>set (is_definitions st). ix_name (snd e) = fst e"
    using ok by (auto simp: index_ok_def)
  have nodes: "is_nodes ?st = is_nodes st" and defs: "is_definitions ?st = bt_remove name (is_definitions st)"
    and keys: "is_indexes ?st = (if is_node_property_index d then delete_index_entries d (is_indexes st) else is_indexes st)"
    by (simp_all add: delete_index_definition_def Some Let_def)
  have d: "(name, d) \<in> set (is_definitions st)" using Some bt_get_Some_iff [OF wf] by blast
  have "snd ` set (is_definitions ?st) = {e \<in> snd ` set (is_definitions st). ix_name e \<noteq> name}"
    unfolding defs using image_other_ids [where f = ix_name, OF ids] by (simp add: bt_remove_def)
  moreover have "e = d" if "e \<in> snd ` set (is_definitions st)" "ix_name e = name" for e
  proof -
    from that ids have "(name, e) \<in> set (is_definitions st)" by force
    then show ?thesis using Some bt_get_Some_iff [OF wf, of name e] by simp
  qed
  moreover have "ix_name d = name" using d ids by auto
  ultimately have D: "property_indexes ?st = property_indexes st - {d}"
    by (auto simp: property_indexes_iff)
  have "bt_wf (is_indexes ?st) \<and> keys_of (is_indexes ?st) = \<Union> (node_keys cd (property_indexes ?st) ` nodes_of st)"
  proof (cases "is_node_property_index d")
    case True
    have "d \<in> property_indexes st" using True d by (force simp: property_indexes_iff)
    note without = node_keys_without [OF ok this]
    have "keys_of (is_indexes st) = \<Union> (node_keys cd (property_indexes st) ` nodes_of st)"
      and "bt_wf (is_indexes st)" using ok by (simp_all add: index_ok_def)
    then show ?thesis unfolding D using without True by (auto simp: keys keys_of_delete_entries intro: wf_intros)
  next
    case False
    then have "property_indexes st - {d} = property_indexes st" by (auto simp: property_indexes_iff)
    then show ?thesis unfolding D using False ok by (simp add: keys index_ok_def)
  qed
  moreover have "nodes_of ?st = nodes_of st" by (simp add: nodes_of_def nodes)
  ultimately show ?thesis using ok D nodes
    by (auto simp: index_ok_def defs bt_remove_def intro: bt_wf_filter)
qed

subsection \<open>Runs\<close>

text \<open>
  \<open>index_step False\<close> is the code. \<open>index_step True\<close> is a caller that keeps to what the key encoding can
  tell apart, which the code does not check: ids and labels have no slash, an index gets a new name and
  no other one has its label and properties, and no entry of its label is suppressed when it is made.
\<close>

definition careful_create :: "'n index_store \<Rightarrow> index_definition \<Rightarrow> bool" where
  "careful_create st d \<longleftrightarrow> bt_get (is_definitions st) (ix_name d) = None \<and> (\<forall>e\<in>property_indexes st. \<not> same_index e d) \<and>
     slash_free (ix_label d) \<and> unsuppressed st (ix_label d)"

inductive index_step :: "bool \<Rightarrow> 'n value_codec \<Rightarrow> 'n index_store \<Rightarrow> 'n index_store \<Rightarrow> bool" for careful cd where
  put: "(careful \<longrightarrow> clean_node n) \<Longrightarrow> index_step careful cd st (is_put_node cd n st)"
| remove: "index_step careful cd st (is_delete_node cd i st)"
| create: "(careful \<longrightarrow> careful_create st d) \<Longrightarrow> index_step careful cd st (persist_index_definition cd d st)"
| drop: "index_step careful cd st (fst (delete_index_definition name st))"
| suppress: "index_step careful cd st (write_index_tombstones keys st)"
| unsuppress: "index_step careful cd st (delete_index_tombstones keys st)"

lemma index_ok_tombstones:
  "index_ok cd (write_index_tombstones keys st) = index_ok cd st" "index_ok cd (delete_index_tombstones keys st) = index_ok cd st"
  by (simp_all add: index_ok_def write_index_tombstones_def delete_index_tombstones_def property_indexes_def
      node_property_indexes_def nodes_of_def)

interpretation index_machine: inductive_invariant "(=) index_store_new" "index_step True cd" "index_ok cd" for cd
proof
  show "index_ok cd st" if "index_store_new = st" for st using index_ok_new that by blast
  show "index_ok cd st'" if "index_ok cd st" "index_step True cd st st'" for st st'
    using that(2,1)
    by cases (auto simp: is_put_node_def is_delete_node_def index_ok_tombstones careful_create_def
        intro!: commit_node_ok persist_ok delete_definition_ok)
qed

end
