(* ===== verification/Index_Lookup.thy ===== *)
theory Index_Lookup
  imports Node_Index_Store
begin

text \<open>
  What the index lookups of crates/storage/src/lib.rs and storage_node_property_range.rs return, over
  any store the index operations reach: the nodes a scan of all nodes would find, in the order of
  their ids, with the cases in which the two differ written into the statements.
\<close>

subsection \<open>Sorted answers\<close>

lemma sort_key_eq:
  assumes "set xs = set ys" "distinct (map f xs)" "sorted (map f ys)" "distinct (map f ys)"
  shows "sort_key f xs = ys"
proof (rule map_sorted_distinct_set_unique [where f = f])
  show "inj_on f (set (sort_key f xs) \<union> set ys)" using assms(1,4) by (simp add: distinct_map)
  show "distinct (map f (sort_key f xs))" using assms(2) by (simp add: distinct_map)
qed (use assms in simp_all)

lemma dedup_distinct: "distinct (map nr_id xs) \<Longrightarrow> dedup_ids xs = xs"
  by (induction xs rule: dedup_ids.induct) auto

lemma dedup_sorted:
  assumes "sorted (map nr_id xs)" "inj_on nr_id (set xs)"
  shows "set (dedup_ids xs) = set xs \<and> sorted (map nr_id (dedup_ids xs)) \<and> distinct (map nr_id (dedup_ids xs))"
  using assms
proof (induction xs rule: dedup_ids.induct)
  case (1 a b rest)
  show ?case
  proof (cases "nr_id a = nr_id b")
    case True
    then have "a = b" using 1(4) by (auto dest: inj_onD)
    then show ?thesis using 1 True by simp
  next
    case False
    then have *: "set (dedup_ids (b # rest)) = set (b # rest)" "sorted (map nr_id (dedup_ids (b # rest)))"
      "distinct (map nr_id (dedup_ids (b # rest)))" using 1 by simp_all
    have "nr_id a < nr_id b" using False 1(3) by (simp add: order_less_le)
    moreover have "\<forall>x\<in>set (b # rest). nr_id b \<le> nr_id x" using 1(3) by simp
    ultimately have "\<forall>x\<in>set (b # rest). nr_id a < nr_id x" by auto
    then show ?thesis using False * by (auto simp: order_less_imp_le)
  qed
qed simp_all

lemma all_nodes_sorted:
  assumes "index_ok cd st"
  shows "sorted (map nr_id (all_nodes st))" "distinct (map nr_id (all_nodes st))" "set (all_nodes st) = nodes_of st"
proof -
  have "map nr_id (all_nodes st) = map fst (is_nodes st)" using assms by (auto simp: all_nodes_def index_ok_def)
  then show "sorted (map nr_id (all_nodes st))" "distinct (map nr_id (all_nodes st))"
    using assms by (simp_all add: index_ok_def bt_wf_def strict_sorted_iff)
  show "set (all_nodes st) = nodes_of st" by (simp add: all_nodes_def nodes_of_def)
qed

lemma sorted_answer:
  assumes "index_ok cd st" "set xs = {n \<in> nodes_of st. P n}" "distinct (map nr_id xs)"
  shows "sort_key nr_id xs = filter P (all_nodes st)"
proof (rule sort_key_eq)
  show "set xs = set (filter P (all_nodes st))" using assms all_nodes_sorted(3) [OF assms(1)] by auto
  show "sorted (map nr_id (filter P (all_nodes st)))" using all_nodes_sorted(1) [OF assms(1)] by (rule sorted_filter)
  show "distinct (map nr_id (filter P (all_nodes st)))"
    using all_nodes_sorted(2) [OF assms(1)] by (simp add: distinct_map inj_on_def)
qed (fact assms(3))

subsection \<open>Labels\<close>

lemma visible_of_label:
  assumes ok: "index_ok cd st" and "slash_free label"
  shows "set (visible_nodes st (scan_prefix (label_index_prefix label) (is_indexes st))) =
    {n \<in> nodes_of st. label \<in> set (nr_labels n) \<and> label_index_key label (nr_id n) \<notin> is_tombstones st}"
    (is "?l = ?r")
proof (intro set_eqI iffI)
  fix n assume "n \<in> ?l"
  then obtain key where key: "key \<in> keys_of (is_indexes st)" "starts_with key (label_index_prefix label)"
    "key \<notin> is_tombstones st" "bt_get (is_nodes st) (last_component key) = Some n"
    by (auto simp: set_visible_nodes set_scan_prefix)
  obtain m where m: "m \<in> nodes_of st" "key \<in> node_keys cd (property_indexes st) m"
    using key(1) index_ok_key [OF ok] by blast
  have "label \<in> set (nr_labels m) \<and> key = label_index_key label (nr_id m)"
    using label_prefix_iff [OF nodes_of_clean [OF ok m(1)] assms(2) m(2) property_indexes_ne] key(2) by blast
  moreover have "n = m" using key(4) key_last [OF ok m] get_node_iff [OF ok] nodes_of_unique [OF ok] m(1) by simp
  ultimately show "n \<in> ?r" using m(1) key(3) by simp
next
  fix n assume n: "n \<in> ?r"
  let ?key = "label_index_key label (nr_id n)"
  have key: "?key \<in> node_keys cd (property_indexes st) n" using n by (auto simp: node_keys_def)
  then have "?key \<in> keys_of (is_indexes st)" using n index_ok_key [OF ok] by blast
  moreover have "starts_with ?key (label_index_prefix label)" by (auto simp: starts_with_iff label_index_key_def)
  moreover have "bt_get (is_nodes st) (last_component ?key) = Some n"
    using key_last [OF ok _ key] n get_node_iff [OF ok] by simp
  ultimately show "n \<in> ?l" using n unfolding set_visible_nodes set_scan_prefix by blast
qed

lemma label_answer:
  assumes "index_ok cd st" "slash_free label"
  shows "is_nodes_by_label label st =
    (let shown = filter (\<lambda>n. label \<in> set (nr_labels n) \<and> label_index_key label (nr_id n) \<notin> is_tombstones st) (all_nodes st)
     in if shown = [] then filter (\<lambda>n. label \<in> set (nr_labels n)) (all_nodes st) else shown)"
proof -
  let ?P = "\<lambda>n. label \<in> set (nr_labels n) \<and> label_index_key label (nr_id n) \<notin> is_tombstones st"
  let ?Q = "\<lambda>n. label \<in> set (nr_labels n)"
  let ?shown = "filter ?P (all_nodes st)"
  let ?out = "visible_nodes st (scan_prefix (label_index_prefix label) (is_indexes st))"
  have out: "set ?out = {n \<in> nodes_of st. ?P n}" by (rule visible_of_label [OF assms])
  have shown: "set ?shown = {n \<in> nodes_of st. ?P n}" using all_nodes_sorted(3) [OF assms(1)] by auto
  have answer: "dedup_ids (sort_key nr_id xs) = filter P (all_nodes st)" if "set xs = {n \<in> nodes_of st. P n}" for xs P
  proof -
    have "inj_on nr_id (set (sort_key nr_id xs))" using nodes_of_unique [OF assms(1)] that by (auto simp: inj_on_def)
    from dedup_sorted [OF _ this] have d: "set (dedup_ids (sort_key nr_id xs)) = {n \<in> nodes_of st. P n}"
      "sorted (map nr_id (dedup_ids (sort_key nr_id xs)))" "distinct (map nr_id (dedup_ids (sort_key nr_id xs)))"
      using that by simp_all
    show ?thesis by (rule trans [OF sym [OF sort_key_id_if_sorted [OF d(2)]] sorted_answer [OF assms(1) d(1,3)]])
  qed
  have stream: "is_nodes_by_label label st = dedup_ids (sort_key nr_id (if ?out = [] then filter ?Q (all_nodes st) else ?out))"
    by (simp add: is_nodes_by_label_def stream_nodes_by_label_def Let_def)
  have "?out = [] \<longleftrightarrow> ?shown = []" by (simp only: set_empty [symmetric] out shown)
  moreover have "dedup_ids (sort_key nr_id (filter ?Q (all_nodes st))) = filter ?Q (all_nodes st)"
    by (rule answer) (use all_nodes_sorted(3) [OF assms(1)] in auto)
  moreover note answer [OF out]
  ultimately show ?thesis unfolding stream Let_def by (cases "?out = []") (simp_all only: if_True if_False simp_thms)
qed

subsection \<open>Keys under a lookup prefix\<close>

lemma has_exact_iff:
  "has_exact_node_property_index label props st \<longleftrightarrow> (\<exists>e\<in>property_indexes st. ix_label e = label \<and> ix_properties e = props)"
  by (auto simp: has_exact_node_property_index_def property_indexes_def list_ex_iff)

definition index_values :: "string list \<Rightarrow> 'n json node_record \<Rightarrow> 'n json list option" where
  "index_values props n = collect_opt (bt_get (nr_properties n)) props"

definition index_key :: "'n value_codec \<Rightarrow> string \<Rightarrow> string list \<Rightarrow> 'n json list \<Rightarrow> string \<Rightarrow> string" where
  "index_key cd label props vs i = path (def_path label props @ map (value_key cd) vs) @ i"

lemma index_values_length: "index_values props n = Some vs \<Longrightarrow> length vs = length props"
  by (simp add: index_values_def collect_opt_length)

lemma key_for_node_iff:
  assumes "ix_properties d \<noteq> []"
  shows "key_for_node cd d n = Some key \<longleftrightarrow>
    (\<exists>vs. index_values (ix_properties d) n = Some vs \<and> key = index_key cd (ix_label d) (ix_properties d) vs (nr_id n))"
proof
  show "key_for_node cd d n = Some key \<Longrightarrow>
    \<exists>vs. index_values (ix_properties d) n = Some vs \<and> key = index_key cd (ix_label d) (ix_properties d) vs (nr_id n)"
    unfolding index_values_def index_key_def by (rule key_for_node_path [OF assms])
  assume "\<exists>vs. index_values (ix_properties d) n = Some vs \<and> key = index_key cd (ix_label d) (ix_properties d) vs (nr_id n)"
  then obtain vs where vs: "collect_opt (bt_get (nr_properties n)) (ix_properties d) = Some vs"
    "key = index_key cd (ix_label d) (ix_properties d) vs (nr_id n)" by (auto simp: index_values_def)
  then have "key_for_node cd d n \<noteq> None" by (simp add: key_for_node_def)
  then obtain key' where key': "key_for_node cd d n = Some key'" by blast
  from key_for_node_path [OF assms this] vs have "key' = key" by (auto simp: index_key_def)
  with key' show "key_for_node cd d n = Some key" by simp
qed

lemma keys_under_prefix:
  assumes ok: "index_ok cd st" and "props \<noteq> []" and us: "\<forall>u\<in>set us. slash_free u"
  shows "key \<in> keys_of (is_indexes st) \<and> starts_with key (path (def_path label props @ us)) \<longleftrightarrow>
    has_exact_node_property_index label props st \<and>
    (\<exists>n\<in>nodes_of st. label \<in> set (nr_labels n) \<and> (\<exists>vs zs. index_values props n = Some vs \<and>
       map (value_key cd) vs = us @ zs \<and> key = index_key cd label props vs (nr_id n)))" (is "?l \<longleftrightarrow> ?r")
proof
  assume l: ?l
  obtain n where n: "n \<in> nodes_of st" "key \<in> node_keys cd (property_indexes st) n"
    using l index_ok_key [OF ok] by blast
  have clean: "clean_node n" by (rule nodes_of_clean [OF ok n(1)])
  then have free: "slash_free (nr_id n)" by (simp add: clean_node_def)
  obtain r where r: "key = path (def_path label props @ us) @ r" using l by (auto simp: starts_with_iff)
  then have "starts_with key (definition_prefix label props)"
    using assms(2) by (auto simp: starts_with_iff definition_prefix_path)
  then obtain e where e: "e \<in> property_indexes st" "ix_label e = label" "ix_properties e = props"
    "label \<in> set (nr_labels n)" "key_for_node cd e n = Some key"
    using under_definition [OF clean n(2) property_indexes_ne, of "\<lparr>ix_name = [], ix_entity_type = NodeEntity, ix_label = label,
      ix_properties = props, ix_kind = RangeIndex\<rparr>"] assms(2) by (auto simp: same_index_def)
  obtain vs where vs: "index_values props n = Some vs" "key = index_key cd label props vs (nr_id n)"
    using e key_for_node_iff [of e cd n key] assms(2) by auto
  have "\<forall>c\<in>set (def_path label props @ us) \<union> set (def_path label props @ map (value_key cd) vs). slash_free c"
    using us def_path_slash_free [of label props] by auto
  moreover have "path (def_path label props @ map (value_key cd) vs) @ nr_id n = path (def_path label props @ us) @ r"
    using vs(2) r by (simp only: index_key_def)
  ultimately obtain zs where "def_path label props @ map (value_key cd) vs = (def_path label props @ us) @ zs"
    using path_prefix [OF _ free] by blast
  then have "map (value_key cd) vs = us @ zs" by simp
  then show ?r using e vs n(1) by (auto simp: has_exact_iff)
next
  assume ?r
  then obtain e n vs zs where e: "e \<in> property_indexes st" "ix_label e = label" "ix_properties e = props"
    and n: "n \<in> nodes_of st" "label \<in> set (nr_labels n)"
    and vs: "index_values props n = Some vs" "map (value_key cd) vs = us @ zs" "key = index_key cd label props vs (nr_id n)"
    by (auto simp: has_exact_iff)
  then have "key_for_node cd e n = Some key" using key_for_node_iff [of e cd n key] assms(2) by auto
  then have "key \<in> node_keys cd (property_indexes st) n" using e n by (auto simp: node_keys_def)
  moreover have "starts_with key (path (def_path label props @ us))" using vs by (simp add: index_key_def starts_with_iff)
  ultimately show ?l using index_ok_key [OF ok] n(1) by blast
qed

lemma index_key_last:
  assumes "props \<noteq> []" "index_values props n = Some vs" "slash_free i"
  shows "last_component (index_key cd label props vs i) = i"
proof -
  have "vs \<noteq> []" using index_values_length [OF assms(2)] assms(1) by auto
  then obtain us v where "vs = us @ [v]" by (cases vs rule: rev_cases) auto
  then show ?thesis
    using assms(3) last_component [of i "path (def_path label props @ map (value_key cd) us) @ value_key cd v"]
    by (simp add: index_key_def)
qed

lemma last_component_inj:
  assumes ok: "index_ok cd st" and "props \<noteq> []" "\<forall>u\<in>set us. slash_free u"
  shows "inj_on last_component {key \<in> keys_of (is_indexes st). starts_with key (path (def_path label props @ us))}"
proof (rule inj_onI)
  fix key key'
  assume k: "key \<in> {key \<in> keys_of (is_indexes st). starts_with key (path (def_path label props @ us))}"
    "key' \<in> {key \<in> keys_of (is_indexes st). starts_with key (path (def_path label props @ us))}"
    and eq: "last_component key = last_component key'"
  have form: "\<exists>n\<in>nodes_of st. \<exists>vs. index_values props n = Some vs \<and> key = index_key cd label props vs (nr_id n) \<and> last_component key = nr_id n"
    if "key \<in> {key \<in> keys_of (is_indexes st). starts_with key (path (def_path label props @ us))}" for key
  proof -
    from that obtain n vs where n: "n \<in> nodes_of st" "index_values props n = Some vs" "key = index_key cd label props vs (nr_id n)"
      using keys_under_prefix [OF assms, of key label] by blast
    moreover have "slash_free (nr_id n)" using nodes_of_clean [OF ok n(1)] by (simp add: clean_node_def)
    ultimately show ?thesis using index_key_last [OF assms(2) n(2)] by blast
  qed
  obtain n vs where n: "n \<in> nodes_of st" "index_values props n = Some vs" "key = index_key cd label props vs (nr_id n)" "last_component key = nr_id n"
    using form [OF k(1)] by blast
  obtain m ws where m: "m \<in> nodes_of st" "index_values props m = Some ws" "key' = index_key cd label props ws (nr_id m)" "last_component key' = nr_id m"
    using form [OF k(2)] by blast
  have "n = m" using nodes_of_unique [OF ok n(1) m(1)] n(4) m(4) eq by simp
  then show "key = key'" using n m by simp
qed

lemma set_map_filter: "set (List.map_filter g xs) = {y. \<exists>x\<in>set xs. g x = Some y}"
  by (induction xs) (auto simp: List.map_filter_simps split: option.split)

lemma distinct_map_filter:
  assumes "distinct keys" "inj_on last_component (set keys)" "\<And>key n. g key = Some n \<Longrightarrow> nr_id n = last_component key"
  shows "distinct (map nr_id (List.map_filter g keys))"
  using assms(1,2)
proof (induction keys)
  case (Cons key keys)
  then have "distinct (map nr_id (List.map_filter g keys))" by simp
  moreover have "nr_id n \<notin> nr_id ` set (List.map_filter g keys)" if n: "g key = Some n" for n
  proof
    assume "nr_id n \<in> nr_id ` set (List.map_filter g keys)"
    then obtain m where "m \<in> set (List.map_filter g keys)" "nr_id m = nr_id n" by (auto simp: image_iff)
    then obtain key' where m: "key' \<in> set keys" "g key' = Some m" by (auto simp: set_map_filter)
    have "last_component key' = last_component key" using assms(3) [OF n] assms(3) [OF m(2)] \<open>nr_id m = nr_id n\<close> by simp
    then have "last_component key \<in> last_component ` set keys" using m(1) by (metis imageI)
    then show False using Cons.prems by auto
  qed
  ultimately show ?case by (auto simp: List.map_filter_simps split: option.split)
qed (simp add: List.map_filter_simps)

lemma bt_keys_distinct: "index_ok cd st \<Longrightarrow> distinct (bt_keys (is_indexes st))"
  by (simp add: index_ok_def bt_keys_def bt_wf_distinct)

lemma get_last: "index_ok cd st \<Longrightarrow> bt_get (is_nodes st) (last_component key) = Some n \<Longrightarrow> nr_id n = last_component key"
  using get_node_iff by blast

text \<open>Whether an index shows a node: it has all the properties, and its entry is not suppressed.\<close>

definition shown_by :: "'n value_codec \<Rightarrow> 'n index_store \<Rightarrow> string \<Rightarrow> string list \<Rightarrow> 'n json node_record \<Rightarrow> bool" where
  "shown_by cd st label props n \<longleftrightarrow> label \<in> set (nr_labels n) \<and>
     (case index_values props n of None \<Rightarrow> False | Some vs \<Rightarrow> index_key cd label props vs (nr_id n) \<notin> is_tombstones st)"

definition begins_with_values :: "'n value_codec \<Rightarrow> string list \<Rightarrow> 'n json list \<Rightarrow> 'n json node_record \<Rightarrow> bool" where
  "begins_with_values cd props vs n \<longleftrightarrow> (case index_values props n of None \<Rightarrow> False
     | Some ws \<Rightarrow> map (value_key cd) (take (length vs) ws) = map (value_key cd) vs)"

lemma begins_iff:
  assumes "index_values props n = Some ws"
  shows "begins_with_values cd props vs n \<longleftrightarrow> (\<exists>zs. map (value_key cd) ws = map (value_key cd) vs @ zs)"
proof -
  have "map (value_key cd) (take (length vs) ws) = map (value_key cd) vs \<longleftrightarrow> (\<exists>zs. map (value_key cd) ws = map (value_key cd) vs @ zs)"
    by (metis append_eq_conv_conj length_map take_map)
  then show ?thesis using assms by (simp add: begins_with_values_def)
qed

lemma behind_prefix:
  assumes ok: "index_ok cd st" and "props \<noteq> []"
  shows "(\<exists>key. key \<in> keys_of (is_indexes st) \<and> starts_with key (path (def_path label props @ map (value_key cd) vs)) \<and>
      R key \<and> bt_get (is_nodes st) (last_component key) = Some n) \<longleftrightarrow>
    has_exact_node_property_index label props st \<and> n \<in> nodes_of st \<and> label \<in> set (nr_labels n) \<and> begins_with_values cd props vs n \<and>
      (\<exists>ws. index_values props n = Some ws \<and> R (index_key cd label props ws (nr_id n)))" (is "?l \<longleftrightarrow> ?r")
proof -
  have "\<forall>u\<in>set (map (value_key cd) vs). slash_free u" by simp
  note under = keys_under_prefix [OF ok assms(2) this, where label = label]
  have last: "last_component (index_key cd label props ws (nr_id m)) = nr_id m" if "m \<in> nodes_of st" "index_values props m = Some ws" for m ws
    using index_key_last [OF assms(2) that(2)] nodes_of_clean [OF ok that(1)] by (simp add: clean_node_def)
  show ?thesis
  proof
    assume ?l
    then obtain key where k: "key \<in> keys_of (is_indexes st)" "starts_with key (path (def_path label props @ map (value_key cd) vs))"
      "R key" "bt_get (is_nodes st) (last_component key) = Some n" by blast
    then obtain m ws zs where key: "m \<in> nodes_of st"
      "label \<in> set (nr_labels m)" "index_values props m = Some ws" "map (value_key cd) ws = map (value_key cd) vs @ zs"
      "key = index_key cd label props ws (nr_id m)" "has_exact_node_property_index label props st"
      using under [of key] by blast
    then have "n = m" using k last [OF key(1,3)] get_node_iff [OF ok] nodes_of_unique [OF ok] by simp
    then show ?r using k key begins_iff [OF key(3), of cd vs] by blast
  next
    assume r: ?r
    then obtain ws where ws: "index_values props n = Some ws" "R (index_key cd label props ws (nr_id n))" by blast
    then obtain zs where "map (value_key cd) ws = map (value_key cd) vs @ zs" using r begins_iff [OF ws(1), of cd vs] by blast
    then have "index_key cd label props ws (nr_id n) \<in> keys_of (is_indexes st) \<and>
      starts_with (index_key cd label props ws (nr_id n)) (path (def_path label props @ map (value_key cd) vs))"
      using under r ws by blast
    moreover have "bt_get (is_nodes st) (last_component (index_key cd label props ws (nr_id n))) = Some n"
      using last ws r get_node_iff [OF ok] by simp
    ultimately show ?l using ws(2) by blast
  qed
qed

end
