(* ===== verification/Index_Answers.thy ===== *)
theory Index_Answers
  imports Index_Lookup
begin

text \<open>
  The answers of the property lookups as scans of all nodes: lookups by one value, by several and by a
  range, in any store the index operations reach.
\<close>

subsection \<open>Equality\<close>

lemma lookup_prefix_path:
  assumes "props \<noteq> []"
  shows "lookup_prefix cd label props given = (case collect_opt given props of
    None \<Rightarrow> None | Some vs \<Rightarrow> Some (path (def_path label props @ map (value_key cd) vs)))"
proof (cases "collect_opt given props")
  case (Some ws)
  then have len: "length ws = length props" by (rule collect_opt_length)
  then have "ws \<noteq> []" using assms by auto
  show ?thesis
  proof (cases "length props = 1")
    case True
    then obtain w where "ws = [w]" using len by (cases ws) auto
    then show ?thesis using Some True
      by (simp add: lookup_prefix_def node_property_value_prefix_def node_property_prefix_def def_path_def)
  next
    case False
    then show ?thesis
      using Some path_join [of "map (value_key cd) ws" "[]"] \<open>ws \<noteq> []\<close> definition_prefix_path [OF assms, of label]
      by (simp add: lookup_prefix_def)
  qed
qed (simp add: lookup_prefix_def)

lemma equality_answer:
  assumes ok: "index_ok cd st" and "props \<noteq> []"
    and g: "\<And>key. g key = (if T key then None else bt_get (is_nodes st) (last_component key))"
  shows "sort_key nr_id (List.map_filter g (scan_prefix (path (def_path label props @ map (value_key cd) vs)) (is_indexes st))) =
    (if has_exact_node_property_index label props st
     then filter (\<lambda>n. label \<in> set (nr_labels n) \<and> begins_with_values cd props vs n \<and>
       (\<exists>ws. index_values props n = Some ws \<and> \<not> T (index_key cd label props ws (nr_id n)))) (all_nodes st)
     else [])" (is "sort_key nr_id (List.map_filter g (scan_prefix ?p ?ks)) = _")
proof -
  let ?Q = "\<lambda>n. has_exact_node_property_index label props st \<and> label \<in> set (nr_labels n) \<and> begins_with_values cd props vs n \<and>
       (\<exists>ws. index_values props n = Some ws \<and> \<not> T (index_key cd label props ws (nr_id n)))"
  have "set (List.map_filter g (scan_prefix ?p ?ks)) = {n \<in> nodes_of st. ?Q n}"
  proof (intro set_eqI)
    fix n
    have "n \<in> set (List.map_filter g (scan_prefix ?p ?ks)) \<longleftrightarrow>
      (\<exists>key. key \<in> keys_of ?ks \<and> starts_with key ?p \<and> \<not> T key \<and> bt_get (is_nodes st) (last_component key) = Some n)"
      by (auto simp: set_map_filter set_scan_prefix g split: if_splits)
    also have "\<dots> \<longleftrightarrow> n \<in> {n \<in> nodes_of st. ?Q n}"
      using behind_prefix [OF ok assms(2), of label vs "\<lambda>key. \<not> T key" n] by blast
    finally show "n \<in> set (List.map_filter g (scan_prefix ?p ?ks)) \<longleftrightarrow> n \<in> {n \<in> nodes_of st. ?Q n}" .
  qed
  moreover have "distinct (map nr_id (List.map_filter g (scan_prefix ?p ?ks)))"
  proof (rule distinct_map_filter)
    show "distinct (scan_prefix ?p ?ks)" using bt_keys_distinct [OF ok] by (simp add: scan_prefix_def)
    show "inj_on last_component (set (scan_prefix ?p ?ks))"
      unfolding set_scan_prefix by (rule last_component_inj [OF ok assms(2)]) simp
    show "g key = Some n \<Longrightarrow> nr_id n = last_component key" for key n
      using get_last [OF ok] by (auto simp: g split: if_splits)
  qed
  ultimately have "sort_key nr_id (List.map_filter g (scan_prefix ?p ?ks)) = filter ?Q (all_nodes st)"
    by (rule sorted_answer [OF ok])
  then show ?thesis by simp
qed

lemma property_answer:
  assumes ok: "index_ok cd st"
  shows "nodes_by_property cd label p v st =
    (if has_exact_node_property_index label [p] st
     then filter (\<lambda>n. label \<in> set (nr_labels n) \<and>
       (case bt_get (nr_properties n) p of None \<Rightarrow> False | Some w \<Rightarrow> value_key cd w = value_key cd v)) (all_nodes st)
     else [])"
proof -
  have "has_exact_node_property_index label [p] st \<Longrightarrow> has_node_property_index label p st"
    by (auto simp: has_exact_node_property_index_def has_node_property_index_def list_ex_iff)
  moreover have "path (def_path label [p] @ map (value_key cd) [v]) = node_property_value_prefix cd label p v"
    by (simp add: def_path_def node_property_value_prefix_def node_property_prefix_def)
  note equality_answer [OF ok, where props = "[p]" and T = "\<lambda>_. False" and label = label and vs = "[v]", unfolded this, simplified]
  moreover have "begins_with_values cd [p] [v] n \<and> (\<exists>ws. index_values [p] n = Some ws) \<longleftrightarrow>
    (case bt_get (nr_properties n) p of None \<Rightarrow> False | Some w \<Rightarrow> value_key cd w = value_key cd v)" for n
    by (auto simp: begins_with_values_def index_values_def split: option.split)
  ultimately show ?thesis by (auto simp: nodes_by_property_def)
qed

lemma properties_answer:
  assumes ok: "index_ok cd st"
  shows "nodes_by_properties cd label props given st =
    (case collect_opt given props of
       None \<Rightarrow> []
     | Some vs \<Rightarrow>
         if has_exact_node_property_index label props st
         then filter (\<lambda>n. shown_by cd st label props n \<and> begins_with_values cd props vs n) (all_nodes st)
         else [])"
proof (cases "has_exact_node_property_index label props st")
  case True
  then have ne: "props \<noteq> []" using property_indexes_ne [of st] by (auto simp: has_exact_iff)
  have shown: "shown_by cd st label props n \<longleftrightarrow> label \<in> set (nr_labels n) \<and>
      (\<exists>ws. index_values props n = Some ws \<and> index_key cd label props ws (nr_id n) \<notin> is_tombstones st)" for n
    by (auto simp: shown_by_def split: option.split)
  show ?thesis
  proof (cases "collect_opt given props")
    case (Some vs)
    from equality_answer [OF ok ne, where T = "\<lambda>key. key \<in> is_tombstones st" and label = label and vs = vs]
    show ?thesis
      using Some True lookup_prefix_path [OF ne, of cd label given]
      by (simp add: nodes_by_properties_def visible_nodes_def shown conj_ac)
  qed (simp add: nodes_by_properties_def lookup_prefix_def)
qed (simp add: nodes_by_properties_def split: option.split)

end
