(* ===== verification/Index_Ranges.thy ===== *)
theory Index_Ranges
  imports Index_Answers
begin

text \<open>
  Range lookups of crates/storage/src/storage_node_property_range.rs: the scanned interval of keys lies
  under the prefix of the lookup and covers every matching node, so that the answer is the one of a
  scan of all nodes.
\<close>

subsection \<open>Bounds lie under the prefix\<close>

lemma between_slash:
  assumes "CHR ''/'' \<le> c" "c < CHR ''0''" shows "c = CHR ''/''"
proof -
  have "of_char c = (47 :: nat)" using assms by (simp add: less_eq_char_def less_char_def)
  then have "c = char_of (47 :: nat)" by (metis char_of_char)
  then show ?thesis by (simp add: char_of_def bit_iff_odd)
qed

lemma prefix_interval:
  assumes "q @ ''/'' \<le> key" "key < q @ ''0''" shows "starts_with key (q @ ''/'')"
  using assms
proof (induction q arbitrary: key)
  case Nil
  then show ?case
  proof (cases key)
    case (Cons c key')
    have "CHR ''/'' \<le> c" "c < CHR ''0''" using Nil Cons by (auto simp: less_imp_le)
    with between_slash Cons show ?thesis by (auto simp: starts_with_iff)
  qed (use Nil in simp)
next
  case (Cons x q)
  show ?case
  proof (cases key)
    case (Cons c key')
    then have "c = x" using Cons.prems by auto
    with Cons Cons.prems have "q @ ''/'' \<le> key'" "key' < q @ ''0''" by auto
    from Cons.IH [OF this] show ?thesis using \<open>c = x\<close> Cons by (auto simp: starts_with_iff)
  qed (use Cons.prems in simp)
qed

lemma bounds_under:
  assumes "range_scan_bounds as_f64 (q @ ''/'') comparison v = Some bounds" "in_bounds bounds key"
  shows "starts_with key (q @ ''/'')"
proof -
  obtain kv where kv: "ordered_value_key as_f64 v = Some kv"
    using assms(1) by (auto simp: range_scan_bounds_def split: option.splits)
  have succ: "prefix_successor (q @ CHR ''/'' # kv @ ''/'') = Some (q @ CHR ''/'' # kv @ ''0'')"
    using prefix_successor_slash [of "q @ ''/'' @ kv"] by simp
  have b: "bounds = (case comparison of
      GreaterThan \<Rightarrow> (q @ ''/'' @ kv @ ''0'', Some (q @ ''0'')) | GreaterThanOrEqual \<Rightarrow> (q @ ''/'' @ kv @ ''/'', Some (q @ ''0''))
    | LessThan \<Rightarrow> (q @ ''/'', Some (q @ ''/'' @ kv @ ''/'')) | LessThanOrEqual \<Rightarrow> (q @ ''/'', Some (q @ ''/'' @ kv @ ''0'')))"
    using assms(1) by (auto simp: range_scan_bounds_def kv succ split: range_comparison.splits)
  have low: "q @ ''/'' \<le> key" if "q @ CHR ''/'' # r \<le> key" for r
  proof -
    have "q @ ''/'' \<le> q @ CHR ''/'' # r" by simp
    then show ?thesis using that by (rule order_trans)
  qed
  have high: "key < q @ ''0''" if "key < q @ CHR ''/'' # r" for r
  proof -
    have "q @ CHR ''/'' # r < q @ ''0''" by simp
    with that show ?thesis by (rule less_trans)
  qed
  have "q @ ''/'' \<le> key \<and> key < q @ ''0''"
    using assms(2) unfolding b in_bounds_def by (cases comparison) (auto intro: low high)
  then show ?thesis using prefix_interval by blast
qed

subsection \<open>The loop over the scanned keys\<close>

lemma range_loop_iff:
  "n \<in> set (range_loop st P keys seen) \<longleftrightarrow>
     P n \<and> (\<exists>key\<in>set keys. key \<notin> is_tombstones st \<and> last_component key \<notin> seen \<and> bt_get (is_nodes st) (last_component key) = Some n)"
  by (induction keys arbitrary: seen) (auto simp: Let_def split: option.splits)

lemma range_loop_distinct:
  assumes "\<And>i n. bt_get (is_nodes st) i = Some n \<Longrightarrow> nr_id n = i"
  shows "distinct (map nr_id (range_loop st P keys seen)) \<and> nr_id ` set (range_loop st P keys seen) \<inter> seen = {}"
proof (induction keys arbitrary: seen)
  case (Cons key keys)
  show ?case
  proof (cases "key \<in> is_tombstones st \<or> last_component key \<in> seen")
    case False
    then show ?thesis using Cons [of "insert (last_component key) seen"] assms
      by (auto simp: Let_def split: option.split)
  next
    case True
    then have "range_loop st P (key # keys) seen = range_loop st P keys seen" by auto
    then show ?thesis using Cons [of seen] by simp
  qed
qed simp

subsection \<open>Answers\<close>

lemma path_ends: "cs \<noteq> [] \<Longrightarrow> \<exists>q. path cs = q @ ''/''"
  by (cases cs rule: rev_cases) auto

definition plain_column :: "'n value_codec \<Rightarrow> string \<Rightarrow> 'n index_store \<Rightarrow> bool" where
  "plain_column cd p st \<longleftrightarrow>
     list_all (\<lambda>n. case bt_get (nr_properties n) p of None \<Rightarrow> True | Some w \<Rightarrow> plain_number (fst cd) w) (all_nodes st)"

text \<open>The key of a node that matches lies within the bounds.\<close>

lemma match_in_bounds:
  assumes "node_property_matches_range cd p comparison v n" "index_values props n = Some ws" "k < length props" "props ! k = p"
    and "map (value_key cd) (take k ws) = us" "plain_number (fst cd) v"
    and "\<And>w. bt_get (nr_properties n) p = Some w \<Longrightarrow> plain_number (fst cd) w"
  shows "\<exists>bounds. range_scan_bounds (fst cd) (path (def_path label props @ us)) comparison v = Some bounds \<and>
    in_bounds bounds (index_key cd label props ws i)"
proof -
  have len: "length ws = length props" by (rule index_values_length [OF assms(2)])
  have "list_all2 (\<lambda>p w. bt_get (nr_properties n) p = Some w) props ws" using assms(2) by (simp add: index_values_def collect_opt_Some)
  then have w: "bt_get (nr_properties n) p = Some (ws ! k)" using assms(3,4) by (auto simp: list_all2_conv_all_nth)
  have holds: "range_holds comparison (compare_index_values (fst cd) (ws ! k) v)"
    using assms(1) w by (simp add: node_property_matches_range_def)
  obtain q where q: "path (def_path label props @ us) = q @ ''/''" using path_ends [of "def_path label props @ us"] by (auto simp: def_path_def)
  have "ws = take k ws @ ws ! k # drop (Suc k) ws" using assms(3) len by (simp add: id_take_nth_drop)
  then have "index_key cd label props ws i = path (def_path label props @ us) @ path (value_key cd (ws ! k) # map (value_key cd) (drop (Suc k) ws)) @ i"
    unfolding index_key_def assms(5) [symmetric] by (metis append.assoc list.simps(9) map_append path_simps(3))
  then have "index_key cd label props ws i = q @ ''/'' @ property_index_value_key (fst cd) (snd cd) (ws ! k) @ CHR ''/'' # path (map (value_key cd) (drop (Suc k) ws)) @ i"
    unfolding q by (simp add: value_key_def)
  then show ?thesis using range_scan_covers [OF holds assms(7) [OF w] assms(6), of q "snd cd"] unfolding q by metis
qed

lemma shown_by_iff:
  "shown_by cd st label props n \<longleftrightarrow> label \<in> set (nr_labels n) \<and>
     (\<exists>ws. index_values props n = Some ws \<and> index_key cd label props ws (nr_id n) \<notin> is_tombstones st)"
  by (auto simp: shown_by_def split: option.split)

lemma range_answer:
  fixes Q :: "'n json node_record \<Rightarrow> bool"
  assumes ok: "index_ok cd st" and k: "k < length props" "props ! k = p" "length vs = k"
    and Q: "\<And>n. Q n \<Longrightarrow> node_property_matches_range cd p comparison v n"
    "\<And>n ws. Q n \<Longrightarrow> index_values props n = Some ws \<Longrightarrow> map (value_key cd) (take k ws) = map (value_key cd) vs"
    and plain: "plain_number (fst cd) v" "plain_column cd p st"
  shows "(case range_scan_bounds (fst cd) (path (def_path label props @ map (value_key cd) vs)) comparison v of
      None \<Rightarrow> []
    | Some bounds \<Rightarrow> sort_key nr_id (range_loop st Q (scan_range bounds (is_indexes st)) {})) =
    (if has_exact_node_property_index label props st
     then filter (\<lambda>n. shown_by cd st label props n \<and> Q n) (all_nodes st) else [])"
proof -
  let ?p = "path (def_path label props @ map (value_key cd) vs)" and ?E = "has_exact_node_property_index label props st"
  have ne: "props \<noteq> []" using k(1) by auto
  have covered: "\<exists>bounds. range_scan_bounds (fst cd) ?p comparison v = Some bounds \<and> in_bounds bounds (index_key cd label props ws (nr_id n))"
    if "n \<in> nodes_of st" "Q n" "index_values props n = Some ws" for n ws
    using that plain(2) all_nodes_sorted(3) [OF ok]
    by (intro match_in_bounds [OF Q(1) that(3) k(1,2) Q(2) plain(1)]) (auto simp: plain_column_def list_all_iff split: option.splits)
  have "(case range_scan_bounds (fst cd) ?p comparison v of None \<Rightarrow> []
      | Some bounds \<Rightarrow> sort_key nr_id (range_loop st Q (scan_range bounds (is_indexes st)) {})) =
    filter (\<lambda>n. ?E \<and> shown_by cd st label props n \<and> Q n) (all_nodes st)"
  proof (cases "range_scan_bounds (fst cd) ?p comparison v")
    case None
    then have "\<not> (shown_by cd st label props n \<and> Q n)" if "n \<in> nodes_of st" for n
      using covered [OF that] by (auto simp: shown_by_iff)
    then show ?thesis using None all_nodes_sorted(3) [OF ok] by (simp add: filter_empty_conv)
  next
    case (Some bounds)
    obtain q where q: "?p = q @ ''/''" using path_ends [of "def_path label props @ map (value_key cd) vs"] by (auto simp: def_path_def)
    have "set (range_loop st Q (scan_range bounds (is_indexes st)) {}) = {n \<in> nodes_of st. ?E \<and> shown_by cd st label props n \<and> Q n}"
    proof (intro set_eqI)
      fix n
      let ?R = "\<lambda>key. in_bounds bounds key \<and> key \<notin> is_tombstones st"
      have "n \<in> set (range_loop st Q (scan_range bounds (is_indexes st)) {}) \<longleftrightarrow>
        Q n \<and> (\<exists>key. key \<in> keys_of (is_indexes st) \<and> ?R key \<and> bt_get (is_nodes st) (last_component key) = Some n)"
        by (auto simp: range_loop_iff scan_range_def keys_of_def bt_keys_def)
      also have "\<dots> \<longleftrightarrow> Q n \<and> (\<exists>key. key \<in> keys_of (is_indexes st) \<and> starts_with key ?p \<and> ?R key \<and>
          bt_get (is_nodes st) (last_component key) = Some n)"
        using bounds_under [OF Some [unfolded q]] unfolding q by blast
      also have "\<dots> \<longleftrightarrow> n \<in> {n \<in> nodes_of st. ?E \<and> shown_by cd st label props n \<and> Q n}"
      proof -
        have "begins_with_values cd props vs n" if "Q n" "index_values props n = Some ws" for ws
          using Q(2) [OF that] that(2) k(3) by (simp add: begins_with_values_def)
        moreover have "in_bounds bounds (index_key cd label props ws (nr_id n))"
          if "n \<in> nodes_of st" "Q n" "index_values props n = Some ws" for ws
          using covered [OF that, unfolded Some] by blast
        ultimately show ?thesis
          using behind_prefix [OF ok ne, of label vs ?R n] unfolding shown_by_iff by blast
      qed
      finally show "n \<in> set (range_loop st Q (scan_range bounds (is_indexes st)) {}) \<longleftrightarrow>
        n \<in> {n \<in> nodes_of st. ?E \<and> shown_by cd st label props n \<and> Q n}" .
    qed
    moreover have "distinct (map nr_id (range_loop st Q (scan_range bounds (is_indexes st)) {}))"
      using range_loop_distinct [of st] get_node_iff [OF ok] by blast
    ultimately show ?thesis using Some sorted_answer [OF ok] by simp
  qed
  then show ?thesis by simp
qed

lemma property_range_answer:
  assumes ok: "index_ok cd st" and plain: "plain_number (fst cd) v" "plain_column cd p st"
  shows "nodes_by_property_range cd label p comparison v st =
    (if has_exact_node_property_index label [p] st
     then filter (\<lambda>n. shown_by cd st label [p] n \<and> node_property_matches_range cd p comparison v n) (all_nodes st)
     else [])"
proof -
  have "path (def_path label [p]) = node_property_prefix label p"
    by (simp add: def_path_def node_property_prefix_def)
  with range_answer [OF ok, of 0 "[p]" p "[]" "node_property_matches_range cd p comparison v" comparison v label] plain
  have "(case range_scan_bounds (fst cd) (node_property_prefix label p) comparison v of None \<Rightarrow> []
      | Some bounds \<Rightarrow> sort_key nr_id (range_loop st (node_property_matches_range cd p comparison v) (scan_range bounds (is_indexes st)) {})) =
    (if has_exact_node_property_index label [p] st
     then filter (\<lambda>n. shown_by cd st label [p] n \<and> node_property_matches_range cd p comparison v n) (all_nodes st) else [])"
    by simp
  moreover have "has_exact_node_property_index label [p] st \<Longrightarrow> has_node_property_index label p st"
    by (auto simp: has_exact_node_property_index_def has_node_property_index_def list_ex_iff)
  ultimately show ?thesis by (auto simp: nodes_by_property_range_def)
qed

lemma take_while_at:
  assumes "x \<in> set xs"
  shows "length (takeWhile (\<lambda>y. y \<noteq> x) xs) < length xs" "xs ! length (takeWhile (\<lambda>y. y \<noteq> x) xs) = x"
    "take (length (takeWhile (\<lambda>y. y \<noteq> x) xs)) xs = takeWhile (\<lambda>y. y \<noteq> x) xs"
  using assms by (induction xs) auto

lemma range_lookup_prefix_path:
  assumes "props \<noteq> []" "k \<le> length props"
  shows "range_lookup_prefix cd label props k exact =
    map_option (\<lambda>vs. path (def_path label props @ map (value_key cd) vs)) (collect_opt exact (take k props))"
proof (cases "k = 0")
  case True
  then show ?thesis using definition_prefix_path [OF assms(1)] by (simp add: range_lookup_prefix_def)
next
  case False
  have "definition_prefix label props @ join ''/'' (map (value_key cd) vs) @ ''/'' = path (def_path label props @ map (value_key cd) vs)"
    if "collect_opt exact (take k props) = Some vs" for vs
  proof -
    have "vs \<noteq> []" using collect_opt_length [OF that] False assms by auto
    then show ?thesis using path_join [of "map (value_key cd) vs" "[]"] definition_prefix_path [OF assms(1), of label] by simp
  qed
  then show ?thesis using False by (cases "collect_opt exact (take k props)") (simp_all add: range_lookup_prefix_def)
qed

lemma exact_values:
  assumes "node_matches_exact_suffix props exact n" "index_values props n = Some ws" "collect_opt exact (take k props) = Some vs" "k < length props"
  shows "take k ws = vs"
proof (rule nth_equalityI)
  have v: "list_all2 (\<lambda>p v. exact p = Some v) (take k props) vs" and w: "list_all2 (\<lambda>p w. bt_get (nr_properties n) p = Some w) props ws"
    using assms(2,3) by (simp_all add: index_values_def collect_opt_Some)
  then have len: "length vs = k" "length ws = length props" using assms(4) by (auto dest: list_all2_lengthD)
  then show "length (take k ws) = length vs" using assms(4) by simp
  fix i assume "i < length (take k ws)"
  then have i: "i < k" "i < length props" using assms(4) len by simp_all
  then have "exact (props ! i) = Some (vs ! i)" "bt_get (nr_properties n) (props ! i) = Some (ws ! i)"
    using list_all2_nthD [OF v, of i] list_all2_nthD [OF w, of i] by simp_all
  moreover have "case exact (props ! i) of None \<Rightarrow> True | Some e \<Rightarrow> bt_get (nr_properties n) (props ! i) = Some e"
    using assms(1) nth_mem [OF i(2)] by (auto simp: node_matches_exact_suffix_def list_all_iff)
  ultimately show "take k ws ! i = vs ! i" using i by simp
qed

lemma collect_opt_defined: "collect_opt f xs = None \<longleftrightarrow> \<not> list_all (\<lambda>x. f x \<noteq> None) xs"
  by (induction xs) (auto split: option.split)

lemma properties_range_answer:
  assumes ok: "index_ok cd st" and plain: "plain_number (fst cd) v" "plain_column cd p st"
  shows "nodes_by_properties_range cd label props p comparison v exact st =
    (if p \<in> set props \<and> list_all (\<lambda>q. exact q \<noteq> None) (takeWhile (\<lambda>q. q \<noteq> p) props) \<and> has_exact_node_property_index label props st
     then filter (\<lambda>n. shown_by cd st label props n \<and> node_property_matches_range cd p comparison v n \<and>
       node_matches_exact_suffix props exact n) (all_nodes st)
     else [])"
proof (cases "p \<in> set props \<and> has_exact_node_property_index label props st")
  case True
  let ?k = "length (takeWhile (\<lambda>q. q \<noteq> p) props)"
  let ?Q = "\<lambda>n. node_property_matches_range cd p comparison v n \<and> node_matches_exact_suffix props exact n"
  have at: "?k < length props" "props ! ?k = p" "take ?k props = takeWhile (\<lambda>q. q \<noteq> p) props"
    by (rule take_while_at [OF conjunct1 [OF True]])+
  have ne: "props \<noteq> []" using True by auto
  note prefix = range_lookup_prefix_path [OF ne less_imp_le [OF at(1)], of cd label exact]
  have body: "nodes_by_properties_range cd label props p comparison v exact st = (case range_lookup_prefix cd label props ?k exact of
      None \<Rightarrow> [] | Some prefix \<Rightarrow> (case range_scan_bounds (fst cd) prefix comparison v of
        None \<Rightarrow> [] | Some bounds \<Rightarrow> sort_key nr_id (range_loop st ?Q (scan_range bounds (is_indexes st)) {})))"
    using True by (simp only: nodes_by_properties_range_def Let_def simp_thms if_False)
  show ?thesis
  proof (cases "collect_opt exact (take ?k props)")
    case None
    then have "\<not> list_all (\<lambda>q. exact q \<noteq> None) (takeWhile (\<lambda>q. q \<noteq> p) props)"
      unfolding collect_opt_defined at(3) .
    then show ?thesis unfolding body prefix None option.map option.case by simp
  next
    case (Some vs)
    then have "length vs = ?k" using collect_opt_length [OF Some] at(1) by simp
    moreover have "map (value_key cd) (take ?k ws) = map (value_key cd) vs" if "?Q n" "index_values props n = Some ws" for n ws
      using exact_values [OF _ that(2) Some at(1)] that(1) by simp
    ultimately have "(case range_scan_bounds (fst cd) (path (def_path label props @ map (value_key cd) vs)) comparison v of
        None \<Rightarrow> [] | Some bounds \<Rightarrow> sort_key nr_id (range_loop st ?Q (scan_range bounds (is_indexes st)) {})) =
      filter (\<lambda>n. shown_by cd st label props n \<and> ?Q n) (all_nodes st)"
      using range_answer [OF ok at(1,2), where vs = vs and Q = ?Q and comparison = comparison and v = v and label = label] plain True by simp
    moreover have "list_all (\<lambda>q. exact q \<noteq> None) (takeWhile (\<lambda>q. q \<noteq> p) props)"
      using Some collect_opt_defined [of exact "take ?k props"] unfolding at(3) by simp
    ultimately show ?thesis using True unfolding body prefix Some option.map option.case by simp
  qed
qed (auto simp: nodes_by_properties_range_def Let_def split: option.split)

end
