(* ===== verification/Index_Exact.thy ===== *)
theory Index_Exact
  imports Index_Ranges
begin

text \<open>
  What the index operations guarantee together, from an empty store on: the key space is exact, and
  lookups by label, by values and by ranges are scans of all nodes with the stated exceptions.
\<close>

lemmas reached_ok = index_machine.inv_reachable [OF refl]

subsection \<open>A concrete store\<close>

definition demo_codec :: "(64 word) value_codec" where
  "demo_codec = (Some, \<lambda>_. [])"

definition demo_node :: "string \<Rightarrow> 64 word \<Rightarrow> (64 word) json node_record" where
  "demo_node i age = \<lparr>nr_id = i, nr_labels = [''P''], nr_properties = [(''age'', JNumber age)], nr_named_embeddings = [],
     nr_chunk_embeddings = [],
     nr_embed_meta = \<lparr>em_embedding_model = None, em_embedding_generation = None, em_embedding_dimensions = None, em_has_embedding = None,
       em_embedded_at = None, em_has_chunks = None, em_chunk_count = None\<rparr>,
     nr_created_at = 0, nr_updated_at = 0\<rparr>"

definition demo_index :: index_definition where
  "demo_index = \<lparr>ix_name = ''by_age'', ix_entity_type = NodeEntity, ix_label = ''P'', ix_properties = [''age''], ix_kind = RangeIndex\<rparr>"

text \<open>Nodes of ages 1.0, 2.0 and 3.0, as bits.\<close>

definition demo_ages :: "(64 word) index_store" where
  "demo_ages = is_put_node demo_codec (demo_node ''c'' 0x4008000000000000) (is_put_node demo_codec (demo_node ''a'' 0x3FF0000000000000)
     (is_put_node demo_codec (demo_node ''b'' 0x4000000000000000) (persist_index_definition demo_codec demo_index index_store_new)))"

lemma demo_reached: "(index_step careful demo_codec)\<^sup>*\<^sup>* index_store_new demo_ages"
proof -
  have "index_step careful demo_codec index_store_new (persist_index_definition demo_codec demo_index index_store_new)"
    by (rule index_step.create)
      (simp add: careful_create_def index_store_new_def property_indexes_def node_property_indexes_def unsuppressed_def demo_index_def)
  then have start: "(index_step careful demo_codec)\<^sup>*\<^sup>* index_store_new (persist_index_definition demo_codec demo_index index_store_new)" ..
  have "index_step careful demo_codec st (is_put_node demo_codec (demo_node i age) st)" if "slash_free i" for st i age
    using that by (intro index_step.put) (simp add: clean_node_def demo_node_def)
  then have put: "(index_step careful demo_codec)\<^sup>*\<^sup>* index_store_new (is_put_node demo_codec (demo_node i age) st)"
    if "(index_step careful demo_codec)\<^sup>*\<^sup>* index_store_new st" "slash_free i" for st i age
    using that by (meson rtranclp.rtrancl_into_rtrancl)
  show ?thesis unfolding demo_ages_def by (intro put start) simp_all
qed

lemma put_simps [simp]:
  "is_nodes (is_put_node cd n st) = bt_insert (nr_id n) (stored_node (bt_get (is_nodes st) (nr_id n)) n) (is_nodes st)" "is_tombstones (is_put_node cd n st) = is_tombstones st"
  "is_definitions (is_put_node cd n st) = is_definitions st"
  by (simp_all add: is_put_node_def commit_node_def Let_def)

lemma persist_simps [simp]:
  "is_nodes (persist_index_definition cd d st) = is_nodes st" "is_tombstones (persist_index_definition cd d st) = is_tombstones st"
  "is_definitions (persist_index_definition cd d st) = bt_insert (ix_name d) d (is_definitions st)"
  by (simp_all add: persist_index_definition_def rebuild_index_def Let_def)

lemma demo_all: "all_nodes demo_ages = [demo_node ''a'' 0x3FF0000000000000, demo_node ''b'' 0x4000000000000000, demo_node ''c'' 0x4008000000000000]"
proof -
  have "''a'' < ''b''" "''a'' < ''c''" "''b'' < ''c''" by code_simp+
  then show ?thesis by (simp add: all_nodes_def demo_ages_def bt_insert_def bt_get_def index_store_new_def demo_node_def stored_node_def not_less_iff_gr_or_eq)
qed

lemma demo_fields: "is_tombstones demo_ages = {}" "is_definitions demo_ages = [(''by_age'', demo_index)]"
  by (simp_all add: demo_ages_def index_store_new_def bt_insert_def demo_index_def)

text \<open>
  C26: In every run of a caller that keeps ids and labels free of slashes and makes no two indexes of one
  name, or of one label and properties, nor an index while an entry of its label is suppressed
  (\<open>careful_create\<close>), the key space of the indexes is at every moment exactly the set of label keys of the
  stored nodes and of their keys in the property indexes for one of their labels: no stale key is left by
  an overwrite, a deletion or a dropped index, and none is missing. The code checks none of these
  conditions, and without them it is false (\<open>twin_index_loses_keys\<close>).
\<close>

theorem index_store_exact:
  assumes "(index_step True cd)\<^sup>*\<^sup>* index_store_new st"
  shows "fst ` set (is_indexes st) = (\<Union>n\<in>snd ` set (is_nodes st).
      (\<lambda>label. label_index_key label (nr_id n)) ` set (nr_labels n) \<union>
      {key. \<exists>d\<in>set (node_property_indexes st). ix_label d \<in> set (nr_labels n) \<and> key_for_node cd d n = Some key})"
  using reached_ok [OF assms]
  by (simp add: index_ok_def keys_of_def node_keys_def property_indexes_def nodes_of_def)

theorem index_store_exact_witness:
  "fst ` set (is_indexes demo_ages) = (\<Union>n\<in>snd ` set (is_nodes demo_ages).
      (\<lambda>label. label_index_key label (nr_id n)) ` set (nr_labels n) \<union>
      {key. \<exists>d\<in>set (node_property_indexes demo_ages). ix_label d \<in> set (nr_labels n) \<and> key_for_node demo_codec d n = Some key})"
  by (rule index_store_exact [OF demo_reached])

text \<open>
  The code lets a second index take the label and properties of a first one. Their entries are the same,
  so dropping the second removes those of the first.
\<close>

definition demo_twin :: index_definition where
  "demo_twin = demo_index\<lparr>ix_name := ''twin''\<rparr>"

definition demo_dropped :: "(64 word) index_store" where
  "demo_dropped = fst (delete_index_definition ''twin'' (persist_index_definition demo_codec demo_twin demo_ages))"

lemma twin_index_loses_keys:
  "(index_step False demo_codec)\<^sup>*\<^sup>* index_store_new demo_dropped \<and> demo_index \<in> set (node_property_indexes demo_dropped) \<and>
   (\<exists>n key. n \<in> set (all_nodes demo_dropped) \<and> ix_label demo_index \<in> set (nr_labels n) \<and>
     key_for_node demo_codec demo_index n = Some key \<and> bt_get (is_indexes demo_dropped) key = None)"
proof (intro conjI)
  have "index_step False demo_codec demo_ages (persist_index_definition demo_codec demo_twin demo_ages)" by (rule index_step.create) simp
  moreover have "index_step False demo_codec (persist_index_definition demo_codec demo_twin demo_ages) demo_dropped"
    unfolding demo_dropped_def by (rule index_step.drop)
  ultimately show "(index_step False demo_codec)\<^sup>*\<^sup>* index_store_new demo_dropped"
    using demo_reached [of False] by (meson rtranclp.rtrancl_into_rtrancl)
  let ?d = "persist_index_definition demo_codec demo_twin demo_ages" and ?n = "demo_node ''a'' 0x3FF0000000000000"
  have twin: "is_node_property_index demo_twin" "ix_name demo_twin = ''twin''" "ix_label demo_twin = ix_label demo_index"
    "ix_properties demo_twin = ix_properties demo_index" "is_node_property_index demo_index"
    by (simp_all add: demo_twin_def demo_index_def is_node_property_index_def is_property_backed_index_kind_def)
  have defs: "is_definitions ?d = [(''by_age'', demo_index), (''twin'', demo_twin)]"
    by (simp add: demo_fields twin(2) bt_insert_def)
  have dropped: "is_nodes demo_dropped = is_nodes demo_ages" "is_indexes demo_dropped = delete_index_entries demo_twin (is_indexes ?d)"
    "is_definitions demo_dropped = [(''by_age'', demo_index)]"
    using twin(1) by (simp_all add: demo_dropped_def delete_index_definition_def defs bt_get_def bt_remove_def Let_def del: persist_simps(3))
  show "demo_index \<in> set (node_property_indexes demo_dropped)" by (simp add: node_property_indexes_def dropped(3) twin(5))
  obtain key where key: "key_for_node demo_codec demo_index ?n = Some key"
    by (simp add: key_for_node_def demo_index_def demo_node_def bt_get_def)
  have "starts_with key (definition_prefix (ix_label demo_index) (ix_properties demo_index))"
    by (rule key_for_node_prefix [OF key]) (simp add: demo_index_def)
  then have "key \<notin> keys_of (is_indexes demo_dropped)" by (simp add: dropped(2) keys_of_delete_entries twin(3,4))
  then have "bt_get (is_indexes demo_dropped) key = None" by (simp add: keys_of_def bt_get_None_iff)
  moreover have "?n \<in> set (all_nodes demo_dropped)" using demo_all by (simp add: all_nodes_def dropped(1))
  moreover have "ix_label demo_index \<in> set (nr_labels ?n)" by (simp add: demo_index_def demo_node_def)
  ultimately show "\<exists>n key. n \<in> set (all_nodes demo_dropped) \<and> ix_label demo_index \<in> set (nr_labels n) \<and>
     key_for_node demo_codec demo_index n = Some key \<and> bt_get (is_indexes demo_dropped) key = None"
    using key by blast
qed

text \<open>
  A lookup by label returns, in the order of their ids and each once, the nodes with the label
  whose index entry no tombstone suppresses. When no such node is left it falls back to a scan that
  ignores tombstones, and returns every node with the label.
\<close>

theorem label_lookup_exact:
  assumes "(index_step True cd)\<^sup>*\<^sup>* index_store_new st" "slash_free label"
  shows "is_nodes_by_label label st =
    (let shown = filter (\<lambda>n. label \<in> set (nr_labels n) \<and> label_index_key label (nr_id n) \<notin> is_tombstones st) (all_nodes st)
     in if shown = [] then filter (\<lambda>n. label \<in> set (nr_labels n)) (all_nodes st) else shown)"
  by (rule label_answer [OF reached_ok [OF assms(1)] assms(2)])

theorem label_lookup_exact_witness:
  "is_nodes_by_label ''P'' (write_index_tombstones [label_index_key ''P'' ''b''] demo_ages) =
     [demo_node ''a'' 0x3FF0000000000000, demo_node ''c'' 0x4008000000000000] \<and>
   is_nodes_by_label ''P'' (write_index_tombstones (map (label_index_key ''P'') [''a'', ''b'', ''c'']) demo_ages) =
     [demo_node ''a'' 0x3FF0000000000000, demo_node ''b'' 0x4000000000000000, demo_node ''c'' 0x4008000000000000]"
proof -
  have reached: "(index_step True demo_codec)\<^sup>*\<^sup>* index_store_new (write_index_tombstones keys demo_ages)" for keys
    using demo_reached index_step.suppress by (rule rtranclp.rtrancl_into_rtrancl)
  have all: "all_nodes (write_index_tombstones keys demo_ages) = all_nodes demo_ages" for keys
    by (simp add: all_nodes_def write_index_tombstones_def)
  have free: "slash_free ''P''" by simp
  show ?thesis
    unfolding label_lookup_exact [OF reached free] all demo_all
    by (simp add: write_index_tombstones_def demo_node_def label_index_key_def demo_fields)
qed


lemma demo_has: "has_exact_node_property_index ''P'' [''age''] demo_ages"
  by (simp add: has_exact_node_property_index_def node_property_indexes_def demo_fields demo_index_def
      is_node_property_index_def is_property_backed_index_kind_def)


text \<open>
  C27: Where no number of the property is the negative zero, neither stored nor asked for, a lookup by
  range returns exactly the shown nodes of the label with a value in the range and the exact values
  given, in the order of their ids; one that leaves a property before the range open is empty.
\<close>

theorem range_lookup_exact:
  assumes "(index_step True cd)\<^sup>*\<^sup>* index_store_new st" "plain_number (fst cd) v" "plain_column cd p st"
  shows "nodes_by_property_range cd label p comparison v st =
      (if has_exact_node_property_index label [p] st
       then filter (\<lambda>n. shown_by cd st label [p] n \<and> node_property_matches_range cd p comparison v n) (all_nodes st)
       else []) \<and>
    nodes_by_properties_range cd label props p comparison v exact st =
      (if p \<in> set props \<and> list_all (\<lambda>q. exact q \<noteq> None) (takeWhile (\<lambda>q. q \<noteq> p) props) \<and>
          has_exact_node_property_index label props st
       then filter (\<lambda>n. shown_by cd st label props n \<and> node_property_matches_range cd p comparison v n \<and>
         node_matches_exact_suffix props exact n) (all_nodes st)
       else [])"
  by (intro conjI property_range_answer properties_range_answer reached_ok [OF assms(1)] assms(2,3))

theorem range_lookup_exact_witness:
  "nodes_by_property_range demo_codec ''P'' ''age'' GreaterThan (JNumber 0x3FF0000000000000) demo_ages =
     [demo_node ''b'' 0x4000000000000000, demo_node ''c'' 0x4008000000000000]"
proof -
  have age: "bt_get (nr_properties (demo_node i a)) ''age'' = Some (JNumber a)" "nr_labels (demo_node i a) = [''P'']" for i a
    by (simp_all add: demo_node_def bt_get_def)
  have plain: "plain_number (fst demo_codec) (JNumber 0x3FF0000000000000)" "plain_column demo_codec ''age'' demo_ages"
    by (simp_all add: demo_codec_def negative_zero_def plain_column_def demo_all age)
  have "f64_partial_cmp 0x3FF0000000000000 0x3FF0000000000000 = Some Equal"
    "f64_partial_cmp 0x4000000000000000 0x3FF0000000000000 = Some Greater"
    "f64_partial_cmp 0x4008000000000000 0x3FF0000000000000 = Some Greater"
    by (simp_all add: f64_partial_cmp_def f64_is_nan_def f64_rank_def magnitude_mod)
  then have match: "node_property_matches_range demo_codec ''age'' GreaterThan (JNumber 0x3FF0000000000000) (demo_node i a) \<longleftrightarrow> a \<noteq> 0x3FF0000000000000"
    if "a \<in> {0x3FF0000000000000, 0x4000000000000000, 0x4008000000000000}" for i a
    using that by (auto simp: node_property_matches_range_def age demo_codec_def compare_index_values_def range_holds_def)
  show ?thesis
    unfolding conjunct1 [OF range_lookup_exact [OF demo_reached plain]] demo_all
    by (simp add: demo_has match age shown_by_iff demo_fields index_values_def)
qed

end
