(* ===== verification/Async_Pending.thy ===== *)
theory Async_Pending
  imports Node_Index
begin

text \<open>
  The write buffer of crates/storage/src/async_engine.rs, \<open>PendingState\<close>: the latest write of every
  node and edge that is not yet in the engine below, \<open>None\<close> for a deletion, with the ids of the
  buffered records by label, type and end. The locale \<open>overlay\<close> states what reading through such a
  buffer means, once for nodes and once for edges.
\<close>

subsection \<open>The buffer\<close>

record 'j pending_state =
  ps_nodes :: "(string, 'j node_record option) btree"
  ps_edges :: "(string, 'j edge_record option) btree"
  ps_labels :: idx
  ps_types :: idx
  ps_starts :: idx
  ps_ends :: idx

definition pending_default :: "'j pending_state" where
  "pending_default = \<lparr>ps_nodes = [], ps_edges = [], ps_labels = [], ps_types = [], ps_starts = [], ps_ends = []\<rparr>"

definition index_node :: "'j node_record \<Rightarrow> 'j pending_state \<Rightarrow> 'j pending_state" where
  "index_node n ps = ps\<lparr>ps_labels := idx_add_all (nr_labels n) (nr_id n) (ps_labels ps)\<rparr>"

definition remove_node_index_entry :: "string \<Rightarrow> 'j pending_state \<Rightarrow> 'j pending_state" where
  "remove_node_index_entry i ps =
     (let labels = (case bt_get (ps_nodes ps) i of Some (Some n) \<Rightarrow> nr_labels n | _ \<Rightarrow> [])
      in ps\<lparr>ps_labels := fold (\<lambda>label. idx_drop label i) labels (ps_labels ps)\<rparr>)"

definition index_edge :: "'j edge_record \<Rightarrow> 'j pending_state \<Rightarrow> 'j pending_state" where
  "index_edge e ps = ps\<lparr>ps_types := idx_add (er_edge_type e) (er_id e) (ps_types ps),
     ps_starts := idx_add (er_start_node e) (er_id e) (ps_starts ps), ps_ends := idx_add (er_end_node e) (er_id e) (ps_ends ps)\<rparr>"

definition remove_edge_index_entry :: "string \<Rightarrow> 'j pending_state \<Rightarrow> 'j pending_state" where
  "remove_edge_index_entry i ps =
     (case bt_get (ps_edges ps) i of
        Some (Some e) \<Rightarrow> ps\<lparr>ps_types := idx_drop (er_edge_type e) i (ps_types ps),
          ps_starts := idx_drop (er_start_node e) i (ps_starts ps), ps_ends := idx_drop (er_end_node e) i (ps_ends ps)\<rparr>
      | _ \<Rightarrow> ps)"

definition pending_put_node :: "'j node_record \<Rightarrow> 'j pending_state \<Rightarrow> 'j pending_state" where
  "pending_put_node n ps =
     (let ps = index_node n (remove_node_index_entry (nr_id n) ps)
      in ps\<lparr>ps_nodes := bt_insert (nr_id n) (Some n) (ps_nodes ps)\<rparr>)"

definition pending_delete_node :: "string \<Rightarrow> 'j pending_state \<Rightarrow> 'j pending_state" where
  "pending_delete_node i ps =
     (let ps = remove_node_index_entry i ps in ps\<lparr>ps_nodes := bt_insert i None (ps_nodes ps)\<rparr>)"

definition pending_put_edge :: "'j edge_record \<Rightarrow> 'j pending_state \<Rightarrow> 'j pending_state" where
  "pending_put_edge e ps =
     (let ps = index_edge e (remove_edge_index_entry (er_id e) ps)
      in ps\<lparr>ps_edges := bt_insert (er_id e) (Some e) (ps_edges ps)\<rparr>)"

definition pending_delete_edge :: "string \<Rightarrow> 'j pending_state \<Rightarrow> 'j pending_state" where
  "pending_delete_edge i ps =
     (let ps = remove_edge_index_entry i ps in ps\<lparr>ps_edges := bt_insert i None (ps_edges ps)\<rparr>)"

type_synonym 'j node_ops = "(string \<times> 'j node_record option) list"
type_synonym 'j edge_ops = "(string \<times> 'j edge_record option) list"

definition take_ops :: "'j pending_state \<Rightarrow> ('j node_ops \<times> 'j edge_ops) \<times> 'j pending_state" where
  "take_ops ps = ((ps_nodes ps, ps_edges ps), pending_default)"

definition requeue_node_ops :: "'j node_ops \<Rightarrow> 'j pending_state \<Rightarrow> 'j pending_state" where
  "requeue_node_ops ops ps = fold (\<lambda>(i, op). case op of Some n \<Rightarrow> pending_put_node n | None \<Rightarrow> pending_delete_node i) ops ps"

definition requeue_edge_ops :: "'j edge_ops \<Rightarrow> 'j pending_state \<Rightarrow> 'j pending_state" where
  "requeue_edge_ops ops ps = fold (\<lambda>(i, op). case op of Some e \<Rightarrow> pending_put_edge e | None \<Rightarrow> pending_delete_edge i) ops ps"

subsection \<open>Its invariant\<close>

definition ids_ok :: "('v \<Rightarrow> string) \<Rightarrow> (string \<times> 'v option) list \<Rightarrow> bool" where
  "ids_ok f ops \<longleftrightarrow> (\<forall>(i, op)\<in>set ops. \<forall>v. op = Some v \<longrightarrow> f v = i)"

definition indexes_field :: "('v \<Rightarrow> string list) \<Rightarrow> idx \<Rightarrow> (string, 'v option) btree \<Rightarrow> bool" where
  "indexes_field f ix ops \<longleftrightarrow> idx_wf ix \<and> (\<forall>tag i. idx_has ix tag i \<longleftrightarrow> (\<exists>v. bt_get ops i = Some (Some v) \<and> tag \<in> set (f v)))"

definition pending_ok :: "'j pending_state \<Rightarrow> bool" where
  "pending_ok ps \<longleftrightarrow> bt_wf (ps_nodes ps) \<and> ids_ok nr_id (ps_nodes ps) \<and> bt_wf (ps_edges ps) \<and> ids_ok er_id (ps_edges ps) \<and>
     indexes_field nr_labels (ps_labels ps) (ps_nodes ps) \<and>
     indexes_field (\<lambda>e. [er_edge_type e]) (ps_types ps) (ps_edges ps) \<and>
     indexes_field (\<lambda>e. [er_start_node e]) (ps_starts ps) (ps_edges ps) \<and>
     indexes_field (\<lambda>e. [er_end_node e]) (ps_ends ps) (ps_edges ps)"

lemma pending_ok_default: "pending_ok pending_default"
  by (simp add: pending_ok_def pending_default_def ids_ok_def indexes_field_def)

lemma ids_ok_insert: "ids_ok f ops \<Longrightarrow> \<forall>v. op = Some v \<longrightarrow> f v = i \<Longrightarrow> ids_ok f (bt_insert i op ops)"
  by (auto simp: ids_ok_def set_bt_insert)

lemma indexes_replace:
  assumes "indexes_field f ix ops"
  shows "indexes_field f
    (idx_add_all (case op of None \<Rightarrow> [] | Some v \<Rightarrow> f v) i
      (fold (\<lambda>tag. idx_drop tag i) (case bt_get ops i of Some (Some v) \<Rightarrow> f v | _ \<Rightarrow> []) ix)) (bt_insert i op ops)"
  using assms by (auto simp: indexes_field_def intro!: wf_intros split: option.splits)

lemma idx_add_all_simps: "idx_add_all [] i ix = ix" "idx_add_all [tag] i ix = idx_add tag i ix"
  by (simp_all add: idx_add_all_def)

lemma pending_write_node:
  assumes "pending_ok ps" "\<forall>n. op = Some n \<longrightarrow> nr_id n = i"
  shows "pending_ok (case op of Some n \<Rightarrow> pending_put_node n ps | None \<Rightarrow> pending_delete_node i ps)"
proof -
  note ix = indexes_replace [where f = nr_labels and ix = "ps_labels ps" and ops = "ps_nodes ps" and op = op and i = i]
  show ?thesis
    using assms ix
    by (cases op) (auto simp: pending_ok_def pending_put_node_def pending_delete_node_def index_node_def
        remove_node_index_entry_def Let_def idx_add_all_simps intro: wf_intros ids_ok_insert)
qed

lemma pending_write_edge:
  assumes "pending_ok ps" "\<forall>e. op = Some e \<longrightarrow> er_id e = i"
  shows "pending_ok (case op of Some e \<Rightarrow> pending_put_edge e ps | None \<Rightarrow> pending_delete_edge i ps)"
proof -
  note ix = indexes_replace [where f = "\<lambda>e. [er_edge_type e]" and ix = "ps_types ps" and ops = "ps_edges ps" and op = op and i = i]
    indexes_replace [where f = "\<lambda>e. [er_start_node e]" and ix = "ps_starts ps" and ops = "ps_edges ps" and op = op and i = i]
    indexes_replace [where f = "\<lambda>e. [er_end_node e]" and ix = "ps_ends ps" and ops = "ps_edges ps" and op = op and i = i]
  consider "bt_get (ps_edges ps) i = None" | "bt_get (ps_edges ps) i = Some None" | e where "bt_get (ps_edges ps) i = Some (Some e)"
    by (metis option.exhaust)
  then show ?thesis
    using assms ix
    by cases (cases op; auto simp: pending_ok_def pending_put_edge_def pending_delete_edge_def index_edge_def
        remove_edge_index_entry_def Let_def idx_add_all_simps intro: wf_intros ids_ok_insert)+
qed

lemma pending_put_node_ok: "pending_ok ps \<Longrightarrow> pending_ok (pending_put_node n ps)"
  using pending_write_node [of ps "Some n" "nr_id n"] by simp

lemma pending_delete_node_ok: "pending_ok ps \<Longrightarrow> pending_ok (pending_delete_node i ps)"
  using pending_write_node [of ps None i] by simp

lemma pending_put_edge_ok: "pending_ok ps \<Longrightarrow> pending_ok (pending_put_edge e ps)"
  using pending_write_edge [of ps "Some e" "er_id e"] by simp

lemma pending_delete_edge_ok: "pending_ok ps \<Longrightarrow> pending_ok (pending_delete_edge i ps)"
  using pending_write_edge [of ps None i] by simp

lemma pending_fields [simp]:
  "ps_nodes (pending_put_node n ps) = bt_insert (nr_id n) (Some n) (ps_nodes ps)" "ps_edges (pending_put_node n ps) = ps_edges ps"
  "ps_nodes (pending_delete_node i ps) = bt_insert i None (ps_nodes ps)" "ps_edges (pending_delete_node i ps) = ps_edges ps"
  "ps_edges (pending_put_edge e ps) = bt_insert (er_id e) (Some e) (ps_edges ps)" "ps_nodes (pending_put_edge e ps) = ps_nodes ps"
  "ps_edges (pending_delete_edge i ps) = bt_insert i None (ps_edges ps)" "ps_nodes (pending_delete_edge i ps) = ps_nodes ps"
  by (simp_all add: pending_put_node_def pending_delete_node_def pending_put_edge_def pending_delete_edge_def Let_def
      index_node_def remove_node_index_entry_def index_edge_def remove_edge_index_entry_def split: option.split)

lemma requeue_nodes:
  assumes "pending_ok ps" "ids_ok nr_id ops"
  shows "pending_ok (requeue_node_ops ops ps) \<and> ps_nodes (requeue_node_ops ops ps) = bt_extend (ps_nodes ps) ops \<and>
    ps_edges (requeue_node_ops ops ps) = ps_edges ps"
  using assms
proof (induction ops arbitrary: ps)
  case (Cons x ops)
  obtain i op where x: "x = (i, op)" by (cases x)
  have ids: "ids_ok nr_id ops" "\<forall>n. op = Some n \<longrightarrow> nr_id n = i" using Cons.prems(2) x by (auto simp: ids_ok_def)
  show ?case
    using Cons.IH [OF _ ids(1)] Cons.prems(1) ids(2) x
    by (cases op) (auto simp: requeue_node_ops_def bt_extend_def pending_put_node_ok pending_delete_node_ok)
qed (simp add: requeue_node_ops_def bt_extend_def)

lemma requeue_edges:
  assumes "pending_ok ps" "ids_ok er_id ops"
  shows "pending_ok (requeue_edge_ops ops ps) \<and> ps_edges (requeue_edge_ops ops ps) = bt_extend (ps_edges ps) ops \<and>
    ps_nodes (requeue_edge_ops ops ps) = ps_nodes ps"
  using assms
proof (induction ops arbitrary: ps)
  case (Cons x ops)
  obtain i op where x: "x = (i, op)" by (cases x)
  have ids: "ids_ok er_id ops" "\<forall>n. op = Some n \<longrightarrow> er_id n = i" using Cons.prems(2) x by (auto simp: ids_ok_def)
  show ?case
    using Cons.IH [OF _ ids(1)] Cons.prems(1) ids(2) x
    by (cases op) (auto simp: requeue_edge_ops_def bt_extend_def pending_put_edge_ok pending_delete_edge_ok)
qed (simp add: requeue_edge_ops_def bt_extend_def)

end
