(* ===== verification/Async_Engine.thy ===== *)
theory Async_Engine
  imports Async_Pending
begin

text \<open>
  The write-behind engine of crates/storage/src/async_engine.rs: writes go to the buffer, reads look
  through it into the engine below, and a flush moves the buffer down in one batch. The engine below is
  its node and edge tables; its reads are scans of them, which for labels is theorem
  \<open>label_lookup_exact\<close>. Whether a batch is refused is an argument of the operations that flush. Calls
  that take the flush lock for reading are single steps here; a flush is given in its parts as well,
  since writes are not kept out between them.
\<close>

subsection \<open>State\<close>

record async_storage_config =
  ac_flush_interval_ms :: "64 word"
  ac_adaptive_flush :: bool
  ac_min_flush_interval_ms :: "64 word"
  ac_max_flush_interval_ms :: "64 word"
  ac_target_flush_size :: nat
  ac_max_node_cache_size :: nat
  ac_max_edge_cache_size :: nat

definition async_config_default :: async_storage_config where
  "async_config_default = \<lparr>ac_flush_interval_ms = 50, ac_adaptive_flush = False, ac_min_flush_interval_ms = 10,
     ac_max_flush_interval_ms = 200, ac_target_flush_size = 1000, ac_max_node_cache_size = 0, ac_max_edge_cache_size = 0\<rparr>"

record 'j async_engine =
  ae_pending :: "'j pending_state"
  ae_embeds :: "string bset"
  ae_nodes :: "(string, 'j node_record) btree"
  ae_edges :: "(string, 'j edge_record) btree"
  ae_open :: bool

record async_flush_result =
  fr_nodes_written :: nat
  fr_nodes_deleted :: nat
  fr_edges_written :: nat
  fr_edges_deleted :: nat

definition flush_result_default :: async_flush_result where
  "flush_result_default = \<lparr>fr_nodes_written = 0, fr_nodes_deleted = 0, fr_edges_written = 0, fr_edges_deleted = 0\<rparr>"

subsection \<open>Flushing\<close>

text \<open>What the engine below answers: done, the batch refused, or the batch written and its sync failed.\<close>

datatype flush_outcome = FlushDone | BatchRefused storage_error | SyncFailed storage_error

definition apply_node_ops :: "'j node_ops \<Rightarrow> (string, 'j node_record) btree \<Rightarrow> (string, 'j node_record) btree" where
  "apply_node_ops ops tbl = fold (\<lambda>(i, op) m. case op of
     Some n \<Rightarrow> bt_insert (nr_id n) (stored_node (bt_get tbl (nr_id n)) n) m | None \<Rightarrow> bt_remove i m) ops tbl"

definition apply_edge_ops :: "'j edge_ops \<Rightarrow> (string, 'j edge_record) btree \<Rightarrow> (string, 'j edge_record) btree" where
  "apply_edge_ops ops tbl = fold (\<lambda>(i, op) m. case op of Some e \<Rightarrow> bt_insert (er_id e) e m | None \<Rightarrow> bt_remove i m) ops tbl"

type_synonym 'j taken = "'j node_ops \<times> 'j edge_ops"

definition flush_take :: "'j async_engine \<Rightarrow> 'j taken \<times> 'j async_engine" where
  "flush_take s = (let (ops, ps) = take_ops (ae_pending s) in (ops, s\<lparr>ae_pending := ps\<rparr>))"

definition flush_result :: "'j taken \<Rightarrow> async_flush_result" where
  "flush_result ops = \<lparr>fr_nodes_written = length (filter (\<lambda>(_, op). op \<noteq> None) (fst ops)),
     fr_nodes_deleted = length (filter (\<lambda>(_, op). op = None) (fst ops)),
     fr_edges_written = length (filter (\<lambda>(_, op). op \<noteq> None) (snd ops)),
     fr_edges_deleted = length (filter (\<lambda>(_, op). op = None) (snd ops))\<rparr>"

definition flush_commit :: "'j taken \<Rightarrow> 'j async_engine \<Rightarrow> 'j async_engine" where
  "flush_commit ops s = s\<lparr>ae_nodes := apply_node_ops (fst ops) (ae_nodes s), ae_edges := apply_edge_ops (snd ops) (ae_edges s)\<rparr>"

definition flush_requeue :: "'j taken \<Rightarrow> 'j async_engine \<Rightarrow> 'j async_engine" where
  "flush_requeue ops s = s\<lparr>ae_pending := requeue_edge_ops (snd ops) (requeue_node_ops (fst ops) (ae_pending s))\<rparr>"

definition flush_pending_locked :: "flush_outcome \<Rightarrow> 'j async_engine \<Rightarrow> (storage_error + async_flush_result) \<times> 'j async_engine" where
  "flush_pending_locked out s =
     (let (ops, s) = flush_take s
      in case out of
           FlushDone \<Rightarrow> (Inr (flush_result ops), flush_commit ops s)
         | BatchRefused e \<Rightarrow> (Inl e, flush_requeue ops s)
         | SyncFailed e \<Rightarrow> (Inl e, flush_commit ops s))"

definition ae_flush :: "flush_outcome \<Rightarrow> 'j async_engine \<Rightarrow> (storage_error + async_flush_result) \<times> 'j async_engine" where
  "ae_flush out s = (if \<not> ae_open s then (Inl AsyncEngineClosed, s) else flush_pending_locked out s)"

definition try_flush_pending ::
    "bool \<Rightarrow> flush_outcome \<Rightarrow> 'j async_engine \<Rightarrow> (storage_error + async_flush_result option) \<times> 'j async_engine" where
  "try_flush_pending busy out s =
     (if busy then (Inr None, s) else (let (r, s) = flush_pending_locked out s in (map_sum id Some r, s)))"

definition ae_close :: "flush_outcome \<Rightarrow> 'j async_engine \<Rightarrow> (storage_error + async_flush_result) \<times> 'j async_engine" where
  "ae_close out s =
     (if \<not> ae_open s then (Inr flush_result_default, s)
      else (let (r, s) = flush_pending_locked out s in (r, s\<lparr>ae_open := False\<rparr>)))"

subsection \<open>Writes\<close>

definition flush_if_node_cache_full ::
    "async_storage_config \<Rightarrow> flush_outcome \<Rightarrow> 'j async_engine \<Rightarrow> (storage_error + unit) \<times> 'j async_engine" where
  "flush_if_node_cache_full cfg out s =
     (if ac_max_node_cache_size cfg = 0 then (Inr (), s)
      else if ac_max_node_cache_size cfg \<le> length (ps_nodes (ae_pending s))
      then (let (r, s) = ae_flush out s in (map_sum id (\<lambda>_. ()) r, s))
      else (Inr (), s))"

definition flush_if_edge_cache_full ::
    "async_storage_config \<Rightarrow> flush_outcome \<Rightarrow> 'j async_engine \<Rightarrow> (storage_error + unit) \<times> 'j async_engine" where
  "flush_if_edge_cache_full cfg out s =
     (if ac_max_edge_cache_size cfg = 0 then (Inr (), s)
      else if ac_max_edge_cache_size cfg \<le> length (ps_edges (ae_pending s))
      then (let (r, s) = ae_flush out s in (map_sum id (\<lambda>_. ()) r, s))
      else (Inr (), s))"

definition remove_pending_embedding :: "string \<Rightarrow> 'j async_engine \<Rightarrow> 'j async_engine" where
  "remove_pending_embedding i s = s\<lparr>ae_embeds := bt_remove i (ae_embeds s)\<rparr>"

definition update_pending_embedding_for_node :: "'j node_record \<Rightarrow> 'j async_engine \<Rightarrow> 'j async_engine" where
  "update_pending_embedding_for_node n s =
     s\<lparr>ae_embeds := (if node_record_needs_embedding n then bs_insert (nr_id n) (ae_embeds s) else bt_remove (nr_id n) (ae_embeds s))\<rparr>"

definition buffer_node :: "'j node_record \<Rightarrow> 'j async_engine \<Rightarrow> 'j async_engine" where
  "buffer_node n s = update_pending_embedding_for_node n (s\<lparr>ae_pending := pending_put_node n (ae_pending s)\<rparr>)"

definition ae_put_node :: "async_storage_config \<Rightarrow> flush_outcome \<Rightarrow> 'j node_record \<Rightarrow> 'j async_engine \<Rightarrow>
    (storage_error + unit) \<times> 'j async_engine" where
  "ae_put_node cfg out n s =
     (case flush_if_node_cache_full cfg out s of (Inl e, s) \<Rightarrow> (Inl e, s) | (Inr _, s) \<Rightarrow> (Inr (), buffer_node n s))"

definition buffer_edge :: "'j edge_record \<Rightarrow> 'j async_engine \<Rightarrow> 'j async_engine" where
  "buffer_edge e s = s\<lparr>ae_pending := pending_put_edge e (ae_pending s)\<rparr>"

definition ae_put_edge :: "async_storage_config \<Rightarrow> flush_outcome \<Rightarrow> 'j edge_record \<Rightarrow> 'j async_engine \<Rightarrow>
    (storage_error + unit) \<times> 'j async_engine" where
  "ae_put_edge cfg out e s =
     (case flush_if_edge_cache_full cfg out s of (Inl err, s) \<Rightarrow> (Inl err, s) | (Inr _, s) \<Rightarrow> (Inr (), buffer_edge e s))"

text \<open>A call that the worker answers from the engine below.\<close>

definition persisted :: "('j async_engine \<Rightarrow> 'a) \<Rightarrow> 'j async_engine \<Rightarrow> storage_error + 'a" where
  "persisted f s = (if ae_open s then Inr (f s) else Inl AsyncEngineClosed)"

text \<open>Deletions answer whether the callback is called: for a buffered record that was never below.\<close>

definition buffer_node_deletion :: "string \<Rightarrow> 'j async_engine \<Rightarrow> (storage_error + bool) \<times> 'j async_engine" where
  "buffer_node_deletion i s =
     (let s = remove_pending_embedding i s;
          present = (case bt_get (ps_nodes (ae_pending s)) i of Some (Some _) \<Rightarrow> True | _ \<Rightarrow> False);
          s = s\<lparr>ae_pending := pending_delete_node i (ae_pending s)\<rparr>
      in (if present then persisted (\<lambda>s. bt_get (ae_nodes s) i = None) s else Inr False, s))"

definition ae_delete_node :: "async_storage_config \<Rightarrow> flush_outcome \<Rightarrow> string \<Rightarrow> 'j async_engine \<Rightarrow>
    (storage_error + bool) \<times> 'j async_engine" where
  "ae_delete_node cfg out i s =
     (case flush_if_node_cache_full cfg out s of (Inl e, s) \<Rightarrow> (Inl e, s) | (Inr _, s) \<Rightarrow> buffer_node_deletion i s)"

definition buffer_edge_deletion :: "string \<Rightarrow> 'j async_engine \<Rightarrow> (storage_error + bool) \<times> 'j async_engine" where
  "buffer_edge_deletion i s =
     (let present = (case bt_get (ps_edges (ae_pending s)) i of Some (Some _) \<Rightarrow> True | _ \<Rightarrow> False);
          s = s\<lparr>ae_pending := pending_delete_edge i (ae_pending s)\<rparr>
      in (if present then persisted (\<lambda>s. bt_get (ae_edges s) i = None) s else Inr False, s))"

definition ae_delete_edge :: "async_storage_config \<Rightarrow> flush_outcome \<Rightarrow> string \<Rightarrow> 'j async_engine \<Rightarrow>
    (storage_error + bool) \<times> 'j async_engine" where
  "ae_delete_edge cfg out i s =
     (case flush_if_edge_cache_full cfg out s of (Inl e, s) \<Rightarrow> (Inl e, s) | (Inr _, s) \<Rightarrow> buffer_edge_deletion i s)"

subsection \<open>Reads\<close>

definition ae_get_node :: "string \<Rightarrow> 'j async_engine \<Rightarrow> storage_error + 'j node_record option" where
  "ae_get_node i s = (case bt_get (ps_nodes (ae_pending s)) i of
     Some op \<Rightarrow> Inr op | None \<Rightarrow> persisted (\<lambda>s. bt_get (ae_nodes s) i) s)"

definition ae_get_edge :: "string \<Rightarrow> 'j async_engine \<Rightarrow> storage_error + 'j edge_record option" where
  "ae_get_edge i s = (case bt_get (ps_edges (ae_pending s)) i of
     Some op \<Rightarrow> Inr op | None \<Rightarrow> persisted (\<lambda>s. bt_get (ae_edges s) i) s)"

definition update_node_embedding :: "async_storage_config \<Rightarrow> flush_outcome \<Rightarrow> 'j node_record \<Rightarrow> 'j async_engine \<Rightarrow>
    (storage_error + unit) \<times> 'j async_engine" where
  "update_node_embedding cfg out n s =
     (case ae_get_node (nr_id n) s of
        Inl e \<Rightarrow> (Inl e, s)
      | Inr None \<Rightarrow> (Inl (NotFound (nr_id n)), s)
      | Inr (Some existing) \<Rightarrow>
          ae_put_node cfg out (existing\<lparr>nr_chunk_embeddings := nr_chunk_embeddings n, nr_embed_meta := nr_embed_meta n,
            nr_updated_at := (if sint (nr_updated_at existing) \<le> sint (nr_updated_at n) then nr_updated_at n else nr_updated_at existing)\<rparr>) s)"

text \<open>\<open>into_iter().map(|x| (x.id.clone(), x)).collect::<BTreeMap<_, _>>()\<close>\<close>

definition collect_by :: "('v \<Rightarrow> string) \<Rightarrow> 'v list \<Rightarrow> (string, 'v) btree" where
  "collect_by f xs = bt_extend [] (map (\<lambda>x. (f x, x)) xs)"

text \<open>Every buffered operation over the records below.\<close>

definition overlay_all :: "(string \<times> 'v option) list \<Rightarrow> (string, 'v) btree \<Rightarrow> (string, 'v) btree" where
  "overlay_all ops m = fold (\<lambda>(i, op) m. case op of Some v \<Rightarrow> bt_insert i v m | None \<Rightarrow> bt_remove i m) ops m"

text \<open>The buffered records with a tag over the ones below with it; those that lost it are removed.\<close>

definition overlay_tagged :: "string list \<Rightarrow> (string, 'v option) btree \<Rightarrow> (string, 'v) btree \<Rightarrow> (string, 'v) btree" where
  "overlay_tagged matching ops m =
     (let m = fold (\<lambda>i m. case bt_get ops i of Some (Some v) \<Rightarrow> bt_insert i v m | _ \<Rightarrow> m) matching m
      in fold (\<lambda>(i, op) m. if op = None \<or> i \<notin> set matching then bt_remove i m else m) ops m)"

definition ae_nodes_by_label :: "string \<Rightarrow> 'j async_engine \<Rightarrow> storage_error + 'j node_record list" where
  "ae_nodes_by_label label s =
     result_bind (persisted (\<lambda>s. filter (\<lambda>n. label \<in> set (nr_labels n)) (map snd (ae_nodes s))) s) (\<lambda>below.
       Inr (map snd (overlay_tagged (idx_ids (ps_labels (ae_pending s)) label) (ps_nodes (ae_pending s)) (collect_by nr_id below))))"

definition ae_all_nodes :: "'j async_engine \<Rightarrow> storage_error + 'j node_record list" where
  "ae_all_nodes s = result_bind (persisted (\<lambda>s. map snd (ae_nodes s)) s) (\<lambda>below.
     Inr (map snd (overlay_all (ps_nodes (ae_pending s)) (collect_by nr_id below))))"

definition ae_nodes_by_prefix :: "string \<Rightarrow> 'j async_engine \<Rightarrow> storage_error + 'j node_record list" where
  "ae_nodes_by_prefix prefix s =
     result_bind (persisted (\<lambda>s. map snd (filter (\<lambda>(i, _). starts_with i prefix) (ae_nodes s))) s) (\<lambda>below.
       Inr (map snd (overlay_all (filter (\<lambda>(i, _). starts_with i prefix) (ps_nodes (ae_pending s))) (collect_by nr_id below))))"

definition ae_edges_by_type :: "string \<Rightarrow> 'j async_engine \<Rightarrow> storage_error + 'j edge_record list" where
  "ae_edges_by_type edge_type s =
     result_bind (persisted (\<lambda>s. filter (\<lambda>e. er_edge_type e = edge_type) (map snd (ae_edges s))) s) (\<lambda>below.
       Inr (map snd (overlay_tagged (idx_ids (ps_types (ae_pending s)) edge_type) (ps_edges (ae_pending s)) (collect_by er_id below))))"

definition ae_all_edges :: "'j async_engine \<Rightarrow> storage_error + 'j edge_record list" where
  "ae_all_edges s = result_bind (persisted (\<lambda>s. map snd (ae_edges s)) s) (\<lambda>below.
     Inr (map snd (overlay_all (ps_edges (ae_pending s)) (collect_by er_id below))))"

datatype edge_direction = Outgoing | Incoming | Both

definition edge_matches_adjacency :: "string \<Rightarrow> edge_direction \<Rightarrow> string option \<Rightarrow> 'j edge_record \<Rightarrow> bool" where
  "edge_matches_adjacency node_id direction edge_type e \<longleftrightarrow>
     (case direction of
        Outgoing \<Rightarrow> er_start_node e = node_id
      | Incoming \<Rightarrow> er_end_node e = node_id
      | Both \<Rightarrow> er_start_node e = node_id \<or> er_end_node e = node_id) \<and>
     (case edge_type of None \<Rightarrow> True | Some expected \<Rightarrow> er_edge_type e = expected)"

definition pending_adjacent_edge_ids :: "'j pending_state \<Rightarrow> string \<Rightarrow> edge_direction \<Rightarrow> string option \<Rightarrow> string list" where
  "pending_adjacent_edge_ids ps node_id direction edge_type =
     (let ids = (case direction of
            Outgoing \<Rightarrow> fold bs_insert (idx_ids (ps_starts ps) node_id) []
          | Incoming \<Rightarrow> fold bs_insert (idx_ids (ps_ends ps) node_id) []
          | Both \<Rightarrow> fold bs_insert (idx_ids (ps_ends ps) node_id) (fold bs_insert (idx_ids (ps_starts ps) node_id) []))
      in filter (\<lambda>i. case bt_get (ps_edges ps) i of
            Some (Some e) \<Rightarrow> edge_matches_adjacency node_id direction edge_type e | _ \<Rightarrow> False) (bt_keys ids))"

definition ae_adjacent_edges :: "string \<Rightarrow> edge_direction \<Rightarrow> string option \<Rightarrow> 'j async_engine \<Rightarrow> storage_error + 'j edge_record list" where
  "ae_adjacent_edges node_id direction edge_type s =
     result_bind (persisted (\<lambda>s. filter (edge_matches_adjacency node_id direction edge_type) (map snd (ae_edges s))) s) (\<lambda>below.
       (let ps = ae_pending s;
            edges = fold (\<lambda>i m. case bt_get (ps_edges ps) i of Some (Some e) \<Rightarrow> bt_insert i e m | _ \<Rightarrow> m)
              (pending_adjacent_edge_ids ps node_id direction edge_type) (collect_by er_id below);
            edges = fold (\<lambda>i m. case bt_get (ps_edges ps) i of
                None \<Rightarrow> m
              | Some (Some e) \<Rightarrow> if edge_matches_adjacency node_id direction edge_type e then bt_insert i e m else bt_remove i m
              | Some None \<Rightarrow> bt_remove i m) (bt_keys edges) edges
        in Inr (map snd edges)))"

text \<open>The count below, corrected by each buffered operation.\<close>

definition overlay_count :: "('v \<Rightarrow> bool) \<Rightarrow> (string, 'v) btree \<Rightarrow> (string \<times> 'v option) list \<Rightarrow> int \<Rightarrow> int" where
  "overlay_count P below ops c = fold (\<lambda>(i, op) c.
     (let was = (case bt_get below i of None \<Rightarrow> False | Some v \<Rightarrow> P v);
          is = (case op of None \<Rightarrow> False | Some v \<Rightarrow> P v)
      in if \<not> was \<and> is then c + 1 else if was \<and> \<not> is then c - 1 else c)) ops c"

definition ae_node_count_by_prefix :: "string \<Rightarrow> 'j async_engine \<Rightarrow> storage_error + nat" where
  "ae_node_count_by_prefix prefix s =
     result_bind (persisted (\<lambda>s. length (filter (\<lambda>(i, _). starts_with i prefix) (ae_nodes s))) s) (\<lambda>c.
       Inr (nat (overlay_count (\<lambda>n. starts_with (nr_id n) prefix) (ae_nodes s) (ps_nodes (ae_pending s)) (int c))))"

definition ae_edge_count_by_prefix :: "string \<Rightarrow> 'j async_engine \<Rightarrow> storage_error + nat" where
  "ae_edge_count_by_prefix prefix s =
     result_bind (persisted (\<lambda>s. length (filter (\<lambda>(i, _). starts_with i prefix) (ae_edges s))) s) (\<lambda>c.
       Inr (nat (overlay_count (\<lambda>e. starts_with (er_id e) prefix) (ae_edges s) (ps_edges (ae_pending s)) (int c))))"

subsection \<open>Nodes that wait for an embedding\<close>

lemma removed_is_shorter [termination_simp]:
  "ae_embeds s = (i, u) # rest \<Longrightarrow> length (ae_embeds (remove_pending_embedding i s)) < Suc (length rest)"
  using length_filter_le [of "\<lambda>e. fst e \<noteq> i" rest]
  by (simp add: remove_pending_embedding_def bt_remove_def less_Suc_eq_le)

text \<open>The loop takes the least tracked id until its node needs an embedding, dropping the others.\<close>

function find_node_needing_embedding ::
    "'j async_engine \<Rightarrow> (storage_error + 'j node_record option) \<times> 'j async_engine" where
  "find_node_needing_embedding s =
     (case ae_embeds s of
        [] \<Rightarrow> (Inr None, s)
      | (i, u) # rest \<Rightarrow>
          (case ae_get_node i s of
             Inl e \<Rightarrow> (Inl e, s)
           | Inr None \<Rightarrow> find_node_needing_embedding (remove_pending_embedding i s)
           | Inr (Some n) \<Rightarrow>
               if node_record_needs_embedding n then (Inr (Some n), s)
               else find_node_needing_embedding (remove_pending_embedding i s)))"
  by pat_completeness auto

termination
  by (relation "measure (\<lambda>s. length (ae_embeds s))") (auto simp: removed_is_shorter)

declare find_node_needing_embedding.simps [simp del]

definition refresh_pending_embeddings_index :: "'j async_engine \<Rightarrow> (storage_error + nat) \<times> 'j async_engine" where
  "refresh_pending_embeddings_index s =
     (case ae_all_nodes s of
        Inl e \<Rightarrow> (Inl e, s)
      | Inr nodes \<Rightarrow>
          (let ids = fold bs_insert (map nr_id (filter node_record_needs_embedding nodes)) []
           in (Inr (length ids), s\<lparr>ae_embeds := ids\<rparr>)))"

definition add_to_pending_embeddings :: "string \<Rightarrow> 'j async_engine \<Rightarrow> (storage_error + unit) \<times> 'j async_engine" where
  "add_to_pending_embeddings i s =
     (case ae_get_node i s of
        Inl e \<Rightarrow> (Inl e, s)
      | Inr None \<Rightarrow> (Inr (), s)
      | Inr (Some n) \<Rightarrow> (Inr (), if node_record_needs_embedding n then update_pending_embedding_for_node n s else s))"

end
