(* ===== verification/Async_Views.thy ===== *)
theory Async_Views
  imports Async_Engine
begin

text \<open>
  What the write-behind engine shows: the tables below with the buffered operations applied. The locale
  \<open>record_overlay\<close> proves for any kind of record that the engine's ways of merging a buffer into what
  was read below are scans of that one view; nodes and edges are its two instances.
\<close>

subsection \<open>Overlays\<close>

lemma bt_get_Cons: "bt_get ((k, v) # m) i = (if i = k then Some v else bt_get m i)"
  by (simp add: bt_get_def)

lemma overlay_all_get:
  assumes "distinct (map fst ops)"
  shows "bt_get (overlay_all ops m) i = (case bt_get ops i of Some op \<Rightarrow> op | None \<Rightarrow> bt_get m i)"
  using assms
proof (induction ops arbitrary: m)
  case (Cons x ops)
  obtain k op where x: "x = (k, op)" by (cases x)
  have "bt_get ops k = None" using Cons.prems x by (force simp: bt_get_None_iff)
  then show ?case using Cons x by (auto simp: overlay_all_def bt_get_Cons split: option.split)
qed (simp add: overlay_all_def bt_get_def)

lemma overlay_all_wf [wf_intros]: "bt_wf m \<Longrightarrow> bt_wf (overlay_all ops m)"
  by (induction ops arbitrary: m) (auto simp: overlay_all_def bt_wf_insert bt_wf_remove split: option.split)

lemma insert_ids_get:
  "bt_get (fold (\<lambda>i m. case bt_get ops i of Some (Some v) \<Rightarrow> bt_insert i v m | _ \<Rightarrow> m) ids m) i =
     (if i \<in> set ids then (case bt_get ops i of Some (Some v) \<Rightarrow> Some v | _ \<Rightarrow> bt_get m i) else bt_get m i)"
  by (induction ids arbitrary: m) (auto split: option.splits)

lemma insert_ids_wf [wf_intros]:
  "bt_wf m \<Longrightarrow> bt_wf (fold (\<lambda>i m. case bt_get ops i of Some (Some v) \<Rightarrow> bt_insert i v m | _ \<Rightarrow> m) ids m)"
  by (induction ids arbitrary: m) (auto simp: bt_wf_insert split: option.splits)

lemma remove_ids_get:
  "bt_get (fold (\<lambda>(i, op) m. if Q i op then bt_remove i m else m) ops m) i =
     (if \<exists>op. (i, op) \<in> set ops \<and> Q i op then None else bt_get m i)"
  by (induction ops arbitrary: m) auto

lemma remove_ids_wf [wf_intros]: "bt_wf m \<Longrightarrow> bt_wf (fold (\<lambda>(i, op) m. if Q i op then bt_remove i m else m) ops m)"
  by (induction ops arbitrary: m) (auto simp: bt_wf_remove)

lemma bt_get_filter_snd:
  "bt_wf m \<Longrightarrow> bt_get (filter (\<lambda>(i, v). P i v) m) i = (case bt_get m i of None \<Rightarrow> None | Some v \<Rightarrow> if P i v then Some v else None)"
  by (simp add: bt_get_filter split: option.split)

lemma bt_wf_filter_snd [wf_intros]: "bt_wf m \<Longrightarrow> bt_wf (filter P m)"
  by (rule bt_wf_filter)

lemma settle_keys_get:
  "bt_get (fold (\<lambda>i m. case bt_get ops i of None \<Rightarrow> m | Some (Some v) \<Rightarrow> if P v then bt_insert i v m else bt_remove i m
      | Some None \<Rightarrow> bt_remove i m) ids m) i =
     (if i \<in> set ids then (case bt_get ops i of None \<Rightarrow> bt_get m i | Some (Some v) \<Rightarrow> if P v then Some v else None | Some None \<Rightarrow> None)
      else bt_get m i)"
  by (induction ids arbitrary: m) (auto split: option.splits)

lemma settle_keys_wf:
  "bt_wf m \<Longrightarrow> bt_wf (fold (\<lambda>i m. case bt_get ops i of None \<Rightarrow> m | Some (Some v) \<Rightarrow> if P v then bt_insert i v m else bt_remove i m
      | Some None \<Rightarrow> bt_remove i m) ids m)"
  by (induction ids arbitrary: m) (auto simp: bt_wf_insert bt_wf_remove split: option.splits)

subsection \<open>Counting\<close>

definition matches :: "('v \<Rightarrow> bool) \<Rightarrow> ('k \<times> 'v) list \<Rightarrow> nat" where
  "matches P m = length (filter (\<lambda>e. P (snd e)) m)"

definition one_if :: "('v \<Rightarrow> bool) \<Rightarrow> 'v option \<Rightarrow> nat" where
  "one_if P v = (case v of None \<Rightarrow> 0 | Some v \<Rightarrow> if P v then 1 else 0)"

lemma filter_key: "distinct (map fst m) \<Longrightarrow> filter (\<lambda>e. fst e = i) m = (case map_of m i of None \<Rightarrow> [] | Some v \<Rightarrow> [(i, v)])"
  by (induction m) (auto simp: filter_empty_conv image_iff map_of_eq_None_iff split: option.split)

lemma matches_remove:
  assumes "bt_wf m" shows "matches P (bt_remove i m) + one_if P (bt_get m i) = matches P m"
proof -
  have "matches P m = matches P (filter (\<lambda>e. fst e = i) m) + matches P (filter (\<lambda>e. fst e \<noteq> i) m)"
    by (induction m) (auto simp: matches_def)
  moreover have "matches P (filter (\<lambda>e. fst e = i) m) = one_if P (bt_get m i)"
    unfolding filter_key [OF bt_wf_distinct [OF assms]] by (simp add: matches_def one_if_def bt_get_def split: option.split)
  ultimately show ?thesis by (simp add: bt_remove_def)
qed

lemma matches_insert:
  assumes "bt_wf m" shows "matches P (bt_insert i v m) + one_if P (bt_get m i) = matches P m + one_if P (Some v)"
proof -
  have "matches P (filter (\<lambda>e. fst e < i) m) + matches P (filter (\<lambda>e. i < fst e) m) = matches P (filter (\<lambda>e. fst e \<noteq> i) m)"
    by (induction m) (auto simp: matches_def)
  then have "matches P (bt_insert i v m) = matches P (bt_remove i m) + one_if P (Some v)"
    by (simp add: bt_insert_def bt_remove_def one_if_def matches_def)
  then show ?thesis using matches_remove [OF assms, of P i] by simp
qed

lemma overlay_count_matches:
  assumes "bt_wf m" "distinct (map fst ops)" "\<forall>i\<in>fst ` set ops. bt_get m i = bt_get below i"
  shows "overlay_count P below ops (int (matches P m)) = int (matches P (overlay_all ops m))"
  using assms
proof (induction ops arbitrary: m)
  case (Cons x ops)
  obtain i op where x: "x = (i, op)" by (cases x)
  let ?m = "case op of Some v \<Rightarrow> bt_insert i v m | None \<Rightarrow> bt_remove i m"
  have wf: "bt_wf ?m" using Cons.prems(1) by (cases op) (auto simp: bt_wf_insert bt_wf_remove)
  have "\<forall>j\<in>fst ` set ops. bt_get ?m j = bt_get below j" using Cons.prems(2,3) x by (cases op) auto
  note IH = Cons.IH [OF wf _ this]
  have "int (matches P ?m) = (let was = (case bt_get below i of None \<Rightarrow> False | Some v \<Rightarrow> P v);
          is = (case op of None \<Rightarrow> False | Some v \<Rightarrow> P v)
      in if \<not> was \<and> is then int (matches P m) + 1 else if was \<and> \<not> is then int (matches P m) - 1 else int (matches P m))"
    using matches_remove [OF Cons.prems(1), of P i] matches_insert [OF Cons.prems(1), of P i "the op"] Cons.prems(3) x
    by (cases op; cases "bt_get below i") (auto simp: one_if_def Let_def)
  moreover have "overlay_all (x # ops) m = overlay_all ops ?m" using x by (cases op) (simp_all add: overlay_all_def)
  ultimately show ?case using IH Cons.prems(2) x by (simp add: overlay_count_def)
qed (simp add: overlay_count_def overlay_all_def)

subsection \<open>Merging as a scan of the view\<close>

locale record_overlay =
  fixes rec_id :: "'v \<Rightarrow> string"
    and ops :: "'s \<Rightarrow> (string, 'v option) btree"
    and below :: "'s \<Rightarrow> (string, 'v) btree"
    and ok :: "'s \<Rightarrow> bool"
  assumes ops_wf: "ok s \<Longrightarrow> bt_wf (ops s)" and ops_ids: "ok s \<Longrightarrow> ids_ok rec_id (ops s)"
    and below_wf: "ok s \<Longrightarrow> bt_wf (below s)" and below_ids: "ok s \<Longrightarrow> (i, v) \<in> set (below s) \<Longrightarrow> rec_id v = i"
begin

lemma view_get:
  assumes ok: "ok s" shows "bt_get (overlay_all (ops s) (below s)) i = (case bt_get (ops s) i of Some op \<Rightarrow> op | None \<Rightarrow> bt_get (below s) i)"
  using bt_wf_distinct [OF ops_wf [OF ok]] by (rule overlay_all_get)

lemma view_wf:
  assumes ok: "ok s" shows "bt_wf (overlay_all (ops s) (below s))"
  using below_wf [OF ok] by (rule overlay_all_wf)

lemma ops_id:
  assumes ok: "ok s" shows "bt_get (ops s) i = Some (Some v) \<Longrightarrow> rec_id v = i"
  using ops_ids [OF ok] ops_wf [OF ok] by (auto simp: ids_ok_def bt_get_Some_iff)

lemma below_id:
  assumes ok: "ok s" shows "bt_get (below s) i = Some v \<Longrightarrow> rec_id v = i"
  using below_ids [OF ok] below_wf [OF ok] by (auto simp: bt_get_Some_iff)

lemma view_id:
  assumes ok: "ok s" shows "bt_get (overlay_all (ops s) (below s)) i = Some v \<Longrightarrow> rec_id v = i"
  using ops_id [OF ok] below_id [OF ok] by (auto simp: view_get [OF ok] split: option.splits)

lemma collect_below:
  assumes ok: "ok s" shows "collect_by rec_id (filter P (map snd (below s))) = filter (\<lambda>(i, v). P v) (below s)"
proof -
  have "map (\<lambda>x. (rec_id x, x)) (filter P (map snd m)) = filter (\<lambda>(i, v). P v) m" if "set m \<subseteq> set (below s)" for m
    using that below_ids [OF ok] by (induction m) auto
  then show ?thesis using bt_get_extend_empty [OF bt_wf_filter [OF below_wf [OF ok]]] by (simp add: collect_by_def)
qed

lemma collect_below_all:
  assumes ok: "ok s" shows "collect_by rec_id (map snd (below s)) = (below s)"
  using collect_below [OF ok, of "\<lambda>_. True"] by (simp add: case_prod_unfold)

lemma collect_below_keys:
  assumes ok: "ok s" shows "collect_by rec_id (map snd (filter (\<lambda>(i, _). R i) (below s))) = filter (\<lambda>(i, _). R i) (below s)"
proof -
  have "map snd (filter (\<lambda>(i, _). R i) m) = filter (\<lambda>v. R (rec_id v)) (map snd m)" if "set m \<subseteq> set (below s)" for m
    using that below_ids [OF ok] by (induction m) auto
  moreover have "filter (\<lambda>(i, v). R (rec_id v)) (below s) = filter (\<lambda>(i, _). R i) (below s)"
    using below_ids [OF ok] by (auto intro!: filter_cong)
  ultimately show ?thesis using collect_below [OF ok, of "\<lambda>v. R (rec_id v)"] by simp
qed

lemma filter_values: "map snd (filter (\<lambda>(i, v). P v) m) = filter P (map snd m)"
  by (induction m) auto

text \<open>All records.\<close>

lemma all_is_view:
  assumes ok: "ok s" shows "map snd (overlay_all (ops s) (collect_by rec_id (map snd (below s)))) = map snd (overlay_all (ops s) (below s))"
  by (simp add: collect_below_all [OF ok])

text \<open>The records with a tag.\<close>

lemma tagged_is_view:
  assumes ok: "ok s" and matching: "\<And>i. i \<in> set matching \<longleftrightarrow> (\<exists>v. bt_get (ops s) i = Some (Some v) \<and> P v)"
  shows "map snd (overlay_tagged matching (ops s) (collect_by rec_id (filter P (map snd (below s))))) = filter P (map snd (overlay_all (ops s) (below s)))"
proof -
  have "overlay_tagged matching (ops s) (filter (\<lambda>(i, v). P v) (below s)) = filter (\<lambda>(i, v). P v) (overlay_all (ops s) (below s))"
  proof (rule bt_ext)
    show "bt_wf (overlay_tagged matching (ops s) (filter (\<lambda>(i, v). P v) (below s)))"
      unfolding overlay_tagged_def Let_def by (intro remove_ids_wf insert_ids_wf bt_wf_filter below_wf [OF ok])
    show "bt_wf (filter (\<lambda>(i, v). P v) (overlay_all (ops s) (below s)))" by (intro bt_wf_filter view_wf [OF ok])
    fix i
    show "bt_get (overlay_tagged matching (ops s) (filter (\<lambda>(i, v). P v) (below s))) i = bt_get (filter (\<lambda>(i, v). P v) (overlay_all (ops s) (below s))) i"
      using matching [of i]
      by (auto simp: overlay_tagged_def Let_def remove_ids_get insert_ids_get bt_get_filter_snd [OF below_wf [OF ok]]
          bt_get_filter_snd [OF view_wf [OF ok]] view_get [OF ok] bt_get_Some_iff [OF ops_wf [OF ok], symmetric] split: option.splits)
  qed
  then show ?thesis by (simp add: collect_below [OF ok] filter_values)
qed

text \<open>The records whose id satisfies a predicate.\<close>

lemma keyed_is_view:
  assumes ok: "ok s" shows "map snd (overlay_all (filter (\<lambda>(i, _). R i) (ops s)) (collect_by rec_id (map snd (filter (\<lambda>(i, _). R i) (below s))))) =
     map snd (filter (\<lambda>(i, _). R i) (overlay_all (ops s) (below s)))"
proof -
  have wf: "bt_wf (filter (\<lambda>(i, _). R i) (ops s))" by (rule bt_wf_filter [OF ops_wf [OF ok]])
  have "overlay_all (filter (\<lambda>(i, _). R i) (ops s)) (filter (\<lambda>(i, _). R i) (below s)) = filter (\<lambda>(i, _). R i) (overlay_all (ops s) (below s))"
  proof (rule bt_ext)
    show "bt_wf (overlay_all (filter (\<lambda>(i, _). R i) (ops s)) (filter (\<lambda>(i, _). R i) (below s)))"
      by (intro overlay_all_wf bt_wf_filter below_wf [OF ok])
    show "bt_wf (filter (\<lambda>(i, _). R i) (overlay_all (ops s) (below s)))" by (intro bt_wf_filter view_wf [OF ok])
    show "bt_get (overlay_all (filter (\<lambda>(i, _). R i) (ops s)) (filter (\<lambda>(i, _). R i) (below s))) i =
        bt_get (filter (\<lambda>(i, _). R i) (overlay_all (ops s) (below s))) i" for i
      by (auto simp: overlay_all_get [OF bt_wf_distinct [OF wf]] bt_get_filter [OF ops_wf [OF ok]] bt_get_filter [OF below_wf [OF ok]]
          bt_get_filter [OF view_wf [OF ok]] view_get [OF ok] split: option.splits)
  qed
  then show ?thesis by (simp add: collect_below_keys [OF ok])
qed

text \<open>The adjacency lookup merges in two passes.\<close>

lemma adjacent_is_view:
  assumes ok: "ok s" and matching: "\<And>i. i \<in> set matching \<longleftrightarrow> (\<exists>v. bt_get (ops s) i = Some (Some v) \<and> P v)"
  shows "(let edges = fold (\<lambda>i m. case bt_get (ops s) i of Some (Some v) \<Rightarrow> bt_insert i v m | _ \<Rightarrow> m) matching
              (collect_by rec_id (filter P (map snd (below s))));
            edges = fold (\<lambda>i m. case bt_get (ops s) i of None \<Rightarrow> m | Some (Some v) \<Rightarrow> if P v then bt_insert i v m else bt_remove i m
              | Some None \<Rightarrow> bt_remove i m) (bt_keys edges) edges
        in map snd edges) = filter P (map snd (overlay_all (ops s) (below s)))"
proof -
  let ?one = "fold (\<lambda>i m. case bt_get (ops s) i of Some (Some v) \<Rightarrow> bt_insert i v m | _ \<Rightarrow> m) matching (filter (\<lambda>(i, v). P v) (below s))"
  let ?two = "fold (\<lambda>i m. case bt_get (ops s) i of None \<Rightarrow> m | Some (Some v) \<Rightarrow> if P v then bt_insert i v m else bt_remove i m
    | Some None \<Rightarrow> bt_remove i m) (bt_keys ?one) ?one"
  have wf: "bt_wf ?one" by (intro insert_ids_wf bt_wf_filter below_wf [OF ok])
  have keys: "i \<in> set (bt_keys ?one) \<longleftrightarrow> bt_get ?one i \<noteq> None" for i using bt_get_None_iff [of ?one i] by (auto simp: bt_keys_def)
  have "?two = filter (\<lambda>(i, v). P v) (overlay_all (ops s) (below s))"
  proof (rule bt_ext)
    show "bt_wf ?two" by (rule settle_keys_wf [OF wf])
    show "bt_wf (filter (\<lambda>(i, v). P v) (overlay_all (ops s) (below s)))" by (intro bt_wf_filter view_wf [OF ok])
    fix i
    show "bt_get ?two i = bt_get (filter (\<lambda>(i, v). P v) (overlay_all (ops s) (below s))) i"
      unfolding settle_keys_get keys insert_ids_get bt_get_filter_snd [OF below_wf [OF ok]] bt_get_filter_snd [OF view_wf [OF ok]] view_get [OF ok]
      using matching [of i] by (auto split: option.splits)
  qed
  then show ?thesis by (simp add: collect_below [OF ok] filter_values Let_def)
qed

lemma count_is_view:
  assumes ok: "ok s" and "c = length (filter (\<lambda>(i, _). R i) (below s))"
  shows "nat (overlay_count (\<lambda>v. R (rec_id v)) (below s) (ops s) (int c)) = length (filter (\<lambda>v. R (rec_id v)) (map snd (overlay_all (ops s) (below s))))"
proof -
  have "filter (\<lambda>(i, _). R i) (below s) = filter (\<lambda>e. R (rec_id (snd e))) (below s)" using below_ids [OF ok] by (auto intro!: filter_cong)
  then have "c = matches (\<lambda>v. R (rec_id v)) (below s)" using assms by (simp add: matches_def)
  moreover have "matches P m = length (filter P (map snd m))" for P :: "'v \<Rightarrow> bool" and m :: "(string, 'v) btree"
    by (simp add: matches_def filter_map comp_def)
  ultimately show ?thesis
    using overlay_count_matches [OF below_wf [OF ok] bt_wf_distinct [OF ops_wf [OF ok]], where below = "below s" and P = "\<lambda>v. R (rec_id v)"] by simp
qed

end

end
