(* ===== verification/Async_Refine.thy ===== *)
theory Async_Refine
  imports Async_Views
begin

text \<open>
  The write-behind engine against its specification, a graph that every write changes at once: flushes,
  the steps in which they move the buffer down and the failures that put it back do not show. Writes may
  come between the steps of a flush, as they do not take the flush lock.
\<close>

subsection \<open>Invariant\<close>

definition engine_ok :: "'j async_engine \<Rightarrow> bool" where
  "engine_ok s \<longleftrightarrow> pending_ok (ae_pending s) \<and> bt_wf (ae_nodes s) \<and> (\<forall>(i, n)\<in>set (ae_nodes s). nr_id n = i) \<and>
     bt_wf (ae_edges s) \<and> (\<forall>(i, e)\<in>set (ae_edges s). er_id e = i) \<and> bt_wf (ae_embeds s)"

interpretation buffered_nodes: record_overlay nr_id "\<lambda>s. ps_nodes (ae_pending s)" ae_nodes engine_ok
  by unfold_locales (auto simp: engine_ok_def pending_ok_def)

interpretation buffered_edges: record_overlay er_id "\<lambda>s. ps_edges (ae_pending s)" ae_edges engine_ok
  by unfold_locales (auto simp: engine_ok_def pending_ok_def)

definition view_nodes :: "'j async_engine \<Rightarrow> (string, 'j node_record) btree" where
  "view_nodes s = overlay_all (ps_nodes (ae_pending s)) (ae_nodes s)"

definition view_edges :: "'j async_engine \<Rightarrow> (string, 'j edge_record) btree" where
  "view_edges s = overlay_all (ps_edges (ae_pending s)) (ae_edges s)"

lemma engine_ok_buffer_node: "engine_ok s \<Longrightarrow> engine_ok (buffer_node n s)"
  by (auto simp: engine_ok_def buffer_node_def update_pending_embedding_for_node_def pending_put_node_ok intro: wf_intros)

lemma engine_ok_buffer_edge: "engine_ok s \<Longrightarrow> engine_ok (buffer_edge e s)"
  by (simp add: engine_ok_def buffer_edge_def pending_put_edge_ok)

lemma engine_ok_delete_node: "engine_ok s \<Longrightarrow> engine_ok (snd (buffer_node_deletion i s))"
  by (auto simp: engine_ok_def buffer_node_deletion_def Let_def remove_pending_embedding_def pending_delete_node_ok intro: wf_intros)

lemma engine_ok_delete_edge: "engine_ok s \<Longrightarrow> engine_ok (snd (buffer_edge_deletion i s))"
  by (simp add: engine_ok_def buffer_edge_deletion_def Let_def pending_delete_edge_ok)

definition taken_ok :: "'j taken \<Rightarrow> bool" where
  "taken_ok ops \<longleftrightarrow> bt_wf (fst ops) \<and> ids_ok nr_id (fst ops) \<and> bt_wf (snd ops) \<and> ids_ok er_id (snd ops)"

lemma flush_take_eq: "flush_take s = ((ps_nodes (ae_pending s), ps_edges (ae_pending s)), s\<lparr>ae_pending := pending_default\<rparr>)"
  by (simp add: flush_take_def take_ops_def)

lemma taken_ok_take: "engine_ok s \<Longrightarrow> taken_ok (fst (flush_take s)) \<and> engine_ok (snd (flush_take s))"
  by (simp add: flush_take_eq taken_ok_def engine_ok_def pending_ok_default) (simp add: pending_ok_def)

lemma apply_ops_get:
  fixes put :: "'v \<Rightarrow> 'v"
  assumes "distinct (map fst ops)" "ids_ok f ops"
  shows "bt_get (fold (\<lambda>(i, op) m. case op of Some n \<Rightarrow> bt_insert (f n) (put n) m | None \<Rightarrow> bt_remove i m) ops m) i =
    (case bt_get ops i of Some op \<Rightarrow> map_option put op | None \<Rightarrow> bt_get m i)"
  using assms
proof (induction ops arbitrary: m)
  case (Cons x ops)
  obtain k op where x: "x = (k, op)" by (cases x)
  have "bt_get ops k = None" using Cons.prems x by (force simp: bt_get_None_iff)
  moreover have "ids_ok f ops" "\<forall>v. op = Some v \<longrightarrow> f v = k" using Cons.prems(2) x by (auto simp: ids_ok_def)
  ultimately show ?case using Cons x by (auto simp: bt_get_Cons split: option.split)
qed (simp add: bt_get_def)

lemma apply_ops_wf: "bt_wf m \<Longrightarrow> bt_wf (fold (\<lambda>(i, op) m. case op of Some n \<Rightarrow> bt_insert (f n) (put n) m | None \<Rightarrow> bt_remove i m) ops m)"
  by (induction ops arbitrary: m) (auto simp: bt_wf_insert bt_wf_remove split: option.split)

lemma apply_nodes_get:
  assumes "taken_ok ops"
  shows "bt_get (apply_node_ops (fst ops) m) i = (case bt_get (fst ops) i of
    Some op \<Rightarrow> map_option (\<lambda>n. stored_node (bt_get m (nr_id n)) n) op | None \<Rightarrow> bt_get m i)"
  unfolding apply_node_ops_def
  by (rule apply_ops_get [where put = "\<lambda>n. stored_node (bt_get m (nr_id n)) n"])
    (use assms in \<open>simp_all add: taken_ok_def bt_wf_distinct\<close>)

lemma apply_edges_get:
  assumes "taken_ok ops"
  shows "bt_get (apply_edge_ops (snd ops) m) i = (case bt_get (snd ops) i of Some op \<Rightarrow> op | None \<Rightarrow> bt_get m i)"
  unfolding apply_edge_ops_def
  using apply_ops_get [where put = "\<lambda>e. e" and f = er_id and ops = "snd ops" and m = m and i = i] assms
  by (simp add: taken_ok_def bt_wf_distinct option.map_ident split: option.split)

lemma ids_from_get: "bt_wf m \<Longrightarrow> (\<And>i v. bt_get m i = Some v \<Longrightarrow> f v = i) \<Longrightarrow> \<forall>(i, v)\<in>set m. f v = i"
  by (auto simp: bt_get_Some_iff)

lemma engine_ok_commit:
  assumes "engine_ok s" "taken_ok ops" shows "engine_ok (flush_commit ops s)"
proof -
  have wf: "bt_wf (apply_node_ops (fst ops) (ae_nodes s))" "bt_wf (apply_edge_ops (snd ops) (ae_edges s))"
    unfolding apply_node_ops_def apply_edge_ops_def using assms(1) by (simp_all add: engine_ok_def apply_ops_wf)
  have nid: "bt_get (ae_nodes s) i = Some n \<Longrightarrow> nr_id n = i" and eid: "bt_get (ae_edges s) i = Some e \<Longrightarrow> er_id e = i" for i n e
    using buffered_nodes.below_id [OF assms(1)] buffered_edges.below_id [OF assms(1)] by blast+
  have onid: "bt_get (fst ops) i = Some (Some n) \<Longrightarrow> nr_id n = i" and oeid: "bt_get (snd ops) i = Some (Some e) \<Longrightarrow> er_id e = i" for i n e
    using assms(2) by (auto simp: taken_ok_def ids_ok_def bt_get_Some_iff)
  have "\<forall>(i, n)\<in>set (apply_node_ops (fst ops) (ae_nodes s)). nr_id n = i"
    by (rule ids_from_get [OF wf(1)]) (use nid onid in \<open>auto simp: apply_nodes_get [OF assms(2)] split: option.splits\<close>)
  moreover have "\<forall>(i, e)\<in>set (apply_edge_ops (snd ops) (ae_edges s)). er_id e = i"
    by (rule ids_from_get [OF wf(2)]) (use eid oeid in \<open>auto simp: apply_edges_get [OF assms(2)] split: option.splits\<close>)
  ultimately show ?thesis using assms(1) wf by (simp add: engine_ok_def flush_commit_def)
qed

lemma requeue_fields:
  assumes "engine_ok s" "taken_ok ops"
  shows "engine_ok (flush_requeue ops s)" "ps_nodes (ae_pending (flush_requeue ops s)) = bt_extend (ps_nodes (ae_pending s)) (fst ops)"
    "ps_edges (ae_pending (flush_requeue ops s)) = bt_extend (ps_edges (ae_pending s)) (snd ops)"
    "ae_nodes (flush_requeue ops s) = ae_nodes s" "ae_edges (flush_requeue ops s) = ae_edges s"
proof -
  have "pending_ok (ae_pending s)" using assms(1) by (simp add: engine_ok_def)
  note nodes = requeue_nodes [OF this, of "fst ops"]
  note edges = requeue_edges [of "requeue_node_ops (fst ops) (ae_pending s)" "snd ops"]
  show "engine_ok (flush_requeue ops s)" "ps_nodes (ae_pending (flush_requeue ops s)) = bt_extend (ps_nodes (ae_pending s)) (fst ops)"
    "ps_edges (ae_pending (flush_requeue ops s)) = bt_extend (ps_edges (ae_pending s)) (snd ops)"
    "ae_nodes (flush_requeue ops s) = ae_nodes s" "ae_edges (flush_requeue ops s) = ae_edges s"
    using assms nodes edges by (simp_all add: engine_ok_def taken_ok_def flush_requeue_def)
qed

subsection \<open>A refused flush\<close>

lemma indexes_unique: "indexes_field f ix ops \<Longrightarrow> indexes_field f ix' ops \<Longrightarrow> ix = ix'"
  unfolding indexes_field_def by (intro idx_ext) auto

lemma pending_unique:
  assumes "pending_ok ps" "pending_ok ps'" "ps_nodes ps = ps_nodes ps'" "ps_edges ps = ps_edges ps'"
  shows "ps = (ps' :: 'j pending_state)"
proof -
  have "ps_labels ps = ps_labels ps'" "ps_types ps = ps_types ps'" "ps_starts ps = ps_starts ps'" "ps_ends ps = ps_ends ps'"
    using assms indexes_unique unfolding pending_ok_def by metis+
  then show ?thesis using assms by (intro pending_state.equality) simp_all
qed

lemma refused_restores:
  assumes ok: "engine_ok s" shows "flush_pending_locked (BatchRefused e) s = (Inl e, s)"
proof -
  let ?ops = "fst (flush_take s)" and ?s = "snd (flush_take s)"
  note taken = taken_ok_take [OF ok]
  note fields = requeue_fields [OF conjunct2 [OF taken] conjunct1 [OF taken]]
  have wf: "bt_wf (ps_nodes (ae_pending s))" "bt_wf (ps_edges (ae_pending s))" using ok by (simp_all add: engine_ok_def pending_ok_def)
  have "ae_pending (flush_requeue ?ops ?s) = ae_pending s"
    using fields ok wf by (intro pending_unique) (simp_all add: engine_ok_def flush_take_eq pending_default_def bt_get_extend_empty)
  then have "flush_requeue ?ops ?s = s" by (simp add: flush_requeue_def flush_take_eq)
  then show ?thesis by (simp add: flush_pending_locked_def flush_take_eq)
qed

subsection \<open>Steps\<close>

datatype 'j graph_write = WriteNode "'j node_record" | DropNode string | WriteEdge "'j edge_record" | DropEdge string

type_synonym 'j async_state = "'j async_engine \<times> 'j taken option"

text \<open>
  The second component holds what a flush has taken and not settled yet. A deletion takes the flush lock
  for reading and waits; a write of a record does not. With \<open>raced\<close> false, a batch is refused only when
  nothing it holds was written again meanwhile.
\<close>

inductive async_step :: "bool \<Rightarrow> 'j graph_write option \<Rightarrow> 'j async_state \<Rightarrow> 'j async_state \<Rightarrow> bool" for raced where
  put_node: "async_step raced (Some (WriteNode n)) (s, t) (buffer_node n s, t)"
| put_edge: "async_step raced (Some (WriteEdge e)) (s, t) (buffer_edge e s, t)"
| delete_node: "async_step raced (Some (DropNode i)) (s, None) (snd (buffer_node_deletion i s), None)"
| delete_edge: "async_step raced (Some (DropEdge i)) (s, None) (snd (buffer_edge_deletion i s), None)"
| take: "ae_open s \<Longrightarrow> async_step raced None (s, None) (snd (flush_take s), Some (fst (flush_take s)))"
| commit: "async_step raced None (s, Some ops) (flush_commit ops s, None)"
| refuse: "raced \<or> (\<forall>i\<in>fst ` set (fst ops). bt_get (ps_nodes (ae_pending s)) i = None) \<and>
      (\<forall>i\<in>fst ` set (snd ops). bt_get (ps_edges (ae_pending s)) i = None) \<Longrightarrow>
    async_step raced None (s, Some ops) (flush_requeue ops s, None)"
| track: "async_step raced None (s, t) (remove_pending_embedding i s, t)"
| close: "async_step raced None (s, None) (s\<lparr>ae_open := False\<rparr>, None)"

inductive async_run :: "bool \<Rightarrow> 'j graph_write list \<Rightarrow> 'j async_state \<Rightarrow> 'j async_state \<Rightarrow> bool" for raced where
  start: "async_run raced [] r r"
| more: "async_step raced w r r' \<Longrightarrow> async_run raced ws r' r'' \<Longrightarrow>
    async_run raced ((case w of None \<Rightarrow> [] | Some w \<Rightarrow> [w]) @ ws) r r''"

text \<open>The specification: a graph, up to the embeddings that the engine below drops with a changed source.\<close>

type_synonym 'j graph = "(string \<rightharpoonup> 'j node_record) \<times> (string \<rightharpoonup> 'j edge_record)"

definition apply_write :: "'j graph_write \<Rightarrow> 'j graph \<Rightarrow> 'j graph" where
  "apply_write w g = (case w of
     WriteNode n \<Rightarrow> ((fst g)(nr_id n \<mapsto> clear_managed_chunk_embeddings n), snd g)
   | DropNode i \<Rightarrow> ((fst g)(i := None), snd g)
   | WriteEdge e \<Rightarrow> (fst g, (snd g)(er_id e \<mapsto> e))
   | DropEdge i \<Rightarrow> (fst g, (snd g)(i := None)))"

definition run_node :: "'j async_state \<Rightarrow> string \<Rightarrow> 'j node_record option" where
  "run_node r i = (case bt_get (ps_nodes (ae_pending (fst r))) i of Some op \<Rightarrow> op
     | None \<Rightarrow> (case snd r of None \<Rightarrow> bt_get (ae_nodes (fst r)) i
         | Some ops \<Rightarrow> (case bt_get (fst ops) i of Some op \<Rightarrow> op | None \<Rightarrow> bt_get (ae_nodes (fst r)) i)))"

definition run_edge :: "'j async_state \<Rightarrow> string \<Rightarrow> 'j edge_record option" where
  "run_edge r i = (case bt_get (ps_edges (ae_pending (fst r))) i of Some op \<Rightarrow> op
     | None \<Rightarrow> (case snd r of None \<Rightarrow> bt_get (ae_edges (fst r)) i
         | Some ops \<Rightarrow> (case bt_get (snd ops) i of Some op \<Rightarrow> op | None \<Rightarrow> bt_get (ae_edges (fst r)) i)))"

definition contents :: "'j async_state \<Rightarrow> 'j graph" where
  "contents r = (\<lambda>i. map_option clear_managed_chunk_embeddings (run_node r i), run_edge r)"

definition run_ok :: "'j async_state \<Rightarrow> bool" where
  "run_ok r \<longleftrightarrow> engine_ok (fst r) \<and> (case snd r of None \<Rightarrow> True | Some ops \<Rightarrow> taken_ok ops)"

lemma run_ok_step: "async_step raced w r r' \<Longrightarrow> run_ok r \<Longrightarrow> run_ok r'"
proof (induction rule: async_step.induct)
  case (take s)
  then have "engine_ok s" by (simp add: run_ok_def)
  from taken_ok_take [OF this] show ?case by (simp add: run_ok_def)
next
  case (track s t i)
  then show ?case by (auto simp: run_ok_def engine_ok_def remove_pending_embedding_def intro: wf_intros)
next
  case (close s)
  then show ?case by (simp add: run_ok_def engine_ok_def)
qed (simp_all add: run_ok_def engine_ok_buffer_node engine_ok_buffer_edge engine_ok_delete_node engine_ok_delete_edge
    engine_ok_commit requeue_fields)

lemma buffer_fields [simp]:
  "ps_nodes (ae_pending (buffer_node n s)) = bt_insert (nr_id n) (Some n) (ps_nodes (ae_pending s))"
  "ps_edges (ae_pending (buffer_node n s)) = ps_edges (ae_pending s)" "ae_nodes (buffer_node n s) = ae_nodes s"
  "ae_edges (buffer_node n s) = ae_edges s"
  "ps_nodes (ae_pending (buffer_edge e s)) = ps_nodes (ae_pending s)"
  "ps_edges (ae_pending (buffer_edge e s)) = bt_insert (er_id e) (Some e) (ps_edges (ae_pending s))"
  "ae_nodes (buffer_edge e s) = ae_nodes s" "ae_edges (buffer_edge e s) = ae_edges s"
  by (simp_all add: buffer_node_def buffer_edge_def update_pending_embedding_for_node_def)

lemma deletion_fields [simp]:
  "ps_nodes (ae_pending (snd (buffer_node_deletion i s))) = bt_insert i None (ps_nodes (ae_pending s))"
  "ps_edges (ae_pending (snd (buffer_node_deletion i s))) = ps_edges (ae_pending s)"
  "ae_nodes (snd (buffer_node_deletion i s)) = ae_nodes s" "ae_edges (snd (buffer_node_deletion i s)) = ae_edges s"
  "ps_nodes (ae_pending (snd (buffer_edge_deletion i s))) = ps_nodes (ae_pending s)"
  "ps_edges (ae_pending (snd (buffer_edge_deletion i s))) = bt_insert i None (ps_edges (ae_pending s))"
  "ae_nodes (snd (buffer_edge_deletion i s)) = ae_nodes s" "ae_edges (snd (buffer_edge_deletion i s)) = ae_edges s"
  by (simp_all add: buffer_node_deletion_def buffer_edge_deletion_def Let_def remove_pending_embedding_def)

lemma clear_stored: "clear_managed_chunk_embeddings (stored_node old n) = clear_managed_chunk_embeddings n"
  by (simp add: stored_node_def clear_managed_chunk_embeddings_def clear_materialized_state_def)

lemma contents_commit:
  assumes "taken_ok ops" shows "contents (flush_commit ops s, None) = contents (s, Some ops)"
proof -
  have "run_edge (flush_commit ops s, None) = run_edge (s, Some ops)"
    by (rule ext) (simp add: run_edge_def flush_commit_def apply_edges_get [OF assms] split: option.split)
  moreover have "map_option clear_managed_chunk_embeddings (run_node (flush_commit ops s, None) i) =
      map_option clear_managed_chunk_embeddings (run_node (s, Some ops) i)" for i
    by (simp add: run_node_def flush_commit_def apply_nodes_get [OF assms] option.map_comp comp_def clear_stored split: option.split)
  ultimately show ?thesis by (simp add: contents_def)
qed

lemma contents_requeue:
  assumes ok: "run_ok (s, Some ops)" and fresh: "\<forall>i\<in>fst ` set (fst ops). bt_get (ps_nodes (ae_pending s)) i = None"
    "\<forall>i\<in>fst ` set (snd ops). bt_get (ps_edges (ae_pending s)) i = None"
  shows "contents (flush_requeue ops s, None) = contents (s, Some ops)"
proof -
  have s: "engine_ok s" and t: "taken_ok ops" using ok by (simp_all add: run_ok_def)
  note fields = requeue_fields [OF s t]
  have free: "bt_get (ps_nodes (ae_pending s)) i = None" if "bt_get (fst ops) i = Some op" for i op
    using fresh(1) that bt_get_None_iff [of "fst ops" i] by auto
  have free': "bt_get (ps_edges (ae_pending s)) i = None" if "bt_get (snd ops) i = Some op" for i op
    using fresh(2) that bt_get_None_iff [of "snd ops" i] by auto
  have wf: "bt_wf (fst ops)" "bt_wf (snd ops)" using t by (simp_all add: taken_ok_def)
  have "run_node (flush_requeue ops s, None) i = run_node (s, Some ops) i" for i
    by (cases "bt_get (fst ops) i") (simp_all add: run_node_def fields bt_get_extend_wf [OF wf(1)] free split: option.split)
  moreover have "run_edge (flush_requeue ops s, None) i = run_edge (s, Some ops) i" for i
    by (cases "bt_get (snd ops) i") (simp_all add: run_edge_def fields bt_get_extend_wf [OF wf(2)] free' split: option.split)
  ultimately have "run_node (flush_requeue ops s, None) = run_node (s, Some ops)" "run_edge (flush_requeue ops s, None) = run_edge (s, Some ops)"
    by blast+
  then show ?thesis by (simp only: contents_def)
qed

lemma contents_step:
  assumes "async_step False w r r'" "run_ok r"
  shows "contents r' = (case w of None \<Rightarrow> contents r | Some w \<Rightarrow> apply_write w (contents r))"
  using assms
proof (induction rule: async_step.induct)
  case (take s)
  then show ?case by (simp add: contents_def run_node_def run_edge_def flush_take_eq pending_default_def fun_eq_iff split: option.split)
next
  case (commit s ops)
  then have "taken_ok ops" by (simp add: run_ok_def)
  then show ?case using contents_commit [of ops s] by simp
next
  case (refuse ops s)
  then show ?case using contents_requeue [of s ops] by simp
qed (auto simp: contents_def run_node_def run_edge_def apply_write_def fun_eq_iff remove_pending_embedding_def split: option.split)

end
