(* ===== verification/Async_Correct.thy ===== *)
theory Async_Correct
  imports Async_Refine
begin

text \<open>
  The guarantees of the write-behind engine over whole runs, from an engine that was just opened on well
  formed tables, and the case in which a write is lost.
\<close>

definition fresh_engine :: "'j async_engine \<Rightarrow> bool" where
  "fresh_engine s \<longleftrightarrow> ae_pending s = pending_default \<and> engine_ok s \<and> ae_open s"

lemma run_ok_run: "async_run raced ws r r' \<Longrightarrow> run_ok r \<Longrightarrow> run_ok r'"
  by (induction rule: async_run.induct) (auto dest: run_ok_step)

lemma fresh_run_ok: "fresh_engine s \<Longrightarrow> run_ok (s, None)"
  by (simp add: fresh_engine_def run_ok_def)

lemma contents_run:
  "async_run False ws r r' \<Longrightarrow> run_ok r \<Longrightarrow> contents r' = fold apply_write ws (contents r)"
proof (induction rule: async_run.induct)
  case (more w r r' ws r'')
  then show ?case using contents_step [OF more(1)] run_ok_step [OF more(1)] by (cases w) auto
qed simp

subsection \<open>Each read\<close>

lemma indexed: "indexes_field f ix ops \<Longrightarrow> i \<in> set (idx_ids ix tag) \<longleftrightarrow> (\<exists>v. bt_get ops i = Some (Some v) \<and> tag \<in> set (f v))"
  unfolding idx_has_ids [symmetric] indexes_field_def by blast

lemma read_node: "engine_ok s \<Longrightarrow> ae_open s \<Longrightarrow> ae_get_node i s = Inr (bt_get (view_nodes s) i)"
  by (simp add: ae_get_node_def view_nodes_def buffered_nodes.view_get persisted_def split: option.split)

lemma read_edge: "engine_ok s \<Longrightarrow> ae_open s \<Longrightarrow> ae_get_edge i s = Inr (bt_get (view_edges s) i)"
  by (simp add: ae_get_edge_def view_edges_def buffered_edges.view_get persisted_def split: option.split)

lemma read_all_nodes: "engine_ok s \<Longrightarrow> ae_open s \<Longrightarrow> ae_all_nodes s = Inr (map snd (view_nodes s))"
  by (simp add: ae_all_nodes_def persisted_def buffered_nodes.all_is_view view_nodes_def)

lemma read_all_edges: "engine_ok s \<Longrightarrow> ae_open s \<Longrightarrow> ae_all_edges s = Inr (map snd (view_edges s))"
  by (simp add: ae_all_edges_def persisted_def buffered_edges.all_is_view view_edges_def)

lemma read_label:
  assumes "engine_ok s" "ae_open s"
  shows "ae_nodes_by_label label s = Inr (filter (\<lambda>n. label \<in> set (nr_labels n)) (map snd (view_nodes s)))"
proof -
  have "indexes_field nr_labels (ps_labels (ae_pending s)) (ps_nodes (ae_pending s))" using assms(1) by (simp add: engine_ok_def pending_ok_def)
  from buffered_nodes.tagged_is_view [OF assms(1) indexed [OF this]] show ?thesis
    using assms(2) by (simp add: ae_nodes_by_label_def persisted_def view_nodes_def)
qed

lemma read_type:
  assumes "engine_ok s" "ae_open s"
  shows "ae_edges_by_type edge_type s = Inr (filter (\<lambda>e. er_edge_type e = edge_type) (map snd (view_edges s)))"
proof -
  have "indexes_field (\<lambda>e. [er_edge_type e]) (ps_types (ae_pending s)) (ps_edges (ae_pending s))" using assms(1) by (simp add: engine_ok_def pending_ok_def)
  then have "i \<in> set (idx_ids (ps_types (ae_pending s)) edge_type) \<longleftrightarrow>
      (\<exists>e. bt_get (ps_edges (ae_pending s)) i = Some (Some e) \<and> er_edge_type e = edge_type)" for i
    using indexed by fastforce
  from buffered_edges.tagged_is_view [OF assms(1) this] show ?thesis
    using assms(2) by (simp add: ae_edges_by_type_def persisted_def view_edges_def)
qed

lemma read_prefix:
  assumes "engine_ok s" "ae_open s"
  shows "ae_nodes_by_prefix prefix s = Inr (map snd (filter (\<lambda>(i, _). starts_with i prefix) (view_nodes s)))"
  using assms(2) buffered_nodes.keyed_is_view [OF assms(1), of "\<lambda>i. starts_with i prefix"]
  by (simp add: ae_nodes_by_prefix_def persisted_def view_nodes_def)

lemma keys_fold_insert: "set (bt_keys (fold bs_insert ids m)) = set ids \<union> set (bt_keys m)"
  by (induction ids arbitrary: m) (auto simp: bs_insert_def bt_keys_insert)

lemma adjacent_ids:
  assumes "pending_ok ps"
  shows "i \<in> set (pending_adjacent_edge_ids ps node_id direction edge_type) \<longleftrightarrow>
    (\<exists>e. bt_get (ps_edges ps) i = Some (Some e) \<and> edge_matches_adjacency node_id direction edge_type e)"
proof -
  have starts: "indexes_field (\<lambda>e. [er_start_node e]) (ps_starts ps) (ps_edges ps)"
    and ends: "indexes_field (\<lambda>e. [er_end_node e]) (ps_ends ps) (ps_edges ps)" using assms by (simp_all add: pending_ok_def)
  show ?thesis
    by (cases direction)
      (auto simp: pending_adjacent_edge_ids_def Let_def keys_fold_insert bt_keys_def [of "[]"] indexed [OF starts] indexed [OF ends]
        edge_matches_adjacency_def split: option.splits)
qed

lemma read_adjacent:
  assumes "engine_ok s" "ae_open s"
  shows "ae_adjacent_edges node_id direction edge_type s =
    Inr (filter (edge_matches_adjacency node_id direction edge_type) (map snd (view_edges s)))"
proof -
  have "pending_ok (ae_pending s)" using assms(1) by (simp add: engine_ok_def)
  from buffered_edges.adjacent_is_view [OF assms(1) adjacent_ids [OF this]] show ?thesis
    using assms(2) by (simp add: ae_adjacent_edges_def persisted_def view_edges_def Let_def)
qed

lemma read_node_count:
  assumes "engine_ok s" "ae_open s"
  shows "ae_node_count_by_prefix prefix s = Inr (length (filter (\<lambda>n. starts_with (nr_id n) prefix) (map snd (view_nodes s))))"
  using assms(2) buffered_nodes.count_is_view [OF assms(1) refl, of "\<lambda>i. starts_with i prefix"]
  by (simp add: ae_node_count_by_prefix_def persisted_def view_nodes_def)

lemma read_edge_count:
  assumes "engine_ok s" "ae_open s"
  shows "ae_edge_count_by_prefix prefix s = Inr (length (filter (\<lambda>e. starts_with (er_id e) prefix) (map snd (view_edges s))))"
  using assms(2) buffered_edges.count_is_view [OF assms(1) refl, of "\<lambda>i. starts_with i prefix"]
  by (simp add: ae_edge_count_by_prefix_def persisted_def view_edges_def)

subsection \<open>The embedding loop\<close>

definition waits :: "'j async_engine \<Rightarrow> string \<Rightarrow> bool" where
  "waits s i = (case bt_get (view_nodes s) i of None \<Rightarrow> False | Some n \<Rightarrow> node_record_needs_embedding n)"

definition loop_answer :: "'j async_engine \<Rightarrow> 'j node_record option \<Rightarrow> 'j async_engine \<Rightarrow> bool" where
  "loop_answer s found s' \<longleftrightarrow>
     (case found of
        None \<Rightarrow> ae_embeds s' = []
      | Some n \<Rightarrow> bt_get (view_nodes s) (nr_id n) = Some n \<and> waits s (nr_id n) \<and> bs_has (nr_id n) (ae_embeds s) \<and>
          (\<forall>i. bs_has i (ae_embeds s) \<and> waits s i \<longrightarrow> nr_id n \<le> i)) \<and>
     (\<forall>i. bs_has i (ae_embeds s) \<and> waits s i \<longrightarrow> bs_has i (ae_embeds s')) \<and>
     ae_pending s' = ae_pending s \<and> ae_nodes s' = ae_nodes s \<and> ae_edges s' = ae_edges s"

lemma remove_tracked [simp]:
  "view_nodes (remove_pending_embedding i s) = view_nodes s" "waits (remove_pending_embedding i s) j = waits s j"
  "ae_open (remove_pending_embedding i s) = ae_open s" "ae_embeds (remove_pending_embedding i s) = bt_remove i (ae_embeds s)"
  "ae_pending (remove_pending_embedding i s) = ae_pending s" "ae_nodes (remove_pending_embedding i s) = ae_nodes s"
  "ae_edges (remove_pending_embedding i s) = ae_edges s"
  by (simp_all add: remove_pending_embedding_def view_nodes_def waits_def)

lemma engine_ok_remove_tracked: "engine_ok s \<Longrightarrow> engine_ok (remove_pending_embedding i s)"
  by (simp add: engine_ok_def bt_wf_remove)

lemma answer_after_stale:
  assumes "loop_answer (remove_pending_embedding i s) found s'" "\<not> waits s i" shows "loop_answer s found s'"
  using assms by (auto simp: loop_answer_def split: option.splits)

lemma tracked_least: "bt_wf es \<Longrightarrow> es = (i, u) # rest \<Longrightarrow> bs_has j es \<Longrightarrow> i \<le> (j :: string)"
  by (auto simp: bs_has_keys bt_keys_def bt_wf_Cons)

lemma embedding_loop:
  assumes "engine_ok s" "ae_open s"
  shows "\<exists>found s'. find_node_needing_embedding s = (Inr found, s') \<and> loop_answer s found s'"
  using assms
proof (induction s rule: find_node_needing_embedding.induct)
  case (1 s)
  note unfold = find_node_needing_embedding.simps [of s]
  show ?case
  proof (cases "ae_embeds s")
    case Nil
    then show ?thesis unfolding unfold by (simp add: loop_answer_def)
  next
    case (Cons e rest)
    obtain i where e: "e = (i, ())" by (cases e) simp
    then have cons: "ae_embeds s = (i, ()) # rest" using Cons by simp
    note read = read_node [OF 1(3,4), of i]
    show ?thesis
    proof (cases "waits s i")
      case True
      then obtain n where n: "bt_get (view_nodes s) i = Some n" "node_record_needs_embedding n" by (auto simp: waits_def split: option.splits)
      have id: "nr_id n = i" using buffered_nodes.view_id [OF 1(3)] n(1) by (simp add: view_nodes_def)
      have "bt_wf (ae_embeds s)" using 1(3) by (simp add: engine_ok_def)
      from tracked_least [OF this cons] have "loop_answer s (Some n) s"
        using n True id cons by (auto simp: loop_answer_def bs_has_def bt_get_def)
      then show ?thesis unfolding unfold using cons read n by simp
    next
      case False
      then have "find_node_needing_embedding s = find_node_needing_embedding (remove_pending_embedding i s)"
        unfolding unfold using cons read by (cases "bt_get (view_nodes s) i") (simp_all add: waits_def)
      moreover have "\<exists>found s'. find_node_needing_embedding (remove_pending_embedding i s) = (Inr found, s') \<and>
          loop_answer (remove_pending_embedding i s) found s'"
      proof (cases "bt_get (view_nodes s) i")
        case None
        then show ?thesis using 1(1) [OF cons refl] read 1(3,4) engine_ok_remove_tracked [OF 1(3), of i] by simp
      next
        case (Some n)
        then show ?thesis using 1(2) [OF cons refl] read 1(3,4) False engine_ok_remove_tracked [OF 1(3), of i] by (simp add: waits_def)
      qed
      ultimately show ?thesis using answer_after_stale [OF _ False] by metis
    qed
  qed
qed

subsection \<open>A concrete run\<close>

definition plain_node :: "string \<Rightarrow> string list \<Rightarrow> nat node_record" where
  "plain_node i labels = \<lparr>nr_id = i, nr_labels = labels, nr_properties = [], nr_named_embeddings = [], nr_chunk_embeddings = [],
     nr_embed_meta = \<lparr>em_embedding_model = None, em_embedding_generation = None, em_embedding_dimensions = None, em_has_embedding = None,
       em_embedded_at = None, em_has_chunks = None, em_chunk_count = None\<rparr>,
     nr_created_at = 0, nr_updated_at = 0\<rparr>"

definition plain_edge :: "string \<Rightarrow> string \<Rightarrow> string \<Rightarrow> nat edge_record" where
  "plain_edge i a b = \<lparr>er_id = i, er_start_node = a, er_end_node = b, er_edge_type = ''R'', er_properties = [], er_created_at = 0, er_updated_at = 0\<rparr>"

definition opened :: "nat async_engine" where
  "opened = \<lparr>ae_pending = pending_default, ae_embeds = [], ae_nodes = [(''a'', plain_node ''a'' [''P''])], ae_edges = [], ae_open = True\<rparr>"

lemma opened_fresh: "fresh_engine opened"
  by (simp add: fresh_engine_def opened_def engine_ok_def pending_ok_default plain_node_def bt_wf_def)

text \<open>An edge is written while a flush of a node is under way; the flush fails, and a second one succeeds.\<close>

definition flushing :: "nat async_engine" where
  "flushing = buffer_edge (plain_edge ''e'' ''a'' ''b'') (snd (flush_take (buffer_node (plain_node ''b'' [''P'']) opened)))"

definition refused :: "nat async_engine" where
  "refused = flush_requeue (fst (flush_take (buffer_node (plain_node ''b'' [''P'']) opened))) flushing"

lemma refused_run:
  "async_run False [WriteNode (plain_node ''b'' [''P'']), WriteEdge (plain_edge ''e'' ''a'' ''b'')] (opened, None) (refused, None)"
proof -
  let ?s = "buffer_node (plain_node ''b'' [''P'']) opened" and ?e = "plain_edge ''e'' ''a'' ''b''"
  have 1: "async_step False (Some (WriteNode (plain_node ''b'' [''P'']))) (opened, None) (?s, None)" by (rule async_step.put_node)
  have 2: "async_step False None (?s, None) (snd (flush_take ?s), Some (fst (flush_take ?s)))"
    by (rule async_step.take) (simp add: buffer_node_def update_pending_embedding_for_node_def opened_def)
  have 3: "async_step False (Some (WriteEdge ?e)) (snd (flush_take ?s), Some (fst (flush_take ?s))) (flushing, Some (fst (flush_take ?s)))"
    unfolding flushing_def by (rule async_step.put_edge)
  have 4: "async_step False None (flushing, Some (fst (flush_take ?s))) (refused, None)"
    unfolding refused_def by (rule async_step.refuse) (simp add: flushing_def flush_take_eq pending_default_def opened_def)
  from async_run.more [OF 1 async_run.more [OF 2 async_run.more [OF 3 async_run.more [OF 4 async_run.start]]]]
  show ?thesis by simp
qed

lemma refused_open: "ae_open refused"
  by (simp add: refused_def flushing_def flush_take_eq flush_requeue_def buffer_edge_def buffer_node_def
      update_pending_embedding_for_node_def opened_def)

text \<open>The race that the specification excludes: the second write of a node is replaced by the first.\<close>

lemma raced_refusal_loses_write:
  "\<exists>r. async_run True [WriteNode (plain_node ''b'' [''P'']), WriteNode (plain_node ''b'' [''Q''])] (opened, None) (r, None) \<and>
     run_node (r, None) ''b'' = Some (plain_node ''b'' [''P''])"
proof -
  let ?s = "buffer_node (plain_node ''b'' [''P'']) opened"
  let ?t = "buffer_node (plain_node ''b'' [''Q'']) (snd (flush_take ?s))"
  let ?r = "flush_requeue (fst (flush_take ?s)) ?t"
  have 1: "async_step True (Some (WriteNode (plain_node ''b'' [''P'']))) (opened, None) (?s, None)" by (rule async_step.put_node)
  have 2: "async_step True None (?s, None) (snd (flush_take ?s), Some (fst (flush_take ?s)))"
    by (rule async_step.take) (simp add: buffer_node_def update_pending_embedding_for_node_def opened_def)
  have 3: "async_step True (Some (WriteNode (plain_node ''b'' [''Q'']))) (snd (flush_take ?s), Some (fst (flush_take ?s))) (?t, Some (fst (flush_take ?s)))"
    by (rule async_step.put_node)
  have 4: "async_step True None (?t, Some (fst (flush_take ?s))) (?r, None)" by (rule async_step.refuse) simp
  have "async_run True [WriteNode (plain_node ''b'' [''P'']), WriteNode (plain_node ''b'' [''Q''])] (opened, None) (?r, None)"
    using async_run.more [OF 1 async_run.more [OF 2 async_run.more [OF 3 async_run.more [OF 4 async_run.start]]]] by simp
  moreover have "run_node (?r, None) ''b'' = Some (plain_node ''b'' [''P''])"
    by (simp add: run_node_def flush_requeue_def requeue_node_ops_def requeue_edge_ops_def flush_take_eq pending_default_def
        opened_def plain_node_def bt_insert_def bt_get_def)
  ultimately show ?thesis by blast
qed

subsection \<open>Theorems\<close>

text \<open>
  C29: Whatever flushes start, succeed or are refused in between, the records the engine shows are those
  of its tables with the writes applied in their order, as long as no record that a refused batch holds
  was written again before the refusal.
\<close>

theorem async_refines:
  assumes "fresh_engine s0" "async_run False ws (s0, None) r"
  shows "contents r = fold apply_write ws
    (\<lambda>i. map_option clear_managed_chunk_embeddings (bt_get (ae_nodes s0) i), bt_get (ae_edges s0))"
proof -
  have "contents (s0, None) = (\<lambda>i. map_option clear_managed_chunk_embeddings (bt_get (ae_nodes s0) i), bt_get (ae_edges s0))"
    using assms(1) by (simp add: contents_def run_node_def run_edge_def fresh_engine_def pending_default_def fun_eq_iff)
  then show ?thesis using contents_run [OF assms(2) fresh_run_ok [OF assms(1)]] by simp
qed

theorem async_refines_witness:
  "fst (contents (refused, None)) ''b'' = Some (clear_managed_chunk_embeddings (plain_node ''b'' [''P''])) \<and>
   snd (contents (refused, None)) ''e'' = Some (plain_edge ''e'' ''a'' ''b'')"
  unfolding async_refines [OF opened_fresh refused_run] by (simp add: apply_write_def plain_node_def plain_edge_def)

text \<open>
  C30: While the engine is open and no flush is under way, every read is the corresponding scan of one
  graph, the tables with the buffer applied: single records, all records, by label, by type, by id
  prefix, the edges at a node, and the counts.
\<close>

theorem async_reads_exact:
  assumes "fresh_engine s0" "async_run raced ws (s0, None) (s, None)" "ae_open s"
  shows "ae_get_node i s = Inr (bt_get (view_nodes s) i) \<and>
    ae_get_edge i s = Inr (bt_get (view_edges s) i) \<and>
    ae_all_nodes s = Inr (map snd (view_nodes s)) \<and>
    ae_all_edges s = Inr (map snd (view_edges s)) \<and>
    ae_nodes_by_label label s = Inr (filter (\<lambda>n. label \<in> set (nr_labels n)) (map snd (view_nodes s))) \<and>
    ae_edges_by_type edge_type s = Inr (filter (\<lambda>e. er_edge_type e = edge_type) (map snd (view_edges s))) \<and>
    ae_nodes_by_prefix prefix s = Inr (map snd (filter (\<lambda>(i, _). starts_with i prefix) (view_nodes s))) \<and>
    ae_adjacent_edges node_id direction of_type s =
      Inr (filter (edge_matches_adjacency node_id direction of_type) (map snd (view_edges s))) \<and>
    ae_node_count_by_prefix prefix s = Inr (length (filter (\<lambda>n. starts_with (nr_id n) prefix) (map snd (view_nodes s)))) \<and>
    ae_edge_count_by_prefix prefix s = Inr (length (filter (\<lambda>e. starts_with (er_id e) prefix) (map snd (view_edges s))))"
proof -
  have "engine_ok s" using run_ok_run [OF assms(2) fresh_run_ok [OF assms(1)]] by (simp add: run_ok_def)
  note reads = this assms(3)
  show ?thesis
    by (intro conjI read_node read_edge read_all_nodes read_all_edges read_label read_type read_prefix read_adjacent
        read_node_count read_edge_count reads)
qed

theorem async_reads_exact_witness:
  "ae_nodes_by_label ''P'' refused = Inr [plain_node ''a'' [''P''], plain_node ''b'' [''P'']] \<and>
   ae_adjacent_edges ''b'' Incoming None refused = Inr [plain_edge ''e'' ''a'' ''b''] \<and>
   ae_node_count_by_prefix [] refused = Inr 2"
proof -
  have "''a'' < ''b''" by code_simp
  then have nodes: "map snd (view_nodes refused) = [plain_node ''a'' [''P''], plain_node ''b'' [''P'']]"
    and edges: "map snd (view_edges refused) = [plain_edge ''e'' ''a'' ''b'']"
    by (simp_all add: refused_def flushing_def flush_requeue_def requeue_node_ops_def requeue_edge_ops_def view_nodes_def view_edges_def
        flush_take_eq pending_default_def opened_def bt_insert_def overlay_all_def plain_node_def plain_edge_def
        buffer_edge_def buffer_node_def update_pending_embedding_for_node_def not_less_iff_gr_or_eq)
  note reads = async_reads_exact [OF opened_fresh refused_run refused_open, unfolded nodes edges]
  have "starts_with x []" for x by (simp add: starts_with_iff)
  then show ?thesis using reads [where label = "''P''" and node_id = "''b''" and direction = Incoming and of_type = None and prefix = "[]"]
    by (simp add: plain_node_def plain_edge_def edge_matches_adjacency_def)
qed



text \<open>
  C32: The loop that looks for a node to embed ends, with the least tracked id whose record needs an
  embedding or with none left; it forgets only ids that no longer need one, and writes nothing.
\<close>

theorem embedding_loop_returns:
  assumes "fresh_engine s0" "async_run raced ws (s0, None) (s, None)" "ae_open s"
  shows "\<exists>found s'. find_node_needing_embedding s = (Inr found, s') \<and>
    (case found of
       None \<Rightarrow> ae_embeds s' = []
     | Some n \<Rightarrow> bt_get (view_nodes s) (nr_id n) = Some n \<and> node_record_needs_embedding n \<and>
         (\<forall>i m. bs_has i (ae_embeds s) \<and> bt_get (view_nodes s) i = Some m \<and> node_record_needs_embedding m \<longrightarrow> nr_id n \<le> i)) \<and>
    (\<forall>i m. bs_has i (ae_embeds s) \<and> bt_get (view_nodes s) i = Some m \<and> node_record_needs_embedding m \<longrightarrow> bs_has i (ae_embeds s')) \<and>
    ae_pending s' = ae_pending s \<and> ae_nodes s' = ae_nodes s \<and> ae_edges s' = ae_edges s"
proof -
  have "engine_ok s" using run_ok_run [OF assms(2) fresh_run_ok [OF assms(1)]] by (simp add: run_ok_def)
  from embedding_loop [OF this assms(3)] obtain found s' where
    "find_node_needing_embedding s = (Inr found, s')" "loop_answer s found s'" by blast
  then show ?thesis by (intro exI [of _ found] exI [of _ s']) (auto simp: loop_answer_def waits_def split: option.splits)
qed

theorem embedding_loop_returns_witness:
  "fst (find_node_needing_embedding refused) \<noteq> Inl AsyncEngineClosed"
  using embedding_loop_returns [OF opened_fresh refused_run refused_open] by auto

end
