(* ===== verification/Async_Worker.thy ===== *)
theory Async_Worker
  imports Async_Correct
begin

text \<open>
  Who waits for whom in crates/storage/src/async_engine.rs: clients that read take the flush lock for
  reading and then ask the worker for the persisted part; \<open>flush\<close> asks the worker too, which takes the
  lock for writing before it answers. The queue is first in, first out, and the worker serves one
  request at a time. Data is left out: any answer will do.
\<close>

subsection \<open>Clients, queue and lock\<close>

datatype worker_request = AskRead nat | AskFlush nat

datatype client_phase =
    Idle
  | HoldsLock
  | AwaitsRead
  | AwaitsFlush

record worker_state =
  wk_queue :: "worker_request list"
  wk_current :: "worker_request option"
  wk_phase :: "nat \<Rightarrow> client_phase"

definition worker_start :: worker_state where
  "worker_start = \<lparr>wk_queue = [], wk_current = None, wk_phase = (\<lambda>_. Idle)\<rparr>"

definition writer_waits :: "worker_state \<Rightarrow> bool" where
  "writer_waits s \<longleftrightarrow> (case wk_current s of Some (AskFlush _) \<Rightarrow> True | _ \<Rightarrow> False)"

definition read_locked :: "client_phase \<Rightarrow> bool" where
  "read_locked p \<longleftrightarrow> p = HoldsLock \<or> p = AwaitsRead"

text \<open>\<open>flush_lock.read()\<close> waits for a writer that waits; \<open>flush_lock.write()\<close> for every reader.\<close>

inductive worker_step :: "worker_state \<Rightarrow> worker_state \<Rightarrow> bool" where
  lock: "wk_phase s c = Idle \<Longrightarrow> \<not> writer_waits s \<Longrightarrow> worker_step s (s\<lparr>wk_phase := (wk_phase s)(c := HoldsLock)\<rparr>)"
| answer_from_buffer: "wk_phase s c = HoldsLock \<Longrightarrow> worker_step s (s\<lparr>wk_phase := (wk_phase s)(c := Idle)\<rparr>)"
| ask_read: "wk_phase s c = HoldsLock \<Longrightarrow>
    worker_step s (s\<lparr>wk_phase := (wk_phase s)(c := AwaitsRead), wk_queue := wk_queue s @ [AskRead c]\<rparr>)"
| ask_flush: "wk_phase s c = Idle \<Longrightarrow>
    worker_step s (s\<lparr>wk_phase := (wk_phase s)(c := AwaitsFlush), wk_queue := wk_queue s @ [AskFlush c]\<rparr>)"
| receive: "wk_current s = None \<Longrightarrow> wk_queue s = r # q \<Longrightarrow> worker_step s (s\<lparr>wk_current := Some r, wk_queue := q\<rparr>)"
| reply_read: "wk_current s = Some (AskRead c) \<Longrightarrow>
    worker_step s (s\<lparr>wk_current := None, wk_phase := (wk_phase s)(c := HoldsLock)\<rparr>)"
| reply_flush: "wk_current s = Some (AskFlush c) \<Longrightarrow> \<forall>d. \<not> read_locked (wk_phase s d) \<Longrightarrow>
    worker_step s (s\<lparr>wk_current := None, wk_phase := (wk_phase s)(c := Idle)\<rparr>)"

inductive_cases worker_stepE: "worker_step s s'"

subsection \<open>Waiting for each other\<close>

definition deadlocked :: "nat \<Rightarrow> nat \<Rightarrow> worker_state \<Rightarrow> bool" where
  "deadlocked reader flusher s \<longleftrightarrow> wk_current s = Some (AskFlush flusher) \<and> wk_phase s reader = AwaitsRead \<and>
     wk_phase s flusher = AwaitsFlush"

lemma deadlock_stays: "deadlocked reader flusher s \<Longrightarrow> worker_step s s' \<Longrightarrow> deadlocked reader flusher s'"
proof (elim worker_stepE)
  assume d: "deadlocked reader flusher s"
  then have "read_locked (wk_phase s reader)" by (simp add: deadlocked_def read_locked_def)
  then show "deadlocked reader flusher s'" if "\<forall>d. \<not> read_locked (wk_phase s d)" using that by blast
qed (auto simp: deadlocked_def writer_waits_def)

interpretation deadlock: inductive_invariant "deadlocked reader flusher" worker_step "deadlocked reader flusher" for reader flusher
  by unfold_locales (auto intro: deadlock_stays)

definition deadlock_state :: worker_state where
  "deadlock_state = \<lparr>wk_queue = [AskRead 0], wk_current = Some (AskFlush 1), wk_phase = (\<lambda>_. Idle)(0 := AwaitsRead, 1 := AwaitsFlush)\<rparr>"

lemma deadlock_reached: "worker_step\<^sup>*\<^sup>* worker_start deadlock_state"
proof -
  let ?p = "\<lambda>_::nat. Idle"
  have 1: "worker_step worker_start (worker_start\<lparr>wk_phase := ?p(0 := HoldsLock)\<rparr>)" (is "worker_step _ ?a")
    using worker_step.lock [of worker_start 0] by (simp add: worker_start_def writer_waits_def)
  have 2: "worker_step ?a (?a\<lparr>wk_phase := ?p(0 := HoldsLock, 1 := AwaitsFlush), wk_queue := [AskFlush 1]\<rparr>)" (is "worker_step _ ?b")
    using worker_step.ask_flush [of ?a 1] by (simp add: worker_start_def)
  have 3: "worker_step ?b (?b\<lparr>wk_phase := ?p(0 := AwaitsRead, 1 := AwaitsFlush), wk_queue := [AskFlush 1, AskRead 0]\<rparr>)" (is "worker_step _ ?c")
    using worker_step.ask_read [of ?b 0] by (simp add: worker_start_def fun_upd_twist)
  have 4: "worker_step ?c (?c\<lparr>wk_current := Some (AskFlush 1), wk_queue := [AskRead 0]\<rparr>)" (is "worker_step _ ?d")
    using worker_step.receive [of ?c "AskFlush 1" "[AskRead 0]"] by (simp add: worker_start_def)
  have "?d = deadlock_state" by (simp add: deadlock_state_def worker_start_def)
  with 4 have 5: "worker_step ?c deadlock_state" by (simp only:)
  have "worker_step\<^sup>*\<^sup>* worker_start ?a" using 1 by (rule r_into_rtranclp)
  then have "worker_step\<^sup>*\<^sup>* worker_start ?b" using 2 by (rule rtranclp.rtrancl_into_rtrancl)
  then have "worker_step\<^sup>*\<^sup>* worker_start ?c" using 3 by (rule rtranclp.rtrancl_into_rtrancl)
  then show ?thesis using 5 by (rule rtranclp.rtrancl_into_rtrancl)
qed

text \<open>
  C33: A read and a flush can wait for each other for ever: when the flush request of one client is queued
  between the moment another takes the flush lock and the moment it asks the worker, neither ever gets an
  answer, whatever happens next.
\<close>

theorem read_flush_deadlock:
  "\<exists>s. worker_step\<^sup>*\<^sup>* worker_start s \<and>
     (\<forall>s'. worker_step\<^sup>*\<^sup>* s s' \<longrightarrow> wk_phase s' 0 = AwaitsRead \<and> wk_phase s' 1 = AwaitsFlush)"
proof -
  have "deadlocked 0 1 deadlock_state" by (simp add: deadlocked_def deadlock_state_def)
  then show ?thesis using deadlock_reached deadlock.inv_run unfolding deadlocked_def by blast
qed

text \<open>The run that shows it: the two requests below are never answered.\<close>

lemma read_flush_deadlock_witness:
  "\<exists>s. worker_step\<^sup>*\<^sup>* worker_start s \<and> wk_phase s 0 = AwaitsRead \<and> wk_phase s 1 = AwaitsFlush"
proof -
  from read_flush_deadlock obtain s where "worker_step\<^sup>*\<^sup>* worker_start s"
    "\<forall>s'. worker_step\<^sup>*\<^sup>* s s' \<longrightarrow> wk_phase s' 0 = AwaitsRead \<and> wk_phase s' 1 = AwaitsFlush" by blast
  then show ?thesis by (intro exI [of _ s]) simp
qed

text \<open>The worker itself never loses a request: it stops only at a flush, with a reader holding the lock.\<close>

lemma worker_progress:
  assumes "wk_queue s \<noteq> [] \<or> wk_current s \<noteq> None" "\<not> writer_waits s \<or> (\<forall>d. \<not> read_locked (wk_phase s d))"
  shows "\<exists>s'. worker_step s s'"
proof (cases "wk_current s")
  case None
  then show ?thesis using assms(1) worker_step.receive by (cases "wk_queue s") blast+
next
  case (Some r)
  show ?thesis
  proof (cases r)
    case (AskRead c)
    then show ?thesis using worker_step.reply_read [of s c] Some by blast
  next
    case (AskFlush c)
    then have "\<forall>d. \<not> read_locked (wk_phase s d)" using assms(2) Some by (simp add: writer_waits_def)
    then show ?thesis using worker_step.reply_flush [of s c] Some AskFlush by blast
  qed
qed

end
