(* ===== verification/Schema_Manager.thy ===== *)
theory Schema_Manager
  imports Node_Index
begin

text \<open>
  Constraints on properties: \<open>SchemaManager\<close> of crates/storage/src/lib.rs. Each unique or key constraint
  turns a record into a key of its values, and one table says which record owns a key. The per-key and
  per-record locks of the code make \<open>validate_node\<close> and \<open>validate_edge\<close> single steps; its two tables of
  registered keys, for nodes and for edges, are one with the kind in its key. The text of a JSON value
  is an argument.
\<close>

subsection \<open>Constraints\<close>

datatype constraint_type =
    UniqueConstraint | ExistsConstraint | NodeKeyConstraint | TypeConstraint | RelationshipConstraint | TemporalConstraint | DomainConstraint

datatype constraint_entity_type = OnNode | OnRelationship

record 'n constraint =
  co_name :: string
  co_type :: constraint_type
  co_entity_type :: constraint_entity_type
  co_label :: string
  co_properties :: "string list"
  co_type_name :: "string option"
  co_allowed_values :: "'n json list"

text \<open>A \<open>UniqueValueKey\<close>: scope, label, properties and the texts of their values.\<close>

type_synonym unique_key = "string \<times> string \<times> string list \<times> string list"

type_synonym record_key = "constraint_entity_type \<times> string \<times> string"

record 'n schema_manager =
  sm_constraints :: "(string, 'n constraint) btree"
  sm_namespace_constraints :: "(string \<times> string, 'n constraint) btree"
  sm_owners :: "unique_key \<rightharpoonup> string"
  sm_keys :: "record_key \<rightharpoonup> unique_key bset"

definition schema_manager_new :: "'n schema_manager" where
  "schema_manager_new = \<lparr>sm_constraints = [], sm_namespace_constraints = [], sm_owners = Map.empty, sm_keys = Map.empty\<rparr>"

definition add_constraint :: "'n constraint \<Rightarrow> 'n schema_manager \<Rightarrow> storage_error + 'n schema_manager" where
  "add_constraint c sm =
     (if bt_get (sm_constraints sm) (co_name c) \<noteq> None then Inl (ConstraintAlreadyExists (co_name c))
      else Inr (sm\<lparr>sm_constraints := bt_insert (co_name c) c (sm_constraints sm)\<rparr>))"

definition add_constraint_for_namespace :: "string \<Rightarrow> 'n constraint \<Rightarrow> 'n schema_manager \<Rightarrow> storage_error + 'n schema_manager" where
  "add_constraint_for_namespace namespace c sm =
     (if bt_get (sm_namespace_constraints sm) (namespace, co_name c) \<noteq> None then Inl (ConstraintAlreadyExists (co_name c))
      else Inr (sm\<lparr>sm_namespace_constraints := bt_insert (namespace, co_name c) c (sm_namespace_constraints sm)\<rparr>))"

definition remove_constraint :: "string \<Rightarrow> 'n schema_manager \<Rightarrow> storage_error + 'n schema_manager" where
  "remove_constraint name sm =
     (if bt_get (sm_constraints sm) name = None then Inl (ConstraintNotFound name)
      else Inr (sm\<lparr>sm_constraints := bt_remove name (sm_constraints sm)\<rparr>))"

subsection \<open>Which constraints apply, and the keys they ask for\<close>

definition parse_database_prefix :: "string \<Rightarrow> (string \<times> string) option" where
  "parse_database_prefix i =
     (case split_once (CHR '':'') i of
        None \<Rightarrow> None
      | Some (a, b) \<Rightarrow> if a = [] \<or> b = [] then None else Some (a, b))"

definition namespace_from_str :: "string \<Rightarrow> string option" where
  "namespace_from_str i = map_option fst (parse_database_prefix i)"

definition applicable ::
    "constraint_entity_type \<Rightarrow> string \<Rightarrow> string \<Rightarrow> 'n schema_manager \<Rightarrow> (string option \<times> 'n constraint) list" where
  "applicable kind i label sm =
     filter (\<lambda>(_, c). co_entity_type c = kind \<and> co_label c = label)
       (map (Pair None \<circ> snd) (sm_constraints sm) @
        List.map_filter (\<lambda>((scope, _), c). if Some scope = namespace_from_str i then Some (Some scope, c) else None)
          (sm_namespace_constraints sm))"

definition non_null :: "('n json) option \<Rightarrow> bool" where
  "non_null v = (case v of None \<Rightarrow> False | Some v \<Rightarrow> v \<noteq> JNull)"

text \<open>The loop over the properties of a unique constraint; a strict one asks for every value.\<close>

fun key_values :: "('n json \<Rightarrow> string) \<Rightarrow> bool \<Rightarrow> (string \<Rightarrow> 'n json option) \<Rightarrow> string list \<Rightarrow> string + string list option" where
  "key_values js strict get [] = Inr (Some [])"
| "key_values js strict get (p # ps) =
     (case get p of
        Some v \<Rightarrow>
          if v \<noteq> JNull then map_sum id (map_option ((#) (js v))) (key_values js strict get ps)
          else if strict then Inl p else Inr None
      | None \<Rightarrow> if strict then Inl p else Inr None)"

definition requires :: "constraint_entity_type \<Rightarrow> ('n json \<Rightarrow> string) \<Rightarrow> (string option \<Rightarrow> string) \<Rightarrow> string \<Rightarrow>
    (string \<Rightarrow> 'n json option) \<Rightarrow> string option \<times> 'n constraint \<Rightarrow> unique_key bset \<Rightarrow> storage_error + unique_key bset" where
  "requires kind js scope label get nc keys =
     (case nc of (ns, c) \<Rightarrow>
        let unique = (\<lambda>strict.
              (case key_values js strict get (co_properties c) of
                 Inl p \<Rightarrow> Inl (ConstraintMissingProperty (co_name c) p)
               | Inr None \<Rightarrow> Inr keys
               | Inr (Some vs) \<Rightarrow> Inr (bs_insert (scope ns, label, co_properties c, vs) keys)))
        in case co_type c of
             ExistsConstraint \<Rightarrow>
               (case find (\<lambda>p. \<not> non_null (get p)) (co_properties c) of
                  Some p \<Rightarrow> Inl (ConstraintMissingProperty (co_name c) p)
                | None \<Rightarrow> Inr keys)
           | UniqueConstraint \<Rightarrow> unique False
           | NodeKeyConstraint \<Rightarrow> if kind = OnNode then unique True else Inr keys
           | RelationshipConstraint \<Rightarrow> if kind = OnRelationship then unique True else Inr keys
           | _ \<Rightarrow> Inr keys)"

definition node_scope :: "string option \<Rightarrow> string" where
  "node_scope ns = (case ns of None \<Rightarrow> ''node'' | Some scope \<Rightarrow> ''namespace:'' @ scope @ '':node'')"

definition edge_scope :: "string \<Rightarrow> string \<Rightarrow> string option \<Rightarrow> string" where
  "edge_scope start_node end_node ns =
     (case ns of None \<Rightarrow> ''relationship:'' @ start_node @ '':'' @ end_node
      | Some scope \<Rightarrow> ''namespace:'' @ scope @ '':relationship:'' @ start_node @ '':'' @ end_node)"

definition node_keys_required :: "('n json \<Rightarrow> string) \<Rightarrow> string \<Rightarrow> string \<Rightarrow> (string, 'n json) btree \<Rightarrow> 'n schema_manager \<Rightarrow>
    storage_error + unique_key bset" where
  "node_keys_required js i label properties sm =
     fold_result (requires OnNode js node_scope label (bt_get properties)) (applicable OnNode i label sm) []"

definition edge_keys_required :: "('n json \<Rightarrow> string) \<Rightarrow> string \<Rightarrow> string \<Rightarrow> string \<Rightarrow> string \<Rightarrow> (string, 'n json) btree \<Rightarrow>
    'n schema_manager \<Rightarrow> storage_error + unique_key bset" where
  "edge_keys_required js i edge_type start_node end_node properties sm =
     fold_result (requires OnRelationship js (edge_scope start_node end_node) edge_type (bt_get properties))
       (applicable OnRelationship i edge_type sm) []"

subsection \<open>Registering a record\<close>

definition owner_conflict :: "string \<Rightarrow> unique_key bset \<Rightarrow> (unique_key \<rightharpoonup> string) \<Rightarrow> unique_key \<Rightarrow> bool" where
  "owner_conflict i next owners key \<longleftrightarrow> bs_has key next \<and> (case owners key of None \<Rightarrow> False | Some existing \<Rightarrow> existing \<noteq> i)"

definition claim :: "record_key \<Rightarrow> unique_key bset \<Rightarrow> 'n schema_manager \<Rightarrow> storage_error + 'n schema_manager" where
  "claim rk next sm =
     (let i = snd (snd rk);
          previous = (case sm_keys sm rk of None \<Rightarrow> [] | Some ks \<Rightarrow> ks);
          all = bt_keys (fold bs_insert (bt_keys next) previous)
      in case find (owner_conflict i next (sm_owners sm)) all of
           Some (_, label, properties, vs) \<Rightarrow> Inl (UniqueConstraintViolation label (join '', '' properties) (join '', '' vs))
         | None \<Rightarrow> Inr (sm\<lparr>
             sm_owners := fold (\<lambda>key owners. if bs_has key next then owners(key \<mapsto> i)
               else if owners key = Some i then owners(key := None) else owners) all (sm_owners sm),
             sm_keys := (sm_keys sm)(rk \<mapsto> next)\<rparr>))"

definition validate_node :: "('n json \<Rightarrow> string) \<Rightarrow> string \<Rightarrow> string \<Rightarrow> (string, 'n json) btree \<Rightarrow> 'n schema_manager \<Rightarrow>
    storage_error + 'n schema_manager" where
  "validate_node js i label properties sm =
     result_bind (node_keys_required js i label properties sm) (\<lambda>next. claim (OnNode, label, i) next sm)"

definition validate_edge :: "('n json \<Rightarrow> string) \<Rightarrow> string \<Rightarrow> string \<Rightarrow> string \<Rightarrow> string \<Rightarrow> (string, 'n json) btree \<Rightarrow>
    'n schema_manager \<Rightarrow> storage_error + 'n schema_manager" where
  "validate_edge js i edge_type start_node end_node properties sm =
     result_bind (edge_keys_required js i edge_type start_node end_node properties sm)
       (\<lambda>next. claim (OnRelationship, edge_type, i) next sm)"

definition release :: "record_key \<Rightarrow> 'n schema_manager \<Rightarrow> 'n schema_manager" where
  "release rk sm =
     (let i = snd (snd rk);
          previous = (case sm_keys sm rk of None \<Rightarrow> [] | Some ks \<Rightarrow> ks)
      in sm\<lparr>sm_keys := (sm_keys sm)(rk := None),
           sm_owners := fold (\<lambda>key owners. if owners key = Some i then owners(key := None) else owners) (bt_keys previous) (sm_owners sm)\<rparr>)"

definition sm_remove_node :: "string \<Rightarrow> string \<Rightarrow> 'n schema_manager \<Rightarrow> 'n schema_manager" where
  "sm_remove_node i label sm = release (OnNode, label, i) sm"

definition sm_remove_edge :: "string \<Rightarrow> string \<Rightarrow> 'n schema_manager \<Rightarrow> 'n schema_manager" where
  "sm_remove_edge i edge_type sm = release (OnRelationship, edge_type, i) sm"

end
