(* ===== verification/Schema_Engine.thy ===== *)
theory Schema_Engine
  imports Schema_Manager
begin

text \<open>
  How the storage engine of crates/storage/src/lib.rs keeps its constraints: the persisted definitions,
  the schema manager that is built from them and from all records, the batches that register their
  records with it, and the definition and removal of constraints. A batch holds the commit lock. Its
  operations on records and constraints are modelled; index definitions and policies do not meet the
  schema manager. The tables that a batch collects its changes in are hash maps: the order in which they
  are visited is an argument, as is what becomes of the batch after its checks.
\<close>

subsection \<open>State\<close>

record 'n schema_store =
  ss_nodes :: "(string, 'n json node_record) btree"
  ss_edges :: "(string, 'n json edge_record) btree"
  ss_constraints :: "(string, 'n constraint) btree"
  ss_namespace_constraints :: "(string \<times> string, 'n constraint) btree"
  ss_manager :: "'n schema_manager"

definition schema_store_new :: "'n schema_store" where
  "schema_store_new = \<lparr>ss_nodes = [], ss_edges = [], ss_constraints = [], ss_namespace_constraints = [], ss_manager = schema_manager_new\<rparr>"

definition load_constraints :: "'n schema_store \<Rightarrow> 'n constraint list" where
  "load_constraints st = map snd (ss_constraints st)"

subsection \<open>Building the manager\<close>

definition register_node :: "('n json \<Rightarrow> string) \<Rightarrow> 'n json node_record \<Rightarrow> 'n schema_manager \<Rightarrow> storage_error + 'n schema_manager" where
  "register_node js n = fold_result (\<lambda>label. validate_node js (nr_id n) label (nr_properties n)) (nr_labels n)"

definition register_edge :: "('n json \<Rightarrow> string) \<Rightarrow> 'n json edge_record \<Rightarrow> 'n schema_manager \<Rightarrow> storage_error + 'n schema_manager" where
  "register_edge js e = validate_edge js (er_id e) (er_edge_type e) (er_start_node e) (er_end_node e) (er_properties e)"

definition add_namespace_constraints_to_manager ::
    "(string \<times> string, 'n constraint) btree \<Rightarrow> 'n schema_manager \<Rightarrow> storage_error + 'n schema_manager" where
  "add_namespace_constraints_to_manager = fold_result (\<lambda>((namespace, _), c). add_constraint_for_namespace namespace c)"

definition build_manager :: "('n json \<Rightarrow> string) \<Rightarrow> 'n constraint list \<Rightarrow> (string \<times> string, 'n constraint) btree \<Rightarrow>
    'n json node_record list \<Rightarrow> 'n json edge_record list \<Rightarrow> storage_error + 'n schema_manager" where
  "build_manager js constraints namespace_constraints nodes edges =
     result_bind (fold_result add_constraint constraints schema_manager_new) (\<lambda>sm.
     result_bind (add_namespace_constraints_to_manager namespace_constraints sm) (\<lambda>sm.
     result_bind (fold_result (register_node js) nodes sm) (fold_result (register_edge js) edges)))"

definition replace_schema_manager :: "('n json \<Rightarrow> string) \<Rightarrow> 'n constraint list \<Rightarrow> 'n schema_store \<Rightarrow> storage_error + 'n schema_store" where
  "replace_schema_manager js constraints st =
     result_bind (build_manager js constraints (ss_namespace_constraints st) (map snd (ss_nodes st)) (map snd (ss_edges st)))
       (\<lambda>sm. Inr (st\<lparr>ss_manager := sm\<rparr>))"

definition rebuild_schema_manager :: "('n json \<Rightarrow> string) \<Rightarrow> 'n schema_store \<Rightarrow> storage_error + 'n schema_store" where
  "rebuild_schema_manager js st = replace_schema_manager js (load_constraints st) st"

subsection \<open>Defining and removing constraints\<close>

definition persist_constraint :: "('n json \<Rightarrow> string) \<Rightarrow> 'n constraint \<Rightarrow> 'n schema_store \<Rightarrow> storage_error + 'n schema_store" where
  "persist_constraint js c st =
     result_bind (replace_schema_manager js (filter (\<lambda>e. co_name e \<noteq> co_name c) (load_constraints st) @ [c]) st)
       (\<lambda>st. Inr (st\<lparr>ss_constraints := bt_insert (co_name c) c (ss_constraints st)\<rparr>))"

definition delete_constraint :: "('n json \<Rightarrow> string) \<Rightarrow> string \<Rightarrow> 'n schema_store \<Rightarrow> storage_error + bool \<times> 'n schema_store" where
  "delete_constraint js name st =
     result_bind (replace_schema_manager js (filter (\<lambda>e. co_name e \<noteq> name) (load_constraints st)) st)
       (\<lambda>st. Inr (bt_get (ss_constraints st) name \<noteq> None, st\<lparr>ss_constraints := bt_remove name (ss_constraints st)\<rparr>))"

text \<open>For a namespace the definition is written first and put back when the records do not satisfy it.\<close>

definition persist_constraint_for_namespace ::
    "('n json \<Rightarrow> string) \<Rightarrow> string \<Rightarrow> 'n constraint \<Rightarrow> 'n schema_store \<Rightarrow> storage_error option \<times> 'n schema_store" where
  "persist_constraint_for_namespace js namespace c st =
     (let key = (namespace, co_name c);
          previous = bt_get (ss_namespace_constraints st) key;
          st = st\<lparr>ss_namespace_constraints := bt_insert key c (ss_namespace_constraints st)\<rparr>
      in case rebuild_schema_manager js st of
           Inr st \<Rightarrow> (None, st)
         | Inl e \<Rightarrow> (Some e, st\<lparr>ss_namespace_constraints :=
             (case previous of Some p \<Rightarrow> bt_insert key p (ss_namespace_constraints st) | None \<Rightarrow> bt_remove key (ss_namespace_constraints st))\<rparr>))"

definition delete_constraint_for_namespace ::
    "('n json \<Rightarrow> string) \<Rightarrow> string \<Rightarrow> string \<Rightarrow> 'n schema_store \<Rightarrow> (storage_error + bool) \<times> 'n schema_store" where
  "delete_constraint_for_namespace js namespace name st =
     (let key = (namespace, name);
          previous = bt_get (ss_namespace_constraints st) key;
          st = st\<lparr>ss_namespace_constraints := bt_remove key (ss_namespace_constraints st)\<rparr>
      in case rebuild_schema_manager js st of
           Inr st \<Rightarrow> (Inr (previous \<noteq> None), st)
         | Inl e \<Rightarrow> (Inl e, st\<lparr>ss_namespace_constraints :=
             (case previous of Some p \<Rightarrow> bt_insert key p (ss_namespace_constraints st) | None \<Rightarrow> ss_namespace_constraints st)\<rparr>))"

subsection \<open>Registering the changes of a batch\<close>

text \<open>A loop with \<open>?\<close> whose body changes the state it works on: what was done stays done.\<close>

fun fold_stop :: "('a \<Rightarrow> 's \<Rightarrow> 'e option \<times> 's) \<Rightarrow> 'a list \<Rightarrow> 's \<Rightarrow> 'e option \<times> 's" where
  "fold_stop f [] s = (None, s)"
| "fold_stop f (x # xs) s = (case f x s of (Some e, s) \<Rightarrow> (Some e, s) | (None, s) \<Rightarrow> fold_stop f xs s)"

definition stateful :: "('s \<Rightarrow> 'e + 's) \<Rightarrow> 's \<Rightarrow> 'e option \<times> 's" where
  "stateful f s = (case f s of Inl e \<Rightarrow> (Some e, s) | Inr s \<Rightarrow> (None, s))"

text \<open>After an error the manager is rebuilt; the rebuilding's own error takes precedence.\<close>

definition or_rebuild :: "('n json \<Rightarrow> string) \<Rightarrow> storage_error option \<times> 'n schema_store \<Rightarrow> storage_error option \<times> 'n schema_store" where
  "or_rebuild js r =
     (case r of
        (None, st) \<Rightarrow> (None, st)
      | (Some e, st) \<Rightarrow> (case rebuild_schema_manager js st of Inl e' \<Rightarrow> (Some e', st) | Inr st \<Rightarrow> (Some e, st)))"

type_synonym 'r change = "'r option \<times> 'r option"

definition node_labels :: "'j node_record option \<Rightarrow> string list" where
  "node_labels n = (case n of None \<Rightarrow> [] | Some n \<Rightarrow> nr_labels n)"

definition apply_node_constraint_update ::
    "('n json \<Rightarrow> string) \<Rightarrow> 'n json node_record change \<Rightarrow> 'n schema_store \<Rightarrow> storage_error option \<times> 'n schema_store" where
  "apply_node_constraint_update js change st =
     (let (old, new) = change;
          (err, sm) = (case new of
              None \<Rightarrow> (None, ss_manager st)
            | Some n \<Rightarrow> fold_stop (\<lambda>label. stateful (validate_node js (nr_id n) label (nr_properties n))) (nr_labels n) (ss_manager st));
          sm = (if err \<noteq> None then sm else
            (case old of
               None \<Rightarrow> sm
             | Some o' \<Rightarrow> fold (\<lambda>label sm. if label \<in> set (node_labels new) then sm else sm_remove_node (nr_id o') label sm) (nr_labels o') sm))
      in or_rebuild js (err, st\<lparr>ss_manager := sm\<rparr>))"

definition apply_edge_constraint_update ::
    "('n json \<Rightarrow> string) \<Rightarrow> 'n json edge_record change \<Rightarrow> 'n schema_store \<Rightarrow> storage_error option \<times> 'n schema_store" where
  "apply_edge_constraint_update js change st =
     (let (old, new) = change;
          (err, sm) = (case new of None \<Rightarrow> (None, ss_manager st) | Some e \<Rightarrow> stateful (register_edge js e) (ss_manager st));
          sm = (if err \<noteq> None then sm else
            (case old of
               None \<Rightarrow> sm
             | Some o' \<Rightarrow>
                 if (case new of None \<Rightarrow> True | Some e \<Rightarrow> er_edge_type e \<noteq> er_edge_type o')
                 then sm_remove_edge (er_id o') (er_edge_type o') sm else sm))
      in or_rebuild js (err, st\<lparr>ss_manager := sm\<rparr>))"

subsection \<open>Batches\<close>

datatype 'n schema_op =
    PutConstraintOp "'n constraint"
  | DeleteConstraintOp string
  | PutNodeOp "'n json node_record"
  | PutFreshNodeOp "'n json node_record"
  | DeleteNodeOp string
  | PutEdgeOp "'n json edge_record"
  | PutFreshEdgeOp "'n json edge_record"
  | DeleteEdgeOp string

record 'n batch_changes =
  bc_nodes :: "(string, 'n json node_record change) btree"
  bc_edges :: "(string, 'n json edge_record change) btree"
  bc_constraints :: "(string, 'n constraint option) btree"

text \<open>\<open>entry(id).or_insert((stored record, None))\<close>, then the new record is set.\<close>

definition collect_change :: "('k::linorder, 'r) btree \<Rightarrow> 'k \<Rightarrow> 'r option \<Rightarrow> ('k, 'r change) btree \<Rightarrow> ('k, 'r change) btree" where
  "collect_change table i new changes =
     bt_insert i (case bt_get changes i of Some (old, _) \<Rightarrow> (old, new) | None \<Rightarrow> (bt_get table i, new)) changes"

definition collect_op :: "'n schema_store \<Rightarrow> 'n schema_op \<Rightarrow> 'n batch_changes \<Rightarrow> 'n batch_changes" where
  "collect_op st op bc =
     (case op of
        PutConstraintOp c \<Rightarrow> bc\<lparr>bc_constraints := bt_insert (co_name c) (Some c) (bc_constraints bc)\<rparr>
      | DeleteConstraintOp name \<Rightarrow> bc\<lparr>bc_constraints := bt_insert name None (bc_constraints bc)\<rparr>
      | PutNodeOp n \<Rightarrow> bc\<lparr>bc_nodes := collect_change (ss_nodes st) (nr_id n) (Some n) (bc_nodes bc)\<rparr>
      | PutFreshNodeOp n \<Rightarrow> bc\<lparr>bc_nodes := bt_insert (nr_id n) (None, Some n) (bc_nodes bc)\<rparr>
      | DeleteNodeOp i \<Rightarrow> bc\<lparr>bc_nodes := collect_change (ss_nodes st) i None (bc_nodes bc)\<rparr>
      | PutEdgeOp e \<Rightarrow> bc\<lparr>bc_edges := collect_change (ss_edges st) (er_id e) (Some e) (bc_edges bc)\<rparr>
      | PutFreshEdgeOp e \<Rightarrow> bc\<lparr>bc_edges := bt_insert (er_id e) (None, Some e) (bc_edges bc)\<rparr>
      | DeleteEdgeOp i \<Rightarrow> bc\<lparr>bc_edges := collect_change (ss_edges st) i None (bc_edges bc)\<rparr>)"

definition collect_ops :: "'n schema_store \<Rightarrow> 'n schema_op list \<Rightarrow> 'n batch_changes" where
  "collect_ops st ops = fold (collect_op st) ops \<lparr>bc_nodes = [], bc_edges = [], bc_constraints = []\<rparr>"

definition set_record :: "'k::linorder \<Rightarrow> 'r option \<Rightarrow> ('k, 'r) btree \<Rightarrow> ('k, 'r) btree" where
  "set_record i new table = (case new of Some r \<Rightarrow> bt_insert i r table | None \<Rightarrow> bt_remove i table)"

definition final_nodes :: "(string, 'j node_record change) btree \<Rightarrow> (string, 'j node_record) btree \<Rightarrow> 'j node_record list" where
  "final_nodes changes table =
     map snd (fold (\<lambda>(i, _, new). set_record i new) changes (bt_extend [] (map (\<lambda>(_, n). (nr_id n, n)) table)))"

definition final_edges :: "(string, 'j edge_record change) btree \<Rightarrow> (string, 'j edge_record) btree \<Rightarrow> 'j edge_record list" where
  "final_edges changes table =
     map snd (fold (\<lambda>(i, _, new). set_record i new) changes (bt_extend [] (map (\<lambda>(_, e). (er_id e, e)) table)))"

definition effective_constraints :: "(string, 'n constraint option) btree \<Rightarrow> 'n schema_store \<Rightarrow> (string, 'n constraint) btree" where
  "effective_constraints changes st =
     fold (\<lambda>(name, c). set_record name c) changes (bt_extend [] (map (\<lambda>c. (co_name c, c)) (load_constraints st)))"

text \<open>What becomes of a batch: an early error, an error after its checks, a failed write, or done.\<close>

datatype batch_outcome = BatchDone | EarlyError storage_error | StageError storage_error | WriteError storage_error

definition write_nodes :: "(string, 'j node_record change) btree \<Rightarrow> (string, 'j node_record) btree \<Rightarrow> (string, 'j node_record) btree" where
  "write_nodes changes = fold (\<lambda>(i, old, new). set_record i (map_option (stored_node old) new)) changes"

definition write_edges :: "(string, 'j edge_record change) btree \<Rightarrow> (string, 'j edge_record) btree \<Rightarrow> (string, 'j edge_record) btree" where
  "write_edges changes = fold (\<lambda>(i, _, new). set_record i new) changes"

definition write_constraints :: "(string, 'n constraint option) btree \<Rightarrow> (string, 'n constraint) btree \<Rightarrow> (string, 'n constraint) btree" where
  "write_constraints changes = fold (\<lambda>(name, c). set_record name c) changes"

definition write_batch :: "'n batch_changes \<Rightarrow> 'n schema_store \<Rightarrow> 'n schema_store" where
  "write_batch bc st = st\<lparr>ss_nodes := write_nodes (bc_nodes bc) (ss_nodes st), ss_edges := write_edges (bc_edges bc) (ss_edges st),
     ss_constraints := write_constraints (bc_constraints bc) (ss_constraints st)\<rparr>"

lemmas write_batch_parts = write_batch_def write_nodes_def write_edges_def write_constraints_def

definition in_order :: "'k::linorder list \<Rightarrow> ('k, 'v) btree \<Rightarrow> 'v list" where
  "in_order ks m = List.map_filter (bt_get m) ks"

definition commit_locked :: "('n json \<Rightarrow> string) \<Rightarrow> string list \<times> string list \<Rightarrow> batch_outcome \<Rightarrow> 'n schema_op list \<Rightarrow>
    'n schema_store \<Rightarrow> storage_error option \<times> 'n schema_store" where
  "commit_locked js order out ops st =
     (let bc = collect_ops st ops in
      case out of EarlyError e \<Rightarrow> (Some e, st) | _ \<Rightarrow>
      if bc_constraints bc \<noteq> [] then
        (case build_manager js (map snd (effective_constraints (bc_constraints bc) st)) (ss_namespace_constraints st)
                (final_nodes (bc_nodes bc) (ss_nodes st)) (final_edges (bc_edges bc) (ss_edges st)) of
           Inl e \<Rightarrow> (Some e, st)
         | Inr sm \<Rightarrow>
             (case out of
                StageError e \<Rightarrow> (Some e, st)
              | WriteError e \<Rightarrow> (Some e, st)
              | _ \<Rightarrow> (None, (write_batch bc st)\<lparr>ss_manager := sm\<rparr>)))
      else
        (case fold_stop (apply_node_constraint_update js) (in_order (fst order) (bc_nodes bc)) st of
           (Some e, st) \<Rightarrow> (Some e, st)
         | (None, st) \<Rightarrow>
             (case fold_stop (apply_edge_constraint_update js) (in_order (snd order) (bc_edges bc)) st of
                (Some e, st) \<Rightarrow> (Some e, st)
              | (None, st) \<Rightarrow>
                  (case out of
                     StageError e \<Rightarrow> (Some e, st)
                   | WriteError e \<Rightarrow> if bc_nodes bc = [] \<and> bc_edges bc = [] then (Some e, st) else or_rebuild js (Some e, st)
                   | _ \<Rightarrow> (None, write_batch bc st)))))"

text \<open>An order in which a hash map may be visited.\<close>

definition visits :: "'k::linorder list \<Rightarrow> ('k, 'v) btree \<Rightarrow> bool" where
  "visits ks m \<longleftrightarrow> distinct ks \<and> set ks = set (bt_keys m)"

definition batch_order :: "string list \<times> string list \<Rightarrow> 'n schema_op list \<Rightarrow> 'n schema_store \<Rightarrow> bool" where
  "batch_order order ops st \<longleftrightarrow>
     visits (fst order) (bc_nodes (collect_ops st ops)) \<and> visits (snd order) (bc_edges (collect_ops st ops))"

text \<open>A fresh record is one whose id is not in use.\<close>

fun fresh_op :: "'n schema_store \<Rightarrow> 'n schema_op \<Rightarrow> bool" where
  "fresh_op st (PutFreshNodeOp n) \<longleftrightarrow> bt_get (ss_nodes st) (nr_id n) = None"
| "fresh_op st (PutFreshEdgeOp e) \<longleftrightarrow> bt_get (ss_edges st) (er_id e) = None"
| "fresh_op st op \<longleftrightarrow> True"

text \<open>
  \<open>schema_step js True\<close> is the code. With the flag off no batch fails between its checks and its write,
  where its versions are staged and its log record is written.
\<close>

inductive schema_step :: "('n json \<Rightarrow> string) \<Rightarrow> bool \<Rightarrow> 'n schema_store \<Rightarrow> 'n schema_store \<Rightarrow> bool" for js faults where
  persist: "persist_constraint js c st = Inr st' \<Longrightarrow> schema_step js faults st st'"
| delete: "delete_constraint js name st = Inr (b, st') \<Longrightarrow> schema_step js faults st st'"
| persist_in: "schema_step js faults st (snd (persist_constraint_for_namespace js namespace c st))"
| delete_in: "schema_step js faults st (snd (delete_constraint_for_namespace js namespace name st))"
| commit: "batch_order order ops st \<Longrightarrow> \<forall>op\<in>set ops. fresh_op st op \<Longrightarrow> faults \<or> (\<forall>e. out \<noteq> StageError e) \<Longrightarrow>
    schema_step js faults st (snd (commit_locked js order out ops st))"

end
