(* ===== verification/Schema_Keys.thy ===== *)
theory Schema_Keys
  imports Schema_Engine
begin

text \<open>
  What the tables of the schema manager of crates/storage/src/lib.rs hold: the keys of every registered
  record, and the owner of every key. Claiming the keys of a record and releasing them keep the two in
  step, and a loop of claims succeeds exactly when no two records ask for the same key.
\<close>

subsection \<open>The tables of a manager\<close>

text \<open>Records and keys are tuples; statements about them are about whole tuples.\<close>

declare split_paired_All [simp del] split_paired_Ex [simp del]

abbreviation record_of :: "record_key \<Rightarrow> string" where
  "record_of rk \<equiv> snd (snd rk)"

definition node_scoped :: "string \<Rightarrow> bool" where
  "node_scoped s \<longleftrightarrow> (\<exists>ns. (\<forall>a. ns = Some a \<longrightarrow> CHR '':'' \<notin> set a) \<and> s = node_scope ns)"

text \<open>A key carries the label of its record, and its scope tells nodes from relationships.\<close>

definition key_fits :: "record_key \<Rightarrow> unique_key \<Rightarrow> bool" where
  "key_fits rk k \<longleftrightarrow> fst (snd k) = fst (snd rk) \<and> (node_scoped (fst k) \<longleftrightarrow> fst rk = OnNode)"

definition rules_of :: "'n schema_manager \<Rightarrow> (string, 'n constraint) btree \<times> (string \<times> string, 'n constraint) btree" where
  "rules_of sm = (sm_constraints sm, sm_namespace_constraints sm)"

definition manager_holds :: "(record_key \<rightharpoonup> unique_key bset) \<Rightarrow> 'n schema_manager \<Rightarrow> bool" where
  "manager_holds R sm \<longleftrightarrow> sm_keys sm = R \<and>
     (\<forall>k i. sm_owners sm k = Some i \<longleftrightarrow> (\<exists>rk ks. R rk = Some ks \<and> record_of rk = i \<and> bs_has k ks)) \<and>
     (\<forall>rk ks k. R rk = Some ks \<longrightarrow> bs_has k ks \<longrightarrow> key_fits rk k)"

definition keys_disjoint :: "(record_key \<rightharpoonup> unique_key bset) \<Rightarrow> bool" where
  "keys_disjoint R \<longleftrightarrow> (\<forall>rk ks rk' ks' k. R rk = Some ks \<longrightarrow> R rk' = Some ks' \<longrightarrow> bs_has k ks \<longrightarrow> bs_has k ks' \<longrightarrow> rk = rk')"

lemma holds_owner:
  assumes "manager_holds R sm"
  shows "sm_owners sm k = Some i \<longleftrightarrow> (\<exists>rk ks. R rk = Some ks \<and> record_of rk = i \<and> bs_has k ks)"
  using assms by (auto simp: manager_holds_def)

lemma fits_unique: "key_fits rk k \<Longrightarrow> key_fits rk' k \<Longrightarrow> record_of rk = record_of rk' \<Longrightarrow> rk = rk'"
  by (cases rk; cases rk'; cases "fst rk"; cases "fst rk'") (auto simp: key_fits_def)

lemma holds_fits: "manager_holds R sm \<Longrightarrow> R rk = Some ks \<Longrightarrow> bs_has k ks \<Longrightarrow> key_fits rk k"
  by (auto simp: manager_holds_def)

lemma holds_disjoint:
  assumes "manager_holds R sm" shows "keys_disjoint R"
  unfolding keys_disjoint_def
proof (intro allI impI)
  fix rk ks rk' ks' k
  assume R: "R rk = Some ks" "R rk' = Some ks'" "bs_has k ks" "bs_has k ks'"
  have "sm_owners sm k = Some (record_of rk)" "sm_owners sm k = Some (record_of rk')"
    using R by (auto simp: holds_owner [OF assms])
  then show "rk = rk'" using fits_unique [OF holds_fits [OF assms R(1,3)] holds_fits [OF assms R(2,4)]] by simp
qed

lemma other_holders:
  assumes "keys_disjoint R"
  shows "(\<exists>rk' ks. rk' \<noteq> rk \<and> R rk' = Some ks \<and> record_of rk' = i \<and> bs_has k ks) \<longleftrightarrow>
    (\<exists>rk' ks. R rk' = Some ks \<and> record_of rk' = i \<and> bs_has k ks) \<and> \<not> (\<exists>ks. R rk = Some ks \<and> bs_has k ks)"
proof -
  have "rk' = rk" if "R rk' = Some ks" "bs_has k ks" "R rk = Some ks'" "bs_has k ks'" for rk' ks ks'
    using assms that unfolding keys_disjoint_def by blast
  then have mine: "(\<exists>ks. R rk = Some ks \<and> bs_has k ks) \<Longrightarrow> rk' = rk" if "R rk' = Some ks \<and> record_of rk' = i \<and> bs_has k ks" for rk' ks
    using that by blast
  show ?thesis
  proof
    assume "\<exists>rk' ks. rk' \<noteq> rk \<and> R rk' = Some ks \<and> record_of rk' = i \<and> bs_has k ks"
    then obtain rk' ks where "rk' \<noteq> rk" and h: "R rk' = Some ks \<and> record_of rk' = i \<and> bs_has k ks" by (elim exE conjE) simp
    with mine [OF h] show "(\<exists>rk' ks. R rk' = Some ks \<and> record_of rk' = i \<and> bs_has k ks) \<and> \<not> (\<exists>ks. R rk = Some ks \<and> bs_has k ks)"
      by blast
  next
    assume a: "(\<exists>rk' ks. R rk' = Some ks \<and> record_of rk' = i \<and> bs_has k ks) \<and> \<not> (\<exists>ks. R rk = Some ks \<and> bs_has k ks)"
    then obtain rk' ks where h: "R rk' = Some ks \<and> record_of rk' = i \<and> bs_has k ks" by blast
    with a have "rk' \<noteq> rk" by auto
    with h show "\<exists>rk' ks. rk' \<noteq> rk \<and> R rk' = Some ks \<and> record_of rk' = i \<and> bs_has k ks" by blast
  qed
qed

lemma holds_unique: "manager_holds R sm \<Longrightarrow> manager_holds R sm' \<Longrightarrow> rules_of sm = rules_of sm' \<Longrightarrow> sm = sm'"
proof -
  assume a: "manager_holds R sm" "manager_holds R sm'" "rules_of sm = rules_of sm'"
  have "sm_owners sm k = Some i \<longleftrightarrow> sm_owners sm' k = Some i" for k i
    unfolding holds_owner [OF a(1)] holds_owner [OF a(2)] ..
  then have "sm_owners sm k = sm_owners sm' k" for k by (metis not_None_eq)
  then have "sm_owners sm = sm_owners sm'" by (rule ext)
  then show "sm = sm'" using a by (simp add: manager_holds_def rules_of_def)
qed

subsection \<open>Claiming and releasing\<close>

lemma fold_owners:
  "fold (\<lambda>key owners. if P key then owners(key \<mapsto> i) else if owners key = Some i then owners(key := None) else owners) ks owners k =
     (if k \<in> set ks then (if P k then Some i else if owners k = Some i then None else owners k) else owners k)"
  by (induction ks arbitrary: owners) auto

lemma fold_disown:
  "fold (\<lambda>key owners. if owners key = Some i then owners(key := None) else owners) ks owners k =
     (if k \<in> set ks \<and> owners k = Some i then None else owners k)"
  by (induction ks arbitrary: owners) auto

lemma keys_of_union: "set (bt_keys (fold bs_insert ks m)) = set ks \<union> set (bt_keys m)"
  by (induction ks arbitrary: m) (auto simp: bs_insert_def bt_keys_insert)

definition claimed_keys :: "record_key \<Rightarrow> 'n schema_manager \<Rightarrow> unique_key bset" where
  "claimed_keys rk sm = (case sm_keys sm rk of None \<Rightarrow> [] | Some ks \<Rightarrow> ks)"

lemma claim_Inl:
  assumes "claim rk nx sm = Inl e"
  shows "\<exists>k j. bs_has k nx \<and> sm_owners sm k = Some j \<and> j \<noteq> record_of rk"
  using assms by (auto simp: claim_def Let_def find_Some_iff owner_conflict_def split: option.splits)

lemma claim_Inr:
  assumes "claim rk nx sm = Inr sm'"
  shows "\<forall>k. bs_has k nx \<longrightarrow> sm_owners sm k = None \<or> sm_owners sm k = Some (record_of rk)"
    and "sm_keys sm' = (sm_keys sm)(rk \<mapsto> nx)" and "rules_of sm' = rules_of sm"
    and "sm_owners sm' k = (if bs_has k nx then Some (record_of rk)
      else if bs_has k (claimed_keys rk sm) \<and> sm_owners sm k = Some (record_of rk) then None else sm_owners sm k)"
proof -
  let ?all = "bt_keys (fold bs_insert (bt_keys nx) (claimed_keys rk sm))"
  have all: "k \<in> set ?all \<longleftrightarrow> bs_has k nx \<or> bs_has k (claimed_keys rk sm)" for k
    by (simp add: keys_of_union bs_has_keys)
  have f: "find (owner_conflict (record_of rk) nx (sm_owners sm)) ?all = None"
    using assms by (auto simp: claim_def Let_def claimed_keys_def split: option.splits)
  show "\<forall>k. bs_has k nx \<longrightarrow> sm_owners sm k = None \<or> sm_owners sm k = Some (record_of rk)"
  proof (intro allI impI)
    fix k assume "bs_has k nx"
    then have "\<not> owner_conflict (record_of rk) nx (sm_owners sm) k" using f all [of k] by (auto simp: find_None_iff)
    then show "sm_owners sm k = None \<or> sm_owners sm k = Some (record_of rk)"
      using \<open>bs_has k nx\<close> by (auto simp: owner_conflict_def split: option.splits)
  qed
  have sm': "sm' = sm\<lparr>
      sm_owners := fold (\<lambda>key owners. if bs_has key nx then owners(key \<mapsto> record_of rk)
        else if owners key = Some (record_of rk) then owners(key := None) else owners) ?all (sm_owners sm),
      sm_keys := (sm_keys sm)(rk \<mapsto> nx)\<rparr>"
    using assms f by (simp add: claim_def Let_def claimed_keys_def)
  show "sm_keys sm' = (sm_keys sm)(rk \<mapsto> nx)" "rules_of sm' = rules_of sm" by (simp_all add: sm' rules_of_def)
  show "sm_owners sm' k = (if bs_has k nx then Some (record_of rk)
      else if bs_has k (claimed_keys rk sm) \<and> sm_owners sm k = Some (record_of rk) then None else sm_owners sm k)"
    by (simp add: sm' fold_owners all)
qed

lemma claim_holds:
  assumes h: "manager_holds R sm" and c: "claim rk nx sm = Inr sm'" and fits: "\<And>k. bs_has k nx \<Longrightarrow> key_fits rk k"
  shows "manager_holds (R(rk \<mapsto> nx)) sm'"
proof -
  let ?R = "R(rk \<mapsto> nx)"
  note free = claim_Inr(1) [OF c] and owners = claim_Inr(4) [OF c] and own = holds_owner [OF h]
  have prev: "bs_has k (claimed_keys rk sm) \<longleftrightarrow> (\<exists>ks. R rk = Some ks \<and> bs_has k ks)" for k
    using h by (auto simp: claimed_keys_def manager_holds_def split: option.split)
  have mine: "sm_owners sm k = Some (record_of rk)" if "bs_has k (claimed_keys rk sm)" for k
    using that own [of k] prev [of k] by blast
  have "sm_owners sm' k = Some i \<longleftrightarrow> (\<exists>rk' ks. ?R rk' = Some ks \<and> record_of rk' = i \<and> bs_has k ks)" for k i
  proof (cases "bs_has k nx")
    case True
    have "record_of rk' = record_of rk" if "?R rk' = Some ks" "bs_has k ks" for rk' ks
    proof (cases "rk' = rk")
      case False
      then have "R rk' = Some ks" using that(1) by simp
      then have "sm_owners sm k = Some (record_of rk')" using that(2) own by blast
      then show ?thesis using free True by auto
    qed simp
    moreover have "?R rk = Some nx" by simp
    ultimately have "(\<exists>rk' ks. ?R rk' = Some ks \<and> record_of rk' = i \<and> bs_has k ks) \<longleftrightarrow> record_of rk = i" using True by metis
    then show ?thesis using True owners [of k] by simp
  next
    case False
    have "(\<exists>rk' ks. ?R rk' = Some ks \<and> record_of rk' = i \<and> bs_has k ks) \<longleftrightarrow>
        (\<exists>rk' ks. rk' \<noteq> rk \<and> R rk' = Some ks \<and> record_of rk' = i \<and> bs_has k ks)" using False by auto
    also have "\<dots> \<longleftrightarrow> sm_owners sm k = Some i \<and> \<not> bs_has k (claimed_keys rk sm)"
      unfolding own prev by (rule other_holders [OF holds_disjoint [OF h]])
    also have "\<dots> \<longleftrightarrow> sm_owners sm' k = Some i"
      using False owners [of k] mine [of k] by auto
    finally show ?thesis by simp
  qed
  then show ?thesis using h fits claim_Inr(2) [OF c] by (auto simp: manager_holds_def)
qed

lemma release_holds:
  assumes h: "manager_holds R sm" shows "manager_holds (R(rk := None)) (release rk sm)"
proof -
  let ?R = "R(rk := None)"
  note own = holds_owner [OF h]
  have prev: "bs_has k (claimed_keys rk sm) \<longleftrightarrow> (\<exists>ks. R rk = Some ks \<and> bs_has k ks)" for k
    using h by (auto simp: claimed_keys_def manager_holds_def split: option.split)
  have mine: "sm_owners sm k = Some (record_of rk)" if "bs_has k (claimed_keys rk sm)" for k
    using that own [of k] prev [of k] by blast
  have "sm_owners (release rk sm) k = Some i \<longleftrightarrow> (\<exists>rk' ks. ?R rk' = Some ks \<and> record_of rk' = i \<and> bs_has k ks)" for k i
  proof -
    have mine: "sm_owners sm k = Some (record_of rk)" if "bs_has k (claimed_keys rk sm)" for k
    using that own [of k] prev [of k] by blast
  have "sm_owners (release rk sm) k = Some i \<longleftrightarrow> sm_owners sm k = Some i \<and> \<not> bs_has k (claimed_keys rk sm)"
      using mine [of k] by (auto simp: release_def Let_def fold_disown bs_has_keys claimed_keys_def)
    also have "\<dots> \<longleftrightarrow> (\<exists>rk' ks. rk' \<noteq> rk \<and> R rk' = Some ks \<and> record_of rk' = i \<and> bs_has k ks)"
      unfolding own prev by (rule sym, rule other_holders [OF holds_disjoint [OF h]])
    finally show ?thesis by auto
  qed
  then show ?thesis using h by (auto simp: manager_holds_def release_def Let_def)
qed

lemma release_rules [simp]: "rules_of (release rk sm) = rules_of sm"
  by (simp add: release_def rules_of_def Let_def)

subsection \<open>Loops of claims\<close>

definition attempt :: "record_key \<Rightarrow> storage_error + unique_key bset \<Rightarrow> 'n schema_manager \<Rightarrow> storage_error + 'n schema_manager" where
  "attempt rk req sm = result_bind req (\<lambda>nx. claim rk nx sm)"

definition with_keys :: "(record_key \<Rightarrow> storage_error + unique_key bset) \<Rightarrow> record_key list \<Rightarrow>
    (record_key \<rightharpoonup> unique_key bset) \<Rightarrow> record_key \<rightharpoonup> unique_key bset" where
  "with_keys g rks R rk = (if rk \<in> set rks then Some (projr (g rk)) else R rk)"

lemma with_keys_Cons: "with_keys g (rk # rks) R = with_keys g rks (R(rk \<mapsto> projr (g rk)))"
  by (auto simp: with_keys_def fun_eq_iff)

lemma with_keys_append: "with_keys g (xs @ ys) R = with_keys g ys (with_keys g xs R)"
  by (auto simp: with_keys_def fun_eq_iff)

text \<open>A loop that succeeds leaves the manager with the new keys.\<close>

lemma attempts_hold:
  assumes "fold_result (\<lambda>rk. attempt rk (g rk)) rks sm = Inr sm'" "manager_holds R sm"
    and "\<And>rk ks k. rk \<in> set rks \<Longrightarrow> g rk = Inr ks \<Longrightarrow> bs_has k ks \<Longrightarrow> key_fits rk k"
  shows "manager_holds (with_keys g rks R) sm' \<and> rules_of sm' = rules_of sm \<and> (\<forall>rk\<in>set rks. is_ok (g rk))"
  using assms
proof (induction rks arbitrary: sm R)
  case Nil
  then show ?case by (simp add: with_keys_def [abs_def])
next
  case (Cons rk rks)
  from Cons.prems(1) obtain nx sm1 where c: "g rk = Inr nx" "claim rk nx sm = Inr sm1"
    "fold_result (\<lambda>rk. attempt rk (g rk)) rks sm1 = Inr sm'"
    by (auto simp: attempt_def [of rk] result_bind_Inr_iff)
  have "manager_holds (R(rk \<mapsto> nx)) sm1"
    using claim_holds [OF Cons.prems(2) c(2)] Cons.prems(3) [of rk nx] c(1) by simp
  moreover have "key_fits rk' k" if "rk' \<in> set rks" "g rk' = Inr ks" "bs_has k ks" for rk' ks k
    using Cons.prems(3) [of rk' ks k] that by simp
  ultimately have "manager_holds (with_keys g rks (R(rk \<mapsto> nx))) sm' \<and> rules_of sm' = rules_of sm1 \<and> (\<forall>rk\<in>set rks. is_ok (g rk))"
    by (rule Cons.IH [OF c(3)])
  then show ?case using c(1) claim_Inr(3) [OF c(2)] unfolding with_keys_Cons by simp
qed

text \<open>It succeeds when the keys it claims are those of a disjoint table that nothing registered contradicts.\<close>

definition compatible :: "(record_key \<rightharpoonup> unique_key bset) \<Rightarrow> (record_key \<rightharpoonup> unique_key bset) \<Rightarrow> bool" where
  "compatible R F \<longleftrightarrow> (\<forall>rk ks rk' ks' k. R rk = Some ks \<longrightarrow> F rk' = Some ks' \<longrightarrow> bs_has k ks \<longrightarrow> bs_has k ks' \<longrightarrow>
     record_of rk = record_of rk')"

lemma compatible_insert:
  assumes "compatible R F" "keys_disjoint F" "F rk = Some ks"
  shows "compatible (R(rk \<mapsto> ks)) F"
  unfolding compatible_def
proof (intro allI impI)
  fix rk1 ks1 rk2 ks2 k
  assume a: "(R(rk \<mapsto> ks)) rk1 = Some ks1" "F rk2 = Some ks2" "bs_has k ks1" "bs_has k ks2"
  show "record_of rk1 = record_of rk2"
  proof (cases "rk1 = rk")
    case True
    then show ?thesis using a assms(2,3) unfolding keys_disjoint_def by (metis fun_upd_same option.inject)
  next
    case False
    then have "R rk1 = Some ks1" using a(1) by simp
    then show ?thesis using a(2-4) assms(1) unfolding compatible_def by blast
  qed
qed

lemma attempts_succeed:
  assumes "manager_holds R sm" "compatible R F" "keys_disjoint F"
    and "\<And>rk. rk \<in> set rks \<Longrightarrow> \<exists>ks. g rk = Inr ks \<and> F rk = Some ks"
    and "\<And>rk ks k. rk \<in> set rks \<Longrightarrow> g rk = Inr ks \<Longrightarrow> bs_has k ks \<Longrightarrow> key_fits rk k"
  shows "\<exists>sm'. fold_result (\<lambda>rk. attempt rk (g rk)) rks sm = Inr sm'"
  using assms
proof (induction rks arbitrary: sm R)
  case (Cons rk rks)
  obtain nx where n: "g rk = Inr nx" "F rk = Some nx" using Cons.prems(4) [of rk] by auto
  have "\<exists>sm1. claim rk nx sm = Inr sm1"
  proof (cases "claim rk nx sm")
    case (Inl e)
    from claim_Inl [OF Inl] obtain k j where k: "bs_has k nx" "sm_owners sm k = Some j" "j \<noteq> record_of rk" by blast
    then obtain rk' ks' where "R rk' = Some ks'" "record_of rk' = j" "bs_has k ks'" using holds_owner [OF Cons.prems(1)] by blast
    then have False using Cons.prems(2) n(2) k unfolding compatible_def by blast
    then show ?thesis ..
  qed simp
  then obtain sm1 where c: "claim rk nx sm = Inr sm1" ..
  have "manager_holds (R(rk \<mapsto> nx)) sm1"
    using claim_holds [OF Cons.prems(1) c] Cons.prems(5) [of rk nx] n(1) by simp
  moreover have "compatible (R(rk \<mapsto> nx)) F" by (rule compatible_insert [OF Cons.prems(2,3) n(2)])
  ultimately have "\<exists>sm'. fold_result (\<lambda>rk. attempt rk (g rk)) rks sm1 = Inr sm'"
    using Cons.IH Cons.prems(3,4,5) by simp
  then show ?case by (simp add: attempt_def [of rk] n(1) c)
qed simp

end
