(* ===== verification/Schema_Rules.thy ===== *)
theory Schema_Rules
  imports Schema_Keys
begin

text \<open>
  What the constraints of crates/storage/src/lib.rs mean, and how the manager decides it: a table of
  nodes and relationships satisfies its rules exactly when every record has the values it must have and
  no two records ask for the same key. For relationships the key names the two ends in one string, so
  the converse needs ends whose names do not run together.
\<close>

subsection \<open>The meaning of a constraint\<close>

type_synonym 'n rule = "string option \<times> 'n constraint"

definition all_rules :: "(string, 'n constraint) btree \<Rightarrow> (string \<times> string, 'n constraint) btree \<Rightarrow> 'n rule set" where
  "all_rules global namespaced = (\<lambda>e. (None, snd e)) ` set global \<union> (\<lambda>e. (Some (fst (fst e)), snd e)) ` set namespaced"

definition strict_type :: "constraint_entity_type \<Rightarrow> constraint_type" where
  "strict_type kind = (case kind of OnNode \<Rightarrow> NodeKeyConstraint | OnRelationship \<Rightarrow> RelationshipConstraint)"

definition asks_all :: "constraint_entity_type \<Rightarrow> 'n constraint \<Rightarrow> bool" where
  "asks_all kind c \<longleftrightarrow> co_type c = ExistsConstraint \<or> co_type c = strict_type kind"

definition asks_unique :: "constraint_entity_type \<Rightarrow> 'n constraint \<Rightarrow> bool" where
  "asks_unique kind c \<longleftrightarrow> co_type c = UniqueConstraint \<or> co_type c = strict_type kind"

text \<open>The texts of a record's values, when it has them all.\<close>

definition value_texts :: "('n json \<Rightarrow> string) \<Rightarrow> (string, 'n json) btree \<Rightarrow> string list \<Rightarrow> string list option" where
  "value_texts js props ps = (if \<forall>p\<in>set ps. non_null (bt_get props p) then Some (map (\<lambda>p. js (the (bt_get props p))) ps) else None)"

definition rule_covers :: "constraint_entity_type \<Rightarrow> 'n rule \<Rightarrow> string \<Rightarrow> string \<Rightarrow> bool" where
  "rule_covers kind r i label \<longleftrightarrow> co_entity_type (snd r) = kind \<and> co_label (snd r) = label \<and>
     (\<forall>scope. fst r = Some scope \<longrightarrow> namespace_from_str i = Some scope)"

definition node_rule_holds :: "('n json \<Rightarrow> string) \<Rightarrow> 'n rule \<Rightarrow> (string \<rightharpoonup> 'n json node_record) \<Rightarrow> bool" where
  "node_rule_holds js r N \<longleftrightarrow>
     (let covered = (\<lambda>i n. N i = Some n \<and> (\<exists>l\<in>set (nr_labels n). rule_covers OnNode r i l)); ps = co_properties (snd r) in
      (asks_all OnNode (snd r) \<longrightarrow> (\<forall>i n p. covered i n \<longrightarrow> p \<in> set ps \<longrightarrow> non_null (bt_get (nr_properties n) p))) \<and>
      (asks_unique OnNode (snd r) \<longrightarrow> (\<forall>i n j m. covered i n \<longrightarrow> covered j m \<longrightarrow> value_texts js (nr_properties n) ps \<noteq> None \<longrightarrow>
         value_texts js (nr_properties n) ps = value_texts js (nr_properties m) ps \<longrightarrow> i = j)))"

definition edge_rule_holds :: "('n json \<Rightarrow> string) \<Rightarrow> 'n rule \<Rightarrow> (string \<rightharpoonup> 'n json edge_record) \<Rightarrow> bool" where
  "edge_rule_holds js r E \<longleftrightarrow>
     (let covered = (\<lambda>i e. E i = Some e \<and> rule_covers OnRelationship r i (er_edge_type e)); ps = co_properties (snd r) in
      (asks_all OnRelationship (snd r) \<longrightarrow> (\<forall>i e p. covered i e \<longrightarrow> p \<in> set ps \<longrightarrow> non_null (bt_get (er_properties e) p))) \<and>
      (asks_unique OnRelationship (snd r) \<longrightarrow> (\<forall>i e j f. covered i e \<longrightarrow> covered j f \<longrightarrow>
         er_start_node e = er_start_node f \<longrightarrow> er_end_node e = er_end_node f \<longrightarrow> value_texts js (er_properties e) ps \<noteq> None \<longrightarrow>
         value_texts js (er_properties e) ps = value_texts js (er_properties f) ps \<longrightarrow> i = j)))"

text \<open>
  The rules hold: every constraint of a kind that the code checks is satisfied, which are existence,
  uniqueness, node keys of nodes and relationship keys of relationships. Type, temporal and domain
  constraints ask for nothing here, as \<open>validate_node\<close> and \<open>validate_edge\<close> ask for nothing.
\<close>

definition rules_hold :: "('n json \<Rightarrow> string) \<Rightarrow> 'n rule set \<Rightarrow> (string \<rightharpoonup> 'n json node_record) \<Rightarrow> (string \<rightharpoonup> 'n json edge_record) \<Rightarrow> bool" where
  "rules_hold js rules N E \<longleftrightarrow> (\<forall>r\<in>rules. node_rule_holds js r N \<and> edge_rule_holds js r E)"

subsection \<open>The keys a record asks for\<close>

lemma value_texts_Cons:
  "value_texts js props (p # ps) =
     (if non_null (bt_get props p) then map_option ((#) (js (the (bt_get props p)))) (value_texts js props ps) else None)"
  by (auto simp: value_texts_def)

lemma value_texts_Nil [simp]: "value_texts js props [] = Some []"
  by (simp add: value_texts_def)

lemma value_texts_iff: "(\<exists>vs. value_texts js props ps = Some vs) \<longleftrightarrow> (\<forall>p\<in>set ps. non_null (bt_get props p))"
  by (auto simp: value_texts_def)

lemma key_values_texts:
  "value_texts js props ps = Some vs \<Longrightarrow> key_values js strict (bt_get props) ps = Inr (Some vs)"
  "value_texts js props ps = None \<Longrightarrow> key_values js False (bt_get props) ps = Inr None"
  "value_texts js props ps = None \<Longrightarrow> \<exists>p. key_values js True (bt_get props) ps = Inl p"
  by (induction ps arbitrary: vs) (auto simp: value_texts_Cons non_null_def split: if_splits option.splits)

text \<open>One constraint either refuses the record or adds its key.\<close>

definition met_by :: "constraint_entity_type \<Rightarrow> (string, 'n json) btree \<Rightarrow> 'n constraint \<Rightarrow> bool" where
  "met_by kind props c \<longleftrightarrow> (asks_all kind c \<longrightarrow> (\<forall>p\<in>set (co_properties c). non_null (bt_get props p)))"

definition key_asked :: "constraint_entity_type \<Rightarrow> ('n json \<Rightarrow> string) \<Rightarrow> (string option \<Rightarrow> string) \<Rightarrow> string \<Rightarrow>
    (string, 'n json) btree \<Rightarrow> 'n rule \<Rightarrow> unique_key \<Rightarrow> bool" where
  "key_asked kind js scope label props r k \<longleftrightarrow> asks_unique kind (snd r) \<and>
     (\<exists>vs. value_texts js props (co_properties (snd r)) = Some vs \<and> k = (scope (fst r), label, co_properties (snd r), vs))"

lemma requires_refuses: "\<not> met_by kind props (snd r) \<Longrightarrow> \<exists>e. requires kind js scope label (bt_get props) r keys = Inl e"
proof -
  assume not_met: "\<not> met_by kind props (snd r)"
  then have all: "asks_all kind (snd r)" and some: "\<not> (\<forall>p\<in>set (co_properties (snd r)). non_null (bt_get props p))"
    by (auto simp: met_by_def)
  from some have "find (\<lambda>p. \<not> non_null (bt_get props p)) (co_properties (snd r)) \<noteq> None" by (auto simp: find_None_iff)
  moreover from some have "value_texts js props (co_properties (snd r)) = None" unfolding value_texts_def by simp
  then have "\<exists>p. key_values js True (bt_get props) (co_properties (snd r)) = Inl p" by (rule key_values_texts(3))
  ultimately show ?thesis using all
    by (cases kind) (auto simp: requires_def asks_all_def strict_type_def Let_def split: prod.splits)
qed

lemma requires_met:
  assumes "met_by kind props (snd r)"
  shows "\<exists>keys'. requires kind js scope label (bt_get props) r keys = Inr keys' \<and>
    (\<forall>k. bs_has k keys' \<longleftrightarrow> bs_has k keys \<or> key_asked kind js scope label props r k)"
proof -
  obtain ns c where r: "r = (ns, c)" by (cases r)
  have exists: "find (\<lambda>p. \<not> non_null (bt_get props p)) (co_properties c) = None" if "asks_all kind c"
    using assms that by (simp add: met_by_def r find_None_iff)
  have strict: "\<exists>vs. value_texts js props (co_properties c) = Some vs" if "asks_all kind c"
    using assms that by (simp add: met_by_def r value_texts_iff)
  show ?thesis
  proof (cases "value_texts js props (co_properties c)")
    case None
    then have "\<not> asks_all kind c" using strict by auto
    then show ?thesis using None key_values_texts(2) [OF None]
      by (cases "co_type c"; cases kind) (auto simp: r requires_def asks_all_def strict_type_def key_asked_def asks_unique_def Let_def)
  next
    case (Some vs)
    note [simp] = key_values_texts(1) [OF Some]
    show ?thesis using exists Some
      by (cases "co_type c"; cases kind) (auto simp: r requires_def asks_all_def strict_type_def key_asked_def asks_unique_def Let_def)
  qed
qed

lemma fold_requires:
  "(\<exists>keys'. fold_result (requires kind js scope label (bt_get props)) rs keys = Inr keys') \<longleftrightarrow> (\<forall>r\<in>set rs. met_by kind props (snd r))"
  and fold_requires_keys:
  "fold_result (requires kind js scope label (bt_get props)) rs keys = Inr keys' \<Longrightarrow>
     bs_has k keys' \<longleftrightarrow> bs_has k keys \<or> (\<exists>r\<in>set rs. key_asked kind js scope label props r k)"
proof (induction rs arbitrary: keys)
  case (Cons r rs)
  {
    case 1
    then show ?case
    proof (cases "met_by kind props (snd r)")
      case True
      then obtain keys1 where "requires kind js scope label (bt_get props) r keys = Inr keys1" using requires_met by blast
      then show ?thesis using Cons.IH(1) [of keys1] True by simp
    next
      case False
      then obtain e where "requires kind js scope label (bt_get props) r keys = Inl e" using requires_refuses by blast
      then show ?thesis using False by simp
    qed
  next
    case 2
    then obtain keys1 where keys1: "requires kind js scope label (bt_get props) r keys = Inr keys1"
      "fold_result (requires kind js scope label (bt_get props)) rs keys1 = Inr keys'"
      by (auto simp: result_bind_Inr_iff)
    then have "met_by kind props (snd r)" using requires_refuses by (metis Inl_Inr_False)
    from requires_met [OF this, of js scope label keys] keys1(1)
    have "bs_has k keys1 \<longleftrightarrow> bs_has k keys \<or> key_asked kind js scope label props r k" by auto
    then show ?case using Cons.IH(2) [OF keys1(2)] by auto
  }
qed simp_all

text \<open>Hence the keys of a node and of a relationship.\<close>

lemma set_applicable:
  "set (applicable kind i label sm) = {r \<in> all_rules (sm_constraints sm) (sm_namespace_constraints sm). rule_covers kind r i label}"
proof (rule set_eqI)
  fix r :: "'a rule"
  let ?F = "\<lambda>((scope, _), c). if Some scope = namespace_from_str i then Some (Some scope, c) else None"
  have ns: "r \<in> set (List.map_filter ?F m) \<longleftrightarrow>
      r \<in> (\<lambda>e. (Some (fst (fst e)), snd e)) ` set m \<and> (\<forall>scope. fst r = Some scope \<longrightarrow> namespace_from_str i = Some scope)" for m
  proof (induction m)
    case (Cons e m)
    obtain scope n c where "e = ((scope, n), c)" by (metis surj_pair)
    then show ?case using Cons.IH by (cases "r = (Some scope, c)"; cases "namespace_from_str i = Some scope") (simp_all add: List.map_filter_simps)
  qed (simp add: List.map_filter_simps)
  have global: "r \<in> (\<lambda>e. (None, snd e)) ` set (sm_constraints sm) \<longleftrightarrow> r \<in> set (map (Pair None \<circ> snd) (sm_constraints sm))"
    by (auto simp: image_iff)
  show "r \<in> set (applicable kind i label sm) \<longleftrightarrow>
      r \<in> {r \<in> all_rules (sm_constraints sm) (sm_namespace_constraints sm). rule_covers kind r i label}"
    unfolding applicable_def set_filter set_append Un_iff mem_Collect_eq ns all_rules_def global
    by (cases r) (auto simp: rule_covers_def)
qed

lemma namespace_colon: "namespace_from_str i = Some a \<Longrightarrow> CHR '':'' \<notin> set a"
  by (auto simp: namespace_from_str_def parse_database_prefix_def split: option.splits if_splits dest: split_once_Some)

definition rules :: "'n schema_manager \<Rightarrow> 'n rule set" where
  "rules sm = all_rules (sm_constraints sm) (sm_namespace_constraints sm)"

lemma rules_cong: "rules_of sm = rules_of sm' \<Longrightarrow> rules sm = rules sm'"
  by (simp add: rules_def rules_of_def)

lemma node_keys_ok:
  "(\<exists>ks. node_keys_required js i label props sm = Inr ks) \<longleftrightarrow>
     (\<forall>r\<in>rules sm. rule_covers OnNode r i label \<longrightarrow> met_by OnNode props (snd r))"
  unfolding node_keys_required_def fold_requires set_applicable rules_def by blast

lemma node_keys_has:
  "node_keys_required js i label props sm = Inr ks \<Longrightarrow>
     bs_has k ks \<longleftrightarrow> (\<exists>r\<in>rules sm. rule_covers OnNode r i label \<and> key_asked OnNode js node_scope label props r k)"
  unfolding node_keys_required_def by (drule fold_requires_keys [of _ _ _ _ _ _ _ _ k]) (auto simp: set_applicable rules_def)

lemma edge_keys_ok:
  "(\<exists>ks. edge_keys_required js i label s e props sm = Inr ks) \<longleftrightarrow>
     (\<forall>r\<in>rules sm. rule_covers OnRelationship r i label \<longrightarrow> met_by OnRelationship props (snd r))"
  unfolding edge_keys_required_def fold_requires set_applicable rules_def by blast

lemma edge_keys_has:
  "edge_keys_required js i label s e props sm = Inr ks \<Longrightarrow>
     bs_has k ks \<longleftrightarrow> (\<exists>r\<in>rules sm. rule_covers OnRelationship r i label \<and> key_asked OnRelationship js (edge_scope s e) label props r k)"
  unfolding edge_keys_required_def by (drule fold_requires_keys [of _ _ _ _ _ _ _ _ k]) (auto simp: set_applicable rules_def)

lemma keys_required_cong:
  assumes "rules_of sm = rules_of sm'"
  shows "node_keys_required js i label props sm = node_keys_required js i label props sm'"
    and "edge_keys_required js i label s e props sm = edge_keys_required js i label s e props sm'"
  using assms by (simp_all add: node_keys_required_def edge_keys_required_def applicable_def rules_of_def)

subsection \<open>Scopes\<close>

lemma node_scope_inj: "node_scope a = node_scope b \<Longrightarrow> a = b"
  by (auto simp: node_scope_def split: option.splits)

lemma edge_scope_not_node: "\<forall>a. ns = Some a \<longrightarrow> CHR '':'' \<notin> set a \<Longrightarrow> \<not> node_scoped (edge_scope s e ns)"
proof
  assume ns: "\<forall>a. ns = Some a \<longrightarrow> CHR '':'' \<notin> set a" and "node_scoped (edge_scope s e ns)"
  then obtain b where b: "\<forall>a. b = Some a \<longrightarrow> CHR '':'' \<notin> set a" "edge_scope s e ns = node_scope b" by (auto simp: node_scoped_def)
  show False
  proof (cases ns)
    case None
    then show ?thesis using b(2) by (cases b) (simp_all add: node_scope_def edge_scope_def)
  next
    case (Some a)
    then obtain a' where b': "b = Some a'" using b(2) by (cases b) (simp_all add: node_scope_def edge_scope_def)
    then have eq: "a @ CHR '':'' # ''relationship:'' @ s @ '':'' @ e = a' @ CHR '':'' # ''node''"
      using b(2) Some by (simp add: node_scope_def edge_scope_def)
    have "split_once CHR '':'' (a @ CHR '':'' # ''relationship:'' @ s @ '':'' @ e) = Some (a, ''relationship:'' @ s @ '':'' @ e)"
      by (rule split_once_append) (use ns Some in simp)
    moreover have "split_once CHR '':'' (a' @ CHR '':'' # ''node'') = Some (a', ''node'')"
      by (rule split_once_append) (use b(1) b' in simp)
    ultimately show False using eq by simp
  qed
qed

lemma edge_scope_inj:
  assumes "edge_scope s e ns = edge_scope s' e' ns'"
    and "\<forall>a. ns = Some a \<longrightarrow> CHR '':'' \<notin> set a" "\<forall>a. ns' = Some a \<longrightarrow> CHR '':'' \<notin> set a"
  shows "ns = ns' \<and> s @ '':'' @ e = s' @ '':'' @ e'"
proof (cases ns)
  case None
  then show ?thesis using assms(1) by (cases ns') (simp_all add: edge_scope_def)
next
  case (Some a)
  then obtain a' where ns': "ns' = Some a'" using assms(1) by (cases ns') (simp_all add: edge_scope_def)
  have eq: "a @ CHR '':'' # ''relationship:'' @ s @ '':'' @ e = a' @ CHR '':'' # ''relationship:'' @ s' @ '':'' @ e'"
    using assms(1) Some ns' by (simp add: edge_scope_def)
  have once: "split_once CHR '':'' (x @ CHR '':'' # y) = Some (x, y)" if "ns = Some x \<or> ns' = Some x" for x y
    using that assms(2,3) by (intro split_once_append) auto
  from eq once [of a "''relationship:'' @ s @ '':'' @ e"] once [of a' "''relationship:'' @ s' @ '':'' @ e'"] Some ns'
  show ?thesis by simp
qed

end
