(* ===== verification/Schema_Tables.thy ===== *)
theory Schema_Tables
  imports Schema_Rules
begin

text \<open>
  The schema manager of crates/storage/src/lib.rs and the tables it is built from: its tables of keys are
  those of all records exactly when no record is refused and no two ask for one key, which is when the
  rules hold. Building a manager from all records succeeds in exactly that case.
\<close>

subsection \<open>What every record asks for\<close>

definition asked_keys :: "('n json \<Rightarrow> string) \<Rightarrow> 'n schema_manager \<Rightarrow> (string \<rightharpoonup> 'n json node_record) \<Rightarrow> (string \<rightharpoonup> 'n json edge_record) \<Rightarrow>
    record_key \<Rightarrow> (storage_error + unique_key bset) option" where
  "asked_keys js sm N E rk =
     (case rk of (kind, l, i) \<Rightarrow>
        (case kind of
           OnNode \<Rightarrow> (case N i of
               Some n \<Rightarrow> if l \<in> set (nr_labels n) then Some (node_keys_required js i l (nr_properties n) sm) else None
             | None \<Rightarrow> None)
         | OnRelationship \<Rightarrow> (case E i of
               Some e \<Rightarrow> if er_edge_type e = l
                 then Some (edge_keys_required js i l (er_start_node e) (er_end_node e) (er_properties e) sm) else None
             | None \<Rightarrow> None)))"

definition registered :: "('n json \<Rightarrow> string) \<Rightarrow> 'n schema_manager \<Rightarrow> (string \<rightharpoonup> 'n json node_record) \<Rightarrow> (string \<rightharpoonup> 'n json edge_record) \<Rightarrow>
    record_key \<rightharpoonup> unique_key bset" where
  "registered js sm N E rk = (case asked_keys js sm N E rk of Some (Inr ks) \<Rightarrow> Some ks | _ \<Rightarrow> None)"

definition all_accepted :: "('n json \<Rightarrow> string) \<Rightarrow> 'n schema_manager \<Rightarrow> (string \<rightharpoonup> 'n json node_record) \<Rightarrow> (string \<rightharpoonup> 'n json edge_record) \<Rightarrow> bool" where
  "all_accepted js sm N E \<longleftrightarrow> (\<forall>rk r. asked_keys js sm N E rk = Some r \<longrightarrow> is_ok r)"

definition tracks :: "('n json \<Rightarrow> string) \<Rightarrow> 'n schema_manager \<Rightarrow> (string \<rightharpoonup> 'n json node_record) \<Rightarrow> (string \<rightharpoonup> 'n json edge_record) \<Rightarrow> bool" where
  "tracks js sm N E \<longleftrightarrow> manager_holds (registered js sm N E) sm \<and> all_accepted js sm N E"

lemma required_cong: "rules_of sm = rules_of sm' \<Longrightarrow> asked_keys js sm N E = asked_keys js sm' N E"
  unfolding asked_keys_def [abs_def] by (simp only: keys_required_cong [of sm sm'])

lemma registered_cong: "rules_of sm = rules_of sm' \<Longrightarrow> registered js sm N E = registered js sm' N E"
  by (rule ext) (simp add: registered_def required_cong [of sm sm'])

lemma all_accepted_cong: "rules_of sm = rules_of sm' \<Longrightarrow> all_accepted js sm N E = all_accepted js sm' N E"
  by (simp add: all_accepted_def required_cong [of sm sm'])

lemma required_node:
  "asked_keys js sm N E (OnNode, l, i) = Some r \<longleftrightarrow>
     (\<exists>n. N i = Some n \<and> l \<in> set (nr_labels n) \<and> r = node_keys_required js i l (nr_properties n) sm)"
  by (auto simp: asked_keys_def split: option.split)

lemma required_edge:
  "asked_keys js sm N E (OnRelationship, l, i) = Some r \<longleftrightarrow>
     (\<exists>e. E i = Some e \<and> er_edge_type e = l \<and>
        r = edge_keys_required js i l (er_start_node e) (er_end_node e) (er_properties e) sm)"
  by (auto simp: asked_keys_def split: option.split)

lemma required_node_Inr:
  "asked_keys js sm N E (OnNode, l, i) = Some (Inr ks) \<longleftrightarrow>
     (\<exists>n. N i = Some n \<and> l \<in> set (nr_labels n) \<and> node_keys_required js i l (nr_properties n) sm = Inr ks)"
  by (auto simp: required_node)

lemma required_edge_Inr:
  "asked_keys js sm N E (OnRelationship, l, i) = Some (Inr ks) \<longleftrightarrow>
     (\<exists>e. E i = Some e \<and> er_edge_type e = l \<and>
        edge_keys_required js i l (er_start_node e) (er_end_node e) (er_properties e) sm = Inr ks)"
  by (auto simp: required_edge)

lemma registered_iff: "registered js sm N E rk = Some ks \<longleftrightarrow> asked_keys js sm N E rk = Some (Inr ks)"
  by (auto simp: registered_def split: option.split sum.split)

lemma covers_colon: "rule_covers kind r i l \<Longrightarrow> \<forall>a. fst r = Some a \<longrightarrow> CHR '':'' \<notin> set a"
  using namespace_colon by (auto simp: rule_covers_def)

lemma required_fits:
  assumes "asked_keys js sm N E rk = Some (Inr ks)" "bs_has k ks" shows "key_fits rk k"
proof -
  obtain kind l i where rk: "rk = (kind, l, i)" by (metis surj_pair)
  show ?thesis
  proof (cases kind)
    case OnNode
    from assms(1) obtain n where n: "N i = Some n" "node_keys_required js i l (nr_properties n) sm = Inr ks"
      unfolding rk OnNode required_node_Inr by blast
    from assms(2) [unfolded node_keys_has [OF n(2)]] obtain r where
      r: "rule_covers OnNode r i l" "key_asked OnNode js node_scope l (nr_properties n) r k" by blast
    then show ?thesis using covers_colon [OF r(1)]
      by (auto simp: key_fits_def rk OnNode key_asked_def node_scoped_def)
  next
    case OnRelationship
    from assms(1) obtain e where e: "E i = Some e" "edge_keys_required js i l (er_start_node e) (er_end_node e) (er_properties e) sm = Inr ks"
      unfolding rk OnRelationship required_edge_Inr by blast
    from assms(2) [unfolded edge_keys_has [OF e(2)]] obtain r where
      r: "rule_covers OnRelationship r i l"
      "key_asked OnRelationship js (edge_scope (er_start_node e) (er_end_node e)) l (er_properties e) r k" by blast
    then show ?thesis using edge_scope_not_node [OF covers_colon [OF r(1)]]
      by (auto simp: key_fits_def rk OnRelationship key_asked_def)
  qed
qed

subsection \<open>Keys and rules\<close>

lemma accepted_node:
  assumes "all_accepted js sm N E" "N i = Some n" "l \<in> set (nr_labels n)"
  shows "\<exists>ks. node_keys_required js i l (nr_properties n) sm = Inr ks \<and> registered js sm N E (OnNode, l, i) = Some ks"
proof -
  have "asked_keys js sm N E (OnNode, l, i) = Some (node_keys_required js i l (nr_properties n) sm)"
    unfolding required_node using assms(2,3) by blast
  moreover from this obtain ks where "node_keys_required js i l (nr_properties n) sm = Inr ks"
    using assms(1) unfolding all_accepted_def is_ok_iff by blast
  ultimately show ?thesis by (simp add: registered_iff)
qed

lemma accepted_edge:
  assumes "all_accepted js sm N E" "E i = Some e"
  shows "\<exists>ks. edge_keys_required js i (er_edge_type e) (er_start_node e) (er_end_node e) (er_properties e) sm = Inr ks \<and>
    registered js sm N E (OnRelationship, er_edge_type e, i) = Some ks"
proof -
  have "asked_keys js sm N E (OnRelationship, er_edge_type e, i) =
      Some (edge_keys_required js i (er_edge_type e) (er_start_node e) (er_end_node e) (er_properties e) sm)"
    unfolding required_edge using assms(2) by blast
  moreover from this obtain ks where
    "edge_keys_required js i (er_edge_type e) (er_start_node e) (er_end_node e) (er_properties e) sm = Inr ks"
    using assms(1) unfolding all_accepted_def is_ok_iff by blast
  ultimately show ?thesis by (simp add: registered_iff)
qed

lemma disjoint_same:
  "keys_disjoint R \<Longrightarrow> R (kind, l, i) = Some ks \<Longrightarrow> R (kind', l', j) = Some ks' \<Longrightarrow> bs_has k ks \<Longrightarrow> bs_has k ks' \<Longrightarrow> i = j"
  unfolding keys_disjoint_def by blast

lemma node_rules_of_keys:
  assumes acc: "all_accepted js sm N E" and dis: "keys_disjoint (registered js sm N E)" and r: "r \<in> rules sm"
  shows "node_rule_holds js r N"
proof -
  have met: "met_by OnNode (nr_properties n) (snd r)"
    if "N i = Some n" "l \<in> set (nr_labels n)" "rule_covers OnNode r i l" for i n l
    using accepted_node [OF acc that(1,2)] r that(3) node_keys_ok [of js i l "nr_properties n" sm] by blast
  have "i = j" if i: "N i = Some n" "l \<in> set (nr_labels n)" "rule_covers OnNode r i l"
    and j: "N j = Some m" "l' \<in> set (nr_labels m)" "rule_covers OnNode r j l'" and u: "asks_unique OnNode (snd r)"
    and vs: "value_texts js (nr_properties n) (co_properties (snd r)) = Some vs"
      "value_texts js (nr_properties m) (co_properties (snd r)) = Some vs" for i n j m l l' vs
  proof -
    have l: "l' = l" using i(3) j(3) by (auto simp: rule_covers_def)
    let ?k = "(node_scope (fst r), l, co_properties (snd r), vs)"
    obtain ks where ks: "node_keys_required js i l (nr_properties n) sm = Inr ks" "registered js sm N E (OnNode, l, i) = Some ks"
      using accepted_node [OF acc i(1,2)] by blast
    obtain ks' where ks': "node_keys_required js j l (nr_properties m) sm = Inr ks'" "registered js sm N E (OnNode, l, j) = Some ks'"
      using accepted_node [OF acc j(1,2)] l by blast
    have "bs_has ?k ks" unfolding node_keys_has [OF ks(1)] using r i(3) u vs(1) unfolding key_asked_def by blast
    moreover have "bs_has ?k ks'" unfolding node_keys_has [OF ks'(1)] using r j(3) u vs(2) l unfolding key_asked_def by blast
    ultimately show "i = j" using disjoint_same [OF dis ks(2) ks'(2)] by blast
  qed
  then show ?thesis using met unfolding node_rule_holds_def Let_def met_by_def by (metis option.exhaust)
qed

lemma edge_rules_of_keys:
  assumes acc: "all_accepted js sm N E" and dis: "keys_disjoint (registered js sm N E)" and r: "r \<in> rules sm"
  shows "edge_rule_holds js r E"
proof -
  have met: "met_by OnRelationship (er_properties e) (snd r)"
    if "E i = Some e" "rule_covers OnRelationship r i (er_edge_type e)" for i e
    using accepted_edge [OF acc that(1)] r that(2)
      edge_keys_ok [of js i "er_edge_type e" "er_start_node e" "er_end_node e" "er_properties e" sm] by blast
  have "i = j" if i: "E i = Some e" "rule_covers OnRelationship r i (er_edge_type e)"
    and j: "E j = Some f" "rule_covers OnRelationship r j (er_edge_type f)" and u: "asks_unique OnRelationship (snd r)"
    and ends: "er_start_node e = er_start_node f" "er_end_node e = er_end_node f"
    and vs: "value_texts js (er_properties e) (co_properties (snd r)) = Some vs"
      "value_texts js (er_properties f) (co_properties (snd r)) = Some vs" for i e j f vs
  proof -
    have l: "er_edge_type f = er_edge_type e" using i(2) j(2) by (auto simp: rule_covers_def)
    let ?k = "(edge_scope (er_start_node e) (er_end_node e) (fst r), er_edge_type e, co_properties (snd r), vs)"
    obtain ks where ks: "edge_keys_required js i (er_edge_type e) (er_start_node e) (er_end_node e) (er_properties e) sm = Inr ks"
      "registered js sm N E (OnRelationship, er_edge_type e, i) = Some ks" using accepted_edge [OF acc i(1)] by blast
    obtain ks' where ks': "edge_keys_required js j (er_edge_type e) (er_start_node e) (er_end_node e) (er_properties f) sm = Inr ks'"
      "registered js sm N E (OnRelationship, er_edge_type e, j) = Some ks'" using accepted_edge [OF acc j(1)] l ends by metis
    have "bs_has ?k ks" unfolding edge_keys_has [OF ks(1)] using r i(2) u vs(1) unfolding key_asked_def by blast
    moreover have "bs_has ?k ks'" unfolding edge_keys_has [OF ks'(1)] using r j(2) u vs(2) l unfolding key_asked_def by metis
    ultimately show "i = j" using disjoint_same [OF dis ks(2) ks'(2)] by blast
  qed
  then show ?thesis using met unfolding edge_rule_holds_def Let_def met_by_def by (metis option.exhaust)
qed

lemma rules_of_keys:
  "all_accepted js sm N E \<Longrightarrow> keys_disjoint (registered js sm N E) \<Longrightarrow> rules_hold js (rules sm) N E"
  using node_rules_of_keys edge_rules_of_keys unfolding rules_hold_def by blast

lemma tracks_rules: "tracks js sm N E \<Longrightarrow> rules_hold js (rules sm) N E"
  using rules_of_keys holds_disjoint unfolding tracks_def by blast

text \<open>Ends whose names run together the same way are the same.\<close>

definition clear_ends :: "(string \<rightharpoonup> 'j edge_record) \<Rightarrow> bool" where
  "clear_ends E \<longleftrightarrow> (\<forall>e\<in>ran E. \<forall>f\<in>ran E. er_start_node e @ '':'' @ er_end_node e = er_start_node f @ '':'' @ er_end_node f \<longrightarrow>
     er_start_node e = er_start_node f)"

lemma keys_of_rules:
  assumes rules: "rules_hold js (rules sm) N E" and ends: "clear_ends E"
  shows "all_accepted js sm N E" and "keys_disjoint (registered js sm N E)"
proof -
  have node_met: "met_by OnNode (nr_properties n) (snd r)"
    if "N i = Some n" "l \<in> set (nr_labels n)" "r \<in> rules sm" "rule_covers OnNode r i l" for i n l r
    using rules that unfolding rules_hold_def node_rule_holds_def Let_def met_by_def by blast
  have edge_met: "met_by OnRelationship (er_properties e) (snd r)"
    if "E i = Some e" "r \<in> rules sm" "rule_covers OnRelationship r i (er_edge_type e)" for i e r
    using rules that unfolding rules_hold_def edge_rule_holds_def Let_def met_by_def by blast
  show "all_accepted js sm N E" unfolding all_accepted_def is_ok_iff
  proof (intro allI impI)
    fix rk q assume q: "asked_keys js sm N E rk = Some q"
    obtain kind l i where rk: "rk = (kind, l, i)" by (metis surj_pair)
    show "\<exists>ks. q = Inr ks"
    proof (cases kind)
      case OnNode
      with q obtain n where n: "N i = Some n" "l \<in> set (nr_labels n)" "q = node_keys_required js i l (nr_properties n) sm"
        unfolding rk OnNode required_node by blast
      then show ?thesis using node_met [OF n(1,2)] node_keys_ok [of js i l "nr_properties n" sm] by blast
    next
      case OnRelationship
      with q obtain e where e: "E i = Some e" "er_edge_type e = l"
        "q = edge_keys_required js i l (er_start_node e) (er_end_node e) (er_properties e) sm"
        unfolding rk OnRelationship required_edge by blast
      then show ?thesis using edge_met [OF e(1)]
          edge_keys_ok [of js i l "er_start_node e" "er_end_node e" "er_properties e" sm] by blast
    qed
  qed
  show "keys_disjoint (registered js sm N E)" unfolding keys_disjoint_def registered_iff
  proof (intro allI impI)
    fix rk ks rk' ks' k
    assume R: "asked_keys js sm N E rk = Some (Inr ks)" "asked_keys js sm N E rk' = Some (Inr ks')" "bs_has k ks" "bs_has k ks'"
    obtain kind l i where rk: "rk = (kind, l, i)" by (metis surj_pair)
    obtain kind' l' j where rk': "rk' = (kind', l', j)" by (metis surj_pair)
    note fits = required_fits [OF R(1,3)] required_fits [OF R(2,4)]
    then have l: "l' = l" and kind: "kind' = kind" unfolding key_fits_def rk rk' by (cases kind; cases kind'; simp)+
    have "i = j"
    proof (cases kind)
      case OnNode
      from R(1) obtain n where n: "N i = Some n" "l \<in> set (nr_labels n)" "node_keys_required js i l (nr_properties n) sm = Inr ks"
        unfolding rk OnNode required_node_Inr by blast
      from R(2) obtain m where m: "N j = Some m" "l \<in> set (nr_labels m)" "node_keys_required js j l (nr_properties m) sm = Inr ks'"
        unfolding rk' kind l OnNode required_node_Inr by blast
      obtain r where r: "r \<in> rules sm" "rule_covers OnNode r i l" "key_asked OnNode js node_scope l (nr_properties n) r k"
        using R(3) unfolding node_keys_has [OF n(3)] by blast
      obtain r' where r': "r' \<in> rules sm" "rule_covers OnNode r' j l" "key_asked OnNode js node_scope l (nr_properties m) r' k"
        using R(4) unfolding node_keys_has [OF m(3)] by blast
      from r(3) r'(3) have "node_scope (fst r) = node_scope (fst r')" and ps: "co_properties (snd r') = co_properties (snd r)"
        and u: "asks_unique OnNode (snd r)" and vs: "value_texts js (nr_properties n) (co_properties (snd r)) \<noteq> None"
          "value_texts js (nr_properties n) (co_properties (snd r)) = value_texts js (nr_properties m) (co_properties (snd r))"
        unfolding key_asked_def by auto
      then have ns: "fst r = fst r'" using node_scope_inj by blast
      have "rule_covers OnNode r j l" using r(2) r'(2) ns by (simp add: rule_covers_def)
      then show ?thesis using rules r(1,2) n(1,2) m(1,2) u vs unfolding rules_hold_def node_rule_holds_def Let_def by blast
    next
      case OnRelationship
      from R(1) obtain e where e: "E i = Some e" "er_edge_type e = l"
        "edge_keys_required js i l (er_start_node e) (er_end_node e) (er_properties e) sm = Inr ks"
        unfolding rk OnRelationship required_edge_Inr by blast
      from R(2) obtain f where f: "E j = Some f" "er_edge_type f = l"
        "edge_keys_required js j l (er_start_node f) (er_end_node f) (er_properties f) sm = Inr ks'"
        unfolding rk' kind l OnRelationship required_edge_Inr by blast
      obtain r where r: "r \<in> rules sm" "rule_covers OnRelationship r i l"
        "key_asked OnRelationship js (edge_scope (er_start_node e) (er_end_node e)) l (er_properties e) r k"
        using R(3) unfolding edge_keys_has [OF e(3)] by blast
      obtain r' where r': "r' \<in> rules sm" "rule_covers OnRelationship r' j l"
        "key_asked OnRelationship js (edge_scope (er_start_node f) (er_end_node f)) l (er_properties f) r' k"
        using R(4) unfolding edge_keys_has [OF f(3)] by blast
      from r(3) r'(3) have scope: "edge_scope (er_start_node e) (er_end_node e) (fst r) = edge_scope (er_start_node f) (er_end_node f) (fst r')"
        and u: "asks_unique OnRelationship (snd r)" and vs: "value_texts js (er_properties e) (co_properties (snd r)) \<noteq> None"
          "value_texts js (er_properties e) (co_properties (snd r)) = value_texts js (er_properties f) (co_properties (snd r))"
        unfolding key_asked_def by auto
      have ns: "fst r = fst r'"
        and joined: "er_start_node e @ '':'' @ er_end_node e = er_start_node f @ '':'' @ er_end_node f"
        using edge_scope_inj [OF scope covers_colon [OF r(2)] covers_colon [OF r'(2)]] by blast+
      have start: "er_start_node e = er_start_node f"
        using ends joined ranI [of E, OF e(1)] ranI [of E, OF f(1)] unfolding clear_ends_def by blast
      with joined have "er_end_node e = er_end_node f" by simp
      moreover have "rule_covers OnRelationship r i (er_edge_type e)" "rule_covers OnRelationship r j (er_edge_type f)"
        using r(2) r'(2) ns e(2) f(2) by (simp_all add: rule_covers_def)
      moreover have "edge_rule_holds js r E" using rules r(1) unfolding rules_hold_def by blast
      ultimately show ?thesis using e(1) f(1) u vs start unfolding edge_rule_holds_def Let_def by blast
    qed
    then show "rk = rk'" by (simp add: rk rk' kind l)
  qed
qed

lemma rules_iff_keys:
  "clear_ends E \<Longrightarrow> rules_hold js (rules sm) N E \<longleftrightarrow> all_accepted js sm N E \<and> keys_disjoint (registered js sm N E)"
  using rules_of_keys keys_of_rules by blast

subsection \<open>Loops over records\<close>

lemma attempt_rules: "attempt rk req sm = Inr sm' \<Longrightarrow> rules_of sm' = rules_of sm"
  unfolding attempt_def result_bind_Inr_iff using claim_Inr(3) by blast

lemma attempts_rules: "fold_result (\<lambda>rk. attempt rk (g rk)) rks sm = Inr sm' \<Longrightarrow> rules_of sm' = rules_of sm"
proof (induction rks arbitrary: sm)
  case (Cons rk rks)
  then obtain sm1 where "attempt rk (g rk) sm = Inr sm1" "fold_result (\<lambda>rk. attempt rk (g rk)) rks sm1 = Inr sm'"
    by (auto simp: result_bind_Inr_iff)
  then show ?case using Cons.IH attempt_rules by metis
qed simp

abbreviation asked :: "('n json \<Rightarrow> string) \<Rightarrow> 'n schema_manager \<Rightarrow> (string \<rightharpoonup> 'n json node_record) \<Rightarrow> (string \<rightharpoonup> 'n json edge_record) \<Rightarrow>
    record_key \<Rightarrow> storage_error + unique_key bset" where
  "asked js sm N E rk \<equiv> the (asked_keys js sm N E rk)"

definition node_entries :: "'j node_record \<Rightarrow> record_key list" where
  "node_entries n = map (\<lambda>l. (OnNode, l, nr_id n)) (nr_labels n)"

definition edge_entry :: "'j edge_record \<Rightarrow> record_key" where
  "edge_entry e = (OnRelationship, er_edge_type e, er_id e)"

lemma validate_node_attempt:
  assumes "rules_of sm = rules_of sm0" "N (nr_id n) = Some n" "l \<in> set (nr_labels n)"
  shows "validate_node js (nr_id n) l (nr_properties n) sm = attempt (OnNode, l, nr_id n) (asked js sm0 N E (OnNode, l, nr_id n)) sm"
proof -
  have "asked_keys js sm0 N E (OnNode, l, nr_id n) = Some (node_keys_required js (nr_id n) l (nr_properties n) sm)"
    unfolding required_node using assms by (metis keys_required_cong(1))
  then show ?thesis by (simp add: validate_node_def attempt_def)
qed

lemma register_edge_attempt:
  assumes "rules_of sm = rules_of sm0" "E (er_id e) = Some e"
  shows "register_edge js e sm = attempt (edge_entry e) (asked js sm0 N E (edge_entry e)) sm"
proof -
  have "asked_keys js sm0 N E (edge_entry e) =
      Some (edge_keys_required js (er_id e) (er_edge_type e) (er_start_node e) (er_end_node e) (er_properties e) sm)"
    unfolding edge_entry_def required_edge using assms by (metis keys_required_cong(2))
  then show ?thesis by (simp add: register_edge_def validate_edge_def attempt_def edge_entry_def)
qed

lemma register_node_attempts:
  assumes "rules_of sm = rules_of sm0" "N (nr_id n) = Some n"
  shows "register_node js n sm = fold_result (\<lambda>rk. attempt rk (asked js sm0 N E rk)) (node_entries n) sm"
proof -
  have "fold_result (\<lambda>l. validate_node js (nr_id n) l (nr_properties n)) ls sm =
      fold_result (\<lambda>rk. attempt rk (asked js sm0 N E rk)) (map (\<lambda>l. (OnNode, l, nr_id n)) ls) sm"
    if "set ls \<subseteq> set (nr_labels n)" for ls using that assms(1)
  proof (induction ls arbitrary: sm)
    case (Cons l ls)
    note v = validate_node_attempt [where N = N and n = n and E = E and l = l and js = js, OF Cons.prems(2) assms(2)]
    show ?case
    proof (cases "validate_node js (nr_id n) l (nr_properties n) sm")
      case (Inl e)
      then have "attempt (OnNode, l, nr_id n) (asked js sm0 N E (OnNode, l, nr_id n)) sm = Inl e" using v Cons.prems(1) by simp
      then show ?thesis by (simp add: Inl)
    next
      case (Inr sm1)
      then have "attempt (OnNode, l, nr_id n) (asked js sm0 N E (OnNode, l, nr_id n)) sm = Inr sm1" using v Cons.prems(1) by simp
      moreover from this have "rules_of sm1 = rules_of sm" by (rule attempt_rules)
      ultimately show ?thesis using Inr Cons by simp
    qed
  qed simp
  then show ?thesis by (simp add: register_node_def node_entries_def)
qed

lemma register_nodes_attempts:
  assumes "rules_of sm = rules_of sm0" "\<forall>n\<in>set ns. N (nr_id n) = Some n"
  shows "fold_result (register_node js) ns sm = fold_result (\<lambda>rk. attempt rk (asked js sm0 N E rk)) (concat (map node_entries ns)) sm"
  using assms
proof (induction ns arbitrary: sm)
  case (Cons n ns)
  have eq: "register_node js n sm = fold_result (\<lambda>rk. attempt rk (asked js sm0 N E rk)) (node_entries n) sm"
    by (rule register_node_attempts) (use Cons.prems in simp_all)
  show ?case
  proof (cases "register_node js n sm")
    case (Inl e)
    then show ?thesis using eq by (simp add: fold_result_append)
  next
    case (Inr sm1)
    then have "rules_of sm1 = rules_of sm0" using attempts_rules [of "asked js sm0 N E" "node_entries n" sm sm1] eq Cons.prems(1) by simp
    then show ?thesis using Inr eq Cons by (simp add: fold_result_append)
  qed
qed simp

lemma register_edges_attempts:
  assumes "rules_of sm = rules_of sm0" "\<forall>e\<in>set es. E (er_id e) = Some e"
  shows "fold_result (register_edge js) es sm = fold_result (\<lambda>rk. attempt rk (asked js sm0 N E rk)) (map edge_entry es) sm"
  using assms
proof (induction es arbitrary: sm)
  case (Cons e es)
  have eq: "register_edge js e sm = attempt (edge_entry e) (asked js sm0 N E (edge_entry e)) sm"
    by (rule register_edge_attempt) (use Cons.prems in simp_all)
  show ?case
  proof (cases "register_edge js e sm")
    case (Inr sm1)
    then have "rules_of sm1 = rules_of sm0" using attempt_rules [of "edge_entry e" _ sm sm1] eq Cons.prems(1) by simp
    then show ?thesis using Inr eq Cons by simp
  qed (use eq in simp)
qed simp

end
