(* ===== verification/Schema_Store.thy ===== *)
theory Schema_Store
  imports Schema_Tables
begin

text \<open>
  The schema manager of crates/storage/src/lib.rs beside the tables: rebuilding it from them, and the
  update for one changed record, which succeeds exactly when the changed tables satisfy the rules and
  otherwise rebuilds what was there.
\<close>

subsection \<open>Loading constraints\<close>

definition by_name :: "'n constraint list \<Rightarrow> (string, 'n constraint) btree" where
  "by_name cs = bt_extend [] (map (\<lambda>c. (co_name c, c)) cs)"

definition named :: "(string, 'n constraint) btree \<Rightarrow> bool" where
  "named C \<longleftrightarrow> bt_wf C \<and> (\<forall>e\<in>set C. co_name (snd e) = fst e)"

definition named_in :: "(string \<times> string, 'n constraint) btree \<Rightarrow> bool" where
  "named_in M \<longleftrightarrow> bt_wf M \<and> (\<forall>e\<in>set M. co_name (snd e) = snd (fst e))"

definition base_manager :: "(string, 'n constraint) btree \<Rightarrow> (string \<times> string, 'n constraint) btree \<Rightarrow> 'n schema_manager" where
  "base_manager C M = \<lparr>sm_constraints = C, sm_namespace_constraints = M, sm_owners = Map.empty, sm_keys = Map.empty\<rparr>"

lemma rules_of_base [simp]: "rules_of (base_manager C M) = (C, M)"
  by (simp add: rules_of_def base_manager_def)

lemma bt_extend_Cons [simp]: "bt_extend m ((k, v) # kvs) = bt_extend (bt_insert k v m) kvs"
  by (simp add: bt_extend_def)

lemma add_constraints:
  "distinct (map co_name cs) \<Longrightarrow> \<forall>c\<in>set cs. bt_get (sm_constraints sm) (co_name c) = None \<Longrightarrow>
     fold_result add_constraint cs sm = Inr (sm\<lparr>sm_constraints := bt_extend (sm_constraints sm) (map (\<lambda>c. (co_name c, c)) cs)\<rparr>)"
proof (induction cs arbitrary: sm)
  case (Cons c cs)
  have "\<forall>d\<in>set cs. co_name d \<noteq> co_name c" using Cons.prems(1) by (simp add: image_iff) metis
  then show ?case using Cons.prems Cons.IH [of "sm\<lparr>sm_constraints := bt_insert (co_name c) c (sm_constraints sm)\<rparr>"]
    by (simp add: add_constraint_def)
qed (simp add: bt_extend_def)

lemma add_namespace_constraints:
  "distinct (map fst M) \<Longrightarrow> \<forall>e\<in>set M. co_name (snd e) = snd (fst e) \<and> bt_get (sm_namespace_constraints sm) (fst e) = None \<Longrightarrow>
     add_namespace_constraints_to_manager M sm = Inr (sm\<lparr>sm_namespace_constraints := bt_extend (sm_namespace_constraints sm) M\<rparr>)"
proof (induction M arbitrary: sm)
  case (Cons e M)
  obtain s n c where e: "e = ((s, n), c)" by (metis surj_pair)
  let ?sm = "sm\<lparr>sm_namespace_constraints := bt_insert (s, n) c (sm_namespace_constraints sm)\<rparr>"
  have "\<forall>x\<in>set M. fst x \<noteq> (s, n)" using Cons.prems(1) by (force simp: e)
  then have "add_namespace_constraints_to_manager M ?sm = Inr (?sm\<lparr>sm_namespace_constraints := bt_extend (sm_namespace_constraints ?sm) M\<rparr>)"
    using Cons.prems by (intro Cons.IH) (auto simp: e)
  then show ?case using Cons.prems(2) by (simp add: e add_namespace_constraints_to_manager_def add_constraint_for_namespace_def)
qed (simp add: add_namespace_constraints_to_manager_def bt_extend_def)

lemma build_from_base:
  assumes "distinct (map co_name cs)" "named_in M"
  shows "build_manager js cs M ns es =
    result_bind (fold_result (register_node js) ns (base_manager (by_name cs) M)) (fold_result (register_edge js) es)"
proof -
  have "distinct (map fst M)" using assms(2) bt_wf_distinct by (auto simp: named_in_def)
  then have "add_namespace_constraints_to_manager M (base_manager (by_name cs) []) = Inr (base_manager (by_name cs) M)"
    using assms(2) bt_get_extend_empty [of M] by (subst add_namespace_constraints) (auto simp: named_in_def base_manager_def)
  moreover have "fold_result add_constraint cs schema_manager_new = Inr (base_manager (by_name cs) [])"
    using add_constraints [OF assms(1), of schema_manager_new] by (simp add: schema_manager_new_def base_manager_def by_name_def)
  ultimately show ?thesis by (simp add: build_manager_def)
qed

subsection \<open>Building from all records\<close>

definition lists :: "('r \<Rightarrow> string) \<Rightarrow> 'r list \<Rightarrow> (string \<rightharpoonup> 'r) \<Rightarrow> bool" where
  "lists rid rs R \<longleftrightarrow> (\<forall>i r. R i = Some r \<longleftrightarrow> r \<in> set rs \<and> rid r = i)"

lemma lists_mem: "lists rid rs R \<Longrightarrow> r \<in> set rs \<Longrightarrow> R (rid r) = Some r"
  by (simp add: lists_def)

lemma all_entries:
  assumes "lists nr_id ns N" "lists er_id es E"
  shows "rk \<in> set (concat (map node_entries ns) @ map edge_entry es) \<longleftrightarrow> (\<exists>q. asked_keys js sm N E rk = Some q)"
proof -
  obtain kind l i where rk: "rk = (kind, l, i)" by (metis surj_pair)
  show ?thesis
  proof (cases kind)
    case OnNode
    have "rk \<in> set (concat (map node_entries ns) @ map edge_entry es) \<longleftrightarrow> (\<exists>n\<in>set ns. nr_id n = i \<and> l \<in> set (nr_labels n))"
      by (auto simp: rk OnNode node_entries_def edge_entry_def)
    also have "\<dots> \<longleftrightarrow> (\<exists>n. N i = Some n \<and> l \<in> set (nr_labels n))" using assms(1) by (auto simp: lists_def)
    finally show ?thesis unfolding rk OnNode required_node by simp
  next
    case OnRelationship
    have "rk \<in> set (concat (map node_entries ns) @ map edge_entry es) \<longleftrightarrow> (\<exists>e\<in>set es. er_id e = i \<and> er_edge_type e = l)"
      by (auto simp: rk OnRelationship node_entries_def edge_entry_def)
    also have "\<dots> \<longleftrightarrow> (\<exists>e. E i = Some e \<and> er_edge_type e = l)" using assms(2) by (auto simp: lists_def)
    finally show ?thesis unfolding rk OnRelationship required_edge by simp
  qed
qed

lemma register_all_attempts:
  assumes "lists nr_id ns N" "lists er_id es E"
  shows "result_bind (fold_result (register_node js) ns sm) (fold_result (register_edge js) es) =
    fold_result (\<lambda>rk. attempt rk (asked js sm N E rk)) (concat (map node_entries ns) @ map edge_entry es) sm"
proof -
  have nodes: "fold_result (register_node js) ns sm = fold_result (\<lambda>rk. attempt rk (asked js sm N E rk)) (concat (map node_entries ns)) sm"
    by (rule register_nodes_attempts) (use lists_mem [OF assms(1)] in simp_all)
  show ?thesis
  proof (cases "fold_result (register_node js) ns sm")
    case (Inr sm1)
    have "fold_result (register_edge js) es sm1 = fold_result (\<lambda>rk. attempt rk (asked js sm N E rk)) (map edge_entry es) sm1"
      by (rule register_edges_attempts)
        (use lists_mem [OF assms(2)] attempts_rules [of "asked js sm N E" "concat (map node_entries ns)" sm sm1] nodes Inr in simp_all)
    then show ?thesis using Inr nodes by (simp add: fold_result_append)
  qed (use nodes in \<open>simp add: fold_result_append\<close>)
qed

lemma holds_base: "manager_holds Map.empty (base_manager C M)"
  by (simp add: manager_holds_def base_manager_def)

lemma register_all:
  fixes js :: "'n json \<Rightarrow> string"
  assumes lists: "lists nr_id ns N" "lists er_id es E"
    and run_def: "run = result_bind (fold_result (register_node js) ns (base_manager C M)) (fold_result (register_edge js) es)"
  shows "is_ok run \<longleftrightarrow> all_accepted js (base_manager C M) N E \<and> keys_disjoint (registered js (base_manager C M) N E)"
    and "run = Inr sm \<Longrightarrow> tracks js sm N E \<and> rules_of sm = (C, M)"
proof -
  let ?b = "base_manager C M" and ?rks = "concat (map node_entries ns) @ map edge_entry es"
  let ?g = "asked js ?b N E" and ?R = "registered js ?b N E"
  have run: "run = fold_result (\<lambda>rk. attempt rk (?g rk)) ?rks ?b" unfolding run_def by (rule register_all_attempts [OF lists])
  note entries = all_entries [OF lists, of _ js ?b]
  have fits: "key_fits rk k" if "rk \<in> set ?rks" "?g rk = Inr ks" "bs_has k ks" for rk ks k
  proof -
    from that(1) obtain q where "asked_keys js ?b N E rk = Some q" using entries by blast
    then show ?thesis using that(2,3) required_fits [of js ?b N E rk ks k] by simp
  qed
  have good: "all_accepted js ?b N E \<and> manager_holds ?R sm' \<and> rules_of sm' = (C, M)" if sm': "run = Inr sm'" for sm'
  proof -
    have "manager_holds (with_keys ?g ?rks Map.empty) sm' \<and> rules_of sm' = rules_of ?b \<and> (\<forall>rk\<in>set ?rks. is_ok (?g rk))"
      by (rule attempts_hold [OF sm' [unfolded run] holds_base]) (rule fits)
    note h = conjunct1 [OF this] conjunct1 [OF conjunct2 [OF this]] conjunct2 [OF conjunct2 [OF this]]
    have acc: "all_accepted js ?b N E" unfolding all_accepted_def
    proof (intro allI impI)
      fix rk q assume q: "asked_keys js ?b N E rk = Some q"
      then have "rk \<in> set ?rks" using entries by blast
      then show "is_ok q" using h(3) q by force
    qed
    have "with_keys ?g ?rks Map.empty rk = ?R rk" for rk
    proof (cases "asked_keys js ?b N E rk")
      case None
      then have "rk \<notin> set ?rks" using entries by simp
      then show ?thesis using None by (simp add: with_keys_def registered_def)
    next
      case (Some q)
      then have "rk \<in> set ?rks" "is_ok q" using entries acc unfolding all_accepted_def by blast+
      then show ?thesis using Some by (auto simp: with_keys_def registered_def is_ok_iff)
    qed
    then have "with_keys ?g ?rks Map.empty = ?R" by (rule ext)
    then show ?thesis using h(1,2) acc by simp
  qed
  show "run = Inr sm \<Longrightarrow> tracks js sm N E \<and> rules_of sm = (C, M)"
    using good [of sm] registered_cong [of sm ?b] all_accepted_cong [of sm ?b] unfolding tracks_def by simp
  show "is_ok run \<longleftrightarrow> all_accepted js ?b N E \<and> keys_disjoint ?R"
  proof
    assume "is_ok run"
    then show "all_accepted js ?b N E \<and> keys_disjoint ?R" using good holds_disjoint unfolding is_ok_iff by blast
  next
    assume a: "all_accepted js ?b N E \<and> keys_disjoint ?R"
    have "\<exists>ks. ?g rk = Inr ks \<and> ?R rk = Some ks" if "rk \<in> set ?rks" for rk
    proof -
      from that obtain q where q: "asked_keys js ?b N E rk = Some q" using entries by blast
      then obtain ks where "q = Inr ks" using a unfolding all_accepted_def is_ok_iff by blast
      then show ?thesis using q by (simp add: registered_iff)
    qed
    note keys = this
    have "\<exists>sm'. fold_result (\<lambda>rk. attempt rk (?g rk)) ?rks ?b = Inr sm'"
    proof (rule attempts_succeed [where F = ?R])
      show "compatible Map.empty ?R" by (simp add: compatible_def)
    qed (use holds_base a keys fits in blast)+
    then show "is_ok run" unfolding run is_ok_iff by blast
  qed
qed

end
