(* ===== verification/Schema_Update.thy ===== *)
theory Schema_Update
  imports Schema_Store
begin

text \<open>
  The update of the schema manager for one changed record, \<open>apply_node_constraint_update\<close> and
  \<open>apply_edge_constraint_update\<close> of crates/storage/src/lib.rs: it succeeds exactly when the changed
  tables are accepted, and then the manager tracks them.
\<close>

subsection \<open>Entries of one record\<close>

lemma releases_hold:
  "manager_holds R sm \<Longrightarrow>
     manager_holds (\<lambda>rk. if rk \<in> set olds then None else R rk) (fold release olds sm) \<and> rules_of (fold release olds sm) = rules_of sm"
proof (induction olds arbitrary: R sm)
  case (Cons rk olds)
  have "manager_holds (R(rk := None)) (release rk sm)" by (rule release_holds [OF Cons.prems])
  from Cons.IH [OF this] have
    "manager_holds (\<lambda>x. if x \<in> set olds then None else (R(rk := None)) x) (fold release (rk # olds) sm) \<and>
      rules_of (fold release (rk # olds) sm) = rules_of sm" by simp
  moreover have "(\<lambda>x. if x \<in> set olds then None else (R(rk := None)) x) = (\<lambda>x. if x \<in> set (rk # olds) then None else R x)"
    by (rule ext) simp
  ultimately show ?case by simp
qed simp

lemma update_entries:
  assumes h: "manager_holds R sm"
    and outside: "\<And>rk. \<not> A rk \<Longrightarrow> F rk = R rk"
    and inside: "\<And>rk. A rk \<Longrightarrow> F rk = (if rk \<in> set rks then (case g rk of Inr ks \<Rightarrow> Some ks | Inl _ \<Rightarrow> None) else None)"
    and entries: "\<And>rk. rk \<in> set rks \<Longrightarrow> A rk" "\<And>rk. rk \<in> set olds \<longleftrightarrow> A rk \<and> R rk \<noteq> None \<and> rk \<notin> set rks"
    and one: "\<And>rk rk'. A rk \<Longrightarrow> A rk' \<Longrightarrow> record_of rk = record_of rk'"
    and fits: "\<And>rk ks k. rk \<in> set rks \<Longrightarrow> g rk = Inr ks \<Longrightarrow> bs_has k ks \<Longrightarrow> key_fits rk k"
  shows "fold_result (\<lambda>rk. attempt rk (g rk)) rks sm = Inr sm1 \<Longrightarrow>
      manager_holds F (fold release olds sm1) \<and> rules_of (fold release olds sm1) = rules_of sm \<and> (\<forall>rk\<in>set rks. is_ok (g rk))"
    and "\<forall>rk\<in>set rks. is_ok (g rk) \<Longrightarrow> keys_disjoint F \<Longrightarrow> \<exists>sm1. fold_result (\<lambda>rk. attempt rk (g rk)) rks sm = Inr sm1"
proof -
  assume run: "fold_result (\<lambda>rk. attempt rk (g rk)) rks sm = Inr sm1"
  have "manager_holds (with_keys g rks R) sm1 \<and> rules_of sm1 = rules_of sm \<and> (\<forall>rk\<in>set rks. is_ok (g rk))"
    by (rule attempts_hold [OF run h]) (rule fits)
  note done1 = conjunct1 [OF this] conjunct1 [OF conjunct2 [OF this]] conjunct2 [OF conjunct2 [OF this]]
  have "(\<lambda>rk. if rk \<in> set olds then None else with_keys g rks R rk) = F"
  proof (rule ext)
    fix rk
    show "(if rk \<in> set olds then None else with_keys g rks R rk) = F rk"
    proof (cases "rk \<in> set rks")
      case True
      then have "is_ok (g rk)" "rk \<notin> set olds" "A rk" using done1(3) entries by blast+
      then show ?thesis using True inside [of rk] by (auto simp: with_keys_def is_ok_iff)
    next
      case False
      then show ?thesis using inside [of rk] outside [of rk] entries(2) [of rk]
        by (cases "A rk"; cases "R rk") (simp_all add: with_keys_def)
    qed
  qed
  then show "manager_holds F (fold release olds sm1) \<and> rules_of (fold release olds sm1) = rules_of sm \<and> (\<forall>rk\<in>set rks. is_ok (g rk))"
    using releases_hold [OF done1(1), of olds] done1(2,3) by simp
next
  assume ok: "\<forall>rk\<in>set rks. is_ok (g rk)" and dis: "keys_disjoint F"
  show "\<exists>sm1. fold_result (\<lambda>rk. attempt rk (g rk)) rks sm = Inr sm1"
  proof (rule attempts_succeed [OF h _ dis])
    show "compatible R F" unfolding compatible_def
    proof (intro allI impI)
      fix rk ks rk' ks' k
      assume a: "R rk = Some ks" "F rk' = Some ks'" "bs_has k ks" "bs_has k ks'"
      show "record_of rk = record_of rk'"
      proof (cases "A rk \<and> A rk'")
        case False
        then have "F rk = Some ks \<or> R rk' = Some ks'" using a(1,2) outside [of rk] outside [of rk'] by auto
        then have "rk = rk'" using a dis holds_disjoint [OF h] unfolding keys_disjoint_def by blast
        then show ?thesis by simp
      qed (use one in blast)
    qed
    show "\<exists>ks. g rk = Inr ks \<and> F rk = Some ks" if "rk \<in> set rks" for rk
      using that ok inside [OF entries(1) [OF that]] by (auto simp: is_ok_iff)
  qed (rule fits)
qed

lemma required_fits_ask:
  assumes "asked_keys js sm N E rk \<noteq> None" "asked js sm N E rk = Inr ks" "bs_has k ks" shows "key_fits rk k"
  using assms required_fits [of js sm N E rk ks k] by auto

lemma update_core:
  assumes t: "tracks js sm N E"
    and outside: "\<And>rk. \<not> A rk \<Longrightarrow> asked_keys js sm N' E' rk = asked_keys js sm N E rk"
    and inside: "\<And>rk. A rk \<Longrightarrow> asked_keys js sm N' E' rk \<noteq> None \<longleftrightarrow> rk \<in> set rks"
    and entries: "\<And>rk. rk \<in> set rks \<Longrightarrow> A rk"
    and olds: "\<And>rk. rk \<in> set olds \<longleftrightarrow> A rk \<and> asked_keys js sm N E rk \<noteq> None \<and> rk \<notin> set rks"
    and one: "\<And>rk rk'. A rk \<Longrightarrow> A rk' \<Longrightarrow> record_of rk = record_of rk'"
    and run_def: "run = fold_result (\<lambda>rk. attempt rk (asked js sm N' E' rk)) rks sm"
  shows "is_ok run \<longleftrightarrow> all_accepted js sm N' E' \<and> keys_disjoint (registered js sm N' E')"
    and "run = Inr sm1 \<Longrightarrow> tracks js (fold release olds sm1) N' E' \<and> rules_of (fold release olds sm1) = rules_of sm"
proof -
  let ?R = "registered js sm N E" and ?F = "registered js sm N' E'" and ?g = "asked js sm N' E'"
  have h: "manager_holds ?R sm" and acc: "all_accepted js sm N E" using t unfolding tracks_def by blast+
  have regs: "?F rk = ?R rk" if "\<not> A rk" for rk using outside [OF that] by (simp add: registered_def)
  have F: "?F rk = (if rk \<in> set rks then (case ?g rk of Inr ks \<Rightarrow> Some ks | Inl _ \<Rightarrow> None) else None)" if "A rk" for rk
    using inside [OF that] by (auto simp: registered_def split: option.split sum.split)
  have fits: "key_fits rk k" if "rk \<in> set rks" "?g rk = Inr ks" "bs_has k ks" for rk ks k
    using required_fits_ask [of js sm N' E' rk ks k] inside [of rk] entries that by blast
  have "?R rk \<noteq> None \<longleftrightarrow> asked_keys js sm N E rk \<noteq> None" for rk
    using acc by (auto simp: registered_def all_accepted_def is_ok_iff split: option.split sum.split)
  then have olds': "rk \<in> set olds \<longleftrightarrow> A rk \<and> ?R rk \<noteq> None \<and> rk \<notin> set rks" for rk using olds [of rk] by simp
  note upd = update_entries [where A = A and F = ?F and g = ?g and rks = rks and olds = olds, OF h regs F entries olds' one fits]
  have done1: "manager_holds ?F (fold release olds sm1) \<and> rules_of (fold release olds sm1) = rules_of sm \<and> (\<forall>rk\<in>set rks. is_ok (?g rk))"
    if "run = Inr sm1" for sm1
    by (rule upd(1)) (use that run_def in auto)
  have accepted: "all_accepted js sm N' E' \<longleftrightarrow> (\<forall>rk\<in>set rks. is_ok (?g rk))"
  proof
    assume a: "all_accepted js sm N' E'"
    show "\<forall>rk\<in>set rks. is_ok (?g rk)"
    proof
      fix rk assume "rk \<in> set rks"
      then obtain q where "asked_keys js sm N' E' rk = Some q" using inside [of rk] entries by blast
      then show "is_ok (?g rk)" using a unfolding all_accepted_def by simp
    qed
  next
    assume a: "\<forall>rk\<in>set rks. is_ok (?g rk)"
    show "all_accepted js sm N' E'" unfolding all_accepted_def
    proof (intro allI impI)
      fix rk q assume q: "asked_keys js sm N' E' rk = Some q"
      show "is_ok q"
      proof (cases "A rk")
        case True
        then have "rk \<in> set rks" using inside [OF True] q by simp
        then show ?thesis using a q by force
      next
        case False
        then show ?thesis using acc q outside [OF False] unfolding all_accepted_def by simp
      qed
    qed
  qed
  show "is_ok run \<longleftrightarrow> all_accepted js sm N' E' \<and> keys_disjoint ?F"
  proof
    assume "is_ok run"
    then obtain sm1 where "run = Inr sm1" unfolding is_ok_iff ..
    from done1 [OF this] show "all_accepted js sm N' E' \<and> keys_disjoint ?F" using accepted holds_disjoint by blast
  next
    assume a: "all_accepted js sm N' E' \<and> keys_disjoint ?F"
    have "\<exists>sm1. fold_result (\<lambda>rk. attempt rk (?g rk)) rks sm = Inr sm1" by (rule upd(2)) (use a accepted in auto)
    then show "is_ok run" unfolding is_ok_iff run_def .
  qed
  show "run = Inr sm1 \<Longrightarrow> tracks js (fold release olds sm1) N' E' \<and> rules_of (fold release olds sm1) = rules_of sm"
    using done1 [of sm1] accepted registered_cong [of "fold release olds sm1" sm] all_accepted_cong [of "fold release olds sm1" sm]
    unfolding tracks_def by simp
qed

subsection \<open>Loops that stop\<close>

lemma fold_stop_Inr: "fold_result f xs s = Inr s' \<Longrightarrow> fold_stop (\<lambda>x. stateful (f x)) xs s = (None, s')"
proof (induction xs arbitrary: s)
  case (Cons x xs)
  then show ?case by (cases "f x s") (simp_all add: stateful_def)
qed simp

lemma fold_stop_Inl: "fold_result f xs s = Inl e \<Longrightarrow> \<exists>s'. fold_stop (\<lambda>x. stateful (f x)) xs s = (Some e, s')"
proof (induction xs arbitrary: s)
  case (Cons x xs)
  then show ?case by (cases "f x s") (simp_all add: stateful_def)
qed simp

lemma fold_remove_labels:
  "fold (\<lambda>label sm. if label \<in> L then sm else sm_remove_node i label sm) ls sm =
     fold release (map (\<lambda>l. (OnNode, l, i)) (filter (\<lambda>l. l \<notin> L) ls)) sm"
  by (induction ls arbitrary: sm) (simp_all add: sm_remove_node_def)

subsection \<open>One node\<close>

text \<open>What an update does: it accepts the new tables, or it fails and rebuilds.\<close>

definition update_ok :: "('n json \<Rightarrow> string) \<Rightarrow> (storage_error option \<times> 'n schema_store) \<Rightarrow> 'n schema_store \<Rightarrow>
    (string \<rightharpoonup> 'n json node_record) \<Rightarrow> (string \<rightharpoonup> 'n json edge_record) \<Rightarrow> bool" where
  "update_ok js r st N E \<longleftrightarrow>
     (if all_accepted js (ss_manager st) N E \<and> keys_disjoint (registered js (ss_manager st) N E)
      then \<exists>sm. r = (None, st\<lparr>ss_manager := sm\<rparr>) \<and> tracks js sm N E \<and> rules_of sm = rules_of (ss_manager st)
      else \<exists>e sm. r = or_rebuild js (Some e, st\<lparr>ss_manager := sm\<rparr>))"

lemma update_okI:
  assumes "is_ok run \<longleftrightarrow> all_accepted js (ss_manager st) N E \<and> keys_disjoint (registered js (ss_manager st) N E)"
    and "\<And>sm1. run = Inr sm1 \<Longrightarrow> \<exists>sm. r = (None, st\<lparr>ss_manager := sm\<rparr>) \<and> tracks js sm N E \<and> rules_of sm = rules_of (ss_manager st)"
    and "\<And>e. run = Inl e \<Longrightarrow> \<exists>e sm. r = or_rebuild js (Some e, st\<lparr>ss_manager := sm\<rparr>)"
  shows "update_ok js r st N E"
  using assms by (cases run) (auto simp: update_ok_def)

lemma node_update:
  assumes t: "tracks js (ss_manager st) N E" and ids: "\<And>n. new = Some n \<Longrightarrow> nr_id n = i" "\<And>n. N i = Some n \<Longrightarrow> nr_id n = i"
  shows "update_ok js (apply_node_constraint_update js (N i, new) st) st (N(i := new)) E"
proof -
  let ?sm = "ss_manager st" and ?N = "N(i := new)"
  let ?A = "\<lambda>rk. fst rk = OnNode \<and> record_of rk = i"
  define rks where "rks = (case new of None \<Rightarrow> [] | Some n \<Rightarrow> node_entries n)"
  define olds where "olds = map (\<lambda>l. (OnNode, l, i)) (filter (\<lambda>l. l \<notin> set (node_labels new)) (node_labels (N i)))"
  let ?run = "fold_result (\<lambda>rk. attempt rk (asked js ?sm ?N E rk)) rks ?sm"
  have rks: "rk \<in> set rks \<longleftrightarrow> ?A rk \<and> fst (snd rk) \<in> set (node_labels new)" for rk
    using ids(1) by (cases rk; cases new) (auto simp: rks_def node_entries_def node_labels_def)
  have outside: "asked_keys js ?sm ?N E rk = asked_keys js ?sm N E rk" if "\<not> ?A rk" for rk
    using that by (cases rk; cases "fst rk") (auto simp: asked_keys_def)
  have asked: "asked_keys js ?sm M E rk \<noteq> None \<longleftrightarrow> fst (snd rk) \<in> set (node_labels (M i))" if "?A rk" for rk M
    using that by (cases rk; cases "M i") (auto simp: asked_keys_def node_labels_def)
  have inside: "asked_keys js ?sm ?N E rk \<noteq> None \<longleftrightarrow> rk \<in> set rks" if "?A rk" for rk
    using asked [OF that, of ?N] that unfolding rks by simp
  have olds: "rk \<in> set olds \<longleftrightarrow> ?A rk \<and> asked_keys js ?sm N E rk \<noteq> None \<and> rk \<notin> set rks" for rk
  proof -
    have "rk \<in> set olds \<longleftrightarrow> ?A rk \<and> fst (snd rk) \<in> set (node_labels (N i)) \<and> fst (snd rk) \<notin> set (node_labels new)"
      by (cases rk) (auto simp: olds_def)
    then show ?thesis using asked [of rk N] rks [of rk] by blast
  qed
  note core = update_core [where A = ?A and N' = ?N and E' = E and rks = rks and olds = olds and run = ?run, OF t outside inside _ olds _ refl]
  have run: "(case new of None \<Rightarrow> Inr ?sm | Some n \<Rightarrow> register_node js n ?sm) = ?run"
  proof (cases new)
    case (Some n)
    then show ?thesis using register_node_attempts [of ?sm ?sm ?N n js E] ids(1) by (simp add: rks_def)
  qed (simp add: rks_def)
  have remove: "(case N i of None \<Rightarrow> sm
      | Some o' \<Rightarrow> fold (\<lambda>label sm. if label \<in> set (node_labels new) then sm else sm_remove_node (nr_id o') label sm) (nr_labels o') sm) =
      fold release olds sm" for sm
  proof (cases "N i")
    case (Some o')
    show ?thesis unfolding olds_def Some using fold_remove_labels [of "set (node_labels new)" "nr_id o'" "nr_labels o'" sm]
      by (simp add: node_labels_def [of "Some o'"] ids(2) [OF Some, symmetric])
  qed (simp add: olds_def node_labels_def [of None])
  show ?thesis
  proof (rule update_okI [of ?run])
    show "is_ok ?run \<longleftrightarrow> all_accepted js ?sm ?N E \<and> keys_disjoint (registered js ?sm ?N E)" by (rule core(1)) (use rks in auto)
  next
    fix sm1 assume Inr: "?run = Inr sm1"
    have "(case new of None \<Rightarrow> (None, ?sm)
        | Some n \<Rightarrow> fold_stop (\<lambda>label. stateful (validate_node js (nr_id n) label (nr_properties n))) (nr_labels n) ?sm) = (None, sm1)"
      using run Inr by (cases new) (simp_all add: register_node_def fold_stop_Inr)
    then have "apply_node_constraint_update js (N i, new) st = (None, st\<lparr>ss_manager := fold release olds sm1\<rparr>)"
      by (simp add: apply_node_constraint_update_def remove or_rebuild_def)
    moreover have "tracks js (fold release olds sm1) ?N E \<and> rules_of (fold release olds sm1) = rules_of ?sm"
      by (rule core(2)) (use rks Inr in auto)
    ultimately show "\<exists>sm. apply_node_constraint_update js (N i, new) st = (None, st\<lparr>ss_manager := sm\<rparr>) \<and> tracks js sm ?N E \<and>
        rules_of sm = rules_of ?sm" by blast
  next
    fix e assume Inl: "?run = Inl e"
    obtain sm1 where "(case new of None \<Rightarrow> (None, ?sm)
        | Some n \<Rightarrow> fold_stop (\<lambda>label. stateful (validate_node js (nr_id n) label (nr_properties n))) (nr_labels n) ?sm) = (Some e, sm1)"
    proof (cases new)
      case (Some n)
      then have "fold_result (\<lambda>label. validate_node js (nr_id n) label (nr_properties n)) (nr_labels n) ?sm = Inl e"
        using run Inl by (simp add: register_node_def)
      from fold_stop_Inl [OF this] that Some show ?thesis by auto
    qed (use run Inl in simp)
    then have "apply_node_constraint_update js (N i, new) st = or_rebuild js (Some e, st\<lparr>ss_manager := sm1\<rparr>)"
      by (simp add: apply_node_constraint_update_def)
    then show "\<exists>e sm. apply_node_constraint_update js (N i, new) st = or_rebuild js (Some e, st\<lparr>ss_manager := sm\<rparr>)" by blast
  qed
qed

subsection \<open>One relationship\<close>

lemma edge_update:
  assumes t: "tracks js (ss_manager st) N E" and ids: "\<And>e. new = Some e \<Longrightarrow> er_id e = i" "\<And>e. E i = Some e \<Longrightarrow> er_id e = i"
  shows "update_ok js (apply_edge_constraint_update js (E i, new) st) st N (E(i := new))"
proof -
  let ?sm = "ss_manager st" and ?E = "E(i := new)"
  let ?A = "\<lambda>rk. fst rk = OnRelationship \<and> record_of rk = i"
  define rks where "rks = (case new of None \<Rightarrow> [] | Some e \<Rightarrow> [edge_entry e])"
  define olds where "olds = (case E i of None \<Rightarrow> []
    | Some o' \<Rightarrow> if (case new of None \<Rightarrow> True | Some e \<Rightarrow> er_edge_type e \<noteq> er_edge_type o') then [edge_entry o'] else [])"
  let ?run = "fold_result (\<lambda>rk. attempt rk (asked js ?sm N ?E rk)) rks ?sm"
  have rks: "rk \<in> set rks \<longleftrightarrow> ?A rk \<and> (\<exists>e. new = Some e \<and> er_edge_type e = fst (snd rk))" for rk
    using ids(1) by (cases rk; cases new) (auto simp: rks_def edge_entry_def)
  have outside: "asked_keys js ?sm N ?E rk = asked_keys js ?sm N E rk" if "\<not> ?A rk" for rk
    using that by (cases rk; cases "fst rk") (auto simp: asked_keys_def)
  have asked: "asked_keys js ?sm N M rk \<noteq> None \<longleftrightarrow> (\<exists>e. M i = Some e \<and> er_edge_type e = fst (snd rk))" if "?A rk" for rk M
    using that by (cases rk; cases "M i") (auto simp: asked_keys_def)
  have inside: "asked_keys js ?sm N ?E rk \<noteq> None \<longleftrightarrow> rk \<in> set rks" if "?A rk" for rk
    using asked [OF that, of ?E] that unfolding rks by simp
  have olds: "rk \<in> set olds \<longleftrightarrow> ?A rk \<and> asked_keys js ?sm N E rk \<noteq> None \<and> rk \<notin> set rks" for rk
  proof -
    have "rk \<in> set olds \<longleftrightarrow> ?A rk \<and> (\<exists>e. E i = Some e \<and> er_edge_type e = fst (snd rk)) \<and> \<not> (\<exists>e. new = Some e \<and> er_edge_type e = fst (snd rk))"
      using ids(2) by (cases rk; cases "E i"; cases new) (auto simp: olds_def edge_entry_def)
    then show ?thesis using asked [of rk E] rks [of rk] by blast
  qed
  note core = update_core [where A = ?A and N' = N and E' = ?E and rks = rks and olds = olds and run = ?run, OF t outside inside _ olds _ refl]
  have run: "(case new of None \<Rightarrow> Inr ?sm | Some e \<Rightarrow> register_edge js e ?sm) = ?run"
  proof (cases new)
    case (Some e)
    have single: "result_bind r (fold_result f []) = r" for f :: "record_key \<Rightarrow> 'a schema_manager \<Rightarrow> storage_error + 'a schema_manager" and r
      by (cases r) simp_all
    from Some show ?thesis using register_edge_attempt [of ?sm ?sm ?E e js N] ids(1)
      by (simp add: rks_def single del: fold_result.simps(1))
  qed (simp add: rks_def)
  have remove: "(case E i of None \<Rightarrow> sm
      | Some o' \<Rightarrow> if (case new of None \<Rightarrow> True | Some e \<Rightarrow> er_edge_type e \<noteq> er_edge_type o')
          then sm_remove_edge (er_id o') (er_edge_type o') sm else sm) = fold release olds sm" for sm
    by (cases "E i") (simp_all add: olds_def sm_remove_edge_def edge_entry_def)
  show ?thesis
  proof (rule update_okI [of ?run])
    show "is_ok ?run \<longleftrightarrow> all_accepted js ?sm N ?E \<and> keys_disjoint (registered js ?sm N ?E)" by (rule core(1)) (use rks in auto)
  next
    fix sm1 assume Inr: "?run = Inr sm1"
    have "(case new of None \<Rightarrow> (None, ?sm) | Some e \<Rightarrow> stateful (register_edge js e) ?sm) = (None, sm1)"
      using run Inr by (cases new) (simp_all add: stateful_def)
    then have "apply_edge_constraint_update js (E i, new) st = (None, st\<lparr>ss_manager := fold release olds sm1\<rparr>)"
      by (simp add: apply_edge_constraint_update_def remove or_rebuild_def)
    moreover have "tracks js (fold release olds sm1) N ?E \<and> rules_of (fold release olds sm1) = rules_of ?sm"
      by (rule core(2)) (use rks Inr in auto)
    ultimately show "\<exists>sm. apply_edge_constraint_update js (E i, new) st = (None, st\<lparr>ss_manager := sm\<rparr>) \<and> tracks js sm N ?E \<and>
        rules_of sm = rules_of ?sm" by blast
  next
    fix e assume Inl: "?run = Inl e"
    have "(case new of None \<Rightarrow> (None, ?sm) | Some e \<Rightarrow> stateful (register_edge js e) ?sm) = (Some e, ?sm)"
      using run Inl by (cases new) (simp_all add: stateful_def)
    then have "apply_edge_constraint_update js (E i, new) st = or_rebuild js (Some e, st\<lparr>ss_manager := ?sm\<rparr>)"
      by (simp add: apply_edge_constraint_update_def)
    then show "\<exists>e sm. apply_edge_constraint_update js (E i, new) st = or_rebuild js (Some e, st\<lparr>ss_manager := sm\<rparr>)" by blast
  qed
qed

end
