(* ===== verification/Schema_Batch.thy ===== *)
theory Schema_Batch
  imports Schema_Update
begin

text \<open>
  Batches of crates/storage/src/lib.rs and the schema manager: rebuilding restores the manager of the
  stored tables, and a batch that is accepted leaves the manager tracking the tables it writes, whatever
  order its changes are visited in.
\<close>

subsection \<open>The invariant\<close>

definition schema_ok :: "('n json \<Rightarrow> string) \<Rightarrow> 'n schema_store \<Rightarrow> bool" where
  "schema_ok js st \<longleftrightarrow> bt_wf (ss_nodes st) \<and> bt_wf (ss_edges st) \<and>
     (\<forall>i n. bt_get (ss_nodes st) i = Some n \<longrightarrow> nr_id n = i) \<and> (\<forall>i e. bt_get (ss_edges st) i = Some e \<longrightarrow> er_id e = i) \<and>
     named (ss_constraints st) \<and> named_in (ss_namespace_constraints st) \<and>
     rules_of (ss_manager st) = (ss_constraints st, ss_namespace_constraints st) \<and>
     tracks js (ss_manager st) (bt_get (ss_nodes st)) (bt_get (ss_edges st))"

lemma schema_ok_new: "schema_ok js schema_store_new"
proof -
  have none: "asked_keys js schema_manager_new (bt_get []) (bt_get []) rk = None" for rk
    by (cases rk; cases "fst rk") (simp_all add: asked_keys_def)
  then show ?thesis
    by (simp add: schema_ok_def schema_store_new_def tracks_def all_accepted_def named_def named_in_def rules_of_def
        manager_holds_def registered_def) (simp add: schema_manager_new_def fun_eq_iff registered_def none)
qed

lemma lists_table:
  assumes "bt_wf m" "\<forall>i r. bt_get m i = Some r \<longrightarrow> rid r = i"
  shows "lists rid (map snd m) (bt_get m)"
proof -
  have "bt_get m i = Some r \<longleftrightarrow> r \<in> set (map snd m) \<and> rid r = i" for i r
  proof
    assume "bt_get m i = Some r"
    then show "r \<in> set (map snd m) \<and> rid r = i" using assms(2) bt_get_Some_iff [OF assms(1)] by force
  next
    assume a: "r \<in> set (map snd m) \<and> rid r = i"
    then obtain j where "(j, r) \<in> set m" by auto
    then have "bt_get m j = Some r" by (simp add: bt_get_Some_iff [OF assms(1)])
    then show "bt_get m i = Some r" using assms(2) a by auto
  qed
  then show ?thesis by (simp add: lists_def)
qed

subsection \<open>Building and rebuilding\<close>

lemma build_ok:
  assumes "distinct (map co_name cs)" "named_in M" "lists nr_id ns N" "lists er_id es E"
  shows "is_ok (build_manager js cs M ns es) \<longleftrightarrow>
      all_accepted js (base_manager (by_name cs) M) N E \<and> keys_disjoint (registered js (base_manager (by_name cs) M) N E)"
    and "build_manager js cs M ns es = Inr sm \<Longrightarrow> tracks js sm N E \<and> rules_of sm = (by_name cs, M)"
  using register_all [OF assms(3,4) build_from_base [OF assms(1,2)]] by blast+

lemma named_list:
  assumes "named C" shows "distinct (map co_name (map snd C))" and "by_name (map snd C) = C"
proof -
  have "map (\<lambda>c. (co_name c, c)) (map snd C) = C" using assms by (induction C) (auto simp: named_def bt_wf_Cons)
  then show "by_name (map snd C) = C" using assms bt_get_extend_empty [of C] by (simp add: by_name_def named_def)
  have names: "map co_name (map snd C) = map fst C" using assms by (auto simp: named_def)
  then show "distinct (map co_name (map snd C))" unfolding names using assms bt_wf_distinct [of C] by (simp add: named_def)
qed

lemma rebuild_same:
  assumes ok: "schema_ok js st" shows "rebuild_schema_manager js (st\<lparr>ss_manager := m\<rparr>) = Inr st"
proof -
  let ?N = "bt_get (ss_nodes st)" and ?E = "bt_get (ss_edges st)" and ?C = "ss_constraints st" and ?M = "ss_namespace_constraints st"
  have parts: "named ?C" "named_in ?M" "lists nr_id (map snd (ss_nodes st)) ?N" "lists er_id (map snd (ss_edges st)) ?E"
    using ok by (simp_all add: schema_ok_def lists_table)
  have t: "tracks js (ss_manager st) ?N ?E" and r: "rules_of (ss_manager st) = (?C, ?M)" using ok by (simp_all add: schema_ok_def)
  note build = build_ok [OF named_list(1) [OF parts(1)] parts(2-4), unfolded named_list(2) [OF parts(1)]]
  have "all_accepted js (base_manager ?C ?M) ?N ?E \<and> keys_disjoint (registered js (base_manager ?C ?M) ?N ?E)"
    using t r registered_cong [of "base_manager ?C ?M" "ss_manager st"] all_accepted_cong [of "base_manager ?C ?M" "ss_manager st"]
      holds_disjoint [of _ "ss_manager st"] unfolding tracks_def by simp
  then obtain sm where sm: "build_manager js (map snd ?C) ?M (map snd (ss_nodes st)) (map snd (ss_edges st)) = Inr sm"
    using build(1) [of js] unfolding is_ok_iff by blast
  have "tracks js sm ?N ?E" "rules_of sm = rules_of (ss_manager st)" using build(2) [OF sm] r by simp_all
  then have "sm = ss_manager st"
    using t registered_cong [of sm "ss_manager st"] unfolding tracks_def by (intro holds_unique [of "registered js (ss_manager st) ?N ?E"]) simp_all
  then show ?thesis using sm by (simp add: rebuild_schema_manager_def replace_schema_manager_def load_constraints_def)
qed

lemma or_rebuild_same: "schema_ok js st \<Longrightarrow> or_rebuild js (Some e, st\<lparr>ss_manager := m\<rparr>) = (Some e, st)"
  by (simp add: or_rebuild_def rebuild_same)

subsection \<open>What a batch collects\<close>

definition latest :: "(string \<rightharpoonup> 'r) \<Rightarrow> (string, 'r change) btree \<Rightarrow> string \<rightharpoonup> 'r" where
  "latest N changes i = (case bt_get changes i of Some (_, new) \<Rightarrow> new | None \<Rightarrow> N i)"

definition faithful :: "('r \<Rightarrow> string) \<Rightarrow> (string \<rightharpoonup> 'r) \<Rightarrow> (string, 'r change) btree \<Rightarrow> bool" where
  "faithful rid N changes \<longleftrightarrow> bt_wf changes \<and>
     (\<forall>i old new. bt_get changes i = Some (old, new) \<longrightarrow> old = N i \<and> (\<forall>r. new = Some r \<longrightarrow> rid r = i))"

lemma faithful_collect:
  "faithful rid (bt_get m) changes \<Longrightarrow> (\<And>r. new = Some r \<Longrightarrow> rid r = i) \<Longrightarrow> faithful rid (bt_get m) (collect_change m i new changes)"
  by (auto simp: faithful_def collect_change_def bt_wf_insert split: option.split)

lemma faithful_fresh:
  "faithful rid N changes \<Longrightarrow> N (rid r) = None \<Longrightarrow> faithful rid N (bt_insert (rid r) (None, Some r) changes)"
  by (auto simp: faithful_def bt_wf_insert)

lemma latest_insert: "latest N (bt_insert i (old, new) changes) = (latest N changes)(i := new)"
  by (auto simp: latest_def fun_eq_iff)

lemma latest_collect: "latest N (collect_change m i new changes) = (latest N changes)(i := new)"
  unfolding collect_change_def by (cases "bt_get changes i") (auto simp: latest_insert split: prod.split)

lemma latest_Nil [simp]: "latest N [] = N"
  by (simp add: latest_def fun_eq_iff)

text \<open>The batch as a sequence of writes.\<close>

type_synonym 'n graph_rules =
  "(string \<rightharpoonup> 'n json node_record) \<times> (string \<rightharpoonup> 'n json edge_record) \<times> (string \<rightharpoonup> 'n constraint)"

fun write_op :: "'n schema_op \<Rightarrow> 'n graph_rules \<Rightarrow> 'n graph_rules" where
  "write_op (PutConstraintOp c) (N, E, C) = (N, E, C(co_name c \<mapsto> c))"
| "write_op (DeleteConstraintOp name) (N, E, C) = (N, E, C(name := None))"
| "write_op (PutNodeOp n) (N, E, C) = (N(nr_id n \<mapsto> n), E, C)"
| "write_op (PutFreshNodeOp n) (N, E, C) = (N(nr_id n \<mapsto> n), E, C)"
| "write_op (DeleteNodeOp i) (N, E, C) = (N(i := None), E, C)"
| "write_op (PutEdgeOp e) (N, E, C) = (N, E(er_id e \<mapsto> e), C)"
| "write_op (PutFreshEdgeOp e) (N, E, C) = (N, E(er_id e \<mapsto> e), C)"
| "write_op (DeleteEdgeOp i) (N, E, C) = (N, E(i := None), C)"

definition store_contents :: "'n schema_store \<Rightarrow> 'n graph_rules" where
  "store_contents st = (bt_get (ss_nodes st), bt_get (ss_edges st), bt_get (ss_constraints st))"

definition latest_rule :: "(string \<rightharpoonup> 'n constraint) \<Rightarrow> (string, 'n constraint option) btree \<Rightarrow> string \<rightharpoonup> 'n constraint" where
  "latest_rule C changes name = (case bt_get changes name of Some c \<Rightarrow> c | None \<Rightarrow> C name)"

definition batch_contents :: "'n batch_changes \<Rightarrow> 'n schema_store \<Rightarrow> 'n graph_rules" where
  "batch_contents bc st = (latest (bt_get (ss_nodes st)) (bc_nodes bc), latest (bt_get (ss_edges st)) (bc_edges bc),
     latest_rule (bt_get (ss_constraints st)) (bc_constraints bc))"

definition batch_faithful :: "'n batch_changes \<Rightarrow> 'n schema_store \<Rightarrow> bool" where
  "batch_faithful bc st \<longleftrightarrow> faithful nr_id (bt_get (ss_nodes st)) (bc_nodes bc) \<and> faithful er_id (bt_get (ss_edges st)) (bc_edges bc) \<and>
     bt_wf (bc_constraints bc) \<and> (\<forall>name c. bt_get (bc_constraints bc) name = Some (Some c) \<longrightarrow> co_name c = name)"

lemma collect_step:
  assumes "batch_faithful bc st" "fresh_op st op"
  shows "batch_faithful (collect_op st op bc) st \<and> batch_contents (collect_op st op bc) st = write_op op (batch_contents bc st)"
  using assms
  by (cases op) (auto simp: batch_faithful_def batch_contents_def collect_op_def latest_collect latest_insert
      faithful_fresh latest_rule_def fun_eq_iff bt_wf_insert intro!: faithful_collect)

lemma collect_faithful:
  assumes "\<forall>op\<in>set ops. fresh_op st op"
  shows "batch_faithful (collect_ops st ops) st" and "batch_contents (collect_ops st ops) st = fold write_op ops (store_contents st)"
proof -
  have "batch_faithful (fold (collect_op st) ops bc) st \<and>
      batch_contents (fold (collect_op st) ops bc) st = fold write_op ops (batch_contents bc st)"
    if "batch_faithful bc st" for bc
    using that assms
  proof (induction ops arbitrary: bc)
    case (Cons op ops)
    then show ?case using collect_step [of bc st op] by simp
  qed simp
  moreover have "batch_faithful \<lparr>bc_nodes = [], bc_edges = [], bc_constraints = []\<rparr> st" by (simp add: batch_faithful_def faithful_def)
  moreover have "batch_contents \<lparr>bc_nodes = [], bc_edges = [], bc_constraints = []\<rparr> st = store_contents st"
    by (simp add: batch_contents_def store_contents_def latest_rule_def fun_eq_iff)
  ultimately show "batch_faithful (collect_ops st ops) st" "batch_contents (collect_ops st ops) st = fold write_op ops (store_contents st)"
    unfolding collect_ops_def by fastforce+
qed

subsection \<open>Visiting the changes\<close>

lemma visit_changes:
  assumes step: "\<And>sm X i new. T sm X \<Longrightarrow> X i = X0 i \<Longrightarrow> (\<And>r. new = Some r \<Longrightarrow> rid r = i) \<Longrightarrow>
      (\<exists>sm'. upd (X i, new) (st\<lparr>ss_manager := sm\<rparr>) = (None, st\<lparr>ss_manager := sm'\<rparr>) \<and> T sm' (X(i := new))) \<or>
      (\<exists>e. upd (X i, new) (st\<lparr>ss_manager := sm\<rparr>) = (Some e, st))"
    and "faithful rid X0 changes" "distinct ks" "\<forall>i\<in>set ks. bt_get changes i \<noteq> None" "\<forall>i\<in>set ks. X i = X0 i" "T sm X"
  shows "(\<exists>sm'. fold_stop upd (in_order ks changes) (st\<lparr>ss_manager := sm\<rparr>) = (None, st\<lparr>ss_manager := sm'\<rparr>) \<and>
      T sm' (\<lambda>i. if i \<in> set ks then latest X0 changes i else X i)) \<or>
    (\<exists>e. fold_stop upd (in_order ks changes) (st\<lparr>ss_manager := sm\<rparr>) = (Some e, st))"
  using assms(3-)
proof (induction ks arbitrary: sm X)
  case (Cons k ks)
  obtain old new where ch: "bt_get changes k = Some (old, new)" using Cons.prems(2) by auto
  then have old: "old = X k" and ids: "\<And>r. new = Some r \<Longrightarrow> rid r = k" using assms(2) Cons.prems(3) by (auto simp: faithful_def)
  have ord: "in_order (k # ks) changes = (X k, new) # in_order ks changes" by (simp add: in_order_def List.map_filter_simps ch old)
  consider (ok) sm1 where "upd (X k, new) (st\<lparr>ss_manager := sm\<rparr>) = (None, st\<lparr>ss_manager := sm1\<rparr>)" "T sm1 (X(k := new))"
    | (err) e where "upd (X k, new) (st\<lparr>ss_manager := sm\<rparr>) = (Some e, st)"
    using step [OF Cons.prems(4), of k new] ids Cons.prems(3) by auto
  then show ?case
  proof cases
    case ok
    let ?X = "X(k := new)"
    have "distinct ks" "\<forall>i\<in>set ks. bt_get changes i \<noteq> None" "\<forall>i\<in>set ks. ?X i = X0 i" using Cons.prems by auto
    note IH = Cons.IH [OF this ok(2)]
    have "(\<lambda>i. if i \<in> set ks then latest X0 changes i else ?X i) = (\<lambda>i. if i \<in> set (k # ks) then latest X0 changes i else X i)"
      using Cons.prems(1) by (auto simp: fun_eq_iff latest_def ch)
    with IH show ?thesis by (simp add: ord ok(1))
  qed (simp add: ord)
next
  case Nil
  then show ?case by (intro disjI1 exI [of _ sm]) (simp add: in_order_def List.map_filter_simps)
qed

lemma visit_all:
  assumes "visits ks changes" shows "(\<lambda>i. if i \<in> set ks then latest X0 changes i else X0 i) = latest X0 changes"
proof (rule ext)
  fix i show "(if i \<in> set ks then latest X0 changes i else X0 i) = latest X0 changes i"
    using assms bt_get_None_iff [of changes i] by (cases "bt_get changes i") (auto simp: visits_def bt_keys_def latest_def)
qed

lemma visit_keys: "visits ks changes \<Longrightarrow> distinct ks \<and> (\<forall>i\<in>set ks. bt_get changes i \<noteq> None)"
  using bt_get_None_iff [of changes] by (auto simp: visits_def bt_keys_def)

definition managed :: "('n json \<Rightarrow> string) \<Rightarrow> 'n schema_store \<Rightarrow> 'n schema_manager \<Rightarrow> (string \<rightharpoonup> 'n json node_record) \<Rightarrow>
    (string \<rightharpoonup> 'n json edge_record) \<Rightarrow> bool" where
  "managed js st sm N E \<longleftrightarrow> tracks js sm N E \<and> rules_of sm = rules_of (ss_manager st)"

lemma update_cases:
  assumes "schema_ok js st" "update_ok js r (st\<lparr>ss_manager := sm\<rparr>) N E" "rules_of sm = rules_of (ss_manager st)"
  shows "(\<exists>sm'. r = (None, st\<lparr>ss_manager := sm'\<rparr>) \<and> managed js st sm' N E) \<or> (\<exists>e. r = (Some e, st))"
  using assms or_rebuild_same [OF assms(1)] by (auto simp: update_ok_def managed_def split: if_splits)

lemma visit_nodes:
  assumes ok: "schema_ok js st" and f: "faithful nr_id (bt_get (ss_nodes st)) changes" and ks: "visits ks changes"
    and m: "managed js st sm (bt_get (ss_nodes st)) E"
  shows "(\<exists>sm'. fold_stop (apply_node_constraint_update js) (in_order ks changes) (st\<lparr>ss_manager := sm\<rparr>) = (None, st\<lparr>ss_manager := sm'\<rparr>) \<and>
      managed js st sm' (latest (bt_get (ss_nodes st)) changes) E) \<or>
    (\<exists>e. fold_stop (apply_node_constraint_update js) (in_order ks changes) (st\<lparr>ss_manager := sm\<rparr>) = (Some e, st))"
proof -
  have step: "(\<exists>sm'. apply_node_constraint_update js (N i, new) (st\<lparr>ss_manager := sm\<rparr>) = (None, st\<lparr>ss_manager := sm'\<rparr>) \<and>
        managed js st sm' (N(i := new)) E) \<or>
      (\<exists>e. apply_node_constraint_update js (N i, new) (st\<lparr>ss_manager := sm\<rparr>) = (Some e, st))"
    if "managed js st sm N E" "N i = bt_get (ss_nodes st) i" "\<And>r. new = Some r \<Longrightarrow> nr_id r = i" for sm N i new
  proof (rule update_cases [OF ok])
    have t: "tracks js (ss_manager (st\<lparr>ss_manager := sm\<rparr>)) N E" using that(1) by (simp add: managed_def)
    show "update_ok js (apply_node_constraint_update js (N i, new) (st\<lparr>ss_manager := sm\<rparr>)) (st\<lparr>ss_manager := sm\<rparr>) (N(i := new)) E"
      by (rule node_update [OF t that(3)]) (use ok that(2) in \<open>simp_all add: schema_ok_def\<close>)
    show "rules_of sm = rules_of (ss_manager st)" using that(1) by (simp add: managed_def)
  qed
  have "(\<exists>sm'. fold_stop (apply_node_constraint_update js) (in_order ks changes) (st\<lparr>ss_manager := sm\<rparr>) = (None, st\<lparr>ss_manager := sm'\<rparr>) \<and>
      managed js st sm' (\<lambda>i. if i \<in> set ks then latest (bt_get (ss_nodes st)) changes i else bt_get (ss_nodes st) i) E) \<or>
    (\<exists>e. fold_stop (apply_node_constraint_update js) (in_order ks changes) (st\<lparr>ss_manager := sm\<rparr>) = (Some e, st))"
    by (rule visit_changes [where T = "\<lambda>sm N. managed js st sm N E" and X0 = "bt_get (ss_nodes st)" and rid = nr_id and st = st
          and upd = "apply_node_constraint_update js" and X = "bt_get (ss_nodes st)" and changes = changes, OF step f]) (use visit_keys [OF ks] m in simp_all)
  then show ?thesis unfolding visit_all [OF ks] .
qed

lemma visit_edges:
  assumes ok: "schema_ok js st" and f: "faithful er_id (bt_get (ss_edges st)) changes" and ks: "visits ks changes"
    and m: "managed js st sm N (bt_get (ss_edges st))"
  shows "(\<exists>sm'. fold_stop (apply_edge_constraint_update js) (in_order ks changes) (st\<lparr>ss_manager := sm\<rparr>) = (None, st\<lparr>ss_manager := sm'\<rparr>) \<and>
      managed js st sm' N (latest (bt_get (ss_edges st)) changes)) \<or>
    (\<exists>e. fold_stop (apply_edge_constraint_update js) (in_order ks changes) (st\<lparr>ss_manager := sm\<rparr>) = (Some e, st))"
proof -
  have step: "(\<exists>sm'. apply_edge_constraint_update js (E i, new) (st\<lparr>ss_manager := sm\<rparr>) = (None, st\<lparr>ss_manager := sm'\<rparr>) \<and>
        managed js st sm' N (E(i := new))) \<or>
      (\<exists>e. apply_edge_constraint_update js (E i, new) (st\<lparr>ss_manager := sm\<rparr>) = (Some e, st))"
    if "managed js st sm N E" "E i = bt_get (ss_edges st) i" "\<And>r. new = Some r \<Longrightarrow> er_id r = i" for sm E i new
  proof (rule update_cases [OF ok])
    have t: "tracks js (ss_manager (st\<lparr>ss_manager := sm\<rparr>)) N E" using that(1) by (simp add: managed_def)
    show "update_ok js (apply_edge_constraint_update js (E i, new) (st\<lparr>ss_manager := sm\<rparr>)) (st\<lparr>ss_manager := sm\<rparr>) N (E(i := new))"
      by (rule edge_update [OF t that(3)]) (use ok that(2) in \<open>simp_all add: schema_ok_def\<close>)
    show "rules_of sm = rules_of (ss_manager st)" using that(1) by (simp add: managed_def)
  qed
  have "(\<exists>sm'. fold_stop (apply_edge_constraint_update js) (in_order ks changes) (st\<lparr>ss_manager := sm\<rparr>) = (None, st\<lparr>ss_manager := sm'\<rparr>) \<and>
      managed js st sm' N (\<lambda>i. if i \<in> set ks then latest (bt_get (ss_edges st)) changes i else bt_get (ss_edges st) i)) \<or>
    (\<exists>e. fold_stop (apply_edge_constraint_update js) (in_order ks changes) (st\<lparr>ss_manager := sm\<rparr>) = (Some e, st))"
    by (rule visit_changes [where T = "\<lambda>sm E. managed js st sm N E" and X0 = "bt_get (ss_edges st)" and rid = er_id and st = st
          and upd = "apply_edge_constraint_update js" and X = "bt_get (ss_edges st)" and changes = changes, OF step f]) (use visit_keys [OF ks] m in simp_all)
  then show ?thesis unfolding visit_all [OF ks] .
qed

subsection \<open>Writing the batch\<close>

lemma fold_set_record:
  "distinct (map fst changes) \<Longrightarrow> bt_get (fold (\<lambda>(i, c). set_record i (h c)) changes m) i =
     (case map_of changes i of Some c \<Rightarrow> h c | None \<Rightarrow> bt_get m i)"
proof (induction changes arbitrary: m)
  case (Cons e changes)
  obtain j c where e: "e = (j, c)" by (cases e)
  have "map_of changes j = None" using Cons.prems by (simp add: e map_of_eq_None_iff)
  then show ?case using Cons by (auto simp: e set_record_def split: option.split)
qed simp

lemma bt_wf_fold_set_record: "bt_wf m \<Longrightarrow> bt_wf (fold (\<lambda>(i, c). set_record i (h c)) changes m)"
  by (induction changes arbitrary: m) (auto simp: set_record_def bt_wf_insert bt_wf_remove split: option.split)

lemma written:
  assumes "bt_wf changes" "bt_wf m"
  shows "bt_wf (fold (\<lambda>(i, c). set_record i (h c)) changes m)"
    and "bt_get (fold (\<lambda>(i, c). set_record i (h c)) changes m) i = (case bt_get changes i of Some c \<Rightarrow> h c | None \<Rightarrow> bt_get m i)"
  using fold_set_record [OF bt_wf_distinct [OF assms(1)]] bt_wf_fold_set_record [OF assms(2)] by (simp_all add: bt_get_def)

text \<open>What a node asks for does not depend on its embeddings.\<close>

definition same_asks :: "(string \<rightharpoonup> 'j node_record) \<Rightarrow> (string \<rightharpoonup> 'j node_record) \<Rightarrow> bool" where
  "same_asks N N' \<longleftrightarrow> (\<forall>i. map_option (\<lambda>n. (nr_labels n, nr_properties n)) (N i) = map_option (\<lambda>n. (nr_labels n, nr_properties n)) (N' i))"

lemma same_asks_required:
  assumes "same_asks N N'" shows "asked_keys js sm N E = asked_keys js sm N' E"
proof (rule ext)
  fix rk :: record_key
  obtain kind l i where rk: "rk = (kind, l, i)" by (metis surj_pair)
  have "map_option (\<lambda>n. (nr_labels n, nr_properties n)) (N i) = map_option (\<lambda>n. (nr_labels n, nr_properties n)) (N' i)"
    using assms by (simp add: same_asks_def)
  then show "asked_keys js sm N E rk = asked_keys js sm N' E rk"
    by (cases kind; cases "N i"; cases "N' i") (simp_all add: rk asked_keys_def)
qed

lemma same_asks_tracks: "same_asks N N' \<Longrightarrow> tracks js sm N E \<longleftrightarrow> tracks js sm N' E"
proof -
  assume "same_asks N N'"
  from same_asks_required [OF this] have "asked_keys js sm N E = asked_keys js sm N' E" .
  moreover from this have "registered js sm N E = registered js sm N' E" by (intro ext) (simp add: registered_def)
  ultimately show ?thesis by (simp add: tracks_def all_accepted_def)
qed

lemma write_batch_nodes:
  assumes ok: "schema_ok js st" and f: "batch_faithful bc st"
  defines "st' \<equiv> write_batch bc st"
  shows "bt_wf (ss_nodes st')" "\<forall>i n. bt_get (ss_nodes st') i = Some n \<longrightarrow> nr_id n = i"
    and "same_asks (latest (bt_get (ss_nodes st)) (bc_nodes bc)) (bt_get (ss_nodes st'))"
proof -
  let ?h = "\<lambda>(old, new). map_option (stored_node old) new"
  have "(\<lambda>(i, old, new). set_record i (map_option (stored_node old) new)) = (\<lambda>(i, c). set_record i (?h c))"
    by (auto simp: fun_eq_iff)
  note h = fun_cong [OF fun_cong [OF arg_cong [OF this, of fold]]]
  have tab: "ss_nodes st' = fold (\<lambda>(i, c). set_record i (?h c)) (bc_nodes bc) (ss_nodes st)"
    unfolding h [symmetric] by (simp add: st'_def write_batch_parts)
  have wf: "bt_wf (bc_nodes bc)" "bt_wf (ss_nodes st)" using ok f by (auto simp: schema_ok_def batch_faithful_def faithful_def)
  note w = written [OF wf, of ?h, folded tab]
  show "bt_wf (ss_nodes st')" by (rule w(1))
  show "\<forall>i n. bt_get (ss_nodes st') i = Some n \<longrightarrow> nr_id n = i"
    using ok f unfolding w(2) by (auto simp: schema_ok_def batch_faithful_def faithful_def split: option.splits)
  show "same_asks (latest (bt_get (ss_nodes st)) (bc_nodes bc)) (bt_get (ss_nodes st'))"
    unfolding same_asks_def w(2) latest_def by (auto simp: option.map_comp comp_def split: option.split)
qed

lemma write_batch_node:
  assumes ok: "schema_ok js st" and f: "batch_faithful bc st"
  shows "bt_get (ss_nodes (write_batch bc st)) i = (case bt_get (bc_nodes bc) i of
      Some (old, new) \<Rightarrow> map_option (stored_node old) new | None \<Rightarrow> bt_get (ss_nodes st) i)"
proof -
  let ?h = "\<lambda>(old, new). map_option (stored_node old) new"
  have "(\<lambda>(i, old, new). set_record i (map_option (stored_node old) new)) = (\<lambda>(i, c). set_record i (?h c))"
    by (auto simp: fun_eq_iff)
  note h = fun_cong [OF fun_cong [OF arg_cong [OF this, of fold]]]
  have tab: "ss_nodes (write_batch bc st) = fold (\<lambda>(i, c). set_record i (?h c)) (bc_nodes bc) (ss_nodes st)"
    unfolding h [symmetric] by (simp add: write_batch_parts)
  have wf: "bt_wf (bc_nodes bc)" "bt_wf (ss_nodes st)" using ok f by (auto simp: schema_ok_def batch_faithful_def faithful_def)
  show ?thesis unfolding tab written(2) [OF wf] ..
qed

lemma write_batch_edges:
  assumes ok: "schema_ok js st" and f: "batch_faithful bc st"
  defines "st' \<equiv> write_batch bc st"
  shows "bt_wf (ss_edges st')" "\<forall>i e. bt_get (ss_edges st') i = Some e \<longrightarrow> er_id e = i"
    and "bt_get (ss_edges st') = latest (bt_get (ss_edges st)) (bc_edges bc)"
proof -
  have "(\<lambda>(i, _, new). set_record i new) = (\<lambda>(i, c). set_record i (snd c))" by (auto simp: fun_eq_iff)
  note h = fun_cong [OF fun_cong [OF arg_cong [OF this, of fold]]]
  have tab: "ss_edges st' = fold (\<lambda>(i, c). set_record i (snd c)) (bc_edges bc) (ss_edges st)"
    unfolding h [symmetric] by (simp add: st'_def write_batch_parts)
  have wf: "bt_wf (bc_edges bc)" "bt_wf (ss_edges st)" using ok f by (auto simp: schema_ok_def batch_faithful_def faithful_def)
  note w = written [OF wf, of snd, folded tab]
  show "bt_wf (ss_edges st')" by (rule w(1))
  show latest: "bt_get (ss_edges st') = latest (bt_get (ss_edges st)) (bc_edges bc)"
    by (rule ext) (auto simp: w(2) latest_def split: option.split)
  show "\<forall>i e. bt_get (ss_edges st') i = Some e \<longrightarrow> er_id e = i"
    using ok f unfolding latest latest_def by (auto simp: schema_ok_def batch_faithful_def faithful_def split: option.splits)
qed

lemma write_batch_constraints:
  assumes ok: "schema_ok js st" and f: "batch_faithful bc st"
  defines "st' \<equiv> write_batch bc st"
  shows "named (ss_constraints st')" "bt_get (ss_constraints st') = latest_rule (bt_get (ss_constraints st)) (bc_constraints bc)"
    and "effective_constraints (bc_constraints bc) st = ss_constraints st'"
proof -
  have tab: "ss_constraints st' = fold (\<lambda>(i, c). set_record i (id c)) (bc_constraints bc) (ss_constraints st)"
    by (simp add: st'_def write_batch_parts case_prod_beta)
  have named: "named (ss_constraints st)" and wf: "bt_wf (bc_constraints bc)" "bt_wf (ss_constraints st)"
    using ok f by (auto simp: schema_ok_def batch_faithful_def named_def)
  note w = written [OF wf, of id, folded tab]
  show latest: "bt_get (ss_constraints st') = latest_rule (bt_get (ss_constraints st)) (bc_constraints bc)"
    by (rule ext) (auto simp: w(2) latest_rule_def split: option.split)
  have "co_name c = k" if "bt_get (ss_constraints st') k = Some c" for k c
    using that named f bt_get_Some_iff [OF wf(2)] unfolding latest latest_rule_def
    by (fastforce simp: named_def batch_faithful_def split: option.splits)
  then show "named (ss_constraints st')" using w(1) bt_get_Some_iff [OF w(1)] by (fastforce simp: named_def)
  show "effective_constraints (bc_constraints bc) st = ss_constraints st'"
    using named_list(2) [OF named] by (simp add: effective_constraints_def tab load_constraints_def by_name_def case_prod_beta)
qed

end
