(* ===== verification/Schema_Correct.thy ===== *)
theory Schema_Correct
  imports Schema_Batch
begin

text \<open>
  The guarantees of the constraints of crates/storage/src/lib.rs: every store that definitions, removals
  and batches reach satisfies its constraints, refused batches change nothing, and what is refused is
  what would break a constraint, with the two exceptions proved at the end.
\<close>

subsection \<open>Batches\<close>

definition active_rules :: "(string \<rightharpoonup> 'n constraint) \<Rightarrow> (string \<times> string, 'n constraint) btree \<Rightarrow> 'n rule set" where
  "active_rules C M = (\<lambda>c. (None, c)) ` ran C \<union> (\<lambda>e. (Some (fst (fst e)), snd e)) ` set M"

lemma active_rules_table: "bt_wf C \<Longrightarrow> all_rules C M = active_rules (bt_get C) M"
proof -
  assume wf: "bt_wf C"
  have "ran (bt_get C) = snd ` set C"
    by (auto simp: ran_def bt_get_Some_iff [OF wf] image_iff) force
  then show ?thesis by (auto simp: all_rules_def active_rules_def image_iff)
qed

definition constraints_hold :: "('n json \<Rightarrow> string) \<Rightarrow> (string \<times> string, 'n constraint) btree \<Rightarrow> 'n graph_rules \<Rightarrow> bool" where
  "constraints_hold js M g \<longleftrightarrow> rules_hold js (active_rules (snd (snd g)) M) (fst g) (fst (snd g))"

lemma write_batch_manager: "write_batch bc (st\<lparr>ss_manager := sm\<rparr>) = (write_batch bc st)\<lparr>ss_manager := sm\<rparr>"
  by (simp add: write_batch_parts)

lemma write_batch_namespaces [simp]: "ss_namespace_constraints (write_batch bc st) = ss_namespace_constraints st"
  by (simp add: write_batch_parts)

definition accepted :: "('n json \<Rightarrow> string) \<Rightarrow> 'n batch_changes \<Rightarrow> 'n schema_store \<Rightarrow> 'n schema_manager \<Rightarrow> bool" where
  "accepted js bc st sm \<longleftrightarrow>
     tracks js sm (latest (bt_get (ss_nodes st)) (bc_nodes bc)) (latest (bt_get (ss_edges st)) (bc_edges bc)) \<and>
     rules_of sm = (ss_constraints (write_batch bc st), ss_namespace_constraints st)"

lemma final_tables:
  assumes ok: "schema_ok js st" and f: "batch_faithful bc st"
  shows "lists nr_id (final_nodes (bc_nodes bc) (ss_nodes st)) (latest (bt_get (ss_nodes st)) (bc_nodes bc))"
    and "lists er_id (final_edges (bc_edges bc) (ss_edges st)) (latest (bt_get (ss_edges st)) (bc_edges bc))"
proof -
  have same: "bt_extend [] (map (\<lambda>(_, r). (rid r, r)) m) = m" if "bt_wf m" "\<forall>i r. bt_get m i = Some r \<longrightarrow> rid r = i" for rid m
  proof -
    have "(\<lambda>(_, r). (rid r, r)) e = e" if mem: "e \<in> set m" for e
    proof -
      obtain i r where e: "e = (i, r)" by (metis surj_pair)
      then have "bt_get m i = Some r" using mem bt_get_Some_iff [OF \<open>bt_wf m\<close>] by blast
      then show ?thesis using \<open>\<forall>i r. bt_get m i = Some r \<longrightarrow> rid r = i\<close> by (simp add: e)
    qed
    then have "map (\<lambda>(_, r). (rid r, r)) m = m" by (simp add: map_idI)
    then show ?thesis using bt_get_extend_empty [OF \<open>bt_wf m\<close>] by simp
  qed
  have h: "(\<lambda>(i, _, new). set_record i new) = (\<lambda>(i, c). set_record i (snd c))" by (auto simp: fun_eq_iff)
  have wf: "bt_wf (bc_nodes bc)" "bt_wf (ss_nodes st)" "bt_wf (bc_edges bc)" "bt_wf (ss_edges st)"
    and ids: "\<forall>i n. bt_get (ss_nodes st) i = Some n \<longrightarrow> nr_id n = i" "\<forall>i e. bt_get (ss_edges st) i = Some e \<longrightarrow> er_id e = i"
    using ok f by (auto simp: schema_ok_def batch_faithful_def faithful_def)
  have get: "bt_get (fold (\<lambda>(i, c). set_record i (snd c)) changes m) = latest (bt_get m) changes" if "bt_wf changes" "bt_wf m"
    for changes :: "(string, 'z change) btree" and m
    by (rule ext) (auto simp: written(2) [OF that] latest_def split: option.split)
  have lists: "lists rid (map snd (fold (\<lambda>(i, c). set_record i (snd c)) changes m)) (latest (bt_get m) changes)"
    if "bt_wf changes" "bt_wf m" "\<forall>i r. bt_get m i = Some r \<longrightarrow> rid r = i" "faithful rid (bt_get m) changes"
    for changes :: "(string, 'z change) btree" and m rid
    unfolding get [OF that(1,2), symmetric]
    by (rule lists_table [OF written(1) [OF that(1,2)]])
      (use that in \<open>auto simp: get [OF that(1,2)] latest_def faithful_def split: option.splits\<close>)
  show "lists nr_id (final_nodes (bc_nodes bc) (ss_nodes st)) (latest (bt_get (ss_nodes st)) (bc_nodes bc))"
    unfolding final_nodes_def h same [OF wf(2) ids(1)]
    by (rule lists [OF wf(1,2) ids(1)]) (use f in \<open>simp add: batch_faithful_def\<close>)
  show "lists er_id (final_edges (bc_edges bc) (ss_edges st)) (latest (bt_get (ss_edges st)) (bc_edges bc))"
    unfolding final_edges_def h same [OF wf(4) ids(2)]
    by (rule lists [OF wf(3,4) ids(2)]) (use f in \<open>simp add: batch_faithful_def\<close>)
qed

lemma build_batch:
  assumes ok: "schema_ok js st" and f: "batch_faithful bc st"
  defines "built \<equiv> build_manager js (map snd (effective_constraints (bc_constraints bc) st)) (ss_namespace_constraints st)
      (final_nodes (bc_nodes bc) (ss_nodes st)) (final_edges (bc_edges bc) (ss_edges st))"
    and "base \<equiv> base_manager (ss_constraints (write_batch bc st)) (ss_namespace_constraints st)"
  shows "built = Inr sm \<Longrightarrow> accepted js bc st sm"
    and "is_ok built \<longleftrightarrow>
      all_accepted js base (latest (bt_get (ss_nodes st)) (bc_nodes bc)) (latest (bt_get (ss_edges st)) (bc_edges bc)) \<and>
      keys_disjoint (registered js base (latest (bt_get (ss_nodes st)) (bc_nodes bc)) (latest (bt_get (ss_edges st)) (bc_edges bc)))"
proof -
  note C = write_batch_constraints [OF ok f]
  have M: "named_in (ss_namespace_constraints st)" using ok by (simp add: schema_ok_def)
  note b = build_ok [OF named_list(1) [OF C(1)] M final_tables [OF ok f], unfolded named_list(2) [OF C(1)]]
  show "built = Inr sm \<Longrightarrow> accepted js bc st sm" using b(2) [of js sm] unfolding built_def C(3) accepted_def by blast
  show "is_ok built \<longleftrightarrow>
      all_accepted js base (latest (bt_get (ss_nodes st)) (bc_nodes bc)) (latest (bt_get (ss_edges st)) (bc_edges bc)) \<and>
      keys_disjoint (registered js base (latest (bt_get (ss_nodes st)) (bc_nodes bc)) (latest (bt_get (ss_edges st)) (bc_edges bc)))"
    unfolding built_def C(3) base_def by (rule b(1))
qed

text \<open>What a batch that does not fail between its checks and its write comes to.\<close>

lemma commit_result:
  assumes ok: "schema_ok js st" and order: "batch_order order ops st" and fresh: "\<forall>op\<in>set ops. fresh_op st op"
    and out: "\<forall>e. out \<noteq> StageError e"
  defines "bc \<equiv> collect_ops st ops"
  shows "(\<exists>e. commit_locked js order out ops st = (Some e, st)) \<or>
    (\<exists>sm. commit_locked js order out ops st = (None, (write_batch bc st)\<lparr>ss_manager := sm\<rparr>) \<and> accepted js bc st sm)"
proof (cases "\<exists>e. out = EarlyError e")
  case True
  then show ?thesis by (auto simp: commit_locked_def Let_def)
next
  case False
  have f: "batch_faithful bc st" unfolding bc_def by (rule collect_faithful(1) [OF fresh])
  show ?thesis
  proof (cases "bc_constraints bc = []")
    case no: False
    let ?built = "build_manager js (map snd (effective_constraints (bc_constraints bc) st)) (ss_namespace_constraints st)
      (final_nodes (bc_nodes bc) (ss_nodes st)) (final_edges (bc_edges bc) (ss_edges st))"
    show ?thesis
    proof (cases ?built)
      case (Inr sm)
      then show ?thesis using no build_batch(1) [OF ok f Inr]
        by (cases out) (auto simp: commit_locked_def Let_def bc_def)
    next
      case (Inl e)
      then show ?thesis using no False by (cases out) (auto simp: commit_locked_def Let_def bc_def)
    qed
  next
    case yes: True
    have m: "managed js st (ss_manager st) (bt_get (ss_nodes st)) (bt_get (ss_edges st))"
      using ok by (simp add: managed_def schema_ok_def)
    have vn: "visits (fst order) (bc_nodes bc)" and ve: "visits (snd order) (bc_edges bc)"
      using order by (simp_all add: batch_order_def bc_def)
    have fn: "faithful nr_id (bt_get (ss_nodes st)) (bc_nodes bc)" and fe: "faithful er_id (bt_get (ss_edges st)) (bc_edges bc)"
      using f by (simp_all add: batch_faithful_def)
    have st: "st\<lparr>ss_manager := ss_manager st\<rparr> = st" by simp
    from visit_nodes [OF ok fn vn m] consider
      (done1) sm1 where "fold_stop (apply_node_constraint_update js) (in_order (fst order) (bc_nodes bc)) st = (None, st\<lparr>ss_manager := sm1\<rparr>)"
        "managed js st sm1 (latest (bt_get (ss_nodes st)) (bc_nodes bc)) (bt_get (ss_edges st))"
      | (err1) e where "fold_stop (apply_node_constraint_update js) (in_order (fst order) (bc_nodes bc)) st = (Some e, st)"
      unfolding st by blast
    then show ?thesis
    proof cases
      case err1
      then show ?thesis using False yes by (cases out) (simp_all add: commit_locked_def Let_def bc_def)
    next
      case done1
      from visit_edges [OF ok fe ve done1(2)] consider
        (done2) sm2 where "fold_stop (apply_edge_constraint_update js) (in_order (snd order) (bc_edges bc)) (st\<lparr>ss_manager := sm1\<rparr>) =
            (None, st\<lparr>ss_manager := sm2\<rparr>)"
          "managed js st sm2 (latest (bt_get (ss_nodes st)) (bc_nodes bc)) (latest (bt_get (ss_edges st)) (bc_edges bc))"
        | (err2) e where "fold_stop (apply_edge_constraint_update js) (in_order (snd order) (bc_edges bc)) (st\<lparr>ss_manager := sm1\<rparr>) = (Some e, st)"
        by blast
      then show ?thesis
      proof cases
        case err2
        then show ?thesis using done1(1) False yes by (cases out) (simp_all add: commit_locked_def Let_def bc_def)
      next
        case done2
        have keep: "ss_constraints (write_batch bc st) = ss_constraints st" by (simp add: write_batch_parts yes)
        then have acc: "accepted js bc st sm2"
          using done2(2) ok by (simp add: accepted_def managed_def schema_ok_def)
        show ?thesis
        proof (cases out)
          case BatchDone
          then have "commit_locked js order out ops st = (None, (write_batch bc st)\<lparr>ss_manager := sm2\<rparr>)"
            using done1(1) done2(1) yes by (simp add: commit_locked_def Let_def bc_def write_batch_manager)
          then show ?thesis using acc by blast
        next
          case (WriteError e)
          show ?thesis
          proof (cases "bc_nodes bc = [] \<and> bc_edges bc = []")
            case True
            then have orders: "fst order = []" "snd order = []" using vn ve by (simp_all add: visits_def bt_keys_def)
            then have "in_order (fst order) (bc_nodes bc) = []" "in_order (snd order) (bc_edges bc) = []"
              by (simp_all add: in_order_def List.map_filter_simps)
            then show ?thesis using True yes WriteError by (simp add: commit_locked_def Let_def bc_def)
          next
            case rec: False
            then have "commit_locked js order out ops st = or_rebuild js (Some e, st\<lparr>ss_manager := sm2\<rparr>)"
              using done1(1) done2(1) yes WriteError by (auto simp: commit_locked_def Let_def bc_def)
            then show ?thesis using or_rebuild_same [OF ok, of e sm2] by simp
          qed
        qed (use False out in auto)
      qed
    qed
  qed
qed

text \<open>A batch whose versions cannot be staged, or whose log record not be written, changes no table.\<close>

lemma same_but_manager: "\<exists>sm. st = st\<lparr>ss_manager := sm\<rparr>"
  by (rule exI [of _ "ss_manager st"]) simp

lemma or_rebuild_frame: "\<exists>sm'. snd (or_rebuild js (r, st\<lparr>ss_manager := sm\<rparr>)) = st\<lparr>ss_manager := sm'\<rparr>"
  by (cases r)
    (auto simp: or_rebuild_def rebuild_schema_manager_def replace_schema_manager_def result_bind_def split: sum.split)

lemma update_frame:
  "\<exists>sm. snd (apply_node_constraint_update js ch st) = st\<lparr>ss_manager := sm\<rparr>"
  "\<exists>sm. snd (apply_edge_constraint_update js ch' st) = st\<lparr>ss_manager := sm\<rparr>"
  unfolding apply_node_constraint_update_def apply_edge_constraint_update_def Let_def case_prod_beta by (rule or_rebuild_frame)+

lemma fold_frame:
  assumes "\<And>ch st. \<exists>sm. snd (f ch st) = st\<lparr>ss_manager := sm\<rparr>"
  shows "\<exists>sm. snd (fold_stop f chs st) = st\<lparr>ss_manager := sm\<rparr>"
proof (induction chs arbitrary: st)
  case Nil
  then show ?case using same_but_manager by simp
next
  case (Cons ch chs)
  obtain r st1 where f: "f ch st = (r, st1)" by (metis surj_pair)
  obtain sm where st1: "st1 = st\<lparr>ss_manager := sm\<rparr>" using assms [of ch st] f by auto
  obtain sm2 where "snd (fold_stop f chs st1) = st1\<lparr>ss_manager := sm2\<rparr>" using Cons.IH by blast
  then show ?case by (cases r) (auto simp: f st1)
qed

lemma staging_fails: "\<exists>e' sm. commit_locked js order (StageError e) ops st = (Some e', st\<lparr>ss_manager := sm\<rparr>)"
proof -
  let ?bc = "collect_ops st ops"
  show ?thesis
  proof (cases "bc_constraints ?bc = []")
    case False
    then show ?thesis using same_but_manager [of st] by (auto simp: commit_locked_def Let_def split: sum.split)
  next
    case True
    let ?n = "fold_stop (apply_node_constraint_update js) (in_order (fst order) (bc_nodes ?bc)) st"
    obtain sm1 where "snd ?n = st\<lparr>ss_manager := sm1\<rparr>" using fold_frame [where f = "apply_node_constraint_update js", OF update_frame(1)] by blast
    then obtain r1 where n: "fold_stop (apply_node_constraint_update js) (in_order (fst order) (bc_nodes ?bc)) st = (r1, st\<lparr>ss_manager := sm1\<rparr>)"
      by (cases ?n) simp
    let ?e = "fold_stop (apply_edge_constraint_update js) (in_order (snd order) (bc_edges ?bc)) (st\<lparr>ss_manager := sm1\<rparr>)"
    obtain sm2 where "snd ?e = st\<lparr>ss_manager := sm1\<rparr>\<lparr>ss_manager := sm2\<rparr>" using fold_frame [where f = "apply_edge_constraint_update js", OF update_frame(2)] by blast
    then obtain r2 where e: "fold_stop (apply_edge_constraint_update js) (in_order (snd order) (bc_edges ?bc)) (st\<lparr>ss_manager := sm1\<rparr>) =
        (r2, st\<lparr>ss_manager := sm1\<rparr>\<lparr>ss_manager := sm2\<rparr>)"
      by (cases ?e) simp
    show ?thesis
    proof (cases r1)
      case None
      then show ?thesis using True n e by (cases r2) (simp_all add: commit_locked_def Let_def, blast+)
    next
      case (Some e1)
      then show ?thesis using True n by (simp add: commit_locked_def Let_def) blast
    qed
  qed
qed

lemma accepted_ok:
  assumes ok: "schema_ok js st" and f: "batch_faithful bc st" and acc: "accepted js bc st sm"
  shows "schema_ok js ((write_batch bc st)\<lparr>ss_manager := sm\<rparr>)"
proof -
  note n = write_batch_nodes [OF ok f] and e = write_batch_edges [OF ok f] and c = write_batch_constraints [OF ok f]
  have "tracks js sm (bt_get (ss_nodes (write_batch bc st))) (bt_get (ss_edges (write_batch bc st)))"
    using acc unfolding accepted_def same_asks_tracks [OF n(3)] e(3) by blast
  then show ?thesis using n(1,2) e(1,2) c(1) acc ok by (simp add: schema_ok_def accepted_def)
qed

subsection \<open>Definitions and removals\<close>

lemma build_tables:
  assumes ok: "schema_ok js st" and cs: "distinct (map co_name cs)" and M: "named_in M"
    and build: "build_manager js cs M (map snd (ss_nodes st)) (map snd (ss_edges st)) = Inr sm" and C: "by_name cs = C" "named C"
  shows "schema_ok js (st\<lparr>ss_constraints := C, ss_namespace_constraints := M, ss_manager := sm\<rparr>)"
proof -
  have "lists nr_id (map snd (ss_nodes st)) (bt_get (ss_nodes st))" "lists er_id (map snd (ss_edges st)) (bt_get (ss_edges st))"
    using ok by (simp_all add: schema_ok_def lists_table)
  from build_ok(2) [OF cs M this build] show ?thesis using ok M C by (simp add: schema_ok_def)
qed

lemma by_name_filter:
  assumes "named C"
  shows "by_name (filter (\<lambda>e. co_name e \<noteq> name) (map snd C)) = bt_remove name C"
    and "distinct (map co_name (filter (\<lambda>e. co_name e \<noteq> name) (map snd C)))"
proof -
  have pairs: "map (\<lambda>c. (co_name c, c)) (filter (\<lambda>e. co_name e \<noteq> name) (map snd C)) = bt_remove name C"
    using assms unfolding bt_remove_def by (induction C) (auto simp: named_def bt_wf_Cons)
  show "by_name (filter (\<lambda>e. co_name e \<noteq> name) (map snd C)) = bt_remove name C"
    unfolding by_name_def pairs using assms by (simp add: bt_get_extend_empty bt_wf_remove named_def)
  show "distinct (map co_name (filter (\<lambda>e. co_name e \<noteq> name) (map snd C)))"
    using named_list(1) [OF assms] by (rule distinct_map_filter)
qed

lemma by_name_replace:
  assumes "named C"
  shows "by_name (filter (\<lambda>e. co_name e \<noteq> co_name c) (map snd C) @ [c]) = bt_insert (co_name c) c C"
    and "distinct (map co_name (filter (\<lambda>e. co_name e \<noteq> co_name c) (map snd C) @ [c]))"
proof -
  have "by_name (cs @ [c]) = bt_insert (co_name c) c (by_name cs)" for cs by (simp add: by_name_def bt_extend_def)
  then show "by_name (filter (\<lambda>e. co_name e \<noteq> co_name c) (map snd C) @ [c]) = bt_insert (co_name c) c C"
    using assms by (simp only: by_name_filter(1)) (intro bt_ext, auto simp: named_def bt_wf_insert bt_wf_remove)
  show "distinct (map co_name (filter (\<lambda>e. co_name e \<noteq> co_name c) (map snd C) @ [c]))"
    using by_name_filter(2) [OF assms, of "co_name c"] by auto
qed

lemma named_insert: "named C \<Longrightarrow> named (bt_insert (co_name c) c C)"
  by (auto simp: named_def bt_wf_insert set_bt_insert)

lemma named_remove: "named C \<Longrightarrow> named (bt_remove name C)"
  by (simp add: named_def bt_wf_remove) (simp add: bt_remove_def)

lemma named_in_insert: "named_in M \<Longrightarrow> snd k = co_name c \<Longrightarrow> named_in (bt_insert k c M)"
  by (auto simp: named_in_def bt_wf_insert set_bt_insert)

lemma named_in_remove: "named_in M \<Longrightarrow> named_in (bt_remove k M)"
  by (simp add: named_in_def bt_wf_remove) (simp add: bt_remove_def)

lemma persist_constraint_ok:
  assumes ok: "schema_ok js st" and "persist_constraint js c st = Inr st'"
  shows "schema_ok js st'"
proof -
  have C: "named (ss_constraints st)" and M: "named_in (ss_namespace_constraints st)" using ok by (simp_all add: schema_ok_def)
  let ?cs = "filter (\<lambda>e. co_name e \<noteq> co_name c) (map snd (ss_constraints st)) @ [c]"
  from assms(2) obtain sm where sm: "build_manager js ?cs (ss_namespace_constraints st) (map snd (ss_nodes st)) (map snd (ss_edges st)) = Inr sm"
    "st' = st\<lparr>ss_manager := sm, ss_constraints := bt_insert (co_name c) c (ss_constraints st)\<rparr>"
    by (auto simp: persist_constraint_def replace_schema_manager_def load_constraints_def result_bind_Inr_iff)
  show ?thesis using build_tables [OF ok by_name_replace(2) [OF C] M sm(1) by_name_replace(1) [OF C] named_insert [OF C]]
    by (simp add: sm(2) schema_ok_def)
qed

lemma delete_ok:
  assumes ok: "schema_ok js st" and "delete_constraint js name st = Inr (b, st')"
  shows "schema_ok js st'"
proof -
  have C: "named (ss_constraints st)" and M: "named_in (ss_namespace_constraints st)" using ok by (simp_all add: schema_ok_def)
  let ?cs = "filter (\<lambda>e. co_name e \<noteq> name) (map snd (ss_constraints st))"
  from assms(2) obtain sm where sm: "build_manager js ?cs (ss_namespace_constraints st) (map snd (ss_nodes st)) (map snd (ss_edges st)) = Inr sm"
    "st' = st\<lparr>ss_manager := sm, ss_constraints := bt_remove name (ss_constraints st)\<rparr>"
    by (auto simp: delete_constraint_def replace_schema_manager_def load_constraints_def result_bind_Inr_iff)
  show ?thesis using build_tables [OF ok by_name_filter(2) [OF C] M sm(1) by_name_filter(1) [OF C] named_remove [OF C]]
    by (simp add: sm(2) schema_ok_def)
qed

lemma rebuild_with:
  assumes ok: "schema_ok js st" and M: "named_in M"
    and "rebuild_schema_manager js (st\<lparr>ss_namespace_constraints := M\<rparr>) = Inr st'"
  shows "schema_ok js st'"
proof -
  have C: "named (ss_constraints st)" using ok by (simp add: schema_ok_def)
  from assms(3) obtain sm where sm: "build_manager js (map snd (ss_constraints st)) M (map snd (ss_nodes st)) (map snd (ss_edges st)) = Inr sm"
    "st' = st\<lparr>ss_namespace_constraints := M, ss_manager := sm\<rparr>"
    by (auto simp: rebuild_schema_manager_def replace_schema_manager_def load_constraints_def result_bind_Inr_iff)
  show ?thesis using build_tables [OF ok named_list(1) [OF C] M sm(1) named_list(2) [OF C] C] by (simp add: sm(2) schema_ok_def)
qed

lemma put_back:
  assumes "bt_wf M" "bt_get M k = Some p" shows "bt_insert k p (bt_insert k c M) = M" "bt_insert k p (bt_remove k M) = M"
  by (rule bt_ext; use assms in \<open>auto simp: bt_wf_insert bt_wf_remove\<close>)+

lemma take_back:
  assumes "bt_wf M" "bt_get M k = None" shows "bt_remove k (bt_insert k c M) = M" "bt_remove k M = M"
  by (rule bt_ext; use assms in \<open>auto simp: bt_wf_insert bt_wf_remove\<close>)+

lemma persist_in_ok:
  assumes ok: "schema_ok js st"
  shows "schema_ok js (snd (persist_constraint_for_namespace js namespace c st))"
proof -
  let ?M = "ss_namespace_constraints st" and ?k = "(namespace, co_name c)"
  have M: "named_in ?M" "bt_wf ?M" using ok by (auto simp: schema_ok_def named_in_def)
  show ?thesis
  proof (cases "rebuild_schema_manager js (st\<lparr>ss_namespace_constraints := bt_insert ?k c ?M\<rparr>)")
    case (Inr st')
    then show ?thesis using rebuild_with [OF ok named_in_insert [OF M(1)] Inr] by (simp add: persist_constraint_for_namespace_def Let_def)
  next
    case (Inl e)
    then show ?thesis using ok put_back(1) [OF M(2), of ?k] take_back(1) [OF M(2), of ?k]
      by (cases "bt_get ?M ?k") (simp_all add: persist_constraint_for_namespace_def Let_def)
  qed
qed

lemma delete_in_ok:
  assumes ok: "schema_ok js st"
  shows "schema_ok js (snd (delete_constraint_for_namespace js namespace name st))"
proof -
  let ?M = "ss_namespace_constraints st" and ?k = "(namespace, name)"
  have M: "named_in ?M" "bt_wf ?M" using ok by (auto simp: schema_ok_def named_in_def)
  show ?thesis
  proof (cases "rebuild_schema_manager js (st\<lparr>ss_namespace_constraints := bt_remove ?k ?M\<rparr>)")
    case (Inr st')
    then show ?thesis using rebuild_with [OF ok named_in_remove [OF M(1)] Inr] by (simp add: delete_constraint_for_namespace_def Let_def)
  next
    case (Inl e)
    then show ?thesis using ok put_back(2) [OF M(2), of ?k] take_back(2) [OF M(2), of ?k]
      by (cases "bt_get ?M ?k") (simp_all add: delete_constraint_for_namespace_def Let_def)
  qed
qed

subsection \<open>Runs\<close>

interpretation schema_machine: inductive_invariant "(=) schema_store_new" "schema_step js False" "schema_ok js" for js
proof
  show "schema_ok js st" if "schema_store_new = st" for st using schema_ok_new that by blast
  show "schema_ok js st'" if ok: "schema_ok js st" and step: "schema_step js False st st'" for st st'
    using step
  proof cases
    case (commit order ops out)
    then consider e where "commit_locked js order out ops st = (Some e, st)"
      | sm where "commit_locked js order out ops st = (None, (write_batch (collect_ops st ops) st)\<lparr>ss_manager := sm\<rparr>)"
        "accepted js (collect_ops st ops) st sm"
      using commit_result [OF ok, of order ops out] by blast
    then show ?thesis
    proof cases
      case 1
      then show ?thesis using ok commit(1) by simp
    next
      case 2
      then show ?thesis using accepted_ok [OF ok collect_faithful(1) [OF commit(3)] 2(2)] commit(1) by simp
    qed
  qed (use ok in \<open>auto intro: persist_constraint_ok delete_ok persist_in_ok delete_in_ok\<close>)
qed

lemma ok_constraints_hold:
  assumes ok: "schema_ok js st" shows "constraints_hold js (ss_namespace_constraints st) (store_contents st)"
proof -
  have "named (ss_constraints st)" and r: "rules_of (ss_manager st) = (ss_constraints st, ss_namespace_constraints st)"
    and t: "tracks js (ss_manager st) (bt_get (ss_nodes st)) (bt_get (ss_edges st))" using ok by (simp_all add: schema_ok_def)
  then have "rules (ss_manager st) = active_rules (bt_get (ss_constraints st)) (ss_namespace_constraints st)"
    using active_rules_table [of "ss_constraints st" "ss_namespace_constraints st"] by (simp add: rules_def rules_of_def named_def)
  then show ?thesis using tracks_rules [OF t] by (simp add: constraints_hold_def store_contents_def)
qed

lemma base_rules:
  assumes ok: "schema_ok js st" and fresh: "\<forall>op\<in>set ops. fresh_op st op" and ends: "clear_ends (fst (snd (fold write_op ops (store_contents st))))"
  defines "bc \<equiv> collect_ops st ops"
  defines "base \<equiv> base_manager (ss_constraints (write_batch bc st)) (ss_namespace_constraints st)"
  shows "constraints_hold js (ss_namespace_constraints st) (fold write_op ops (store_contents st)) \<longleftrightarrow>
    all_accepted js base (latest (bt_get (ss_nodes st)) (bc_nodes bc)) (latest (bt_get (ss_edges st)) (bc_edges bc)) \<and>
    keys_disjoint (registered js base (latest (bt_get (ss_nodes st)) (bc_nodes bc)) (latest (bt_get (ss_edges st)) (bc_edges bc)))"
proof -
  have f: "batch_faithful bc st" and g: "batch_contents bc st = fold write_op ops (store_contents st)"
    unfolding bc_def by (rule collect_faithful [OF fresh])+
  note C = write_batch_constraints [OF ok f]
  have "rules base = active_rules (latest_rule (bt_get (ss_constraints st)) (bc_constraints bc)) (ss_namespace_constraints st)"
    using active_rules_table [of "ss_constraints (write_batch bc st)"] C(1,2) by (simp add: rules_def base_def base_manager_def named_def)
  then have "constraints_hold js (ss_namespace_constraints st) (fold write_op ops (store_contents st)) \<longleftrightarrow>
      rules_hold js (rules base) (latest (bt_get (ss_nodes st)) (bc_nodes bc)) (latest (bt_get (ss_edges st)) (bc_edges bc))"
    unfolding constraints_hold_def g [symmetric] batch_contents_def by simp
  also have "\<dots> \<longleftrightarrow> all_accepted js base (latest (bt_get (ss_nodes st)) (bc_nodes bc)) (latest (bt_get (ss_edges st)) (bc_edges bc)) \<and>
      keys_disjoint (registered js base (latest (bt_get (ss_nodes st)) (bc_nodes bc)) (latest (bt_get (ss_edges st)) (bc_edges bc)))"
    by (rule rules_iff_keys) (use ends in \<open>simp add: g [symmetric] batch_contents_def\<close>)
  finally show ?thesis .
qed

lemma visits_single: "visits ks [(i, c)] \<Longrightarrow> ks = [i]"
  by (cases ks; cases "tl ks") (auto simp: visits_def bt_keys_def)

lemma latest_single: "latest N [(i, (old, new))] = N(i := new)"
  by (auto simp: latest_def bt_get_def fun_eq_iff)

lemma single_node_accepted:
  assumes ok: "schema_ok js st" and bc: "collect_ops st [op] = \<lparr>bc_nodes = [(i, (bt_get (ss_nodes st) i, new))], bc_edges = [], bc_constraints = []\<rparr>"
    and order: "batch_order order [op] st" and ids: "\<And>n. new = Some n \<Longrightarrow> nr_id n = i"
    and acc: "all_accepted js (ss_manager st) ((bt_get (ss_nodes st))(i := new)) (bt_get (ss_edges st))"
      "keys_disjoint (registered js (ss_manager st) ((bt_get (ss_nodes st))(i := new)) (bt_get (ss_edges st)))"
  shows "fst (commit_locked js order BatchDone [op] st) = None"
proof -
  have o: "fst order = [i]" "snd order = []"
    using order by (auto simp: batch_order_def bc visits_single) (simp add: visits_def bt_keys_def)
  have "update_ok js (apply_node_constraint_update js (bt_get (ss_nodes st) i, new) st) st ((bt_get (ss_nodes st))(i := new)) (bt_get (ss_edges st))"
    by (rule node_update) (use ok ids in \<open>auto simp: schema_ok_def\<close>)
  then obtain sm where "apply_node_constraint_update js (bt_get (ss_nodes st) i, new) st = (None, st\<lparr>ss_manager := sm\<rparr>)"
    using acc unfolding update_ok_def by auto
  then show ?thesis by (simp add: commit_locked_def Let_def bc o in_order_def List.map_filter_simps bt_get_def)
qed

lemma single_edge_accepted:
  assumes ok: "schema_ok js st" and bc: "collect_ops st [op] = \<lparr>bc_nodes = [], bc_edges = [(i, (bt_get (ss_edges st) i, new))], bc_constraints = []\<rparr>"
    and order: "batch_order order [op] st" and ids: "\<And>e. new = Some e \<Longrightarrow> er_id e = i"
    and acc: "all_accepted js (ss_manager st) (bt_get (ss_nodes st)) ((bt_get (ss_edges st))(i := new))"
      "keys_disjoint (registered js (ss_manager st) (bt_get (ss_nodes st)) ((bt_get (ss_edges st))(i := new)))"
  shows "fst (commit_locked js order BatchDone [op] st) = None"
proof -
  have o: "fst order = []" "snd order = [i]"
    using order by (auto simp: batch_order_def bc visits_single) (simp add: visits_def bt_keys_def)
  have "update_ok js (apply_edge_constraint_update js (bt_get (ss_edges st) i, new) st) st (bt_get (ss_nodes st)) ((bt_get (ss_edges st))(i := new))"
    by (rule edge_update) (use ok ids in \<open>auto simp: schema_ok_def\<close>)
  then obtain sm where "apply_edge_constraint_update js (bt_get (ss_edges st) i, new) st = (None, st\<lparr>ss_manager := sm\<rparr>)"
    using acc unfolding update_ok_def by auto
  then show ?thesis by (simp add: commit_locked_def Let_def bc o in_order_def List.map_filter_simps bt_get_def)
qed

lemma collect_single:
  assumes "fresh_op st op"
  obtains (constraint) "bc_constraints (collect_ops st [op]) \<noteq> []"
  | (node) i new where "collect_ops st [op] = \<lparr>bc_nodes = [(i, (bt_get (ss_nodes st) i, new))], bc_edges = [], bc_constraints = []\<rparr>"
      "\<And>n. new = Some n \<Longrightarrow> nr_id n = i"
  | (edge) i new where "collect_ops st [op] = \<lparr>bc_nodes = [], bc_edges = [(i, (bt_get (ss_edges st) i, new))], bc_constraints = []\<rparr>"
      "\<And>e. new = Some e \<Longrightarrow> er_id e = i"
  using assms that by (cases op) (auto simp: collect_ops_def collect_op_def collect_change_def bt_insert_def, metis+)

lemma commit_accepted:
  assumes ok: "schema_ok js st" and order: "batch_order order ops st" and fresh: "\<forall>op\<in>set ops. fresh_op st op"
    and kind: "length ops = 1 \<or> bc_constraints (collect_ops st ops) \<noteq> []"
    and ends: "clear_ends (fst (snd (fold write_op ops (store_contents st))))"
    and holds: "constraints_hold js (ss_namespace_constraints st) (fold write_op ops (store_contents st))"
  shows "fst (commit_locked js order BatchDone ops st) = None"
proof -
  let ?bc = "collect_ops st ops"
  let ?base = "base_manager (ss_constraints (write_batch ?bc st)) (ss_namespace_constraints st)"
  let ?N = "latest (bt_get (ss_nodes st)) (bc_nodes ?bc)" and ?E = "latest (bt_get (ss_edges st)) (bc_edges ?bc)"
  have f: "batch_faithful ?bc st" by (rule collect_faithful(1) [OF fresh])
  have acc: "all_accepted js ?base ?N ?E \<and> keys_disjoint (registered js ?base ?N ?E)" using base_rules [OF ok fresh ends] holds by blast
  show ?thesis
  proof (cases "bc_constraints ?bc = []")
    case False
    have "is_ok (build_manager js (map snd (effective_constraints (bc_constraints ?bc) st)) (ss_namespace_constraints st)
        (final_nodes (bc_nodes ?bc) (ss_nodes st)) (final_edges (bc_edges ?bc) (ss_edges st)))"
      using build_batch(2) [OF ok f] acc by blast
    then show ?thesis using False by (auto simp: commit_locked_def Let_def is_ok_iff)
  next
    case True
    then obtain op where op: "ops = [op]" using kind by (cases ops; cases "tl ops") auto
    have keep: "ss_constraints (write_batch ?bc st) = ss_constraints st" by (simp add: write_batch_parts True)
    then have same: "rules_of ?base = rules_of (ss_manager st)" using ok by (simp add: schema_ok_def)
    note acc' = acc [unfolded registered_cong [OF same] all_accepted_cong [OF same]]
    have "fresh_op st op" using fresh by (simp add: op)
    then show ?thesis
    proof (cases rule: collect_single)
      case constraint
      then show ?thesis using True by (simp add: op)
    next
      case (node i new)
      show ?thesis using acc' order unfolding op node(1) by (intro single_node_accepted [OF ok node(1) _ node(2)]) (simp_all add: latest_single)
    next
      case (edge i new)
      show ?thesis using acc' order unfolding op edge(1) by (intro single_edge_accepted [OF ok edge(1) _ edge(2)]) (simp_all add: latest_single)
    qed
  qed
qed

end
