(* ===== verification/Schema_Guarantees.thy ===== *)
theory Schema_Guarantees
  imports Schema_Correct
begin

text \<open>
  What the constraints of crates/storage/src/lib.rs guarantee to their users, over whole runs from an
  empty store, with runs that reach the guarantees and the runs that fall short of them.
\<close>

subsection \<open>Contents after a batch\<close>

definition stored_like :: "'j node_record \<Rightarrow> 'j node_record \<Rightarrow> bool" where
  "stored_like n m \<longleftrightarrow> m = n \<or> m = clear_managed_chunk_embeddings n"

definition same_contents :: "'n graph_rules \<Rightarrow> 'n graph_rules \<Rightarrow> bool" where
  "same_contents g g' \<longleftrightarrow> (\<forall>i. rel_option stored_like (fst g i) (fst g' i)) \<and> snd g = snd g'"

lemma write_batch_stored:
  assumes ok: "schema_ok js st" and f: "batch_faithful bc st"
  shows "rel_option stored_like (latest (bt_get (ss_nodes st)) (bc_nodes bc) i) (bt_get (ss_nodes (write_batch bc st)) i)"
  unfolding write_batch_node [OF ok f] latest_def
  by (auto simp: rel_option_iff stored_like_def stored_node_def split: option.split)

lemma written_contents:
  assumes ok: "schema_ok js st" and fresh: "\<forall>op\<in>set ops. fresh_op st op"
  defines "bc \<equiv> collect_ops st ops"
  shows "same_contents (fold write_op ops (store_contents st)) (store_contents ((write_batch bc st)\<lparr>ss_manager := sm\<rparr>))"
proof -
  have f: "batch_faithful bc st" and g: "batch_contents bc st = fold write_op ops (store_contents st)"
    unfolding bc_def by (rule collect_faithful [OF fresh])+
  show ?thesis unfolding g [symmetric] using write_batch_stored [OF ok f] write_batch_edges(3) [OF ok f] write_batch_constraints(2) [OF ok f]
    by (simp add: same_contents_def batch_contents_def store_contents_def)
qed

lemma accepted_base:
  assumes "accepted js bc st sm"
  shows "all_accepted js (base_manager (ss_constraints (write_batch bc st)) (ss_namespace_constraints st))
      (latest (bt_get (ss_nodes st)) (bc_nodes bc)) (latest (bt_get (ss_edges st)) (bc_edges bc)) \<and>
    keys_disjoint (registered js (base_manager (ss_constraints (write_batch bc st)) (ss_namespace_constraints st))
      (latest (bt_get (ss_nodes st)) (bc_nodes bc)) (latest (bt_get (ss_edges st)) (bc_edges bc)))"
proof -
  have same: "rules_of (base_manager (ss_constraints (write_batch bc st)) (ss_namespace_constraints st)) = rules_of sm"
    using assms by (simp add: accepted_def)
  show ?thesis using assms holds_disjoint [of _ sm] unfolding accepted_def tracks_def registered_cong [OF same] all_accepted_cong [OF same]
    by blast
qed

lemma define_exact:
  assumes ok: "schema_ok js st" and ends: "clear_ends (bt_get (ss_edges st))"
  shows "case persist_constraint js c st of
      Inr st' \<Rightarrow> constraints_hold js (ss_namespace_constraints st) (write_op (PutConstraintOp c) (store_contents st)) \<and>
        store_contents st' = write_op (PutConstraintOp c) (store_contents st) \<and> ss_namespace_constraints st' = ss_namespace_constraints st
    | Inl e \<Rightarrow> \<not> constraints_hold js (ss_namespace_constraints st) (write_op (PutConstraintOp c) (store_contents st))"
proof -
  let ?M = "ss_namespace_constraints st" and ?C = "bt_insert (co_name c) c (ss_constraints st)"
  let ?cs = "filter (\<lambda>e. co_name e \<noteq> co_name c) (map snd (ss_constraints st)) @ [c]"
  let ?N = "bt_get (ss_nodes st)" and ?E = "bt_get (ss_edges st)"
  let ?build = "build_manager js ?cs ?M (map snd (ss_nodes st)) (map snd (ss_edges st))"
  have C: "named (ss_constraints st)" "bt_wf (ss_constraints st)" and M: "named_in ?M" using ok by (auto simp: schema_ok_def named_def)
  have persist: "persist_constraint js c st = result_bind ?build (\<lambda>sm. Inr (st\<lparr>ss_manager := sm, ss_constraints := ?C\<rparr>))"
    by (cases ?build) (simp_all add: persist_constraint_def replace_schema_manager_def load_constraints_def)
  have lists: "lists nr_id (map snd (ss_nodes st)) ?N" "lists er_id (map snd (ss_edges st)) ?E" using ok by (simp_all add: schema_ok_def lists_table)
  note build = build_ok(1) [OF by_name_replace(2) [OF C(1)] M lists, of js, unfolded by_name_replace(1) [OF C(1)]]
  have get: "bt_get ?C = (bt_get (ss_constraints st))(co_name c \<mapsto> c)" by (rule ext) simp
  have "rules (base_manager ?C ?M) = active_rules (bt_get ?C) ?M"
    using active_rules_table [of ?C ?M] C(2) by (simp add: rules_def base_manager_def bt_wf_insert)
  then have "constraints_hold js ?M (write_op (PutConstraintOp c) (store_contents st)) \<longleftrightarrow> rules_hold js (rules (base_manager ?C ?M)) ?N ?E"
    by (simp add: constraints_hold_def store_contents_def get)
  then have holds: "constraints_hold js ?M (write_op (PutConstraintOp c) (store_contents st)) \<longleftrightarrow> is_ok ?build"
    unfolding build rules_iff_keys [OF ends] .
  show ?thesis
  proof (cases ?build)
    case (Inr sm)
    then show ?thesis using holds by (simp add: persist store_contents_def get)
  next
    case (Inl e)
    then show ?thesis using holds by (simp add: persist)
  qed
qed

subsection \<open>Data for examples\<close>

definition demo_text :: "nat json \<Rightarrow> string" where
  "demo_text v = (case v of JString s \<Rightarrow> s | _ \<Rightarrow> [])"

definition demo_unique :: "nat constraint" where
  "demo_unique = \<lparr>co_name = ''u'', co_type = UniqueConstraint, co_entity_type = OnNode, co_label = ''U'', co_properties = [''p''],
     co_type_name = None, co_allowed_values = []\<rparr>"

definition demo_user :: "string \<Rightarrow> string \<Rightarrow> nat json node_record" where
  "demo_user i v = \<lparr>nr_id = i, nr_labels = [''U''], nr_properties = [(''p'', JString v)], nr_named_embeddings = [], nr_chunk_embeddings = [],
     nr_embed_meta = \<lparr>em_embedding_model = None, em_embedding_generation = None, em_embedding_dimensions = None, em_has_embedding = None,
       em_embedded_at = None, em_has_chunks = None, em_chunk_count = None\<rparr>,
     nr_created_at = 0, nr_updated_at = 0\<rparr>"

definition demo_ruled :: "nat schema_store" where
  "demo_ruled = projr (persist_constraint demo_text demo_unique schema_store_new)"

text \<open>Puts of one node each.\<close>

definition demo_put :: "batch_outcome \<Rightarrow> string \<Rightarrow> string \<Rightarrow> nat schema_store \<Rightarrow> storage_error option \<times> nat schema_store" where
  "demo_put out i v st = commit_locked demo_text ([i], []) out [PutNodeOp (demo_user i v)] st"

definition demo_one :: "nat schema_store" where
  "demo_one = snd (demo_put BatchDone ''a'' ''x'' demo_ruled)"

definition demo_two :: "nat schema_store" where
  "demo_two = snd (demo_put BatchDone ''b'' ''y'' demo_one)"

lemma demo_put_step:
  assumes "(schema_step demo_text faults)\<^sup>*\<^sup>* schema_store_new st" "faults \<or> (\<forall>e. out \<noteq> StageError e)"
  shows "(schema_step demo_text faults)\<^sup>*\<^sup>* schema_store_new (snd (demo_put out i v st))"
proof -
  have "batch_order ([i], []) [PutNodeOp (demo_user i v)] st"
    by (simp add: batch_order_def visits_def collect_ops_def collect_op_def collect_change_def bt_insert_def bt_keys_def demo_user_def)
  then have "schema_step demo_text faults st (snd (demo_put out i v st))"
    unfolding demo_put_def by (rule schema_step.commit) (use assms(2) in simp_all)
  with assms(1) show ?thesis by (rule rtranclp.rtrancl_into_rtrancl)
qed

lemma demo_ruled_reached: "(schema_step demo_text faults)\<^sup>*\<^sup>* schema_store_new demo_ruled"
proof -
  have "persist_constraint demo_text demo_unique schema_store_new = Inr demo_ruled"
    by (simp add: demo_ruled_def persist_constraint_def replace_schema_manager_def build_manager_def load_constraints_def schema_store_new_def
        add_constraint_def add_namespace_constraints_to_manager_def schema_manager_new_def)
  then have "schema_step demo_text faults schema_store_new demo_ruled" by (rule schema_step.persist)
  then show ?thesis by (rule r_into_rtranclp)
qed

lemma demo_two_reached: "(schema_step demo_text faults)\<^sup>*\<^sup>* schema_store_new demo_two"
  unfolding demo_two_def demo_one_def by (intro demo_put_step demo_ruled_reached) simp_all

lemma demo_nodes: "fst (store_contents demo_two) ''a'' = Some (demo_user ''a'' ''x'')" "fst (store_contents demo_two) ''b'' = Some (demo_user ''b'' ''y'')"
  by code_simp+

lemma demo_no_edges: "ss_edges demo_two = []" by code_simp

lemma demo_order: "batch_order ([i], []) [PutNodeOp (demo_user i v)] st"
  by (simp add: batch_order_def visits_def collect_ops_def collect_op_def collect_change_def bt_insert_def bt_keys_def demo_user_def)

lemma demo_clear: "clear_ends (fst (snd (fold write_op [PutNodeOp n] (store_contents demo_two))))"
  by (simp add: store_contents_def demo_no_edges clear_ends_def ran_def)

lemma demo_refused: "fst (demo_put BatchDone ''c'' ''y'' demo_two) \<noteq> None" by code_simp

subsection \<open>Where the guarantees end\<close>

text \<open>
  A batch that fails after its checks and before its write, when a version cannot be staged or the log not
  written, leaves the manager with values it does not store and without the values it does: the next batch
  can then store a second node with the same unique value.
\<close>

definition demo_error :: storage_error where
  "demo_error = IterationStopped"

lemma node_rule_unique:
  assumes "node_rule_holds js r N" "asks_unique OnNode (snd r)"
    and "N i = Some n" "l \<in> set (nr_labels n)" "rule_covers OnNode r i l"
    and "N j = Some m" "l' \<in> set (nr_labels m)" "rule_covers OnNode r j l'"
    and "value_texts js (nr_properties n) (co_properties (snd r)) = Some vs" "value_texts js (nr_properties m) (co_properties (snd r)) = Some vs"
  shows "i = j"
proof -
  have "value_texts js (nr_properties n) (co_properties (snd r)) \<noteq> None"
    "value_texts js (nr_properties n) (co_properties (snd r)) = value_texts js (nr_properties m) (co_properties (snd r))"
    using assms(9,10) by simp_all
  then show ?thesis using assms(1-8) unfolding node_rule_holds_def Let_def by blast
qed

lemma demo_twice:
  assumes "fst g ''a'' = Some (demo_user ''a'' ''x'')" "fst g ''b'' = Some (demo_user ''b'' ''x'')" "snd (snd g) ''u'' = Some demo_unique"
  shows "\<not> constraints_hold demo_text M g"
proof
  let ?r = "(None, demo_unique)"
  assume "constraints_hold demo_text M g"
  moreover have "?r \<in> active_rules (snd (snd g)) M" using assms(3) by (auto simp: active_rules_def ran_def)
  ultimately have holds: "node_rule_holds demo_text ?r (fst g)" unfolding constraints_hold_def rules_hold_def by blast
  have texts: "value_texts demo_text (nr_properties (demo_user i ''x'')) (co_properties demo_unique) = Some [''x'']" for i
    by (simp add: value_texts_def demo_user_def demo_unique_def demo_text_def bt_get_def non_null_def)
  have "''a'' = ''b''"
    by (rule node_rule_unique [OF holds _ assms(1) _ _ assms(2), of "''U''" "''U''" "[''x'']"])
      (simp_all add: texts asks_unique_def rule_covers_def, simp_all add: demo_unique_def demo_user_def)
  then show False by simp
qed

definition demo_broken :: "nat schema_store" where
  "demo_broken = snd (demo_put BatchDone ''b'' ''x'' (snd (demo_put (StageError demo_error) ''a'' ''y'' demo_one)))"

lemma failed_batch_breaks_uniqueness:
  "(schema_step demo_text True)\<^sup>*\<^sup>* schema_store_new demo_broken \<and>
   \<not> constraints_hold demo_text (ss_namespace_constraints demo_broken) (store_contents demo_broken)"
proof
  show "(schema_step demo_text True)\<^sup>*\<^sup>* schema_store_new demo_broken"
    unfolding demo_broken_def demo_one_def by (intro demo_put_step demo_ruled_reached) simp_all
  have "fst (store_contents demo_broken) ''a'' = Some (demo_user ''a'' ''x'')" "fst (store_contents demo_broken) ''b'' = Some (demo_user ''b'' ''x'')"
    "snd (snd (store_contents demo_broken)) ''u'' = Some demo_unique" by code_simp+
  then show "\<not> constraints_hold demo_text (ss_namespace_constraints demo_broken) (store_contents demo_broken)"
    using demo_twice by blast
qed

lemma staging_leaves_manager:
  "fst (commit_locked demo_text ([''a''], []) (StageError demo_error) [PutNodeOp (demo_user ''a'' ''y'')] demo_one) \<noteq> None \<and>
   snd (commit_locked demo_text ([''a''], []) (StageError demo_error) [PutNodeOp (demo_user ''a'' ''y'')] demo_one) \<noteq> demo_one"
proof -
  let ?r = "commit_locked demo_text ([''a''], []) (StageError demo_error) [PutNodeOp (demo_user ''a'' ''y'')] demo_one"
  let ?key = "(node_scope None, ''U'', [''p''], [''y''])"
  have "fst ?r \<noteq> None" "sm_owners (ss_manager (snd ?r)) ?key \<noteq> None" "sm_owners (ss_manager demo_one) ?key = None" by code_simp+
  then show ?thesis by metis
qed

text \<open>
  A batch that moves a unique value from one node to another is accepted or refused depending on the order
  in which its hash map of changes is visited.
\<close>

definition demo_move :: "nat schema_op list" where
  "demo_move = [PutNodeOp (demo_user ''a'' ''z''), PutNodeOp (demo_user ''b'' ''x'')]"

lemma moved_value_depends_on_order:
  "batch_order ([''a'', ''b''], []) demo_move demo_two \<and> batch_order ([''b'', ''a''], []) demo_move demo_two \<and>
   fst (commit_locked demo_text ([''a'', ''b''], []) BatchDone demo_move demo_two) = None \<and>
   fst (commit_locked demo_text ([''b'', ''a''], []) BatchDone demo_move demo_two) \<noteq> None"
  by (intro conjI; code_simp)

text \<open>Two relationships whose ends differ share a key when the names of the ends join to one text.\<close>

lemma joined_ends_share_key: "edge_scope ''a'' ''b:c'' ns = edge_scope ''a:b'' ''c'' ns"
  by (simp add: edge_scope_def split: option.split)

subsection \<open>Properties\<close>

text \<open>
  C34: In every run in which no batch fails between its checks and its write, whatever definitions and
  removals of constraints and batches of writes are in it, refused ones included, every store satisfies its
  existence, uniqueness and key constraints, global and of namespaces: required properties are there and
  not null, and no two nodes, and no two relationships with the same ends, have the same texts of the
  unique properties. Type, temporal and domain constraints are stored and never checked, and nothing is
  said of them. The second part is a run of the code that a failed batch breaks uniqueness in.
\<close>

theorem constraints_enforced:
  assumes "(schema_step js False)\<^sup>*\<^sup>* schema_store_new st"
  shows "constraints_hold js (ss_namespace_constraints st) (store_contents st) \<and>
    (\<exists>broken. (schema_step demo_text True)\<^sup>*\<^sup>* schema_store_new broken \<and>
      \<not> constraints_hold demo_text (ss_namespace_constraints broken) (store_contents broken))"
  using ok_constraints_hold [OF schema_machine.inv_reachable [OF refl assms]] failed_batch_breaks_uniqueness by blast

theorem constraints_enforced_witness:
  "constraints_hold demo_text (ss_namespace_constraints demo_two) (store_contents demo_two)"
  using constraints_enforced [OF demo_two_reached] by blast

text \<open>
  C35: In a store that a run without such failures reached, and where the ends of relationships do not run
  together (\<open>clear_ends\<close>: joined with a colon they tell which ends they are, else a valid relationship is
  refused, \<open>joined_ends_share_key\<close>), a batch of one write, or one that changes constraints, is refused by
  its checks exactly when the records and constraints it leaves would not satisfy the existence, uniqueness
  and key constraints. Type, temporal and domain constraints refuse nothing.
\<close>

theorem commit_exact:
  assumes "(schema_step js False)\<^sup>*\<^sup>* schema_store_new st" "batch_order order ops st" "\<forall>op\<in>set ops. fresh_op st op"
    and "length ops = 1 \<or> bc_constraints (collect_ops st ops) \<noteq> []" "clear_ends (fst (snd (fold write_op ops (store_contents st))))"
  shows "fst (commit_locked js order BatchDone ops st) = None \<longleftrightarrow>
    constraints_hold js (ss_namespace_constraints st) (fold write_op ops (store_contents st))"
proof
  have ok: "schema_ok js st" by (rule schema_machine.inv_reachable [OF refl assms(1)])
  show "fst (commit_locked js order BatchDone ops st) = None"
    if "constraints_hold js (ss_namespace_constraints st) (fold write_op ops (store_contents st))"
    by (rule commit_accepted [OF ok assms(2-5) that])
  assume "fst (commit_locked js order BatchDone ops st) = None"
  then obtain sm where acc: "accepted js (collect_ops st ops) st sm"
    using commit_result [OF ok assms(2,3), of BatchDone] by auto
  then show "constraints_hold js (ss_namespace_constraints st) (fold write_op ops (store_contents st))"
    unfolding base_rules [OF ok assms(3,5)] by (rule accepted_base)
qed

theorem commit_exact_witness:
  "fst (commit_locked demo_text ([''c''], []) BatchDone [PutNodeOp (demo_user ''c'' ''y'')] demo_two) \<noteq> None \<and>
   \<not> constraints_hold demo_text (ss_namespace_constraints demo_two) (fold write_op [PutNodeOp (demo_user ''c'' ''y'')] (store_contents demo_two)) \<and>
   fst (commit_locked demo_text ([''c''], []) BatchDone [PutNodeOp (demo_user ''c'' ''z'')] demo_two) = None \<and>
   constraints_hold demo_text (ss_namespace_constraints demo_two) (fold write_op [PutNodeOp (demo_user ''c'' ''z'')] (store_contents demo_two))"
proof -
  have "fst (commit_locked demo_text ([''c''], []) BatchDone [PutNodeOp (demo_user ''c'' ''y'')] demo_two) \<noteq> None" by code_simp
  moreover have "fst (commit_locked demo_text ([''c''], []) BatchDone [PutNodeOp (demo_user ''c'' ''z'')] demo_two) = None" by code_simp
  ultimately show ?thesis
    using commit_exact [OF demo_two_reached demo_order _ _ demo_clear, of "''c''" "''y''"]
      commit_exact [OF demo_two_reached demo_order _ _ demo_clear, of "''c''" "''z''"] by simp
qed



text \<open>
  A constraint can be defined exactly when the stored records satisfy it together with the others, and
  defining it changes nothing else; otherwise nothing changes.
\<close>

theorem define_constraint_exact:
  assumes "(schema_step js False)\<^sup>*\<^sup>* schema_store_new st" "clear_ends (bt_get (ss_edges st))"
  shows "case persist_constraint js c st of
      Inr st' \<Rightarrow> constraints_hold js (ss_namespace_constraints st) (write_op (PutConstraintOp c) (store_contents st)) \<and>
        store_contents st' = write_op (PutConstraintOp c) (store_contents st) \<and> ss_namespace_constraints st' = ss_namespace_constraints st
    | Inl e \<Rightarrow> \<not> constraints_hold js (ss_namespace_constraints st) (write_op (PutConstraintOp c) (store_contents st))"
  using define_exact [OF schema_machine.inv_reachable [OF refl assms(1)] assms(2)] by blast

theorem define_constraint_exact_witness:
  "constraints_hold demo_text (ss_namespace_constraints demo_two)
     (write_op (PutConstraintOp (demo_unique\<lparr>co_name := ''k'', co_type := NodeKeyConstraint\<rparr>)) (store_contents demo_two))"
proof -
  let ?c = "demo_unique\<lparr>co_name := ''k'', co_type := NodeKeyConstraint\<rparr>"
  have "is_ok (persist_constraint demo_text ?c demo_two)" by code_simp
  then obtain st' where "persist_constraint demo_text ?c demo_two = Inr st'" unfolding is_ok_iff ..
  moreover have "clear_ends (bt_get (ss_edges demo_two))" by (simp add: demo_no_edges clear_ends_def ran_def)
  ultimately show ?thesis using define_constraint_exact [OF demo_two_reached, of ?c] by simp
qed

end
