(* ===== verification/Policy_Catalog.thy ===== *)
theory Policy_Catalog
  imports Schema_Engine
begin

text \<open>
  The knowledge policies that the storage engine of crates/storage/src/lib.rs keeps: profiles and
  bindings of decay, profiles and policies of promotion, what is checked of each, and the operations
  that define, alter and remove them in the tables. Floating-point fields are the bits of an \<open>f64\<close>,
  compared as the code compares them; \<open>as_f64\<close> and \<open>as_i64\<close> of a JSON number are arguments.
\<close>

subsection \<open>Data\<close>

record decay_profile =
  dp_name :: string
  dp_half_life_seconds :: int
  dp_visibility_threshold :: "64 word"
  dp_score_floor :: "64 word"
  dp_function :: string
  dp_scope :: string
  dp_decay_enabled :: bool
  dp_score_from :: string
  dp_score_from_property :: "string option"
  dp_enabled :: bool

record decay_binding =
  db_name :: string
  db_target_labels :: "string list"
  db_target_edge_type :: "string option"
  db_is_wildcard :: bool
  db_is_edge :: bool
  db_profile_ref :: "string option"
  db_no_decay :: bool
  db_visibility_threshold :: "64 word option"
  db_order :: int

record promotion_profile =
  pp_name :: string
  pp_scope :: string
  pp_multiplier :: "64 word"
  pp_score_floor :: "64 word"
  pp_score_cap :: "64 word"
  pp_enabled :: bool

record when_clause =
  wc_profile_ref :: string
  wc_predicate :: string
  wc_order :: int

datatype on_access_mutation = SetLastAccessedNow | IncrementAccessCount

record promotion_policy =
  po_name :: string
  po_target_labels :: "string list"
  po_target_edge_type :: "string option"
  po_is_wildcard :: bool
  po_is_edge :: bool
  po_enabled :: bool
  po_on_access_mutations :: "on_access_mutation list"
  po_when_clauses :: "when_clause list"

record policy_catalog =
  pc_decay_profiles :: "decay_profile list"
  pc_decay_bindings :: "decay_binding list"
  pc_promotion_profiles :: "promotion_profile list"
  pc_promotion_policies :: "promotion_policy list"

subsection \<open>Comparisons of floating-point numbers\<close>

definition f64_lt :: "64 word \<Rightarrow> 64 word \<Rightarrow> bool" where
  "f64_lt a b \<longleftrightarrow> f64_partial_cmp a b = Some Less"

definition f64_eq :: "64 word \<Rightarrow> 64 word \<Rightarrow> bool" where
  "f64_eq a b \<longleftrightarrow> f64_partial_cmp a b = Some Equal"

definition f64_zero :: "64 word" where "f64_zero = 0"

definition f64_one :: "64 word" where "f64_one = 0x3FF0000000000000"

definition f64_contains_unit :: "64 word \<Rightarrow> bool" where
  "f64_contains_unit x \<longleftrightarrow> (f64_lt f64_zero x \<or> f64_eq f64_zero x) \<and> (f64_lt x f64_one \<or> f64_eq x f64_one)"

text \<open>The equality that \<open>PartialEq\<close> derives for the records with floating-point fields.\<close>

definition decay_profile_eq :: "decay_profile \<Rightarrow> decay_profile \<Rightarrow> bool" where
  "decay_profile_eq a b \<longleftrightarrow>
     f64_eq (dp_visibility_threshold a) (dp_visibility_threshold b) \<and> f64_eq (dp_score_floor a) (dp_score_floor b) \<and>
     a = b\<lparr>dp_visibility_threshold := dp_visibility_threshold a, dp_score_floor := dp_score_floor a\<rparr>"

definition decay_binding_eq :: "decay_binding \<Rightarrow> decay_binding \<Rightarrow> bool" where
  "decay_binding_eq a b \<longleftrightarrow>
     rel_option f64_eq (db_visibility_threshold a) (db_visibility_threshold b) \<and>
     a = b\<lparr>db_visibility_threshold := db_visibility_threshold a\<rparr>"

definition promotion_profile_eq :: "promotion_profile \<Rightarrow> promotion_profile \<Rightarrow> bool" where
  "promotion_profile_eq a b \<longleftrightarrow>
     f64_eq (pp_multiplier a) (pp_multiplier b) \<and> f64_eq (pp_score_floor a) (pp_score_floor b) \<and>
     f64_eq (pp_score_cap a) (pp_score_cap b) \<and>
     a = b\<lparr>pp_multiplier := pp_multiplier a, pp_score_floor := pp_score_floor a, pp_score_cap := pp_score_cap a\<rparr>"

definition policy_catalog_eq :: "policy_catalog \<Rightarrow> policy_catalog \<Rightarrow> bool" where
  "policy_catalog_eq a b \<longleftrightarrow>
     list_all2 decay_profile_eq (pc_decay_profiles a) (pc_decay_profiles b) \<and>
     list_all2 decay_binding_eq (pc_decay_bindings a) (pc_decay_bindings b) \<and>
     list_all2 promotion_profile_eq (pc_promotion_profiles a) (pc_promotion_profiles b) \<and>
     pc_promotion_policies a = pc_promotion_policies b"

subsection \<open>Validation\<close>

definition ascii_upper :: "string \<Rightarrow> string" where
  "ascii_upper = map (\<lambda>c. let k = of_char c :: nat in if 97 \<le> k \<and> k \<le> 122 then char_of (k - 32) else c)"

definition ascii_lower :: "string \<Rightarrow> string" where
  "ascii_lower = map (\<lambda>c. let k = of_char c :: nat in if 65 \<le> k \<and> k \<le> 90 then char_of (k + 32) else c)"

definition validate_scope :: "string \<Rightarrow> bool" where
  "validate_scope s \<longleftrightarrow> ascii_upper s \<in> {''NODE'', ''EDGE''}"

definition validate_decay_function :: "string \<Rightarrow> bool" where
  "validate_decay_function f \<longleftrightarrow> ascii_lower f \<in> {''exponential'', ''linear'', ''step'', ''none''}"

definition validate_score_from :: "string \<Rightarrow> bool" where
  "validate_score_from m \<longleftrightarrow> ascii_upper m \<in> {''CREATED'', ''LAST_ACCESSED'', ''VERSION'', ''CUSTOM''}"

definition blank :: "string \<Rightarrow> bool" where
  "blank s \<longleftrightarrow> trim s = []"

text \<open>\<open>x < 0.0 || x > 1.0\<close>\<close>

definition outside_unit :: "64 word \<Rightarrow> bool" where
  "outside_unit x \<longleftrightarrow> f64_lt x f64_zero \<or> f64_lt f64_one x"

definition quoted :: "string \<Rightarrow> string" where
  "quoted s = CHR 0x27 # s @ [CHR 0x27]"

text \<open>A sequence of guards, each of which returns its error.\<close>

fun first_error :: "(bool \<times> string) list \<Rightarrow> storage_error option" where
  "first_error [] = None"
| "first_error ((bad, message) # rest) = (if bad then Some (KnowledgePolicyInvalid message) else first_error rest)"

definition validate_decay_profile :: "decay_profile \<Rightarrow> storage_error option" where
  "validate_decay_profile p = first_error
     [(blank (dp_name p), ''decay profile name is required''),
      (\<not> validate_decay_function (dp_function p), ''invalid decay function '' @ quoted (dp_function p)),
      (\<not> validate_scope (dp_scope p), ''invalid scope '' @ quoted (dp_scope p)),
      (\<not> validate_score_from (dp_score_from p), ''invalid scoreFrom '' @ quoted (dp_score_from p)),
      (outside_unit (dp_visibility_threshold p), ''visibilityThreshold must be between 0 and 1''),
      (outside_unit (dp_score_floor p), ''scoreFloor must be between 0 and 1''),
      (ascii_lower (dp_score_from p) = ''custom'' \<and> (case dp_score_from_property p of None \<Rightarrow> True | Some s \<Rightarrow> blank s),
         ''scoreFromProperty is required when scoreFrom is CUSTOM'')]"

definition validate_decay_profile_binding :: "decay_binding \<Rightarrow> storage_error option" where
  "validate_decay_profile_binding b = first_error
     [(blank (db_name b), ''decay binding name is required''),
      (db_is_wildcard b \<and> (db_is_edge b \<or> db_target_edge_type b \<noteq> None \<or> db_target_labels b \<noteq> []),
         ''wildcard decay binding cannot target labels or edge types''),
      (\<not> db_is_wildcard b \<and> db_is_edge b \<and> blank (case db_target_edge_type b of None \<Rightarrow> [] | Some t \<Rightarrow> t),
         ''edge decay binding requires a target edge type''),
      (\<not> db_is_wildcard b \<and> db_is_edge b \<and> db_target_labels b \<noteq> [], ''edge decay binding cannot target node labels''),
      (\<not> db_is_wildcard b \<and> \<not> db_is_edge b \<and> db_target_labels b = [],
         ''node decay binding requires at least one target label''),
      (\<not> db_no_decay b \<and> (case db_profile_ref b of None \<Rightarrow> True | Some r \<Rightarrow> blank r),
         ''decay binding requires profileRef or noDecay=true''),
      (case db_visibility_threshold b of None \<Rightarrow> False | Some t \<Rightarrow> \<not> f64_contains_unit t,
         ''visibilityThreshold must be between 0 and 1'')]"

definition validate_promotion_profile :: "promotion_profile \<Rightarrow> storage_error option" where
  "validate_promotion_profile p = first_error
     [(blank (pp_name p), ''promotion profile name is required''),
      (\<not> validate_scope (pp_scope p), ''invalid scope '' @ quoted (pp_scope p)),
      (f64_lt (pp_multiplier p) f64_zero, ''multiplier must be non-negative''),
      (outside_unit (pp_score_floor p), ''scoreFloor must be between 0 and 1''),
      (outside_unit (pp_score_cap p), ''scoreCap must be between 0 and 1'')]"

definition promotion_policy_target_key :: "promotion_policy \<Rightarrow> string" where
  "promotion_policy_target_key p =
     (if po_is_edge p then ''edge:'' @ (case po_target_edge_type p of None \<Rightarrow> [] | Some t \<Rightarrow> t)
      else if po_is_wildcard p then ''wild:node''
      else ''node:'' @ join [CHR 0x00] (sort (po_target_labels p)))"

definition clause_errors :: "promotion_profile list \<Rightarrow> when_clause \<Rightarrow> (bool \<times> string) list" where
  "clause_errors profiles clause =
     [(blank (wc_profile_ref clause), ''promotion WHEN clause requires profileRef''),
      (wc_profile_ref clause \<notin> pp_name ` set profiles, ''promotion profile '' @ quoted (wc_profile_ref clause) @ '' not found'')]"

definition validate_promotion_policy ::
    "promotion_policy \<Rightarrow> promotion_profile list \<Rightarrow> promotion_policy list \<Rightarrow> storage_error option" where
  "validate_promotion_policy p profiles existing = first_error
     ([(blank (po_name p), ''promotion policy name is required''),
       (po_is_edge p \<and> blank (case po_target_edge_type p of None \<Rightarrow> [] | Some t \<Rightarrow> t),
          ''promotion policy edge targets require an edge type''),
       (po_is_edge p \<and> (po_target_labels p \<noteq> [] \<or> po_is_wildcard p),
          ''promotion policy edge targets cannot also declare node labels or wildcard''),
       (\<not> po_is_edge p \<and> po_is_wildcard p \<and> (po_target_labels p \<noteq> [] \<or> po_target_edge_type p \<noteq> None),
          ''promotion policy wildcard targets cannot declare labels or edge type''),
       (\<not> po_is_edge p \<and> \<not> po_is_wildcard p \<and> po_target_labels p = [], ''promotion policy target labels are required''),
       (po_on_access_mutations p = [] \<and> po_when_clauses p = [], ''promotion policy requires ON ACCESS mutations or WHEN clauses''),
       (list_ex (\<lambda>q. promotion_policy_target_key q = promotion_policy_target_key p) existing,
          ''promotion policy target '' @ quoted (promotion_policy_target_key p) @ '' already has a policy'')] @
      concat (map (clause_errors profiles) (po_when_clauses p)))"

subsection \<open>Options of an ALTER\<close>

definition value_as_f64 :: "('n \<Rightarrow> 64 word option) \<Rightarrow> 'n json \<Rightarrow> string \<Rightarrow> storage_error + 64 word" where
  "value_as_f64 as_f64 v field =
     (case (case v of JNumber n \<Rightarrow> as_f64 n | _ \<Rightarrow> None) of
        Some x \<Rightarrow> Inr x | None \<Rightarrow> Inl (KnowledgePolicyInvalid (field @ '' must be a number'')))"

definition value_as_i64 :: "('n \<Rightarrow> int option) \<Rightarrow> 'n json \<Rightarrow> string \<Rightarrow> storage_error + int" where
  "value_as_i64 as_i64 v field =
     (case (case v of JNumber n \<Rightarrow> as_i64 n | _ \<Rightarrow> None) of
        Some x \<Rightarrow> Inr x | None \<Rightarrow> Inl (KnowledgePolicyInvalid (field @ '' must be an integer'')))"

definition value_as_bool :: "'n json \<Rightarrow> string \<Rightarrow> storage_error + bool" where
  "value_as_bool v field =
     (case v of JBool b \<Rightarrow> Inr b | _ \<Rightarrow> Inl (KnowledgePolicyInvalid (field @ '' must be a boolean'')))"

definition value_as_string :: "'n json \<Rightarrow> string \<Rightarrow> storage_error + string" where
  "value_as_string v field =
     (case v of JString s \<Rightarrow> Inr s | _ \<Rightarrow> Inl (KnowledgePolicyInvalid (field @ '' must be a string'')))"

text \<open>\<open>field = value?\<close>: an assignment whose right-hand side may return early.\<close>

definition assign :: "('a \<Rightarrow> 's \<Rightarrow> 's) \<Rightarrow> 'e + 'a \<Rightarrow> 's \<Rightarrow> 'e option \<times> 's" where
  "assign upd r s = (case r of Inl e \<Rightarrow> (Some e, s) | Inr x \<Rightarrow> (None, upd x s))"

definition apply_decay_profile_update ::
    "('n \<Rightarrow> 64 word option) \<Rightarrow> ('n \<Rightarrow> int option) \<Rightarrow> string \<times> 'n json \<Rightarrow> decay_profile \<Rightarrow> storage_error option \<times> decay_profile" where
  "apply_decay_profile_update as_f64 as_i64 kv p =
     (let (key, v) = kv in
      if key = ''halfLifeSeconds'' then assign (\<lambda>x p. p\<lparr>dp_half_life_seconds := x\<rparr>) (value_as_i64 as_i64 v key) p
      else if key = ''visibilityThreshold'' then assign (\<lambda>x p. p\<lparr>dp_visibility_threshold := x\<rparr>) (value_as_f64 as_f64 v key) p
      else if key = ''scoreFloor'' then assign (\<lambda>x p. p\<lparr>dp_score_floor := x\<rparr>) (value_as_f64 as_f64 v key) p
      else if key = ''function'' then assign (\<lambda>x p. p\<lparr>dp_function := x\<rparr>) (value_as_string v key) p
      else if key = ''scope'' then assign (\<lambda>x p. p\<lparr>dp_scope := x\<rparr>) (value_as_string v key) p
      else if key = ''decayEnabled'' then assign (\<lambda>x p. p\<lparr>dp_decay_enabled := x\<rparr>) (value_as_bool v key) p
      else if key = ''scoreFrom'' then assign (\<lambda>x p. p\<lparr>dp_score_from := x\<rparr>) (value_as_string v key) p
      else if key = ''scoreFromProperty'' then assign (\<lambda>x p. p\<lparr>dp_score_from_property := Some x\<rparr>) (value_as_string v key) p
      else if key = ''enabled'' then assign (\<lambda>x p. p\<lparr>dp_enabled := x\<rparr>) (value_as_bool v key) p
      else (Some (KnowledgePolicyInvalid (''unknown option '' @ quoted key)), p))"

definition apply_decay_profile_updates ::
    "('n \<Rightarrow> 64 word option) \<Rightarrow> ('n \<Rightarrow> int option) \<Rightarrow> (string, 'n json) btree \<Rightarrow> decay_profile \<Rightarrow> storage_error option \<times> decay_profile" where
  "apply_decay_profile_updates as_f64 as_i64 = fold_stop (apply_decay_profile_update as_f64 as_i64)"

definition apply_promotion_profile_update ::
    "('n \<Rightarrow> 64 word option) \<Rightarrow> string \<times> 'n json \<Rightarrow> promotion_profile \<Rightarrow> storage_error option \<times> promotion_profile" where
  "apply_promotion_profile_update as_f64 kv p =
     (let (key, v) = kv in
      if key = ''multiplier'' then assign (\<lambda>x p. p\<lparr>pp_multiplier := x\<rparr>) (value_as_f64 as_f64 v key) p
      else if key = ''scoreFloor'' then assign (\<lambda>x p. p\<lparr>pp_score_floor := x\<rparr>) (value_as_f64 as_f64 v key) p
      else if key = ''scoreCap'' then assign (\<lambda>x p. p\<lparr>pp_score_cap := x\<rparr>) (value_as_f64 as_f64 v key) p
      else if key = ''scope'' then assign (\<lambda>x p. p\<lparr>pp_scope := x\<rparr>) (value_as_string v key) p
      else if key = ''enabled'' then assign (\<lambda>x p. p\<lparr>pp_enabled := x\<rparr>) (value_as_bool v key) p
      else (Some (KnowledgePolicyInvalid (''unknown option '' @ quoted key)), p))"

definition apply_promotion_profile_updates ::
    "('n \<Rightarrow> 64 word option) \<Rightarrow> (string, 'n json) btree \<Rightarrow> promotion_profile \<Rightarrow> storage_error option \<times> promotion_profile" where
  "apply_promotion_profile_updates as_f64 = fold_stop (apply_promotion_profile_update as_f64)"

definition apply_promotion_policy_update :: "string \<times> 'n json \<Rightarrow> promotion_policy \<Rightarrow> storage_error option \<times> promotion_policy" where
  "apply_promotion_policy_update kv p =
     (let (key, v) = kv in
      if key = ''enabled'' then assign (\<lambda>x p. p\<lparr>po_enabled := x\<rparr>) (value_as_bool v key) p
      else (Some (KnowledgePolicyInvalid (''unknown option '' @ quoted key)), p))"

end
