(* ===== verification/Policy_Store.thy ===== *)
theory Policy_Store
  imports Policy_Catalog
begin

text \<open>
  The tables of knowledge policies of crates/storage/src/lib.rs: their operations, and the invariant
  they keep, that everything stored is valid, names are not used twice and references resolve. Each
  operation reads and writes the tables without a lock around both; here it is one step.
\<close>

subsection \<open>Tables\<close>

record policy_store =
  kp_decay_profiles :: "(string, decay_profile) btree"
  kp_decay_bindings :: "(string, decay_binding) btree"
  kp_promotion_profiles :: "(string, promotion_profile) btree"
  kp_promotion_policies :: "(string, promotion_policy) btree"
  kp_generation :: nat

definition policy_store_new :: policy_store where
  "policy_store_new = \<lparr>kp_decay_profiles = [], kp_decay_bindings = [], kp_promotion_profiles = [], kp_promotion_policies = [], kp_generation = 0\<rparr>"

definition next_generation :: "policy_store \<Rightarrow> policy_store" where
  "next_generation s = s\<lparr>kp_generation := wadd64 (kp_generation s) 1\<rparr>"

definition load_decay_profile_schemas :: "policy_store \<Rightarrow> decay_profile list" where
  "load_decay_profile_schemas s = sort_key dp_name (map snd (kp_decay_profiles s))"

definition load_decay_profile_binding_schemas :: "policy_store \<Rightarrow> decay_binding list" where
  "load_decay_profile_binding_schemas s = sort_key db_name (map snd (kp_decay_bindings s))"

definition load_promotion_profile_schemas :: "policy_store \<Rightarrow> promotion_profile list" where
  "load_promotion_profile_schemas s = sort_key pp_name (map snd (kp_promotion_profiles s))"

definition load_promotion_policy_schemas :: "policy_store \<Rightarrow> promotion_policy list" where
  "load_promotion_policy_schemas s = sort_key po_name (map snd (kp_promotion_policies s))"

definition load_knowledge_policy_catalog :: "policy_store \<Rightarrow> policy_catalog" where
  "load_knowledge_policy_catalog s =
     \<lparr>pc_decay_profiles = load_decay_profile_schemas s, pc_decay_bindings = load_decay_profile_binding_schemas s,
      pc_promotion_profiles = load_promotion_profile_schemas s, pc_promotion_policies = load_promotion_policy_schemas s\<rparr>"

subsection \<open>Decay\<close>

definition fails :: "bool \<Rightarrow> 'e \<Rightarrow> 'e + unit" where
  "fails bad e = (if bad then Inl e else Inr ())"

definition checked :: "'e option \<Rightarrow> 'e + unit" where
  "checked r = (case r of Some e \<Rightarrow> Inl e | None \<Rightarrow> Inr ())"

definition found :: "'a option \<Rightarrow> 'e \<Rightarrow> 'e + 'a" where
  "found r e = (case r of Some x \<Rightarrow> Inr x | None \<Rightarrow> Inl e)"

definition persist_decay_profile_schema :: "decay_profile \<Rightarrow> policy_store \<Rightarrow> storage_error + policy_store" where
  "persist_decay_profile_schema p s =
     result_bind (checked (validate_decay_profile p)) (\<lambda>_.
     result_bind (fails (bt_get (kp_decay_profiles s) (dp_name p) \<noteq> None \<or> bt_get (kp_decay_bindings s) (dp_name p) \<noteq> None)
       (KnowledgePolicyAlreadyExists (''decay profile '' @ dp_name p))) (\<lambda>_.
     Inr (next_generation (s\<lparr>kp_decay_profiles := bt_insert (dp_name p) p (kp_decay_profiles s)\<rparr>))))"

definition sorted_targets :: "decay_binding \<Rightarrow> decay_binding" where
  "sorted_targets b = b\<lparr>db_target_labels := sort (db_target_labels b)\<rparr>"

definition persist_decay_profile_binding_schema :: "decay_binding \<Rightarrow> policy_store \<Rightarrow> storage_error + policy_store" where
  "persist_decay_profile_binding_schema b s =
     result_bind (checked (validate_decay_profile_binding b)) (\<lambda>_.
     result_bind (case db_profile_ref b of
         Some r \<Rightarrow> fails (bt_get (kp_decay_profiles s) r = None) (KnowledgePolicyNotFound (''decay profile '' @ r))
       | None \<Rightarrow> Inr ()) (\<lambda>_.
     result_bind (fails (bt_get (kp_decay_bindings s) (db_name b) \<noteq> None \<or> bt_get (kp_decay_profiles s) (db_name b) \<noteq> None)
       (KnowledgePolicyAlreadyExists (''decay profile '' @ db_name b))) (\<lambda>_.
     Inr (next_generation (s\<lparr>kp_decay_bindings := bt_insert (db_name b) (sorted_targets b) (kp_decay_bindings s)\<rparr>)))))"

definition alter_decay_profile_schema :: "('n \<Rightarrow> 64 word option) \<Rightarrow> ('n \<Rightarrow> int option) \<Rightarrow> string \<Rightarrow> (string, 'n json) btree \<Rightarrow>
    policy_store \<Rightarrow> storage_error + policy_store" where
  "alter_decay_profile_schema as_f64 as_i64 name updates s =
     result_bind (found (bt_get (kp_decay_profiles s) name) (KnowledgePolicyNotFound (''decay profile '' @ name))) (\<lambda>p.
     let (r, p) = apply_decay_profile_updates as_f64 as_i64 updates p in
     result_bind (checked r) (\<lambda>_.
     result_bind (checked (validate_decay_profile p)) (\<lambda>_.
     Inr (next_generation (s\<lparr>kp_decay_profiles := bt_insert name p (kp_decay_profiles s)\<rparr>)))))"

definition delete_decay_profile_schema :: "string \<Rightarrow> bool \<Rightarrow> policy_store \<Rightarrow> storage_error + policy_store" where
  "delete_decay_profile_schema name if_exists s =
     (case List.find (\<lambda>b. db_profile_ref b = Some name) (load_decay_profile_binding_schemas s) of
        Some b \<Rightarrow> Inl (KnowledgePolicyInUse (''decay profile '' @ name @ '' referenced by decay binding '' @ db_name b))
      | None \<Rightarrow>
          let deleted = bt_get (kp_decay_profiles s) name \<noteq> None;
              s = s\<lparr>kp_decay_profiles := bt_remove name (kp_decay_profiles s)\<rparr>
          in result_bind (fails (\<not> deleted \<and> \<not> if_exists) (KnowledgePolicyNotFound (''decay profile '' @ name))) (\<lambda>_.
             Inr (if deleted then next_generation s else s)))"

definition delete_decay_profile_binding_schema :: "string \<Rightarrow> bool \<Rightarrow> policy_store \<Rightarrow> storage_error + policy_store" where
  "delete_decay_profile_binding_schema name if_exists s =
     (let deleted = bt_get (kp_decay_bindings s) name \<noteq> None;
          s = s\<lparr>kp_decay_bindings := bt_remove name (kp_decay_bindings s)\<rparr>
      in result_bind (fails (\<not> deleted \<and> \<not> if_exists) (KnowledgePolicyNotFound (''decay profile '' @ name))) (\<lambda>_.
         Inr (if deleted then next_generation s else s)))"

subsection \<open>Promotion\<close>

definition persist_promotion_profile_schema :: "promotion_profile \<Rightarrow> policy_store \<Rightarrow> storage_error + policy_store" where
  "persist_promotion_profile_schema p s =
     result_bind (checked (validate_promotion_profile p)) (\<lambda>_.
     result_bind (fails (bt_get (kp_promotion_profiles s) (pp_name p) \<noteq> None)
       (KnowledgePolicyAlreadyExists (''promotion profile '' @ pp_name p))) (\<lambda>_.
     Inr (next_generation (s\<lparr>kp_promotion_profiles := bt_insert (pp_name p) p (kp_promotion_profiles s)\<rparr>))))"

definition alter_promotion_profile_schema :: "('n \<Rightarrow> 64 word option) \<Rightarrow> string \<Rightarrow> (string, 'n json) btree \<Rightarrow>
    policy_store \<Rightarrow> storage_error + policy_store" where
  "alter_promotion_profile_schema as_f64 name updates s =
     result_bind (found (bt_get (kp_promotion_profiles s) name) (KnowledgePolicyNotFound (''promotion profile '' @ name))) (\<lambda>p.
     let (r, p) = apply_promotion_profile_updates as_f64 updates p in
     result_bind (checked r) (\<lambda>_.
     result_bind (checked (validate_promotion_profile p)) (\<lambda>_.
     Inr (next_generation (s\<lparr>kp_promotion_profiles := bt_insert name p (kp_promotion_profiles s)\<rparr>)))))"

definition policy_uses :: "string \<Rightarrow> promotion_policy \<Rightarrow> bool" where
  "policy_uses name p \<longleftrightarrow> list_ex (\<lambda>clause. wc_profile_ref clause = name) (po_when_clauses p)"

definition delete_promotion_profile_schema :: "string \<Rightarrow> bool \<Rightarrow> policy_store \<Rightarrow> storage_error + policy_store" where
  "delete_promotion_profile_schema name if_exists s =
     (case List.find (policy_uses name) (load_promotion_policy_schemas s) of
        Some p \<Rightarrow> Inl (KnowledgePolicyInUse (''promotion profile '' @ name @ '' referenced by promotion policy '' @ po_name p))
      | None \<Rightarrow>
          let deleted = bt_get (kp_promotion_profiles s) name \<noteq> None;
              s = s\<lparr>kp_promotion_profiles := bt_remove name (kp_promotion_profiles s)\<rparr>
          in result_bind (fails (\<not> deleted \<and> \<not> if_exists) (KnowledgePolicyNotFound (''promotion profile '' @ name))) (\<lambda>_.
             Inr (if deleted then next_generation s else s)))"

definition persist_promotion_policy_schema :: "promotion_policy \<Rightarrow> policy_store \<Rightarrow> storage_error + policy_store" where
  "persist_promotion_policy_schema p s =
     result_bind (checked (validate_promotion_policy p (load_promotion_profile_schemas s) (load_promotion_policy_schemas s))) (\<lambda>_.
     result_bind (fails (bt_get (kp_promotion_policies s) (po_name p) \<noteq> None)
       (KnowledgePolicyAlreadyExists (''promotion policy '' @ po_name p))) (\<lambda>_.
     Inr (next_generation (s\<lparr>kp_promotion_policies := bt_insert (po_name p) p (kp_promotion_policies s)\<rparr>))))"

definition alter_promotion_policy_schema :: "string \<Rightarrow> (string, 'n json) btree \<Rightarrow> policy_store \<Rightarrow> storage_error + policy_store" where
  "alter_promotion_policy_schema name updates s =
     result_bind (found (bt_get (kp_promotion_policies s) name) (KnowledgePolicyNotFound (''promotion policy '' @ name))) (\<lambda>p.
     let (r, p) = fold_stop apply_promotion_policy_update updates p in
     result_bind (checked r) (\<lambda>_.
     result_bind (checked (validate_promotion_policy p (load_promotion_profile_schemas s)
       (filter (\<lambda>q. po_name q \<noteq> name) (load_promotion_policy_schemas s)))) (\<lambda>_.
     Inr (next_generation (s\<lparr>kp_promotion_policies := bt_insert name p (kp_promotion_policies s)\<rparr>)))))"

definition delete_promotion_policy_schema :: "string \<Rightarrow> bool \<Rightarrow> policy_store \<Rightarrow> storage_error + policy_store" where
  "delete_promotion_policy_schema name if_exists s =
     (let deleted = bt_get (kp_promotion_policies s) name \<noteq> None;
          s = s\<lparr>kp_promotion_policies := bt_remove name (kp_promotion_policies s)\<rparr>
      in result_bind (fails (\<not> deleted \<and> \<not> if_exists) (KnowledgePolicyNotFound (''promotion policy '' @ name))) (\<lambda>_.
         Inr (if deleted then next_generation s else s)))"

subsection \<open>Operations\<close>

datatype 'n policy_op =
    DefineDecayProfile decay_profile
  | DefineDecayBinding decay_binding
  | AlterDecayProfile string "(string, 'n json) btree"
  | DropDecayProfile string bool
  | DropDecayBinding string bool
  | DefinePromotionProfile promotion_profile
  | AlterPromotionProfile string "(string, 'n json) btree"
  | DropPromotionProfile string bool
  | DefinePromotionPolicy promotion_policy
  | AlterPromotionPolicy string "(string, 'n json) btree"
  | DropPromotionPolicy string bool

fun policy_op_result :: "('n \<Rightarrow> 64 word option) \<Rightarrow> ('n \<Rightarrow> int option) \<Rightarrow> 'n policy_op \<Rightarrow> policy_store \<Rightarrow> storage_error + policy_store" where
  "policy_op_result as_f64 as_i64 (DefineDecayProfile p) s = persist_decay_profile_schema p s"
| "policy_op_result as_f64 as_i64 (DefineDecayBinding b) s = persist_decay_profile_binding_schema b s"
| "policy_op_result as_f64 as_i64 (AlterDecayProfile name updates) s = alter_decay_profile_schema as_f64 as_i64 name updates s"
| "policy_op_result as_f64 as_i64 (DropDecayProfile name if_exists) s = delete_decay_profile_schema name if_exists s"
| "policy_op_result as_f64 as_i64 (DropDecayBinding name if_exists) s = delete_decay_profile_binding_schema name if_exists s"
| "policy_op_result as_f64 as_i64 (DefinePromotionProfile p) s = persist_promotion_profile_schema p s"
| "policy_op_result as_f64 as_i64 (AlterPromotionProfile name updates) s = alter_promotion_profile_schema as_f64 name updates s"
| "policy_op_result as_f64 as_i64 (DropPromotionProfile name if_exists) s = delete_promotion_profile_schema name if_exists s"
| "policy_op_result as_f64 as_i64 (DefinePromotionPolicy p) s = persist_promotion_policy_schema p s"
| "policy_op_result as_f64 as_i64 (AlterPromotionPolicy name updates) s = alter_promotion_policy_schema name updates s"
| "policy_op_result as_f64 as_i64 (DropPromotionPolicy name if_exists) s = delete_promotion_policy_schema name if_exists s"

end
