(* ===== verification/Policy_Sound.thy ===== *)
theory Policy_Sound
  imports Policy_Store
begin

text \<open>
  Soundness of the knowledge policies of crates/storage/src/lib.rs: every definition passes its check,
  names and targets are used once, references resolve. Stated for sets of definitions, it is kept by
  every operation on the tables.
\<close>

subsection \<open>Soundness\<close>

lemma first_error_None: "first_error gs = None \<longleftrightarrow> (\<forall>g\<in>set gs. \<not> fst g)"
  by (induction gs rule: first_error.induct) auto

definition policy_shape_ok :: "promotion_policy \<Rightarrow> bool" where
  "policy_shape_ok p \<longleftrightarrow> \<not> blank (po_name p) \<and>
     (if po_is_edge p then (\<exists>t. po_target_edge_type p = Some t \<and> \<not> blank t) \<and> po_target_labels p = [] \<and> \<not> po_is_wildcard p
      else if po_is_wildcard p then po_target_labels p = [] \<and> po_target_edge_type p = None
      else po_target_labels p \<noteq> []) \<and>
     (po_on_access_mutations p \<noteq> [] \<or> po_when_clauses p \<noteq> []) \<and>
     (\<forall>clause\<in>set (po_when_clauses p). \<not> blank (wc_profile_ref clause))"

lemma blank_Nil [simp]: "blank []"
  by (simp add: blank_def)

lemma valid_policy:
  "validate_promotion_policy p profiles existing = None \<longleftrightarrow> policy_shape_ok p \<and>
     (\<forall>q\<in>set existing. promotion_policy_target_key q \<noteq> promotion_policy_target_key p) \<and>
     (\<forall>clause\<in>set (po_when_clauses p). wc_profile_ref clause \<in> pp_name ` set profiles)"
  unfolding validate_promotion_policy_def first_error_None policy_shape_ok_def clause_errors_def
  by (cases "po_target_edge_type p") (auto simp: list_ex_iff)

definition sound :: "decay_profile set \<Rightarrow> decay_binding set \<Rightarrow> promotion_profile set \<Rightarrow> promotion_policy set \<Rightarrow> bool" where
  "sound P B Q R \<longleftrightarrow>
     (\<forall>p\<in>P. validate_decay_profile p = None) \<and> (\<forall>b\<in>B. validate_decay_profile_binding b = None) \<and>
     (\<forall>q\<in>Q. validate_promotion_profile q = None) \<and> (\<forall>r\<in>R. policy_shape_ok r) \<and>
     (\<forall>p\<in>P. \<forall>b\<in>B. dp_name p \<noteq> db_name b) \<and> inj_on promotion_policy_target_key R \<and>
     (\<forall>b\<in>B. \<forall>name. db_profile_ref b = Some name \<longrightarrow> name \<in> dp_name ` P) \<and>
     (\<forall>r\<in>R. \<forall>clause\<in>set (po_when_clauses r). wc_profile_ref clause \<in> pp_name ` Q)"

definition catalog_sound :: "policy_catalog \<Rightarrow> bool" where
  "catalog_sound c \<longleftrightarrow>
     distinct (map dp_name (pc_decay_profiles c)) \<and> distinct (map db_name (pc_decay_bindings c)) \<and>
     distinct (map pp_name (pc_promotion_profiles c)) \<and> distinct (map po_name (pc_promotion_policies c)) \<and>
     sound (set (pc_decay_profiles c)) (set (pc_decay_bindings c)) (set (pc_promotion_profiles c)) (set (pc_promotion_policies c))"

subsection \<open>Tables keyed by a name\<close>

definition table_of :: "('r \<Rightarrow> string) \<Rightarrow> (string, 'r) btree \<Rightarrow> bool" where
  "table_of name m \<longleftrightarrow> bt_wf m \<and> (\<forall>e\<in>set m. name (snd e) = fst e)"

definition rows :: "(string, 'r) btree \<Rightarrow> 'r set" where
  "rows m = snd ` set m"

lemma table_of_Nil [simp]: "table_of name []" "rows [] = {}"
  by (simp_all add: table_of_def rows_def)

lemma table_get: "table_of name m \<Longrightarrow> bt_get m k = Some r \<longleftrightarrow> r \<in> rows m \<and> name r = k"
  using bt_get_Some_iff [of m k r] by (force simp: table_of_def rows_def)

lemma table_names: "table_of name m \<Longrightarrow> bt_get m k = None \<longleftrightarrow> k \<notin> name ` rows m"
  using table_get [of name m k] by (cases "bt_get m k") (force+)

lemma table_insert [intro]: "table_of name m \<Longrightarrow> name r = k \<Longrightarrow> table_of name (bt_insert k r m)"
  by (auto simp: table_of_def bt_wf_insert set_bt_insert)

lemma table_remove [intro]: "table_of name m \<Longrightarrow> table_of name (bt_remove k m)"
  by (auto simp: table_of_def bt_wf_filter bt_remove_def)

lemma rows_insert: "table_of name m \<Longrightarrow> rows (bt_insert k r m) = insert r {q \<in> rows m. name q \<noteq> k}"
  by (force simp: rows_def set_bt_insert table_of_def image_iff)

lemma rows_remove: "table_of name m \<Longrightarrow> rows (bt_remove k m) = {q \<in> rows m. name q \<noteq> k}"
  by (force simp: rows_def bt_remove_def table_of_def image_iff)

lemma rows_insert_new: "table_of name m \<Longrightarrow> bt_get m k = None \<Longrightarrow> rows (bt_insert k r m) = insert r (rows m)"
  by (auto simp: rows_insert table_names)

lemma load_table:
  assumes "table_of name m"
  shows "sort_key name (map snd m) = map snd m" "distinct (map name (map snd m))" "set (map snd m) = rows m"
proof -
  have names: "map name (map snd m) = map fst m" using assms by (auto simp: table_of_def)
  have wf: "bt_wf m" using assms by (simp add: table_of_def)
  show "distinct (map name (map snd m))" unfolding names by (rule bt_wf_distinct [OF wf])
  have "sorted (map name (map snd m))" unfolding names using wf by (simp add: bt_wf_def strict_sorted_imp_sorted)
  then show "sort_key name (map snd m) = map snd m" by (rule sort_key_id_if_sorted)
  show "set (map snd m) = rows m" by (simp add: rows_def)
qed

definition policies_ok :: "policy_store \<Rightarrow> bool" where
  "policies_ok s \<longleftrightarrow> table_of dp_name (kp_decay_profiles s) \<and> table_of db_name (kp_decay_bindings s) \<and>
     table_of pp_name (kp_promotion_profiles s) \<and> table_of po_name (kp_promotion_policies s) \<and>
     sound (rows (kp_decay_profiles s)) (rows (kp_decay_bindings s)) (rows (kp_promotion_profiles s)) (rows (kp_promotion_policies s))"

lemmas load_defs = load_decay_profile_schemas_def load_decay_profile_binding_schemas_def
  load_promotion_profile_schemas_def load_promotion_policy_schemas_def

lemma set_load:
  assumes "policies_ok s"
  shows "set (load_decay_profile_binding_schemas s) = rows (kp_decay_bindings s)" "set (load_promotion_policy_schemas s) = rows (kp_promotion_policies s)"
    "set (load_promotion_profile_schemas s) = rows (kp_promotion_profiles s)" "set (load_decay_profile_schemas s) = rows (kp_decay_profiles s)"
  using assms by (auto simp: policies_ok_def load_defs load_table(1) rows_def)

lemma loaded_sound: "policies_ok s \<Longrightarrow> catalog_sound (load_knowledge_policy_catalog s)"
  unfolding catalog_sound_def load_knowledge_policy_catalog_def
  by (simp add: set_load) (simp add: policies_ok_def load_defs load_table(1) load_table(2) [unfolded map_map])

subsection \<open>Preservation\<close>

lemma checked_Inr [simp]: "checked r = Inr u \<longleftrightarrow> r = None"
  by (cases r) (simp_all add: checked_def)

lemma fails_Inr [simp]: "fails bad e = Inr u \<longleftrightarrow> \<not> bad"
  by (simp add: fails_def)

lemma found_Inr [simp]: "found r e = Inr x \<longleftrightarrow> r = Some x"
  by (cases r) (simp_all add: found_def)

lemma next_generation_simps [simp]:
  "kp_decay_profiles (next_generation s) = kp_decay_profiles s" "kp_decay_bindings (next_generation s) = kp_decay_bindings s"
  "kp_promotion_profiles (next_generation s) = kp_promotion_profiles s" "kp_promotion_policies (next_generation s) = kp_promotion_policies s"
  by (simp_all add: next_generation_def)

lemma policies_ok_next [simp]: "policies_ok (next_generation s) = policies_ok s"
  by (simp add: policies_ok_def)

lemma find_None: "List.find P xs = None \<longleftrightarrow> (\<forall>x\<in>set xs. \<not> P x)"
  by (induction xs) auto

lemma fold_stop_keeps:
  assumes "\<And>x s. f (snd (step x s)) = f s" shows "f (snd (fold_stop step xs s)) = f s"
proof (induction xs arbitrary: s)
  case (Cons x xs)
  then show ?case using assms [of x s] by (cases "step x s"; cases "fst (step x s)") (auto split: option.split)
qed simp

lemma assign_keeps: "(\<And>x s. f (upd x s) = f s) \<Longrightarrow> f (snd (assign upd r s)) = f s"
  by (cases r) (simp_all add: assign_def)

lemma update_keeps:
  "dp_name (snd (apply_decay_profile_update as_f64 as_i64 kv p)) = dp_name p"
  "pp_name (snd (apply_promotion_profile_update as_f64 kv q)) = pp_name q"
  "(snd (apply_promotion_policy_update kv r))\<lparr>po_enabled := undefined\<rparr> = r\<lparr>po_enabled := undefined\<rparr>"
  by (simp_all add: apply_decay_profile_update_def apply_promotion_profile_update_def apply_promotion_policy_update_def
      case_prod_beta assign_keeps [where f = dp_name] assign_keeps [where f = pp_name] assign_keeps [where f = "\<lambda>p. p\<lparr>po_enabled := undefined\<rparr>"])

lemma decay_updates_keep_name: "apply_decay_profile_updates as_f64 as_i64 updates p = (r, p') \<Longrightarrow> dp_name p' = dp_name p"
  using fold_stop_keeps [of dp_name "apply_decay_profile_update as_f64 as_i64" updates p, OF update_keeps(1)]
  by (simp add: apply_decay_profile_updates_def)

lemma promotion_updates_keep_name: "apply_promotion_profile_updates as_f64 updates p = (r, p') \<Longrightarrow> pp_name p' = pp_name p"
  using fold_stop_keeps [of pp_name "apply_promotion_profile_update as_f64" updates p, OF update_keeps(2)]
  by (simp add: apply_promotion_profile_updates_def)

lemma policy_updates_keep: "fold_stop apply_promotion_policy_update updates p = (r, p') \<Longrightarrow> p' = p\<lparr>po_enabled := po_enabled p'\<rparr>"
  using fold_stop_keeps [of "\<lambda>p. p\<lparr>po_enabled := undefined\<rparr>" apply_promotion_policy_update updates p, OF update_keeps(3)]
  by (cases p; cases p') simp

lemma valid_sorted_targets: "validate_decay_profile_binding (sorted_targets b) = validate_decay_profile_binding b"
proof -
  have "sort ls = [] \<longleftrightarrow> ls = []" for ls :: "string list" by (metis length_0_conv length_sort)
  then show ?thesis by (simp add: validate_decay_profile_binding_def sorted_targets_def)
qed

lemma ok_add_decay_profile:
  assumes "policies_ok s" "persist_decay_profile_schema p s = Inr s'" shows "policies_ok s'"
proof -
  have t: "table_of dp_name (kp_decay_profiles s)" "table_of db_name (kp_decay_bindings s)" using assms(1) by (simp_all add: policies_ok_def)
  have new: "validate_decay_profile p = None" "bt_get (kp_decay_profiles s) (dp_name p) = None" "dp_name p \<notin> db_name ` rows (kp_decay_bindings s)"
    and s': "s' = next_generation (s\<lparr>kp_decay_profiles := bt_insert (dp_name p) p (kp_decay_profiles s)\<rparr>)"
    using assms(2) t by (simp_all add: persist_decay_profile_schema_def result_bind_Inr_iff table_names)
  have "\<forall>b\<in>rows (kp_decay_bindings s). dp_name p \<noteq> db_name b" using new(3) by (metis imageI)
  then show ?thesis using assms(1) new(1) t unfolding s' policies_ok_def policies_ok_next sound_def
    by (simp add: rows_insert_new [OF t(1) new(2)] table_insert)
qed

lemma ok_add_decay_binding:
  assumes "policies_ok s" "persist_decay_profile_binding_schema b s = Inr s'" shows "policies_ok s'"
proof -
  have b: "db_name (sorted_targets b) = db_name b" "db_profile_ref (sorted_targets b) = db_profile_ref b" by (simp_all add: sorted_targets_def)
  have t: "table_of dp_name (kp_decay_profiles s)" "table_of db_name (kp_decay_bindings s)" using assms(1) by (simp_all add: policies_ok_def)
  have new: "validate_decay_profile_binding b = None" "bt_get (kp_decay_bindings s) (db_name b) = None" "db_name b \<notin> dp_name ` rows (kp_decay_profiles s)"
      "\<forall>r. db_profile_ref b = Some r \<longrightarrow> r \<in> dp_name ` rows (kp_decay_profiles s)"
    and s': "s' = next_generation (s\<lparr>kp_decay_bindings := bt_insert (db_name b) (sorted_targets b) (kp_decay_bindings s)\<rparr>)"
    using assms(2) t by (simp_all add: persist_decay_profile_binding_schema_def result_bind_Inr_iff table_names split: option.splits)
  have "\<forall>p\<in>rows (kp_decay_profiles s). dp_name p \<noteq> db_name b" using new(3) by (metis imageI)
  then show ?thesis using assms(1) new(1,4) b t unfolding s' policies_ok_def policies_ok_next sound_def
    by (simp add: rows_insert_new [OF t(2) new(2)] table_insert valid_sorted_targets)
qed

text \<open>Replacing a row by one of the same name leaves the names of a table as they are.\<close>

lemma replaced_names:
  assumes "table_of name m" "bt_get m k = Some r" "name r' = k"
  shows "name ` rows (bt_insert k r' m) = name ` rows m"
proof -
  have "r \<in> rows m" "name r = k" using assms(2) by (simp_all add: table_get [OF assms(1)])
  then have "k \<in> name ` rows m" by blast
  then show ?thesis unfolding rows_insert [OF assms(1)] assms(3) [symmetric] by auto
qed

lemma ok_alter_decay_profile:
  assumes "policies_ok s" "alter_decay_profile_schema as_f64 as_i64 name updates s = Inr s'" shows "policies_ok s'"
proof -
  obtain p r p' where p: "bt_get (kp_decay_profiles s) name = Some p" "apply_decay_profile_updates as_f64 as_i64 updates p = (r, p')"
    "validate_decay_profile p' = None" and s': "s' = next_generation (s\<lparr>kp_decay_profiles := bt_insert name p' (kp_decay_profiles s)\<rparr>)"
    using assms(2) by (simp add: alter_decay_profile_schema_def result_bind_Inr_iff case_prod_beta) (metis prod.collapse)
  have t: "table_of dp_name (kp_decay_profiles s)" using assms(1) by (simp add: policies_ok_def)
  have n: "dp_name p' = name" using decay_updates_keep_name [OF p(2)] table_get [OF t, of name p] p(1) by simp
  note names = replaced_names [OF t p(1) n]
  have "name \<in> dp_name ` rows (kp_decay_profiles s)" using p(1) by (auto simp: table_get [OF t])
  then have "\<forall>b\<in>rows (kp_decay_bindings s). name \<noteq> db_name b" using assms(1) by (auto simp: policies_ok_def sound_def)
  then show ?thesis using assms(1) p(3) n unfolding s' policies_ok_def policies_ok_next sound_def
    by (simp add: names table_insert) (auto simp: rows_insert [OF t])
qed

lemma refs_resolve:
  "policies_ok s \<Longrightarrow> b \<in> rows (kp_decay_bindings s) \<Longrightarrow> db_profile_ref b = Some name \<Longrightarrow> name \<in> dp_name ` rows (kp_decay_profiles s)"
  "policies_ok s \<Longrightarrow> r \<in> rows (kp_promotion_policies s) \<Longrightarrow> clause \<in> set (po_when_clauses r) \<Longrightarrow>
     wc_profile_ref clause \<in> pp_name ` rows (kp_promotion_profiles s)"
  unfolding policies_ok_def sound_def by blast+

lemma name_kept: "r \<in> f ` A \<Longrightarrow> r \<noteq> k \<Longrightarrow> r \<in> f ` {q \<in> A. f q \<noteq> k}"
  by auto

lemma ok_drop_decay_profile:
  assumes "policies_ok s" "delete_decay_profile_schema name if_exists s = Inr s'" shows "policies_ok s'"
proof -
  let ?t = "s\<lparr>kp_decay_profiles := bt_remove name (kp_decay_profiles s)\<rparr>"
  have none: "\<forall>b\<in>rows (kp_decay_bindings s). db_profile_ref b \<noteq> Some name" and s': "s' = next_generation ?t \<or> s' = ?t"
    using assms(2) unfolding set_load(1) [OF assms(1), symmetric]
    by (auto simp: delete_decay_profile_schema_def find_None result_bind_Inr_iff Let_def split: option.splits if_splits)
  have "\<forall>b\<in>rows (kp_decay_bindings s). \<forall>r. db_profile_ref b = Some r \<longrightarrow>
      r \<in> dp_name ` {p \<in> rows (kp_decay_profiles s). dp_name p \<noteq> name}"
  proof (intro ballI allI impI)
    fix b r assume b: "b \<in> rows (kp_decay_bindings s)" "db_profile_ref b = Some r"
    then have "r \<noteq> name" using none by auto
    then show "r \<in> dp_name ` {p \<in> rows (kp_decay_profiles s). dp_name p \<noteq> name}" by (intro name_kept refs_resolve(1) [OF assms(1) b])
  qed
  moreover have t: "table_of dp_name (kp_decay_profiles s)" using assms(1) by (simp add: policies_ok_def)
  ultimately have "policies_ok ?t"
    using assms(1) unfolding policies_ok_def by (simp add: table_remove rows_remove [OF t] sound_def)
  then show ?thesis using s' by auto
qed

lemma ok_drop_decay_binding:
  assumes "policies_ok s" "delete_decay_profile_binding_schema name if_exists s = Inr s'" shows "policies_ok s'"
proof -
  let ?t = "s\<lparr>kp_decay_bindings := bt_remove name (kp_decay_bindings s)\<rparr>"
  have "s' = next_generation ?t \<or> s' = ?t"
    using assms(2) by (auto simp: delete_decay_profile_binding_schema_def result_bind_Inr_iff Let_def split: if_splits)
  moreover have "policies_ok ?t" using assms(1) by (auto simp: policies_ok_def rows_remove sound_def)
  ultimately show ?thesis by auto
qed

lemma ok_add_promotion_profile:
  assumes "policies_ok s" "persist_promotion_profile_schema p s = Inr s'" shows "policies_ok s'"
  using assms by (auto simp: persist_promotion_profile_schema_def result_bind_Inr_iff policies_ok_def rows_insert_new sound_def)

lemma ok_alter_promotion_profile:
  assumes "policies_ok s" "alter_promotion_profile_schema as_f64 name updates s = Inr s'" shows "policies_ok s'"
proof -
  obtain p r p' where p: "bt_get (kp_promotion_profiles s) name = Some p" "apply_promotion_profile_updates as_f64 updates p = (r, p')"
    "validate_promotion_profile p' = None" and s': "s' = next_generation (s\<lparr>kp_promotion_profiles := bt_insert name p' (kp_promotion_profiles s)\<rparr>)"
    using assms(2) by (simp add: alter_promotion_profile_schema_def result_bind_Inr_iff case_prod_beta) (metis prod.collapse)
  have t: "table_of pp_name (kp_promotion_profiles s)" using assms(1) by (simp add: policies_ok_def)
  have n: "pp_name p' = name" using promotion_updates_keep_name [OF p(2)] table_get [OF t, of name p] p(1) by simp
  note names = replaced_names [OF t p(1) n]
  show ?thesis using assms(1) p(3) n unfolding s' policies_ok_def policies_ok_next sound_def
    by (simp add: names table_insert) (auto simp: rows_insert [OF t])
qed

lemma ok_drop_promotion_profile:
  assumes "policies_ok s" "delete_promotion_profile_schema name if_exists s = Inr s'" shows "policies_ok s'"
proof -
  let ?t = "s\<lparr>kp_promotion_profiles := bt_remove name (kp_promotion_profiles s)\<rparr>"
  have none: "\<forall>p\<in>rows (kp_promotion_policies s). \<not> policy_uses name p" and s': "s' = next_generation ?t \<or> s' = ?t"
    using assms(2) unfolding set_load(2) [OF assms(1), symmetric]
    by (auto simp: delete_promotion_profile_schema_def find_None result_bind_Inr_iff Let_def split: option.splits if_splits)
  have "\<forall>r\<in>rows (kp_promotion_policies s). \<forall>clause\<in>set (po_when_clauses r).
      wc_profile_ref clause \<in> pp_name ` {p \<in> rows (kp_promotion_profiles s). pp_name p \<noteq> name}"
  proof (intro ballI)
    fix r clause assume r: "r \<in> rows (kp_promotion_policies s)" "clause \<in> set (po_when_clauses r)"
    then have "wc_profile_ref clause \<noteq> name" using none by (auto simp: policy_uses_def list_ex_iff)
    then show "wc_profile_ref clause \<in> pp_name ` {p \<in> rows (kp_promotion_profiles s). pp_name p \<noteq> name}"
      by (intro name_kept refs_resolve(2) [OF assms(1) r])
  qed
  moreover have t: "table_of pp_name (kp_promotion_profiles s)" using assms(1) by (simp add: policies_ok_def)
  ultimately have "policies_ok ?t"
    using assms(1) unfolding policies_ok_def by (simp add: table_remove rows_remove [OF t] sound_def)
  then show ?thesis using s' by auto
qed

lemma inj_on_add: "inj_on f A \<Longrightarrow> \<forall>y\<in>A. f y \<noteq> f x \<Longrightarrow> inj_on f (insert x A)"
  by (simp add: inj_on_insert) (metis DiffD1 imageE)

lemma ok_add_promotion_policy:
  assumes "policies_ok s" "persist_promotion_policy_schema p s = Inr s'" shows "policies_ok s'"
proof -
  have t: "table_of po_name (kp_promotion_policies s)" using assms(1) by (simp add: policies_ok_def)
  have new: "validate_promotion_policy p (load_promotion_profile_schemas s) (load_promotion_policy_schemas s) = None"
      "bt_get (kp_promotion_policies s) (po_name p) = None"
    and s': "s' = next_generation (s\<lparr>kp_promotion_policies := bt_insert (po_name p) p (kp_promotion_policies s)\<rparr>)"
    using assms(2) by (simp_all add: persist_promotion_policy_schema_def result_bind_Inr_iff)
  note valid = new(1) [unfolded valid_policy set_load [OF assms(1)]]
  show ?thesis using assms(1) valid t unfolding s' policies_ok_def policies_ok_next sound_def
    by (simp add: rows_insert_new [OF t new(2)] table_insert inj_on_add del: inj_on_insert)
qed

lemma ok_alter_promotion_policy:
  assumes "policies_ok s" "alter_promotion_policy_schema name updates s = Inr s'" shows "policies_ok s'"
proof -
  obtain p r p' where p: "bt_get (kp_promotion_policies s) name = Some p" "fold_stop apply_promotion_policy_update updates p = (r, p')"
    "validate_promotion_policy p' (load_promotion_profile_schemas s) (filter (\<lambda>q. po_name q \<noteq> name) (load_promotion_policy_schemas s)) = None"
    and s': "s' = next_generation (s\<lparr>kp_promotion_policies := bt_insert name p' (kp_promotion_policies s)\<rparr>)"
    using assms(2) by (simp add: alter_promotion_policy_schema_def result_bind_Inr_iff case_prod_beta) (metis prod.collapse)
  have t: "table_of po_name (kp_promotion_policies s)" using assms(1) by (simp add: policies_ok_def)
  have "po_name p' = po_name (p\<lparr>po_enabled := po_enabled p'\<rparr>)" using policy_updates_keep [OF p(2)] by simp
  then have n: "po_name p' = name" using table_get [OF t, of name p] p(1) by simp
  note valid = p(3) [unfolded valid_policy set_filter set_load [OF assms(1)]]
  let ?R = "{q \<in> rows (kp_promotion_policies s). po_name q \<noteq> name}"
  have "inj_on promotion_policy_target_key ?R" using assms(1) by (auto simp: policies_ok_def sound_def inj_on_def)
  then have "inj_on promotion_policy_target_key (insert p' ?R)" using valid by (intro inj_on_add) simp_all
  then show ?thesis using assms(1) valid n t unfolding s' policies_ok_def policies_ok_next sound_def
    by (simp add: table_insert rows_insert [OF t] del: inj_on_insert) blast
qed

lemma ok_drop_promotion_policy:
  assumes "policies_ok s" "delete_promotion_policy_schema name if_exists s = Inr s'" shows "policies_ok s'"
proof -
  let ?t = "s\<lparr>kp_promotion_policies := bt_remove name (kp_promotion_policies s)\<rparr>"
  have "s' = next_generation ?t \<or> s' = ?t"
    using assms(2) by (auto simp: delete_promotion_policy_schema_def result_bind_Inr_iff Let_def split: if_splits)
  moreover have "policies_ok ?t" using assms(1) by (auto simp: policies_ok_def rows_remove sound_def inj_on_def)
  ultimately show ?thesis by auto
qed

lemma policies_ok_new [simp]: "policies_ok policy_store_new"
  by (simp add: policies_ok_def policy_store_new_def sound_def)

lemma policy_op_ok: "policies_ok s \<Longrightarrow> policy_op_result as_f64 as_i64 op s = Inr s' \<Longrightarrow> policies_ok s'"
  by (cases op) (auto intro: ok_add_decay_profile ok_add_decay_binding ok_alter_decay_profile ok_drop_decay_profile ok_drop_decay_binding
    ok_add_promotion_profile ok_alter_promotion_profile ok_drop_promotion_profile ok_add_promotion_policy ok_alter_promotion_policy
    ok_drop_promotion_policy)

end
