(* ===== verification/Policy_Overlay.thy ===== *)
theory Policy_Overlay
  imports Policy_Sound
begin

text \<open>
  The knowledge policies of a storage transaction, crates/storage/src/lib.rs: a private copy of the
  catalog that its operations change in place, and that a commit writes back as a whole. The operations
  of the copy and those of the tables agree, except that a refused ALTER stays in the copy.
\<close>

subsection \<open>Operations on the copy\<close>

definition tx_put_decay_profile :: "decay_profile \<Rightarrow> policy_catalog \<Rightarrow> storage_error option \<times> policy_catalog" where
  "tx_put_decay_profile p = stateful (\<lambda>c.
     result_bind (checked (validate_decay_profile p)) (\<lambda>_.
     result_bind (fails (list_ex (\<lambda>e. dp_name e = dp_name p) (pc_decay_profiles c) \<or> list_ex (\<lambda>e. db_name e = dp_name p) (pc_decay_bindings c))
       (KnowledgePolicyAlreadyExists (''decay profile '' @ dp_name p))) (\<lambda>_.
     Inr (c\<lparr>pc_decay_profiles := pc_decay_profiles c @ [p]\<rparr>))))"

definition tx_put_decay_binding :: "decay_binding \<Rightarrow> policy_catalog \<Rightarrow> storage_error option \<times> policy_catalog" where
  "tx_put_decay_binding b = stateful (\<lambda>c.
     result_bind (checked (validate_decay_profile_binding b)) (\<lambda>_.
     result_bind (case db_profile_ref b of
         Some r \<Rightarrow> fails (\<not> list_ex (\<lambda>p. dp_name p = r) (pc_decay_profiles c)) (KnowledgePolicyNotFound (''decay profile '' @ r))
       | None \<Rightarrow> Inr ()) (\<lambda>_.
     result_bind (fails (list_ex (\<lambda>e. db_name e = db_name b) (pc_decay_bindings c) \<or> list_ex (\<lambda>e. dp_name e = db_name b) (pc_decay_profiles c))
       (KnowledgePolicyAlreadyExists (''decay profile '' @ db_name b))) (\<lambda>_.
     Inr (c\<lparr>pc_decay_bindings := pc_decay_bindings c @ [sorted_targets b]\<rparr>)))))"

definition tx_put_promotion_profile :: "promotion_profile \<Rightarrow> policy_catalog \<Rightarrow> storage_error option \<times> policy_catalog" where
  "tx_put_promotion_profile p = stateful (\<lambda>c.
     result_bind (checked (validate_promotion_profile p)) (\<lambda>_.
     result_bind (fails (list_ex (\<lambda>e. pp_name e = pp_name p) (pc_promotion_profiles c))
       (KnowledgePolicyAlreadyExists (''promotion profile '' @ pp_name p))) (\<lambda>_.
     Inr (c\<lparr>pc_promotion_profiles := pc_promotion_profiles c @ [p]\<rparr>))))"

definition tx_put_promotion_policy :: "promotion_policy \<Rightarrow> policy_catalog \<Rightarrow> storage_error option \<times> policy_catalog" where
  "tx_put_promotion_policy p = stateful (\<lambda>c.
     result_bind (checked (validate_promotion_policy p (pc_promotion_profiles c) (pc_promotion_policies c))) (\<lambda>_.
     result_bind (fails (list_ex (\<lambda>e. po_name e = po_name p) (pc_promotion_policies c))
       (KnowledgePolicyAlreadyExists (''promotion policy '' @ po_name p))) (\<lambda>_.
     Inr (c\<lparr>pc_promotion_policies := pc_promotion_policies c @ [p]\<rparr>))))"

text \<open>\<open>iter_mut().find(..)\<close> and a change of what it finds: the first match is replaced.\<close>

fun replace_first :: "('a \<Rightarrow> bool) \<Rightarrow> 'a \<Rightarrow> 'a list \<Rightarrow> 'a list" where
  "replace_first P y [] = []"
| "replace_first P y (x # xs) = (if P x then y # xs else x # replace_first P y xs)"

definition first_of :: "storage_error option \<Rightarrow> storage_error option \<Rightarrow> storage_error option" where
  "first_of a b = (case a of None \<Rightarrow> b | Some e \<Rightarrow> Some e)"

definition tx_alter_decay_profile :: "('n \<Rightarrow> 64 word option) \<Rightarrow> ('n \<Rightarrow> int option) \<Rightarrow> string \<Rightarrow> (string, 'n json) btree \<Rightarrow>
    policy_catalog \<Rightarrow> storage_error option \<times> policy_catalog" where
  "tx_alter_decay_profile as_f64 as_i64 name updates c =
     (case List.find (\<lambda>p. dp_name p = name) (pc_decay_profiles c) of
        None \<Rightarrow> (Some (KnowledgePolicyNotFound (''decay profile '' @ name)), c)
      | Some p \<Rightarrow>
          let (r, p) = apply_decay_profile_updates as_f64 as_i64 updates p
          in (first_of r (validate_decay_profile p),
              c\<lparr>pc_decay_profiles := replace_first (\<lambda>p. dp_name p = name) p (pc_decay_profiles c)\<rparr>))"

definition tx_alter_promotion_profile :: "('n \<Rightarrow> 64 word option) \<Rightarrow> string \<Rightarrow> (string, 'n json) btree \<Rightarrow>
    policy_catalog \<Rightarrow> storage_error option \<times> policy_catalog" where
  "tx_alter_promotion_profile as_f64 name updates c =
     (case List.find (\<lambda>p. pp_name p = name) (pc_promotion_profiles c) of
        None \<Rightarrow> (Some (KnowledgePolicyNotFound (''promotion profile '' @ name)), c)
      | Some p \<Rightarrow>
          let (r, p) = apply_promotion_profile_updates as_f64 updates p
          in (first_of r (validate_promotion_profile p),
              c\<lparr>pc_promotion_profiles := replace_first (\<lambda>p. pp_name p = name) p (pc_promotion_profiles c)\<rparr>))"

definition tx_alter_promotion_policy :: "string \<Rightarrow> bool \<Rightarrow> policy_catalog \<Rightarrow> storage_error option \<times> policy_catalog" where
  "tx_alter_promotion_policy name enabled c =
     (case List.find (\<lambda>p. po_name p = name) (pc_promotion_policies c) of
        None \<Rightarrow> (Some (KnowledgePolicyNotFound (''promotion policy '' @ name)), c)
      | Some p \<Rightarrow>
          let existing = filter (\<lambda>q. po_name q \<noteq> name) (pc_promotion_policies c); p = p\<lparr>po_enabled := enabled\<rparr>
          in (validate_promotion_policy p (pc_promotion_profiles c) existing,
              c\<lparr>pc_promotion_policies := replace_first (\<lambda>p. po_name p = name) p (pc_promotion_policies c)\<rparr>))"

text \<open>\<open>retain(|x| x.name != name)\<close>; nothing removed is an error unless \<open>IF EXISTS\<close> is given.\<close>

definition missing :: "('a \<Rightarrow> string) \<Rightarrow> string \<Rightarrow> bool \<Rightarrow> storage_error \<Rightarrow> 'a list \<Rightarrow> storage_error option" where
  "missing nm name if_exists e xs =
     (if length xs = length (filter (\<lambda>x. nm x \<noteq> name) xs) \<and> \<not> if_exists then Some e else None)"

definition tx_drop_decay_profile :: "string \<Rightarrow> bool \<Rightarrow> policy_catalog \<Rightarrow> storage_error option \<times> policy_catalog" where
  "tx_drop_decay_profile name if_exists c =
     (case List.find (\<lambda>b. db_name b = name) (pc_decay_bindings c) of
        Some b \<Rightarrow> (None, c\<lparr>pc_decay_bindings := filter (\<lambda>e. db_name e \<noteq> db_name b) (pc_decay_bindings c)\<rparr>)
      | None \<Rightarrow>
          (case List.find (\<lambda>b. db_profile_ref b = Some name) (pc_decay_bindings c) of
             Some b \<Rightarrow> (Some (KnowledgePolicyInUse (''decay profile '' @ name @ '' referenced by decay binding '' @ db_name b)), c)
           | None \<Rightarrow> (missing dp_name name if_exists (KnowledgePolicyNotFound (''decay profile '' @ name)) (pc_decay_profiles c),
                      c\<lparr>pc_decay_profiles := filter (\<lambda>p. dp_name p \<noteq> name) (pc_decay_profiles c)\<rparr>)))"

definition tx_drop_promotion_profile :: "string \<Rightarrow> bool \<Rightarrow> policy_catalog \<Rightarrow> storage_error option \<times> policy_catalog" where
  "tx_drop_promotion_profile name if_exists c =
     (case List.find (policy_uses name) (pc_promotion_policies c) of
        Some p \<Rightarrow> (Some (KnowledgePolicyInUse (''promotion profile '' @ name @ '' referenced by promotion policy '' @ po_name p)), c)
      | None \<Rightarrow> (missing pp_name name if_exists (KnowledgePolicyNotFound (''promotion profile '' @ name)) (pc_promotion_profiles c),
                 c\<lparr>pc_promotion_profiles := filter (\<lambda>p. pp_name p \<noteq> name) (pc_promotion_profiles c)\<rparr>))"

definition tx_drop_promotion_policy :: "string \<Rightarrow> bool \<Rightarrow> policy_catalog \<Rightarrow> storage_error option \<times> policy_catalog" where
  "tx_drop_promotion_policy name if_exists c =
     (missing po_name name if_exists (KnowledgePolicyNotFound (''promotion policy '' @ name)) (pc_promotion_policies c),
      c\<lparr>pc_promotion_policies := filter (\<lambda>p. po_name p \<noteq> name) (pc_promotion_policies c)\<rparr>)"

text \<open>A commit replaces what the four prefixes hold by the copy's definitions.\<close>

definition stage_knowledge_policy_catalog :: "policy_catalog \<Rightarrow> policy_store \<Rightarrow> policy_store" where
  "stage_knowledge_policy_catalog c s =
     s\<lparr>kp_decay_profiles := bt_extend [] (map (\<lambda>p. (dp_name p, p)) (pc_decay_profiles c)),
       kp_decay_bindings := bt_extend [] (map (\<lambda>b. (db_name b, b)) (pc_decay_bindings c)),
       kp_promotion_profiles := bt_extend [] (map (\<lambda>p. (pp_name p, p)) (pc_promotion_profiles c)),
       kp_promotion_policies := bt_extend [] (map (\<lambda>p. (po_name p, p)) (pc_promotion_policies c))\<rparr>"

subsection \<open>Statements\<close>

text \<open>
  The statements of crates/eval/src/eval_engine.rs on knowledge policies, run outside a transaction,
  on the tables, and inside one, on its copy.
\<close>

datatype 'n policy_statement =
    CreateDecayBinding decay_binding
  | CreateDecayProfile decay_profile
  | AlterDecayStatement string "(string, 'n json) btree"
  | DropDecayStatement string bool
  | CreatePromotionProfile promotion_profile
  | AlterPromotionProfileStatement string "(string, 'n json) btree"
  | DropPromotionProfileStatement string bool
  | CreatePromotionPolicy promotion_policy
  | AlterPromotionPolicyStatement string bool
  | DropPromotionPolicyStatement string bool

fun run_outside :: "('n \<Rightarrow> 64 word option) \<Rightarrow> ('n \<Rightarrow> int option) \<Rightarrow> 'n policy_statement \<Rightarrow> policy_store \<Rightarrow> storage_error + policy_store" where
  "run_outside as_f64 as_i64 (CreateDecayBinding b) s = persist_decay_profile_binding_schema b s"
| "run_outside as_f64 as_i64 (CreateDecayProfile p) s = persist_decay_profile_schema p s"
| "run_outside as_f64 as_i64 (AlterDecayStatement name updates) s = alter_decay_profile_schema as_f64 as_i64 name updates s"
| "run_outside as_f64 as_i64 (DropDecayStatement name if_exists) s =
     (if list_ex (\<lambda>b. db_name b = name) (load_decay_profile_binding_schemas s)
      then delete_decay_profile_binding_schema name if_exists s
      else delete_decay_profile_schema name if_exists s)"
| "run_outside as_f64 as_i64 (CreatePromotionProfile p) s = persist_promotion_profile_schema p s"
| "run_outside as_f64 as_i64 (AlterPromotionProfileStatement name updates) s = alter_promotion_profile_schema as_f64 name updates s"
| "run_outside as_f64 as_i64 (DropPromotionProfileStatement name if_exists) s = delete_promotion_profile_schema name if_exists s"
| "run_outside as_f64 as_i64 (CreatePromotionPolicy p) s = persist_promotion_policy_schema p s"
| "run_outside as_f64 as_i64 (AlterPromotionPolicyStatement name enabled) s =
     alter_promotion_policy_schema name [(''enabled'', JBool enabled :: 'n json)] s"
| "run_outside as_f64 as_i64 (DropPromotionPolicyStatement name if_exists) s = delete_promotion_policy_schema name if_exists s"

fun run_inside :: "('n \<Rightarrow> 64 word option) \<Rightarrow> ('n \<Rightarrow> int option) \<Rightarrow> 'n policy_statement \<Rightarrow> policy_catalog \<Rightarrow> storage_error option \<times> policy_catalog" where
  "run_inside as_f64 as_i64 (CreateDecayBinding b) c = tx_put_decay_binding b c"
| "run_inside as_f64 as_i64 (CreateDecayProfile p) c = tx_put_decay_profile p c"
| "run_inside as_f64 as_i64 (AlterDecayStatement name updates) c = tx_alter_decay_profile as_f64 as_i64 name updates c"
| "run_inside as_f64 as_i64 (DropDecayStatement name if_exists) c = tx_drop_decay_profile name if_exists c"
| "run_inside as_f64 as_i64 (CreatePromotionProfile p) c = tx_put_promotion_profile p c"
| "run_inside as_f64 as_i64 (AlterPromotionProfileStatement name updates) c = tx_alter_promotion_profile as_f64 name updates c"
| "run_inside as_f64 as_i64 (DropPromotionProfileStatement name if_exists) c = tx_drop_promotion_profile name if_exists c"
| "run_inside as_f64 as_i64 (CreatePromotionPolicy p) c = tx_put_promotion_policy p c"
| "run_inside as_f64 as_i64 (AlterPromotionPolicyStatement name enabled) c = tx_alter_promotion_policy name enabled c"
| "run_inside as_f64 as_i64 (DropPromotionPolicyStatement name if_exists) c = tx_drop_promotion_policy name if_exists c"

subsection \<open>A copy that shows the tables\<close>

text \<open>A list holds the rows of a table, in any order.\<close>

definition lists_table :: "('r \<Rightarrow> string) \<Rightarrow> 'r list \<Rightarrow> (string, 'r) btree \<Rightarrow> bool" where
  "lists_table name xs m \<longleftrightarrow> table_of name m \<and> distinct (map name xs) \<and> set xs = rows m"

lemma lists_table_ex: "lists_table name xs m \<Longrightarrow> list_ex (\<lambda>x. name x = k) xs \<longleftrightarrow> bt_get m k \<noteq> None"
proof -
  assume l: "lists_table name xs m"
  then have "bt_get m k = None \<longleftrightarrow> k \<notin> name ` set xs" by (simp add: lists_table_def table_names)
  then show ?thesis by (auto simp: list_ex_iff)
qed

lemma find_by_name: "distinct (map name xs) \<Longrightarrow> List.find (\<lambda>x. name x = k) xs = Some r \<longleftrightarrow> r \<in> set xs \<and> name r = k"
  by (induction xs) (auto simp: image_iff)

lemma option_ext: "(\<And>r. a = Some r \<longleftrightarrow> b = Some r) \<Longrightarrow> a = b"
proof -
  assume "\<And>r. a = Some r \<longleftrightarrow> b = Some r"
  from this [of "the a"] this [of "the b"] show "a = b" by (cases a; cases b) auto
qed

lemma lists_table_find:
  assumes "lists_table name xs m" shows "List.find (\<lambda>x. name x = k) xs = bt_get m k"
proof -
  have l: "table_of name m" "distinct (map name xs)" "set xs = rows m" using assms by (simp_all add: lists_table_def)
  show ?thesis by (rule option_ext) (simp add: find_by_name [OF l(2)] table_get [OF l(1)] l(3))
qed

lemma lists_table_add:
  "lists_table name xs m \<Longrightarrow> bt_get m (name r) = None \<Longrightarrow> lists_table name (xs @ [r]) (bt_insert (name r) r m)"
proof -
  assume l: "lists_table name xs m" and new: "bt_get m (name r) = None"
  have t: "table_of name m" using l by (simp add: lists_table_def)
  show ?thesis using l new unfolding table_names [OF t] by (simp add: lists_table_def table_insert rows_insert_new [OF t new])
qed

lemma lists_table_drop: "lists_table name xs m \<Longrightarrow> lists_table name (filter (\<lambda>x. name x \<noteq> k) xs) (bt_remove k m)"
proof -
  assume l: "lists_table name xs m"
  then have t: "table_of name m" by (simp add: lists_table_def)
  show ?thesis using l by (simp add: lists_table_def table_remove rows_remove [OF t] distinct_map_filter)
qed

lemma replace_first_names: "(\<And>x. P x \<Longrightarrow> name x = name y) \<Longrightarrow> map name (replace_first P y xs) = map name xs"
  by (induction xs) auto

lemma replace_first_set:
  "distinct (map name xs) \<Longrightarrow> name y = k \<Longrightarrow> k \<in> name ` set xs \<Longrightarrow>
     set (replace_first (\<lambda>x. name x = k) y xs) = insert y {x \<in> set xs. name x \<noteq> k}"
proof (induction xs)
  case (Cons x xs)
  show ?case
  proof (cases "name x = k")
    case True
    then have "\<forall>z\<in>set xs. name z \<noteq> k" using Cons.prems(1) by (auto simp: rev_image_eqI)
    then show ?thesis using True by auto
  next
    case False
    then show ?thesis using Cons by auto
  qed
qed simp

lemma lists_table_replace:
  assumes "lists_table name xs m" "bt_get m k = Some r" "name y = k"
  shows "lists_table name (replace_first (\<lambda>x. name x = k) y xs) (bt_insert k y m)"
proof -
  have t: "table_of name m" "distinct (map name xs)" "set xs = rows m" using assms(1) by (simp_all add: lists_table_def)
  have "k \<in> name ` set xs" using assms(2) unfolding t(3) table_get [OF t(1)] by auto
  then show ?thesis using assms(3) t
    by (simp add: lists_table_def table_insert rows_insert [OF t(1)] replace_first_set replace_first_names)
qed

lemma length_filter_same: "length xs = length (filter P xs) \<longleftrightarrow> (\<forall>x\<in>set xs. P x)"
  by (metis filter_True filter_id_conv length_filter_less order_less_irrefl)

lemma lists_table_missing: "lists_table name xs m \<Longrightarrow> missing name k if_exists e xs = (if bt_get m k = None \<and> \<not> if_exists then Some e else None)"
proof -
  assume l: "lists_table name xs m"
  then have "bt_get m k = None \<longleftrightarrow> (\<forall>x\<in>set xs. name x \<noteq> k)" by (auto simp: lists_table_def table_names)
  then show ?thesis by (simp add: missing_def length_filter_same)
qed

definition shows_tables :: "policy_catalog \<Rightarrow> policy_store \<Rightarrow> bool" where
  "shows_tables c s \<longleftrightarrow>
     lists_table dp_name (pc_decay_profiles c) (kp_decay_profiles s) \<and> lists_table db_name (pc_decay_bindings c) (kp_decay_bindings s) \<and>
     lists_table pp_name (pc_promotion_profiles c) (kp_promotion_profiles s) \<and>
     lists_table po_name (pc_promotion_policies c) (kp_promotion_policies s)"

lemma loaded_shows: "policies_ok s \<Longrightarrow> shows_tables (load_knowledge_policy_catalog s) s"
  by (simp add: shows_tables_def lists_table_def load_knowledge_policy_catalog_def set_load)
    (simp add: policies_ok_def load_defs load_table(1) load_table(2) [unfolded map_map])

text \<open>Tables with the same rows are the same.\<close>

lemma table_unique:
  assumes "table_of name m" "table_of name m'" "rows m = rows m'" shows "m = m'"
proof (rule bt_ext)
  show "bt_wf m" "bt_wf m'" using assms by (simp_all add: table_of_def)
  show "bt_get m k = bt_get m' k" for k
    using assms table_get [OF assms(1), of k] table_get [OF assms(2), of k] by (cases "bt_get m k"; cases "bt_get m' k") auto
qed

lemma staged_table:
  assumes "lists_table name xs m" shows "bt_extend [] (map (\<lambda>x. (name x, x)) xs) = m"
proof -
  let ?m = "bt_extend [] (map (\<lambda>x. (name x, x)) xs)"
  have l: "table_of name m" "distinct (map name xs)" "set xs = rows m" using assms by (simp_all add: lists_table_def)
  have "map fst (rev (map (\<lambda>x. (name x, x)) xs)) = rev (map name xs)" by (simp add: rev_map comp_def)
  then have d: "distinct (map fst (rev (map (\<lambda>x. (name x, x)) xs)))" using l(2) by (simp only: distinct_rev)
  have "bt_get ?m k = map_of (rev (map (\<lambda>x. (name x, x)) xs)) k" for k by (simp add: bt_get_extend split: option.split)
  moreover have "map_of (rev (map (\<lambda>x. (name x, x)) xs)) k = Some r \<longleftrightarrow> bt_get m k = Some r" for k r
    unfolding map_of_eq_Some_iff [OF d] by (auto simp: table_get [OF l(1)] l(3) [symmetric])
  ultimately have "bt_get ?m k = bt_get m k" for k by (intro option_ext) simp
  then show ?thesis using l(1) by (intro bt_ext) (simp_all add: table_of_def bt_wf_extend)
qed

lemma staged_shown:
  "shows_tables c s \<Longrightarrow> stage_knowledge_policy_catalog c t = s\<lparr>kp_generation := kp_generation t\<rparr>"
  by (simp add: shows_tables_def stage_knowledge_policy_catalog_def staged_table)

end
