(* ===== verification/Policy_Agree.thy ===== *)
theory Policy_Agree
  imports Policy_Overlay
begin

text \<open>
  Statements on knowledge policies inside and outside a transaction, crates/eval/src/eval_engine.rs over
  crates/storage/src/lib.rs: they succeed together and with the same effect, except that inside one a
  refused ALTER leaves its change behind; and what that comes to when the transaction commits.
\<close>

subsection \<open>One statement\<close>

definition same_result :: "storage_error + policy_store \<Rightarrow> storage_error option \<times> policy_catalog \<Rightarrow> bool" where
  "same_result out inside \<longleftrightarrow> (case out of
     Inr s' \<Rightarrow> fst inside = None \<and> shows_tables (snd inside) s'
   | Inl e \<Rightarrow> fst inside \<noteq> None)"

lemma same_result_stateful:
  "same_result out (stateful f c) \<longleftrightarrow> (case out of Inr s' \<Rightarrow> (\<exists>c'. f c = Inr c' \<and> shows_tables c' s') | Inl e \<Rightarrow> (\<exists>e. f c = Inl e))"
  by (cases "f c"; cases out) (auto simp: same_result_def stateful_def)

lemma shows_next [simp]: "shows_tables c (next_generation s) = shows_tables c s"
  by (simp add: shows_tables_def)

lemma same_validation:
  assumes "set ps = set ps'" "set qs = set qs'"
  shows "validate_promotion_policy p ps qs = None \<longleftrightarrow> validate_promotion_policy p ps' qs' = None"
  unfolding valid_policy assms ..

lemma shows_parts:
  assumes "shows_tables c s"
  shows "lists_table dp_name (pc_decay_profiles c) (kp_decay_profiles s)" "lists_table db_name (pc_decay_bindings c) (kp_decay_bindings s)"
    "lists_table pp_name (pc_promotion_profiles c) (kp_promotion_profiles s)" "lists_table po_name (pc_promotion_policies c) (kp_promotion_policies s)"
  using assms by (simp_all add: shows_tables_def)

lemmas shown_ex = shows_parts [THEN lists_table_ex] and shown_find = shows_parts [THEN lists_table_find]
  and shown_missing = shows_parts [THEN lists_table_missing] and shown_replace = shows_parts [THEN lists_table_replace]
  and shown_add = shows_parts [THEN lists_table_add] and shown_drop = shows_parts [THEN lists_table_drop]

lemma same_loaded:
  assumes "policies_ok s" "shows_tables c s"
  shows "set (pc_decay_bindings c) = set (load_decay_profile_binding_schemas s)" "set (pc_promotion_policies c) = set (load_promotion_policy_schemas s)"
    "set (pc_promotion_profiles c) = set (load_promotion_profile_schemas s)"
  using assms by (simp_all add: set_load shows_tables_def lists_table_def)

lemma agree_put_decay_profile:
  assumes "shows_tables c s"
  shows "same_result (persist_decay_profile_schema p s) (tx_put_decay_profile p c)"
  unfolding tx_put_decay_profile_def same_result_stateful persist_decay_profile_schema_def shown_ex [OF assms]
  using assms shown_add(1) [OF assms, of p]
  by (auto simp: result_bind_def checked_def fails_def shows_tables_def split: option.splits if_splits)

lemma agree_put_decay_binding:
  assumes "shows_tables c s"
  shows "same_result (persist_decay_profile_binding_schema b s) (tx_put_decay_binding b c)"
proof -
  have n: "db_name (sorted_targets b) = db_name b" by (simp add: sorted_targets_def)
  show ?thesis
    unfolding tx_put_decay_binding_def same_result_stateful persist_decay_profile_binding_schema_def shown_ex [OF assms]
    using assms shown_add(2) [OF assms, of "sorted_targets b", unfolded n]
    by (auto simp: result_bind_def checked_def fails_def shows_tables_def split: option.splits if_splits)
qed

lemma agree_put_promotion_profile:
  assumes "shows_tables c s"
  shows "same_result (persist_promotion_profile_schema p s) (tx_put_promotion_profile p c)"
  unfolding tx_put_promotion_profile_def same_result_stateful persist_promotion_profile_schema_def shown_ex [OF assms]
  using assms shown_add(3) [OF assms, of p]
  by (auto simp: result_bind_def checked_def fails_def shows_tables_def split: option.splits if_splits)

lemma agree_put_promotion_policy:
  assumes "policies_ok s" "shows_tables c s"
  shows "same_result (persist_promotion_policy_schema p s) (tx_put_promotion_policy p c)"
  unfolding tx_put_promotion_policy_def same_result_stateful persist_promotion_policy_schema_def shown_ex [OF assms(2)]
  using assms(2) shown_add(4) [OF assms(2), of p] same_validation [OF same_loaded(3,2) [OF assms], of p]
  by (auto simp: result_bind_def checked_def fails_def shows_tables_def split: option.splits if_splits)

lemma agree_alter_decay_profile:
  assumes "policies_ok s" "shows_tables c s"
  shows "same_result (alter_decay_profile_schema as_f64 as_i64 name updates s) (tx_alter_decay_profile as_f64 as_i64 name updates c)"
proof (cases "bt_get (kp_decay_profiles s) name")
  case (Some p)
  obtain r p' where u: "apply_decay_profile_updates as_f64 as_i64 updates p = (r, p')" by (metis surj_pair)
  have "dp_name p = name" using Some table_get [of dp_name "kp_decay_profiles s" name p] assms(1) by (simp add: policies_ok_def)
  then have n: "dp_name p' = name" using decay_updates_keep_name [OF u] by simp
  show ?thesis
    using assms(2) shown_replace(1) [OF assms(2) Some n]
    by (auto simp: alter_decay_profile_schema_def tx_alter_decay_profile_def shown_find [OF assms(2)] Some u found_def first_of_def
        same_result_def shows_tables_def result_bind_def checked_def split: option.splits)
qed (simp add: alter_decay_profile_schema_def tx_alter_decay_profile_def shown_find [OF assms(2)] found_def same_result_def)

lemma agree_alter_promotion_profile:
  assumes "policies_ok s" "shows_tables c s"
  shows "same_result (alter_promotion_profile_schema as_f64 name updates s) (tx_alter_promotion_profile as_f64 name updates c)"
proof (cases "bt_get (kp_promotion_profiles s) name")
  case (Some p)
  obtain r p' where u: "apply_promotion_profile_updates as_f64 updates p = (r, p')" by (metis surj_pair)
  have "pp_name p = name" using Some table_get [of pp_name "kp_promotion_profiles s" name p] assms(1) by (simp add: policies_ok_def)
  then have n: "pp_name p' = name" using promotion_updates_keep_name [OF u] by simp
  show ?thesis
    using assms(2) shown_replace(3) [OF assms(2) Some n]
    by (auto simp: alter_promotion_profile_schema_def tx_alter_promotion_profile_def shown_find [OF assms(2)] Some u found_def first_of_def
        same_result_def shows_tables_def result_bind_def checked_def split: option.splits)
qed (simp add: alter_promotion_profile_schema_def tx_alter_promotion_profile_def shown_find [OF assms(2)] found_def same_result_def)

lemma agree_alter_promotion_policy:
  assumes "policies_ok s" "shows_tables c s"
  shows "same_result (alter_promotion_policy_schema name [(''enabled'', JBool enabled)] s) (tx_alter_promotion_policy name enabled c)"
proof (cases "bt_get (kp_promotion_policies s) name")
  case (Some p)
  let ?p = "p\<lparr>po_enabled := enabled\<rparr>"
  have n: "po_name ?p = name" using Some table_get [of po_name "kp_promotion_policies s" name p] assms(1) by (simp add: policies_ok_def)
  have u: "fold_stop apply_promotion_policy_update [(''enabled'', JBool enabled)] p = (None, ?p)"
    by (simp add: apply_promotion_policy_update_def assign_def value_as_bool_def)
  have "set (filter (\<lambda>q. po_name q \<noteq> name) (pc_promotion_policies c)) = set (filter (\<lambda>q. po_name q \<noteq> name) (load_promotion_policy_schemas s))"
    by (simp add: same_loaded(2) [OF assms])
  note valid = same_validation [OF same_loaded(3) [OF assms] this, of ?p]
  show ?thesis
    using assms(2) shown_replace(4) [OF assms(2) Some n] valid
    by (auto simp: alter_promotion_policy_schema_def tx_alter_promotion_policy_def shown_find [OF assms(2)] Some u found_def Let_def
        same_result_def shows_tables_def result_bind_def checked_def simp del: fold_stop.simps split: option.splits)
qed (simp add: alter_promotion_policy_schema_def tx_alter_promotion_policy_def shown_find [OF assms(2)] found_def same_result_def)

lemma agree_drop_promotion_policy:
  assumes "shows_tables c s"
  shows "same_result (delete_promotion_policy_schema name if_exists s) (tx_drop_promotion_policy name if_exists c)"
  using assms shown_drop(4) [OF assms, of name]
  by (auto simp: delete_promotion_policy_schema_def tx_drop_promotion_policy_def shown_missing [OF assms] Let_def fails_def
      same_result_def shows_tables_def split: if_splits)

lemma find_cong: "set xs = set ys \<Longrightarrow> List.find P xs = None \<longleftrightarrow> List.find P ys = None"
  by (simp add: find_None)

lemma agree_drop_promotion_profile:
  assumes "policies_ok s" "shows_tables c s"
  shows "same_result (delete_promotion_profile_schema name if_exists s) (tx_drop_promotion_profile name if_exists c)"
  using assms(2) shown_drop(3) [OF assms(2), of name] find_cong [OF same_loaded(2) [OF assms], of "policy_uses name"]
  by (auto simp: delete_promotion_profile_schema_def tx_drop_promotion_profile_def shown_missing [OF assms(2)] Let_def fails_def
      same_result_def shows_tables_def split: option.splits if_splits)

lemma agree_drop_decay_profile:
  assumes "policies_ok s" "shows_tables c s" "bt_get (kp_decay_bindings s) name = None"
  shows "same_result (delete_decay_profile_schema name if_exists s) (tx_drop_decay_profile name if_exists c)"
  using assms(2,3) shown_drop(1) [OF assms(2), of name] find_cong [OF same_loaded(1) [OF assms(1,2)], of "\<lambda>b. db_profile_ref b = Some name"]
  by (auto simp: delete_decay_profile_schema_def tx_drop_decay_profile_def shown_find [OF assms(2)] shown_missing [OF assms(2)] Let_def fails_def
      same_result_def shows_tables_def split: option.splits if_splits)

lemma agree_drop_decay_binding:
  assumes "policies_ok s" "shows_tables c s" "bt_get (kp_decay_bindings s) name = Some b"
  shows "same_result (delete_decay_profile_binding_schema name if_exists s) (tx_drop_decay_profile name if_exists c)"
proof -
  have "db_name b = name" using assms(1,3) table_get [of db_name "kp_decay_bindings s" name b] by (simp add: policies_ok_def)
  then show ?thesis using assms(2,3) shown_drop(2) [OF assms(2), of name]
    by (simp add: delete_decay_profile_binding_schema_def tx_drop_decay_profile_def shown_find [OF assms(2)] Let_def fails_def
        same_result_def shows_tables_def)
qed

lemma statement_agrees:
  assumes "policies_ok s" "shows_tables c s"
  shows "same_result (run_outside as_f64 as_i64 st s) (run_inside as_f64 as_i64 st c)"
proof (cases st)
  case (DropDecayStatement name if_exists)
  have "list_ex (\<lambda>b. db_name b = name) (load_decay_profile_binding_schemas s) \<longleftrightarrow> bt_get (kp_decay_bindings s) name \<noteq> None"
    unfolding shown_ex(2) [OF assms(2), symmetric] list_ex_iff same_loaded(1) [OF assms] ..
  then show ?thesis using agree_drop_decay_profile [OF assms] agree_drop_decay_binding [OF assms] DropDecayStatement
    by (cases "bt_get (kp_decay_bindings s) name") auto
qed (use assms in \<open>auto intro: agree_put_decay_profile agree_put_decay_binding agree_put_promotion_profile agree_put_promotion_policy
  agree_alter_decay_profile agree_alter_promotion_profile agree_alter_promotion_policy agree_drop_promotion_profile agree_drop_promotion_policy\<close>)

subsection \<open>Sequences\<close>

lemma outside_ok:
  assumes "policies_ok s" "run_outside as_f64 as_i64 st s = Inr s'" shows "policies_ok s'"
  using assms
  by (cases st) (auto split: if_splits intro: ok_add_decay_profile ok_add_decay_binding ok_alter_decay_profile ok_drop_decay_profile ok_drop_decay_binding
    ok_add_promotion_profile ok_alter_promotion_profile ok_drop_promotion_profile ok_add_promotion_policy ok_alter_promotion_policy
    ok_drop_promotion_policy)

lemma statements_agree:
  assumes "policies_ok s" "shows_tables c s"
  shows "same_result (fold_result (run_outside as_f64 as_i64) sts s) (fold_stop (run_inside as_f64 as_i64) sts c)"
  using assms
proof (induction sts arbitrary: s c)
  case (Cons st sts)
  note one = statement_agrees [OF Cons.prems, of as_f64 as_i64 st]
  obtain r c' where i: "run_inside as_f64 as_i64 st c = (r, c')" by (metis surj_pair)
  show ?case
  proof (cases "run_outside as_f64 as_i64 st s")
    case (Inr s')
    then have "r = None" "shows_tables c' s'" using one i by (simp_all add: same_result_def)
    then show ?thesis using Cons.IH [OF outside_ok [OF Cons.prems(1) Inr]] by (simp add: Inr i)
  next
    case (Inl e)
    then show ?thesis using one i by (cases r) (simp_all add: same_result_def)
  qed
qed (simp add: same_result_def)

subsection \<open>Runs\<close>

text \<open>
  A transaction's catalog starts as a copy of the tables. A statement on it succeeds, or is refused; a
  refused one leaves the copy as it was, unless it is an ALTER that changed it before it was refused.
  \<open>copy_step\<close> leaves those out.
\<close>

inductive copy_step :: "('n \<Rightarrow> 64 word option) \<Rightarrow> ('n \<Rightarrow> int option) \<Rightarrow> policy_catalog \<Rightarrow> policy_catalog \<Rightarrow> bool" for as_f64 as_i64 where
  "run_inside as_f64 as_i64 st c = (r, c') \<Longrightarrow> r = None \<or> c' = c \<Longrightarrow> copy_step as_f64 as_i64 c c'"

inductive_cases copy_stepE: "copy_step as_f64 as_i64 c c'"

lemma copy_shows:
  assumes "(copy_step as_f64 as_i64)\<^sup>*\<^sup>* c c'" "policies_ok s" "shows_tables c s"
  shows "\<exists>s'. policies_ok s' \<and> shows_tables c' s'"
  using assms
proof (induction rule: rtranclp_induct)
  case (step c1 c2)
  then obtain s1 where s1: "policies_ok s1" "shows_tables c1 s1" by blast
  from step.hyps(2) obtain st r where st: "run_inside as_f64 as_i64 st c1 = (r, c2)" "r = None \<or> c2 = c1" by (elim copy_stepE)
  show ?case
  proof (cases r)
    case None
    then obtain s2 where "run_outside as_f64 as_i64 st s1 = Inr s2" "shows_tables c2 s2"
      using statement_agrees [OF s1, of as_f64 as_i64 st] st(1) by (auto simp: same_result_def split: sum.splits)
    then show ?thesis using outside_ok [OF s1(1)] by blast
  next
    case (Some e)
    then show ?thesis using st(2) s1 by auto
  qed
qed blast

text \<open>
  The tables that operations on them and commits of transactions lead to. A commit writes a catalog over
  whatever the tables are, whenever its transaction began.
\<close>

inductive policies_reachable :: "('n \<Rightarrow> 64 word option) \<Rightarrow> ('n \<Rightarrow> int option) \<Rightarrow> policy_store \<Rightarrow> bool" for as_f64 as_i64 where
  new: "policies_reachable as_f64 as_i64 policy_store_new"
| operation: "policies_reachable as_f64 as_i64 s \<Longrightarrow> policy_op_result as_f64 as_i64 op s = Inr s' \<Longrightarrow> policies_reachable as_f64 as_i64 s'"
| commit: "policies_reachable as_f64 as_i64 begun \<Longrightarrow> (copy_step as_f64 as_i64)\<^sup>*\<^sup>* (load_knowledge_policy_catalog begun) c \<Longrightarrow>
    policies_reachable as_f64 as_i64 s \<Longrightarrow> policies_reachable as_f64 as_i64 (next_generation (stage_knowledge_policy_catalog c s))"

lemma reachable_ok: "policies_reachable as_f64 as_i64 s \<Longrightarrow> policies_ok s"
proof (induction rule: policies_reachable.induct)
  case (commit begun c s)
  then obtain s' where "policies_ok s'" "shows_tables c s'" using copy_shows [OF commit.hyps(2) _ loaded_shows] by blast
  then show ?case by (simp add: staged_shown policies_ok_def)
qed (auto intro: policy_op_ok)

subsection \<open>Data for examples\<close>

definition demo_profile :: decay_profile where
  "demo_profile = \<lparr>dp_name = ''slow'', dp_half_life_seconds = 60, dp_visibility_threshold = 0, dp_score_floor = 0, dp_function = ''linear'',
     dp_scope = ''NODE'', dp_decay_enabled = True, dp_score_from = ''CREATED'', dp_score_from_property = None, dp_enabled = True\<rparr>"

definition demo_binding :: decay_binding where
  "demo_binding = \<lparr>db_name = ''users'', db_target_labels = [''U'', ''A''], db_target_edge_type = None, db_is_wildcard = False, db_is_edge = False,
     db_profile_ref = Some ''slow'', db_no_decay = False, db_visibility_threshold = None, db_order = 0\<rparr>"

lemma unit_bits: "\<not> outside_unit 0" "\<not> outside_unit 0x7FF8000000000000" "\<not> f64_eq 0x7FF8000000000000 x"
  by (simp_all add: outside_unit_def f64_lt_def f64_eq_def f64_partial_cmp_def f64_is_nan_def f64_magnitude_def f64_rank_def f64_zero_def f64_one_def)

lemma not_blank: "s \<noteq> [] \<Longrightarrow> graph_char (hd s) \<Longrightarrow> graph_char (last s) \<Longrightarrow> \<not> blank s"
  by (simp add: blank_def trim_graph)

lemma demo_names: "\<not> blank ''slow''" "\<not> blank ''users''"
  by (rule not_blank; simp add: graph_char_def)+

lemma demo_words: "ascii_upper ''NODE'' = ''NODE''" "ascii_lower ''linear'' = ''linear''" "ascii_upper ''CREATED'' = ''CREATED''"
   "ascii_lower ''CREATED'' = ''created''" "ascii_upper ''elsewhere'' = ''ELSEWHERE''"
  by code_simp+

lemma policy_demo_fields: "dp_name demo_profile = ''slow''" "db_name demo_binding = ''users''" "db_profile_ref demo_binding = Some ''slow''"
  by (simp_all add: demo_profile_def demo_binding_def)

lemma demo_valid: "validate_decay_profile demo_profile = None" "validate_decay_profile_binding demo_binding = None"
  by (simp_all add: validate_decay_profile_def validate_decay_profile_binding_def demo_profile_def demo_binding_def demo_names demo_words
     validate_scope_def validate_decay_function_def validate_score_from_def unit_bits)

definition no_f64 :: "nat \<Rightarrow> 64 word option" where "no_f64 n = None"

definition no_i64 :: "nat \<Rightarrow> int option" where "no_i64 n = None"

definition demo_policies :: policy_store where
  "demo_policies = \<lparr>kp_decay_profiles = [(''slow'', demo_profile)], kp_decay_bindings = [(''users'', sorted_targets demo_binding)],
     kp_promotion_profiles = [], kp_promotion_policies = [], kp_generation = 2\<rparr>"

lemma demo_steps:
  "persist_decay_profile_schema demo_profile policy_store_new = Inr (demo_policies\<lparr>kp_decay_bindings := [], kp_generation := 1\<rparr>)"
  "persist_decay_profile_binding_schema demo_binding (demo_policies\<lparr>kp_decay_bindings := [], kp_generation := 1\<rparr>) = Inr demo_policies"
  by (simp_all add: persist_decay_profile_schema_def persist_decay_profile_binding_schema_def demo_valid checked_def fails_def policy_store_new_def
     demo_policies_def next_generation_def bt_get_def bt_insert_def wadd64_def policy_demo_fields)

lemma demo_policies_reached: "policies_reachable no_f64 no_i64 demo_policies"
proof -
  have "policies_reachable no_f64 no_i64 (demo_policies\<lparr>kp_decay_bindings := [], kp_generation := 1\<rparr>)"
    by (rule policies_reachable.operation [OF policies_reachable.new, of _ _ "DefineDecayProfile demo_profile"])
      (simp add: demo_steps del: One_nat_def)
  then show ?thesis
    by (rule policies_reachable.operation [where op = "DefineDecayBinding demo_binding"]) (simp add: demo_steps del: One_nat_def)
qed

subsection \<open>Properties\<close>

text \<open>
  C37: Whatever is defined, altered and removed in the tables or in transactions that commit, the knowledge
  policies in the tables are sound, unless a transaction commits in which an ALTER was refused: every
  profile, binding and policy passes its check, a name is used once, profiles and bindings of decay
  sharing their names, a target has one policy, and every profile that is referred to exists. A refused
  ALTER stays in the transaction's copy, and its commit stores what did not pass (\<open>refused_alter_is_stored\<close>).
\<close>

theorem policies_stay_sound:
  assumes "policies_reachable as_f64 as_i64 s"
  shows "catalog_sound (load_knowledge_policy_catalog s)"
  by (rule loaded_sound, rule reachable_ok [OF assms])

theorem policies_stay_sound_witness: "catalog_sound (load_knowledge_policy_catalog demo_policies)"
  by (rule policies_stay_sound [OF demo_policies_reached])

text \<open>
  C38: Statements on knowledge policies succeed inside a transaction exactly when they do outside one, and
  the commit of those that succeed leaves the tables that running them outside leaves.
\<close>

theorem policy_transactions_agree:
  assumes "policies_reachable as_f64 as_i64 s"
  shows "case fold_result (run_outside as_f64 as_i64) sts s of
      Inr s' \<Rightarrow> (\<exists>c. fold_stop (run_inside as_f64 as_i64) sts (load_knowledge_policy_catalog s) = (None, c) \<and>
        stage_knowledge_policy_catalog c s = s'\<lparr>kp_generation := kp_generation s\<rparr>)
    | Inl e \<Rightarrow> fst (fold_stop (run_inside as_f64 as_i64) sts (load_knowledge_policy_catalog s)) \<noteq> None"
proof -
  have ok: "policies_ok s" by (rule reachable_ok [OF assms])
  show ?thesis
    using statements_agree [OF ok loaded_shows [OF ok], of as_f64 as_i64 sts] staged_shown
    by (cases "fold_stop (run_inside as_f64 as_i64) sts (load_knowledge_policy_catalog s)")
      (auto simp: same_result_def split: sum.splits)
qed

theorem policy_transactions_agree_witness:
  "fst (fold_stop (run_inside no_f64 no_i64) [DropDecayStatement ''slow'' True] (load_knowledge_policy_catalog demo_policies)) \<noteq> None"
proof -
  have "\<not> is_ok (fold_result (run_outside no_f64 no_i64) [DropDecayStatement ''slow'' True] demo_policies)"
    by (simp add: delete_decay_profile_schema_def load_defs demo_policies_def demo_binding_def sorted_targets_def)
  then show ?thesis using policy_transactions_agree [OF demo_policies_reached, of "[DropDecayStatement ''slow'' True]"]
    by (auto simp: is_ok_def split: sum.splits)
qed

text \<open>
  An ALTER that is refused inside a transaction has changed the copy all the same: a commit then stores a
  profile that does not pass its check.
\<close>

lemma refused_alter_is_stored:
  defines "run \<equiv> tx_alter_decay_profile no_f64 no_i64 ''slow'' [(''scope'', JString ''elsewhere'')] (load_knowledge_policy_catalog demo_policies)"
  shows "fst run \<noteq> None \<and> \<not> catalog_sound (load_knowledge_policy_catalog (stage_knowledge_policy_catalog (snd run) demo_policies))"
proof -
  have v: "validate_decay_profile (demo_profile\<lparr>dp_scope := ''elsewhere''\<rparr>) \<noteq> None"
    unfolding first_error_None validate_decay_profile_def by (simp add: validate_scope_def demo_words)
  have run: "run = (validate_decay_profile (demo_profile\<lparr>dp_scope := ''elsewhere''\<rparr>),
      (load_knowledge_policy_catalog demo_policies)\<lparr>pc_decay_profiles := [demo_profile\<lparr>dp_scope := ''elsewhere''\<rparr>]\<rparr>)"
    by (simp add: run_def tx_alter_decay_profile_def load_knowledge_policy_catalog_def load_defs demo_policies_def demo_profile_def
        apply_decay_profile_updates_def apply_decay_profile_update_def assign_def value_as_string_def first_of_def)
  show ?thesis using v
    by (simp add: run catalog_sound_def sound_def load_knowledge_policy_catalog_def load_defs stage_knowledge_policy_catalog_def bt_extend_def bt_insert_def)
qed

text \<open>A threshold that is not a number passes the check, and the catalog with it differs from itself.\<close>

lemma nan_threshold_differs:
  defines "p \<equiv> demo_profile\<lparr>dp_visibility_threshold := 0x7FF8000000000000\<rparr>"
  shows "validate_decay_profile p = None \<and>
    (let c = load_knowledge_policy_catalog (projr (persist_decay_profile_schema p policy_store_new)) in \<not> policy_catalog_eq c c)"
proof -
  have v: "validate_decay_profile p = None"
    by (simp add: p_def validate_decay_profile_def demo_profile_def demo_names demo_words
      validate_scope_def validate_decay_function_def validate_score_from_def unit_bits)
  then show ?thesis
    by (simp add: persist_decay_profile_schema_def checked_def fails_def policy_store_new_def next_generation_def bt_get_def bt_insert_def
      load_knowledge_policy_catalog_def load_defs policy_catalog_eq_def decay_profile_eq_def) (simp add: p_def unit_bits)
qed
end
