(* ===== verification/Store_Engine.thy ===== *)
theory Store_Engine
  imports Schema_Guarantees Policy_Agree Mvcc_Batch Async_Views
begin

text \<open>
  A whole batch of the storage engine of crates/storage/src/lib.rs, composed of the parts that are
  modelled on their own: the tables with their constraints, the versions, the definitions of indexes
  and the knowledge policies. A batch holds the commit lock from its first read to the publication of
  its versions. What a file operation in between comes to is an argument: \<open>out\<close> up to the write of the
  tables, \<open>late\<close> between that write and the publication, where the log is flushed. The entries of the indexes and the log records of a batch are not part of this state.
\<close>

subsection \<open>State\<close>

type_synonym 'n index_options = "(string, 'n json) btree"

record 'n engine =
  en_schema :: "'n schema_store"
  en_mvcc :: mvcc_store
  en_indexes :: "(string, index_definition) btree"
  en_index_options :: "(string, 'n index_options) btree"
  en_policies :: policy_store

definition engine_new :: "'n engine" where
  "engine_new = \<lparr>en_schema = schema_store_new, en_mvcc = mvcc_default, en_indexes = [], en_index_options = [], en_policies = policy_store_new\<rparr>"

definition get_node :: "string \<Rightarrow> 'n engine \<Rightarrow> 'n json node_record option" where
  "get_node i en = bt_get (ss_nodes (en_schema en)) i"

definition get_edge :: "string \<Rightarrow> 'n engine \<Rightarrow> 'n json edge_record option" where
  "get_edge i en = bt_get (ss_edges (en_schema en)) i"

definition load_index_definitions :: "'n engine \<Rightarrow> index_definition list" where
  "load_index_definitions en = map snd (en_indexes en)"

subsection \<open>Batches\<close>

datatype 'n batch_op =
    RecordOp "'n schema_op"
  | PutIndex index_definition
  | DeleteIndex string
  | PutIndexOptions string "'n index_options"
  | DeleteIndexOptions string
  | PutKnowledgePolicyCatalog policy_catalog

definition record_ops :: "'n batch_op list \<Rightarrow> 'n schema_op list" where
  "record_ops = List.map_filter (\<lambda>op. case op of RecordOp op \<Rightarrow> Some op | _ \<Rightarrow> None)"

definition index_changes :: "'n batch_op list \<Rightarrow> (string, index_definition option) btree" where
  "index_changes ops = fold (\<lambda>op m. case op of
       PutIndex d \<Rightarrow> bt_insert (ix_name d) (Some d) m | DeleteIndex name \<Rightarrow> bt_insert name None m | _ \<Rightarrow> m) ops []"

definition index_option_changes :: "'n batch_op list \<Rightarrow> (string, 'n index_options option) btree" where
  "index_option_changes ops = fold (\<lambda>op m. case op of
       PutIndexOptions name options \<Rightarrow> bt_insert name (Some options) m | DeleteIndexOptions name \<Rightarrow> bt_insert name None m | _ \<Rightarrow> m) ops []"

definition policy_change :: "'n batch_op list \<Rightarrow> policy_catalog option" where
  "policy_change ops = fold (\<lambda>op r. case op of PutKnowledgePolicyCatalog c \<Rightarrow> Some c | _ \<Rightarrow> r) ops None"

definition fresh_node_ids :: "'n batch_op list \<Rightarrow> string set" where
  "fresh_node_ids ops = fold (\<lambda>op ids. case op of
       RecordOp (PutFreshNodeOp n) \<Rightarrow> insert (nr_id n) ids | RecordOp (PutNodeOp n) \<Rightarrow> ids - {nr_id n}
     | RecordOp (DeleteNodeOp i) \<Rightarrow> ids - {i} | _ \<Rightarrow> ids) ops {}"

definition fresh_edge_ids :: "'n batch_op list \<Rightarrow> string set" where
  "fresh_edge_ids ops = fold (\<lambda>op ids. case op of
       RecordOp (PutFreshEdgeOp e) \<Rightarrow> insert (er_id e) ids | RecordOp (PutEdgeOp e) \<Rightarrow> ids - {er_id e}
     | RecordOp (DeleteEdgeOp i) \<Rightarrow> ids - {i} | _ \<Rightarrow> ids) ops {}"

subsection \<open>Versions of a batch\<close>

definition node_mutation :: "string set \<Rightarrow> mvcc_store \<Rightarrow> string \<Rightarrow> 'j node_record option \<Rightarrow> 'j record_mutation option" where
  "node_mutation fresh s i new =
     (case new of
        Some n \<Rightarrow> Some (if i \<in> fresh then PutFreshNode n else PutNode n)
      | None \<Rightarrow> if current_head_for_key s (node_logical_key i) \<noteq> None then Some (DeleteNode i) else None)"

definition edge_mutation :: "string set \<Rightarrow> mvcc_store \<Rightarrow> string \<Rightarrow> 'j edge_record option \<Rightarrow> 'j record_mutation option" where
  "edge_mutation fresh s i new =
     (case new of
        Some e \<Rightarrow> Some (if i \<in> fresh then PutFreshEdge e else PutEdge e)
      | None \<Rightarrow> if current_head_for_key s (edge_logical_key i) \<noteq> None then Some (DeleteEdge i) else None)"

definition mutations_of :: "(string \<Rightarrow> 'r option \<Rightarrow> 'm option) \<Rightarrow> string list \<Rightarrow> (string, 'r change) btree \<Rightarrow> 'm list" where
  "mutations_of f order changes =
     List.map_filter (\<lambda>i. case bt_get changes i of Some (_, new) \<Rightarrow> f i new | None \<Rightarrow> None) order"

definition batch_mutations :: "string list \<times> string list \<Rightarrow> 'n batch_op list \<Rightarrow> 'n engine \<Rightarrow> 'n json record_mutation list" where
  "batch_mutations order ops en =
     (let bc = collect_ops (en_schema en) (record_ops ops) in
      mutations_of (node_mutation (fresh_node_ids ops) (en_mvcc en)) (fst order) (bc_nodes bc) @
      mutations_of (edge_mutation (fresh_edge_ids ops) (en_mvcc en)) (snd order) (bc_edges bc))"

definition stage_batch :: "'n json codec \<Rightarrow> string list \<times> string list \<Rightarrow> 'n batch_op list \<Rightarrow> 'n engine \<Rightarrow> storage_error + 'n json staged_batch" where
  "stage_batch c order ops en = staged_record_batch c (batch_mutations order ops en) (en_mvcc en)"

definition write_definitions :: "'n batch_op list \<Rightarrow> 'n engine \<Rightarrow> 'n engine" where
  "write_definitions ops en = en\<lparr>
     en_indexes := fold (\<lambda>(name, d). set_record name d) (index_changes ops) (en_indexes en),
     en_index_options := fold (\<lambda>(name, options). set_record name options) (index_option_changes ops) (en_index_options en),
     en_policies := (case policy_change ops of None \<Rightarrow> en_policies en
       | Some catalog \<Rightarrow> next_generation (stage_knowledge_policy_catalog catalog (en_policies en)))\<rparr>"

definition commit_batch_locked :: "('n json \<Rightarrow> string) \<Rightarrow> 'n json codec \<Rightarrow> string list \<times> string list \<Rightarrow> batch_outcome \<Rightarrow>
    storage_error option \<Rightarrow> 'n batch_op list \<Rightarrow> 'n engine \<Rightarrow> storage_error option \<times> 'n engine" where
  "commit_batch_locked js c order out late ops en =
     (let staged = stage_batch c order ops en;
          out = (case out of EarlyError e \<Rightarrow> EarlyError e
            | _ \<Rightarrow> (case staged of Inl e \<Rightarrow> StageError e | Inr _ \<Rightarrow> out))
      in case commit_locked js order out (record_ops ops) (en_schema en) of
           (Some e, st) \<Rightarrow> (Some e, en\<lparr>en_schema := st\<rparr>)
         | (None, st) \<Rightarrow>
             (let en = write_definitions ops (en\<lparr>en_schema := st\<rparr>) in
              case late of
                Some e \<Rightarrow> (Some e, en)
              | None \<Rightarrow> (None, en\<lparr>en_mvcc := publish_record_batch (projr staged) (en_mvcc en)\<rparr>)))"

subsection \<open>Steps\<close>

text \<open>A fresh id is one that no version of the store has ever used.\<close>

fun unused_id :: "mvcc_store \<Rightarrow> 'n batch_op \<Rightarrow> bool" where
  "unused_id s (RecordOp (PutFreshNodeOp n)) \<longleftrightarrow> bt_get (ms_values s) (node_logical_key (nr_id n)) = None"
| "unused_id s (RecordOp (PutFreshEdgeOp e)) \<longleftrightarrow> bt_get (ms_values s) (edge_logical_key (er_id e)) = None"
| "unused_id s op \<longleftrightarrow> True"

definition batch_allowed :: "'n json codec \<Rightarrow> string list \<times> string list \<Rightarrow> batch_outcome \<Rightarrow> 'n batch_op list \<Rightarrow> 'n engine \<Rightarrow> bool" where
  "batch_allowed c order out ops en \<longleftrightarrow>
     batch_order order (record_ops ops) (en_schema en) \<and> (\<forall>op\<in>set ops. unused_id (en_mvcc en) op) \<and>
     (\<forall>e. out \<noteq> StageError e) \<and> is_ok (stage_batch c order ops en) \<and> ms_current_version (en_mvcc en) < u64_max"

text \<open>
  What other threads do to the engine in one step: a batch that neither fails between its checks and its
  write nor after it, the pruning that respects readers, a definition or removal of constraints, and any
  change of the definitions of indexes and of policies. Batches that do fail there are left out, and so are
  the explicit \<open>prune_mvcc_versions\<close> and the rebuild of the versions from the tables at start.
\<close>

inductive engine_step :: "('n json \<Rightarrow> string) \<Rightarrow> 'n json codec \<Rightarrow> 'n engine \<Rightarrow> 'n engine \<Rightarrow> bool" for js c where
  batch: "batch_allowed c order out ops en \<Longrightarrow> engine_step js c en (snd (commit_batch_locked js c order out None ops en))"
| prune: "engine_step js c en (en\<lparr>en_mvcc := fst (trigger_prune_now c n (en_mvcc en))\<rparr>)"
| constraints: "schema_step js False (en_schema en) st \<Longrightarrow> ss_nodes st = ss_nodes (en_schema en) \<Longrightarrow> ss_edges st = ss_edges (en_schema en) \<Longrightarrow>
    engine_step js c en (en\<lparr>en_schema := st\<rparr>)"
| definitions: "engine_step js c en (en\<lparr>en_indexes := ix, en_index_options := options, en_policies := policies\<rparr>)"

inductive_cases engine_stepE: "engine_step js c en en'"

end
