(* ===== verification/Store_Batch.thy ===== *)
theory Store_Batch
  imports Store_Engine
begin

text \<open>
  What a batch of crates/storage/src/lib.rs does to tables and versions together: the current graph of
  the versions is that of the tables, and an accepted batch applies its changes to both, at one new
  version, so that older snapshots do not see it.
\<close>

subsection \<open>Agreement of tables and versions\<close>

definition head_nodes :: "'n json codec \<Rightarrow> 'n engine \<Rightarrow> string \<rightharpoonup> 'n json node_record" where
  "head_nodes c en = node_at c (en_mvcc en) (ms_current_version (en_mvcc en))"

definition head_edges :: "'n json codec \<Rightarrow> 'n engine \<Rightarrow> string \<rightharpoonup> 'n json edge_record" where
  "head_edges c en = edge_at c (en_mvcc en) (ms_current_version (en_mvcc en))"

definition tables_agree :: "'n json codec \<Rightarrow> 'n engine \<Rightarrow> bool" where
  "tables_agree c en \<longleftrightarrow> (\<forall>i. rel_option stored_like (head_nodes c en i) (get_node i en)) \<and> (\<forall>i. head_edges c en i = get_edge i en)"

definition storage_engine_ok :: "('n json \<Rightarrow> string) \<Rightarrow> 'n json codec \<Rightarrow> 'n engine \<Rightarrow> bool" where
  "storage_engine_ok js c en \<longleftrightarrow> schema_ok js (en_schema en) \<and> mvcc_ok c (en_mvcc en) \<and> tables_agree c en"

lemma storage_engine_ok_new: "storage_engine_ok js c engine_new"
  by (simp add: storage_engine_ok_def engine_new_def schema_ok_new tables_agree_def head_nodes_def head_edges_def get_node_def get_edge_def)
    (simp add: schema_store_new_def)

lemma read_beyond:
  assumes "versions_ok s" "ms_current_version s \<le> ts"
  shows "read_key s ts k = read_key s (ms_current_version s) k"
proof -
  have "at_most (head_version (key_or_default (ms_values s) k)) ts"
    using versions_ok_key(2) [OF assms(1), of k] assms(2) by (simp add: key_head_at_most_def at_most_def) (meson le_trans)
  then show ?thesis using versions_ok_key(1) [OF assms(1), of k] read_key_current [OF assms(1), of k]
    by (simp add: read_key_or_default live_raw_read_at)
qed

lemma graph_beyond:
  assumes "mvcc_ok c s" "ms_current_version s \<le> ts"
  shows "node_at c s ts = node_at c s (ms_current_version s)" "edge_at c s ts = edge_at c s (ms_current_version s)"
  using read_beyond [OF mvcc_ok_versions [OF assms(1)] assms(2)] by (simp_all add: node_at_def edge_at_def fun_eq_iff)

lemma unused_absent:
  assumes "bt_get (ms_values s) (node_logical_key i) = None" shows "node_at c s ts i = None"
  using assms by (simp add: node_at_def read_key_def)

lemma unused_edge_absent:
  assumes "bt_get (ms_values s) (edge_logical_key i) = None" shows "edge_at c s ts i = None"
  using assms by (simp add: edge_at_def read_key_def)

lemma headless_absent:
  "current_head_for_key s (node_logical_key i) = None \<Longrightarrow> node_at c s ts i = None"
  "current_head_for_key s (edge_logical_key i) = None \<Longrightarrow> edge_at c s ts i = None"
  by (auto simp: current_head_for_key_def node_at_def edge_at_def read_key_def read_at_def logical_head_of_def split: option.splits)

subsection \<open>The mutations of a batch\<close>

lemma mutations_Cons:
  "fold ap (mutations_of f (j # order) changes) g = fold ap (mutations_of f order changes)
     (case bt_get changes j of None \<Rightarrow> g | Some (old, new) \<Rightarrow> (case f j new of None \<Rightarrow> g | Some m \<Rightarrow> ap m g))"
  by (simp add: mutations_of_def List.map_filter_simps split: option.split)

lemma apply_mutations:
  assumes step: "\<And>i old new g. bt_get changes i = Some (old, new) \<Longrightarrow> (absent i \<Longrightarrow> g i = None) \<Longrightarrow>
      (case f i new of None \<Rightarrow> g | Some m \<Rightarrow> ap m g) = g(i := new)"
    and "distinct order" "\<And>i. i \<in> set order \<Longrightarrow> absent i \<Longrightarrow> g i = None"
  shows "fold ap (mutations_of f order changes) g i = (if i \<in> set order then latest g changes i else g i)"
  using assms(2,3)
proof (induction order arbitrary: g)
  case (Cons j order)
  have IH: "fold ap (mutations_of f order changes) g' i = (if i \<in> set order then latest g' changes i else g' i)"
    if "\<And>i. i \<in> set order \<Longrightarrow> absent i \<Longrightarrow> g' i = None" for g'
    using Cons.IH [OF _ that] Cons.prems(1) by simp
  show ?case
  proof (cases "bt_get changes j")
    case None
    then show ?thesis using IH [of g] Cons.prems by (auto simp: mutations_Cons latest_def)
  next
    case (Some ch)
    obtain old new where ch: "bt_get changes j = Some (old, new)" using Some by (cases ch) simp
    have "(case f j new of None \<Rightarrow> g | Some m \<Rightarrow> ap m g) = g(j := new)"
      by (rule step [OF ch]) (simp add: Cons.prems(2))
    then have "fold ap (mutations_of f (j # order) changes) g = fold ap (mutations_of f order changes) (g(j := new))"
      by (simp add: mutations_Cons ch)
    moreover have "\<And>i. i \<in> set order \<Longrightarrow> absent i \<Longrightarrow> (g(j := new)) i = None" using Cons.prems by auto
    ultimately show ?thesis using IH [of "g(j := new)"] Cons.prems(1) ch by (auto simp: latest_def split: option.split)
  qed
qed (simp add: mutations_of_def List.map_filter_simps)

lemma mutations_of_mem:
  "m \<in> set (mutations_of f order changes) \<longleftrightarrow> (\<exists>i\<in>set order. \<exists>old new. bt_get changes i = Some (old, new) \<and> f i new = Some m)"
  by (induction order) (auto simp: mutations_of_def List.map_filter_simps split: option.split)

lemma node_mutation_cases:
  assumes "node_mutation fresh s i new = Some m"
  obtains (put) n where "new = Some n" "m = (if i \<in> fresh then PutFreshNode n else PutNode n)" | (delete) "new = None" "m = DeleteNode i"
  using assms by (auto simp: node_mutation_def split: option.splits if_splits)

lemma edge_mutation_cases:
  assumes "edge_mutation fresh s i new = Some m"
  obtains (put) e where "new = Some e" "m = (if i \<in> fresh then PutFreshEdge e else PutEdge e)" | (delete) "new = None" "m = DeleteEdge i"
  using assms by (auto simp: edge_mutation_def split: option.splits if_splits)

lemma apply_none: "\<forall>m\<in>set ms. \<forall>g. ap m g = g \<Longrightarrow> fold ap ms g = g"
  by (induction ms) auto

lemma apply_other:
  "fold apply_node (mutations_of (edge_mutation fresh s) order changes) g = g"
  "fold apply_edge (mutations_of (node_mutation fresh s) order' changes') h = h"
  by (rule apply_none, force simp: mutations_of_mem elim: edge_mutation_cases)
    (rule apply_none, force simp: mutations_of_mem elim: node_mutation_cases)

lemma mutated_nodes:
  assumes f: "faithful nr_id N changes" and ks: "visits order changes"
    and absent: "\<And>i. current_head_for_key s (node_logical_key i) = None \<Longrightarrow> g i = None"
  shows "fold apply_node (mutations_of (node_mutation fresh s) order changes) g = latest g changes"
proof (rule ext)
  fix i
  have "fold apply_node (mutations_of (node_mutation fresh s) order changes) g i = (if i \<in> set order then latest g changes i else g i)"
    by (rule apply_mutations [where absent = "\<lambda>i. current_head_for_key s (node_logical_key i) = None"])
      (use f visit_keys [OF ks] absent in \<open>auto simp: node_mutation_def faithful_def split: option.split\<close>)
  then show "fold apply_node (mutations_of (node_mutation fresh s) order changes) g i = latest g changes i"
    using fun_cong [OF visit_all [OF ks, of g], of i] by simp
qed

lemma mutated_edges:
  assumes f: "faithful er_id N changes" and ks: "visits order changes"
    and absent: "\<And>i. current_head_for_key s (edge_logical_key i) = None \<Longrightarrow> g i = None"
  shows "fold apply_edge (mutations_of (edge_mutation fresh s) order changes) g = latest g changes"
proof (rule ext)
  fix i
  have "fold apply_edge (mutations_of (edge_mutation fresh s) order changes) g i = (if i \<in> set order then latest g changes i else g i)"
    by (rule apply_mutations [where absent = "\<lambda>i. current_head_for_key s (edge_logical_key i) = None"])
      (use f visit_keys [OF ks] absent in \<open>auto simp: edge_mutation_def faithful_def split: option.split\<close>)
  then show "fold apply_edge (mutations_of (edge_mutation fresh s) order changes) g i = latest g changes i"
    using fun_cong [OF visit_all [OF ks, of g], of i] by simp
qed

subsection \<open>Fresh ids\<close>

lemma fresh_nodes_from:
  assumes "i \<in> fresh_node_ids ops" shows "\<exists>n. RecordOp (PutFreshNodeOp n) \<in> set ops \<and> nr_id n = i"
proof -
  let ?f = "\<lambda>op ids. case op of RecordOp (PutFreshNodeOp n) \<Rightarrow> insert (nr_id n) ids | RecordOp (PutNodeOp n) \<Rightarrow> ids - {nr_id n}
     | RecordOp (DeleteNodeOp i) \<Rightarrow> ids - {i} | _ \<Rightarrow> ids"
  have "fold ?f xs ids \<subseteq> ids \<union> {i. \<exists>n. RecordOp (PutFreshNodeOp n) \<in> set xs \<and> nr_id n = i}" for xs :: "'a batch_op list" and ids
    by (induction xs arbitrary: ids) (fastforce split: batch_op.splits schema_op.splits)+
  from this [of ops "{}"] show ?thesis using assms by (auto simp: fresh_node_ids_def)
qed

lemma fresh_edges_from:
  assumes "i \<in> fresh_edge_ids ops" shows "\<exists>e. RecordOp (PutFreshEdgeOp e) \<in> set ops \<and> er_id e = i"
proof -
  let ?f = "\<lambda>op ids. case op of RecordOp (PutFreshEdgeOp e) \<Rightarrow> insert (er_id e) ids | RecordOp (PutEdgeOp e) \<Rightarrow> ids - {er_id e}
     | RecordOp (DeleteEdgeOp i) \<Rightarrow> ids - {i} | _ \<Rightarrow> ids"
  have "fold ?f xs ids \<subseteq> ids \<union> {i. \<exists>e. RecordOp (PutFreshEdgeOp e) \<in> set xs \<and> er_id e = i}" for xs :: "'a batch_op list" and ids
    by (induction xs arbitrary: ids) (fastforce split: batch_op.splits schema_op.splits)+
  from this [of ops "{}"] show ?thesis using assms by (auto simp: fresh_edge_ids_def)
qed

lemma batch_fresh_absent:
  assumes unused: "\<forall>op\<in>set ops. unused_id (en_mvcc en) op"
    and f: "batch_faithful (collect_ops (en_schema en) (record_ops ops)) (en_schema en)"
  shows "fresh_keys_absent (ms_values (en_mvcc en)) (batch_mutations order ops en)"
proof -
  let ?bc = "collect_ops (en_schema en) (record_ops ops)"
  have "bt_get (ms_values (en_mvcc en)) (mutation_key m) = None" if m: "m \<in> set (batch_mutations order ops en)" "is_fresh m" for m
  proof -
    from m(1) have "(\<exists>i old new. bt_get (bc_nodes ?bc) i = Some (old, new) \<and> node_mutation (fresh_node_ids ops) (en_mvcc en) i new = Some m) \<or>
       (\<exists>i old new. bt_get (bc_edges ?bc) i = Some (old, new) \<and> edge_mutation (fresh_edge_ids ops) (en_mvcc en) i new = Some m)"
      unfolding batch_mutations_def Let_def set_append Un_iff mutations_of_mem by blast
    with m(2) consider
      (node) i old n where "bt_get (bc_nodes ?bc) i = Some (old, Some n)" "m = PutFreshNode n" "i \<in> fresh_node_ids ops"
    | (edge) i old e where "bt_get (bc_edges ?bc) i = Some (old, Some e)" "m = PutFreshEdge e" "i \<in> fresh_edge_ids ops"
      by (auto simp: is_fresh_def elim!: node_mutation_cases edge_mutation_cases split: if_splits)
    then show ?thesis
    proof cases
      case node
      then have "nr_id n = i" using f by (auto simp: batch_faithful_def faithful_def)
      moreover obtain k where "RecordOp (PutFreshNodeOp k) \<in> set ops" "nr_id k = i" using fresh_nodes_from [OF node(3)] by blast
      ultimately show ?thesis using unused node(2) by (auto simp: mutation_key_def)
    next
      case edge
      then have "er_id e = i" using f by (auto simp: batch_faithful_def faithful_def)
      moreover obtain k where "RecordOp (PutFreshEdgeOp k) \<in> set ops" "er_id k = i" using fresh_edges_from [OF edge(3)] by blast
      ultimately show ?thesis using unused edge(2) by (auto simp: mutation_key_def)
    qed
  qed
  then show ?thesis by (auto simp: fresh_keys_absent_def list_all_iff)
qed

lemma record_ops_mem: "op \<in> set (record_ops ops) \<longleftrightarrow> RecordOp op \<in> set ops"
  by (induction ops) (auto simp: record_ops_def List.map_filter_simps split: batch_op.split)

lemma record_ops_fresh:
  assumes ok: "tables_agree c en" and unused: "\<forall>op\<in>set ops. unused_id (en_mvcc en) op"
  shows "\<forall>op\<in>set (record_ops ops). fresh_op (en_schema en) op"
proof
  fix op assume "op \<in> set (record_ops ops)"
  then have op: "RecordOp op \<in> set ops" by (simp add: record_ops_mem)
  have none: "head_nodes c en i = None \<Longrightarrow> get_node i en = None" "head_edges c en i = None \<Longrightarrow> get_edge i en = None" for i
    using ok by (auto simp: tables_agree_def dest!: spec [of _ i])
  show "fresh_op (en_schema en) op"
  proof (cases op)
    case (PutFreshNodeOp n)
    then have "bt_get (ms_values (en_mvcc en)) (node_logical_key (nr_id n)) = None" using op unused by auto
    then show ?thesis using PutFreshNodeOp none(1) [of "nr_id n"] by (simp add: head_nodes_def get_node_def unused_absent)
  next
    case (PutFreshEdgeOp e)
    then have "bt_get (ms_values (en_mvcc en)) (edge_logical_key (er_id e)) = None" using op unused by auto
    then show ?thesis using PutFreshEdgeOp none(2) [of "er_id e"] by (simp add: head_edges_def get_edge_def unused_edge_absent)
  qed simp_all
qed

subsection \<open>What a batch comes to\<close>

definition batch_version_after :: "string list \<times> string list \<Rightarrow> 'n batch_op list \<Rightarrow> 'n engine \<Rightarrow> nat" where
  "batch_version_after order ops en = ms_current_version (en_mvcc en) + (if batch_mutations order ops en = [] then 0 else 1)"

definition batch_applied :: "('n json \<Rightarrow> string) \<Rightarrow> 'n json codec \<Rightarrow> string list \<times> string list \<Rightarrow> 'n batch_op list \<Rightarrow> 'n engine \<Rightarrow> 'n engine \<Rightarrow> bool" where
  "batch_applied js c order ops en en' \<longleftrightarrow>
     (let bc = collect_ops (en_schema en) (record_ops ops); s = en_mvcc en; s' = en_mvcc en' in
      storage_engine_ok js c en' \<and> accepted js bc (en_schema en) (ss_manager (en_schema en')) \<and>
      en_schema en' = (write_batch bc (en_schema en))\<lparr>ss_manager := ss_manager (en_schema en')\<rparr> \<and>
      ms_current_version s' = batch_version_after order ops en \<and> ms_active_readers s' = ms_active_readers s \<and>
      (\<forall>ts. node_at c s' ts = (if ms_current_version s' \<le> ts then latest (node_at c s ts) (bc_nodes bc) else node_at c s ts)) \<and>
      (\<forall>ts. edge_at c s' ts = (if ms_current_version s' \<le> ts then latest (edge_at c s ts) (bc_edges bc) else edge_at c s ts)) \<and>
      (\<forall>ts. ts \<le> ms_current_version s \<longrightarrow> node_at c s' ts = node_at c s ts \<and> edge_at c s' ts = edge_at c s ts) \<and>
      en_indexes en' = en_indexes (write_definitions ops en) \<and> en_index_options en' = en_index_options (write_definitions ops en) \<and>
      en_policies en' = en_policies (write_definitions ops en))"

lemma latest_same_batch: "latest g changes i = (case bt_get changes i of Some (_, new) \<Rightarrow> new | None \<Rightarrow> g i)"
  by (rule latest_def)

lemma write_definitions_frame [simp]:
  "en_schema (write_definitions ops en) = en_schema en" "en_mvcc (write_definitions ops en) = en_mvcc en"
  "en_indexes (write_definitions ops (en\<lparr>en_schema := st\<rparr>)) = en_indexes (write_definitions ops en)"
  "en_index_options (write_definitions ops (en\<lparr>en_schema := st\<rparr>)) = en_index_options (write_definitions ops en)"
  "en_policies (write_definitions ops (en\<lparr>en_schema := st\<rparr>)) = en_policies (write_definitions ops en)"
  by (simp_all add: write_definitions_def split: option.split)

lemma stored_like_stored: "stored_like n (stored_node old n)"
  by (simp add: stored_like_def stored_node_def)

lemma batch_result:
  assumes ok: "storage_engine_ok js c en" and codec: "codec_ok c" and allowed: "batch_allowed c order out ops en"
  shows "(\<exists>e. commit_batch_locked js c order out None ops en = (Some e, en)) \<or>
    (\<exists>en'. commit_batch_locked js c order out None ops en = (None, en') \<and> batch_applied js c order ops en en')"
proof -
  let ?st = "en_schema en" and ?s = "en_mvcc en" and ?ms = "batch_mutations order ops en"
  let ?bc = "collect_ops ?st (record_ops ops)"
  have st: "schema_ok js ?st" and s: "mvcc_ok c ?s" and agree: "tables_agree c en" using ok by (simp_all add: storage_engine_ok_def)
  have ord: "batch_order order (record_ops ops) ?st" and unused: "\<forall>op\<in>set ops. unused_id ?s op" and cv: "ms_current_version ?s < u64_max"
    and out: "\<forall>e. out \<noteq> StageError e" using allowed by (simp_all add: batch_allowed_def)
  obtain staged where staged: "stage_batch c order ops en = Inr staged" using allowed by (auto simp: batch_allowed_def is_ok_iff)
  note fresh = record_ops_fresh [OF agree unused]
  note f = collect_faithful(1) [OF fresh]
  let ?out = "case out of EarlyError e \<Rightarrow> EarlyError e | _ \<Rightarrow> out"
  have same: "?out = out" by (cases out) simp_all
  have unfold: "commit_batch_locked js c order out None ops en = (case commit_locked js order out (record_ops ops) ?st of
      (Some e, st) \<Rightarrow> (Some e, en\<lparr>en_schema := st\<rparr>)
    | (None, st) \<Rightarrow> (None, (write_definitions ops (en\<lparr>en_schema := st\<rparr>))\<lparr>en_mvcc := publish_record_batch staged ?s\<rparr>))"
    by (cases out) (simp_all add: commit_batch_locked_def staged Let_def split: prod.split option.split)
  from commit_result [OF st ord fresh out] consider
    (refused) e where "commit_locked js order out (record_ops ops) ?st = (Some e, ?st)"
  | (done1) sm where "commit_locked js order out (record_ops ops) ?st = (None, (write_batch ?bc ?st)\<lparr>ss_manager := sm\<rparr>)" "accepted js ?bc ?st sm"
    by blast
  then show ?thesis
  proof cases
    case refused
    then show ?thesis by (simp add: unfold)
  next
    case done1
    let ?st' = "(write_batch ?bc ?st)\<lparr>ss_manager := sm\<rparr>" and ?s' = "publish_record_batch staged ?s"
    let ?en' = "(write_definitions ops (en\<lparr>en_schema := ?st'\<rparr>))\<lparr>en_mvcc := ?s'\<rparr>"
    have st': "schema_ok js ?st'" by (rule accepted_ok [OF st f done1(2)])
    note pub = publish_batch_ok [OF s codec cv batch_fresh_absent [OF unused f] staged [unfolded stage_batch_def]]
    let ?v = "ms_current_version ?s + (if ?ms = [] then 0 else 1)"
    have nodes: "node_at c ?s' ts = (if ?v \<le> ts then latest (node_at c ?s ts) (bc_nodes ?bc) else node_at c ?s ts)" for ts
    proof -
      have "fold apply_node ?ms (node_at c ?s ts) = latest (node_at c ?s ts) (bc_nodes ?bc)"
        using f ord by (simp add: batch_mutations_def Let_def apply_other batch_faithful_def batch_order_def headless_absent
            mutated_nodes [where N = "bt_get (ss_nodes ?st)"])
      then show ?thesis using pub(4) by simp
    qed
    have edges: "edge_at c ?s' ts = (if ?v \<le> ts then latest (edge_at c ?s ts) (bc_edges ?bc) else edge_at c ?s ts)" for ts
    proof -
      have "fold apply_edge ?ms (edge_at c ?s ts) = latest (edge_at c ?s ts) (bc_edges ?bc)"
        using f ord by (simp add: batch_mutations_def Let_def apply_other batch_faithful_def batch_order_def headless_absent
            mutated_edges [where N = "bt_get (ss_edges ?st)"])
      then show ?thesis using pub(5) by simp
    qed
    have past: "node_at c ?s' ts = node_at c ?s ts \<and> edge_at c ?s' ts = edge_at c ?s ts" if "ts \<le> ms_current_version ?s" for ts
      using pub(4,5) [of ts] that by (cases "?ms = []") auto
    have cur: "ms_current_version ?s' = ?v" using pub(3) by simp
    have readers: "ms_active_readers ?s' = ms_active_readers ?s"
      by (simp add: publish_record_batch_def publish_states_def Let_def split: prod.split)
    have hn: "head_nodes c ?en' = latest (head_nodes c en) (bc_nodes ?bc)" and he: "head_edges c ?en' = latest (head_edges c en) (bc_edges ?bc)"
      using graph_beyond [OF s, of ?v] by (simp_all add: head_nodes_def head_edges_def cur nodes edges)
    have "rel_option stored_like (head_nodes c ?en' i) (get_node i ?en')" for i
      using agree write_batch_node [OF st f, of i] stored_like_stored
      by (auto simp: hn latest_def get_node_def tables_agree_def option.rel_map intro!: option.rel_refl_strong split: option.split)
    moreover have "head_edges c ?en' i = get_edge i ?en'" for i
      using agree write_batch_edges(3) [OF st f] by (auto simp: he latest_def get_edge_def tables_agree_def split: option.split)
    ultimately have "storage_engine_ok js c ?en'" using st' pub(2) by (simp add: storage_engine_ok_def tables_agree_def)
    then have "batch_applied js c order ops en ?en'"
      using done1(2) cur readers nodes edges past by (simp add: batch_applied_def batch_version_after_def Let_def)
    then show ?thesis by (simp add: unfold done1(1))
  qed
qed

end
