(* ===== verification/Store_Transaction.thy ===== *)
theory Store_Transaction
  imports Store_Batch
begin

text \<open>
  \<open>StorageTransaction\<close> of crates/storage/src/lib.rs: a leased snapshot of the versions, the definitions
  and the knowledge policies as they were at its start, and the private writes put over them. A commit
  checks the writes against the engine and then hands them over as one batch. Numbers of JSON values are
  compared as \<open>serde_json\<close> compares them: equal ones are one element of the type.
\<close>

subsection \<open>State\<close>

record 'n storage_tx =
  sx_snapshot :: mvcc_snapshot
  sx_constraints :: "'n constraint list"
  sx_indexes :: "index_definition list"
  sx_constraint_writes :: "(string, 'n constraint option) btree"
  sx_index_writes :: "(string, index_definition option) btree"
  sx_index_option_writes :: "(string, 'n index_options option) btree"
  sx_initial_policy :: policy_catalog
  sx_policy :: policy_catalog
  sx_node_writes :: "(string, 'n json node_record option) btree"
  sx_edge_writes :: "(string, 'n json edge_record option) btree"
  sx_fresh_nodes :: "string set"
  sx_fresh_edges :: "string set"

definition begin_transaction :: "'n engine \<Rightarrow> 'n engine \<times> 'n storage_tx" where
  "begin_transaction en =
     (let policy = load_knowledge_policy_catalog (en_policies en);
          (s, snapshot) = begin_registered_snapshot (en_mvcc en)
      in (en\<lparr>en_mvcc := s\<rparr>,
          \<lparr>sx_snapshot = snapshot, sx_constraints = load_constraints (en_schema en), sx_indexes = load_index_definitions en,
           sx_constraint_writes = [], sx_index_writes = [], sx_index_option_writes = [], sx_initial_policy = policy, sx_policy = policy,
           sx_node_writes = [], sx_edge_writes = [], sx_fresh_nodes = {}, sx_fresh_edges = {}\<rparr>))"

subsection \<open>Definitions under the transaction's own\<close>

definition constraints_with_writes :: "'n storage_tx \<Rightarrow> 'n constraint list" where
  "constraints_with_writes tx = map snd (overlay_all (sx_constraint_writes tx) (collect_by co_name (sx_constraints tx)))"

definition index_definitions_with_writes :: "'n storage_tx \<Rightarrow> index_definition list" where
  "index_definitions_with_writes tx = map snd (overlay_all (sx_index_writes tx) (collect_by ix_name (sx_indexes tx)))"

subsection \<open>Reads\<close>

definition tx_get_node_record :: "'n json codec \<Rightarrow> 'n engine \<Rightarrow> 'n storage_tx \<Rightarrow> string \<Rightarrow> storage_error + 'n json node_record option" where
  "tx_get_node_record c en tx i =
     (case bt_get (sx_node_writes tx) i of Some n \<Rightarrow> Inr n | None \<Rightarrow> get_node_record_visible_at c (en_mvcc en) (sx_snapshot tx) i)"

definition tx_get_edge_record :: "'n json codec \<Rightarrow> 'n engine \<Rightarrow> 'n storage_tx \<Rightarrow> string \<Rightarrow> storage_error + 'n json edge_record option" where
  "tx_get_edge_record c en tx i =
     (case bt_get (sx_edge_writes tx) i of Some e \<Rightarrow> Inr e | None \<Rightarrow> get_edge_record_visible_at c (en_mvcc en) (sx_snapshot tx) i)"

text \<open>The writes that match go in, every other id that is written comes out.\<close>

definition overlay_matching :: "('r \<Rightarrow> bool) \<Rightarrow> (string, 'r option) btree \<Rightarrow> (string, 'r) btree \<Rightarrow> (string, 'r) btree" where
  "overlay_matching P ws m = fold (\<lambda>(i, w) m. case w of
       Some r \<Rightarrow> if P r then bt_insert i r m else bt_remove i m | None \<Rightarrow> bt_remove i m) ws m"

definition tx_nodes_by_label :: "'n json codec \<Rightarrow> 'n engine \<Rightarrow> 'n storage_tx \<Rightarrow> string \<Rightarrow> storage_error + 'n json node_record list" where
  "tx_nodes_by_label c en tx label =
     result_bind (get_nodes_by_label_visible_at c (en_mvcc en) (sx_snapshot tx) label) (\<lambda>below.
       Inr (map snd (overlay_matching (\<lambda>n. label \<in> set (nr_labels n)) (sx_node_writes tx) (collect_by nr_id below))))"

definition tx_edges_by_type :: "'n json codec \<Rightarrow> 'n engine \<Rightarrow> 'n storage_tx \<Rightarrow> string \<Rightarrow> storage_error + 'n json edge_record list" where
  "tx_edges_by_type c en tx edge_type =
     result_bind (get_edges_by_type_visible_at c (en_mvcc en) (sx_snapshot tx) edge_type) (\<lambda>below.
       Inr (map snd (overlay_matching (\<lambda>e. er_edge_type e = edge_type) (sx_edge_writes tx) (collect_by er_id below))))"

definition tx_all_node_records :: "'n json codec \<Rightarrow> 'n engine \<Rightarrow> 'n storage_tx \<Rightarrow> storage_error + 'n json node_record list" where
  "tx_all_node_records c en tx =
     result_bind (all_node_records_visible_at c (en_mvcc en) (sx_snapshot tx)) (\<lambda>below.
       Inr (map snd (overlay_all (sx_node_writes tx) (collect_by nr_id below))))"

definition tx_all_edge_records :: "'n json codec \<Rightarrow> 'n engine \<Rightarrow> 'n storage_tx \<Rightarrow> storage_error + 'n json edge_record list" where
  "tx_all_edge_records c en tx =
     result_bind (all_edge_records_visible_at c (en_mvcc en) (sx_snapshot tx)) (\<lambda>below.
       Inr (map snd (overlay_all (sx_edge_writes tx) (collect_by er_id below))))"

definition tx_adjacent_edges :: "'n json codec \<Rightarrow> 'n engine \<Rightarrow> 'n storage_tx \<Rightarrow> string \<Rightarrow> edge_direction \<Rightarrow> string option \<Rightarrow>
    storage_error + 'n json edge_record list" where
  "tx_adjacent_edges c en tx node_id direction edge_type =
     result_bind (tx_all_edge_records c en tx) (\<lambda>es.
       Inr (sort_key er_id (filter (edge_matches_adjacency node_id direction edge_type) es)))"

subsection \<open>Writes\<close>

definition tx_put_node_record :: "'n json node_record \<Rightarrow> 'n storage_tx \<Rightarrow> 'n storage_tx" where
  "tx_put_node_record n tx = tx\<lparr>sx_fresh_nodes := sx_fresh_nodes tx - {nr_id n},
     sx_node_writes := bt_insert (nr_id n) (Some n) (sx_node_writes tx)\<rparr>"

definition tx_put_fresh_node_record :: "'n json node_record \<Rightarrow> 'n storage_tx \<Rightarrow> 'n storage_tx" where
  "tx_put_fresh_node_record n tx = tx\<lparr>sx_fresh_nodes := insert (nr_id n) (sx_fresh_nodes tx),
     sx_node_writes := bt_insert (nr_id n) (Some n) (sx_node_writes tx)\<rparr>"

definition tx_delete_node_record :: "string \<Rightarrow> 'n storage_tx \<Rightarrow> 'n storage_tx" where
  "tx_delete_node_record i tx = tx\<lparr>sx_fresh_nodes := sx_fresh_nodes tx - {i}, sx_node_writes := bt_insert i None (sx_node_writes tx)\<rparr>"

definition tx_put_edge_record :: "'n json edge_record \<Rightarrow> 'n storage_tx \<Rightarrow> 'n storage_tx" where
  "tx_put_edge_record e tx = tx\<lparr>sx_fresh_edges := sx_fresh_edges tx - {er_id e},
     sx_edge_writes := bt_insert (er_id e) (Some e) (sx_edge_writes tx)\<rparr>"

definition tx_put_fresh_edge_record :: "'n json edge_record \<Rightarrow> 'n storage_tx \<Rightarrow> 'n storage_tx" where
  "tx_put_fresh_edge_record e tx = tx\<lparr>sx_fresh_edges := insert (er_id e) (sx_fresh_edges tx),
     sx_edge_writes := bt_insert (er_id e) (Some e) (sx_edge_writes tx)\<rparr>"

definition tx_delete_edge_record :: "string \<Rightarrow> 'n storage_tx \<Rightarrow> 'n storage_tx" where
  "tx_delete_edge_record i tx = tx\<lparr>sx_fresh_edges := sx_fresh_edges tx - {i}, sx_edge_writes := bt_insert i None (sx_edge_writes tx)\<rparr>"

definition storage_tx_rollback :: "'n storage_tx \<Rightarrow> 'n storage_tx" where
  "storage_tx_rollback tx = tx\<lparr>sx_constraint_writes := [], sx_index_writes := [], sx_index_option_writes := [],
     sx_policy := sx_initial_policy tx, sx_node_writes := [], sx_edge_writes := [], sx_fresh_nodes := {}, sx_fresh_edges := {}\<rparr>"

datatype 'n tx_op =
    TxPutConstraint "'n constraint"
  | TxDeleteConstraint string
  | TxPutIndex index_definition
  | TxDeleteIndex string
  | TxPutIndexOptions string "'n index_options"
  | TxDeleteIndexOptions string
  | TxPolicy "'n policy_statement"
  | TxPutNode "'n json node_record"
  | TxPutFreshNode "'n json node_record"
  | TxDeleteNode string
  | TxPutEdge "'n json edge_record"
  | TxPutFreshEdge "'n json edge_record"
  | TxDeleteEdge string
  | TxRollback

fun tx_exec :: "('n \<Rightarrow> 64 word option) \<Rightarrow> ('n \<Rightarrow> int option) \<Rightarrow> 'n tx_op \<Rightarrow> 'n storage_tx \<Rightarrow> 'n storage_tx" where
  "tx_exec as_f64 as_i64 (TxPutConstraint k) tx = tx\<lparr>sx_constraint_writes := bt_insert (co_name k) (Some k) (sx_constraint_writes tx)\<rparr>"
| "tx_exec as_f64 as_i64 (TxDeleteConstraint name) tx = tx\<lparr>sx_constraint_writes := bt_insert name None (sx_constraint_writes tx)\<rparr>"
| "tx_exec as_f64 as_i64 (TxPutIndex d) tx = tx\<lparr>sx_index_writes := bt_insert (ix_name d) (Some d) (sx_index_writes tx)\<rparr>"
| "tx_exec as_f64 as_i64 (TxDeleteIndex name) tx = tx\<lparr>sx_index_writes := bt_insert name None (sx_index_writes tx)\<rparr>"
| "tx_exec as_f64 as_i64 (TxPutIndexOptions name options) tx =
     tx\<lparr>sx_index_option_writes := bt_insert name (Some options) (sx_index_option_writes tx)\<rparr>"
| "tx_exec as_f64 as_i64 (TxDeleteIndexOptions name) tx = tx\<lparr>sx_index_option_writes := bt_insert name None (sx_index_option_writes tx)\<rparr>"
| "tx_exec as_f64 as_i64 (TxPolicy statement) tx = tx\<lparr>sx_policy := snd (run_inside as_f64 as_i64 statement (sx_policy tx))\<rparr>"
| "tx_exec as_f64 as_i64 (TxPutNode n) tx = tx_put_node_record n tx"
| "tx_exec as_f64 as_i64 (TxPutFreshNode n) tx = tx_put_fresh_node_record n tx"
| "tx_exec as_f64 as_i64 (TxDeleteNode i) tx = tx_delete_node_record i tx"
| "tx_exec as_f64 as_i64 (TxPutEdge e) tx = tx_put_edge_record e tx"
| "tx_exec as_f64 as_i64 (TxPutFreshEdge e) tx = tx_put_fresh_edge_record e tx"
| "tx_exec as_f64 as_i64 (TxDeleteEdge i) tx = tx_delete_edge_record i tx"
| "tx_exec as_f64 as_i64 TxRollback tx = storage_tx_rollback tx"

subsection \<open>Commit: the check\<close>

definition edge_content_matches :: "'j edge_record \<Rightarrow> 'j edge_record \<Rightarrow> bool" where
  "edge_content_matches left right \<longleftrightarrow>
     er_id left = er_id right \<and> er_start_node left = er_start_node right \<and> er_end_node left = er_end_node right \<and>
     er_edge_type left = er_edge_type right \<and> er_properties left = er_properties right"

definition noop_edge_write :: "'n engine \<Rightarrow> 'n storage_tx \<Rightarrow> string \<times> 'n json edge_record option \<Rightarrow> bool" where
  "noop_edge_write en tx w =
     (case w of (i, staged) \<Rightarrow> i \<notin> sx_fresh_edges tx \<and>
        (case (staged, get_edge i en) of (Some staged, Some current) \<Rightarrow> edge_content_matches staged current | _ \<Rightarrow> False))"

definition discard_noop_edge_writes :: "'n engine \<Rightarrow> 'n storage_tx \<Rightarrow> 'n storage_tx" where
  "discard_noop_edge_writes en tx =
     (let no_op_ids = map fst (filter (noop_edge_write en tx) (sx_edge_writes tx))
      in tx\<lparr>sx_edge_writes := fold bt_remove no_op_ids (sx_edge_writes tx), sx_fresh_edges := sx_fresh_edges tx - set no_op_ids\<rparr>)"

fun first_some :: "('a \<Rightarrow> 'e option) \<Rightarrow> 'a list \<Rightarrow> 'e option" where
  "first_some f [] = None"
| "first_some f (x # xs) = (case f x of None \<Rightarrow> first_some f xs | Some e \<Rightarrow> Some e)"

definition definition_conflict :: "string \<Rightarrow> 'n engine \<Rightarrow> 'n storage_tx \<Rightarrow> storage_error" where
  "definition_conflict key en tx = TransactionConflict key (sn_read_ts (sx_snapshot tx)) (mh_head (mvcc_head_of (en_mvcc en)))"

definition constraint_conflict :: "'n engine \<Rightarrow> 'n storage_tx \<Rightarrow> string \<Rightarrow> storage_error option" where
  "constraint_conflict en tx name =
     (if List.find (\<lambda>k. co_name k = name) (load_constraints (en_schema en)) \<noteq> List.find (\<lambda>k. co_name k = name) (sx_constraints tx)
      then Some (definition_conflict (''constraint:'' @ name) en tx) else None)"

definition index_conflict :: "'n engine \<Rightarrow> 'n storage_tx \<Rightarrow> string \<Rightarrow> storage_error option" where
  "index_conflict en tx name =
     (if List.find (\<lambda>d. ix_name d = name) (load_index_definitions en) \<noteq> List.find (\<lambda>d. ix_name d = name) (sx_indexes tx)
      then Some (definition_conflict (''index:'' @ name) en tx) else None)"

definition policy_conflict :: "'n engine \<Rightarrow> 'n storage_tx \<Rightarrow> storage_error option" where
  "policy_conflict en tx =
     (if \<not> policy_catalog_eq (sx_policy tx) (sx_initial_policy tx) \<and>
         \<not> policy_catalog_eq (load_knowledge_policy_catalog (en_policies en)) (sx_initial_policy tx)
      then Some (definition_conflict ''knowledge_policy_catalog'' en tx) else None)"

definition ensure_key_is_unmodified_since_snapshot :: "'n engine \<Rightarrow> 'n storage_tx \<Rightarrow> string \<Rightarrow> storage_error option" where
  "ensure_key_is_unmodified_since_snapshot en tx key =
     (case current_head_for_key (en_mvcc en) key of
        None \<Rightarrow> None
      | Some head \<Rightarrow>
          if lh_head head > sn_read_ts (sx_snapshot tx) then Some (TransactionConflict key (sn_read_ts (sx_snapshot tx)) (lh_head head)) else None)"

definition node_conflict :: "'n engine \<Rightarrow> 'n storage_tx \<Rightarrow> string \<Rightarrow> storage_error option" where
  "node_conflict en tx i =
     (if i \<in> sx_fresh_nodes tx then None else ensure_key_is_unmodified_since_snapshot en tx (node_logical_key i))"

definition edge_conflict :: "'n json codec \<Rightarrow> 'n engine \<Rightarrow> 'n storage_tx \<Rightarrow> string \<times> 'n json edge_record option \<Rightarrow> storage_error option" where
  "edge_conflict c en tx w =
     (case w of (i, edge) \<Rightarrow>
        if i \<in> sx_fresh_edges tx then None
        else
          (let check = ensure_key_is_unmodified_since_snapshot en tx (edge_logical_key i) in
           if edge = None then check
           else case get_edge_record_visible_at c (en_mvcc en) (sx_snapshot tx) i of
                  Inl e \<Rightarrow> Some e
                | Inr snapshot_edge \<Rightarrow>
                    if snapshot_edge \<noteq> None \<and> get_edge i en = None then Some (NotFound (edge_logical_key i)) else check))"

definition ensure_no_write_conflicts :: "'n json codec \<Rightarrow> 'n engine \<Rightarrow> 'n storage_tx \<Rightarrow> storage_error option" where
  "ensure_no_write_conflicts c en tx =
     first_of (first_some (constraint_conflict en tx) (bt_keys (sx_constraint_writes tx)))
       (first_of (first_some (index_conflict en tx) (bt_keys (sx_index_writes tx)))
         (first_of (policy_conflict en tx)
           (first_of (first_some (node_conflict en tx) (bt_keys (sx_node_writes tx)))
             (first_some (edge_conflict c en tx) (sx_edge_writes tx)))))"

definition tx_check :: "'n json codec \<Rightarrow> 'n engine \<Rightarrow> 'n storage_tx \<Rightarrow> storage_error option \<times> 'n storage_tx" where
  "tx_check c en tx = (let tx = discard_noop_edge_writes en tx in (ensure_no_write_conflicts c en tx, tx))"

subsection \<open>Commit: the batch\<close>

definition constraint_write_op :: "string \<times> 'n constraint option \<Rightarrow> 'n batch_op" where
  "constraint_write_op w = RecordOp (case w of (_, Some k) \<Rightarrow> PutConstraintOp k | (name, None) \<Rightarrow> DeleteConstraintOp name)"

definition index_write_op :: "string \<times> index_definition option \<Rightarrow> 'n batch_op" where
  "index_write_op w = (case w of (_, Some d) \<Rightarrow> PutIndex d | (name, None) \<Rightarrow> DeleteIndex name)"

definition index_option_write_op :: "string \<times> 'n index_options option \<Rightarrow> 'n batch_op" where
  "index_option_write_op w = (case w of (name, Some options) \<Rightarrow> PutIndexOptions name options | (name, None) \<Rightarrow> DeleteIndexOptions name)"

definition node_write_op :: "string set \<Rightarrow> string \<times> 'n json node_record option \<Rightarrow> 'n batch_op" where
  "node_write_op fresh w = RecordOp (case w of
       (i, Some n) \<Rightarrow> if i \<in> fresh then PutFreshNodeOp n else PutNodeOp n | (i, None) \<Rightarrow> DeleteNodeOp i)"

definition edge_write_op :: "string set \<Rightarrow> string \<times> 'n json edge_record option \<Rightarrow> 'n batch_op" where
  "edge_write_op fresh w = RecordOp (case w of
       (i, Some e) \<Rightarrow> if i \<in> fresh then PutFreshEdgeOp e else PutEdgeOp e | (i, None) \<Rightarrow> DeleteEdgeOp i)"

definition tx_batch :: "'n storage_tx \<Rightarrow> 'n batch_op list" where
  "tx_batch tx =
     map constraint_write_op (sx_constraint_writes tx) @ map index_write_op (sx_index_writes tx) @
     map index_option_write_op (sx_index_option_writes tx) @
     (if policy_catalog_eq (sx_policy tx) (sx_initial_policy tx) then [] else [PutKnowledgePolicyCatalog (sx_policy tx)]) @
     map (node_write_op (sx_fresh_nodes tx)) (sx_node_writes tx) @ map (edge_write_op (sx_fresh_edges tx)) (sx_edge_writes tx)"

definition tx_committed :: "'n storage_tx \<Rightarrow> 'n storage_tx" where
  "tx_committed tx = tx\<lparr>sx_constraints := constraints_with_writes tx, sx_indexes := index_definitions_with_writes tx,
     sx_initial_policy := sx_policy tx, sx_constraint_writes := [], sx_index_writes := [], sx_index_option_writes := [],
     sx_node_writes := [], sx_edge_writes := [], sx_fresh_nodes := {}, sx_fresh_edges := {}\<rparr>"

definition tx_write :: "('n json \<Rightarrow> string) \<Rightarrow> 'n json codec \<Rightarrow> string list \<times> string list \<Rightarrow> batch_outcome \<Rightarrow> storage_error option \<Rightarrow>
    'n storage_tx \<Rightarrow> 'n engine \<Rightarrow> storage_error option \<times> 'n storage_tx \<times> 'n engine" where
  "tx_write js c order out late tx en =
     (let (result, en) = commit_batch_locked js c order out late (tx_batch tx) en in
      if result \<noteq> None \<or> sx_constraint_writes tx \<noteq> [] then
        (case rebuild_schema_manager js (en_schema en) of
           Inl e \<Rightarrow> (Some e, tx, en)
         | Inr st \<Rightarrow> (result, if result = None then tx_committed tx else tx, en\<lparr>en_schema := st\<rparr>))
      else (None, tx_committed tx, en))"

definition storage_tx_commit :: "('n json \<Rightarrow> string) \<Rightarrow> 'n json codec \<Rightarrow> string list \<times> string list \<Rightarrow> batch_outcome \<Rightarrow> storage_error option \<Rightarrow>
    'n storage_tx \<Rightarrow> 'n engine \<Rightarrow> storage_error option \<times> 'n storage_tx \<times> 'n engine" where
  "storage_tx_commit js c order out late tx en =
     (case tx_check c en tx of
        (Some e, tx) \<Rightarrow> (Some e, tx, en)
      | (None, tx) \<Rightarrow> tx_write js c order out late tx en)"

end
