(* ===== verification/Store_Views.thy ===== *)
theory Store_Views
  imports Store_Transaction
begin

text \<open>
  What a transaction of crates/storage/src/lib.rs sees and what it hands over: its writes over the graph
  of its snapshot, whichever way it reads, and its batch as the same writes over the tables.
\<close>

subsection \<open>Writes over a graph\<close>

definition overlaid :: "(string \<rightharpoonup> 'r) \<Rightarrow> (string, 'r option) btree \<Rightarrow> string \<rightharpoonup> 'r" where
  "overlaid g ws i = (case bt_get ws i of Some w \<Rightarrow> w | None \<Rightarrow> g i)"

lemma overlaid_Nil [simp]: "overlaid g [] = g"
  by (simp add: overlaid_def fun_eq_iff)

lemma overlay_matching_get:
  assumes "distinct (map fst ws)"
  shows "bt_get (overlay_matching P ws m) i =
    (case bt_get ws i of Some (Some r) \<Rightarrow> if P r then Some r else None | Some None \<Rightarrow> None | None \<Rightarrow> bt_get m i)"
  using assms
proof (induction ws arbitrary: m)
  case (Cons x ws)
  obtain k w where x: "x = (k, w)" by (cases x)
  have "bt_get ws k = None" using Cons.prems x by (force simp: bt_get_None_iff)
  then show ?case using Cons x by (auto simp: overlay_matching_def bt_get_Cons split: option.split)
qed (simp add: overlay_matching_def bt_get_def)

lemma overlay_matching_wf [wf_intros]: "bt_wf m \<Longrightarrow> bt_wf (overlay_matching P ws m)"
  by (induction ws arbitrary: m) (auto simp: overlay_matching_def bt_wf_insert bt_wf_remove split: option.split)

lemma overlay_all_matching: "overlay_all ws m = overlay_matching (\<lambda>_. True) ws m"
  unfolding overlay_all_def overlay_matching_def if_True ..

lemma collect_by_wf [wf_intros]: "bt_wf (collect_by f xs)"
  by (simp add: collect_by_def bt_wf_extend)

lemma bt_values: "bt_wf m \<Longrightarrow> set (map snd m) = {v. \<exists>i. bt_get m i = Some v}"
  by (force simp: bt_get_Some_iff)

text \<open>A table keyed by the ids of its records lists a graph.\<close>

lemma lists_of_table:
  assumes wf: "bt_wf m" and get: "\<And>i. bt_get m i = (case g i of Some r \<Rightarrow> if P r then Some r else None | None \<Rightarrow> None)"
    and ids: "\<And>i r. g i = Some r \<Longrightarrow> rid r = i"
  shows "lists_exactly g rid P (map snd m)"
proof -
  have keys: "map rid (map snd m) = bt_keys m"
  proof -
    have "rid (snd e) = fst e" if "e \<in> set m" for e
    proof -
      have "bt_get m (fst e) = Some (snd e)" using that bt_get_Some_iff [OF wf, of "fst e" "snd e"] by simp
      then show ?thesis using get [of "fst e"] ids by (auto split: option.splits if_splits)
    qed
    then show ?thesis by (simp add: bt_keys_def)
  qed
  have "set (map snd m) = {r. (\<exists>i. g i = Some r) \<and> P r}"
    unfolding bt_values [OF wf] by (auto simp: get split: option.splits if_splits)
  moreover have "sorted_wrt (<) (map rid (map snd m))" unfolding keys using wf by (simp add: bt_wf_def bt_keys_def)
  ultimately show ?thesis unfolding lists_exactly_def by blast
qed

lemma table_of_list:
  assumes l: "lists_exactly g rid P xs" and ids: "\<And>i r. g i = Some r \<Longrightarrow> rid r = i"
  shows "bt_get (collect_by rid xs) i = (case g i of Some r \<Rightarrow> if P r then Some r else None | None \<Rightarrow> None)"
proof -
  let ?m = "map (\<lambda>x. (rid x, x)) xs"
  have wf: "bt_wf ?m" using l by (simp add: lists_exactly_def bt_wf_def comp_def)
  have mem: "bt_get ?m i = Some r \<longleftrightarrow> g i = Some r \<and> P r" for r
  proof -
    have "bt_get ?m i = Some r \<longleftrightarrow> rid r = i \<and> r \<in> set xs" unfolding bt_get_Some_iff [OF wf] by auto
    also have "\<dots> \<longleftrightarrow> rid r = i \<and> (\<exists>j. g j = Some r) \<and> P r" using l unfolding lists_exactly_def by blast
    also have "\<dots> \<longleftrightarrow> g i = Some r \<and> P r" using ids by blast
    finally show ?thesis .
  qed
  show ?thesis unfolding collect_by_def bt_get_extend_empty [OF wf]
    by (rule option_ext, cases "g i") (auto simp: mem)
qed

lemma overlaid_ids:
  assumes "ids_ok rid ws" "bt_wf ws" "\<And>i r. g i = Some r \<Longrightarrow> rid r = i" "overlaid g ws i = Some r"
  shows "rid r = i"
  using assms by (auto simp: overlaid_def ids_ok_def bt_get_Some_iff split: option.splits)

lemma lists_overlay:
  assumes l: "lists_exactly g rid P xs" and ids: "\<And>i r. g i = Some r \<Longrightarrow> rid r = i" and ws: "bt_wf ws" "ids_ok rid ws"
  shows "lists_exactly (overlaid g ws) rid P (map snd (overlay_matching P ws (collect_by rid xs)))"
proof (rule lists_of_table)
  show "bt_wf (overlay_matching P ws (collect_by rid xs))" by (intro wf_intros)
  show "bt_get (overlay_matching P ws (collect_by rid xs)) i =
      (case overlaid g ws i of Some r \<Rightarrow> if P r then Some r else None | None \<Rightarrow> None)" for i
    by (auto simp: overlay_matching_get [OF bt_wf_distinct [OF ws(1)]] table_of_list [OF l ids] overlaid_def split: option.split)
  show "overlaid g ws i = Some r \<Longrightarrow> rid r = i" for i r by (rule overlaid_ids [OF ws(2,1) ids])
qed

lemma lists_overlay_all:
  assumes "lists_exactly g rid (\<lambda>_. True) xs" "\<And>i r. g i = Some r \<Longrightarrow> rid r = i" "bt_wf ws" "ids_ok rid ws"
  shows "lists_exactly (overlaid g ws) rid (\<lambda>_. True) (map snd (overlay_all ws (collect_by rid xs)))"
  unfolding overlay_all_matching by (rule lists_overlay [OF assms])

lemma lists_filter:
  assumes "lists_exactly g rid (\<lambda>_. True) xs"
  shows "lists_exactly g rid P (sort_key rid (filter P xs))"
proof -
  have "sorted_wrt (<) (map rid (filter P xs))" using assms by (simp add: lists_exactly_def sorted_wrt_map sorted_wrt_filter)
  then show ?thesis using assms by (auto simp: lists_exactly_def sort_key_sorted)
qed

subsection \<open>Well-formed transactions\<close>

definition tx_ok :: "'n storage_tx \<Rightarrow> bool" where
  "tx_ok tx \<longleftrightarrow>
     bt_wf (sx_constraint_writes tx) \<and> ids_ok co_name (sx_constraint_writes tx) \<and>
     bt_wf (sx_index_writes tx) \<and> ids_ok ix_name (sx_index_writes tx) \<and> bt_wf (sx_index_option_writes tx) \<and>
     bt_wf (sx_node_writes tx) \<and> ids_ok nr_id (sx_node_writes tx) \<and>
     bt_wf (sx_edge_writes tx) \<and> ids_ok er_id (sx_edge_writes tx)"

lemma ids_ok_Nil [simp]: "ids_ok rid []"
  by (simp add: ids_ok_def)

lemma ids_ok_remove: "ids_ok rid ws \<Longrightarrow> ids_ok rid (filter P ws)"
  by (auto simp: ids_ok_def)

lemma tx_ok_begin: "tx_ok (snd (begin_transaction en))"
  by (simp add: begin_transaction_def tx_ok_def Let_def split: prod.split)

lemma tx_ok_exec: "tx_ok tx \<Longrightarrow> tx_ok (tx_exec as_f64 as_i64 op tx)"
  by (cases op) (simp_all add: tx_ok_def bt_wf_insert ids_ok_insert tx_put_node_record_def tx_put_fresh_node_record_def
      tx_delete_node_record_def tx_put_edge_record_def tx_put_fresh_edge_record_def tx_delete_edge_record_def storage_tx_rollback_def)

lemma tx_exec_snapshot [simp]: "sx_snapshot (tx_exec as_f64 as_i64 op tx) = sx_snapshot tx"
  by (cases op) (simp_all add: tx_put_node_record_def tx_put_fresh_node_record_def tx_delete_node_record_def tx_put_edge_record_def
      tx_put_fresh_edge_record_def tx_delete_edge_record_def storage_tx_rollback_def)

lemma discard_fields:
  "sx_edge_writes (discard_noop_edge_writes en tx) = filter (\<lambda>w. fst w \<notin> fst ` {w \<in> set (sx_edge_writes tx). noop_edge_write en tx w}) (sx_edge_writes tx)"
  "sx_snapshot (discard_noop_edge_writes en tx) = sx_snapshot tx" "sx_node_writes (discard_noop_edge_writes en tx) = sx_node_writes tx"
  "sx_constraint_writes (discard_noop_edge_writes en tx) = sx_constraint_writes tx" "sx_fresh_nodes (discard_noop_edge_writes en tx) = sx_fresh_nodes tx"
  by (simp_all add: discard_noop_edge_writes_def Let_def fold_bt_remove)

lemma tx_ok_discard: "tx_ok tx \<Longrightarrow> tx_ok (discard_noop_edge_writes en tx)"
  by (simp add: tx_ok_def discard_fields) (simp add: discard_noop_edge_writes_def Let_def fold_bt_remove bt_wf_filter ids_ok_remove)

lemma tx_ok_committed: "tx_ok tx \<Longrightarrow> tx_ok (tx_committed tx)"
  by (simp add: tx_ok_def tx_committed_def)

subsection \<open>The reads\<close>

definition sees_nodes :: "'n json codec \<Rightarrow> 'n engine \<Rightarrow> 'n storage_tx \<Rightarrow> (string \<rightharpoonup> 'n json node_record) \<Rightarrow> bool" where
  "sees_nodes c en tx g \<longleftrightarrow>
     (\<forall>i. tx_get_node_record c en tx i = Inr (g i)) \<and>
     (\<exists>ns. tx_all_node_records c en tx = Inr ns \<and> lists_exactly g nr_id (\<lambda>_. True) ns) \<and>
     (\<forall>label. \<exists>ns. tx_nodes_by_label c en tx label = Inr ns \<and> lists_exactly g nr_id (\<lambda>n. label \<in> set (nr_labels n)) ns)"

definition sees_edges :: "'n json codec \<Rightarrow> 'n engine \<Rightarrow> 'n storage_tx \<Rightarrow> (string \<rightharpoonup> 'n json edge_record) \<Rightarrow> bool" where
  "sees_edges c en tx g \<longleftrightarrow>
     (\<forall>i. tx_get_edge_record c en tx i = Inr (g i)) \<and>
     (\<exists>es. tx_all_edge_records c en tx = Inr es \<and> lists_exactly g er_id (\<lambda>_. True) es) \<and>
     (\<forall>edge_type. \<exists>es. tx_edges_by_type c en tx edge_type = Inr es \<and> lists_exactly g er_id (\<lambda>e. er_edge_type e = edge_type) es) \<and>
     (\<forall>node direction edge_type. \<exists>es. tx_adjacent_edges c en tx node direction edge_type = Inr es \<and>
        lists_exactly g er_id (edge_matches_adjacency node direction edge_type) es)"

lemma tx_reads:
  assumes s: "mvcc_ok c (en_mvcc en)" and tx: "tx_ok tx"
  defines "ts \<equiv> sn_read_ts (sx_snapshot tx)"
  shows "sees_nodes c en tx (overlaid (node_at c (en_mvcc en) ts) (sx_node_writes tx))"
    and "sees_edges c en tx (overlaid (edge_at c (en_mvcc en) ts) (sx_edge_writes tx))"
proof -
  let ?s = "en_mvcc en" and ?sn = "sx_snapshot tx"
  let ?N = "overlaid (node_at c ?s ts) (sx_node_writes tx)" and ?E = "overlaid (edge_at c ?s ts) (sx_edge_writes tx)"
  have nw: "bt_wf (sx_node_writes tx)" "ids_ok nr_id (sx_node_writes tx)" and ew: "bt_wf (sx_edge_writes tx)" "ids_ok er_id (sx_edge_writes tx)"
    using tx by (simp_all add: tx_ok_def)
  note nid = node_at_id [OF s, of ts] and eid = edge_at_id [OF s, of ts]
  have n1: "tx_get_node_record c en tx i = Inr (?N i)" and e1: "tx_get_edge_record c en tx i = Inr (?E i)" for i
    by (simp_all add: tx_get_node_record_def tx_get_edge_record_def get_node_record_visible_at_eq [OF s] get_edge_record_visible_at_eq [OF s]
        overlaid_def ts_def split: option.split)
  have n2: "\<exists>ns. tx_all_node_records c en tx = Inr ns \<and> lists_exactly ?N nr_id (\<lambda>_. True) ns"
    using scan_nodes [OF s, of ?sn] lists_overlay_all [OF _ nid nw] by (auto simp: tx_all_node_records_def ts_def)
  have e2: "\<exists>es. tx_all_edge_records c en tx = Inr es \<and> lists_exactly ?E er_id (\<lambda>_. True) es"
    using scan_edges [OF s, of ?sn] lists_overlay_all [OF _ eid ew] by (auto simp: tx_all_edge_records_def ts_def)
  have n3: "\<exists>ns. tx_nodes_by_label c en tx label = Inr ns \<and> lists_exactly ?N nr_id (\<lambda>n. label \<in> set (nr_labels n)) ns" for label
    using snapshot_lookup_nodes [OF s, of ?sn label] lists_overlay [OF _ nid nw] by (auto simp: tx_nodes_by_label_def ts_def)
  have e3: "\<exists>es. tx_edges_by_type c en tx t = Inr es \<and> lists_exactly ?E er_id (\<lambda>e. er_edge_type e = t) es" for t
    using snapshot_lookup_edges [OF s, of ?sn t] lists_overlay [OF _ eid ew] by (auto simp: tx_edges_by_type_def ts_def)
  have e4: "\<exists>es. tx_adjacent_edges c en tx node direction t = Inr es \<and> lists_exactly ?E er_id (edge_matches_adjacency node direction t) es"
    for node direction t
    using e2 lists_filter by (auto simp: tx_adjacent_edges_def)
  show "sees_nodes c en tx ?N" unfolding sees_nodes_def using n1 n2 n3 by blast
  show "sees_edges c en tx ?E" unfolding sees_edges_def using e1 e2 e3 e4 by blast
qed

subsection \<open>The batch\<close>

lemma latest_collect_op:
  "(latest N (bc_nodes (collect_op st op bc)), latest E (bc_edges (collect_op st op bc)), latest_rule C (bc_constraints (collect_op st op bc))) =
    write_op op (latest N (bc_nodes bc), latest E (bc_edges bc), latest_rule C (bc_constraints bc))"
  by (cases op) (auto simp: collect_op_def latest_collect latest_insert latest_rule_def fun_eq_iff)

lemma latest_rule_Nil: "latest_rule C [] = C"
  by (simp add: latest_rule_def fun_eq_iff)

lemma latest_collect_ops:
  "(latest N (bc_nodes (collect_ops st ops)), latest E (bc_edges (collect_ops st ops)), latest_rule C (bc_constraints (collect_ops st ops))) =
    fold write_op ops (N, E, C)"
proof -
  have "(latest N (bc_nodes (fold (collect_op st) ops bc)), latest E (bc_edges (fold (collect_op st) ops bc)),
      latest_rule C (bc_constraints (fold (collect_op st) ops bc))) =
    fold write_op ops (latest N (bc_nodes bc), latest E (bc_edges bc), latest_rule C (bc_constraints bc))" for bc
    by (induction ops arbitrary: bc) (simp_all add: latest_collect_op)
  from this [of "\<lparr>bc_nodes = [], bc_edges = [], bc_constraints = []\<rparr>"] show ?thesis
    by (simp add: collect_ops_def latest_rule_Nil)
qed

lemma fold_writes:
  "distinct (map fst ws) \<Longrightarrow> fold (\<lambda>w g. g(fst w := snd w)) ws g = overlaid g ws"
proof (induction ws arbitrary: g)
  case (Cons x ws)
  have "bt_get ws (fst x) = None" using Cons.prems by (force simp: bt_get_None_iff)
  then show ?case using Cons by (cases x) (auto simp: overlaid_def bt_get_Cons fun_eq_iff split: option.split)
qed simp

lemma record_ops_simps [simp]:
  "record_ops (xs @ ys) = record_ops xs @ record_ops ys" "record_ops [] = []"
  "record_ops (RecordOp op # ops) = op # record_ops ops"
  "record_ops (map index_write_op is) = []" "record_ops (map index_option_write_op os) = []"
  "record_ops [PutKnowledgePolicyCatalog k] = []"
proof -
  show "record_ops (map index_write_op is) = []"
    by (induction "is") (auto simp: record_ops_def List.map_filter_simps index_write_op_def split: option.split)
  show "record_ops (map index_option_write_op os) = []"
    by (induction os) (auto simp: record_ops_def List.map_filter_simps index_option_write_op_def split: option.split)
qed (simp_all add: record_ops_def List.map_filter_simps List.map_filter_def)

lemma batch_writes:
  assumes "tx_ok tx"
  shows "fold write_op (record_ops (tx_batch tx)) (N, E, C) =
    (overlaid N (sx_node_writes tx), overlaid E (sx_edge_writes tx), overlaid C (sx_constraint_writes tx))"
proof -
  have k: "fold write_op (record_ops (map constraint_write_op ws)) (N, E, C) = (N, E, overlaid C ws)"
    if "bt_wf ws" "ids_ok co_name ws" for ws :: "(string, 'a constraint option) btree" and N E C
  proof -
    have "fold write_op (record_ops (map constraint_write_op ws)) (N, E, C) = (N, E, fold (\<lambda>w g. g(fst w := snd w)) ws C)"
      using that(2) by (induction ws arbitrary: C) (auto simp: constraint_write_op_def ids_ok_def split: option.split)
    then show ?thesis by (simp add: fold_writes bt_wf_distinct that(1))
  qed
  have n: "fold write_op (record_ops (map (node_write_op fresh) ws)) (N, E, C) = (overlaid N ws, E, C)"
    if "bt_wf ws" "ids_ok nr_id ws" for ws :: "(string, 'a json node_record option) btree" and fresh N E C
  proof -
    have "fold write_op (record_ops (map (node_write_op fresh) ws)) (N, E, C) = (fold (\<lambda>w g. g(fst w := snd w)) ws N, E, C)"
      using that(2) by (induction ws arbitrary: N) (auto simp: node_write_op_def ids_ok_def split: option.split)
    then show ?thesis by (simp add: fold_writes bt_wf_distinct that(1))
  qed
  have e: "fold write_op (record_ops (map (edge_write_op fresh) ws)) (N, E, C) = (N, overlaid E ws, C)"
    if "bt_wf ws" "ids_ok er_id ws" for ws :: "(string, 'a json edge_record option) btree" and fresh N E C
  proof -
    have "fold write_op (record_ops (map (edge_write_op fresh) ws)) (N, E, C) = (N, fold (\<lambda>w g. g(fst w := snd w)) ws E, C)"
      using that(2) by (induction ws arbitrary: E) (auto simp: edge_write_op_def ids_ok_def split: option.split)
    then show ?thesis by (simp add: fold_writes bt_wf_distinct that(1))
  qed
  show ?thesis using assms by (simp add: tx_batch_def tx_ok_def k n e)
qed

end
