(* ===== verification/Store_System.thy ===== *)
theory Store_System
  imports Store_Views
begin

text \<open>
  Several transactions over one engine of crates/storage/src/lib.rs, in any order of their steps. A
  commit is two steps, because it checks its writes before it takes the commit lock. A transaction that
  never writes is any other reader with a leased snapshot.
\<close>

subsection \<open>State and steps\<close>

text \<open>The flag of an open transaction: its check has passed and its batch is still to come.\<close>

record 'n database =
  db_engine :: "'n engine"
  db_open :: "(nat, bool \<times> 'n storage_tx) btree"

definition database_new :: "'n database" where
  "database_new = \<lparr>db_engine = engine_new, db_open = []\<rparr>"

definition end_transaction :: "'n storage_tx \<Rightarrow> 'n engine \<Rightarrow> 'n engine" where
  "end_transaction tx en = en\<lparr>en_mvcc := drop_lease (sx_snapshot tx) (en_mvcc en)\<rparr>"

definition db_begin :: "nat \<Rightarrow> 'n database \<Rightarrow> 'n database" where
  "db_begin h db = (let (en, tx) = begin_transaction (db_engine db) in \<lparr>db_engine = en, db_open = bt_insert h (False, tx) (db_open db)\<rparr>)"

definition db_exec :: "('n \<Rightarrow> 64 word option) \<Rightarrow> ('n \<Rightarrow> int option) \<Rightarrow> nat \<Rightarrow> 'n tx_op \<Rightarrow> 'n storage_tx \<Rightarrow> 'n database \<Rightarrow> 'n database" where
  "db_exec as_f64 as_i64 h op tx db = db\<lparr>db_open := bt_insert h (False, tx_exec as_f64 as_i64 op tx) (db_open db)\<rparr>"

definition db_check :: "'n json codec \<Rightarrow> nat \<Rightarrow> 'n storage_tx \<Rightarrow> 'n database \<Rightarrow> 'n database" where
  "db_check c h tx db = (let (e, tx) = tx_check c (db_engine db) tx in db\<lparr>db_open := bt_insert h (e = None, tx) (db_open db)\<rparr>)"

definition db_write :: "('n json \<Rightarrow> string) \<Rightarrow> 'n json codec \<Rightarrow> string list \<times> string list \<Rightarrow> batch_outcome \<Rightarrow> nat \<Rightarrow> 'n storage_tx \<Rightarrow>
    'n database \<Rightarrow> 'n database" where
  "db_write js c order out h tx db = (let (_, tx, en) = tx_write js c order out None tx (db_engine db) in
     \<lparr>db_engine = en, db_open = bt_insert h (False, tx) (db_open db)\<rparr>)"

definition db_end :: "nat \<Rightarrow> 'n storage_tx \<Rightarrow> 'n database \<Rightarrow> 'n database" where
  "db_end h tx db = \<lparr>db_engine = end_transaction tx (db_engine db), db_open = bt_remove h (db_open db)\<rparr>"

inductive db_step :: "('n json \<Rightarrow> string) \<Rightarrow> 'n json codec \<Rightarrow> ('n \<Rightarrow> 64 word option) \<Rightarrow> ('n \<Rightarrow> int option) \<Rightarrow> 'n database \<Rightarrow> 'n database \<Rightarrow> bool"
    for js c as_f64 as_i64 where
  start: "bt_get (db_open db) h = None \<Longrightarrow> db_step js c as_f64 as_i64 db (db_begin h db)"
| exec: "bt_get (db_open db) h = Some (False, tx) \<Longrightarrow> db_step js c as_f64 as_i64 db (db_exec as_f64 as_i64 h op tx db)"
| verify: "bt_get (db_open db) h = Some (False, tx) \<Longrightarrow> db_step js c as_f64 as_i64 db (db_check c h tx db)"
| apply_batch: "bt_get (db_open db) h = Some (True, tx) \<Longrightarrow> batch_allowed c order out (tx_batch tx) (db_engine db) \<Longrightarrow>
    db_step js c as_f64 as_i64 db (db_write js c order out h tx db)"
| finish: "bt_get (db_open db) h = Some (False, tx) \<Longrightarrow> db_step js c as_f64 as_i64 db (db_end h tx db)"
| engine: "engine_step js c (db_engine db) en \<Longrightarrow> db_step js c as_f64 as_i64 db (db\<lparr>db_engine := en\<rparr>)"

inductive_cases db_stepE: "db_step js c as_f64 as_i64 db db'"

lemmas db_defs = db_begin_def db_exec_def db_check_def db_write_def db_end_def

subsection \<open>The batch of a transaction\<close>

lemma write_result:
  assumes ok: "storage_engine_ok js c en" and codec: "codec_ok c" and allowed: "batch_allowed c order out (tx_batch tx) en"
  shows "(\<exists>e. tx_write js c order out None tx en = (Some e, tx, en)) \<or>
    (\<exists>en'. tx_write js c order out None tx en = (None, tx_committed tx, en') \<and> batch_applied js c order (tx_batch tx) en en')"
  using batch_result [OF assms]
proof
  assume "\<exists>e. commit_batch_locked js c order out None (tx_batch tx) en = (Some e, en)"
  then obtain e where "commit_batch_locked js c order out None (tx_batch tx) en = (Some e, en)" ..
  moreover have "rebuild_schema_manager js (en_schema en) = Inr (en_schema en)"
    using rebuild_same [of js "en_schema en" "ss_manager (en_schema en)"] ok by (simp add: storage_engine_ok_def)
  ultimately show ?thesis by (simp add: tx_write_def)
next
  assume "\<exists>en'. commit_batch_locked js c order out None (tx_batch tx) en = (None, en') \<and> batch_applied js c order (tx_batch tx) en en'"
  then obtain en' where r: "commit_batch_locked js c order out None (tx_batch tx) en = (None, en')"
    and a: "batch_applied js c order (tx_batch tx) en en'" by blast
  have "schema_ok js (en_schema en')" using a by (simp add: batch_applied_def Let_def storage_engine_ok_def)
  then have "rebuild_schema_manager js (en_schema en') = Inr (en_schema en')"
    using rebuild_same [of js "en_schema en'" "ss_manager (en_schema en')"] by simp
  then have "tx_write js c order out None tx en = (None, tx_committed tx, en')" by (simp add: tx_write_def r)
  then show ?thesis using a by blast
qed

lemma tx_committed_snapshot [simp]: "sx_snapshot (tx_committed tx) = sx_snapshot tx"
  by (simp add: tx_committed_def)

subsection \<open>Readers\<close>

definition lease_count :: "mvcc_store \<Rightarrow> nat \<Rightarrow> nat" where
  "lease_count s ts = (case bt_get (ms_active_readers s) ts of None \<Rightarrow> 0 | Some n \<Rightarrow> n)"

lemma lease_count_begin:
  "lease_count (fst (begin_registered_snapshot s)) ts = lease_count s ts + (if ts = ms_current_version s then 1 else 0)"
  by (simp add: lease_count_def begin_registered_snapshot_def begin_snapshot_def Let_def split: option.split)

lemma lease_count_drop: "lease_count (drop_lease sn s) ts = lease_count s ts - (if ts = sn_read_ts sn then 1 else 0)"
  by (auto simp: lease_count_def drop_lease_def split: option.split)

lemma graph_same_values:
  assumes "ms_values s' = ms_values s" shows "node_at c s' ts = node_at c s ts" "edge_at c s' ts = edge_at c s ts"
  by (rule graph_cong, simp add: read_key_def assms)+

lemma begin_frame [simp]:
  "ms_values (fst (begin_registered_snapshot s)) = ms_values s" "ms_current_version (fst (begin_registered_snapshot s)) = ms_current_version s"
  by (simp_all add: begin_registered_snapshot_def Let_def)

lemma drop_frame [simp]:
  "ms_values (drop_lease sn s) = ms_values s" "ms_current_version (drop_lease sn s) = ms_current_version s"
  by (simp_all add: drop_lease_def split: option.split)

lemma lease_graph [simp]:
  "node_at c (fst (begin_registered_snapshot s)) ts = node_at c s ts" "edge_at c (fst (begin_registered_snapshot s)) ts = edge_at c s ts"
  "node_at c (drop_lease sn s) ts = node_at c s ts" "edge_at c (drop_lease sn s) ts = edge_at c s ts"
  by (rule graph_same_values, simp)+

lemma mvcc_ok_leases:
  "mvcc_ok c (fst (begin_registered_snapshot s)) = mvcc_ok c s" "mvcc_ok c (drop_lease sn s) = mvcc_ok c s"
  by (simp_all add: mvcc_ok_def versions_ok_def begin_registered_snapshot_def drop_lease_def Let_def split: option.split)

lemma begin_transaction_eq:
  "db_engine (db_begin h db) = (db_engine db)\<lparr>en_mvcc := fst (begin_registered_snapshot (en_mvcc (db_engine db)))\<rparr>"
  "db_open (db_begin h db) = bt_insert h (False, snd (begin_transaction (db_engine db))) (db_open db)"
  "sx_snapshot (snd (begin_transaction en)) = begin_snapshot (en_mvcc en)"
  by (simp_all add: db_begin_def begin_transaction_def begin_registered_snapshot_def Let_def split: prod.split)

lemma storage_engine_ok_mvcc:
  assumes "storage_engine_ok js c en" "mvcc_ok c s" "ms_current_version s = ms_current_version (en_mvcc en)"
    and "node_at c s (ms_current_version s) = node_at c (en_mvcc en) (ms_current_version s)"
    and "edge_at c s (ms_current_version s) = edge_at c (en_mvcc en) (ms_current_version s)"
  shows "storage_engine_ok js c (en\<lparr>en_mvcc := s\<rparr>)"
  using assms by (simp add: storage_engine_ok_def tables_agree_def head_nodes_def head_edges_def get_node_def get_edge_def)

lemma pruned:
  fixes n :: nat
  assumes "mvcc_ok c s"
  defines "s' \<equiv> fst (trigger_prune_now c n s)"
  shows "mvcc_ok c s'" "ms_current_version s' = ms_current_version s" "ms_active_readers s' = ms_active_readers s"
    "node_at c s' (ms_current_version s) = node_at c s (ms_current_version s)" "edge_at c s' (ms_current_version s) = edge_at c s (ms_current_version s)"
    "lease_count s ts \<noteq> 0 \<Longrightarrow> node_at c s' ts = node_at c s ts \<and> edge_at c s' ts = edge_at c s ts"
proof -
  show "mvcc_ok c s'" unfolding s'_def by (rule trigger_prune_ok [OF assms(1)])
  have cases: "(\<exists>fl. s' = s\<lparr>ms_floor := fl\<rparr>) \<or> (oldest_active_reader s = None \<and> (\<exists>m. s' = fst (prune_mvcc_versions c m s)))"
  proof (cases "oldest_active_reader s")
    case None
    then show ?thesis unfolding s'_def trigger_prune_now_def by auto
  next
    case (Some r)
    then show ?thesis using trigger_prune_with_reader [OF Some] unfolding s'_def by blast
  qed
  then show "ms_current_version s' = ms_current_version s" "ms_active_readers s' = ms_active_readers s"
    by (auto simp: count_pruned_frame)
  have floor: "read_key (s\<lparr>ms_floor := fl\<rparr>) ts k = read_key s ts k" for fl ts k by (simp add: read_key_def)
  have k: "read_key s' (ms_current_version s) k = read_key s (ms_current_version s) k" for k
    using cases by (auto simp: count_pruned_current [OF assms(1)] floor)
  show "node_at c s' (ms_current_version s) = node_at c s (ms_current_version s)" "edge_at c s' (ms_current_version s) = edge_at c s (ms_current_version s)"
    using k by (rule graph_cong)+
  assume "lease_count s ts \<noteq> 0"
  then have "oldest_active_reader s \<noteq> None" using registered_oldest [of s ts] by (auto simp: lease_count_def split: option.splits)
  then have "ms_values s' = ms_values s" using cases by auto
  then show "node_at c s' ts = node_at c s ts \<and> edge_at c s' ts = edge_at c s ts" using graph_same_values by blast
qed

subsection \<open>The invariant\<close>

definition reads_at :: "nat \<Rightarrow> bool \<times> 'n storage_tx \<Rightarrow> bool" where
  "reads_at ts entry \<longleftrightarrow> sn_read_ts (sx_snapshot (snd entry)) = ts"

definition db_ok :: "('n json \<Rightarrow> string) \<Rightarrow> 'n json codec \<Rightarrow> 'n database \<Rightarrow> bool" where
  "db_ok js c db \<longleftrightarrow> storage_engine_ok js c (db_engine db) \<and> bt_wf (db_open db) \<and>
     (\<forall>h b tx. bt_get (db_open db) h = Some (b, tx) \<longrightarrow>
        tx_ok tx \<and> sn_read_ts (sx_snapshot tx) \<le> ms_current_version (en_mvcc (db_engine db))) \<and>
     (\<forall>ts. matches (reads_at ts) (db_open db) \<le> lease_count (en_mvcc (db_engine db)) ts)"

lemma db_ok_new: "db_ok js c database_new"
  by (simp add: db_ok_def database_new_def storage_engine_ok_new bt_get_def matches_def)

text \<open>A step that leaves the leases alone and puts back a transaction with the same snapshot.\<close>

lemma db_ok_put:
  assumes ok: "db_ok js c db" and h: "bt_get (db_open db) h = Some (b, tx)" and tx': "tx_ok tx'" "sx_snapshot tx' = sx_snapshot tx"
    and en': "storage_engine_ok js c en'" "ms_current_version (en_mvcc (db_engine db)) \<le> ms_current_version (en_mvcc en')"
      "ms_active_readers (en_mvcc en') = ms_active_readers (en_mvcc (db_engine db))"
  shows "db_ok js c \<lparr>db_engine = en', db_open = bt_insert h (b', tx') (db_open db)\<rparr>"
proof -
  have wf: "bt_wf (db_open db)" using ok by (simp add: db_ok_def)
  have "matches (reads_at ts) (bt_insert h (b', tx') (db_open db)) = matches (reads_at ts) (db_open db)" for ts
    using matches_insert [OF wf, of "reads_at ts" h "(b', tx')"] by (simp add: h one_if_def reads_at_def tx'(2))
  moreover have "sn_read_ts (sx_snapshot t) \<le> ms_current_version (en_mvcc en')" if "bt_get (db_open db) k = Some (b, t)" for k b t
    using ok that en'(2) unfolding db_ok_def by (meson order_trans)
  ultimately show ?thesis using ok h tx' en' by (auto simp: db_ok_def bt_wf_insert lease_count_def)
qed

lemma db_ok_engine:
  assumes ok: "db_ok js c db" and en': "storage_engine_ok js c en'" "ms_current_version (en_mvcc (db_engine db)) \<le> ms_current_version (en_mvcc en')"
      "ms_active_readers (en_mvcc en') = ms_active_readers (en_mvcc (db_engine db))"
  shows "db_ok js c (db\<lparr>db_engine := en'\<rparr>)"
  using assms by (auto simp: db_ok_def lease_count_def intro: order_trans)

lemma applied_frame:
  assumes "batch_applied js c order ops en en'"
  shows "storage_engine_ok js c en'" "ms_current_version (en_mvcc en) \<le> ms_current_version (en_mvcc en')"
    "ms_active_readers (en_mvcc en') = ms_active_readers (en_mvcc en)"
    "ts \<le> ms_current_version (en_mvcc en) \<Longrightarrow> node_at c (en_mvcc en') ts = node_at c (en_mvcc en) ts \<and> edge_at c (en_mvcc en') ts = edge_at c (en_mvcc en) ts"
  using assms unfolding batch_applied_def Let_def batch_version_after_def by (blast, simp, blast, blast)

lemma one_if_reads:
  "one_if (reads_at ts) (Some (b, tx)) = (if ts = sn_read_ts (sx_snapshot tx) then 1 else 0)" "one_if (reads_at ts) None = 0"
  by (auto simp: one_if_def reads_at_def)

lemma db_ok_begin:
  assumes ok: "db_ok js c db" and h: "bt_get (db_open db) h = None"
  shows "db_ok js c (db_begin h db)"
proof -
  let ?s = "en_mvcc (db_engine db)" and ?tx = "snd (begin_transaction (db_engine db))"
  have wf: "bt_wf (db_open db)" and eok: "storage_engine_ok js c (db_engine db)" and count: "matches (reads_at ts) (db_open db) \<le> lease_count ?s ts" for ts
    using ok by (simp_all add: db_ok_def)
  have "matches (reads_at ts) (bt_insert h (False, ?tx) (db_open db)) = matches (reads_at ts) (db_open db) + (if ts = ms_current_version ?s then 1 else 0)" for ts
    using matches_insert [OF wf, of "reads_at ts" h "(False, ?tx)"]
    by (simp add: h one_if_reads begin_transaction_eq(3) begin_snapshot_def)
  then have "matches (reads_at ts) (bt_insert h (False, ?tx) (db_open db)) \<le> lease_count (fst (begin_registered_snapshot ?s)) ts" for ts
    using count [of ts] by (simp add: lease_count_begin)
  moreover have "storage_engine_ok js c ((db_engine db)\<lparr>en_mvcc := fst (begin_registered_snapshot ?s)\<rparr>)"
    by (rule storage_engine_ok_mvcc [OF eok]) (use eok in \<open>simp_all add: mvcc_ok_leases storage_engine_ok_def\<close>)
  ultimately show ?thesis using ok
    by (auto simp: db_ok_def begin_transaction_eq bt_wf_insert tx_ok_begin begin_snapshot_def)
qed

lemma db_ok_end:
  assumes ok: "db_ok js c db" and h: "bt_get (db_open db) h = Some (b, tx)"
  shows "db_ok js c (db_end h tx db)"
proof -
  let ?s = "en_mvcc (db_engine db)"
  have wf: "bt_wf (db_open db)" and eok: "storage_engine_ok js c (db_engine db)" and count: "matches (reads_at ts) (db_open db) \<le> lease_count ?s ts" for ts
    using ok by (simp_all add: db_ok_def)
  have less: "matches (reads_at ts) (bt_remove h (db_open db)) + (if ts = sn_read_ts (sx_snapshot tx) then 1 else 0) = matches (reads_at ts) (db_open db)" for ts
    using matches_remove [OF wf, of "reads_at ts" h] by (simp add: h one_if_reads)
  have "matches (reads_at ts) (bt_remove h (db_open db)) \<le> lease_count (drop_lease (sx_snapshot tx) ?s) ts" for ts
    using count [of ts] less [of ts] unfolding lease_count_drop by (simp split: if_splits)
  moreover have "storage_engine_ok js c ((db_engine db)\<lparr>en_mvcc := drop_lease (sx_snapshot tx) ?s\<rparr>)"
    by (rule storage_engine_ok_mvcc [OF eok]) (use eok in \<open>simp_all add: mvcc_ok_leases storage_engine_ok_def\<close>)
  ultimately show ?thesis using ok by (auto simp: db_ok_def db_end_def end_transaction_def bt_wf_remove)
qed

end
