(* ===== verification/Store_Isolation.thy ===== *)
theory Store_Isolation
  imports Store_System
begin

text \<open>
  What transactions of crates/storage/src/lib.rs guarantee: a frozen view for their reads, and commits
  that overwrite nothing they have not seen; and the two gaps, a batch between the check of a commit and
  its write, and an error after the tables are written.
\<close>

subsection \<open>Every step keeps the invariant\<close>

lemma db_ok_engine_step:
  assumes ok: "db_ok js c db" and codec: "codec_ok c" and step: "engine_step js c (db_engine db) en'"
  shows "db_ok js c (db\<lparr>db_engine := en'\<rparr>) \<and>
    (\<forall>ts. ts \<le> ms_current_version (en_mvcc (db_engine db)) \<longrightarrow> lease_count (en_mvcc (db_engine db)) ts \<noteq> 0 \<longrightarrow>
      node_at c (en_mvcc en') ts = node_at c (en_mvcc (db_engine db)) ts \<and> edge_at c (en_mvcc en') ts = edge_at c (en_mvcc (db_engine db)) ts)"
proof -
  from step consider
    (batch) order out ops where "en' = snd (commit_batch_locked js c order out None ops (db_engine db))" "batch_allowed c order out ops (db_engine db)"
  | (prune) n where "en' = (db_engine db)\<lparr>en_mvcc := fst (trigger_prune_now c n (en_mvcc (db_engine db)))\<rparr>"
  | (constraints) st where "en' = (db_engine db)\<lparr>en_schema := st\<rparr>" "schema_step js False (en_schema (db_engine db)) st"
      "ss_nodes st = ss_nodes (en_schema (db_engine db))" "ss_edges st = ss_edges (en_schema (db_engine db))"
  | (definitions) ix options policies where "en' = (db_engine db)\<lparr>en_indexes := ix, en_index_options := options, en_policies := policies\<rparr>"
    by (elim engine_stepE) blast+
  then show ?thesis
  proof cases
  case batch
  have eok: "storage_engine_ok js c (db_engine db)" using ok by (simp add: db_ok_def)
  from batch_result [OF eok codec batch(2)] batch(1) have "en' = db_engine db \<or> batch_applied js c order ops (db_engine db) en'" by auto
  then show ?thesis using ok db_ok_engine [OF ok applied_frame(1-3)] applied_frame(4) by (metis database.surjective database.update_convs(1))
next
  case prune
  let ?s = "en_mvcc (db_engine db)"
  have eok: "storage_engine_ok js c (db_engine db)" and s: "mvcc_ok c ?s" using ok by (simp_all add: db_ok_def storage_engine_ok_def)
  note p = pruned [OF s, where n = n]
  have "storage_engine_ok js c en'" unfolding prune by (rule storage_engine_ok_mvcc [OF eok p(1,2)]) (simp_all add: p(2,4,5))
  then have "db_ok js c (db\<lparr>db_engine := en'\<rparr>)" by (rule db_ok_engine [OF ok]) (simp_all add: prune p(2,3))
  then show ?thesis using p(6) by (auto simp: prune)
next
  case constraints
  have eok: "storage_engine_ok js c (db_engine db)" using ok by (simp add: db_ok_def)
  then have "schema_ok js st" using schema_machine.inv_step [OF _ constraints(2)] by (simp add: storage_engine_ok_def)
  then have "storage_engine_ok js c en'" using eok constraints(3,4)
    by (simp add: constraints(1) storage_engine_ok_def tables_agree_def head_nodes_def head_edges_def get_node_def get_edge_def)
  then show ?thesis using db_ok_engine [OF ok] by (simp add: constraints(1))
next
  case definitions
  have "storage_engine_ok js c en'" using ok
    by (simp add: definitions db_ok_def storage_engine_ok_def tables_agree_def head_nodes_def head_edges_def get_node_def get_edge_def)
  then show ?thesis using db_ok_engine [OF ok] by (simp add: definitions)
  qed
qed

text \<open>The transaction at a handle that stays open: its snapshot and the graph at it.\<close>

definition same_view :: "'n json codec \<Rightarrow> 'n database \<Rightarrow> 'n storage_tx \<Rightarrow> 'n database \<Rightarrow> 'n storage_tx \<Rightarrow> bool" where
  "same_view c db tx db' tx' \<longleftrightarrow> sx_snapshot tx' = sx_snapshot tx \<and>
     (let ts = sn_read_ts (sx_snapshot tx) in
      node_at c (en_mvcc (db_engine db')) ts = node_at c (en_mvcc (db_engine db)) ts \<and>
      edge_at c (en_mvcc (db_engine db')) ts = edge_at c (en_mvcc (db_engine db)) ts)"

lemma same_view_trans: "same_view c a t b u \<Longrightarrow> same_view c b u d v \<Longrightarrow> same_view c a t d v"
  by (simp add: same_view_def Let_def)

lemma open_lease:
  assumes ok: "db_ok js c db" and h: "bt_get (db_open db) h = Some (b, tx)"
  shows "lease_count (en_mvcc (db_engine db)) (sn_read_ts (sx_snapshot tx)) \<noteq> 0"
proof -
  let ?P = "reads_at (sn_read_ts (sx_snapshot tx)) :: bool \<times> 'a storage_tx \<Rightarrow> bool"
  have "bt_wf (db_open db)" using ok by (simp add: db_ok_def)
  from matches_remove [OF this, of ?P h] have "matches ?P (db_open db) \<noteq> 0" by (simp add: h one_if_reads)
  moreover have "matches ?P (db_open db) \<le> lease_count (en_mvcc (db_engine db)) (sn_read_ts (sx_snapshot tx))"
    using ok by (simp add: db_ok_def)
  ultimately show ?thesis by linarith
qed

lemma record_put: "db\<lparr>db_open := m\<rparr> = \<lparr>db_engine = db_engine db, db_open = m\<rparr>"
  by simp

lemma db_step_keeps:
  assumes ok: "db_ok js c db" and codec: "codec_ok c" and step: "db_step js c as_f64 as_i64 db db'"
  shows "db_ok js c db' \<and> (\<forall>h b tx b' tx'. bt_get (db_open db) h = Some (b, tx) \<longrightarrow> bt_get (db_open db') h = Some (b', tx') \<longrightarrow> same_view c db tx db' tx')"
proof -
  from step consider
    (start) k where "db' = db_begin k db" "bt_get (db_open db) k = None"
  | (exec) k tx op where "db' = db_exec as_f64 as_i64 k op tx db" "bt_get (db_open db) k = Some (False, tx)"
  | (verify) k tx where "db' = db_check c k tx db" "bt_get (db_open db) k = Some (False, tx)"
  | (apply_batch) k tx order out where "db' = db_write js c order out k tx db" "bt_get (db_open db) k = Some (True, tx)"
      "batch_allowed c order out (tx_batch tx) (db_engine db)"
  | (finish) k tx where "db' = db_end k tx db" "bt_get (db_open db) k = Some (False, tx)"
  | (engine) en where "db' = db\<lparr>db_engine := en\<rparr>" "engine_step js c (db_engine db) en"
    by (elim db_stepE) blast+
  then show ?thesis
  proof cases
  case start
  then show ?thesis using db_ok_begin [OF ok start(2)] by (auto simp: same_view_def begin_transaction_eq Let_def split: if_splits)
next
  case exec
  have "tx_ok tx" "storage_engine_ok js c (db_engine db)" using ok exec(2) by (auto simp: db_ok_def)
  then have "db_ok js c db'" using db_ok_put [OF ok exec(2) tx_ok_exec] by (simp add: exec(1) db_exec_def record_put)
  then show ?thesis using exec by (auto simp: same_view_def db_exec_def split: if_splits)
next
  case verify
  let ?tx = "discard_noop_edge_writes (db_engine db) tx"
  have "tx_ok tx" "storage_engine_ok js c (db_engine db)" using ok verify(2) by (auto simp: db_ok_def)
  then have "db_ok js c db'" using db_ok_put [OF ok verify(2) tx_ok_discard discard_fields(2)] by (simp add: verify(1) db_check_def tx_check_def Let_def record_put)
  then show ?thesis using verify by (auto simp: same_view_def db_check_def tx_check_def Let_def discard_fields split: if_splits)
next
  case apply_batch
  have tx: "tx_ok tx" and eok: "storage_engine_ok js c (db_engine db)" using ok apply_batch(2) by (auto simp: db_ok_def)
  have past: "sn_read_ts (sx_snapshot t) \<le> ms_current_version (en_mvcc (db_engine db))" if "bt_get (db_open db) h = Some (b, t)" for h b t
    using ok that by (auto simp: db_ok_def)
  from write_result [OF eok codec apply_batch(3)] consider
    (refused) e where "tx_write js c order out None tx (db_engine db) = (Some e, tx, db_engine db)"
  | (written) en' where "tx_write js c order out None tx (db_engine db) = (None, tx_committed tx, en')"
      "batch_applied js c order (tx_batch tx) (db_engine db) en'"
    by blast
  then show ?thesis
  proof cases
    case refused
    have "db_ok js c db'" using db_ok_put [OF ok apply_batch(2) tx refl eok order_refl refl] by (simp add: apply_batch(1) db_write_def refused)
    then show ?thesis using apply_batch by (auto simp: same_view_def db_write_def refused split: if_splits)
  next
    case written
    have "db_ok js c db'"
      using db_ok_put [OF ok apply_batch(2) tx_ok_committed [OF tx] tx_committed_snapshot applied_frame(1-3) [OF written(2)]] by (simp add: apply_batch(1) db_write_def written(1))
    then show ?thesis using apply_batch applied_frame(4) [OF written(2)] past
      by (auto simp: same_view_def db_write_def written(1) Let_def split: if_splits)
  qed
next
  case finish
  then show ?thesis using db_ok_end [OF ok finish(2)]
    by (auto simp: same_view_def db_end_def end_transaction_def Let_def split: if_splits)
next
  case engine
  have past: "sn_read_ts (sx_snapshot t) \<le> ms_current_version (en_mvcc (db_engine db))" if "bt_get (db_open db) h = Some (b, t)" for h b t
    using ok that by (auto simp: db_ok_def)
  from db_ok_engine_step [OF ok codec engine(2)] show ?thesis
    using past open_lease [OF ok] by (auto simp: engine(1) same_view_def Let_def)
  qed
qed

interpretation database_machine: inductive_invariant "\<lambda>db. db = database_new" "db_step js c as_f64 as_i64" "\<lambda>db. codec_ok c \<longrightarrow> db_ok js c db"
  for js c as_f64 as_i64
  by unfold_locales (simp add: db_ok_new, metis db_step_keeps)

lemma reached_ok: "codec_ok c \<Longrightarrow> (db_step js c as_f64 as_i64)\<^sup>*\<^sup>* database_new db \<Longrightarrow> db_ok js c db"
  using database_machine.inv_reachable by blast

subsection \<open>A handle that stays open\<close>

definition while_open :: "('n json \<Rightarrow> string) \<Rightarrow> 'n json codec \<Rightarrow> ('n \<Rightarrow> 64 word option) \<Rightarrow> ('n \<Rightarrow> int option) \<Rightarrow> nat \<Rightarrow>
    'n database \<Rightarrow> 'n database \<Rightarrow> bool" where
  "while_open js c as_f64 as_i64 h = (\<lambda>a b. db_step js c as_f64 as_i64 a b \<and> bt_get (db_open b) h \<noteq> None)\<^sup>*\<^sup>*"

lemma view_frozen:
  assumes run: "while_open js c as_f64 as_i64 h db db'" and ok: "db_ok js c db" and codec: "codec_ok c" and h: "bt_get (db_open db) h = Some (b, tx)"
  shows "db_ok js c db' \<and> (\<exists>b' tx'. bt_get (db_open db') h = Some (b', tx') \<and> same_view c db tx db' tx')"
  using run unfolding while_open_def
proof (induction rule: rtranclp_induct)
  case base
  then show ?case using ok h by (simp add: same_view_def)
next
  case (step y z)
  then obtain b1 tx1 where y: "db_ok js c y" "bt_get (db_open y) h = Some (b1, tx1)" "same_view c db tx y tx1" by blast
  obtain b2 tx2 where z: "bt_get (db_open z) h = Some (b2, tx2)" using step.hyps(2) by auto
  from db_step_keeps [OF y(1) codec conjunct1 [OF step.hyps(2)]] have "db_ok js c z" "same_view c y tx1 z tx2" using y(2) z by blast+
  with same_view_trans [OF y(3)] z show ?case by blast
qed

lemma begun_view:
  assumes ok: "db_ok js c db"
  shows "\<exists>tx. bt_get (db_open (db_begin h db)) h = Some (False, tx) \<and>
    (let ts = sn_read_ts (sx_snapshot tx); s = en_mvcc (db_engine (db_begin h db)) in
     node_at c s ts = head_nodes c (db_engine db) \<and> edge_at c s ts = head_edges c (db_engine db))"
  by (simp add: begin_transaction_eq begin_snapshot_def head_nodes_def head_edges_def Let_def)

subsection \<open>A commit\<close>

lemma unmodified_reads:
  assumes "versions_ok s" and "\<And>h. current_head_for_key s k = Some h \<Longrightarrow> lh_head h \<le> ts"
  shows "read_key s ts k = read_key s (ms_current_version s) k"
proof (cases "current_head_for_key s k")
  case None
  then show ?thesis by (auto simp: current_head_for_key_def read_key_def read_at_def logical_head_of_def split: option.splits)
next
  case (Some h)
  have "at_most (head_version (key_or_default (ms_values s) k)) ts"
    using Some assms(2) [OF Some]
    by (auto simp: current_head_for_key_def key_or_default_def head_version_def logical_head_of_def at_most_def split: option.splits)
  then show ?thesis using versions_ok_key(1) [OF assms(1), of k] read_key_current [OF assms(1), of k]
    by (simp add: read_key_or_default live_raw_read_at)
qed

lemma first_some_None: "first_some f xs = None \<longleftrightarrow> (\<forall>x\<in>set xs. f x = None)"
  by (induction xs) (auto split: option.split)

lemma first_of_None: "first_of a b = None \<longleftrightarrow> a = None \<and> b = None"
  by (simp add: first_of_def split: option.split)

lemma no_conflict_key:
  assumes "mvcc_ok c (en_mvcc en)" "ensure_key_is_unmodified_since_snapshot en tx k = None"
  shows "read_key (en_mvcc en) (sn_read_ts (sx_snapshot tx)) k = read_key (en_mvcc en) (ms_current_version (en_mvcc en)) k"
  by (rule unmodified_reads [OF mvcc_ok_versions [OF assms(1)]])
    (use assms(2) in \<open>auto simp: ensure_key_is_unmodified_since_snapshot_def split: if_splits\<close>)

lemma no_conflicts:
  assumes ok: "mvcc_ok c (en_mvcc en)" and none: "ensure_no_write_conflicts c en tx = None"
  shows "bt_get (sx_node_writes tx) i = Some w \<Longrightarrow> i \<notin> sx_fresh_nodes tx \<Longrightarrow>
      head_nodes c en i = node_at c (en_mvcc en) (sn_read_ts (sx_snapshot tx)) i"
    and "bt_get (sx_edge_writes tx) i = Some w' \<Longrightarrow> i \<notin> sx_fresh_edges tx \<Longrightarrow>
      head_edges c en i = edge_at c (en_mvcc en) (sn_read_ts (sx_snapshot tx)) i"
proof -
  assume "bt_get (sx_node_writes tx) i = Some w" "i \<notin> sx_fresh_nodes tx"
  then have "ensure_key_is_unmodified_since_snapshot en tx (node_logical_key i) = None"
    using none by (force simp: ensure_no_write_conflicts_def first_of_None first_some_None node_conflict_def bt_keys_def bt_get_def dest: map_of_SomeD)
  from no_conflict_key [OF ok this] show "head_nodes c en i = node_at c (en_mvcc en) (sn_read_ts (sx_snapshot tx)) i"
    by (simp add: head_nodes_def node_at_def)
next
  assume w: "bt_get (sx_edge_writes tx) i = Some w'" and i: "i \<notin> sx_fresh_edges tx"
  have "(i, w') \<in> set (sx_edge_writes tx)" using w by (simp add: bt_get_def map_of_SomeD)
  then have "edge_conflict c en tx (i, w') = None" using none by (simp add: ensure_no_write_conflicts_def first_of_None first_some_None)
  then have "ensure_key_is_unmodified_since_snapshot en tx (edge_logical_key i) = None"
    using i by (auto simp: edge_conflict_def Let_def split: if_splits sum.splits)
  from no_conflict_key [OF ok this] show "head_edges c en i = edge_at c (en_mvcc en) (sn_read_ts (sx_snapshot tx)) i"
    by (simp add: head_edges_def edge_at_def)
qed

text \<open>What the batch of a transaction makes of the engine.\<close>

lemma batch_written:
  assumes ok: "storage_engine_ok js c en" and tx: "tx_ok tx" and a: "batch_applied js c order (tx_batch tx) en en'"
  shows "head_nodes c en' = overlaid (head_nodes c en) (sx_node_writes tx)" "head_edges c en' = overlaid (head_edges c en) (sx_edge_writes tx)"
proof -
  let ?bc = "collect_ops (en_schema en) (record_ops (tx_batch tx))" and ?v = "ms_current_version (en_mvcc en')"
  have s: "mvcc_ok c (en_mvcc en)" using ok by (simp add: storage_engine_ok_def)
  have v: "ms_current_version (en_mvcc en) \<le> ?v" by (rule applied_frame(2) [OF a])
  have l: "latest N (bc_nodes ?bc) = overlaid N (sx_node_writes tx)" "latest E (bc_edges ?bc) = overlaid E (sx_edge_writes tx)" for N E
    using latest_collect_ops [of N "en_schema en" "record_ops (tx_batch tx)" E Map.empty] batch_writes [OF tx, of N E Map.empty] by simp_all
  show "head_nodes c en' = overlaid (head_nodes c en) (sx_node_writes tx)" "head_edges c en' = overlaid (head_edges c en) (sx_edge_writes tx)"
    using a graph_beyond [OF s v] by (simp_all add: batch_applied_def Let_def head_nodes_def head_edges_def l)
qed

lemma discarded_write:
  assumes tx: "tx_ok tx"
  shows "bt_get (sx_edge_writes (discard_noop_edge_writes en tx)) i =
    (if \<exists>w. bt_get (sx_edge_writes tx) i = Some w \<and> noop_edge_write en tx (i, w) then None else bt_get (sx_edge_writes tx) i)"
proof -
  have wf: "bt_wf (sx_edge_writes tx)" using tx by (simp add: tx_ok_def)
  have "i \<in> fst ` {w \<in> set (sx_edge_writes tx). noop_edge_write en tx w} \<longleftrightarrow> (\<exists>w. bt_get (sx_edge_writes tx) i = Some w \<and> noop_edge_write en tx (i, w))"
    by (force simp: bt_get_Some_iff [OF wf])
  then show ?thesis unfolding discard_fields(1) bt_get_filter [OF wf] by (simp split: option.split)
qed

lemma noop_write_cases:
  assumes "noop_edge_write en tx (i, w)"
  obtains e cur where "w = Some e" "get_edge i en = Some cur" "edge_content_matches e cur" "i \<notin> sx_fresh_edges tx"
  using assms by (auto simp: noop_edge_write_def split: option.splits)

lemma content_refl: "rel_option edge_content_matches x x"
  by (cases x) (simp_all add: edge_content_matches_def)

text \<open>The edges after a commit, up to writes that would have changed nothing but times.\<close>

lemma discarded_edges:
  assumes tx: "tx_ok tx" and agree: "tables_agree c en"
  shows "rel_option edge_content_matches (overlaid (head_edges c en) (sx_edge_writes tx) i)
     (overlaid (head_edges c en) (sx_edge_writes (discard_noop_edge_writes en tx)) i)"
proof (cases "\<exists>w. bt_get (sx_edge_writes tx) i = Some w \<and> noop_edge_write en tx (i, w)")
  case True
  then obtain e cur where "bt_get (sx_edge_writes tx) i = Some (Some e)" "get_edge i en = Some cur" "edge_content_matches e cur"
    by (metis noop_write_cases)
  then show ?thesis using agree True by (simp add: overlaid_def discarded_write [OF tx] tables_agree_def)
next
  case False
  have "bt_get (sx_edge_writes (discard_noop_edge_writes en tx)) i = bt_get (sx_edge_writes tx) i"
    unfolding discarded_write [OF tx] by (rule if_not_P [OF False])
  then show ?thesis by (simp add: overlaid_def content_refl)
qed

definition unseen_changes :: "'n json codec \<Rightarrow> 'n engine \<Rightarrow> 'n storage_tx \<Rightarrow> bool" where
  "unseen_changes c en tx \<longleftrightarrow>
     (let ts = sn_read_ts (sx_snapshot tx) in
      (\<exists>i w. bt_get (sx_node_writes tx) i = Some w \<and> i \<notin> sx_fresh_nodes tx \<and> head_nodes c en i \<noteq> node_at c (en_mvcc en) ts i) \<or>
      (\<exists>i w. bt_get (sx_edge_writes tx) i = Some w \<and> i \<notin> sx_fresh_edges tx \<and> head_edges c en i \<noteq> edge_at c (en_mvcc en) ts i \<and>
         \<not> rel_option edge_content_matches w (head_edges c en i)))"

definition writes_applied :: "'n json codec \<Rightarrow> 'n engine \<Rightarrow> 'n storage_tx \<Rightarrow> 'n engine \<Rightarrow> bool" where
  "writes_applied c en tx en' \<longleftrightarrow>
     head_nodes c en' = overlaid (head_nodes c en) (sx_node_writes tx) \<and>
     (\<forall>i. rel_option edge_content_matches (overlaid (head_edges c en) (sx_edge_writes tx) i) (head_edges c en' i))"

lemma checked_sees:
  assumes s: "mvcc_ok c (en_mvcc en)" and agree: "tables_agree c en" and tx: "tx_ok tx"
    and none: "ensure_no_write_conflicts c en (discard_noop_edge_writes en tx) = None"
  shows "\<not> unseen_changes c en tx"
proof -
  let ?tx = "discard_noop_edge_writes en tx"
  have "head_nodes c en i = node_at c (en_mvcc en) (sn_read_ts (sx_snapshot tx)) i"
    if "bt_get (sx_node_writes tx) i = Some w" "i \<notin> sx_fresh_nodes tx" for i w
    using no_conflicts(1) [OF s none, of i w] that by (simp add: discard_fields)
  moreover have "head_edges c en i = edge_at c (en_mvcc en) (sn_read_ts (sx_snapshot tx)) i \<or> rel_option edge_content_matches w (head_edges c en i)"
    if w: "bt_get (sx_edge_writes tx) i = Some w" "i \<notin> sx_fresh_edges tx" for i w
  proof (cases "noop_edge_write en tx (i, w)")
    case True
    then obtain e cur where "w = Some e" "get_edge i en = Some cur" "edge_content_matches e cur" by (rule noop_write_cases)
    then show ?thesis using agree by (simp add: tables_agree_def)
  next
    case False
    have "i \<notin> sx_fresh_edges ?tx" using w(2) by (simp add: discard_noop_edge_writes_def Let_def)
    then show ?thesis using no_conflicts(2) [OF s none, of i w] w(1) False by (simp add: discarded_write [OF tx] discard_fields(2))
  qed
  ultimately show ?thesis unfolding unseen_changes_def Let_def by blast
qed

lemma commit_cases:
  assumes ok: "storage_engine_ok js c en" and codec: "codec_ok c" and tx: "tx_ok tx"
    and allowed: "batch_allowed c order out (tx_batch (discard_noop_edge_writes en tx)) en"
  shows "(\<exists>e tx'. storage_tx_commit js c order out None tx en = (Some e, tx', en)) \<or>
    (\<exists>tx' en'. storage_tx_commit js c order out None tx en = (None, tx', en') \<and> \<not> unseen_changes c en tx \<and> writes_applied c en tx en' \<and>
       storage_engine_ok js c en' \<and> sx_node_writes tx' = [] \<and> sx_edge_writes tx' = [])"
proof (cases "ensure_no_write_conflicts c en (discard_noop_edge_writes en tx)")
  case (Some e)
  then show ?thesis by (simp add: storage_tx_commit_def tx_check_def Let_def)
next
  case None
  let ?tx = "discard_noop_edge_writes en tx"
  have s: "mvcc_ok c (en_mvcc en)" and agree: "tables_agree c en" using ok by (simp_all add: storage_engine_ok_def)
  have commit: "storage_tx_commit js c order out None tx en = tx_write js c order out None ?tx en"
    by (simp add: storage_tx_commit_def tx_check_def None Let_def)
  from write_result [OF ok codec allowed] consider
    (refused) e where "tx_write js c order out None ?tx en = (Some e, ?tx, en)"
  | (written) en' where "tx_write js c order out None ?tx en = (None, tx_committed ?tx, en')" "batch_applied js c order (tx_batch ?tx) en en'"
    by blast
  then show ?thesis
  proof cases
    case refused
    then show ?thesis by (simp add: commit)
  next
    case written
    note graphs = batch_written [OF ok tx_ok_discard [OF tx] written(2)]
    have "writes_applied c en tx en'"
      using discarded_edges [OF tx agree] by (simp add: writes_applied_def graphs discard_fields(3))
    then show ?thesis using checked_sees [OF s agree tx None] applied_frame(1) [OF written(2)]
      by (simp add: commit written(1) tx_committed_def)
  qed
qed

end
