(* ===== verification/Store_Guarantees.thy ===== *)
theory Store_Guarantees
  imports Store_Isolation
begin

text \<open>
  The guarantees of transactions of crates/storage/src/lib.rs with runs that reach them, a run in which a
  commit overwrites a change that its transaction has not seen, and a batch that fails after its write.
\<close>

subsection \<open>A batch without constraints\<close>

definition bare :: "('n json \<Rightarrow> string) \<Rightarrow> 'n json codec \<Rightarrow> 'n engine \<Rightarrow> bool" where
  "bare js c en \<longleftrightarrow> storage_engine_ok js c en \<and> ss_constraints (en_schema en) = [] \<and> ss_namespace_constraints (en_schema en) = [] \<and>
     ss_edges (en_schema en) = []"

definition put_order :: "'j node_record \<Rightarrow> string list \<times> string list" where
  "put_order n = ([nr_id n], [])"

lemma collect_put:
  "collect_ops st [PutNodeOp n] = \<lparr>bc_nodes = [(nr_id n, bt_get (ss_nodes st) (nr_id n), Some n)], bc_edges = [], bc_constraints = []\<rparr>"
  by (simp add: collect_ops_def collect_op_def collect_change_def bt_insert_def)

lemma empty_lookup: "bt_get [] = Map.empty"
  by (simp add: bt_get_def fun_eq_iff)

lemma batch_put: "batch_mutations (put_order n) [RecordOp (PutNodeOp n)] en = [PutNode n]"
  by (simp add: batch_mutations_def Let_def collect_put put_order_def mutations_of_def node_mutation_def fresh_node_ids_def
      List.map_filter_simps bt_get_Cons bt_get_def)

lemma stage_put:
  assumes "mvcc_ok c (en_mvcc en)" "enc_node c n = Inr raw"
  shows "is_ok (stage_batch c (put_order n) [RecordOp (PutNodeOp n)] en)"
proof -
  obtain old where "live_node_at c (node_logical_key (nr_id n)) (en_mvcc en) = Inr old" using live_node_at_ok [OF assms(1)] by blast
  then have "opt_transpose (current_live_node_from_state c (key_or_default (ms_values (en_mvcc en)) (node_logical_key (nr_id n)))) = Inr old"
    by (simp add: live_at_key)
  moreover have "staged_state vals (PutNode n) [] = key_or_default vals (node_logical_key (nr_id n))" for vals
    by (simp add: staged_state_def is_fresh_def mutation_key_def bt_get_def)
  ultimately show ?thesis
    by (simp add: stage_batch_def batch_put staged_record_batch_def Let_def stage_mutation_def stage_put_node_def assms(2) mutation_key_def)
qed

lemma put_allowed:
  assumes "bare js c en" "enc_node c n = Inr raw" "ms_current_version (en_mvcc en) < u64_max"
  shows "batch_allowed c (put_order n) BatchDone [RecordOp (PutNodeOp n)] en"
  using assms stage_put [of c en n]
  by (simp add: batch_allowed_def bare_def storage_engine_ok_def batch_order_def visits_def collect_put put_order_def bt_keys_def)

lemma put_accepted:
  assumes b: "bare js c en" and codec: "codec_ok c" and enc: "enc_node c n = Inr raw" and v: "ms_current_version (en_mvcc en) < u64_max"
  shows "\<exists>en'. commit_batch_locked js c (put_order n) BatchDone None [RecordOp (PutNodeOp n)] en = (None, en') \<and> bare js c en' \<and>
    batch_applied js c (put_order n) [RecordOp (PutNodeOp n)] en en' \<and>
    head_nodes c en' = (head_nodes c en)(nr_id n \<mapsto> n) \<and> ms_current_version (en_mvcc en') = ms_current_version (en_mvcc en) + 1"
proof -
  let ?st = "en_schema en" and ?ops = "[RecordOp (PutNodeOp n)]"
  have ok: "storage_engine_ok js c en" and none: "ss_constraints ?st = []" "ss_namespace_constraints ?st = []" "ss_edges ?st = []"
    using b by (simp_all add: bare_def)
  note allowed = put_allowed [OF b enc v]
  have "fst (commit_locked js (put_order n) BatchDone (record_ops ?ops) ?st) = None"
    by (rule commit_accepted) (use ok allowed none in \<open>simp_all add: storage_engine_ok_def batch_allowed_def store_contents_def clear_ends_def
        constraints_hold_def rules_hold_def active_rules_def empty_lookup\<close>)
  then have "fst (commit_batch_locked js c (put_order n) BatchDone None ?ops en) = None"
    using stage_put [of c en n] ok enc by (auto simp: commit_batch_locked_def Let_def is_ok_iff storage_engine_ok_def split: prod.split)
  then obtain en' where r: "commit_batch_locked js c (put_order n) BatchDone None ?ops en = (None, en')"
    and a: "batch_applied js c (put_order n) ?ops en en'"
    using batch_result [OF ok codec allowed] by fastforce
  let ?bc = "collect_ops ?st (record_ops ?ops)"
  have f: "batch_faithful ?bc ?st" by (rule collect_faithful(1)) simp
  have st': "en_schema en' = (write_batch ?bc ?st)\<lparr>ss_manager := ss_manager (en_schema en')\<rparr>" using a by (simp only: batch_applied_def Let_def)
  have "ss_constraints (write_batch ?bc ?st) = []" "ss_edges (write_batch ?bc ?st) = []"
    by (simp_all add: write_batch_parts collect_put none)
  then have "ss_constraints (en_schema en') = []" "ss_edges (en_schema en') = []" "ss_namespace_constraints (en_schema en') = []"
    by (subst st', simp add: none)+
  then have "bare js c en'" using applied_frame(1) [OF a] by (simp add: bare_def)
  moreover have "ms_current_version (en_mvcc en') = ms_current_version (en_mvcc en) + 1"
    using a by (simp add: batch_applied_def Let_def batch_version_after_def batch_put)
  moreover have "head_nodes c en' = (head_nodes c en)(nr_id n \<mapsto> n)"
  proof -
    have s: "mvcc_ok c (en_mvcc en)" using ok by (simp add: storage_engine_ok_def)
    have "node_at c (en_mvcc en') (ms_current_version (en_mvcc en')) =
        latest (node_at c (en_mvcc en) (ms_current_version (en_mvcc en'))) (bc_nodes ?bc)"
      using a by (simp add: batch_applied_def Let_def)
    then show ?thesis
      using graph_beyond(1) [OF s applied_frame(2) [OF a]] by (simp add: head_nodes_def collect_put latest_def bt_get_Cons bt_get_def fun_eq_iff)
  qed
  ultimately show ?thesis using r a by blast
qed

subsection \<open>When a commit is refused\<close>

definition newer :: "'n engine \<Rightarrow> 'n storage_tx \<Rightarrow> string \<Rightarrow> bool" where
  "newer en tx key \<longleftrightarrow> (\<exists>head. current_head_for_key (en_mvcc en) key = Some head \<and> sn_read_ts (sx_snapshot tx) < lh_head head)"

text \<open>Another commit has written a record that the transaction writes too, after its snapshot.\<close>

definition overtaken :: "'n engine \<Rightarrow> 'n storage_tx \<Rightarrow> bool" where
  "overtaken en tx \<longleftrightarrow>
     (\<exists>i w. bt_get (sx_node_writes tx) i = Some w \<and> i \<notin> sx_fresh_nodes tx \<and> newer en tx (node_logical_key i)) \<or>
     (\<exists>i w. bt_get (sx_edge_writes tx) i = Some w \<and> i \<notin> sx_fresh_edges tx \<and> newer en tx (edge_logical_key i))"

text \<open>A definition that the transaction changes is no longer the one it began with.\<close>

definition definitions_moved :: "'n engine \<Rightarrow> 'n storage_tx \<Rightarrow> bool" where
  "definitions_moved en tx \<longleftrightarrow>
     (\<exists>name\<in>set (bt_keys (sx_constraint_writes tx)). constraint_conflict en tx name \<noteq> None) \<or>
     (\<exists>name\<in>set (bt_keys (sx_index_writes tx)). index_conflict en tx name \<noteq> None) \<or> policy_conflict en tx \<noteq> None"

lemma unmodified_iff: "ensure_key_is_unmodified_since_snapshot en tx key = None \<longleftrightarrow> \<not> newer en tx key"
  by (auto simp: ensure_key_is_unmodified_since_snapshot_def newer_def not_less split: option.split)

lemma edge_conflict_iff:
  assumes s: "mvcc_ok c (en_mvcc en)" and agree: "tables_agree c en"
  shows "edge_conflict c en tx (i, w) = None \<longleftrightarrow> i \<in> sx_fresh_edges tx \<or> \<not> newer en tx (edge_logical_key i)"
proof (cases "newer en tx (edge_logical_key i)")
  case False
  then have "read_key (en_mvcc en) (sn_read_ts (sx_snapshot tx)) (edge_logical_key i) =
      read_key (en_mvcc en) (ms_current_version (en_mvcc en)) (edge_logical_key i)"
    using no_conflict_key [OF s] unmodified_iff by blast
  then have "edge_at c (en_mvcc en) (sn_read_ts (sx_snapshot tx)) i = get_edge i en"
    using agree by (simp add: tables_agree_def head_edges_def edge_at_def)
  then show ?thesis using False
    by (cases "get_edge i en") (simp_all add: edge_conflict_def Let_def unmodified_iff get_edge_record_visible_at_eq [OF s])
next
  case True
  then show ?thesis using unmodified_iff [of en tx "edge_logical_key i"]
    by (auto simp: edge_conflict_def Let_def split: sum.split)
qed

lemma check_exact:
  assumes s: "mvcc_ok c (en_mvcc en)" and agree: "tables_agree c en" and tx: "tx_ok tx"
  shows "ensure_no_write_conflicts c en tx = None \<longleftrightarrow> \<not> overtaken en tx \<and> \<not> definitions_moved en tx"
proof -
  have wf: "bt_wf (sx_node_writes tx)" "bt_wf (sx_edge_writes tx)" using tx by (simp_all add: tx_ok_def)
  have "(\<forall>i\<in>set (bt_keys (sx_node_writes tx)). node_conflict en tx i = None) \<longleftrightarrow>
      \<not> (\<exists>i w. bt_get (sx_node_writes tx) i = Some w \<and> i \<notin> sx_fresh_nodes tx \<and> newer en tx (node_logical_key i))"
    by (auto simp: node_conflict_def unmodified_iff bt_keys_def bt_get_Some_iff [OF wf(1)])
  moreover have "(\<forall>x\<in>set (sx_edge_writes tx). edge_conflict c en tx x = None) \<longleftrightarrow>
      \<not> (\<exists>i w. bt_get (sx_edge_writes tx) i = Some w \<and> i \<notin> sx_fresh_edges tx \<and> newer en tx (edge_logical_key i))"
    by (auto simp: edge_conflict_iff [OF s agree] bt_get_Some_iff [OF wf(2)])
  ultimately show ?thesis
    by (auto simp: ensure_no_write_conflicts_def first_of_None first_some_None overtaken_def definitions_moved_def)
qed

definition batch_refused :: "('n json \<Rightarrow> string) \<Rightarrow> string list \<times> string list \<Rightarrow> batch_outcome \<Rightarrow> 'n storage_tx \<Rightarrow> 'n engine \<Rightarrow> bool" where
  "batch_refused js order out tx en \<longleftrightarrow> fst (commit_locked js order out (record_ops (tx_batch tx)) (en_schema en)) \<noteq> None"

lemma batch_refused_iff:
  assumes "batch_allowed c order out ops en"
  shows "fst (commit_batch_locked js c order out None ops en) = None \<longleftrightarrow> fst (commit_locked js order out (record_ops ops) (en_schema en)) = None"
proof -
  have "(case out of EarlyError e \<Rightarrow> EarlyError e | _ \<Rightarrow> out) = out" by (cases out) simp_all
  then show ?thesis using assms
    by (cases out) (auto simp: commit_batch_locked_def batch_allowed_def Let_def is_ok_iff split: prod.split option.split)
qed

lemma applied_rebuilds:
  "batch_applied js c order ops en en' \<Longrightarrow> rebuild_schema_manager js (en_schema en') = Inr (en_schema en')"
  using rebuild_same [of js "en_schema en'" "ss_manager (en_schema en')"] by (simp add: batch_applied_def Let_def storage_engine_ok_def)

lemma commit_refused_iff:
  assumes ok: "storage_engine_ok js c en" and codec: "codec_ok c" and tx: "tx_ok tx"
    and allowed: "batch_allowed c order out (tx_batch (discard_noop_edge_writes en tx)) en"
  defines "kept \<equiv> discard_noop_edge_writes en tx"
  shows "fst (storage_tx_commit js c order out None tx en) = None \<longleftrightarrow>
    \<not> overtaken en kept \<and> \<not> definitions_moved en kept \<and> \<not> batch_refused js order out kept en"
proof -
  have s: "mvcc_ok c (en_mvcc en)" and agree: "tables_agree c en" using ok by (simp_all add: storage_engine_ok_def)
  have w: "fst (tx_write js c order out None kept en) = None \<longleftrightarrow> \<not> batch_refused js order out kept en"
  proof -
    have "fst (tx_write js c order out None kept en) = None \<longleftrightarrow> fst (commit_batch_locked js c order out None (tx_batch kept) en) = None"
      using write_result [OF ok codec allowed, folded kept_def] batch_result [OF ok codec allowed, folded kept_def]
      by (auto simp: tx_write_def applied_rebuilds split: prod.splits sum.splits if_splits)
    then show ?thesis using batch_refused_iff [OF allowed [folded kept_def]] by (simp add: batch_refused_def)
  qed
  show ?thesis using check_exact [OF s agree tx_ok_discard [OF tx], of en] w
    by (auto simp: storage_tx_commit_def tx_check_def Let_def kept_def split: option.split)
qed

subsection \<open>A run in which a change is lost\<close>

definition demo_records :: "nat json codec" where
  "demo_records =
     \<lparr>enc_node = (\<lambda>n. if n = demo_user ''a'' ''y'' then Inr [2] else if n = demo_user ''a'' ''z'' then Inr [3] else Inl (Serialization ''unknown'')),
      dec_node = (\<lambda>raw. if raw = [2] then Inr (demo_user ''a'' ''y'') else if raw = [3] then Inr (demo_user ''a'' ''z'')
        else Inl (Deserialization ''unknown'')),
      enc_edge = (\<lambda>_. Inl (Serialization ''unknown'')), dec_edge = (\<lambda>_. Inl (Deserialization ''unknown''))\<rparr>"

lemma codec_ok_demo: "codec_ok demo_records"
  by (auto simp: codec_ok_def demo_records_def split: if_splits)

lemma demo_encodes: "enc_node demo_records (demo_user ''a'' ''y'') = Inr [2]"
  "\<exists>raw. enc_node demo_records (demo_user ''a'' ''z'') = Inr raw"
  by (simp_all add: demo_records_def)

abbreviation demo_step :: "nat database \<Rightarrow> nat database \<Rightarrow> bool" where
  "demo_step \<equiv> db_step demo_text demo_records no_f64 no_i64"

definition demo_begun :: "nat database" where "demo_begun = db_begin 0 database_new"

definition demo_tx :: "nat storage_tx" where
  "demo_tx = tx_exec no_f64 no_i64 (TxPutNode (demo_user ''a'' ''y'')) (snd (begin_transaction engine_new))"

definition demo_staged :: "nat database" where "demo_staged = demo_begun\<lparr>db_open := bt_insert 0 (False, demo_tx) (db_open demo_begun)\<rparr>"

definition demo_checked :: "nat database" where "demo_checked = db_check demo_records 0 demo_tx demo_staged"

lemma demo_begun_reached: "demo_step\<^sup>*\<^sup>* database_new demo_begun"
  unfolding demo_begun_def by (rule r_into_rtranclp) (rule start, simp add: database_new_def bt_get_def)

lemma demo_staged_step: "demo_step demo_begun demo_staged"
proof -
  have "bt_get (db_open demo_begun) 0 = Some (False, snd (begin_transaction engine_new))"
    by (simp add: demo_begun_def begin_transaction_eq) (simp add: database_new_def)
  from exec [OF this, of demo_text demo_records no_f64 no_i64 "TxPutNode (demo_user ''a'' ''y'')"]
  show ?thesis by (simp add: db_exec_def demo_staged_def demo_tx_def)
qed

lemma demo_staged_reached: "demo_step\<^sup>*\<^sup>* database_new demo_staged"
  using demo_begun_reached demo_staged_step by (rule rtranclp.rtrancl_into_rtrancl)

lemma demo_tx_open: "bt_get (db_open demo_staged) 0 = Some (False, demo_tx)"
  by (simp add: demo_staged_def)

lemma demo_engine: "db_engine demo_staged = engine_new\<lparr>en_mvcc := fst (begin_registered_snapshot mvcc_default)\<rparr>"
  by (simp add: demo_staged_def demo_begun_def begin_transaction_eq) (simp add: database_new_def engine_new_def)

lemma demo_tx_fields:
  "sx_node_writes demo_tx = [(''a'', Some (demo_user ''a'' ''y''))]" "sx_edge_writes demo_tx = []" "sx_fresh_nodes demo_tx = {}"
  "sx_constraint_writes demo_tx = []" "sx_index_writes demo_tx = []" "sx_index_option_writes demo_tx = []"
  "sx_policy demo_tx = sx_initial_policy demo_tx" "sx_fresh_edges demo_tx = {}" "sn_read_ts (sx_snapshot demo_tx) = 0"
  by (simp_all add: demo_tx_def begin_transaction_def tx_put_node_record_def begin_registered_snapshot_def begin_snapshot_def Let_def demo_user_def
      engine_new_def mvcc_default_def bt_insert_def)

lemma demo_policy_same: "policy_catalog_eq (sx_initial_policy demo_tx) (sx_initial_policy demo_tx)"
proof -
  have "sx_initial_policy demo_tx = load_knowledge_policy_catalog policy_store_new"
    by (simp add: demo_tx_def begin_transaction_def tx_put_node_record_def begin_registered_snapshot_def Let_def engine_new_def)
  then show ?thesis by (simp add: load_knowledge_policy_catalog_def load_defs policy_store_new_def policy_catalog_eq_def)
qed

lemma demo_discard: "discard_noop_edge_writes en demo_tx = demo_tx"
  by (simp add: discard_noop_edge_writes_def demo_tx_fields)

lemma demo_tx_batch: "tx_batch demo_tx = [RecordOp (PutNodeOp (demo_user ''a'' ''y''))]"
  by (simp add: tx_batch_def demo_tx_fields demo_policy_same node_write_op_def)

lemma demo_check_passes: "ensure_no_write_conflicts demo_records (db_engine demo_staged) demo_tx = None"
  by (simp add: ensure_no_write_conflicts_def demo_tx_fields bt_keys_def policy_conflict_def demo_policy_same first_of_def
      node_conflict_def ensure_key_is_unmodified_since_snapshot_def demo_engine current_head_for_key_def)
    (simp add: mvcc_default_def bt_get_def)

lemma demo_bare: "bare demo_text demo_records (db_engine demo_staged)"
  using reached_ok [OF codec_ok_demo demo_staged_reached]
  by (simp add: db_ok_def bare_def demo_engine) (simp add: engine_new_def schema_store_new_def)

lemma demo_version: "ms_current_version (en_mvcc (db_engine demo_staged)) = 0"
  by (simp add: demo_engine mvcc_default_def)

lemma demo_checked_state: "demo_checked = demo_staged\<lparr>db_open := bt_insert 0 (True, demo_tx) (db_open demo_staged)\<rparr>"
  by (simp add: demo_checked_def db_check_def tx_check_def Let_def demo_discard demo_check_passes)

lemma demo_checked_reached: "demo_step\<^sup>*\<^sup>* database_new demo_checked"
  unfolding demo_checked_def using demo_staged_reached verify [OF demo_tx_open] by (rule rtranclp.rtrancl_into_rtrancl)

text \<open>
  The check of a commit comes before the lock of its batch. A batch of another thread in between may
  write the same record, and its change is overwritten by a transaction that has never seen it.
\<close>

lemma change_is_lost:
  "\<exists>db db' tx. demo_step\<^sup>*\<^sup>* database_new db \<and> bt_get (db_open db) 0 = Some (True, tx) \<and> unseen_changes demo_records (db_engine db) tx \<and>
     demo_step db db' \<and> head_nodes demo_records (db_engine db') = overlaid (head_nodes demo_records (db_engine db)) (sx_node_writes tx)"
proof -
  let ?z = "demo_user ''a'' ''z''" and ?y = "demo_user ''a'' ''y''"
  obtain raw where z: "enc_node demo_records ?z = Inr raw" using demo_encodes(2) ..
  have v: "ms_current_version (en_mvcc (db_engine demo_staged)) < u64_max" by (simp add: demo_version u64_max_def)
  obtain en where raced: "commit_batch_locked demo_text demo_records (put_order ?z) BatchDone None [RecordOp (PutNodeOp ?z)] (db_engine demo_staged) = (None, en)"
    and b: "bare demo_text demo_records en" and head: "head_nodes demo_records en = (head_nodes demo_records (db_engine demo_staged))(nr_id ?z \<mapsto> ?z)"
    and v1: "ms_current_version (en_mvcc en) = ms_current_version (en_mvcc (db_engine demo_staged)) + 1"
    and applied: "batch_applied demo_text demo_records (put_order ?z) [RecordOp (PutNodeOp ?z)] (db_engine demo_staged) en"
    using put_accepted [OF demo_bare codec_ok_demo z v] by blast
  let ?db = "demo_checked\<lparr>db_engine := en\<rparr>"
  let ?db' = "db_write demo_text demo_records (put_order ?y) BatchDone 0 demo_tx ?db"
  have same: "db_engine demo_checked = db_engine demo_staged" by (simp add: demo_checked_state)
  have "engine_step demo_text demo_records (db_engine demo_checked) en"
    using engine_step.batch [OF put_allowed [OF demo_bare z v], of demo_text] by (simp add: raced same)
  from rtranclp.rtrancl_into_rtrancl [OF demo_checked_reached db_step.engine [OF this]]
  have reached: "demo_step\<^sup>*\<^sup>* database_new ?db" .
  have tx: "bt_get (db_open ?db) 0 = Some (True, demo_tx)" by (simp add: demo_checked_state)
  have s: "mvcc_ok demo_records (en_mvcc (db_engine demo_staged))" using demo_bare by (simp add: bare_def storage_engine_ok_def)
  have "node_at demo_records (en_mvcc en) 0 ''a'' = node_at demo_records (en_mvcc (db_engine demo_staged)) 0 ''a''"
    using applied_frame(4) [OF applied, of 0] by simp
  also have "\<dots> = None"
    by (rule unused_absent) (simp add: demo_engine mvcc_default_def bt_get_def)
  finally have unseen: "unseen_changes demo_records (db_engine ?db) demo_tx"
    by (simp add: unseen_changes_def Let_def demo_tx_fields head bt_get_Cons demo_user_def)
  have v2: "ms_current_version (en_mvcc en) < u64_max" by (simp add: v1 demo_version u64_max_def)
  note allowed = put_allowed [OF b demo_encodes(1) v2]
  have "demo_step ?db ?db'" by (rule apply_batch [OF tx]) (simp add: demo_tx_batch allowed)
  moreover have "head_nodes demo_records (db_engine ?db') = overlaid (head_nodes demo_records (db_engine ?db)) (sx_node_writes demo_tx)"
  proof -
    have bd: "batch_allowed demo_records (put_order ?y) BatchDone (tx_batch demo_tx) en" using allowed by (simp add: demo_tx_batch)
    have ok: "storage_engine_ok demo_text demo_records en" using b by (simp add: bare_def)
    obtain en' where "commit_batch_locked demo_text demo_records (put_order ?y) BatchDone None (tx_batch demo_tx) en = (None, en')"
      using put_accepted [OF b codec_ok_demo demo_encodes(1) v2] by (auto simp: demo_tx_batch)
    then have "fst (tx_write demo_text demo_records (put_order ?y) BatchDone None demo_tx en) = None"
      by (simp add: tx_write_def demo_tx_fields)
    then obtain en2 where w: "tx_write demo_text demo_records (put_order ?y) BatchDone None demo_tx en = (None, tx_committed demo_tx, en2)"
      and a: "batch_applied demo_text demo_records (put_order ?y) (tx_batch demo_tx) en en2"
      using write_result [OF ok codec_ok_demo bd] by fastforce
    have "tx_ok demo_tx" unfolding demo_tx_def by (intro tx_ok_exec tx_ok_begin)
    from batch_written(1) [OF ok this a] show ?thesis by (simp add: db_write_def w)
  qed
  ultimately show ?thesis using reached tx unseen by blast
qed

text \<open>
  An error after the write of the tables, when the log cannot be flushed: the caller is told of an error, the
  tables hold the writes, and the versions do not until the next start.
\<close>

lemma late_error_splits:
  assumes "commit_batch_locked js c order out None ops en = (None, en')"
  shows "commit_batch_locked js c order out (Some e) ops en = (Some e, en'\<lparr>en_mvcc := en_mvcc en\<rparr>)"
  using assms by (auto simp: commit_batch_locked_def Let_def split: prod.splits option.splits)

lemma late_error_keeps_half:
  "\<exists>en'. commit_batch_locked demo_text demo_records (put_order (demo_user ''a'' ''y'')) BatchDone (Some e) (tx_batch demo_tx)
       (db_engine demo_staged) = (Some e, en') \<and> \<not> tables_agree demo_records en'"
proof -
  let ?en = "db_engine demo_staged"
  have v: "ms_current_version (en_mvcc ?en) < u64_max" by (simp add: demo_version u64_max_def)
  obtain en' where r: "commit_batch_locked demo_text demo_records (put_order (demo_user ''a'' ''y'')) BatchDone None (tx_batch demo_tx) ?en = (None, en')"
    and b: "bare demo_text demo_records en'" and head: "head_nodes demo_records en' = (head_nodes demo_records ?en)(nr_id (demo_user ''a'' ''y'') \<mapsto> demo_user ''a'' ''y'')"
    using put_accepted [OF demo_bare codec_ok_demo demo_encodes(1) v] by (auto simp: demo_tx_batch)
  have "rel_option stored_like (Some (demo_user ''a'' ''y'')) (get_node ''a'' en')"
    using b head by (auto simp: bare_def storage_engine_ok_def tables_agree_def demo_user_def dest!: spec [of _ "''a''"])
  moreover have "head_nodes demo_records (en'\<lparr>en_mvcc := en_mvcc ?en\<rparr>) ''a'' = None"
    by (simp add: head_nodes_def) (rule unused_absent, simp add: demo_engine mvcc_default_def bt_get_def)
  ultimately have "\<not> tables_agree demo_records (en'\<lparr>en_mvcc := en_mvcc ?en\<rparr>)"
    by (auto simp: tables_agree_def get_node_def intro!: exI [of _ "''a''"])
  then show ?thesis using late_error_splits [OF r] by blast
qed

subsection \<open>Properties\<close>

text \<open>
  C39: From its begin to its end a transaction reads the tables as they were at its begin, under the writes
  it has staged since, by every read it offers: by id, by label or type, all records, adjacent edges. It
  reads the versions, which agree with the tables up to chunk embeddings that a batch clears in the tables
  only. Nothing of the steps in between shows: those of other transactions, batches, definitions, and the
  prunings that respect readers (\<open>trigger_prune_now\<close>). Not among the steps: \<open>prune_mvcc_versions\<close>, which can take
  versions from an open transaction, batches that fail between their checks and the publication of their
  versions, fresh writes of an id that was in use, rebuilds of the versions at start, and a version
  counter without room.
\<close>

theorem transaction_isolated:
  assumes codec: "codec_ok c" and reached: "(db_step js c as_f64 as_i64)\<^sup>*\<^sup>* database_new db" and free: "bt_get (db_open db) h = None"
    and run: "while_open js c as_f64 as_i64 h (db_begin h db) db'"
  shows "tables_agree c (db_engine db) \<and> (\<exists>checked tx. bt_get (db_open db') h = Some (checked, tx) \<and>
    sees_nodes c (db_engine db') tx (overlaid (head_nodes c (db_engine db)) (sx_node_writes tx)) \<and>
    sees_edges c (db_engine db') tx (overlaid (head_edges c (db_engine db)) (sx_edge_writes tx)))"
proof -
  note ok = reached_ok [OF codec reached]
  obtain tx0 where tx0: "bt_get (db_open (db_begin h db)) h = Some (False, tx0)"
    and start: "node_at c (en_mvcc (db_engine (db_begin h db))) (sn_read_ts (sx_snapshot tx0)) = head_nodes c (db_engine db)"
      "edge_at c (en_mvcc (db_engine (db_begin h db))) (sn_read_ts (sx_snapshot tx0)) = head_edges c (db_engine db)"
    using begun_view [OF ok, of h] by (auto simp: Let_def)
  obtain checked tx where ok': "db_ok js c db'" and tx: "bt_get (db_open db') h = Some (checked, tx)"
    and view: "same_view c (db_begin h db) tx0 db' tx"
    using view_frozen [OF run db_ok_begin [OF ok free] codec tx0] by blast
  have s: "mvcc_ok c (en_mvcc (db_engine db'))" and wf: "tx_ok tx" using ok' tx by (auto simp: db_ok_def storage_engine_ok_def)
  have "node_at c (en_mvcc (db_engine db')) (sn_read_ts (sx_snapshot tx)) = head_nodes c (db_engine db)"
    "edge_at c (en_mvcc (db_engine db')) (sn_read_ts (sx_snapshot tx)) = head_edges c (db_engine db)"
    using view start by (simp_all add: same_view_def Let_def)
  then show ?thesis using tx_reads [OF s wf] tx ok by (auto simp: db_ok_def storage_engine_ok_def)
qed

theorem transaction_isolated_witness:
  "sees_nodes demo_records (db_engine demo_staged) demo_tx (overlaid (head_nodes demo_records engine_new) [(''a'', Some (demo_user ''a'' ''y''))])"
proof -
  have "while_open demo_text demo_records no_f64 no_i64 0 (db_begin 0 database_new) demo_staged"
    unfolding while_open_def using demo_staged_step demo_tx_open by (intro r_into_rtranclp) (simp add: demo_begun_def)
  from transaction_isolated [OF codec_ok_demo rtranclp.rtrancl_refl _ this] show ?thesis
    by (auto simp: demo_tx_open demo_tx_fields) (simp add: database_new_def bt_get_def)
qed

text \<open>
  C40: In runs of the same steps, a commit whose batch follows its check with no other batch in between, and
  that does not fail while its versions are staged, logged and published, is accepted exactly when no
  commit, an earlier one of its own included, has written one of its records since its snapshot (fresh ids
  and rewrites of an edge with equal content apart), no definition it changes has changed, and the checks of
  the batch accept it (see \<open>Schema_Guarantees\<close>). A policy catalog with a threshold that is not a number always
  counts as changed (see \<open>nan_threshold_differs\<close>). A refused commit changes nothing in the engine. An accepted
  one has overwritten no change it had not seen, the records are the old ones under its writes (an edge with
  equal content keeps its times), tables and versions agree, the constraints hold and no write is left. With
  another batch in between the check and the batch, which the code allows, an unseen change is overwritten.
\<close>

theorem transaction_commit_exact:
  assumes codec: "codec_ok c" and reached: "(db_step js c as_f64 as_i64)\<^sup>*\<^sup>* database_new db" and tx: "bt_get (db_open db) h = Some (False, tx)"
    and allowed: "batch_allowed c order out (tx_batch (discard_noop_edge_writes (db_engine db) tx)) (db_engine db)"
  shows "(let en = db_engine db; kept = discard_noop_edge_writes en tx; (refusal, tx', en') = storage_tx_commit js c order out None tx en;
      st' = en_schema en' in
     (refusal = None \<longleftrightarrow> \<not> overtaken en kept \<and> \<not> definitions_moved en kept \<and> \<not> batch_refused js order out kept en) \<and>
     (refusal \<noteq> None \<longrightarrow> en' = en) \<and>
     (refusal = None \<longrightarrow> \<not> unseen_changes c en tx \<and> writes_applied c en tx en' \<and> tables_agree c en' \<and>
        constraints_hold js (ss_namespace_constraints st') (store_contents st') \<and> sx_node_writes tx' = [] \<and> sx_edge_writes tx' = [])) \<and>
    (\<exists>db db' tx. demo_step\<^sup>*\<^sup>* database_new db \<and> bt_get (db_open db) 0 = Some (True, tx) \<and> unseen_changes demo_records (db_engine db) tx \<and>
      demo_step db db' \<and> head_nodes demo_records (db_engine db') = overlaid (head_nodes demo_records (db_engine db)) (sx_node_writes tx))"
proof -
  have ok: "storage_engine_ok js c (db_engine db)" and wf: "tx_ok tx" using reached_ok [OF codec reached] tx by (auto simp: db_ok_def)
  have "constraints_hold js (ss_namespace_constraints (en_schema en')) (store_contents (en_schema en'))" if "storage_engine_ok js c en'" for en'
    using that ok_constraints_hold [of js "en_schema en'"] by (simp add: storage_engine_ok_def)
  then show ?thesis using commit_cases [OF ok codec wf allowed] commit_refused_iff [OF ok codec wf allowed] change_is_lost
    by (auto simp: Let_def storage_engine_ok_def)
qed

theorem transaction_commit_exact_witness:
  "(let (refusal, tx', en') = storage_tx_commit demo_text demo_records (put_order (demo_user ''a'' ''y'')) BatchDone None demo_tx (db_engine demo_staged) in
    refusal = None \<and> head_nodes demo_records en' ''a'' = Some (demo_user ''a'' ''y''))"
proof -
  let ?y = "demo_user ''a'' ''y''" and ?en = "db_engine demo_staged"
  have v: "ms_current_version (en_mvcc ?en) < u64_max" by (simp add: demo_version u64_max_def)
  have ok: "storage_engine_ok demo_text demo_records ?en" using demo_bare by (simp add: bare_def)
  have wf: "tx_ok demo_tx" unfolding demo_tx_def by (intro tx_ok_exec tx_ok_begin)
  have allowed: "batch_allowed demo_records (put_order ?y) BatchDone (tx_batch (discard_noop_edge_writes ?en demo_tx)) ?en"
    using put_allowed [OF demo_bare demo_encodes(1) v] by (simp add: demo_discard demo_tx_batch)
  have "\<not> overtaken ?en demo_tx" "\<not> definitions_moved ?en demo_tx"
    using check_exact [OF _ _ wf, of demo_records ?en] demo_check_passes ok by (simp_all add: storage_engine_ok_def)
  moreover have "\<not> batch_refused demo_text (put_order ?y) BatchDone demo_tx ?en"
    using batch_refused_iff [OF put_allowed [OF demo_bare demo_encodes(1) v], of demo_text] put_accepted [OF demo_bare codec_ok_demo demo_encodes(1) v]
    by (auto simp: batch_refused_def demo_tx_batch)
  ultimately show ?thesis
    using transaction_commit_exact [OF codec_ok_demo demo_staged_reached demo_tx_open allowed]
    by (auto simp: Let_def demo_discard writes_applied_def demo_tx_fields overlaid_def bt_get_Cons split: prod.splits)
qed

end
