(* ===== verification/Spec2Isabelle.thy ===== *)
theory Spec2Isabelle
  imports Mvcc_Namespace Fabric Tx_Session Raft_Election Coordinator_Reads Pack_Roundtrip
    Index_Exact Async_Worker Store_Guarantees
begin

text \<open>
  A verification library for copperDB, a graph database in Rust. It models the parts of the workspace
  that hold the database's own state and decide what its clients see. In the order of the imports:

  Storage, crates/storage. A store of graph records with ids; the layers below can be read from the
  bottom up.
  \<^item> mvcc.rs. \<open>Mvcc_Key\<close> is one versioned key, \<open>MvccKeyState\<close>: \<open>read_at\<close> and the two prunings against the
    list of all its versions. \<open>Mvcc_Index\<close> has the records of lib.rs and the secondary indices.
    \<open>Mvcc_Store\<close> is \<open>MvccStore\<close> with its operations, \<open>Mvcc_Views\<close> its invariant \<open>mvcc_ok\<close> and the graph it
    shows at every timestamp (refinement of writes, exact lookups). \<open>Mvcc_Lifecycle\<close> has pruning,
    compaction and the reachable stores, \<open>Mvcc_Batch\<close> staging, publishing and restoring of batches,
    \<open>Mvcc_Namespace\<close> the view of one namespace.
  \<^item> Indexes of nodes, lib.rs, storage_property_index_encoding.rs, storage_node_property_range.rs.
    \<open>Index_Encoding\<close> is the order-preserving key of a value, \<open>Node_Index\<close> the key space and its upkeep,
    \<open>Node_Index_Keys\<close> and \<open>Node_Index_Store\<close> the invariant \<open>index_ok\<close>, \<open>Index_Lookup\<close>, \<open>Index_Answers\<close>,
    \<open>Index_Ranges\<close> and \<open>Index_Exact\<close> the lookups, which answer like scans of all nodes.
  \<^item> The write-behind engine, async_engine.rs. \<open>Async_Pending\<close> is the buffer, \<open>Async_Engine\<close> writes, reads
    and flushes, \<open>Async_Views\<close> the overlay of buffer and tables, \<open>Async_Refine\<close> the steps and the graph they
    refine, \<open>Async_Correct\<close> the guarantees over runs, \<open>Async_Worker\<close> the locks and replies of its threads.
  \<^item> Constraints, lib.rs. \<open>Schema_Manager\<close> is the schema manager, \<open>Schema_Engine\<close> the operations of the engine
    on it, \<open>Schema_Keys\<close> its tables, \<open>Schema_Rules\<close> the meaning of constraints, \<open>Schema_Tables\<close>,
    \<open>Schema_Store\<close>, \<open>Schema_Update\<close> and \<open>Schema_Batch\<close> the manager beside the stored records, \<open>Schema_Correct\<close>
    the invariant of runs, \<open>Schema_Guarantees\<close> the properties and the runs that fall short of them.

  \<^item> Knowledge policies, lib.rs and eval/src/eval_engine_policy.rs. \<open>Policy_Catalog\<close> is the catalog of decay
    profiles, promotion profiles and policies with its checks, \<open>Policy_Store\<close> the operations of the engine
    and of a transaction on it, \<open>Policy_Sound\<close> the invariant that every reference and script of a stored
    catalog is valid, \<open>Policy_Overlay\<close> the overlay of a transaction's changes over the stored tables,
    \<open>Policy_Agree\<close> the properties: the checks keep the invariant and a transaction's catalog is what
    the same statements make of the tables.
  \<^item> Batches and transactions, lib.rs. \<open>Store_Engine\<close> composes a whole batch of the parts above: tables with
    their constraints, versions, definitions and policies; \<open>Store_Batch\<close> shows that tables and versions agree.
    \<open>Store_Transaction\<close> is \<open>StorageTransaction\<close>, \<open>Store_Views\<close> what it reads and hands over, \<open>Store_System\<close> and
    \<open>Store_Isolation\<close> the steps of several transactions and their invariant, \<open>Store_Guarantees\<close> the isolation,
    the outcome of a commit, the run in which a change is lost and the batch that fails after its write.
  Cluster, crates/topology and crates/replication.
  \<^item> topology/src/lib.rs. \<open>Tx_Clock\<close> is the logical clock, \<open>Topology\<close>, \<open>Topology_Registry\<close> and
    \<open>Topology_Plans\<close> the peers, placements and the plans of searches, writes and reads, \<open>Fabric\<close> the
    validation of a sharded database and its global ids.
  \<^item> replication/src/lib.rs. \<open>Raft_Node\<close>, \<open>Raft_Log\<close>, \<open>Raft_Leader\<close>, \<open>Raft_Write\<close> and \<open>Raft_Election\<close> are the
    quorum replicator: its handlers, the log they keep, client writes and elections. \<open>Replica_Store\<close>,
    \<open>Coordinator\<close> and \<open>Coordinator_Reads\<close> are the quorum coordinator with hints, repairs and their replay.

  Clients, crates/txsession and crates/bolt. \<open>Tx_Transaction\<close>, \<open>Tx_Manager\<close> and \<open>Tx_Session\<close> are bookmarks,
  transactions, their manager and the sessions. \<open>Pack_Stream\<close> and \<open>Pack_Roundtrip\<close> are the wire encoding.

  Interfaces. A locale states what several operations promise, or what a client relies on, and is
  interpreted on the model in the theory that provides it: \<open>inductive_invariant\<close> (Prelude) for every step
  relation, \<open>dictionary\<close> (BTree_Map), \<open>version_log\<close> (Mvcc_Key), \<open>record_kind\<close> (Mvcc_Index), \<open>time_oracle\<close>
  (Tx_Clock), \<open>replication_storage\<close> (Replica_Store), \<open>record_overlay\<close> (Async_Views).

  Conventions. \<open>BTreeMap\<close> is a strictly ordered association list, so iteration order is the order of
  the list (\<open>BTree_Map\<close>); a \<open>HashMap\<close> is a map, or a list whose order is an argument where the order
  shows. Strings are lists of bytes (\<open>Rust_Strings\<close>). A \<open>Result\<close> is a sum with the error on the left,
  a panic or an error is a branch. Counters keep their width: \<open>u64\<close> values whose wrap-around can show
  are words (the clock, PackStream integers, float bits), others are natural numbers with the bound
  written where the code checks it. An operation under one lock is one step; where a lock is released
  in between, the operation is several steps and the claims are about their interleavings (the
  write-behind engine, elections). Code of other packages is an argument: the rmp_serde and serde_json
  codecs, \<open>as_f64\<close>, the text of a JSON value, whether the engine below refuses a batch, what the
  network delivers. No fuel is used: every recursion of the model ends; where the loop is not over a
  list its measure is a \<open>termination\<close> proof, as for the scan of the embedding queue.

  Plan for what is left: the write-ahead log and its recovery, relationship indexes, the query cache, then the expression parser of crates/cypher.

  Not modelled, because nothing of it is logic over the database's state: the fjall backend, network
  servers and protocol dispatch (bolt/src/server.rs, server, graphql, mcp, nornicgrpc, qdrantgrpc),
  configuration, telemetry, localization, plugins, authentication and cryptography, import tools.
  Not modelled, because it computes with floating point or calls model runtimes: search scores,
  vector spaces, inference, embeddings, link prediction, decay. Not modelled yet: the Cypher parser and
  evaluator, the engine that ties all together, full-text indexes, capacity limits, record encryption.
  Of the modelled parts these are left out: log output, metrics, wall-clock waits (time is an argument),
  the field transaction_id of a repair record, which is always zero, and the pending-embedding and
  record counters of storage commits.
\<close>

end
